(* ===== verification/Prelude.thy ===== *)
theory Prelude
  imports Main "HOL-Library.Word" "HOL-Library.List_Lexorder" "HOL-Library.Char_ord"
    "HOL-Library.Multiset"
begin

text \<open>
  Shared vocabulary of the development: byte strings and the operations of Rust's \<open>str\<close> that
  the sources use, the result type of fallible code, machine-integer helpers, stable sorting by a
  key, and the generic lemmas the component theories rely on.

  A Rust \<open>String\<close> is a sequence of UTF-8 bytes, compared and measured bytewise; it is a
  \<^typ>\<open>string\<close> here, one \<^typ>\<open>char\<close> per byte, ordered lexicographically by byte value.
\<close>

named_theorems path_simps \<open>rewriting rules for byte-string and path operations\<close>

section \<open>Results\<close>

text \<open>Fallible code returns \<open>'e + 'a\<close>, with \<^const>\<open>Inl\<close> for the error. The \<open>?\<close> operator
  is \<open>rbind\<close>.\<close>

definition rbind :: "'e + 'a \<Rightarrow> ('a \<Rightarrow> 'e + 'b) \<Rightarrow> 'e + 'b" where
  "rbind r f = (case r of Inl e \<Rightarrow> Inl e | Inr x \<Rightarrow> f x)"

lemma rbind_simps [simp]: "rbind (Inl e) f = Inl e" "rbind (Inr x) f = f x"
  by (simp_all add: rbind_def)

lemma rbind_eq_Inr_iff: "rbind r f = Inr y \<longleftrightarrow> (\<exists>x. r = Inr x \<and> f x = Inr y)"
  by (cases r) auto

lemma rbind_eq_Inl_iff: "rbind r f = Inl e \<longleftrightarrow> r = Inl e \<or> (\<exists>x. r = Inr x \<and> f x = Inl e)"
  by (cases r) auto

lemma rbind_cong [fundef_cong]:
  "r = r' \<Longrightarrow> (\<And>x. r' = Inr x \<Longrightarrow> f x = g x) \<Longrightarrow> rbind r f = rbind r' g"
  by (cases r') auto

definition ok_or :: "'e \<Rightarrow> 'a option \<Rightarrow> 'e + 'a" where
  "ok_or e x = (case x of None \<Rightarrow> Inl e | Some v \<Rightarrow> Inr v)"

lemma ok_or_simps [simp]: "ok_or e None = Inl e" "ok_or e (Some v) = Inr v"
  by (simp_all add: ok_or_def)

lemma ok_or_eq_Inr_iff [simp]: "ok_or e x = Inr v \<longleftrightarrow> x = Some v"
  by (cases x) auto

definition map_err :: "('e \<Rightarrow> 'f) \<Rightarrow> 'e + 'a \<Rightarrow> 'f + 'a" where
  "map_err h r = (case r of Inl e \<Rightarrow> Inl (h e) | Inr x \<Rightarrow> Inr x)"

lemma map_err_simps [simp]: "map_err h (Inl e) = Inl (h e)" "map_err h (Inr x) = Inr x"
  by (simp_all add: map_err_def)

lemma map_err_eq_Inr_iff [simp]: "map_err h r = Inr v \<longleftrightarrow> r = Inr v"
  by (cases r) auto

text \<open>Running a fallible step over a list, threading a state and stopping at the first error:
  a \<open>for\<close> loop whose body uses \<open>?\<close>.\<close>

fun rfold :: "('x \<Rightarrow> 's \<Rightarrow> 'e + 's) \<Rightarrow> 'x list \<Rightarrow> 's \<Rightarrow> 'e + 's" where
  "rfold f [] s = Inr s"
| "rfold f (x # xs) s = rbind (f x s) (rfold f xs)"

lemma rfold_cong [fundef_cong]:
  "xs = ys \<Longrightarrow> s = t \<Longrightarrow> (\<And>x u. x \<in> set ys \<Longrightarrow> f x u = g x u) \<Longrightarrow> rfold f xs s = rfold g ys t"
  by (induction xs arbitrary: ys s t) (auto intro!: rbind_cong)

lemma rfold_append: "rfold f (xs @ ys) s = rbind (rfold f xs s) (rfold f ys)"
proof (induction xs arbitrary: s)
  case (Cons x xs)
  then show ?case by (cases "f x s") auto
qed simp

lemma rfold_error: "rfold f xs s = Inl e \<Longrightarrow> \<exists>x u. x \<in> set xs \<and> f x u = Inl e"
  by (induction xs arbitrary: s) (fastforce simp: rbind_eq_Inl_iff)+

lemma rfold_invariant:
  assumes "rfold f xs s = Inr t" and "P s"
    and "\<And>x u v. x \<in> set xs \<Longrightarrow> P u \<Longrightarrow> f x u = Inr v \<Longrightarrow> P v"
  shows "P t"
  using assms
proof (induction xs arbitrary: s)
  case (Cons x xs)
  from Cons.prems(1) obtain u where u: "f x s = Inr u" and t: "rfold f xs u = Inr t"
    by (auto simp: rbind_eq_Inr_iff)
  have "P u" using Cons.prems(2,3) u by auto
  with t show ?case by (rule Cons.IH) (use Cons.prems(3) in auto)
qed simp

section \<open>Errors of the base crate\<close>

text \<open>\<open>base::error::AppError\<close>, variant for variant.\<close>

datatype AppError =
    BadRequest string
  | Unauthorized
  | Forbidden
  | NotFound string
  | Conflict string
  | TooManyRequests
  | ContentTooLarge
  | RepoPasswdRequired
  | RepoPasswdMagicRequired
  | Internal string
  | OperationFailed string
  | RepoDeleted
  | RepoCorrupted
  | QuotaExceeded
  | BlockMissing
  | TooLarge
  | NotExists
  | Locked string
  | TwoFactorRequired
  | TwoFactorInvalid

type_synonym 'a result = "AppError + 'a"

text \<open>The \<open>Display\<close> form that \<open>thiserror\<close> derives from the \<open>#[error]\<close> attributes.\<close>

fun display_error :: "AppError \<Rightarrow> string" where
  "display_error (BadRequest m) = ''bad request: '' @ m"
| "display_error Unauthorized = ''unauthorized''"
| "display_error Forbidden = ''forbidden''"
| "display_error (NotFound m) = ''not found: '' @ m"
| "display_error (Conflict m) = ''conflict: '' @ m"
| "display_error TooManyRequests = ''too many requests''"
| "display_error ContentTooLarge = ''request body too large''"
| "display_error RepoPasswdRequired = ''repo password required''"
| "display_error RepoPasswdMagicRequired = ''repo password magic required''"
| "display_error (Internal m) = ''internal error: '' @ m"
| "display_error (OperationFailed m) = ''operation failed: '' @ m"
| "display_error RepoDeleted = ''repo deleted''"
| "display_error RepoCorrupted = ''repo corrupted''"
| "display_error QuotaExceeded = ''storage quota exceeded''"
| "display_error BlockMissing = ''blocks missing''"
| "display_error TooLarge = ''file too large''"
| "display_error NotExists = ''entry does not exist''"
| "display_error (Locked m) = ''file is locked: '' @ m"
| "display_error TwoFactorRequired = ''two factor auth token is missing''"
| "display_error TwoFactorInvalid = ''invalid two factor auth token''"

section \<open>Byte strings\<close>

abbreviation slash :: char where "slash \<equiv> CHR ''/''"
abbreviation dot :: char where "dot \<equiv> CHR ''.''"

fun split_on :: "'a \<Rightarrow> 'a list \<Rightarrow> 'a list list" where
  "split_on c [] = [[]]"
| "split_on c (x # xs) =
     (if x = c then [] # split_on c xs
      else (case split_on c xs of [] \<Rightarrow> [[x]] | w # ws \<Rightarrow> (x # w) # ws))"

fun join_with :: "'a list \<Rightarrow> 'a list list \<Rightarrow> 'a list" where
  "join_with sep [] = []"
| "join_with sep [w] = w"
| "join_with sep (w # v # ws) = w @ sep @ join_with sep (v # ws)"

lemma split_on_nonempty [simp]: "split_on c xs \<noteq> []"
  by (induction xs) (auto split: list.splits)

lemma split_on_no_sep: "w \<in> set (split_on c xs) \<Longrightarrow> c \<notin> set w"
proof (induction xs arbitrary: w)
  case (Cons x xs)
  then show ?case by (cases "split_on c xs") (auto split: if_splits)
qed simp

lemma split_on_set: "w \<in> set (split_on c xs) \<Longrightarrow> set w \<subseteq> set xs"
proof (induction xs arbitrary: w)
  case (Cons x xs)
  then show ?case by (cases "split_on c xs") (auto split: if_splits, blast+)
qed simp

lemma split_on_id: "c \<notin> set w \<Longrightarrow> split_on c w = [w]"
  by (induction w) auto

lemma split_on_append_sep: "c \<notin> set w \<Longrightarrow> split_on c (w @ c # xs) = w # split_on c xs"
  by (induction w) auto

lemma split_on_append: "split_on c (xs @ c # ys) = split_on c xs @ split_on c ys"
proof (induction xs)
  case (Cons x xs)
  then show ?case by (cases "split_on c xs") auto
qed simp

lemma split_on_join:
  "ws \<noteq> [] \<Longrightarrow> (\<And>w. w \<in> set ws \<Longrightarrow> c \<notin> set w) \<Longrightarrow> split_on c (join_with [c] ws) = ws"
proof (induction ws rule: induct_list012)
  case (3 w v ws)
  then show ?case by (simp add: split_on_append_sep)
qed (simp_all add: split_on_id)

lemma join_split_on [simp]: "join_with [c] (split_on c xs) = xs"
proof (induction xs)
  case (Cons x xs)
  obtain w ws where s: "split_on c xs = w # ws"
    by (cases "split_on c xs") auto
  show ?case using Cons s by (cases ws) auto
qed simp

lemma set_join_with: "set (join_with sep ws) \<subseteq> set sep \<union> \<Union> (set ` set ws)"
  by (induction ws rule: induct_list012) auto

lemma length_join_with:
  "length (join_with [c] ws) = sum_list (map length ws) + (length ws - 1)"
  by (induction ws rule: induct_list012) auto

lemma join_with_Cons: "ws \<noteq> [] \<Longrightarrow> join_with sep (w # ws) = w @ sep @ join_with sep ws"
  by (cases ws) auto

text \<open>\<open>str::rsplit_once\<close>: split at the last occurrence of the separator.\<close>

fun rsplit_once :: "'a \<Rightarrow> 'a list \<Rightarrow> ('a list \<times> 'a list) option" where
  "rsplit_once c [] = None"
| "rsplit_once c (x # xs) =
     (case rsplit_once c xs of
        Some (a, b) \<Rightarrow> Some (x # a, b)
      | None \<Rightarrow> if x = c then Some ([], xs) else None)"

lemma rsplit_once_None: "rsplit_once c xs = None \<longleftrightarrow> c \<notin> set xs"
  by (induction xs) (auto split: option.splits)

lemma rsplit_once_Some:
  "rsplit_once c xs = Some (a, b) \<Longrightarrow> xs = a @ c # b \<and> c \<notin> set b"
  by (induction xs arbitrary: a) (auto split: option.splits if_splits simp: rsplit_once_None)

lemma rsplit_once_append [path_simps]: "c \<notin> set b \<Longrightarrow> rsplit_once c (a @ c # b) = Some (a, b)"
proof (induction a)
  case Nil
  then have "rsplit_once c b = None" by (simp add: rsplit_once_None)
  then show ?case by simp
qed simp

definition starts_with :: "'a list \<Rightarrow> 'a list \<Rightarrow> bool" where
  "starts_with s p \<longleftrightarrow> take (length p) s = p"

lemma starts_with_iff: "starts_with s p \<longleftrightarrow> (\<exists>t. s = p @ t)"
proof
  assume "starts_with s p"
  then have "s = p @ drop (length p) s"
    by (metis append_take_drop_id starts_with_def)
  then show "\<exists>t. s = p @ t" ..
qed (auto simp: starts_with_def)

text \<open>\<open>str::strip_prefix\<close>.\<close>

definition strip_prefix :: "'a list \<Rightarrow> 'a list \<Rightarrow> 'a list option" where
  "strip_prefix s p = (if starts_with s p then Some (drop (length p) s) else None)"

text \<open>\<open>trim_start_matches\<close> and \<open>trim_end_matches\<close> with a set of single-byte characters.\<close>

definition trim_start_matches :: "'a list \<Rightarrow> 'a list \<Rightarrow> 'a list" where
  "trim_start_matches cs s = dropWhile (\<lambda>x. x \<in> set cs) s"

definition trim_end_matches :: "'a list \<Rightarrow> 'a list \<Rightarrow> 'a list" where
  "trim_end_matches cs s = rev (dropWhile (\<lambda>x. x \<in> set cs) (rev s))"

text \<open>
  \<open>str::trim\<close> removes code points with the Unicode property \<open>White_Space\<close> at both ends. Their
  UTF-8 encodings are listed here; on a valid UTF-8 string, matching an encoding at the front or
  at the back is matching a code point, since no encoding is a proper suffix of another one.
\<close>

definition white_space :: "string list" where
  "white_space =
    [[CHR 0x09], [CHR 0x0A], [CHR 0x0B], [CHR 0x0C], [CHR 0x0D], [CHR 0x20],
     [CHR 0xC2, CHR 0x85], [CHR 0xC2, CHR 0xA0], [CHR 0xE1, CHR 0x9A, CHR 0x80],
     [CHR 0xE2, CHR 0x80, CHR 0x80], [CHR 0xE2, CHR 0x80, CHR 0x81], [CHR 0xE2, CHR 0x80, CHR 0x82],
     [CHR 0xE2, CHR 0x80, CHR 0x83], [CHR 0xE2, CHR 0x80, CHR 0x84], [CHR 0xE2, CHR 0x80, CHR 0x85],
     [CHR 0xE2, CHR 0x80, CHR 0x86], [CHR 0xE2, CHR 0x80, CHR 0x87], [CHR 0xE2, CHR 0x80, CHR 0x88],
     [CHR 0xE2, CHR 0x80, CHR 0x89], [CHR 0xE2, CHR 0x80, CHR 0x8A], [CHR 0xE2, CHR 0x80, CHR 0xA8],
     [CHR 0xE2, CHR 0x80, CHR 0xA9], [CHR 0xE2, CHR 0x80, CHR 0xAF], [CHR 0xE2, CHR 0x81, CHR 0x9F],
     [CHR 0xE3, CHR 0x80, CHR 0x80]]"

fun strip_any :: "'a list list \<Rightarrow> 'a list \<Rightarrow> 'a list option" where
  "strip_any [] s = None"
| "strip_any (p # ps) s =
     (if p \<noteq> [] \<and> starts_with s p then Some (drop (length p) s) else strip_any ps s)"

lemma strip_any_length: "strip_any ps s = Some t \<Longrightarrow> length t < length s"
  by (induction ps) (auto simp: starts_with_iff split: if_splits)

lemma strip_any_suffix: "strip_any ps s = Some t \<Longrightarrow> \<exists>p. s = p @ t"
  by (induction ps) (auto simp: starts_with_iff split: if_splits)

function trim_start_any :: "'a list list \<Rightarrow> 'a list \<Rightarrow> 'a list" where
  "trim_start_any ps s =
     (case strip_any ps s of None \<Rightarrow> s | Some t \<Rightarrow> trim_start_any ps t)"
  by pat_completeness auto
termination
  by (relation "measure (\<lambda>(ps, s). length s)") (auto dest: strip_any_length)

declare trim_start_any.simps [simp del]

definition trim :: "string \<Rightarrow> string" where
  "trim s = rev (trim_start_any (map rev white_space) (rev (trim_start_any white_space s)))"

lemma strip_any_None: "(\<And>p. p \<in> set ps \<Longrightarrow> p \<noteq> [] \<Longrightarrow> hd p \<noteq> c) \<Longrightarrow> strip_any ps (c # t) = None"
proof (induction ps)
  case (Cons p ps)
  have "\<not> (p \<noteq> [] \<and> starts_with (c # t) p)" using Cons.prems [of p] by (cases p) (auto simp: starts_with_def)
  moreover have "strip_any ps (c # t) = None" by (rule Cons.IH) (use Cons.prems in auto)
  ultimately show ?case by simp
qed simp

lemma strip_any_Nil: "strip_any ps [] = None"
proof (induction ps)
  case (Cons p ps)
  then show ?case by (cases p) (simp_all add: starts_with_def)
qed simp

lemma trim_start_any_id: "s = [] \<or> hd s \<notin> hd ` set ps \<Longrightarrow> trim_start_any ps s = s"
proof -
  assume s: "s = [] \<or> hd s \<notin> hd ` set ps"
  have "strip_any ps s = None"
  proof (cases s)
    case (Cons c t)
    then show ?thesis using s by (auto intro!: strip_any_None)
  qed (simp add: strip_any_Nil)
  then show ?thesis by (subst trim_start_any.simps) simp
qed

text \<open>A string that begins and ends with no byte of a white-space encoding is not changed.\<close>

lemma trim_id:
  assumes "s \<noteq> []" "hd s \<notin> set (map hd white_space)" "last s \<notin> set (map last white_space)"
  shows "trim s = s"
proof -
  have "hd (rev s) \<notin> hd ` set (map rev white_space)" using assms(1,3) by (simp add: hd_rev image_image)
  then have "trim_start_any (map rev white_space) (rev s) = rev s" using trim_start_any_id by blast
  then show ?thesis using assms(2) trim_start_any_id [of s white_space] by (simp add: trim_def)
qed

lemma trim_Nil [simp]: "trim [] = []"
  by (simp add: trim_def trim_start_any_id)

lemma trim_start_any_suffix: "\<exists>p. s = p @ trim_start_any ps s"
proof (induction ps s rule: trim_start_any.induct)
  case (1 ps s)
  show ?case
  proof (cases "strip_any ps s")
    case None
    then show ?thesis by (simp add: trim_start_any.simps [of ps s])
  next
    case (Some t)
    with 1 obtain q where q: "t = q @ trim_start_any ps t" by blast
    obtain p where "s = p @ t" using strip_any_suffix [OF Some] by blast
    then have "s = (p @ q) @ trim_start_any ps t" using q by simp
    moreover have "trim_start_any ps s = trim_start_any ps t"
      using Some by (simp add: trim_start_any.simps [of ps s])
    ultimately show ?thesis by metis
  qed
qed

lemma trim_infix: "\<exists>p q. s = p @ trim s @ q"
proof -
  obtain p where p: "s = p @ trim_start_any white_space s"
    using trim_start_any_suffix by blast
  obtain q where q: "rev (trim_start_any white_space s) = q @ rev (trim s)"
    unfolding trim_def using trim_start_any_suffix
    by (metis rev_rev_ident)
  then have "trim_start_any white_space s = trim s @ rev q"
    by (metis rev_append rev_rev_ident)
  with p have "s = p @ trim s @ rev q" by simp
  then show ?thesis by blast
qed

text \<open>\<open>Display\<close> of unsigned and signed integers.\<close>

fun show_nat :: "nat \<Rightarrow> string" where
  "show_nat n = (if n < 10 then [char_of (48 + n)] else show_nat (n div 10) @ [char_of (48 + n mod 10)])"

declare show_nat.simps [simp del]

definition show_int :: "int \<Rightarrow> string" where
  "show_int i = (if i < 0 then CHR ''-'' # show_nat (nat (- i)) else show_nat (nat i))"

text \<open>\<open>char::to_ascii_uppercase\<close> and \<open>to_ascii_lowercase\<close> on bytes.\<close>

definition to_ascii_lowercase :: "string \<Rightarrow> string" where
  "to_ascii_lowercase s =
     map (\<lambda>c. let n = of_char c :: nat in if 65 \<le> n \<and> n \<le> 90 then char_of (n + 32) else c) s"

definition to_ascii_uppercase :: "string \<Rightarrow> string" where
  "to_ascii_uppercase s =
     map (\<lambda>c. let n = of_char c :: nat in if 97 \<le> n \<and> n \<le> 122 then char_of (n - 32) else c) s"

lemma set_map_filter: "set (List.map_filter f xs) = {y. \<exists>x\<in>set xs. f x = Some y}"
  by (induction xs) (auto simp: List.map_filter_simps split: option.splits)

lemma map_filter_concat: "map f (filter P xs) = concat (map (\<lambda>x. if P x then [f x] else []) xs)"
  by (induction xs) auto

section \<open>Machine integers\<close>

abbreviation i64_max :: int where "i64_max \<equiv> 2 ^ 63 - 1"
abbreviation i64_min :: int where "i64_min \<equiv> - (2 ^ 63)"
abbreviation usize_max :: nat where "usize_max \<equiv> 2 ^ 64 - 1"

definition i64_sat :: "int \<Rightarrow> int" where
  "i64_sat x = max i64_min (min i64_max x)"

text \<open>Two's complement wrap-around of an \<open>i64\<close> result, as release builds compute it.\<close>

definition i64_wrap :: "int \<Rightarrow> int" where
  "i64_wrap x = (x + 2 ^ 63) mod 2 ^ 64 - 2 ^ 63"

lemma i64_wrap_id: "i64_min \<le> x \<Longrightarrow> x \<le> i64_max \<Longrightarrow> i64_wrap x = x"
  by (simp add: i64_wrap_def)

lemma i64_wrap_code [code]:
  "i64_wrap x = (if -9223372036854775808 \<le> x \<and> x \<le> 9223372036854775807 then x
     else (x + 9223372036854775808) mod 18446744073709551616 - 9223372036854775808)"
  by (simp add: i64_wrap_def)

lemma i64_wrap_range: "i64_min \<le> i64_wrap x \<and> i64_wrap x \<le> i64_max"
  by (simp add: i64_wrap_def)

lemma i64_wrap_add_left [simp]: "i64_wrap (i64_wrap a + b) = i64_wrap (a + b)"
proof -
  have "(a + 2 ^ 63) mod 2 ^ 64 - 2 ^ 63 + b + 2 ^ 63 = (a + 2 ^ 63) mod 2 ^ 64 + (b :: int)" by simp
  then show ?thesis by (simp add: i64_wrap_def mod_add_left_eq) (simp add: algebra_simps)
qed

lemma i64_wrap_wrap [simp]: "i64_wrap (i64_wrap a) = i64_wrap a"
  using i64_wrap_add_left [of a 0] by simp

lemma i64_sat_id: "i64_min \<le> x \<Longrightarrow> x \<le> i64_max \<Longrightarrow> i64_sat x = x"
  by (simp add: i64_sat_def)

definition usize_sat_add :: "nat \<Rightarrow> nat \<Rightarrow> nat" where
  "usize_sat_add a b = min usize_max (a + b)"

lemma usize_sat_add_code [code]:
  "usize_sat_add a b = (if int (a + b) \<le> 18446744073709551615 then a + b else usize_max)"
  by (auto simp: usize_sat_add_def)

section \<open>Stable sorting by a key\<close>

text \<open>
  \<open>sort_by\<close> of Rust's slices is stable. \<open>sort_desc\<close> is the stable sort into descending order
  of a key: an element is inserted in front of the elements with an equal key that followed it.
\<close>

fun insert_desc :: "('a \<Rightarrow> 'k::linorder) \<Rightarrow> 'a \<Rightarrow> 'a list \<Rightarrow> 'a list" where
  "insert_desc f x [] = [x]"
| "insert_desc f x (y # ys) = (if f y \<le> f x then x # y # ys else y # insert_desc f x ys)"

definition sort_desc :: "('a \<Rightarrow> 'k::linorder) \<Rightarrow> 'a list \<Rightarrow> 'a list" where
  "sort_desc f xs = foldr (insert_desc f) xs []"

definition sorted_desc :: "('a \<Rightarrow> 'k::linorder) \<Rightarrow> 'a list \<Rightarrow> bool" where
  "sorted_desc f xs \<longleftrightarrow> sorted_wrt (\<lambda>x y. f y \<le> f x) xs"

lemma sort_desc_simps [simp]:
  "sort_desc f [] = []" "sort_desc f (x # xs) = insert_desc f x (sort_desc f xs)"
  by (simp_all add: sort_desc_def)

lemma sorted_desc_simps [simp]:
  "sorted_desc f []" "sorted_desc f (x # xs) \<longleftrightarrow> (\<forall>y\<in>set xs. f y \<le> f x) \<and> sorted_desc f xs"
  by (simp_all add: sorted_desc_def)

lemma mset_insert_desc [simp]: "mset (insert_desc f x xs) = add_mset x (mset xs)"
  by (induction xs) auto

lemma mset_sort_desc [simp]: "mset (sort_desc f xs) = mset xs"
  by (induction xs) auto

lemma set_insert_desc [simp]: "set (insert_desc f x xs) = insert x (set xs)"
  by (induction xs) auto

lemma set_sort_desc [simp]: "set (sort_desc f xs) = set xs"
  by (induction xs) auto

lemma length_sort_desc [simp]: "length (sort_desc f xs) = length xs"
  by (metis mset_sort_desc size_mset)

lemma sort_desc_eq_Nil [simp]: "sort_desc f xs = [] \<longleftrightarrow> xs = []"
  by (metis length_0_conv length_sort_desc)

lemma sorted_insert_desc: "sorted_desc f xs \<Longrightarrow> sorted_desc f (insert_desc f x xs)"
  by (induction xs) (auto intro: order_trans)

lemma sorted_sort_desc [simp]: "sorted_desc f (sort_desc f xs)"
  by (induction xs) (auto intro: sorted_insert_desc)

lemma sort_desc_id: "sorted_desc f xs \<Longrightarrow> sort_desc f xs = xs"
proof (induction xs)
  case (Cons x xs)
  then show ?case by (cases xs) auto
qed simp

lemma sort_desc_idem [simp]: "sort_desc f (sort_desc f xs) = sort_desc f xs"
  by (rule sort_desc_id) simp

lemma sorted_desc_Cons_eq:
  assumes "sorted_desc f (x # xs)" "sorted_desc f (y # ys)" "mset (x # xs) = mset (y # ys)"
  shows "f x = f y"
proof -
  have "y \<in> set (x # xs)" "x \<in> set (y # ys)"
    using assms(3) by (metis list.set_intros(1) mset_eq_setD)+
  then show ?thesis using assms(1,2) by (auto intro: order_antisym)
qed

text \<open>With distinct keys a permutation has one sorted form.\<close>

lemma sorted_desc_unique:
  assumes "sorted_desc f xs" "sorted_desc f ys" "mset xs = mset ys" "distinct (map f xs)"
  shows "xs = ys"
  using assms
proof (induction xs arbitrary: ys)
  case (Cons x xs)
  then obtain y zs where ys: "ys = y # zs" by (cases ys) auto
  have "f x = f y" using Cons.prems sorted_desc_Cons_eq [of f x xs y zs] ys by simp
  moreover have "y \<in> set (x # xs)"
    using Cons.prems(3) ys by (metis list.set_intros(1) mset_eq_setD)
  ultimately have "x = y" using Cons.prems(4) by force
  then show ?case using Cons.IH [of zs] Cons.prems ys by simp
qed simp

lemma sort_desc_permute:
  "mset xs = mset ys \<Longrightarrow> distinct (map f xs) \<Longrightarrow> sort_desc f xs = sort_desc f ys"
  by (rule sorted_desc_unique [of f])
    (simp_all, metis distinct_map mset_eq_imp_distinct_iff mset_sort_desc set_sort_desc)

text \<open>A stable sort does not change the first element with a given key.\<close>

lemma find_insert_desc:
  "find (\<lambda>e. f e = k) (insert_desc f x xs) = (if f x = k then Some x else find (\<lambda>e. f e = k) xs)"
  by (induction xs) auto

lemma find_sort_desc [simp]: "find (\<lambda>e. f e = k) (sort_desc f xs) = find (\<lambda>e. f e = k) xs"
  by (induction xs) (auto simp: find_insert_desc)

section \<open>Association lists as hash maps\<close>

text \<open>
  A \<open>HashMap\<close> with a finite content is an association list with distinct keys; \<open>hm_insert\<close>
  replaces the value of an existing key in place and appends a new one. No result below depends
  on the iteration order unless its statement says so.
\<close>

fun hm_insert :: "'k \<Rightarrow> 'v \<Rightarrow> ('k \<times> 'v) list \<Rightarrow> ('k \<times> 'v) list" where
  "hm_insert k v [] = [(k, v)]"
| "hm_insert k v ((k', v') # m) = (if k' = k then (k, v) # m else (k', v') # hm_insert k v m)"

definition hm_remove :: "'k \<Rightarrow> ('k \<times> 'v) list \<Rightarrow> ('k \<times> 'v) list" where
  "hm_remove k m = filter (\<lambda>(k', _). k' \<noteq> k) m"

lemma map_of_hm_insert [simp]: "map_of (hm_insert k v m) = (map_of m)(k \<mapsto> v)"
  by (induction m) auto

lemma map_of_hm_remove [simp]: "map_of (hm_remove k m) = (map_of m)(k := None)"
  by (induction m) (auto simp: hm_remove_def)

lemma keys_hm_insert [simp]: "fst ` set (hm_insert k v m) = insert k (fst ` set m)"
  by (induction k v m rule: hm_insert.induct) (simp_all add: insert_commute)

lemma distinct_hm_insert [simp]:
  "distinct (map fst m) \<Longrightarrow> distinct (map fst (hm_insert k v m))"
proof (induction m)
  case (Cons p m)
  have "fst p \<noteq> k \<Longrightarrow> fst p \<notin> fst ` set m \<Longrightarrow> fst p \<notin> fst ` set (hm_insert k v m)" by simp
  then show ?case using Cons by (cases p) (auto simp del: keys_hm_insert)
qed simp

lemma distinct_hm_remove [simp]:
  "distinct (map fst m) \<Longrightarrow> distinct (map fst (hm_remove k m))"
  by (simp add: hm_remove_def distinct_map_filter)

lemma hm_insert_subset: "set (hm_insert k v m) \<subseteq> insert (k, v) (set m)"
  by (induction k v m rule: hm_insert.induct) auto

lemma length_hm_insert:
  "length (hm_insert k v m) = (if k \<in> fst ` set m then length m else Suc (length m))"
  by (induction k v m rule: hm_insert.induct) simp_all

lemma length_hm_remove_le: "length (hm_remove k m) \<le> length m"
  by (simp add: hm_remove_def)

lemma set_hm_remove: "set (hm_remove k m) = {p \<in> set m. fst p \<noteq> k}"
  by (auto simp: hm_remove_def)

end
