(* ===== verification/FsObject.thy ===== *)
theory FsObject
  imports Prelude
begin

unbundle bit_operations_syntax

text \<open>
  The file-system objects of a library: \<open>base/src/common.rs\<close> (constants and storage structs),
  \<open>server/src/domain/fs.rs\<close> (serialization, object ids, canonical order),
  \<open>server/src/fs/core/store.rs\<close> (writing objects) and the readers of
  \<open>server/src/fs/core/tree.rs\<close>.

  The \<open>fs_objects\<close> table is a map from \<open>(repo_id, fs_id)\<close> to a row; the unique index on that
  pair is what makes it a function. Reads and writes that fail in the database driver are not
  modelled. Third-party code is a parameter: \<open>serde_json\<close> (quoting a string, parsing an object)
  and SHA-1 are fields of the record \<open>externs\<close> that the operations take.
\<close>

section \<open>Data\<close>

definition EMPTY_SHA1 :: string where
  "EMPTY_SHA1 = replicate 40 (CHR ''0'')"

definition S_IFDIR :: "32 word" where "S_IFDIR = 16384"
definition SEAF_METADATA_TYPE_FILE :: int where "SEAF_METADATA_TYPE_FILE = 1"
definition SEAF_METADATA_TYPE_DIR :: int where "SEAF_METADATA_TYPE_DIR = 3"

definition S_IFMT :: "32 word" where "S_IFMT = 0xF000"
definition S_IFREG_TYPE :: "32 word" where "S_IFREG_TYPE = 0x8000"
definition S_IFDIR_TYPE :: "32 word" where "S_IFDIR_TYPE = 0x4000"

text \<open>\<open>mode\<close> is an \<open>i32\<close> used as a bit mask; \<open>mtime\<close> and \<open>size\<close> are \<open>i64\<close>.\<close>

record DirEntryData =
  de_id :: string
  de_mode :: "32 word"
  de_modifier :: string
  de_mtime :: int
  de_name :: string
  de_size :: int

record FsDirData =
  dirents :: "DirEntryData list"
  dir_type :: int
  dir_version :: int

record FsFileData =
  block_ids :: "string list"
  file_size :: int
  file_type :: int
  file_version :: int

record externs =
  json_string :: "string \<Rightarrow> string"
  sha1_hex :: "string \<Rightarrow> string"
  parse_dir :: "string \<Rightarrow> string + FsDirData"
  parse_file :: "string \<Rightarrow> string + FsFileData"

text \<open>One row of \<open>fs_objects\<close>, without its key columns.\<close>

record fs_object =
  obj_type :: int
  obj_data :: string

type_synonym fs_objects = "string \<times> string \<Rightarrow> fs_object option"

section \<open>Serialization (domain/fs.rs)\<close>

definition is_regular :: "32 word \<Rightarrow> bool" where
  "is_regular mode \<longleftrightarrow> mode AND S_IFMT = S_IFREG_TYPE"

definition is_dir_mode :: "32 word \<Rightarrow> bool" where
  "is_dir_mode mode \<longleftrightarrow> mode AND S_IFMT = S_IFDIR_TYPE"

text \<open>The looser test \<open>entry.mode & 0o40000 != 0\<close> that several walks use.\<close>

definition has_dir_bit :: "32 word \<Rightarrow> bool" where
  "has_dir_bit mode \<longleftrightarrow> mode AND S_IFDIR \<noteq> 0"

definition quote :: string where "quote = [CHR 0x22]"

definition dirent_to_json :: "externs \<Rightarrow> DirEntryData \<Rightarrow> string" where
  "dirent_to_json x d =
     (let reg = is_regular (de_mode d) in
      ''{'' @ quote @ ''id'' @ quote @ '': '' @ json_string x (de_id d) @
      '', '' @ quote @ ''mode'' @ quote @ '': '' @ show_int (sint (de_mode d)) @
      (if reg then '', '' @ quote @ ''modifier'' @ quote @ '': '' @ json_string x (de_modifier d) else []) @
      '', '' @ quote @ ''mtime'' @ quote @ '': '' @ show_int (de_mtime d) @
      '', '' @ quote @ ''name'' @ quote @ '': '' @ json_string x (de_name d) @
      (if reg then '', '' @ quote @ ''size'' @ quote @ '': '' @ show_int (de_size d) else []) @
      ''}'')"

definition dir_to_json :: "externs \<Rightarrow> FsDirData \<Rightarrow> string" where
  "dir_to_json x data =
     ''{'' @ quote @ ''dirents'' @ quote @ '': ['' @
     join_with '', '' (map (dirent_to_json x) (dirents data)) @
     ''], '' @ quote @ ''type'' @ quote @ '': '' @ show_int (dir_type data) @
     '', '' @ quote @ ''version'' @ quote @ '': '' @ show_int (dir_version data) @ ''}''"

definition file_to_json :: "externs \<Rightarrow> FsFileData \<Rightarrow> string" where
  "file_to_json x data =
     ''{'' @ quote @ ''block_ids'' @ quote @ '': ['' @
     join_with '', '' (map (json_string x) (block_ids data)) @
     ''], '' @ quote @ ''size'' @ quote @ '': '' @ show_int (file_size data) @
     '', '' @ quote @ ''type'' @ quote @ '': '' @ show_int (file_type data) @
     '', '' @ quote @ ''version'' @ quote @ '': '' @ show_int (file_version data) @ ''}''"

definition compute_fs_id :: "externs \<Rightarrow> string \<Rightarrow> string" where
  "compute_fs_id x json = sha1_hex x json"

definition sort_dirents_desc :: "DirEntryData list \<Rightarrow> DirEntryData list" where
  "sort_dirents_desc es = sort_desc de_name es"

definition compute_dir :: "externs \<Rightarrow> FsDirData \<Rightarrow> (string \<times> string) option" where
  "compute_dir x data =
     (if dirents data = [] then None
      else let json = dir_to_json x data in Some (compute_fs_id x json, json))"

definition compute_file :: "externs \<Rightarrow> FsFileData \<Rightarrow> (string \<times> string) option" where
  "compute_file x data =
     (if file_size data = 0 then None
      else let json = file_to_json x data in Some (compute_fs_id x json, json))"

section \<open>Writing objects (fs/core/store.rs)\<close>

text \<open>The conversion \<open>as i8\<close> keeps the low eight bits.\<close>

definition as_i8 :: "int \<Rightarrow> int" where
  "as_i8 n = (n + 128) mod 256 - 128"

text \<open>\<open>INSERT OR IGNORE\<close>: an existing row with the same key stays as it is.\<close>

definition insert_or_ignore :: "string \<Rightarrow> string \<Rightarrow> fs_object \<Rightarrow> fs_objects \<Rightarrow> fs_objects" where
  "insert_or_ignore repo_id fs_id row db =
     (case db (repo_id, fs_id) of None \<Rightarrow> db((repo_id, fs_id) \<mapsto> row) | Some _ \<Rightarrow> db)"

definition store_fs_dir_object ::
    "externs \<Rightarrow> string \<Rightarrow> FsDirData \<Rightarrow> fs_objects \<Rightarrow> string \<times> fs_objects" where
  "store_fs_dir_object x repo_id data db =
     (if dirents data = [] then (EMPTY_SHA1, db)
      else let data = data\<lparr>dirents := sort_dirents_desc (dirents data)\<rparr> in
        (case compute_dir x data of
           Some (fs_id, json) \<Rightarrow>
             (fs_id, insert_or_ignore repo_id fs_id
                       \<lparr>obj_type = as_i8 (dir_type data), obj_data = json\<rparr> db)
         | None \<Rightarrow> (EMPTY_SHA1, db)))"

definition store_fs_file_object ::
    "externs \<Rightarrow> string \<Rightarrow> FsFileData \<Rightarrow> fs_objects \<Rightarrow> string \<times> fs_objects" where
  "store_fs_file_object x repo_id data db =
     (case compute_file x data of
        None \<Rightarrow> (EMPTY_SHA1, db)
      | Some (fs_id, json) \<Rightarrow>
          (fs_id, insert_or_ignore repo_id fs_id
                    \<lparr>obj_type = as_i8 (file_type data), obj_data = json\<rparr> db))"

section \<open>Reading objects (fs/core/tree.rs)\<close>

definition empty_dir :: FsDirData where
  "empty_dir = \<lparr>dirents = [], dir_type = SEAF_METADATA_TYPE_DIR, dir_version = 1\<rparr>"

definition empty_file :: FsFileData where
  "empty_file = \<lparr>block_ids = [], file_size = 0, file_type = SEAF_METADATA_TYPE_FILE, file_version = 1\<rparr>"

definition read_fs_dir_data ::
    "externs \<Rightarrow> fs_objects \<Rightarrow> string \<Rightarrow> string \<Rightarrow> FsDirData result" where
  "read_fs_dir_data x db repo_id fs_id =
     (if fs_id = EMPTY_SHA1 then Inr empty_dir
      else rbind (ok_or (NotFound (''fs_object not found: '' @ fs_id)) (db (repo_id, fs_id))) (\<lambda>obj.
        if obj_type obj \<noteq> as_i8 SEAF_METADATA_TYPE_DIR
        then Inl (NotFound (''fs_object '' @ fs_id @ '' is not a directory''))
        else map_err Internal (parse_dir x (obj_data obj))))"

definition read_fs_file_data ::
    "externs \<Rightarrow> fs_objects \<Rightarrow> string \<Rightarrow> string \<Rightarrow> FsFileData result" where
  "read_fs_file_data x db repo_id fs_id =
     (if fs_id = EMPTY_SHA1 then Inr empty_file
      else rbind (ok_or (NotFound (''fs_object not found: '' @ fs_id)) (db (repo_id, fs_id))) (\<lambda>obj.
        if obj_type obj \<noteq> as_i8 SEAF_METADATA_TYPE_FILE
        then Inl (NotFound (''fs_object '' @ fs_id @ '' is not a file''))
        else map_err Internal (parse_file x (obj_data obj))))"

definition IN_BATCH :: nat where "IN_BATCH = 500"

text \<open>\<open>slice::chunks\<close>.\<close>

function chunks :: "nat \<Rightarrow> 'a list \<Rightarrow> 'a list list" where
  "chunks n xs = (if xs = [] \<or> n = 0 then [] else take n xs # chunks n (drop n xs))"
  by pat_completeness auto
termination
  by (relation "measure (\<lambda>(n, xs). length xs)") auto

declare chunks.simps [simp del]

text \<open>\<open>FsObjectRepository::find_by_repo_and_fs_ids\<close>: the rows of one \<open>IN\<close> query per chunk; a row
  comes back once however often its id is listed in a chunk.\<close>

definition find_by_repo_and_fs_ids ::
    "fs_objects \<Rightarrow> string \<Rightarrow> string list \<Rightarrow> (string \<times> fs_object) list" where
  "find_by_repo_and_fs_ids db repo_id fs_ids =
     concat (map (\<lambda>chunk.
       List.map_filter (\<lambda>i. map_option (Pair i) (db (repo_id, i))) (remdups chunk)) (chunks 500 fs_ids))"

definition fetch_fs_object_map ::
    "fs_objects \<Rightarrow> string \<Rightarrow> string list \<Rightarrow> (string \<times> fs_object) list" where
  "fetch_fs_object_map db repo_id fs_ids =
     fold (\<lambda>chunk m. fold (\<lambda>(i, obj) m. hm_insert i obj m)
                       (find_by_repo_and_fs_ids db repo_id chunk) m)
       (chunks IN_BATCH fs_ids) []"

definition read_fs_dir_data_batch ::
    "externs \<Rightarrow> fs_objects \<Rightarrow> string \<Rightarrow> string list \<Rightarrow> (string \<times> FsDirData) list result" where
  "read_fs_dir_data_batch x db repo_id fs_ids =
     rfold (\<lambda>(fs_id, obj) out.
         if obj_type obj \<noteq> as_i8 SEAF_METADATA_TYPE_DIR then Inr out
         else rbind (map_err Internal (parse_dir x (obj_data obj)))
                (\<lambda>data. Inr (hm_insert fs_id data out)))
       (fetch_fs_object_map db repo_id (filter (\<lambda>i. i \<noteq> EMPTY_SHA1) fs_ids)) []"

definition read_fs_file_data_batch ::
    "externs \<Rightarrow> fs_objects \<Rightarrow> string \<Rightarrow> string list \<Rightarrow> (string \<times> FsFileData) list result" where
  "read_fs_file_data_batch x db repo_id fs_ids =
     rfold (\<lambda>(fs_id, obj) out.
         if obj_type obj \<noteq> as_i8 SEAF_METADATA_TYPE_FILE then Inr out
         else rbind (map_err Internal (parse_file x (obj_data obj)))
                (\<lambda>data. Inr (hm_insert fs_id data out)))
       (fetch_fs_object_map db repo_id (filter (\<lambda>i. i \<noteq> EMPTY_SHA1) fs_ids))
       (if list_ex (\<lambda>i. i = EMPTY_SHA1) fs_ids then [(EMPTY_SHA1, empty_file)] else [])"

section \<open>The table grows only\<close>

text \<open>
  An interface for stores that never overwrite: whatever a read finds stays found, with the same
  value, after any sequence of writes. The object table is one; the writers of the other
  components (merge, order repair) go through it.
\<close>

locale append_store =
  fixes get :: "'db \<Rightarrow> 'k \<Rightarrow> 'v option"
    and put :: "'op \<Rightarrow> 'db \<Rightarrow> 'db"
  assumes put_keeps: "get db k = Some v \<Longrightarrow> get (put w db) k = Some v"
begin

lemma puts_keep: "get db k = Some v \<Longrightarrow> get (fold put ws db) k = Some v"
  by (induction ws arbitrary: db) (auto intro: put_keeps)

lemma puts_le: "get db \<subseteq>\<^sub>m get (fold put ws db)"
  unfolding map_le_def by (metis domD puts_keep)

end

datatype fs_write = WriteDir string FsDirData | WriteFile string FsFileData

fun apply_write :: "externs \<Rightarrow> fs_write \<Rightarrow> fs_objects \<Rightarrow> fs_objects" where
  "apply_write x (WriteDir repo_id d) db = snd (store_fs_dir_object x repo_id d db)"
| "apply_write x (WriteFile repo_id f) db = snd (store_fs_file_object x repo_id f db)"

lemma insert_or_ignore_le: "db \<subseteq>\<^sub>m insert_or_ignore repo_id fs_id row db"
  by (auto simp: insert_or_ignore_def map_le_def split: option.splits)

lemma store_dir_le: "db \<subseteq>\<^sub>m snd (store_fs_dir_object x repo_id d db)"
  by (auto simp: store_fs_dir_object_def Let_def insert_or_ignore_le split: option.splits)

lemma store_file_le: "db \<subseteq>\<^sub>m snd (store_fs_file_object x repo_id f db)"
  by (auto simp: store_fs_file_object_def insert_or_ignore_le split: option.splits)

lemma map_le_SomeD: "m \<subseteq>\<^sub>m m' \<Longrightarrow> m k = Some v \<Longrightarrow> m' k = Some v"
  by (metis domI map_le_def)

interpretation objects: append_store "\<lambda>db. db" "apply_write x" for x
proof
  fix db :: fs_objects and k v w
  assume "db k = Some v"
  then show "apply_write x w db k = Some v"
    by (cases w) (auto intro: map_le_SomeD [OF store_dir_le] map_le_SomeD [OF store_file_le])
qed

lemma read_dir_mono:
  "db \<subseteq>\<^sub>m db' \<Longrightarrow> read_fs_dir_data x db r i = Inr d \<Longrightarrow> read_fs_dir_data x db' r i = Inr d"
  by (auto simp: read_fs_dir_data_def rbind_eq_Inr_iff dest: map_le_SomeD split: if_splits)

lemma read_file_mono:
  "db \<subseteq>\<^sub>m db' \<Longrightarrow> read_fs_file_data x db r i = Inr f \<Longrightarrow> read_fs_file_data x db' r i = Inr f"
  by (auto simp: read_fs_file_data_def rbind_eq_Inr_iff dest: map_le_SomeD split: if_splits)

section \<open>Batched reads agree with single reads\<close>

lemma concat_chunks: "0 < n \<Longrightarrow> concat (chunks n xs) = xs"
proof (induction n xs rule: chunks.induct)
  case (1 n xs)
  then show ?case by (cases "xs = []") (simp_all add: chunks.simps [of n xs] chunks.simps [of n "[]"])
qed

lemma in_chunks: "0 < n \<Longrightarrow> (\<exists>c\<in>set (chunks n xs). i \<in> set c) \<longleftrightarrow> i \<in> set xs"
  using concat_chunks [of n xs] by (metis UN_iff set_concat)

lemma find_by_ids_set:
  "set (find_by_repo_and_fs_ids db r ids) = {(i, obj). i \<in> set ids \<and> db (r, i) = Some obj}"
proof -
  have "(i, obj) \<in> set (find_by_repo_and_fs_ids db r ids) \<longleftrightarrow>
        (\<exists>c\<in>set (chunks 500 ids). i \<in> set c) \<and> db (r, i) = Some obj" for i obj
    by (fastforce simp: find_by_repo_and_fs_ids_def set_map_filter)
  then show ?thesis by (auto simp: in_chunks)
qed

lemma map_of_fold_insert:
  assumes "\<And>i obj. (i, obj) \<in> set rows \<Longrightarrow> f i = Some obj"
  shows "map_of (fold (\<lambda>(i, obj) m. hm_insert i obj m) rows m) k =
    (if k \<in> fst ` set rows then f k else map_of m k)"
  using assms
proof (induction rows arbitrary: m)
  case (Cons row rows)
  obtain i obj where "row = (i, obj)" by (cases row)
  moreover have "f i = Some obj" using Cons.prems [of i obj] calculation by simp
  moreover have "map_of (fold (\<lambda>(i, obj) m. hm_insert i obj m) rows (hm_insert i obj m)) k =
      (if k \<in> fst ` set rows then f k else map_of (hm_insert i obj m) k)"
    using Cons.prems by (intro Cons.IH) simp
  ultimately show ?case by auto
qed simp

lemma map_of_fold_chunks:
  "map_of (fold (\<lambda>c m. fold (\<lambda>(i, obj) m. hm_insert i obj m) (find_by_repo_and_fs_ids db r c) m) cs m) i =
   (if (\<exists>c\<in>set cs. i \<in> set c) \<and> db (r, i) \<noteq> None then db (r, i) else map_of m i)"
proof (induction cs arbitrary: m)
  case (Cons c cs)
  have "i \<in> fst ` set (find_by_repo_and_fs_ids db r c) \<longleftrightarrow> i \<in> set c \<and> db (r, i) \<noteq> None"
    by (force simp: find_by_ids_set)
  moreover have "map_of (fold (\<lambda>(i, obj) m. hm_insert i obj m) (find_by_repo_and_fs_ids db r c) m) i =
      (if i \<in> fst ` set (find_by_repo_and_fs_ids db r c) then db (r, i) else map_of m i)"
    by (rule map_of_fold_insert) (simp add: find_by_ids_set)
  ultimately show ?case by (auto simp: Cons.IH)
qed simp

lemma map_of_fetch:
  "map_of (fetch_fs_object_map db r ids) i = (if i \<in> set ids then db (r, i) else None)"
  unfolding fetch_fs_object_map_def map_of_fold_chunks
  by (auto simp: in_chunks IN_BATCH_def)

lemma distinct_fold_insert:
  "distinct (map fst m) \<Longrightarrow> distinct (map fst (fold (\<lambda>(i, obj) m. hm_insert i obj m) rows m))"
  by (induction rows arbitrary: m) (auto split: prod.splits)

lemma distinct_fetch: "distinct (map fst (fetch_fs_object_map db r ids))"
proof -
  have "distinct (map fst m) \<Longrightarrow> distinct (map fst (fold (\<lambda>c m. fold (\<lambda>(i, obj) m. hm_insert i obj m)
    (find_by_repo_and_fs_ids db r c) m) cs m))" for cs m
    by (induction cs arbitrary: m) (auto intro: distinct_fold_insert)
  then show ?thesis by (simp add: fetch_fs_object_map_def)
qed

text \<open>The shape both batch readers share: skip the rows of the wrong type, stop at the first row
  that does not parse, collect the rest.\<close>

lemma rfold_collect_ok:
  assumes "rfold (\<lambda>(i, obj) out. if \<not> P obj then Inr out
      else rbind (g obj) (\<lambda>d. Inr (hm_insert i d out))) rows out0 = Inr out"
    and "distinct (map fst rows)"
  shows "map_of out i = (case map_of rows i of
      Some obj \<Rightarrow> if P obj then (case g obj of Inr d \<Rightarrow> Some d | Inl _ \<Rightarrow> None) else map_of out0 i
    | None \<Rightarrow> map_of out0 i)"
  using assms
proof (induction rows arbitrary: out0)
  case (Cons row rows)
  obtain k obj where row: "row = (k, obj)" by (cases row)
  have k: "map_of rows k = None" using Cons.prems(2) row by (simp add: map_of_eq_None_iff)
  show ?case
  proof (cases "P obj")
    case False
    then show ?thesis using Cons row k by (auto split: option.splits)
  next
    case True
    then obtain d where "g obj = Inr d" using Cons.prems(1) row by (cases "g obj") auto
    then show ?thesis using Cons.IH [of "hm_insert k d out0"] Cons.prems row k True
      by (auto split: option.splits)
  qed
qed simp

lemma read_dir_batch_iff:
  assumes "read_fs_dir_data_batch x db r ids = Inr m"
  shows "map_of m i = Some d \<longleftrightarrow> i \<in> set ids \<and> i \<noteq> EMPTY_SHA1 \<and> read_fs_dir_data x db r i = Inr d"
proof -
  let ?P = "\<lambda>obj. obj_type obj = as_i8 SEAF_METADATA_TYPE_DIR"
  let ?rows = "fetch_fs_object_map db r (filter (\<lambda>i. i \<noteq> EMPTY_SHA1) ids)"
  have "map_of m i = (case map_of ?rows i of
      Some obj \<Rightarrow> if ?P obj then (case map_err Internal (parse_dir x (obj_data obj)) of
        Inr d \<Rightarrow> Some d | Inl _ \<Rightarrow> None) else map_of [] i
    | None \<Rightarrow> map_of [] i)"
    by (rule rfold_collect_ok) (use assms distinct_fetch in \<open>simp_all add: read_fs_dir_data_batch_def\<close>)
  then show ?thesis
    by (auto simp: map_of_fetch read_fs_dir_data_def split: option.splits sum.splits if_splits)
qed

section \<open>Round trips and canonical identity\<close>

text \<open>What the serialized form keeps of an entry: \<open>modifier\<close> and \<open>size\<close> of a regular file only.
  \<open>serde\<close> fills the missing fields with their defaults when the object is parsed back.\<close>

definition strip_dirent :: "DirEntryData \<Rightarrow> DirEntryData" where
  "strip_dirent d = (if is_regular (de_mode d) then d else d\<lparr>de_modifier := [], de_size := 0\<rparr>)"

definition strip_dir :: "FsDirData \<Rightarrow> FsDirData" where
  "strip_dir d = d\<lparr>dirents := map strip_dirent (dirents d)\<rparr>"

definition sorted_dir :: "FsDirData \<Rightarrow> FsDirData" where
  "sorted_dir d = d\<lparr>dirents := sort_dirents_desc (dirents d)\<rparr>"

definition dir_fs_id :: "externs \<Rightarrow> FsDirData \<Rightarrow> string" where
  "dir_fs_id x d = (if dirents d = [] then EMPTY_SHA1
     else sha1_hex x (dir_to_json x (sorted_dir d)))"

definition dir_row :: "externs \<Rightarrow> FsDirData \<Rightarrow> fs_object" where
  "dir_row x d = \<lparr>obj_type = as_i8 (dir_type d), obj_data = dir_to_json x (sorted_dir d)\<rparr>"

lemma store_dir_eq:
  "store_fs_dir_object x r d db =
     (dir_fs_id x d, if dirents d = [] then db else insert_or_ignore r (dir_fs_id x d) (dir_row x d) db)"
  by (simp add: store_fs_dir_object_def compute_dir_def compute_fs_id_def dir_fs_id_def dir_row_def
      sorted_dir_def sort_dirents_desc_def Let_def)

lemma as_i8_small: "- 128 \<le> n \<Longrightarrow> n < 128 \<Longrightarrow> as_i8 n = n"
  by (simp add: as_i8_def)

text \<open>
  Concrete third-party functions for the witnesses: strings are quoted without escapes, an object
  id is its text behind a marker, and parsing looks the text up in a table.
\<close>

definition demo_externs :: "(string \<times> FsDirData) list \<Rightarrow> externs" where
  "demo_externs t = \<lparr>json_string = (\<lambda>s. quote @ s @ quote), sha1_hex = (\<lambda>s. CHR ''h'' # s),
     parse_dir = (\<lambda>s. ok_or ''unknown'' (map_of t s)), parse_file = (\<lambda>s. Inl ''unknown'')\<rparr>"

definition demo_file :: "string \<Rightarrow> string \<Rightarrow> DirEntryData" where
  "demo_file i n = \<lparr>de_id = i, de_mode = 0x81A4, de_modifier = ''m'', de_mtime = 7, de_name = n, de_size = 3\<rparr>"

definition demo_dir :: "string \<Rightarrow> string \<Rightarrow> DirEntryData" where
  "demo_dir i n = \<lparr>de_id = i, de_mode = 0x4000, de_modifier = [], de_mtime = 7, de_name = n, de_size = 0\<rparr>"

definition mk_dir :: "DirEntryData list \<Rightarrow> FsDirData" where
  "mk_dir es = \<lparr>dirents = es, dir_type = SEAF_METADATA_TYPE_DIR, dir_version = 1\<rparr>"

text \<open>A table holding, for library \<open>r\<close>, one directory row per listed id, whose text is the id.\<close>

definition demo_db :: "string list \<Rightarrow> fs_objects" where
  "demo_db is = (\<lambda>(r, i). if r = ''r'' \<and> List.member is i
     then Some \<lparr>obj_type = 3, obj_data = i\<rparr> else None)"

lemma dir_to_json_cong: "json_string x = json_string y \<Longrightarrow> dir_to_json x d = dir_to_json y d"
  unfolding dir_to_json_def dirent_to_json_def by presburger

lemma demo_sha1 [simp]: "sha1_hex (demo_externs t) s = CHR ''h'' # s"
  by (simp add: demo_externs_def)

lemma demo_json_string [simp]: "json_string (demo_externs t) = (\<lambda>s. quote @ s @ quote)"
  by (simp add: demo_externs_def)

lemma demo_parse_dir [simp]: "parse_dir (demo_externs t) s = ok_or ''unknown'' (map_of t s)"
  by (simp add: demo_externs_def)

lemma demo_entries [simp]:
  "de_name (demo_file i n) = n" "de_name (demo_dir i n) = n" "de_id (demo_file i n) = i"
  "de_id (demo_dir i n) = i" "is_regular (de_mode (demo_file i n))" "is_dir_mode (de_mode (demo_dir i n))"
  "\<not> is_dir_mode (de_mode (demo_file i n))" "\<not> is_regular (de_mode (demo_dir i n))"
  "has_dir_bit (de_mode (demo_dir i n))" "\<not> has_dir_bit (de_mode (demo_file i n))"
  "strip_dirent (demo_file i n) = demo_file i n" "strip_dirent (demo_dir i n) = demo_dir i n"
  by (simp_all add: demo_file_def demo_dir_def is_regular_def is_dir_mode_def has_dir_bit_def
      S_IFMT_def S_IFREG_TYPE_def S_IFDIR_TYPE_def S_IFDIR_def strip_dirent_def)

lemma mk_dir_sel [simp]:
  "dirents (mk_dir es) = es" "dir_type (mk_dir es) = SEAF_METADATA_TYPE_DIR" "dir_version (mk_dir es) = 1"
  by (simp_all add: mk_dir_def)

lemma fs_id_not_sentinel: "dirents d \<noteq> [] \<Longrightarrow> dir_fs_id (demo_externs t) d \<noteq> EMPTY_SHA1"
  by (simp add: dir_fs_id_def EMPTY_SHA1_def numeral_eq_Suc)

definition demo_codec :: externs where
  "demo_codec = (let d = mk_dir [demo_dir ''2'' ''b'', demo_file ''1'' ''a'']
     in demo_externs [(dir_to_json (demo_externs []) d, d)])"

text \<open>
  Writing a directory and reading the returned id back yields the entries in canonical
  order. The parser is assumed to invert the serializer on this one object, and no different row
  may already sit under the same id.
\<close>

theorem store_dir_roundtrip:
  assumes codec: "parse_dir x (dir_to_json x (sorted_dir d)) = Inr (strip_dir (sorted_dir d))"
    and no_clash: "db (r, dir_fs_id x d) \<in> {None, Some (dir_row x d)}"
    and not_sentinel: "dirents d \<noteq> [] \<Longrightarrow> dir_fs_id x d \<noteq> EMPTY_SHA1"
    and dir: "dir_type d = SEAF_METADATA_TYPE_DIR" "dir_version d = 1"
    and store: "store_fs_dir_object x r d db = (i, db')"
  shows "read_fs_dir_data x db' r i = Inr (strip_dir (sorted_dir d))"
proof (cases "dirents d = []")
  case True
  then have "strip_dir (sorted_dir d) = empty_dir"
    using dir by (simp add: strip_dir_def sorted_dir_def sort_dirents_desc_def empty_dir_def)
  then show ?thesis using True store by (simp add: store_dir_eq dir_fs_id_def read_fs_dir_data_def)
next
  case False
  have i: "i = dir_fs_id x d" and db': "db' = insert_or_ignore r i (dir_row x d) db"
    using store False by (auto simp: store_dir_eq)
  have "db' (r, i) = Some (dir_row x d)"
    using no_clash i db' by (auto simp: insert_or_ignore_def)
  then show ?thesis
    using codec not_sentinel [OF False] i dir by (simp add: read_fs_dir_data_def dir_row_def)
qed

theorem store_dir_roundtrip_witness:
  "let d = mk_dir [demo_file ''1'' ''a'', demo_dir ''2'' ''b''] in
   (case store_fs_dir_object demo_codec ''r'' d Map.empty of (i, db) \<Rightarrow>
      read_fs_dir_data demo_codec db ''r'' i = Inr (strip_dir (sorted_dir d)))"
proof -
  define d where "d = mk_dir [demo_file ''1'' ''a'', demo_dir ''2'' ''b'']"
  define d' where "d' = mk_dir [demo_dir ''2'' ''b'', demo_file ''1'' ''a'']"
  have d': "sorted_dir d = d'" "strip_dir d' = d'"
    by (simp_all add: d_def d'_def sorted_dir_def sort_dirents_desc_def mk_dir_def strip_dir_def)
  have x: "demo_codec = demo_externs [(dir_to_json (demo_externs []) d', d')]"
    by (simp add: demo_codec_def d'_def Let_def)
  have "dir_to_json demo_codec d' = dir_to_json (demo_externs []) d'"
    by (rule dir_to_json_cong) (simp add: x)
  then have c: "parse_dir demo_codec (dir_to_json demo_codec (sorted_dir d)) = Inr (strip_dir (sorted_dir d))"
    by (simp add: x d')
  have n: "(Map.empty :: fs_objects) (''r'', dir_fs_id demo_codec d) \<in> {None, Some (dir_row demo_codec d)}"
    by simp
  have s: "dir_fs_id demo_codec d \<noteq> EMPTY_SHA1"
    unfolding x by (rule fs_id_not_sentinel) (simp add: d_def)
  have t: "dir_type d = SEAF_METADATA_TYPE_DIR" "dir_version d = 1"
    by (simp_all add: d_def mk_dir_def)
  obtain i db where st: "store_fs_dir_object demo_codec ''r'' d Map.empty = (i, db)"
    by fastforce
  have "read_fs_dir_data demo_codec db ''r'' i = Inr (strip_dir (sorted_dir d))"
    by (rule store_dir_roundtrip [OF c n _ t st]) (rule s)
  then show ?thesis using st by (simp add: Let_def d_def)
qed

text \<open>
  A directory's identity does not depend on the order its entries were collected in: two
  lists with the same entries and distinct names are stored under the same id as the same row.
\<close>

theorem store_dir_order_independent:
  assumes "mset (dirents d) = mset (dirents d')" "distinct (map de_name (dirents d))"
    "dir_type d = dir_type d'" "dir_version d = dir_version d'"
  shows "store_fs_dir_object x r d db = store_fs_dir_object x r d' db"
proof -
  have "sort_dirents_desc (dirents d) = sort_dirents_desc (dirents d')"
    unfolding sort_dirents_desc_def using assms(1,2) by (rule sort_desc_permute)
  moreover have "FsDirData.more d = FsDirData.more d'" by simp
  ultimately have "sorted_dir d = sorted_dir d'"
    using assms(3,4) by (simp add: sorted_dir_def)
  moreover have "(dirents d = []) = (dirents d' = [])" using assms(1) by auto
  ultimately show ?thesis
    using assms(3) by (simp add: store_dir_eq dir_fs_id_def dir_row_def)
qed

theorem store_dir_order_independent_witness:
  "store_fs_dir_object demo_codec ''r'' (mk_dir [demo_file ''1'' ''a'', demo_dir ''2'' ''b'']) Map.empty =
   store_fs_dir_object demo_codec ''r'' (mk_dir [demo_dir ''2'' ''b'', demo_file ''1'' ''a'']) Map.empty"
  by (rule store_dir_order_independent) simp_all

end
