(* ===== verification/Traversal.thy ===== *)
theory Traversal
  imports FsObject
begin

text \<open>
  The bounded walks of \<open>server/src/fs/core/traversal.rs\<close>: the depth and visit limits, the guard
  that every walk carries, and the level-by-level loop the walks share.

  The process-wide limits are a record argument. The loop itself is not a function of the source:
  \<open>compute_tree_size\<close>, \<open>collect_entries\<close> and \<open>diff_trees\<close> each spell it out, as
  \<open>while !frontier.is_empty()\<close> around \<open>enter_level\<close>, \<open>visit\<close> and the level's own work. They are
  instances of \<open>bfs\<close> here, which is defined once with its termination proof.
\<close>

definition DEFAULT_MAX_TREE_DEPTH :: nat where "DEFAULT_MAX_TREE_DEPTH = 512"
definition DEFAULT_MAX_TREE_VISITS :: nat where "DEFAULT_MAX_TREE_VISITS = 1000000"

record tree_limits =
  max_tree_depth :: nat
  max_tree_visits :: nat

definition configure :: "nat \<Rightarrow> nat \<Rightarrow> tree_limits" where
  "configure max_depth max_visits =
     \<lparr>max_tree_depth = max max_depth 1, max_tree_visits = max max_visits 1\<rparr>"

record TreeGuard =
  g_depth :: nat
  g_visits :: nat

definition new_guard :: TreeGuard where
  "new_guard = \<lparr>g_depth = 0, g_visits = 0\<rparr>"

definition enter_level :: "tree_limits \<Rightarrow> TreeGuard \<Rightarrow> TreeGuard result" where
  "enter_level lim g =
     (let g = g\<lparr>g_depth := g_depth g + 1\<rparr> in
      if g_depth g > max_tree_depth lim
      then Inl (BadRequest (''directory tree traversal exceeded the maximum depth ('' @
                            show_nat (max_tree_depth lim) @ '')''))
      else Inr g)"

definition visit :: "tree_limits \<Rightarrow> nat \<Rightarrow> TreeGuard \<Rightarrow> TreeGuard result" where
  "visit lim cnt g =
     (let g = g\<lparr>g_visits := usize_sat_add (g_visits g) cnt\<rparr> in
      if g_visits g > max_tree_visits lim
      then Inl (BadRequest (''directory tree traversal exceeded the maximum node count ('' @
                            show_nat (max_tree_visits lim) @ '')''))
      else Inr g)"

lemma enter_level_Inr:
  "enter_level lim g = Inr g' \<longleftrightarrow> g' = g\<lparr>g_depth := g_depth g + 1\<rparr> \<and> g_depth g < max_tree_depth lim"
  by (auto simp: enter_level_def Let_def)

lemma visit_depth: "visit lim n g = Inr g' \<Longrightarrow> g_depth g' = g_depth g"
  by (auto simp: visit_def Let_def split: if_splits)

lemma visit_bound: "visit lim n g = Inr g' \<Longrightarrow> g_visits g' \<le> max_tree_visits lim"
  by (auto simp: visit_def Let_def split: if_splits)

function bfs ::
    "tree_limits \<Rightarrow> ('f list \<Rightarrow> 'a \<Rightarrow> ('f list \<times> 'a) result) \<Rightarrow> TreeGuard \<Rightarrow> 'f list \<Rightarrow> 'a \<Rightarrow> 'a result" where
  "bfs lim level g frontier acc =
     (if frontier = [] then Inr acc
      else rbind (enter_level lim g) (\<lambda>g.
        rbind (visit lim (length frontier) g) (\<lambda>g.
          rbind (level frontier acc) (\<lambda>(nexts, acc). bfs lim level g nexts acc))))"
  by pat_completeness auto
termination
  by (relation "measure (\<lambda>(lim, level, g, frontier, acc). max_tree_depth lim - g_depth g)")
    (auto simp: enter_level_Inr dest!: visit_depth)

declare bfs.simps [simp del]

lemma bfs_Nil [simp]: "bfs lim level g [] acc = Inr acc"
  by (simp add: bfs.simps)

lemma bfs_Inr_Cons:
  "fr \<noteq> [] \<Longrightarrow> bfs lim level g fr acc = Inr out \<longleftrightarrow>
   (\<exists>g1 g2 nexts acc'. enter_level lim g = Inr g1 \<and> visit lim (length fr) g1 = Inr g2 \<and>
      level fr acc = Inr (nexts, acc') \<and> bfs lim level g2 nexts acc' = Inr out)"
  by (auto simp: bfs.simps [of lim level g fr acc] rbind_eq_Inr_iff)

text \<open>A walk fails because a limit was exceeded or because one of its levels failed.\<close>

lemma bfs_error:
  assumes "bfs lim level g fr acc = Inl e" "I fr acc"
    and "\<forall>fr acc nexts acc'. level fr acc = Inr (nexts, acc') \<longrightarrow> I fr acc \<longrightarrow> I nexts acc'"
  shows "(\<exists>m. e = BadRequest m) \<or> (\<exists>fr acc. I fr acc \<and> level fr acc = Inl e)"
  using assms
proof (induction lim level g fr acc rule: bfs.induct)
  case (1 lim level g fr acc)
  from "1.prems"(1) have ne: "fr \<noteq> []" by auto
  with "1.prems"(1) consider "enter_level lim g = Inl e"
    | g1 where "enter_level lim g = Inr g1" "visit lim (length fr) g1 = Inl e"
    | "level fr acc = Inl e"
    | g1 g2 nexts acc' where "enter_level lim g = Inr g1" "visit lim (length fr) g1 = Inr g2"
        "level fr acc = Inr (nexts, acc')" "bfs lim level g2 nexts acc' = Inl e"
    by (auto simp: bfs.simps [of lim level g fr acc] rbind_eq_Inl_iff)
  then show ?case
  proof cases
    case 4
    have "I nexts acc'" using "1.prems"(2,3) 4(3) by simp
    then show ?thesis using "1.IH" [OF ne 4(1,2,3) refl 4(4)] "1.prems"(3) by simp
  qed (use "1.prems"(2) in \<open>auto simp: enter_level_def visit_def Let_def split: if_splits\<close>)
qed

text \<open>
  The interface of a walk: what one level keeps of an invariant indexed by the number of levels
  that the depth limit still allows. A walk that succeeds has the invariant on an empty frontier.
\<close>

locale level_walk =
  fixes level :: "'f list \<Rightarrow> 'a \<Rightarrow> ('f list \<times> 'a) result"
    and I :: "nat \<Rightarrow> 'f list \<Rightarrow> 'a \<Rightarrow> bool"
  assumes level_step: "level fr acc = Inr (nexts, acc') \<Longrightarrow> I (Suc n) fr acc \<Longrightarrow> I n nexts acc'"
begin

lemma bfs_result:
  "bfs lim level g fr acc = Inr out \<Longrightarrow> g_depth g \<le> max_tree_depth lim \<Longrightarrow>
   I (max_tree_depth lim - g_depth g) fr acc \<Longrightarrow> \<exists>n. I n [] out"
proof (induction "max_tree_depth lim - g_depth g" arbitrary: g fr acc)
  case 0
  have "fr = []" using "0.prems"(1) "0.hyps" by (cases "fr = []") (auto simp: bfs_Inr_Cons enter_level_Inr)
  then show ?case using 0 by auto
next
  case (Suc n)
  show ?case
  proof (cases "fr = []")
    case True
    then show ?thesis using Suc.prems by auto
  next
    case False
    then obtain g1 g2 nexts acc' where g1: "enter_level lim g = Inr g1"
      and g2: "visit lim (length fr) g1 = Inr g2" and l: "level fr acc = Inr (nexts, acc')"
      and rest: "bfs lim level g2 nexts acc' = Inr out"
      using Suc.prems(1) by (auto simp: bfs_Inr_Cons)
    have d: "g_depth g2 = g_depth g + 1" "g_depth g < max_tree_depth lim"
      using visit_depth [OF g2] g1 by (simp_all add: enter_level_Inr)
    then have n: "n = max_tree_depth lim - g_depth g2" using Suc.hyps(2) by simp
    then have "I (max_tree_depth lim - g_depth g2) nexts acc'"
      using level_step [OF l] Suc.prems(3) Suc.hyps(2) by metis
    then show ?thesis using Suc.hyps(1) [OF n rest] d by simp
  qed
qed

end

end
