(* ===== verification/Tree.thy ===== *)
theory Tree
  imports FsObject
begin

text \<open>
  Path resolution over stored directory objects, the second half of
  \<open>server/src/fs/core/tree.rs\<close>: \<open>resolve_fs_id\<close>, \<open>resolve_dir_fs_id\<close>, \<open>resolve_file_entry\<close>,
  \<open>resolve_file_entry_with_head\<close> and the batched \<open>resolve_fs_ids_batch\<close>.
\<close>

section \<open>Definitions\<close>

definition path_segments :: "string \<Rightarrow> string list" where
  "path_segments path = filter (\<lambda>s. s \<noteq> []) (split_on slash (trim_start_matches [slash] path))"

definition find_entry :: "string \<Rightarrow> FsDirData \<Rightarrow> DirEntryData option" where
  "find_entry name d = find (\<lambda>e. de_name e = name) (dirents d)"

definition segment_not_found :: "string \<Rightarrow> AppError" where
  "segment_not_found seg = NotFound (''path segment not found: '' @ seg)"

definition not_a_directory :: "string \<Rightarrow> AppError" where
  "not_a_directory seg = NotFound (''not a directory: '' @ seg)"

fun resolve_segments :: "externs \<Rightarrow> fs_objects \<Rightarrow> string \<Rightarrow> string \<Rightarrow> string list \<Rightarrow> string result" where
  "resolve_segments x db repo_id cur [] = Inr cur"
| "resolve_segments x db repo_id cur (seg # rest) =
     rbind (read_fs_dir_data x db repo_id cur) (\<lambda>d.
       rbind (ok_or (segment_not_found seg) (find_entry seg d)) (\<lambda>entry.
         if rest \<noteq> [] \<and> \<not> is_dir_mode (de_mode entry) then Inl (not_a_directory seg)
         else resolve_segments x db repo_id (de_id entry) rest))"

definition resolve_fs_id :: "externs \<Rightarrow> fs_objects \<Rightarrow> string \<Rightarrow> string \<Rightarrow> string \<Rightarrow> string result" where
  "resolve_fs_id x db repo_id root_fs_id path =
     resolve_segments x db repo_id root_fs_id (path_segments path)"

fun resolve_dir_segments :: "externs \<Rightarrow> fs_objects \<Rightarrow> string \<Rightarrow> string \<Rightarrow> string list \<Rightarrow> string result" where
  "resolve_dir_segments x db repo_id cur [] = Inr cur"
| "resolve_dir_segments x db repo_id cur (seg # rest) =
     rbind (read_fs_dir_data x db repo_id cur) (\<lambda>d.
       rbind (ok_or (segment_not_found seg) (find_entry seg d)) (\<lambda>entry.
         if \<not> is_dir_mode (de_mode entry) then Inl (not_a_directory seg)
         else resolve_dir_segments x db repo_id (de_id entry) rest))"

definition resolve_dir_fs_id :: "externs \<Rightarrow> fs_objects \<Rightarrow> string \<Rightarrow> string \<Rightarrow> string \<Rightarrow> string result" where
  "resolve_dir_fs_id x db repo_id root_fs_id path =
     resolve_dir_segments x db repo_id root_fs_id (path_segments path)"

text \<open>The walk over all but the last segment that \<open>resolve_file_entry\<close> and
  \<open>resolve_file_entry_with_head\<close> do: it does not look at the modes.\<close>

fun walk_segments :: "externs \<Rightarrow> fs_objects \<Rightarrow> string \<Rightarrow> string \<Rightarrow> string list \<Rightarrow> string result" where
  "walk_segments x db repo_id cur [] = Inr cur"
| "walk_segments x db repo_id cur (seg # rest) =
     rbind (read_fs_dir_data x db repo_id cur) (\<lambda>d.
       rbind (ok_or (segment_not_found seg) (find_entry seg d)) (\<lambda>entry.
         walk_segments x db repo_id (de_id entry) rest))"

definition resolve_file_entry ::
    "externs \<Rightarrow> fs_objects \<Rightarrow> string \<Rightarrow> string \<Rightarrow> string \<Rightarrow> (string \<times> int) result" where
  "resolve_file_entry x db repo_id root_fs_id path =
     (let segments = path_segments path in
      if segments = [] then Inr (root_fs_id, 0)
      else rbind (walk_segments x db repo_id root_fs_id (butlast segments)) (\<lambda>cur.
        rbind (read_fs_dir_data x db repo_id cur) (\<lambda>d.
          rbind (ok_or (segment_not_found (last segments)) (find_entry (last segments) d)) (\<lambda>entry.
            Inr (de_id entry, de_mtime entry)))))"

definition resolve_file_entry_with_head ::
    "externs \<Rightarrow> fs_objects \<Rightarrow> string \<Rightarrow> string \<Rightarrow> string \<Rightarrow> (string \<times> bool \<times> int \<times> int) option result" where
  "resolve_file_entry_with_head x db repo_id root_id path =
     (let segments = path_segments path in
      if segments = [] then Inr (Some (root_id, True, 0, 0))
      else rbind (walk_segments x db repo_id root_id (butlast segments)) (\<lambda>cur.
        rbind (read_fs_dir_data x db repo_id cur) (\<lambda>d.
          (case find_entry (last segments) d of
             None \<Rightarrow> Inr None
           | Some entry \<Rightarrow>
               Inr (Some (de_id entry, has_dir_bit (de_mode entry), de_size entry, de_mtime entry))))))"

text \<open>
  The batched walk. A pending target remembers its index, the directory it stands in and the next
  segment to look up; one round reads the directories of all pending targets at once. Indexing
  outside a segment list would panic in the source and is an error value here.
\<close>

record active =
  act_idx :: nat
  act_fs_id :: string
  act_next :: nat

definition index_panic :: AppError where
  "index_panic = Internal ''index out of bounds''"

definition batch_step ::
    "string list list \<Rightarrow> (string \<times> FsDirData) list \<Rightarrow> active \<Rightarrow>
     string option list \<times> active list \<Rightarrow> (string option list \<times> active list) result" where
  "batch_step segments dir_map a = (\<lambda>(results, nexts).
     (case map_of dir_map (act_fs_id a) of
        None \<Rightarrow> Inr (results[act_idx a := None], nexts)
      | Some d \<Rightarrow>
          if act_next a < length (segments ! act_idx a) then
            (case find_entry (segments ! act_idx a ! act_next a) d of
               None \<Rightarrow> Inr (results[act_idx a := None], nexts)
             | Some entry \<Rightarrow>
                 if act_next a + 1 = length (segments ! act_idx a)
                 then Inr (results[act_idx a := Some (de_id entry)], nexts)
                 else Inr (results, nexts @ [\<lparr>act_idx = act_idx a, act_fs_id = de_id entry,
                                              act_next = act_next a + 1\<rparr>]))
          else Inl index_panic))"

definition act_weight :: "string list list \<Rightarrow> active list \<Rightarrow> nat" where
  "act_weight segments as = sum_list (map (\<lambda>a. Suc (length (segments ! act_idx a) - act_next a)) as)"

lemma act_weight_simps [simp]:
  "act_weight segs [] = 0"
  "act_weight segs (a # as) = Suc (length (segs ! act_idx a) - act_next a) + act_weight segs as"
  "act_weight segs (as @ bs) = act_weight segs as + act_weight segs bs"
  by (simp_all add: act_weight_def)

lemma batch_step_weight:
  "batch_step segs m a (res, nexts) = Inr (res', nexts') \<Longrightarrow>
   act_weight segs nexts' + 1 \<le> act_weight segs nexts + act_weight segs [a]"
  by (auto simp: batch_step_def split: option.splits if_splits)

lemma batch_round_weight:
  "rfold (batch_step segs m) act (res, nexts) = Inr (res', nexts') \<Longrightarrow>
   act_weight segs nexts' + length act \<le> act_weight segs nexts + act_weight segs act"
proof (induction act arbitrary: res nexts)
  case (Cons a act)
  then obtain r n where step: "batch_step segs m a (res, nexts) = Inr (r, n)"
    and rest: "rfold (batch_step segs m) act (r, n) = Inr (res', nexts')"
    by (auto simp: rbind_eq_Inr_iff)
  from batch_step_weight [OF step] Cons.IH [OF rest] show ?case by simp
qed simp

function batch_loop ::
    "externs \<Rightarrow> fs_objects \<Rightarrow> string \<Rightarrow> string list list \<Rightarrow> active list \<Rightarrow> string option list \<Rightarrow>
     string option list result" where
  "batch_loop x db repo_id segments act results =
     (if act = [] then Inr results
      else rbind (read_fs_dir_data_batch x db repo_id (remdups_adj (sort (map act_fs_id act)))) (\<lambda>dir_map.
        rbind (rfold (batch_step segments dir_map) act (results, [])) (\<lambda>(results, nexts).
          batch_loop x db repo_id segments nexts results)))"
  by pat_completeness auto
termination
proof (relation "measure (\<lambda>(x, db, r, segs, act, res). act_weight segs act)")
  fix x db r segs act res m p rs ns
  assume "act \<noteq> []" and "rfold (batch_step segs m) act (res, []) = Inr p" and "(rs, ns) = p"
  then have "act_weight segs ns + length act \<le> act_weight segs act"
    using batch_round_weight [of segs m act res "[]" rs ns] by simp
  then show "((x, db, r, segs, ns, rs), x, db, r, segs, act, res) \<in>
      measure (\<lambda>(x, db, r, segs, act, res). act_weight segs act)"
    using \<open>act \<noteq> []\<close> by (cases act) auto
qed simp

declare batch_loop.simps [simp del]

definition resolve_fs_ids_batch ::
    "externs \<Rightarrow> fs_objects \<Rightarrow> string \<Rightarrow> (string \<times> string) list \<Rightarrow> string option list result" where
  "resolve_fs_ids_batch x db repo_id targets =
     (let segments = map (\<lambda>(_, path). path_segments path) targets;
          results = map (\<lambda>(root, path). if path_segments path = [] then Some root else None) targets;
          act = [\<lparr>act_idx = i, act_fs_id = fst (targets ! i), act_next = 0\<rparr>.
                 i \<leftarrow> [0..<length targets], segments ! i \<noteq> []]
      in batch_loop x db repo_id segments act results)"

section \<open>Relations between the resolvers\<close>

lemma resolve_segments_snoc:
  "resolve_segments x db r cur (segs @ [n]) =
     rbind (resolve_dir_segments x db r cur segs) (\<lambda>i.
       rbind (read_fs_dir_data x db r i) (\<lambda>d.
         rbind (ok_or (segment_not_found n) (find_entry n d)) (\<lambda>e. Inr (de_id e))))"
proof (induction segs arbitrary: cur)
  case Nil
  show ?case by (auto intro!: rbind_cong)
next
  case (Cons s segs)
  then show ?case by (auto simp: rbind_def split: sum.splits)
qed

lemma resolve_dir_imp_resolve:
  "resolve_dir_segments x db r cur segs = Inr i \<Longrightarrow> resolve_segments x db r cur segs = Inr i"
  by (induction segs arbitrary: cur) (auto simp: rbind_eq_Inr_iff split: if_splits)

lemma resolve_imp_walk:
  "resolve_segments x db r cur segs = Inr i \<Longrightarrow> walk_segments x db r cur segs = Inr i"
  by (induction segs arbitrary: cur) (auto simp: rbind_eq_Inr_iff split: if_splits)

lemma walk_segments_append:
  "walk_segments x db r cur (xs @ ys) = rbind (walk_segments x db r cur xs) (\<lambda>i. walk_segments x db r i ys)"
proof (induction xs arbitrary: cur)
  case (Cons s xs)
  then show ?case by (auto simp: rbind_def split: sum.splits)
qed simp

section \<open>The batched walk\<close>

definition to_option :: "'e + 'a \<Rightarrow> 'a option" where
  "to_option r = (case r of Inl _ \<Rightarrow> None | Inr v \<Rightarrow> Some v)"

lemma to_option_simps [simp]: "to_option (Inl e) = None" "to_option (Inr v) = Some v"
  by (simp_all add: to_option_def)

text \<open>What a pending target will resolve to.\<close>

definition act_goal :: "externs \<Rightarrow> fs_objects \<Rightarrow> string \<Rightarrow> string list list \<Rightarrow> active \<Rightarrow> string option" where
  "act_goal x db r segs a =
     to_option (walk_segments x db r (act_fs_id a) (drop (act_next a) (segs ! act_idx a)))"

text \<open>The final result for index \<open>k\<close>: its pending target's goal, or what is recorded already.\<close>

definition outlook ::
    "externs \<Rightarrow> fs_objects \<Rightarrow> string \<Rightarrow> string list list \<Rightarrow> active list \<Rightarrow> string option list \<Rightarrow>
     nat \<Rightarrow> string option" where
  "outlook x db r segs act res k =
     (case map_of (map (\<lambda>a. (act_idx a, act_goal x db r segs a)) act) k of
        Some g \<Rightarrow> g | None \<Rightarrow> res ! k)"

definition act_ok :: "string list list \<Rightarrow> active \<Rightarrow> bool" where
  "act_ok segs a \<longleftrightarrow> act_next a < length (segs ! act_idx a)"

lemma act_goal_step:
  assumes "act_ok segs a"
  shows "act_goal x db r segs a = (case read_fs_dir_data x db r (act_fs_id a) of
      Inl _ \<Rightarrow> None
    | Inr d \<Rightarrow> (case find_entry (segs ! act_idx a ! act_next a) d of
        None \<Rightarrow> None
      | Some e \<Rightarrow> if act_next a + 1 = length (segs ! act_idx a) then Some (de_id e)
          else act_goal x db r segs (a\<lparr>act_fs_id := de_id e, act_next := act_next a + 1\<rparr>)))"
proof -
  have "drop (act_next a) (segs ! act_idx a) =
      (segs ! act_idx a ! act_next a) # drop (act_next a + 1) (segs ! act_idx a)"
    using assms by (simp add: act_ok_def Cons_nth_drop_Suc)
  then show ?thesis
    by (auto simp: act_goal_def split: sum.splits option.splits)
qed

lemma outlook_settled:
  assumes "act_idx a \<notin> act_idx ` set (ns @ act)" "act_idx a < length res"
  shows "outlook x db r segs (ns @ act) (res[act_idx a := act_goal x db r segs a]) k =
    outlook x db r segs (ns @ a # act) res k"
  using assms by (auto simp: outlook_def map_add_def map_of_map map_of_eq_None_iff image_iff
      split: option.splits dest!: map_of_SomeD)

lemma outlook_moved:
  assumes "act_idx b = act_idx a" "act_goal x db r segs b = act_goal x db r segs a"
    "act_idx a \<notin> act_idx ` set (ns @ act)"
  shows "outlook x db r segs ((ns @ [b]) @ act) res k = outlook x db r segs (ns @ a # act) res k"
  using assms by (auto simp: outlook_def map_add_def image_iff split: option.splits dest!: map_of_SomeD)

definition batch_inv :: "string list list \<Rightarrow> active list \<Rightarrow> string option list \<Rightarrow> bool" where
  "batch_inv segs act res \<longleftrightarrow> distinct (map act_idx act) \<and> length res = length segs \<and>
     (\<forall>a\<in>set act. act_ok segs a \<and> act_idx a < length segs)"

lemma batch_step_outlook:
  assumes m: "\<And>d. map_of m (act_fs_id a) = Some d \<longleftrightarrow> act_fs_id a \<noteq> EMPTY_SHA1 \<and>
        read_fs_dir_data x db r (act_fs_id a) = Inr d"
    and inv: "batch_inv segs (ns @ a # act) res"
    and step: "batch_step segs m a (res, ns) = Inr (res', ns')"
  shows "batch_inv segs (ns' @ act) res' \<and>
    (\<forall>k. outlook x db r segs (ns' @ act) res' k = outlook x db r segs (ns @ a # act) res k)"
proof -
  let ?segs = "segs ! act_idx a"
  have ok: "act_ok segs a" "act_idx a < length res" "act_idx a \<notin> act_idx ` set (ns @ act)"
    using inv by (auto simp: batch_inv_def)
  have settled: "batch_inv segs (ns @ act) (res[act_idx a := v])" for v
    using inv by (auto simp: batch_inv_def)
  have empty: "act_goal x db r segs a = None" if "map_of m (act_fs_id a) = None"
  proof (cases "act_fs_id a = EMPTY_SHA1")
    case True
    then show ?thesis by (simp add: act_goal_step [OF ok(1)] read_fs_dir_data_def find_entry_def empty_dir_def)
  next
    case False
    then show ?thesis using m that by (auto simp: act_goal_step [OF ok(1)] split: sum.splits)
  qed
  show ?thesis
  proof (cases "map_of m (act_fs_id a)")
    case None
    then have "res' = res[act_idx a := act_goal x db r segs a]" "ns' = ns"
      using step empty by (auto simp: batch_step_def)
    then show ?thesis using settled outlook_settled [OF ok(3,2)] by auto
  next
    case (Some d)
    then have read: "read_fs_dir_data x db r (act_fs_id a) = Inr d" using m by simp
    show ?thesis
    proof (cases "find_entry (?segs ! act_next a) d")
      case None
      then have "res' = res[act_idx a := act_goal x db r segs a]" "ns' = ns"
        using step Some read ok by (auto simp: batch_step_def act_ok_def act_goal_step [OF ok(1)])
      then show ?thesis using settled outlook_settled [OF ok(3,2)] by auto
    next
      case e: (Some e)
      show ?thesis
      proof (cases "act_next a + 1 = length ?segs")
        case True
        then have "res' = res[act_idx a := act_goal x db r segs a]" "ns' = ns"
          using step Some e read ok by (auto simp: batch_step_def act_ok_def act_goal_step [OF ok(1)])
        then show ?thesis using settled outlook_settled [OF ok(3,2)] by auto
      next
        case False
        define b where "b = a\<lparr>act_fs_id := de_id e, act_next := act_next a + 1\<rparr>"
        have "b = \<lparr>act_idx = act_idx a, act_fs_id = de_id e, act_next = act_next a + 1\<rparr>"
          by (simp add: b_def)
        then have res: "res' = res" "ns' = ns @ [b]"
          using step Some e False ok by (auto simp: batch_step_def act_ok_def)
        have "act_goal x db r segs b = act_goal x db r segs a"
          using e read False by (simp add: act_goal_step [OF ok(1)] b_def)
        then have "outlook x db r segs (ns' @ act) res' k = outlook x db r segs (ns @ a # act) res k" for k
          using outlook_moved [of b a, OF _ _ ok(3)] res by (simp add: b_def)
        moreover have "batch_inv segs (ns' @ act) res'"
          using inv res False ok(1) by (auto simp: batch_inv_def b_def act_ok_def)
        ultimately show ?thesis by simp
      qed
    qed
  qed
qed

lemma batch_round_outlook:
  assumes "\<And>a d. a \<in> set act \<Longrightarrow> map_of m (act_fs_id a) = Some d \<longleftrightarrow> act_fs_id a \<noteq> EMPTY_SHA1 \<and>
        read_fs_dir_data x db r (act_fs_id a) = Inr d"
    and "batch_inv segs (ns @ act) res" and "rfold (batch_step segs m) act (res, ns) = Inr (res', ns')"
  shows "batch_inv segs ns' res' \<and>
    (\<forall>k. outlook x db r segs ns' res' k = outlook x db r segs (ns @ act) res k)"
  using assms
proof (induction act arbitrary: ns res)
  case (Cons a act)
  then obtain rs n where step: "batch_step segs m a (res, ns) = Inr (rs, n)"
    and rest: "rfold (batch_step segs m) act (rs, n) = Inr (res', ns')"
    by (auto simp: rbind_eq_Inr_iff)
  have one: "batch_inv segs (n @ act) rs \<and>
      (\<forall>k. outlook x db r segs (n @ act) rs k = outlook x db r segs (ns @ a # act) res k)"
    by (rule batch_step_outlook [OF _ Cons.prems(2) step]) (use Cons.prems(1) in auto)
  then show ?case using Cons.IH [of n rs] Cons.prems(1) rest by auto
qed simp

lemma batch_loop_outlook:
  "batch_inv segs act res \<Longrightarrow> batch_loop x db r segs act res = Inr res' \<Longrightarrow>
   length res' = length segs \<and> (\<forall>k<length segs. res' ! k = outlook x db r segs act res k)"
proof (induction x db r segs act res rule: batch_loop.induct)
  case (1 x db r segs act res)
  show ?case
  proof (cases "act = []")
    case True
    then show ?thesis using 1 by (simp add: batch_loop.simps batch_inv_def outlook_def)
  next
    case False
    then obtain m rs ns where m: "read_fs_dir_data_batch x db r (remdups_adj (sort (map act_fs_id act))) = Inr m"
      and round: "rfold (batch_step segs m) act (res, []) = Inr (rs, ns)"
      and rest: "batch_loop x db r segs ns rs = Inr res'"
      using "1.prems"(2) by (auto simp: batch_loop.simps [of x db r segs act res] rbind_eq_Inr_iff)
    have "batch_inv segs ns rs \<and> (\<forall>k. outlook x db r segs ns rs k = outlook x db r segs act res k)"
      using batch_round_outlook [of act m x db r segs "[]" res rs ns]
        "1.prems"(1) round read_dir_batch_iff [OF m] by simp
    then show ?thesis using "1.IH" [OF False m round] rest by auto
  qed
qed

section \<open>Properties\<close>

text \<open>
  Here \<open>resolve_fs_id\<close> decomposes at its last segment: the parent must resolve as a directory
  all the way (\<open>resolve_dir_fs_id\<close>), and the last segment is looked up there. So nothing resolves
  below a zero-byte file, although its id reads as an empty directory.
\<close>

theorem resolve_fs_id_parent:
  assumes "path_segments path = segs @ [n]" "path_segments parent = segs"
  shows "resolve_fs_id x db r root path =
     rbind (resolve_dir_fs_id x db r root parent) (\<lambda>i.
       rbind (read_fs_dir_data x db r i) (\<lambda>d.
         rbind (ok_or (segment_not_found n) (find_entry n d)) (\<lambda>e. Inr (de_id e))))"
  using assms by (simp add: resolve_fs_id_def resolve_dir_fs_id_def resolve_segments_snoc)

text \<open>A small library for the witnesses: \<open>/d/f\<close> is a file, and \<open>/x\<close> is a dirent with a file mode
  whose id is the directory object \<open>D\<close>, as a client may upload it.\<close>

definition tree_externs :: externs where
  "tree_externs = demo_externs
     [(''R'', mk_dir [demo_file ''D'' ''x'', demo_dir ''D'' ''d'']), (''D'', mk_dir [demo_file ''F'' ''f''])]"

definition tree_db :: fs_objects where
  "tree_db = demo_db [''R'', ''D'']"

theorem resolve_fs_id_parent_witness:
  "resolve_fs_id tree_externs tree_db ''r'' ''R'' ''/d/f'' = Inr ''F''"
proof -
  have s: "path_segments ''/d/f'' = [''d''] @ [''f'']" "path_segments ''/d'' = [''d'']" by code_simp+
  have "resolve_dir_fs_id tree_externs tree_db ''r'' ''R'' ''/d'' = Inr ''D''" by code_simp
  moreover have "read_fs_dir_data tree_externs tree_db ''r'' ''D'' = Inr (mk_dir [demo_file ''F'' ''f''])"
    by code_simp
  ultimately show ?thesis using resolve_fs_id_parent [OF s] by (simp add: find_entry_def)
qed

text \<open>
  The batched resolver answers each target as the sequential walk does, and wherever
  \<open>resolve_fs_id\<close> succeeds the batch gives the same id.
\<close>

theorem resolve_fs_ids_batch_pointwise:
  assumes "resolve_fs_ids_batch x db r targets = Inr rs" "i < length targets"
    "targets ! i = (root, path)"
  shows "length rs = length targets \<and>
    rs ! i = to_option (walk_segments x db r root (path_segments path)) \<and>
    (\<forall>fs_id. resolve_fs_id x db r root path = Inr fs_id \<longrightarrow> rs ! i = Some fs_id)"
proof -
  define segs where "segs = map (\<lambda>(_, path). path_segments path) targets"
  define res where "res = map (\<lambda>(root, path). if path_segments path = [] then Some root else None) targets"
  define mk where "mk k = \<lparr>act_idx = k, act_fs_id = fst (targets ! k), act_next = 0\<rparr>" for k
  define act where "act = map mk [k \<leftarrow> [0..<length targets]. segs ! k \<noteq> []]"
  have idx: "map act_idx act = [k \<leftarrow> [0..<length targets]. segs ! k \<noteq> []]"
    by (simp add: act_def mk_def comp_def)
  have len: "length segs = length targets" "length res = length targets"
    by (simp_all add: segs_def res_def)
  have "act = [mk k. k \<leftarrow> [0..<length targets], segs ! k \<noteq> []]"
    unfolding act_def by (rule map_filter_concat)
  then have loop: "batch_loop x db r segs act res = Inr rs"
    using assms(1) unfolding resolve_fs_ids_batch_def Let_def segs_def res_def mk_def by simp
  have "batch_inv segs act res"
    using idx len by (auto simp: batch_inv_def act_ok_def act_def mk_def)
  from batch_loop_outlook [OF this loop] len have rs: "length rs = length targets"
    and out: "rs ! i = outlook x db r segs act res i"
    using assms(2) by auto
  have segi: "segs ! i = path_segments path" using assms(2,3) by (simp add: segs_def)
  have walk: "rs ! i = to_option (walk_segments x db r root (path_segments path))"
  proof (cases "path_segments path = []")
    case True
    then have "i \<notin> fst ` set (map (\<lambda>a. (act_idx a, act_goal x db r segs a)) act)"
      using segi by (auto simp: act_def mk_def)
    then have "rs ! i = res ! i"
      using out by (simp add: outlook_def map_of_eq_None_iff [THEN iffD2])
    then show ?thesis using True assms(2,3) by (simp add: res_def)
  next
    case False
    then have "mk i \<in> set act" using assms(2) segi by (simp add: act_def)
    then have "(i, act_goal x db r segs (mk i)) \<in> set (map (\<lambda>a. (act_idx a, act_goal x db r segs a)) act)"
      by (force simp: mk_def)
    moreover have "distinct (map fst (map (\<lambda>a. (act_idx a, act_goal x db r segs a)) act))"
      using idx by (simp add: comp_def)
    ultimately have "rs ! i = act_goal x db r segs (mk i)"
      using out by (simp add: outlook_def map_of_is_SomeI)
    then show ?thesis using assms(3) segi by (simp add: act_goal_def mk_def)
  qed
  then show ?thesis using rs resolve_imp_walk by (auto simp: resolve_fs_id_def)
qed

theorem resolve_fs_ids_batch_pointwise_witness:
  "\<exists>rs. resolve_fs_ids_batch tree_externs tree_db ''r'' [(''R'', ''/''), (''R'', ''/d/f'')] = Inr rs \<and>
     rs ! 1 = Some ''F''"
proof -
  have h: "resolve_fs_ids_batch tree_externs tree_db ''r'' [(''R'', ''/''), (''R'', ''/d/f'')] =
      Inr [Some ''R'', Some ''F'']" by code_simp
  have w: "walk_segments tree_externs tree_db ''r'' ''R'' (path_segments ''/d/f'') = Inr ''F''" by code_simp
  show ?thesis using h w resolve_fs_ids_batch_pointwise [OF h, of 1 "''R''" "''/d/f''"] by simp
qed

text \<open>
  The other resolvers are laxer than \<open>resolve_fs_id\<close>. A dirent with a regular-file mode whose
  id names a directory object is refused as an inner segment by \<open>resolve_fs_id\<close>, and walked through
  by \<open>resolve_file_entry\<close> and by the batch.
\<close>

theorem resolvers_disagree_on_file_mode:
  "resolve_fs_id tree_externs tree_db ''r'' ''R'' ''/x/f'' = Inl (not_a_directory ''x'') \<and>
   resolve_file_entry tree_externs tree_db ''r'' ''R'' ''/x/f'' = Inr (''F'', 7) \<and>
   resolve_fs_ids_batch tree_externs tree_db ''r'' [(''R'', ''/x/f'')] = Inr [Some ''F'']"
proof (intro conjI)
  show "resolve_fs_id tree_externs tree_db ''r'' ''R'' ''/x/f'' = Inl (not_a_directory ''x'')" by code_simp
  show "resolve_file_entry tree_externs tree_db ''r'' ''R'' ''/x/f'' = Inr (''F'', 7)" by code_simp
  show "resolve_fs_ids_batch tree_externs tree_db ''r'' [(''R'', ''/x/f'')] = Inr [Some ''F'']" by code_simp
qed

end
