(* ===== verification/Merge.thy ===== *)
theory Merge
  imports Traversal Tree
begin

text \<open>
  The three-way merge of directory trees, \<open>server/src/fs/core/merge.rs\<close>.

  Not in \<open>src/\<close>, and so fields of the environment record: \<open>chrono\<close>'s local-time formatting, the
  clock (the \<open>n\<close>-th reading of \<open>Utc::now()\<close>), and the user table's email to nickname lookup.
  The mutable half of \<open>MergeCtx\<close>, with the object table it writes, is the state record
  \<open>merge_ctx\<close>; its borrowed half is in \<open>merge_env\<close>.
\<close>

section \<open>Data\<close>

record merge_env =
  me_ext :: externs
  me_lim :: tree_limits
  me_repo_id :: string
  me_remote_root :: string
  me_creator_name :: string
  me_nickname_of :: "string \<Rightarrow> string option"
  me_now :: "nat \<Rightarrow> int"
  me_local_time :: "int \<Rightarrow> string option"

record merge_ctx =
  mc_db :: fs_objects
  mc_conflict :: bool
  mc_kept_deleted :: bool
  mc_visit_dirs :: nat
  mc_guard :: TreeGuard
  mc_nicknames :: "(string \<times> string option) list"
  mc_reads :: nat

record MergeOutcome =
  merged_root :: string
  out_conflict :: bool
  out_kept_deleted :: bool
  out_visit_dirs :: nat

text \<open>The array \<open>[Option<DirEntryData>; 3]\<close>, by side: base, head, remote.\<close>

record slots =
  s_base :: "DirEntryData option"
  s_head :: "DirEntryData option"
  s_remote :: "DirEntryData option"

type_synonym trees = "FsDirData option \<times> FsDirData option \<times> FsDirData option"

datatype FileChoice =
    FDrop
  | FEmit DirEntryData
  | RenameRemote "DirEntryData option"
  | RenameRemoteDir DirEntryData

datatype DirChoice = DDrop | DEmit nat | DRecurse nat

section \<open>The merge tables\<close>

definition as_file :: "DirEntryData option \<Rightarrow> DirEntryData option" where
  "as_file s = (case s of None \<Rightarrow> None | Some e \<Rightarrow> if is_regular (de_mode e) then Some e else None)"

definition as_dir :: "DirEntryData option \<Rightarrow> DirEntryData option" where
  "as_dir s = (case s of None \<Rightarrow> None | Some e \<Rightarrow> if is_dir_mode (de_mode e) then Some e else None)"

definition has_id :: "DirEntryData option \<Rightarrow> string \<Rightarrow> bool" where
  "has_id s i \<longleftrightarrow> (case s of None \<Rightarrow> False | Some e \<Rightarrow> de_id e = i)"

definition choose_file :: "slots \<Rightarrow> FileChoice" where
  "choose_file s =
     (case (as_file (s_base s), as_file (s_head s), as_file (s_remote s)) of
        (base, Some head, Some remote) \<Rightarrow>
          if de_id head = de_id remote then FEmit head
          else if has_id base (de_id head) then FEmit remote
          else if has_id base (de_id remote) then FEmit head
          else RenameRemote (Some head)
      | (Some base, None, Some remote) \<Rightarrow>
          if de_id base = de_id remote then FDrop
          else if s_head s \<noteq> None then RenameRemote None
          else FEmit remote
      | (Some base, Some head, None) \<Rightarrow>
          if de_id base = de_id head then FDrop
          else if s_remote s \<noteq> None then RenameRemoteDir head
          else FEmit head
      | (None, None, Some remote) \<Rightarrow>
          (case s_head s of
             None \<Rightarrow> FEmit remote
           | Some h \<Rightarrow> if has_id (s_base s) (de_id h) then FEmit remote else RenameRemote None)
      | (None, Some head, None) \<Rightarrow>
          (case s_remote s of
             None \<Rightarrow> FEmit head
           | Some r \<Rightarrow> if has_id (s_base s) (de_id r) then FEmit head else RenameRemoteDir head)
      | _ \<Rightarrow> FDrop)"

definition dir_mask :: "slots \<Rightarrow> nat" where
  "dir_mask s = (if as_dir (s_base s) \<noteq> None then 1 else 0) +
     (if as_dir (s_head s) \<noteq> None then 2 else 0) + (if as_dir (s_remote s) \<noteq> None then 4 else 0)"

text \<open>\<open>Option::unwrap\<close> of a slot whose bit is set in the mask; a panic otherwise.\<close>

definition unwrap :: "'a option \<Rightarrow> 'a result" where
  "unwrap v = ok_or (Internal ''called unwrap on a None value'') v"

definition choose_dir :: "slots \<Rightarrow> DirChoice result" where
  "choose_dir s =
     (let mask = dir_mask s; base = s_base s; head = s_head s; remote = s_remote s in
      if mask = 0 then Inl (Internal ''merge: empty directory group'')
      else if mask = 1 then Inr DDrop
      else if mask = 2 then Inr (DEmit 1)
      else if mask = 3 then
        rbind (unwrap base) (\<lambda>b. rbind (unwrap head) (\<lambda>h.
          Inr (if de_id b = de_id h then DDrop else DRecurse 1)))
      else if mask = 4 then Inr (DEmit 2)
      else if mask = 5 then
        rbind (unwrap base) (\<lambda>b. rbind (unwrap remote) (\<lambda>r.
          Inr (if de_id b = de_id r then DDrop else DRecurse 2)))
      else if mask = 6 \<or> mask = 7 then
        rbind (unwrap head) (\<lambda>h. rbind (unwrap remote) (\<lambda>r.
          Inr (if de_id h = de_id r then DEmit 1
               else if has_id base (de_id h) then DEmit 2
               else if has_id base (de_id r) then DEmit 1
               else DRecurse 1)))
      else Inl (Internal ''merge: invalid directory group''))"

section \<open>Conflict names\<close>

definition load_dir :: "externs \<Rightarrow> fs_objects \<Rightarrow> string \<Rightarrow> string \<Rightarrow> FsDirData result" where
  "load_dir x db repo_id fs_id =
     map_err (\<lambda>e. Internal (''merge: cannot read tree '' @ fs_id @ '': '' @ display_error e))
       (read_fs_dir_data x db repo_id fs_id)"

definition nickname :: "merge_env \<Rightarrow> string \<Rightarrow> merge_ctx \<Rightarrow> string \<times> merge_ctx" where
  "nickname env email ctx =
     (case map_of (mc_nicknames ctx) email of
        Some cached \<Rightarrow> (case cached of Some n \<Rightarrow> n | None \<Rightarrow> email, ctx)
      | None \<Rightarrow>
          let nick = me_nickname_of env email in
          (case nick of Some n \<Rightarrow> n | None \<Rightarrow> email,
           ctx\<lparr>mc_nicknames := hm_insert email nick (mc_nicknames ctx)\<rparr>))"

fun modifier_walk :: "externs \<Rightarrow> fs_objects \<Rightarrow> string \<Rightarrow> string \<Rightarrow> string list \<Rightarrow> string result" where
  "modifier_walk x db repo_id dir_id [] = Inr dir_id"
| "modifier_walk x db repo_id dir_id (segment # rest) =
     rbind (load_dir x db repo_id dir_id) (\<lambda>dir.
       rbind (ok_or (NotFound ''merge: conflict path not found'')
                (find (\<lambda>e. de_name e = segment \<and> is_dir_mode (de_mode e)) (dirents dir))) (\<lambda>entry.
         modifier_walk x db repo_id (de_id entry) rest))"

definition remote_modifier_mtime ::
    "merge_env \<Rightarrow> fs_objects \<Rightarrow> string \<Rightarrow> (string \<times> int) option result" where
  "remote_modifier_mtime env db path =
     (let (parent, filename) = (case rsplit_once slash path of
            Some (parent, filename) \<Rightarrow> (parent, filename) | None \<Rightarrow> ([], path)) in
      rbind (modifier_walk (me_ext env) db (me_repo_id env) (me_remote_root env)
               (filter (\<lambda>s. s \<noteq> []) (split_on slash parent))) (\<lambda>dir_id.
        rbind (load_dir (me_ext env) db (me_repo_id env) dir_id) (\<lambda>dir.
          Inr (map_option (\<lambda>e. (de_modifier e, de_mtime e)) (find_entry filename dir)))))"

definition conflict_path :: "string \<Rightarrow> string option \<Rightarrow> string \<Rightarrow> string" where
  "conflict_path path modifier timestamp =
     (case rsplit_once dot path of
        Some (stem, extension) \<Rightarrow>
          (case modifier of
             Some m \<Rightarrow> stem @ '' (SFConflict '' @ m @ '' '' @ timestamp @ '').'' @ extension
           | None \<Rightarrow> stem @ '' (SFConflict '' @ timestamp @ '').'' @ extension)
      | None \<Rightarrow>
          (case modifier of
             Some m \<Rightarrow> path @ '' (SFConflict '' @ m @ '' '' @ timestamp @ '')''
           | None \<Rightarrow> path @ '' (SFConflict '' @ timestamp @ '')''))"

definition format_local_timestamp :: "merge_env \<Rightarrow> int \<Rightarrow> string" where
  "format_local_timestamp env seconds =
     (case me_local_time env seconds of Some t \<Rightarrow> t | None \<Rightarrow> show_int seconds)"

definition utc_now :: "merge_env \<Rightarrow> merge_ctx \<Rightarrow> int \<times> merge_ctx" where
  "utc_now env ctx = (me_now env (mc_reads ctx), ctx\<lparr>mc_reads := mc_reads ctx + 1\<rparr>)"

definition conflict_file_name :: "merge_env \<Rightarrow> string \<Rightarrow> string \<Rightarrow> merge_ctx \<Rightarrow> string \<times> merge_ctx" where
  "conflict_file_name env basedir name ctx =
     (let path = basedir @ name;
          (modifier, mtime, ctx) =
            (case remote_modifier_mtime env (mc_db ctx) path of
               Inr (Some (modifier, mtime)) \<Rightarrow> (Some modifier, mtime, ctx)
             | Inr None \<Rightarrow> (None, 0, ctx)
             | Inl _ \<Rightarrow> (let (now, ctx) = utc_now env ctx in (Some (me_creator_name env), now, ctx)));
          (nick, ctx) =
            (case modifier of
               Some email \<Rightarrow> (let (n, ctx) = nickname env email ctx in (Some n, ctx))
             | None \<Rightarrow> (None, ctx))
      in (conflict_path name nick (format_local_timestamp env mtime), ctx))"

definition conflict_dir_name :: "merge_env \<Rightarrow> string \<Rightarrow> merge_ctx \<Rightarrow> string \<times> merge_ctx" where
  "conflict_dir_name env name ctx =
     (let (now, ctx) = utc_now env ctx
      in (conflict_path name (Some (me_creator_name env)) (format_local_timestamp env now), ctx))"

section \<open>One level\<close>

definition empty_slots :: slots where
  "empty_slots = \<lparr>s_base = None, s_head = None, s_remote = None\<rparr>"

definition slot :: "slots \<Rightarrow> nat \<Rightarrow> DirEntryData option" where
  "slot s side = (if side = 0 then s_base s else if side = 1 then s_head s else s_remote s)"

definition set_slot :: "nat \<Rightarrow> DirEntryData \<Rightarrow> slots \<Rightarrow> slots" where
  "set_slot side e s =
     (if side = 0 then s\<lparr>s_base := Some e\<rparr> else if side = 1 then s\<lparr>s_head := Some e\<rparr>
      else s\<lparr>s_remote := Some e\<rparr>)"

definition add_entry :: "nat \<Rightarrow> DirEntryData \<Rightarrow> (string \<times> slots) list \<Rightarrow> (string \<times> slots) list" where
  "add_entry side entry groups =
     (let s = (case map_of groups (de_name entry) of Some s \<Rightarrow> s | None \<Rightarrow> empty_slots)
      in hm_insert (de_name entry) (if slot s side = None then set_slot side entry s else s) groups)"

definition add_tree :: "nat \<Rightarrow> FsDirData option \<Rightarrow> (string \<times> slots) list \<Rightarrow> (string \<times> slots) list" where
  "add_tree side tree groups =
     (case tree of None \<Rightarrow> groups
      | Some d \<Rightarrow> fold (add_entry side) (sort_dirents_desc (dirents d)) groups)"

text \<open>The grouped lists in the order the loop visits them: the \<open>BTreeMap\<close> reversed.\<close>

definition group_entries :: "trees \<Rightarrow> (string \<times> slots) list" where
  "group_entries = (\<lambda>(base, head, remote).
     sort_desc fst (add_tree 2 remote (add_tree 1 head (add_tree 0 base []))))"

definition any_regular :: "slots \<Rightarrow> bool" where
  "any_regular s \<longleftrightarrow> as_file (s_base s) \<noteq> None \<or> as_file (s_head s) \<noteq> None \<or> as_file (s_remote s) \<noteq> None"

definition any_dir :: "slots \<Rightarrow> bool" where
  "any_dir s \<longleftrightarrow> as_dir (s_base s) \<noteq> None \<or> as_dir (s_head s) \<noteq> None \<or> as_dir (s_remote s) \<noteq> None"

definition merge_file_group ::
    "merge_env \<Rightarrow> string \<Rightarrow> slots \<Rightarrow> merge_ctx \<Rightarrow> DirEntryData list \<Rightarrow>
     (slots \<times> merge_ctx \<times> DirEntryData list) result" where
  "merge_file_group env basedir s ctx merged =
     (case choose_file s of
        FDrop \<Rightarrow> Inr (s, ctx, merged)
      | FEmit entry \<Rightarrow>
          Inr (s, if s_base s \<noteq> None \<and> (s_head s = None) \<noteq> (s_remote s = None)
                  then ctx\<lparr>mc_kept_deleted := True\<rparr> else ctx, merged @ [entry])
      | RenameRemote keep \<Rightarrow>
          rbind (ok_or (Internal ''merge: missing remote file'') (s_remote s)) (\<lambda>remote.
            let (new_name, ctx) = conflict_file_name env basedir (de_name remote) ctx;
                merged = (case keep of Some head \<Rightarrow> merged @ [head] | None \<Rightarrow> merged)
            in Inr (s, ctx\<lparr>mc_conflict := True\<rparr>, merged @ [remote\<lparr>de_name := new_name\<rparr>]))
      | RenameRemoteDir head \<Rightarrow>
          rbind (ok_or (Internal ''merge: missing remote directory'') (s_remote s)) (\<lambda>remote.
            let (new_name, ctx) = conflict_dir_name env (de_name remote) ctx
            in Inr (s\<lparr>s_remote := Some (remote\<lparr>de_name := new_name\<rparr>)\<rparr>,
                    ctx\<lparr>mc_conflict := True\<rparr>, merged @ [head])))"

definition last_dir_name :: "slots \<Rightarrow> string option" where
  "last_dir_name s =
     (case as_dir (s_remote s) of Some e \<Rightarrow> Some (de_name e)
      | None \<Rightarrow> (case as_dir (s_head s) of Some e \<Rightarrow> Some (de_name e)
      | None \<Rightarrow> map_option de_name (as_dir (s_base s))))"

definition load_child :: "merge_env \<Rightarrow> fs_objects \<Rightarrow> DirEntryData option \<Rightarrow> FsDirData option result" where
  "load_child env db entry =
     (case as_dir entry of
        None \<Rightarrow> Inr None
      | Some e \<Rightarrow> rbind (load_dir (me_ext env) db (me_repo_id env) (de_id e)) (\<lambda>d. Inr (Some d)))"

definition merge_dir_group ::
    "merge_env \<Rightarrow> (merge_ctx \<Rightarrow> trees \<Rightarrow> string \<Rightarrow> (string \<times> merge_ctx) result) \<Rightarrow> string \<Rightarrow>
     slots \<Rightarrow> merge_ctx \<Rightarrow> DirEntryData list \<Rightarrow> (merge_ctx \<times> DirEntryData list) result" where
  "merge_dir_group env recurse basedir s ctx merged =
     rbind (choose_dir s) (\<lambda>choice.
       (case choice of
          DDrop \<Rightarrow> Inr (ctx, merged)
        | DEmit k \<Rightarrow>
            let other = (if k = 1 then 2 else 1);
                ctx = (if s_base s \<noteq> None \<and> slot s other = None then ctx\<lparr>mc_kept_deleted := True\<rparr> else ctx)
            in Inr (ctx, case slot s k of Some entry \<Rightarrow> merged @ [entry] | None \<Rightarrow> merged)
        | DRecurse k \<Rightarrow>
            let other = (if k = 1 then 2 else 1);
                ctx = (if slot s other = None then ctx\<lparr>mc_kept_deleted := True\<rparr> else ctx)
            in
            rbind (ok_or (Internal ''merge: recursive action without a directory'') (last_dir_name s)) (\<lambda>dirname.
            rbind (load_child env (mc_db ctx) (s_base s)) (\<lambda>c0.
            rbind (load_child env (mc_db ctx) (s_head s)) (\<lambda>c1.
            rbind (load_child env (mc_db ctx) (s_remote s)) (\<lambda>c2.
            rbind (recurse ctx (c0, c1, c2) (basedir @ dirname @ [slash])) (\<lambda>(root, ctx).
            rbind (ok_or (Internal ''merge: missing directory to emit'') (slot s k)) (\<lambda>entry.
            Inr (ctx, merged @ [entry\<lparr>de_id := root\<rparr>])))))))))"

definition merge_group ::
    "merge_env \<Rightarrow> (merge_ctx \<Rightarrow> trees \<Rightarrow> string \<Rightarrow> (string \<times> merge_ctx) result) \<Rightarrow> string \<Rightarrow>
     string \<times> slots \<Rightarrow> merge_ctx \<times> DirEntryData list \<Rightarrow> (merge_ctx \<times> DirEntryData list) result" where
  "merge_group env recurse basedir = (\<lambda>(_, s) (ctx, merged).
     rbind (if any_regular s then merge_file_group env basedir s ctx merged else Inr (s, ctx, merged))
       (\<lambda>(s, ctx, merged).
         if any_dir s then merge_dir_group env recurse basedir s ctx merged else Inr (ctx, merged)))"

definition depth_error :: "tree_limits \<Rightarrow> AppError" where
  "depth_error lim = BadRequest (''merge exceeded the maximum directory depth ('' @
     show_nat (max_tree_depth lim) @ '')'')"

function merge_level ::
    "merge_env \<Rightarrow> nat \<Rightarrow> merge_ctx \<Rightarrow> trees \<Rightarrow> string \<Rightarrow> (string \<times> merge_ctx) result" where
  "merge_level env depth ctx trees basedir =
     (if depth > max_tree_depth (me_lim env) then Inl (depth_error (me_lim env))
      else rbind (visit (me_lim env) 1 (mc_guard ctx)) (\<lambda>g.
        let ctx = ctx\<lparr>mc_guard := g, mc_visit_dirs := mc_visit_dirs ctx + 1\<rparr> in
        rbind (rfold (merge_group env (\<lambda>ctx trees basedir. merge_level env (depth + 1) ctx trees basedir) basedir)
                 (group_entries trees) (ctx, [])) (\<lambda>(ctx, merged).
          let (root, db) = store_fs_dir_object (me_ext env) (me_repo_id env)
                \<lparr>dirents = merged, dir_type = SEAF_METADATA_TYPE_DIR, dir_version = 1\<rparr> (mc_db ctx)
          in Inr (root, ctx\<lparr>mc_db := db\<rparr>))))"
  by pat_completeness auto
termination
  by (relation "measure (\<lambda>(env, depth, _). Suc (max_tree_depth (me_lim env)) - depth)") auto

declare merge_level.simps [simp del]

definition merge_trees ::
    "merge_env \<Rightarrow> string \<Rightarrow> string \<Rightarrow> fs_objects \<Rightarrow> (MergeOutcome \<times> fs_objects) result" where
  "merge_trees env base_root head_root db =
     (let load = load_dir (me_ext env) db (me_repo_id env) in
      rbind (load base_root) (\<lambda>base.
      rbind (load head_root) (\<lambda>head.
      rbind (load (me_remote_root env)) (\<lambda>remote.
      let ctx = \<lparr>mc_db = db, mc_conflict = False, mc_kept_deleted = False, mc_visit_dirs = 0,
                 mc_guard = new_guard, mc_nicknames = [], mc_reads = 0\<rparr> in
      rbind (merge_level env 1 ctx (Some base, Some head, Some remote) []) (\<lambda>(root, ctx).
      Inr (\<lparr>merged_root = root, out_conflict = mc_conflict ctx,
            out_kept_deleted = mc_kept_deleted ctx, out_visit_dirs = mc_visit_dirs ctx\<rparr>,
           mc_db ctx))))))"

end
