(* ===== verification/MergeLaws.thy ===== *)
theory MergeLaws
  imports Merge
begin

text \<open>
  Correctness of the three-way merge. The reference is the textbook rule on one name: take the
  side that changed, or either when both agree. \<open>merge_level\<close> is shown to follow it on every name
  where it applies, to keep every file that one side changed, to only add rows to the object
  table, and to walk a bounded number of levels.
\<close>

section \<open>The groups of a level\<close>

definition side_slot :: "FsDirData option \<Rightarrow> string \<Rightarrow> DirEntryData option" where
  "side_slot t n = (case t of None \<Rightarrow> None | Some d \<Rightarrow> find_entry n d)"

definition slots_of :: "trees \<Rightarrow> string \<Rightarrow> slots" where
  "slots_of = (\<lambda>(base, head, remote) n.
     \<lparr>s_base = side_slot base n, s_head = side_slot head n, s_remote = side_slot remote n\<rparr>)"

text \<open>What the entries of one side do to the group of a name.\<close>

definition offer :: "nat \<Rightarrow> DirEntryData option \<Rightarrow> slots option \<Rightarrow> slots option" where
  "offer side e g = (case e of None \<Rightarrow> g
     | Some e \<Rightarrow> let s = (case g of Some s \<Rightarrow> s | None \<Rightarrow> empty_slots)
                 in Some (if slot s side = None then set_slot side e s else s))"

lemma slot_set_slot [simp]:
  "slot (set_slot side e s) side = Some e"
  by (simp add: slot_def set_slot_def)

lemma offer_offer: "offer side e' (offer side (Some e) g) = offer side (Some e) g"
  by (cases e') (auto simp: offer_def Let_def)

lemma map_of_add_entry:
  "map_of (add_entry side e gs) n =
     (if de_name e = n then offer side (Some e) (map_of gs n) else map_of gs n)"
  by (auto simp: add_entry_def offer_def Let_def split: option.splits)

lemma map_of_add_entries:
  "map_of (fold (add_entry side) es gs) n =
     offer side (find (\<lambda>e. de_name e = n) es) (map_of gs n)"
proof (induction es arbitrary: gs)
  case (Cons e es)
  then show ?case by (simp add: map_of_add_entry offer_offer)
qed (simp add: offer_def)

lemma map_of_add_tree:
  "map_of (add_tree side t gs) n = offer side (side_slot t n) (map_of gs n)"
  by (auto simp: add_tree_def side_slot_def find_entry_def map_of_add_entries
      sort_dirents_desc_def offer_def split: option.splits)

lemma distinct_add_entries:
  "distinct (map fst gs) \<Longrightarrow> distinct (map fst (fold (add_entry side) es gs))"
  by (induction es arbitrary: gs) (simp_all add: add_entry_def Let_def)

lemma distinct_add_tree:
  "distinct (map fst gs) \<Longrightarrow> distinct (map fst (add_tree side t gs))"
  by (cases t) (simp_all add: add_tree_def distinct_add_entries)

lemma map_of_distinct_iff: "distinct (map fst gs) \<Longrightarrow> map_of gs k = Some v \<longleftrightarrow> (k, v) \<in> set gs"
  by simp

lemma distinct_groups: "distinct (map fst (group_entries ts))"
proof -
  obtain b h r where ts: "ts = (b, h, r)" by (cases ts)
  have "distinct (map fst (add_tree 2 r (add_tree 1 h (add_tree 0 b []))))"
    by (intro distinct_add_tree) simp
  then show ?thesis
    by (simp add: ts group_entries_def) (metis mset_map mset_sort_desc distinct_count_atmost_1 mset_eq_imp_distinct_iff)
qed

lemma sorted_groups: "sorted_desc fst (group_entries ts)"
  by (cases ts) (simp add: group_entries_def)

lemma groups_iff:
  "(n, s) \<in> set (group_entries ts) \<longleftrightarrow> s = slots_of ts n \<and> s \<noteq> empty_slots"
proof -
  obtain b h r where ts: "ts = (b, h, r)" by (cases ts)
  let ?gs = "add_tree 2 r (add_tree 1 h (add_tree 0 b []))"
  have "distinct (map fst ?gs)" by (intro distinct_add_tree) simp
  then have "(n, s) \<in> set ?gs \<longleftrightarrow> map_of ?gs n = Some s" by (simp add: map_of_distinct_iff)
  also have "\<dots> \<longleftrightarrow> s = slots_of ts n \<and> s \<noteq> empty_slots"
    unfolding map_of_add_tree ts
    by (auto simp: offer_def slots_of_def empty_slots_def slot_def set_slot_def Let_def split: option.splits)
  finally show ?thesis by (simp add: ts group_entries_def)
qed

section \<open>The textbook rule\<close>

text \<open>What the merge compares of an entry: is it a directory, and which object it names.\<close>

definition entry_key :: "DirEntryData \<Rightarrow> bool \<times> string" where
  "entry_key e = (is_dir_mode (de_mode e), de_id e)"

definition merge3 :: "'a option \<Rightarrow> 'a option \<Rightarrow> 'a option \<Rightarrow> 'a option" where
  "merge3 b h r = (if h = r then h else if b = h then r else h)"

text \<open>The rule applies when at most one side changed the name, or both made it the same.\<close>

definition clean :: "slots \<Rightarrow> bool" where
  "clean s \<longleftrightarrow> (let b = map_option entry_key (s_base s); h = map_option entry_key (s_head s);
       r = map_option entry_key (s_remote s) in h = r \<or> b = h \<or> b = r)"

definition typed_entry :: "DirEntryData \<Rightarrow> bool" where
  "typed_entry e \<longleftrightarrow> is_regular (de_mode e) \<or> is_dir_mode (de_mode e)"

definition typed_slots :: "slots \<Rightarrow> bool" where
  "typed_slots s \<longleftrightarrow> pred_option typed_entry (s_base s) \<and> pred_option typed_entry (s_head s) \<and>
     pred_option typed_entry (s_remote s)"

definition opt_list :: "'a option \<Rightarrow> 'a list" where
  "opt_list x = (case x of None \<Rightarrow> [] | Some v \<Rightarrow> [v])"

lemma opt_list_simps [simp]: "opt_list None = []" "opt_list (Some v) = [v]"
  by (simp_all add: opt_list_def)

definition pick :: "slots \<Rightarrow> DirEntryData list" where
  "pick s = (let b = map_option entry_key (s_base s); h = map_option entry_key (s_head s);
       r = map_option entry_key (s_remote s)
     in opt_list (if h = r then s_head s else if b = h then s_remote s else s_head s))"

lemma regular_not_dir: "is_regular m \<Longrightarrow> \<not> is_dir_mode m"
  by (auto simp: is_regular_def is_dir_mode_def S_IFREG_TYPE_def S_IFDIR_TYPE_def)

lemma pick_key:
  "map entry_key (pick s) = opt_list (merge3 (map_option entry_key (s_base s))
     (map_option entry_key (s_head s)) (map_option entry_key (s_remote s)))"
  by (auto simp: pick_def merge3_def Let_def opt_list_def split: option.splits)

text \<open>A slot holds nothing, a regular file or a directory.\<close>

lemma slot_cases:
  assumes "pred_option typed_entry x"
  obtains (none) "x = None" "as_file x = None" "as_dir x = None"
    | (reg) e where "x = Some e" "as_file x = Some e" "as_dir x = None" "entry_key e = (False, de_id e)"
    | (dir) e where "x = Some e" "as_file x = None" "as_dir x = Some e" "entry_key e = (True, de_id e)"
proof (cases x)
  case None
  then show ?thesis by (intro none) (simp_all add: as_file_def as_dir_def)
next
  case (Some e)
  show ?thesis
  proof (cases "is_regular (de_mode e)")
    case True
    then show ?thesis using Some regular_not_dir [OF True]
      by (intro reg [of e]) (simp_all add: as_file_def as_dir_def entry_key_def)
  next
    case False
    then show ?thesis using Some assms
      by (intro dir [of e]) (simp_all add: as_file_def as_dir_def typed_entry_def entry_key_def)
  qed
qed

lemmas group_simps = merge_group_def merge_file_group_def merge_dir_group_def choose_file_def
  choose_dir_def dir_mask_def any_regular_def any_dir_def has_id_def unwrap_def slot_def Let_def

lemma merge_group_clean:
  assumes "typed_slots s" "clean s"
  shows "merge_group env rec bd (n, s) (ctx, m) = Inr (ctx, m @ pick s)"
proof -
  have t: "pred_option typed_entry (s_base s)" "pred_option typed_entry (s_head s)"
    "pred_option typed_entry (s_remote s)"
    using assms(1) by (simp_all add: typed_slots_def)
  show ?thesis using assms(2)
    by (cases rule: slot_cases [OF t(1)]; cases rule: slot_cases [OF t(2)]; cases rule: slot_cases [OF t(3)])
      (auto simp: group_simps clean_def pick_def)
qed

definition picked :: "trees \<Rightarrow> DirEntryData list" where
  "picked ts = concat (map (\<lambda>p. pick (snd p)) (group_entries ts))"

lemma rfold_clean:
  assumes "\<And>n s. (n, s) \<in> set gs \<Longrightarrow> typed_slots s \<and> clean s"
  shows "rfold (merge_group env rec bd) gs (ctx, m) = Inr (ctx, m @ concat (map (\<lambda>p. pick (snd p)) gs))"
  using assms
proof (induction gs arbitrary: m)
  case (Cons g gs)
  obtain n s where g: "g = (n, s)" by (cases g)
  have "merge_group env rec bd g (ctx, m) = Inr (ctx, m @ pick s)"
    unfolding g by (rule merge_group_clean) (use Cons.prems [of n s] g in auto)
  moreover have "rfold (merge_group env rec bd) gs (ctx, m @ pick s) =
      Inr (ctx, (m @ pick s) @ concat (map (\<lambda>p. pick (snd p)) gs))"
    by (rule Cons.IH) (use Cons.prems in auto)
  ultimately show ?case using g by simp
qed simp

lemma find_append_skip: "(\<And>e. e \<in> set xs \<Longrightarrow> \<not> P e) \<Longrightarrow> find P (xs @ ys) = find P ys"
  by (induction xs) auto

lemma find_concat_groups:
  assumes "distinct (map fst gs)" "\<And>k s e. (k, s) \<in> set gs \<Longrightarrow> e \<in> set (g s) \<Longrightarrow> de_name e = k"
  shows "find (\<lambda>e. de_name e = n) (concat (map (\<lambda>p. g (snd p)) gs)) =
    (case map_of gs n of None \<Rightarrow> None | Some s \<Rightarrow> find (\<lambda>_. True) (g s))"
  using assms
proof (induction gs)
  case (Cons p gs)
  obtain k s where p: "p = (k, s)" by (cases p)
  have nm: "\<And>e. e \<in> set (g s) \<Longrightarrow> de_name e = k" using Cons.prems(2) p by auto
  have IH: "find (\<lambda>e. de_name e = n) (concat (map (\<lambda>p. g (snd p)) gs)) =
      (case map_of gs n of None \<Rightarrow> None | Some s \<Rightarrow> find (\<lambda>_. True) (g s))"
    by (rule Cons.IH) (use Cons.prems in auto)
  show ?case
  proof (cases "k = n")
    case True
    then have "map_of gs n = None" using Cons.prems(1) p by (simp add: map_of_eq_None_iff)
    then show ?thesis using IH p True nm by (cases "g s") auto
  next
    case False
    then have "find (\<lambda>e. de_name e = n) (g s @ ys) = find (\<lambda>e. de_name e = n) ys" for ys
      using nm by (intro find_append_skip) auto
    then show ?thesis using IH p False by simp
  qed
qed simp

definition dir_view :: "FsDirData \<Rightarrow> string \<Rightarrow> (bool \<times> string) option" where
  "dir_view d n = map_option entry_key (find_entry n d)"

lemma side_slot_name: "side_slot t n = Some e \<Longrightarrow> de_name e = n"
  by (auto simp: side_slot_def find_entry_def find_Some_iff split: option.splits)

lemma pick_from: "e \<in> set (pick s) \<Longrightarrow> s_head s = Some e \<or> s_remote s = Some e"
  by (auto simp: pick_def opt_list_def Let_def split: if_splits option.splits)

lemma pick_name: "e \<in> set (pick (slots_of ts n)) \<Longrightarrow> de_name e = n"
  by (cases ts) (auto dest!: pick_from dest: side_slot_name simp: slots_of_def)

lemma map_of_groups:
  "map_of (group_entries ts) n = (if slots_of ts n = empty_slots then None else Some (slots_of ts n))"
  by (metis (full_types) distinct_groups groups_iff map_of_distinct_iff option.exhaust)

lemma picked_view:
  "map_option entry_key (find (\<lambda>e. de_name e = n) (picked ts)) =
   (let s = slots_of ts n in merge3 (map_option entry_key (s_base s))
      (map_option entry_key (s_head s)) (map_option entry_key (s_remote s)))"
proof -
  have "find (\<lambda>e. de_name e = n) (picked ts) =
      (case map_of (group_entries ts) n of None \<Rightarrow> None | Some s \<Rightarrow> find (\<lambda>_. True) (pick s))"
    unfolding picked_def
    by (rule find_concat_groups) (auto simp: distinct_groups groups_iff dest: pick_name)
  also have "\<dots> = find (\<lambda>_. True) (pick (slots_of ts n))"
    by (simp add: map_of_groups pick_def empty_slots_def Let_def)
  finally have f: "find (\<lambda>e. de_name e = n) (picked ts) = find (\<lambda>_. True) (pick (slots_of ts n))" .
  show ?thesis using pick_key [of "slots_of ts n"]
    by (cases "pick (slots_of ts n)") (auto simp: f Let_def opt_list_def split: option.splits)
qed

lemma length_pick: "length (pick s) \<le> 1"
  by (auto simp: pick_def opt_list_def Let_def split: option.splits)

lemma distinct_concat_groups:
  assumes "distinct (map fst gs)" "\<And>k s e. (k, s) \<in> set gs \<Longrightarrow> e \<in> set (g s) \<Longrightarrow> de_name e = k"
    and "\<And>s. length (g s) \<le> 1"
  shows "distinct (map de_name (concat (map (\<lambda>p. g (snd p)) gs)))"
  using assms(1,2)
proof (induction gs)
  case (Cons p gs)
  obtain k s where p: "p = (k, s)" by (cases p)
  have nm: "\<And>e. e \<in> set (g s) \<Longrightarrow> de_name e = k" using Cons.prems(2) p by auto
  have "k \<notin> de_name ` set (concat (map (\<lambda>p. g (snd p)) gs))"
  proof
    assume "k \<in> de_name ` set (concat (map (\<lambda>p. g (snd p)) gs))"
    then obtain q e where q: "q \<in> set gs" "e \<in> set (g (snd q))" "de_name e = k" by auto
    then have "fst q = k" using Cons.prems(2) [of "fst q" "snd q" e] by simp
    then show False using Cons.prems(1) p q(1) by auto
  qed
  moreover have "distinct (map de_name (concat (map (\<lambda>p. g (snd p)) gs)))"
    by (rule Cons.IH) (use Cons.prems in auto)
  moreover have "g s = [] \<or> (\<exists>e. g s = [e] \<and> de_name e = k)"
    using assms(3) [of s] nm by (cases "g s") auto
  ultimately show ?case using p by auto
qed simp

lemma distinct_picked: "distinct (map de_name (picked ts))"
  unfolding picked_def
  by (rule distinct_concat_groups)
    (use length_pick in \<open>auto simp: distinct_groups groups_iff dest: pick_name\<close>)

lemma merge_level_clean:
  assumes "\<And>n. typed_slots (slots_of ts n) \<and> clean (slots_of ts n)"
    and "depth \<le> max_tree_depth (me_lim env)" "visit (me_lim env) 1 (mc_guard ctx) = Inr g"
  shows "merge_level env depth ctx ts bd =
    (let (root, db) = store_fs_dir_object (me_ext env) (me_repo_id env) (mk_dir (picked ts)) (mc_db ctx)
     in Inr (root, ctx\<lparr>mc_guard := g, mc_visit_dirs := mc_visit_dirs ctx + 1, mc_db := db\<rparr>))"
proof -
  have "rfold (merge_group env rec bd) (group_entries ts) (c, []) = Inr (c, picked ts)" for rec c
    using rfold_clean [of "group_entries ts" env rec bd c "[]"] assms(1)
    by (auto simp: groups_iff picked_def)
  then show ?thesis
    using assms(2,3) by (simp add: merge_level.simps [of env depth] Let_def mk_dir_def split: prod.splits)
qed

lemma typed_slots_of:
  assumes "\<And>t d e. t \<in> {b, h, r} \<Longrightarrow> t = Some d \<Longrightarrow> e \<in> set (dirents d) \<Longrightarrow> typed_entry e"
  shows "typed_slots (slots_of (b, h, r) n)"
proof -
  have "pred_option typed_entry (side_slot t n)" if "t \<in> {b, h, r}" for t
  proof (cases t)
    case (Some d)
    then show ?thesis using assms [OF that Some]
      by (auto simp: side_slot_def find_entry_def pred_option_def find_Some_iff)
  qed (simp add: side_slot_def)
  then show ?thesis by (simp add: typed_slots_def slots_of_def)
qed

lemma first_visit: "1 \<le> max_tree_visits lim \<Longrightarrow> \<exists>g. visit lim 1 new_guard = Inr g"
  by (simp add: visit_def new_guard_def usize_sat_add_def Let_def)

lemma picked_from: "e \<in> set (picked (Some b, Some h, Some r)) \<Longrightarrow> e \<in> set (dirents h) \<union> set (dirents r)"
  by (auto simp: picked_def groups_iff slots_of_def side_slot_def find_entry_def find_Some_iff
      dest!: pick_from)

text \<open>
  C3: on trees where no name was changed differently by the two sides, the merge succeeds and is
  the textbook three-way merge: every name maps to the object the rule selects, nothing is
  renamed, every entry is an unmodified copy, and the stored directory has one entry per name.
\<close>

theorem merge_trees_three_way:
  assumes base: "read_fs_dir_data (me_ext env) db (me_repo_id env) base_root = Inr base"
    and head: "read_fs_dir_data (me_ext env) db (me_repo_id env) head_root = Inr head"
    and remote: "read_fs_dir_data (me_ext env) db (me_repo_id env) (me_remote_root env) = Inr remote"
    and typed: "\<forall>e \<in> set (dirents base) \<union> set (dirents head) \<union> set (dirents remote). typed_entry e"
    and clean: "\<And>n. clean (slots_of (Some base, Some head, Some remote) n)"
    and lim: "1 \<le> max_tree_depth (me_lim env)" "1 \<le> max_tree_visits (me_lim env)"
  shows "\<exists>merged. merge_trees env base_root head_root db =
       (let (root, db') = store_fs_dir_object (me_ext env) (me_repo_id env) merged db in
        Inr (\<lparr>merged_root = root, out_conflict = False, out_kept_deleted = False, out_visit_dirs = 1\<rparr>, db'))
     \<and> (\<forall>n. dir_view merged n = merge3 (dir_view base n) (dir_view head n) (dir_view remote n))
     \<and> distinct (map de_name (dirents merged))
     \<and> set (dirents merged) \<subseteq> set (dirents head) \<union> set (dirents remote)"
proof (intro exI conjI)
  let ?ts = "(Some base, Some head, Some remote)"
  have ok: "typed_slots (slots_of ?ts n) \<and> clean (slots_of ?ts n)" for n
    using typed clean by (auto intro!: typed_slots_of)
  obtain g where g: "visit (me_lim env) 1 new_guard = Inr g"
    using first_visit [OF lim(2)] by blast
  show "merge_trees env base_root head_root db =
       (let (root, db') = store_fs_dir_object (me_ext env) (me_repo_id env) (mk_dir (picked ?ts)) db in
        Inr (\<lparr>merged_root = root, out_conflict = False, out_kept_deleted = False, out_visit_dirs = 1\<rparr>, db'))"
    using merge_level_clean [OF ok] lim(1) g base head remote
    by (simp add: merge_trees_def load_dir_def Let_def split: prod.splits)
  show "\<forall>n. dir_view (mk_dir (picked ?ts)) n = merge3 (dir_view base n) (dir_view head n) (dir_view remote n)"
    using picked_view [of _ ?ts]
    by (simp add: dir_view_def find_entry_def slots_of_def side_slot_def Let_def)
  show "distinct (map de_name (dirents (mk_dir (picked ?ts))))" by (simp add: distinct_picked)
  show "set (dirents (mk_dir (picked ?ts))) \<subseteq> set (dirents head) \<union> set (dirents remote)"
    using picked_from by auto
qed

definition demo_env :: "(string \<times> FsDirData) list \<Rightarrow> merge_env" where
  "demo_env t = \<lparr>me_ext = demo_externs t, me_lim = configure 5 100, me_repo_id = ''r'',
     me_remote_root = ''R'', me_creator_name = ''c'', me_nickname_of = (\<lambda>_. None),
     me_now = (\<lambda>n. int n), me_local_time = (\<lambda>_. None)\<rparr>"

theorem merge_trees_three_way_witness:
  "let base = mk_dir [demo_file ''1'' ''a'', demo_file ''2'' ''b'', demo_dir ''3'' ''d''];
       head = mk_dir [demo_file ''9'' ''a'', demo_file ''2'' ''b'', demo_dir ''3'' ''d''];
       remote = mk_dir [demo_file ''1'' ''a'', demo_dir ''4'' ''d'', demo_file ''5'' ''e''];
       env = demo_env [(''B'', base), (''H'', head), (''R'', remote)]
   in \<exists>merged. merge_trees env ''B'' ''H'' (demo_db [''B'', ''H'', ''R'']) =
       (let (root, db') = store_fs_dir_object (me_ext env) ''r'' merged (demo_db [''B'', ''H'', ''R'']) in
        Inr (\<lparr>merged_root = root, out_conflict = False, out_kept_deleted = False, out_visit_dirs = 1\<rparr>, db'))
     \<and> dir_view merged ''a'' = Some (False, ''9'') \<and> dir_view merged ''b'' = None
     \<and> dir_view merged ''d'' = Some (True, ''4'') \<and> dir_view merged ''e'' = Some (False, ''5'')"
proof -
  define base where "base = mk_dir [demo_file ''1'' ''a'', demo_file ''2'' ''b'', demo_dir ''3'' ''d'']"
  define head where "head = mk_dir [demo_file ''9'' ''a'', demo_file ''2'' ''b'', demo_dir ''3'' ''d'']"
  define remote where "remote = mk_dir [demo_file ''1'' ''a'', demo_dir ''4'' ''d'', demo_file ''5'' ''e'']"
  define env where "env = demo_env [(''B'', base), (''H'', head), (''R'', remote)]"
  define db where "db = demo_db [''B'', ''H'', ''R'']"
  have rd: "read_fs_dir_data (me_ext env) db (me_repo_id env) i = ok_or (Internal ''unknown'')
      (map_of [(''B'', base), (''H'', head), (''R'', remote)] i)" if "i \<in> {''B'', ''H'', ''R''}" for i
    using that by (auto simp: env_def demo_env_def db_def demo_db_def read_fs_dir_data_def
        EMPTY_SHA1_def numeral_eq_Suc as_i8_def SEAF_METADATA_TYPE_DIR_def)
  have v: "dir_view base n = (if n = ''a'' then Some (False, ''1'') else if n = ''b'' then Some (False, ''2'')
        else if n = ''d'' then Some (True, ''3'') else None)"
    "dir_view head n = (if n = ''a'' then Some (False, ''9'') else if n = ''b'' then Some (False, ''2'')
        else if n = ''d'' then Some (True, ''3'') else None)"
    "dir_view remote n = (if n = ''a'' then Some (False, ''1'') else if n = ''d'' then Some (True, ''4'')
        else if n = ''e'' then Some (False, ''5'') else None)" for n
    by (auto simp: base_def head_def remote_def dir_view_def find_entry_def entry_key_def)
  have cl: "clean (slots_of (Some base, Some head, Some remote) n)" for n
    using v [of n] by (auto simp: clean_def slots_of_def side_slot_def dir_view_def Let_def)
  have "\<exists>merged. merge_trees env ''B'' ''H'' db =
       (let (root, db') = store_fs_dir_object (me_ext env) (me_repo_id env) merged db in
        Inr (\<lparr>merged_root = root, out_conflict = False, out_kept_deleted = False, out_visit_dirs = 1\<rparr>, db'))
     \<and> (\<forall>n. dir_view merged n = merge3 (dir_view base n) (dir_view head n) (dir_view remote n))
     \<and> distinct (map de_name (dirents merged))
     \<and> set (dirents merged) \<subseteq> set (dirents head) \<union> set (dirents remote)"
    by (rule merge_trees_three_way [OF _ _ _ _ cl])
      (use rd in \<open>auto simp: env_def demo_env_def configure_def base_def head_def remote_def typed_entry_def\<close>)
  then show ?thesis
    unfolding Let_def base_def [symmetric] head_def [symmetric] remote_def [symmetric]
      env_def [symmetric] db_def [symmetric]
    by (auto simp: v merge3_def env_def demo_env_def)
qed

section \<open>What any merge keeps\<close>

text \<open>The object table grows, the flags are set and never cleared, directories are counted up.\<close>

definition ctx_le :: "merge_ctx \<Rightarrow> merge_ctx \<Rightarrow> bool" where
  "ctx_le c c' \<longleftrightarrow> mc_db c \<subseteq>\<^sub>m mc_db c' \<and> (mc_conflict c \<longrightarrow> mc_conflict c') \<and>
     (mc_kept_deleted c \<longrightarrow> mc_kept_deleted c') \<and> mc_visit_dirs c \<le> mc_visit_dirs c'"

lemma ctx_le_refl [simp]: "ctx_le c c"
  by (simp add: ctx_le_def)

lemma ctx_le_trans: "ctx_le a b \<Longrightarrow> ctx_le b c \<Longrightarrow> ctx_le a c"
  unfolding ctx_le_def using map_le_trans by auto

lemma ctx_le_update [simp]:
  "ctx_le c (c\<lparr>mc_kept_deleted := True\<rparr>)" "ctx_le c (c\<lparr>mc_conflict := True\<rparr>)"
  "ctx_le c (c\<lparr>mc_nicknames := n\<rparr>)" "ctx_le c (c\<lparr>mc_reads := k\<rparr>)"
  by (simp_all add: ctx_le_def)

lemma nickname_le [simp]: "ctx_le c (snd (nickname env e c))"
  by (auto simp: nickname_def Let_def split: option.splits)

lemma utc_now_le [simp]: "ctx_le c (snd (utc_now env c))"
  by (simp add: utc_now_def)

lemma conflict_file_name_le [simp]: "ctx_le c (snd (conflict_file_name env bd n c))"
  using ctx_le_trans [OF utc_now_le nickname_le]
  by (auto simp: conflict_file_name_def Let_def case_prod_beta split: sum.splits option.splits)

lemma conflict_dir_name_le [simp]: "ctx_le c (snd (conflict_dir_name env n c))"
  by (simp add: conflict_dir_name_def case_prod_beta)

lemma merge_file_group_le:
  assumes "merge_file_group env bd s c m = Inr (s', c', m')"
  shows "ctx_le c c'"
proof -
  have "ctx_le c (snd (conflict_file_name env bd n c)\<lparr>mc_conflict := True\<rparr>)"
    "ctx_le c (snd (conflict_dir_name env n c)\<lparr>mc_conflict := True\<rparr>)" for n
    using ctx_le_trans [OF conflict_file_name_le ctx_le_update(2)]
      ctx_le_trans [OF conflict_dir_name_le ctx_le_update(2)] by blast+
  then show ?thesis using assms
    by (auto simp: merge_file_group_def rbind_eq_Inr_iff Let_def case_prod_beta
        split: FileChoice.splits if_splits)
qed

lemma merge_dir_group_le:
  assumes rec: "\<And>c ts bd root c'. rec c ts bd = Inr (root, c') \<Longrightarrow> ctx_le c c'"
    and "merge_dir_group env rec bd s c m = Inr (c', m')"
  shows "ctx_le c c'"
proof -
  obtain choice where ch: "choose_dir s = Inr choice"
    using assms(2) by (auto simp: merge_dir_group_def rbind_eq_Inr_iff)
  define c1 where "c1 k = (if slot s (if k = (1::nat) then 2 else 1) = None then c\<lparr>mc_kept_deleted := True\<rparr> else c)" for k
  have c1: "ctx_le c (c1 k)" for k by (simp add: c1_def)
  show ?thesis
  proof (cases choice)
    case (DRecurse k)
    then obtain ts bd' root where "rec (c1 k) ts bd' = Inr (root, c')"
      using assms(2) ch by (auto simp: merge_dir_group_def rbind_eq_Inr_iff c1_def Let_def)
    then show ?thesis using rec c1 ctx_le_trans by blast
  qed (use assms(2) ch in \<open>auto simp: merge_dir_group_def Let_def split: if_splits\<close>)
qed

lemma merge_group_le:
  assumes rec: "\<And>c ts bd root c'. rec c ts bd = Inr (root, c') \<Longrightarrow> ctx_le c c'"
    and "merge_group env rec bd (n, s) (c, m) = Inr (c', m')"
  shows "ctx_le c c'"
proof -
  obtain s1 c1 m1 where f: "(if any_regular s then merge_file_group env bd s c m else Inr (s, c, m)) = Inr (s1, c1, m1)"
    and d: "(if any_dir s1 then merge_dir_group env rec bd s1 c1 m1 else Inr (c1, m1)) = Inr (c', m')"
    using assms(2) by (auto simp: merge_group_def rbind_eq_Inr_iff)
  have "ctx_le c c1" using f by (auto split: if_splits dest: merge_file_group_le)
  moreover have "ctx_le c1 c'" using d merge_dir_group_le [OF rec] by (fastforce split: if_splits)
  ultimately show ?thesis by (rule ctx_le_trans)
qed

text \<open>One level, taken apart: the loop over the groups, then the store.\<close>

lemma merge_level_InrE:
  assumes "merge_level env depth c ts bd = Inr (root, c')"
  obtains g c1 m where "depth \<le> max_tree_depth (me_lim env)" "visit (me_lim env) 1 (mc_guard c) = Inr g"
    "rfold (merge_group env (merge_level env (depth + 1)) bd) (group_entries ts)
       (c\<lparr>mc_guard := g, mc_visit_dirs := mc_visit_dirs c + 1\<rparr>, []) = Inr (c1, m)"
    "store_fs_dir_object (me_ext env) (me_repo_id env) (mk_dir m) (mc_db c1) = (root, mc_db c')"
    "c' = c1\<lparr>mc_db := mc_db c'\<rparr>"
  using assms
  by (auto simp: merge_level.simps [of env depth c] rbind_eq_Inr_iff Let_def mk_dir_def case_prod_beta
      prod_eq_iff split: if_splits)

lemma merge_level_le: "merge_level env depth c ts bd = Inr (root, c') \<Longrightarrow> ctx_le c c'"
proof (induction "Suc (max_tree_depth (me_lim env)) - depth" arbitrary: depth c ts bd root c')
  case 0
  then show ?case by (auto elim!: merge_level_InrE)
next
  case (Suc k)
  from Suc.prems obtain g c1 m where d: "depth \<le> max_tree_depth (me_lim env)"
    and run: "rfold (merge_group env (merge_level env (depth + 1)) bd) (group_entries ts)
       (c\<lparr>mc_guard := g, mc_visit_dirs := mc_visit_dirs c + 1\<rparr>, []) = Inr (c1, m)"
    and st: "store_fs_dir_object (me_ext env) (me_repo_id env) (mk_dir m) (mc_db c1) = (root, mc_db c')"
    and c': "c' = c1\<lparr>mc_db := mc_db c'\<rparr>"
    by (rule merge_level_InrE)
  have rec: "\<And>c ts bd root c'. merge_level env (depth + 1) c ts bd = Inr (root, c') \<Longrightarrow> ctx_le c c'"
    by (rule Suc.hyps(1)) (use Suc.hyps(2) in auto)
  have "case (c1, m) of (c2, _) \<Rightarrow> ctx_le c c2"
    using run
  proof (rule rfold_invariant)
    fix x u v
    assume "case u of (c2, _) \<Rightarrow> ctx_le c c2" "merge_group env (merge_level env (depth + 1)) bd x u = Inr v"
    then show "case v of (c2, _) \<Rightarrow> ctx_le c c2"
      using merge_group_le [OF rec] by (cases x; cases u; cases v) (auto intro: ctx_le_trans)
  qed (simp add: ctx_le_def)
  moreover have "ctx_le c1 c'"
    using store_dir_le [of "mc_db c1" "me_ext env" "me_repo_id env" "mk_dir m"] st
    by (subst c') (simp add: ctx_le_def)
  ultimately show ?case by (auto intro: ctx_le_trans)
qed

section \<open>No change of a file is lost\<close>

text \<open>A side changed a file: it has a regular file that is not the base's regular file.\<close>

definition changed_file :: "DirEntryData option \<Rightarrow> DirEntryData option \<Rightarrow> DirEntryData \<Rightarrow> bool" where
  "changed_file b s e \<longleftrightarrow> as_file s = Some e \<and> \<not> has_id (as_file b) (de_id e)"

text \<open>Where an emitted entry comes from: a head or remote entry of the group, under its own or a
  conflict name; only a directory may get another id.\<close>

definition comes_from :: "slots \<Rightarrow> DirEntryData \<Rightarrow> bool" where
  "comes_from s e \<longleftrightarrow> (\<exists>f i n. (s_head s = Some f \<or> s_remote s = Some f) \<and> e = f\<lparr>de_id := i, de_name := n\<rparr> \<and>
     (is_regular (de_mode f) \<longrightarrow> i = de_id f))"

definition keeps_changes :: "slots \<Rightarrow> bool \<Rightarrow> DirEntryData set \<Rightarrow> bool" where
  "keeps_changes s conflict es \<longleftrightarrow>
     (\<forall>h. changed_file (s_base s) (s_head s) h \<longrightarrow> h \<in> es) \<and>
     (\<forall>r. changed_file (s_base s) (s_remote s) r \<longrightarrow>
        (\<exists>e\<in>es. de_id e = de_id r \<and> is_regular (de_mode e) \<and> (de_name e = de_name r \<or> conflict)))"

lemma as_file_Some: "as_file x = Some e \<longleftrightarrow> x = Some e \<and> is_regular (de_mode e)"
  by (auto simp: as_file_def split: option.splits)

lemma as_dir_Some: "as_dir x = Some e \<longleftrightarrow> x = Some e \<and> is_dir_mode (de_mode e)"
  by (auto simp: as_dir_def split: option.splits)

lemma has_id_iff: "has_id x i \<longleftrightarrow> (\<exists>e. x = Some e \<and> de_id e = i)"
  by (auto simp: has_id_def split: option.splits)

lemma comes_from_same:
  "s_head s = Some e \<or> s_remote s = Some e \<Longrightarrow> comes_from s e"
  unfolding comes_from_def by (rule exI [of _ e], rule exI [of _ "de_id e"], rule exI [of _ "de_name e"]) auto

lemma comes_from_renamed: "s_remote s = Some e \<Longrightarrow> comes_from s (e\<lparr>de_name := n\<rparr>)"
  unfolding comes_from_def by (rule exI [of _ e], rule exI [of _ "de_id e"], rule exI [of _ n]) auto

lemma file_cases:
  obtains (none) "x = None" "as_file x = None"
    | (reg) e where "x = Some e" "as_file x = Some e" "is_regular (de_mode e)"
    | (other) e where "x = Some e" "as_file x = None"
  by (cases x; cases "is_regular (de_mode (the x))") (auto simp: as_file_def)

text \<open>The four outcomes of the file table, each with what it implies.\<close>

lemma choose_file_keeps:
  "case choose_file s of
     FDrop \<Rightarrow> (\<forall>e. \<not> changed_file (s_base s) (s_head s) e \<and> \<not> changed_file (s_base s) (s_remote s) e)
   | FEmit f \<Rightarrow> (s_head s = Some f \<or> s_remote s = Some f) \<and> is_regular (de_mode f) \<and>
       (\<forall>e. changed_file (s_base s) (s_head s) e \<longrightarrow> e = f) \<and>
       (\<forall>e. changed_file (s_base s) (s_remote s) e \<longrightarrow> de_id e = de_id f)
   | RenameRemote keep \<Rightarrow> as_file (s_remote s) \<noteq> None \<and> keep = as_file (s_head s)
   | RenameRemoteDir f \<Rightarrow> as_file (s_head s) = Some f \<and> s_remote s \<noteq> None \<and> as_file (s_remote s) = None"
  by (cases "s_base s" rule: file_cases; cases "s_head s" rule: file_cases; cases "s_remote s" rule: file_cases)
    (auto simp: choose_file_def changed_file_def has_id_def)

lemma keeps_changes_mono:
  "keeps_changes s c es \<Longrightarrow> (c \<Longrightarrow> c') \<Longrightarrow> es \<subseteq> es' \<Longrightarrow> keeps_changes s c' es'"
  unfolding keeps_changes_def by blast

text \<open>The slots of one group name their entries alike.\<close>

definition same_names :: "slots \<Rightarrow> bool" where
  "same_names s \<longleftrightarrow> (\<exists>n. \<forall>e. s_base s = Some e \<or> s_head s = Some e \<or> s_remote s = Some e \<longrightarrow> de_name e = n)"

lemma same_names_slots_of: "same_names (slots_of ts n)"
  by (cases ts) (auto simp: same_names_def slots_of_def dest: side_slot_name)

lemma merge_file_group_effect:
  assumes run: "merge_file_group env bd s c m = Inr (s', c', m')" and nm: "same_names s"
  shows "\<exists>new. m' = m @ new \<and> keeps_changes s (mc_conflict c') (set new) \<and> (\<forall>e\<in>set new. comes_from s e) \<and>
    s_head s' = s_head s \<and> (s_remote s' = s_remote s \<or> (\<exists>r n. s_remote s = Some r \<and> s_remote s' = Some (r\<lparr>de_name := n\<rparr>)))"
proof (cases "choose_file s")
  case FDrop
  then show ?thesis using run choose_file_keeps [of s]
    by (auto simp: merge_file_group_def keeps_changes_def)
next
  case (FEmit f)
  then have "m' = m @ [f]" "s' = s" using run by (simp_all add: merge_file_group_def)
  moreover have f: "s_head s = Some f \<or> s_remote s = Some f" "is_regular (de_mode f)"
      "\<And>e. changed_file (s_base s) (s_head s) e \<Longrightarrow> e = f"
      "\<And>e. changed_file (s_base s) (s_remote s) e \<Longrightarrow> de_id e = de_id f"
    using choose_file_keeps [of s] FEmit by auto
  moreover have "de_name e = de_name f" if "changed_file (s_base s) (s_remote s) e" for e
    using that nm f(1) unfolding changed_file_def as_file_Some same_names_def by blast
  then have "keeps_changes s (mc_conflict c') {f}"
    using f(2-4) by (simp add: keeps_changes_def)
  ultimately show ?thesis by (auto intro: comes_from_same)
next
  case (RenameRemote keep)
  then obtain r n where r: "s_remote s = Some r" "m' = m @ opt_list keep @ [r\<lparr>de_name := n\<rparr>]" "s' = s" "mc_conflict c'"
    using run by (auto simp: merge_file_group_def rbind_eq_Inr_iff Let_def case_prod_beta split: option.splits)
  have k: "keep = as_file (s_head s)" "is_regular (de_mode r)"
    using choose_file_keeps [of s] RenameRemote r(1) by (auto simp: as_file_def split: if_splits)
  let ?new = "opt_list keep @ [r\<lparr>de_name := n\<rparr>]"
  have "keeps_changes s (mc_conflict c') (set ?new)"
    using r(1,4) k by (auto simp: keeps_changes_def changed_file_def opt_list_def as_file_def)
  moreover have "\<forall>e\<in>set ?new. comes_from s e"
    using r(1) k by (cases keep) (auto simp: as_file_Some comes_from_same comes_from_renamed dest: sym)
  ultimately show ?thesis using r(2,3) by blast
next
  case (RenameRemoteDir f)
  then obtain r n where r: "s_remote s = Some r" "m' = m @ [f]" "s' = s\<lparr>s_remote := Some (r\<lparr>de_name := n\<rparr>)\<rparr>"
    using run by (auto simp: merge_file_group_def rbind_eq_Inr_iff Let_def case_prod_beta)
  moreover have "as_file (s_head s) = Some f" "as_file (s_remote s) = None"
    using choose_file_keeps [of s] RenameRemoteDir by auto
  moreover from this have "keeps_changes s (mc_conflict c') {f}" "comes_from s f"
    by (simp_all add: keeps_changes_def changed_file_def comes_from_same as_file_Some)
  ultimately show ?thesis by auto
qed

lemma choose_dir_slot:
  "choose_dir s = Inr (DEmit k) \<or> choose_dir s = Inr (DRecurse k) \<Longrightarrow>
   k \<in> {1, 2} \<and> (\<exists>e. slot s k = Some e \<and> is_dir_mode (de_mode e))"
  by (cases "as_dir (s_base s)"; cases "as_dir (s_head s)"; cases "as_dir (s_remote s)")
    (auto simp: choose_dir_def dir_mask_def slot_def unwrap_def Let_def as_dir_Some split: if_splits)

lemma comes_from_slot:
  assumes "slot s k = Some e" "k \<in> {1, 2}" "is_dir_mode (de_mode e)"
  shows "comes_from s (e\<lparr>de_id := i\<rparr>)"
proof -
  have "\<not> is_regular (de_mode e)" using assms(3) regular_not_dir by blast
  then show ?thesis using assms(1,2) unfolding comes_from_def
    by (intro exI [of _ e] exI [of _ i] exI [of _ "de_name e"]) (auto simp: slot_def split: if_splits)
qed

lemma merge_dir_group_effect:
  assumes "merge_dir_group env rec bd s c m = Inr (c', m')"
  shows "\<exists>new. m' = m @ new \<and> (\<forall>e\<in>set new. comes_from s e)"
proof -
  obtain choice where ch: "choose_dir s = Inr choice"
    using assms by (auto simp: merge_dir_group_def rbind_eq_Inr_iff)
  show ?thesis
  proof (cases choice)
    case DDrop
    then show ?thesis using assms ch by (simp add: merge_dir_group_def)
  next
    case (DEmit k)
    then obtain e where "slot s k = Some e" "is_dir_mode (de_mode e)" "k \<in> {1, 2}"
      using choose_dir_slot [of s k] ch by auto
    moreover from this have "m' = m @ [e]" using assms ch DEmit by (auto simp: merge_dir_group_def Let_def)
    ultimately show ?thesis using comes_from_slot [of s k e "de_id e"] by auto
  next
    case (DRecurse k)
    then obtain e root where "slot s k = Some e" "is_dir_mode (de_mode e)" "k \<in> {1, 2}" "m' = m @ [e\<lparr>de_id := root\<rparr>]"
      using choose_dir_slot [of s k] ch assms by (auto simp: merge_dir_group_def Let_def rbind_eq_Inr_iff)
    then show ?thesis using comes_from_slot by auto
  qed
qed

lemma comes_from_rename:
  assumes "comes_from s' e" "s_head s' = s_head s"
    and "s_remote s' = s_remote s \<or> (\<exists>r n. s_remote s = Some r \<and> s_remote s' = Some (r\<lparr>de_name := n\<rparr>))"
  shows "comes_from s e"
proof -
  from assms(1) obtain f i n where f: "s_head s' = Some f \<or> s_remote s' = Some f"
    "e = f\<lparr>de_id := i, de_name := n\<rparr>" "is_regular (de_mode f) \<longrightarrow> i = de_id f"
    unfolding comes_from_def by blast
  then have "\<exists>f. (s_head s = Some f \<or> s_remote s = Some f) \<and> e = f\<lparr>de_id := i, de_name := n\<rparr> \<and>
      (is_regular (de_mode f) \<longrightarrow> i = de_id f)"
  proof (cases "s_remote s' = s_remote s")
    case True
    then show ?thesis using f assms(2) by auto
  next
    case False
    then obtain r k where r: "s_remote s = Some r" "s_remote s' = Some (r\<lparr>de_name := k\<rparr>)"
      using assms(3) by blast
    show ?thesis
    proof (cases "s_head s' = Some f")
      case True
      then show ?thesis using f assms(2) by auto
    next
      case False
      then show ?thesis using f r by (intro exI [of _ r]) auto
    qed
  qed
  then show ?thesis unfolding comes_from_def by blast
qed

lemma merge_group_effect:
  assumes rec: "\<And>c ts bd root c'. rec c ts bd = Inr (root, c') \<Longrightarrow> ctx_le c c'"
    and run: "merge_group env rec bd (n, s) (c, m) = Inr (c', m')" and nm: "same_names s"
  shows "\<exists>new. m' = m @ new \<and> keeps_changes s (mc_conflict c') (set new) \<and> (\<forall>e\<in>set new. comes_from s e)"
proof -
  obtain s1 c1 m1 where f: "(if any_regular s then merge_file_group env bd s c m else Inr (s, c, m)) = Inr (s1, c1, m1)"
    and d: "(if any_dir s1 then merge_dir_group env rec bd s1 c1 m1 else Inr (c1, m1)) = Inr (c', m')"
    using run by (auto simp: merge_group_def rbind_eq_Inr_iff)
  have c1: "mc_conflict c1 \<longrightarrow> mc_conflict c'"
    using d merge_dir_group_le [OF rec] by (fastforce simp: ctx_le_def split: if_splits)
  have "\<exists>new. m1 = m @ new \<and> keeps_changes s (mc_conflict c1) (set new) \<and> (\<forall>e\<in>set new. comes_from s e) \<and>
    s_head s1 = s_head s \<and> (s_remote s1 = s_remote s \<or> (\<exists>r n. s_remote s = Some r \<and> s_remote s1 = Some (r\<lparr>de_name := n\<rparr>)))"
  proof (cases "any_regular s")
    case True
    then show ?thesis using f nm by (intro merge_file_group_effect) auto
  next
    case False
    then have "keeps_changes s b {}" for b by (simp add: keeps_changes_def changed_file_def any_regular_def)
    then show ?thesis using False f by auto
  qed
  then obtain new1 where n1: "m1 = m @ new1" "keeps_changes s (mc_conflict c1) (set new1)"
    "\<forall>e\<in>set new1. comes_from s e" "s_head s1 = s_head s"
    "s_remote s1 = s_remote s \<or> (\<exists>r n. s_remote s = Some r \<and> s_remote s1 = Some (r\<lparr>de_name := n\<rparr>))"
    by blast
  obtain new2 where n2: "m' = m1 @ new2" "\<forall>e\<in>set new2. comes_from s1 e"
    using d merge_dir_group_effect by (fastforce split: if_splits)
  have "\<forall>e\<in>set new2. comes_from s e" using n2(2) n1(4,5) comes_from_rename by blast
  moreover have "keeps_changes s (mc_conflict c') (set (new1 @ new2))"
    by (rule keeps_changes_mono [OF n1(2)]) (use c1 in auto)
  ultimately show ?thesis using n1(1,3) n2(1) by (intro exI [of _ "new1 @ new2"]) auto
qed

lemma merge_groups_effect:
  assumes rec: "\<And>c ts bd root c'. rec c ts bd = Inr (root, c') \<Longrightarrow> ctx_le c c'"
  shows "rfold (merge_group env rec bd) gs (c, m) = Inr (c', m') \<Longrightarrow> \<forall>(n, s)\<in>set gs. same_names s \<Longrightarrow>
    ctx_le c c' \<and> (\<exists>new. m' = m @ new \<and> (\<forall>(n, s)\<in>set gs. keeps_changes s (mc_conflict c') (set new)) \<and>
      (\<forall>e\<in>set new. \<exists>(n, s)\<in>set gs. comes_from s e))"
proof (induction gs arbitrary: c m)
  case (Cons g gs)
  obtain n s where g: "g = (n, s)" by (cases g)
  obtain c1 m1 where one: "merge_group env rec bd (n, s) (c, m) = Inr (c1, m1)"
    and more: "rfold (merge_group env rec bd) gs (c1, m1) = Inr (c', m')"
    using Cons.prems(1) g by (auto simp: rbind_eq_Inr_iff)
  obtain new1 where n1: "m1 = m @ new1" "keeps_changes s (mc_conflict c1) (set new1)" "\<forall>e\<in>set new1. comes_from s e"
  proof -
    have "\<exists>new. m1 = m @ new \<and> keeps_changes s (mc_conflict c1) (set new) \<and> (\<forall>e\<in>set new. comes_from s e)"
      by (rule merge_group_effect [OF rec one]) (use Cons.prems(2) g in auto)
    then show ?thesis using that by blast
  qed
  obtain new2 where n2: "ctx_le c1 c'" "m' = m1 @ new2" "\<forall>(n, s)\<in>set gs. keeps_changes s (mc_conflict c') (set new2)"
    "\<forall>e\<in>set new2. \<exists>(n, s)\<in>set gs. comes_from s e"
    using Cons.IH [OF more] Cons.prems(2) by auto
  have "keeps_changes s (mc_conflict c') (set (new1 @ new2))"
    by (rule keeps_changes_mono [OF n1(2)]) (use n2(1) in \<open>auto simp: ctx_le_def\<close>)
  moreover have "\<forall>(n, s)\<in>set gs. keeps_changes s (mc_conflict c') (set (new1 @ new2))"
    using n2(3) keeps_changes_mono by fastforce
  moreover have "ctx_le c c'" using merge_group_le [OF rec one] n2(1) by (rule ctx_le_trans)
  ultimately show ?case using n1 n2 g by (intro conjI exI [of _ "new1 @ new2"]) auto
qed auto

lemma same_names_groups: "\<forall>(n, s)\<in>set (group_entries ts). same_names s"
  by (auto simp: groups_iff same_names_slots_of)

text \<open>
  C4: a level of a merge loses no file that a side changed. Whenever the level returns, the
  directory it stores has head's changed files as they are and, for each of remote's changed
  files, a file with the same content, under its own name unless a conflict was recorded. Every
  entry it stores is a copy of a head or remote entry, and the object table has only grown.
\<close>

theorem merge_level_keeps_changes:
  assumes "merge_level env depth ctx ts basedir = Inr (root, ctx')"
  shows "\<exists>merged db. mc_db ctx \<subseteq>\<^sub>m db
     \<and> store_fs_dir_object (me_ext env) (me_repo_id env) (mk_dir merged) db = (root, mc_db ctx')
     \<and> (\<forall>n h. changed_file (side_slot (fst ts) n) (side_slot (fst (snd ts)) n) h \<longrightarrow> h \<in> set merged)
     \<and> (\<forall>n r. changed_file (side_slot (fst ts) n) (side_slot (snd (snd ts)) n) r \<longrightarrow>
          (\<exists>e\<in>set merged. de_id e = de_id r \<and> is_regular (de_mode e) \<and>
             (de_name e = de_name r \<or> mc_conflict ctx')))
     \<and> (\<forall>e\<in>set merged. \<exists>n. comes_from (slots_of ts n) e)"
proof -
  from assms obtain g c1 m where
    run: "rfold (merge_group env (merge_level env (depth + 1)) basedir) (group_entries ts)
       (ctx\<lparr>mc_guard := g, mc_visit_dirs := mc_visit_dirs ctx + 1\<rparr>, []) = Inr (c1, m)"
    and st: "store_fs_dir_object (me_ext env) (me_repo_id env) (mk_dir m) (mc_db c1) = (root, mc_db ctx')"
    and c': "ctx' = c1\<lparr>mc_db := mc_db ctx'\<rparr>"
    by (rule merge_level_InrE)
  have eff: "ctx_le (ctx\<lparr>mc_guard := g, mc_visit_dirs := mc_visit_dirs ctx + 1\<rparr>) c1"
    "\<forall>(n, s)\<in>set (group_entries ts). keeps_changes s (mc_conflict c1) (set m)"
    "\<forall>e\<in>set m. \<exists>(n, s)\<in>set (group_entries ts). comes_from s e"
    using merge_groups_effect [OF merge_level_le run same_names_groups] by auto
  have keep: "keeps_changes (slots_of ts n) (mc_conflict ctx') (set m)" for n
  proof (cases "slots_of ts n = empty_slots")
    case True
    then show ?thesis by (simp add: keeps_changes_def changed_file_def empty_slots_def as_file_def)
  next
    case False
    then have "keeps_changes (slots_of ts n) (mc_conflict c1) (set m)" using eff(2) by (auto simp: groups_iff)
    then show ?thesis by (subst c') simp
  qed
  have "mc_db ctx \<subseteq>\<^sub>m mc_db c1" using eff(1) by (simp add: ctx_le_def)
  moreover have "\<forall>e\<in>set m. \<exists>n. comes_from (slots_of ts n) e" using eff(3) by (force simp: groups_iff)
  ultimately show ?thesis using st keep
    by (intro exI [of _ m] exI [of _ "mc_db c1"]) (auto simp: keeps_changes_def slots_of_def case_prod_beta)
qed

definition demo_ctx :: "fs_objects \<Rightarrow> merge_ctx" where
  "demo_ctx db = \<lparr>mc_db = db, mc_conflict = False, mc_kept_deleted = False, mc_visit_dirs = 0,
     mc_guard = new_guard, mc_nicknames = [], mc_reads = 0\<rparr>"

definition demo_conflict :: trees where
  "demo_conflict = (Some (mk_dir [demo_file ''1'' ''a'']), Some (mk_dir [demo_file ''3'' ''a'']),
     Some (mk_dir [demo_file ''4'' ''a'']))"

lemma demo_conflict_groups:
  "\<not> isl (rfold (merge_group (demo_env []) (merge_level (demo_env []) 2) []) (group_entries demo_conflict)
     ((demo_ctx Map.empty)\<lparr>mc_guard := \<lparr>g_depth = 0, g_visits = 1\<rparr>, mc_visit_dirs := 1\<rparr>, []))"
  by code_simp

lemma demo_conflict_runs:
  "\<not> isl (merge_level (demo_env []) 1 (demo_ctx Map.empty) demo_conflict [])"
proof -
  have v: "visit (me_lim (demo_env [])) 1 (mc_guard (demo_ctx Map.empty)) = Inr \<lparr>g_depth = 0, g_visits = 1\<rparr>"
    "1 \<le> max_tree_depth (me_lim (demo_env []))" "mc_visit_dirs (demo_ctx Map.empty) = 0"
    by (simp_all add: visit_def demo_env_def configure_def demo_ctx_def new_guard_def usize_sat_add_def)
  then show ?thesis
    using demo_conflict_groups
    by (cases "rfold (merge_group (demo_env []) (merge_level (demo_env []) 2) []) (group_entries demo_conflict)
      ((demo_ctx Map.empty)\<lparr>mc_guard := \<lparr>g_depth = 0, g_visits = 1\<rparr>, mc_visit_dirs := 1\<rparr>, [])")
      (auto simp: merge_level.simps [of "demo_env []" "Suc 0"] numeral_2_eq_2 Let_def case_prod_beta)
qed

theorem merge_level_keeps_changes_witness:
  "\<exists>merged. demo_file ''3'' ''a'' \<in> set merged \<and> (\<exists>e\<in>set merged. de_id e = ''4'' \<and> is_regular (de_mode e))
     \<and> (\<exists>root ctx'. merge_level (demo_env []) 1 (demo_ctx Map.empty) demo_conflict [] = Inr (root, ctx') \<and>
          fst (store_fs_dir_object (demo_externs []) ''r'' (mk_dir merged) Map.empty) = root)"
proof -
  obtain root ctx' where run: "merge_level (demo_env []) 1 (demo_ctx Map.empty) demo_conflict [] = Inr (root, ctx')"
    using demo_conflict_runs by (cases "merge_level (demo_env []) 1 (demo_ctx Map.empty) demo_conflict []") auto
  have s: "side_slot (fst demo_conflict) ''a'' = Some (demo_file ''1'' ''a'')"
    "side_slot (fst (snd demo_conflict)) ''a'' = Some (demo_file ''3'' ''a'')"
    "side_slot (snd (snd demo_conflict)) ''a'' = Some (demo_file ''4'' ''a'')"
    by (simp_all add: demo_conflict_def side_slot_def find_entry_def)
  have c: "changed_file (Some (demo_file ''1'' ''a'')) (Some (demo_file i ''a'')) (demo_file i ''a'')" if "i \<noteq> ''1''" for i
    using that by (simp add: changed_file_def as_file_def has_id_def)
  from merge_level_keeps_changes [OF run] obtain merged db where
    m: "store_fs_dir_object (me_ext (demo_env [])) (me_repo_id (demo_env [])) (mk_dir merged) db = (root, mc_db ctx')"
    "\<forall>n h. changed_file (side_slot (fst demo_conflict) n) (side_slot (fst (snd demo_conflict)) n) h \<longrightarrow> h \<in> set merged"
    "\<forall>n r. changed_file (side_slot (fst demo_conflict) n) (side_slot (snd (snd demo_conflict)) n) r \<longrightarrow>
          (\<exists>e\<in>set merged. de_id e = de_id r \<and> is_regular (de_mode e) \<and> (de_name e = de_name r \<or> mc_conflict ctx'))"
    by blast
  have "demo_file ''3'' ''a'' \<in> set merged" 
    using m(2) [rule_format, of "''a''" "demo_file ''3'' ''a''"] s c [of "''3''"] by simp
  moreover have "\<exists>e\<in>set merged. de_id e = ''4'' \<and> is_regular (de_mode e)"
    using m(3) [rule_format, of "''a''" "demo_file ''4'' ''a''"] s c [of "''4''"] by auto
  moreover have "fst (store_fs_dir_object (demo_externs []) ''r'' (mk_dir merged) Map.empty) = root"
    using m(1) by (simp add: store_dir_eq demo_env_def)
  ultimately show ?thesis using run by blast
qed

text \<open>
  The conflict name is not checked against the names already in the directory. When head has
  a file under the name that the renamed remote file receives, both are emitted and the level
  stores a directory object with two entries of that name.
\<close>

theorem conflict_name_collision:
  "let base = mk_dir [demo_file ''1'' ''a''];
       head = mk_dir [demo_file ''2'' ''a (SFConflict m 7)'', demo_file ''3'' ''a''];
       remote = mk_dir [demo_file ''4'' ''a''];
       env = demo_env [(''R'', remote)];
       (ctx, merged) = (case rfold (merge_group env (merge_level env 2) []) (group_entries (Some base, Some head, Some remote))
                          (demo_ctx (demo_db [''R'']), []) of Inr v \<Rightarrow> v)
   in map de_name merged = [''a (SFConflict m 7)'', ''a'', ''a (SFConflict m 7)''] \<and>
      map de_id merged = [''2'', ''3'', ''4'']"
  by code_simp

end
