(* ===== verification/TreeDiff.thy ===== *)
theory TreeDiff
  imports Traversal
begin

text \<open>
  The difference of two tree snapshots, \<open>server/src/fs/core/tree_diff.rs\<close>: the walk over one tree
  when there is no previous one, the paired walk that descends only where object ids differ, and
  the pass that matches created entries against deleted ones into renames and moves.

  A \<open>HashMap\<close> is an association list; the one that is iterated (\<open>entries\<close> of a first commit) is
  sorted by its keys afterwards.
\<close>

section \<open>Data\<close>

record FsChange =
  op_type :: string
  ch_obj_type :: string
  ch_path :: string
  ch_size :: int
  ch_obj_id :: string
  old_path :: "string option"
  superseded :: bool

record CollectFrame =
  cf_fs_id :: string
  cf_prefix :: string

record DiffFrame =
  old_fs_id :: "string option"
  new_fs_id :: string
  df_prefix :: string

text \<open>The vectors and the map that the walk fills.\<close>

record diff_acc =
  da_changes :: "FsChange list"
  da_created :: "(string \<times> DirEntryData) list"
  pending_deletes :: "FsChange list"
  obj_to_deleted :: "(string \<times> (string \<times> DirEntryData) list) list"

section \<open>Paths and records\<close>

definition join_path :: "string \<Rightarrow> string \<Rightarrow> string" where
  "join_path prefix name = (if prefix = [] then slash # name else prefix @ [slash] @ name)"

definition parent_dir :: "string \<Rightarrow> string" where
  "parent_dir path =
     (case rsplit_once slash path of
        None \<Rightarrow> [slash]
      | Some (dir, name) \<Rightarrow> if name = [] then path else if dir = [] then [slash] else dir)"

definition obj_kind :: "DirEntryData \<Rightarrow> string" where
  "obj_kind e = (if has_dir_bit (de_mode e) then ''dir'' else ''file'')"

definition delete_change :: "string \<Rightarrow> DirEntryData \<Rightarrow> FsChange" where
  "delete_change path entry =
     \<lparr>op_type = ''delete'', ch_obj_type = obj_kind entry, ch_path = path, ch_size = de_size entry,
      ch_obj_id = de_id entry, old_path = None, superseded = False\<rparr>"

definition create_change :: "string \<Rightarrow> DirEntryData \<Rightarrow> FsChange" where
  "create_change path entry =
     \<lparr>op_type = ''create'', ch_obj_type = obj_kind entry, ch_path = path, ch_size = de_size entry,
      ch_obj_id = de_id entry, old_path = None, superseded = False\<rparr>"

definition move_change :: "string \<Rightarrow> string \<Rightarrow> DirEntryData \<Rightarrow> FsChange" where
  "move_change old path entry = (create_change path entry)
     \<lparr>op_type := if parent_dir old = parent_dir path then ''rename'' else ''move'', old_path := Some old\<rparr>"

definition edit_change :: "string \<Rightarrow> DirEntryData \<Rightarrow> FsChange" where
  "edit_change path entry =
     \<lparr>op_type = ''edit'', ch_obj_type = ''file'', ch_path = path, ch_size = de_size entry,
      ch_obj_id = de_id entry, old_path = None, superseded = False\<rparr>"

section \<open>The walk over one tree\<close>

definition collect_frame ::
    "(string \<times> FsDirData) list \<Rightarrow> CollectFrame \<Rightarrow> CollectFrame list \<times> (string \<times> DirEntryData) list \<Rightarrow>
     CollectFrame list \<times> (string \<times> DirEntryData) list" where
  "collect_frame dir_map frame s =
     (case map_of dir_map (cf_fs_id frame) of
        None \<Rightarrow> s
      | Some dir \<Rightarrow>
          fold (\<lambda>entry (nexts, out).
            let entry_path = join_path (cf_prefix frame) (de_name entry) in
            (if has_dir_bit (de_mode entry)
             then nexts @ [\<lparr>cf_fs_id = de_id entry, cf_prefix = entry_path\<rparr>] else nexts,
             hm_insert entry_path entry out)) (dirents dir) s)"

definition collect_level ::
    "externs \<Rightarrow> fs_objects \<Rightarrow> string \<Rightarrow> CollectFrame list \<Rightarrow> (string \<times> DirEntryData) list \<Rightarrow>
     (CollectFrame list \<times> (string \<times> DirEntryData) list) result" where
  "collect_level x db repo_id frontier out =
     rbind (read_fs_dir_data_batch x db repo_id (map cf_fs_id frontier)) (\<lambda>dir_map.
       Inr (fold (collect_frame dir_map) frontier ([], out)))"

definition collect_entries ::
    "tree_limits \<Rightarrow> externs \<Rightarrow> fs_objects \<Rightarrow> string \<Rightarrow> string \<Rightarrow> string \<Rightarrow> (string \<times> DirEntryData) list \<Rightarrow>
     (string \<times> DirEntryData) list result" where
  "collect_entries lim x db repo_id root_fs_id prefix out =
     bfs lim (collect_level x db repo_id) new_guard [\<lparr>cf_fs_id = root_fs_id, cf_prefix = prefix\<rparr>] out"

section \<open>The paired walk\<close>

definition push_deleted ::
    "string \<times> DirEntryData \<Rightarrow> (string \<times> (string \<times> DirEntryData) list) list \<Rightarrow>
     (string \<times> (string \<times> DirEntryData) list) list" where
  "push_deleted = (\<lambda>(path, entry) m.
     hm_insert (de_id entry)
       ((case map_of m (de_id entry) of Some l \<Rightarrow> l | None \<Rightarrow> []) @ [(path, entry)]) m)"

definition gone_frame :: "string \<Rightarrow> DirEntryData \<Rightarrow> DiffFrame" where
  "gone_frame path entry = \<lparr>old_fs_id = Some (de_id entry), new_fs_id = EMPTY_SHA1, df_prefix = path\<rparr>"

definition frame_new_only ::
    "string \<Rightarrow> FsDirData \<Rightarrow> DiffFrame list \<times> diff_acc \<Rightarrow> DiffFrame list \<times> diff_acc" where
  "frame_new_only prefix new_dir s =
     fold (\<lambda>entry (nexts, acc).
       let path = join_path prefix (de_name entry) in
       (if has_dir_bit (de_mode entry)
        then nexts @ [\<lparr>old_fs_id = None, new_fs_id = de_id entry, df_prefix = path\<rparr>] else nexts,
        acc\<lparr>da_created := da_created acc @ [(path, entry)]\<rparr>)) (dirents new_dir) s"

definition frame_old_only ::
    "string \<Rightarrow> FsDirData \<Rightarrow> DiffFrame list \<times> diff_acc \<Rightarrow> DiffFrame list \<times> diff_acc" where
  "frame_old_only prefix old_dir s =
     fold (\<lambda>entry (nexts, acc).
       let path = join_path prefix (de_name entry) in
       (if has_dir_bit (de_mode entry) then nexts @ [gone_frame path entry] else nexts,
        acc\<lparr>pending_deletes := pending_deletes acc @ [delete_change path entry],
            obj_to_deleted := push_deleted (path, entry) (obj_to_deleted acc)\<rparr>)) (dirents old_dir) s"

text \<open>The first loop of a frame with both sides: the entries only the old directory has.\<close>

definition drop_old_entries ::
    "string \<Rightarrow> FsDirData \<Rightarrow> FsDirData \<Rightarrow> DiffFrame list \<times> diff_acc \<Rightarrow>
     (string \<times> DirEntryData) list \<times> DiffFrame list \<times> diff_acc" where
  "drop_old_entries prefix old_dir new_dir = (\<lambda>(nexts, acc).
     fold (\<lambda>old_entry (deleted_here, nexts, acc).
       if list_ex (\<lambda>e. de_name e = de_name old_entry) (dirents new_dir) then (deleted_here, nexts, acc)
       else let path = join_path prefix (de_name old_entry) in
         (deleted_here @ [(path, old_entry)],
          if has_dir_bit (de_mode old_entry) then nexts @ [gone_frame path old_entry] else nexts,
          acc\<lparr>pending_deletes := pending_deletes acc @ [delete_change path old_entry]\<rparr>))
       (dirents old_dir) ([], nexts, acc))"

text \<open>The loop body over the new entries. \<open>old_entries\<close> is collected from an iterator of pairs, so
  the last entry of a name is the one kept.\<close>

definition new_entry_step ::
    "string \<Rightarrow> (string \<times> DirEntryData) list \<Rightarrow> (string \<times> DirEntryData) list \<Rightarrow> DirEntryData \<Rightarrow>
     DiffFrame list \<times> diff_acc \<Rightarrow> DiffFrame list \<times> diff_acc" where
  "new_entry_step prefix old_entries deleted_by_id new_entry = (\<lambda>(nexts, acc).
     let path = join_path prefix (de_name new_entry);
         new_is_dir = has_dir_bit (de_mode new_entry);
         old_entry = map_of old_entries (de_name new_entry);
         deleted_entry = map_of deleted_by_id (de_id new_entry)
     in
     (case old_entry of
        Some old \<Rightarrow>
          if de_id new_entry = de_id old then (nexts, acc)
          else if new_is_dir \<and> has_dir_bit (de_mode old) then
            (nexts @ [\<lparr>old_fs_id = Some (de_id old), new_fs_id = de_id new_entry, df_prefix = path\<rparr>], acc)
          else if new_is_dir then
            (nexts @ [\<lparr>old_fs_id = Some (de_id old), new_fs_id = de_id new_entry, df_prefix = path\<rparr>], acc)
          else
            (if has_dir_bit (de_mode old) then nexts @ [gone_frame path old] else nexts,
             acc\<lparr>da_changes := da_changes acc @ [edit_change path new_entry]\<rparr>)
      | None \<Rightarrow>
          if new_is_dir \<and> deleted_entry \<noteq> None then
            (nexts, acc\<lparr>da_created := da_created acc @ [(path, new_entry)]\<rparr>)
          else
            (if new_is_dir
             then nexts @ [\<lparr>old_fs_id = None, new_fs_id = de_id new_entry, df_prefix = path\<rparr>] else nexts,
             acc\<lparr>da_created := da_created acc @ [(path, new_entry)]\<rparr>)))"

definition frame_both ::
    "string \<Rightarrow> FsDirData \<Rightarrow> FsDirData \<Rightarrow> DiffFrame list \<times> diff_acc \<Rightarrow> DiffFrame list \<times> diff_acc" where
  "frame_both prefix old_dir new_dir s =
     (let old_entries = fold (\<lambda>d m. hm_insert (de_name d) d m) (dirents old_dir) [];
          (deleted_here, nexts, acc) = drop_old_entries prefix old_dir new_dir s;
          deleted_by_id = fold (\<lambda>(_, entry) m.
            if map_of m (de_id entry) = None then hm_insert (de_id entry) entry m else m) deleted_here [];
          acc = acc\<lparr>obj_to_deleted := fold push_deleted deleted_here (obj_to_deleted acc)\<rparr>
      in fold (new_entry_step prefix old_entries deleted_by_id) (dirents new_dir) (nexts, acc))"

definition diff_frame ::
    "(string \<times> FsDirData) list \<Rightarrow> (string \<times> FsDirData) list \<Rightarrow> DiffFrame \<Rightarrow>
     DiffFrame list \<times> diff_acc \<Rightarrow> DiffFrame list \<times> diff_acc" where
  "diff_frame old_map new_map frame s =
     (case (Option.bind (old_fs_id frame) (map_of old_map), map_of new_map (new_fs_id frame)) of
        (None, Some new_dir) \<Rightarrow> frame_new_only (df_prefix frame) new_dir s
      | (Some old_dir, None) \<Rightarrow> frame_old_only (df_prefix frame) old_dir s
      | (Some old_dir, Some new_dir) \<Rightarrow> frame_both (df_prefix frame) old_dir new_dir s
      | (None, None) \<Rightarrow> s)"

definition diff_level ::
    "externs \<Rightarrow> fs_objects \<Rightarrow> string \<Rightarrow> DiffFrame list \<Rightarrow> diff_acc \<Rightarrow> (DiffFrame list \<times> diff_acc) result" where
  "diff_level x db repo_id frontier acc =
     (let old_ids = List.map_filter old_fs_id frontier in
      rbind (read_fs_dir_data_batch x db repo_id (map new_fs_id frontier)) (\<lambda>new_map.
      rbind (if old_ids = [] then Inr [] else read_fs_dir_data_batch x db repo_id old_ids) (\<lambda>old_map.
      Inr (fold (diff_frame old_map new_map) frontier ([], acc)))))"

section \<open>Matching renames and moves\<close>

record match_state =
  ms_changes :: "FsChange list"
  ms_deleted :: "(string \<times> (string \<times> DirEntryData) list) list"
  superseded_ids :: "string list"
  reused_dir_old_paths :: "string list"

definition match_created :: "string \<times> DirEntryData \<Rightarrow> match_state \<Rightarrow> match_state" where
  "match_created = (\<lambda>(path, entry) s.
     (case map_of (ms_deleted s) (de_id entry) of
        Some (d # ds) \<Rightarrow>
          let old = fst (last (d # ds)) in
          s\<lparr>ms_deleted := hm_insert (de_id entry) (butlast (d # ds)) (ms_deleted s),
            superseded_ids := superseded_ids s @ [de_id entry],
            reused_dir_old_paths := reused_dir_old_paths s @
              (if has_dir_bit (de_mode entry) then [old] else []),
            ms_changes := ms_changes s @ [move_change old path entry]\<rparr>
      | _ \<Rightarrow> s\<lparr>ms_changes := ms_changes s @ [create_change path entry]\<rparr>))"

definition under_dir :: "string \<Rightarrow> string \<Rightarrow> bool" where
  "under_dir path dir \<longleftrightarrow> length dir < length path \<and> starts_with path dir \<and> path ! length dir = slash"

definition mark_superseded :: "string list \<Rightarrow> string list \<Rightarrow> FsChange list \<Rightarrow> FsChange list" where
  "mark_superseded ids dirs changes =
     (if ids = [] then changes
      else map (\<lambda>c. if op_type c \<noteq> ''delete'' then c
                    else if list_ex (under_dir (ch_path c)) dirs \<or> list_ex (\<lambda>i. i = ch_obj_id c) ids
                    then c\<lparr>superseded := True\<rparr> else c) changes)"

definition empty_acc :: diff_acc where
  "empty_acc = \<lparr>da_changes = [], da_created = [], pending_deletes = [], obj_to_deleted = []\<rparr>"

definition finish_diff :: "diff_acc \<Rightarrow> FsChange list" where
  "finish_diff acc =
     (let s = fold match_created (da_created acc)
            \<lparr>ms_changes = da_changes acc @ pending_deletes acc, ms_deleted = obj_to_deleted acc,
             superseded_ids = [], reused_dir_old_paths = []\<rparr>
      in sort_key ch_path (mark_superseded (superseded_ids s) (reused_dir_old_paths s) (ms_changes s)))"

definition diff_trees ::
    "tree_limits \<Rightarrow> externs \<Rightarrow> fs_objects \<Rightarrow> string \<Rightarrow> string option \<Rightarrow> string \<Rightarrow> FsChange list result" where
  "diff_trees lim x db repo_id old_root_id new_root_id =
     (if old_root_id = None \<or> old_root_id = Some EMPTY_SHA1 then
        rbind (collect_entries lim x db repo_id new_root_id [] []) (\<lambda>entries.
          Inr (sort_key ch_path (map (\<lambda>(path, entry). create_change path entry) entries)))
      else
        rbind (bfs lim (diff_level x db repo_id) new_guard
                 [\<lparr>old_fs_id = old_root_id, new_fs_id = new_root_id, df_prefix = []\<rparr>] empty_acc)
          (\<lambda>acc. Inr (finish_diff acc)))"

section \<open>Reachable entries\<close>

text \<open>
  The reference for both walks: directories reached from a starting \<open>(path, object id)\<close> by
  following entries that satisfy \<open>P\<close>, and the entries that those directories hold.
\<close>

inductive child ::
    "(DirEntryData \<Rightarrow> bool) \<Rightarrow> externs \<Rightarrow> fs_objects \<Rightarrow> string \<Rightarrow> string \<times> string \<Rightarrow> string \<times> string \<Rightarrow> bool"
  for P x db r where
  child: "read_fs_dir_data x db r i = Inr d \<Longrightarrow> e \<in> set (dirents d) \<Longrightarrow> P e \<Longrightarrow>
    child P x db r (p, i) (join_path p (de_name e), de_id e)"

inductive_cases childE: "child P x db r s t"

definition entry_below ::
    "(DirEntryData \<Rightarrow> bool) \<Rightarrow> externs \<Rightarrow> fs_objects \<Rightarrow> string \<Rightarrow> string \<times> string \<Rightarrow> string \<Rightarrow> DirEntryData \<Rightarrow> bool" where
  "entry_below P x db r s p e \<longleftrightarrow> (\<exists>q i d. (child P x db r)\<^sup>*\<^sup>* s (q, i) \<and>
     read_fs_dir_data x db r i = Inr d \<and> e \<in> set (dirents d) \<and> p = join_path q (de_name e))"

lemma entry_belowI:
  "(child P x db r)\<^sup>*\<^sup>* s (q, i) \<Longrightarrow> read_fs_dir_data x db r i = Inr d \<Longrightarrow> e \<in> set (dirents d) \<Longrightarrow>
   entry_below P x db r s (join_path q (de_name e)) e"
  unfolding entry_below_def by blast

lemma child_step:
  "(child P x db r)\<^sup>*\<^sup>* s (q, i) \<Longrightarrow> read_fs_dir_data x db r i = Inr d \<Longrightarrow> e \<in> set (dirents d) \<Longrightarrow> P e \<Longrightarrow>
   (child P x db r)\<^sup>*\<^sup>* s (join_path q (de_name e), de_id e)"
  by (blast intro: rtranclp.rtrancl_into_rtrancl child.intros)

text \<open>An entry below a directory is one of its own entries or lies below one of them.\<close>

lemma entry_below_unfold:
  "entry_below P x db r (q, i) p e \<longleftrightarrow> (\<exists>d. read_fs_dir_data x db r i = Inr d \<and> (\<exists>f\<in>set (dirents d).
     (p = join_path q (de_name f) \<and> e = f) \<or>
     (P f \<and> entry_below P x db r (join_path q (de_name f), de_id f) p e)))"
  (is "?L \<longleftrightarrow> ?R")
proof
  assume ?L
  then obtain q' i' d where r: "(child P x db r)\<^sup>*\<^sup>* (q, i) (q', i')" "read_fs_dir_data x db r i' = Inr d"
    "e \<in> set (dirents d)" "p = join_path q' (de_name e)"
    unfolding entry_below_def by blast
  from r(1) show ?R
  proof (cases rule: converse_rtranclpE)
    case base
    then show ?thesis using r by auto
  next
    case (step y)
    then show ?thesis using r by (elim childE) (auto simp: entry_below_def)
  qed
next
  assume ?R
  then obtain d f where d: "read_fs_dir_data x db r i = Inr d" "f \<in> set (dirents d)"
    and f: "(p = join_path q (de_name f) \<and> e = f) \<or>
       (P f \<and> entry_below P x db r (join_path q (de_name f), de_id f) p e)" by blast
  from f show ?L
  proof
    assume "p = join_path q (de_name f) \<and> e = f"
    then show ?L using d unfolding entry_below_def by blast
  next
    assume b: "P f \<and> entry_below P x db r (join_path q (de_name f), de_id f) p e"
    then have "child P x db r (q, i) (join_path q (de_name f), de_id f)" using d by (auto intro: child.intros)
    then show ?L using b unfolding entry_below_def by (blast intro: converse_rtranclp_into_rtranclp)
  qed
qed

section \<open>A first commit reports the whole tree\<close>

definition frame_items :: "(string \<times> FsDirData) list \<Rightarrow> CollectFrame \<Rightarrow> (string \<times> DirEntryData) list" where
  "frame_items m f = (case map_of m (cf_fs_id f) of None \<Rightarrow> []
     | Some d \<Rightarrow> map (\<lambda>e. (join_path (cf_prefix f) (de_name e), e)) (dirents d))"

definition item_frames :: "(string \<times> DirEntryData) list \<Rightarrow> CollectFrame list" where
  "item_frames items = map (\<lambda>(p, e). \<lparr>cf_fs_id = de_id e, cf_prefix = p\<rparr>)
     (filter (\<lambda>(p, e). has_dir_bit (de_mode e)) items)"

definition ins_all :: "(string \<times> DirEntryData) list \<Rightarrow> (string \<times> DirEntryData) list \<Rightarrow> (string \<times> DirEntryData) list" where
  "ins_all items out = fold (\<lambda>(p, e). hm_insert p e) items out"

lemma collect_frame_eq:
  "collect_frame m f (ns, out) = (ns @ item_frames (frame_items m f), ins_all (frame_items m f) out)"
proof (cases "map_of m (cf_fs_id f)")
  case (Some d)
  have "fold (\<lambda>entry (nexts, out). let entry_path = join_path (cf_prefix f) (de_name entry) in
          (if has_dir_bit (de_mode entry)
           then nexts @ [\<lparr>cf_fs_id = de_id entry, cf_prefix = entry_path\<rparr>] else nexts,
           hm_insert entry_path entry out)) es (ns, out) =
        (ns @ item_frames (map (\<lambda>e. (join_path (cf_prefix f) (de_name e), e)) es),
         ins_all (map (\<lambda>e. (join_path (cf_prefix f) (de_name e), e)) es) out)" for es
    by (induction es arbitrary: ns out) (simp_all add: item_frames_def ins_all_def Let_def)
  then show ?thesis using Some by (simp add: collect_frame_def frame_items_def)
qed (simp add: collect_frame_def frame_items_def item_frames_def ins_all_def)

lemma collect_frames_eq:
  "fold (collect_frame m) fs (ns, out) =
    (ns @ concat (map (\<lambda>f. item_frames (frame_items m f)) fs), ins_all (concat (map (frame_items m) fs)) out)"
  by (induction fs arbitrary: ns out) (simp_all add: collect_frame_eq ins_all_def)

lemma keys_ins_all: "fst ` set (ins_all items out) = fst ` set items \<union> fst ` set out"
  by (induction items arbitrary: out) (simp_all add: ins_all_def case_prod_beta)

lemma set_ins_all: "set (ins_all items out) \<subseteq> set items \<union> set out"
  by (induction items arbitrary: out) (use hm_insert_subset in \<open>fastforce simp: ins_all_def\<close>)+

lemma batch_items:
  assumes "read_fs_dir_data_batch x db r (map cf_fs_id fs) = Inr m" "f \<in> set fs"
  shows "(p, e) \<in> set (frame_items m f) \<longleftrightarrow>
    (\<exists>d. read_fs_dir_data x db r (cf_fs_id f) = Inr d \<and> e \<in> set (dirents d) \<and> p = join_path (cf_prefix f) (de_name e))"
proof -
  have m: "map_of m (cf_fs_id f) = Some d \<longleftrightarrow> cf_fs_id f \<noteq> EMPTY_SHA1 \<and> read_fs_dir_data x db r (cf_fs_id f) = Inr d" for d
    using read_dir_batch_iff [OF assms(1)] assms(2) by auto
  have e: "read_fs_dir_data x db r EMPTY_SHA1 = Inr d \<Longrightarrow> dirents d = []" for d
    by (auto simp: read_fs_dir_data_def empty_dir_def)
  show ?thesis
  proof (cases "map_of m (cf_fs_id f)")
    case None
    then show ?thesis using m e by (fastforce simp: frame_items_def)
  next
    case (Some d)
    then show ?thesis using m [of d] by (auto simp: frame_items_def)
  qed
qed

abbreviation dir_entry :: "DirEntryData \<Rightarrow> bool" where
  "dir_entry \<equiv> \<lambda>e. has_dir_bit (de_mode e)"

text \<open>What the one-tree walk keeps: frames and collected entries are reachable from the root, and a
  reachable entry's path is collected already or lies below a frame.\<close>

definition collect_inv ::
    "externs \<Rightarrow> fs_objects \<Rightarrow> string \<Rightarrow> string \<Rightarrow> nat \<Rightarrow> CollectFrame list \<Rightarrow> (string \<times> DirEntryData) list \<Rightarrow> bool" where
  "collect_inv x db r root n fr out \<longleftrightarrow>
     (\<forall>f\<in>set fr. (child dir_entry x db r)\<^sup>*\<^sup>* ([], root) (cf_prefix f, cf_fs_id f)) \<and>
     (\<forall>(p, e)\<in>set out. entry_below dir_entry x db r ([], root) p e) \<and>
     (\<forall>p e. entry_below dir_entry x db r ([], root) p e \<longrightarrow>
        p \<in> fst ` set out \<or> (\<exists>f\<in>set fr. entry_below dir_entry x db r (cf_prefix f, cf_fs_id f) p e))"

lemma collect_level_inv:
  assumes lv: "collect_level x db r fr out = Inr (nexts, out')" and inv: "collect_inv x db r root (Suc n) fr out"
  shows "collect_inv x db r root n nexts out'"
proof -
  obtain m where m: "read_fs_dir_data_batch x db r (map cf_fs_id fr) = Inr m"
    using lv by (auto simp: collect_level_def rbind_eq_Inr_iff)
  let ?items = "concat (map (frame_items m) fr)"
  have out': "out' = ins_all ?items out" and nexts: "nexts = concat (map (\<lambda>f. item_frames (frame_items m f)) fr)"
    using lv m by (simp_all add: collect_level_def collect_frames_eq)
  note items = batch_items [OF m]
  have reach: "\<And>f. f \<in> set fr \<Longrightarrow> (child dir_entry x db r)\<^sup>*\<^sup>* ([], root) (cf_prefix f, cf_fs_id f)"
    using inv by (simp add: collect_inv_def)
  have "(child dir_entry x db r)\<^sup>*\<^sup>* ([], root) (cf_prefix f, cf_fs_id f)" if "f \<in> set nexts" for f
    using that by (auto simp: nexts item_frames_def items intro!: child_step [OF reach])
  moreover have "entry_below dir_entry x db r ([], root) p e" if "(p, e) \<in> set out'" for p e
  proof -
    from that consider f where "f \<in> set fr" "(p, e) \<in> set (frame_items m f)" | "(p, e) \<in> set out"
      using set_ins_all [of ?items out] by (auto simp: out')
    then show ?thesis
    proof cases
      case 1
      then show ?thesis by (auto simp: items intro: entry_belowI [OF reach])
    next
      case 2
      then show ?thesis using inv by (auto simp: collect_inv_def)
    qed
  qed
  moreover have "p \<in> fst ` set out' \<or> (\<exists>f\<in>set nexts. entry_below dir_entry x db r (cf_prefix f, cf_fs_id f) p e)"
    if b: "entry_below dir_entry x db r ([], root) p e" for p e
  proof (cases "p \<in> fst ` set out")
    case True
    then show ?thesis by (simp add: out' keys_ins_all)
  next
    case False
    then obtain f where f: "f \<in> set fr" "entry_below dir_entry x db r (cf_prefix f, cf_fs_id f) p e"
      using inv b unfolding collect_inv_def by blast
    then obtain d g where g: "read_fs_dir_data x db r (cf_fs_id f) = Inr d" "g \<in> set (dirents d)"
      "(p = join_path (cf_prefix f) (de_name g) \<and> e = g) \<or>
       (dir_entry g \<and> entry_below dir_entry x db r (join_path (cf_prefix f) (de_name g), de_id g) p e)"
      unfolding entry_below_unfold [of _ _ _ _ "cf_prefix f"] by blast
    then have it: "(join_path (cf_prefix f) (de_name g), g) \<in> set (frame_items m f)"
      using f(1) by (auto simp: items)
    from g(3) show ?thesis
    proof
      assume "p = join_path (cf_prefix f) (de_name g) \<and> e = g"
      then have "p \<in> fst ` set ?items" using it f(1) by force
      then show ?thesis by (simp add: out' keys_ins_all)
    next
      assume b: "dir_entry g \<and> entry_below dir_entry x db r (join_path (cf_prefix f) (de_name g), de_id g) p e"
      then have "\<lparr>cf_fs_id = de_id g, cf_prefix = join_path (cf_prefix f) (de_name g)\<rparr> \<in> set nexts"
        using it f(1) by (force simp: nexts item_frames_def)
      then show ?thesis using b by (intro disjI2 bexI) auto
    qed
  qed
  ultimately show ?thesis unfolding collect_inv_def by fast
qed

interpretation collect_walk: level_walk "collect_level x db r" "collect_inv x db r root" for x db r root
  by unfold_locales (rule collect_level_inv)

lemma collect_entries_exact:
  assumes "collect_entries lim x db r root [] [] = Inr out"
  shows "(\<forall>(p, e)\<in>set out. entry_below dir_entry x db r ([], root) p e) \<and>
    fst ` set out = {p. \<exists>e. entry_below dir_entry x db r ([], root) p e}"
proof -
  have "\<exists>n. collect_inv x db r root n [] out"
    using assms unfolding collect_entries_def
    by (rule collect_walk.bfs_result) (auto simp: new_guard_def collect_inv_def)
  then show ?thesis by (fastforce simp: collect_inv_def)
qed

text \<open>
  The change list of a first commit is the whole tree: every reported change is the
  creation of an entry of the tree, every entry's path is reported, in ascending path order.
\<close>

theorem first_commit_complete:
  assumes "diff_trees lim x db r None root = Inr changes"
  shows "(\<forall>c\<in>set changes. \<exists>p e. c = create_change p e \<and> entry_below dir_entry x db r ([], root) p e)
    \<and> ch_path ` set changes = {p. \<exists>e. entry_below dir_entry x db r ([], root) p e}
    \<and> sorted (map ch_path changes)"
proof -
  obtain out where out: "collect_entries lim x db r root [] [] = Inr out"
    and ch: "changes = sort_key ch_path (map (\<lambda>(p, e). create_change p e) out)"
    using assms by (auto simp: diff_trees_def rbind_eq_Inr_iff)
  have "ch_path ` set changes = fst ` set out"
    by (force simp: ch create_change_def image_iff)
  moreover have "\<exists>p e. c = create_change p e \<and> entry_below dir_entry x db r ([], root) p e" if "c \<in> set changes" for c
    using that collect_entries_exact [OF out] by (fastforce simp: ch)
  ultimately show ?thesis using collect_entries_exact [OF out] by (simp add: ch)
qed

theorem first_commit_complete_witness:
  "\<exists>changes. diff_trees (configure 5 100) (demo_externs [(''t'', mk_dir [demo_dir ''s'' ''d'', demo_file ''1'' ''a'']),
       (''s'', mk_dir [demo_file ''2'' ''b''])]) (demo_db [''t'', ''s'']) ''r'' None ''t'' = Inr changes
    \<and> map ch_path changes = [''/a'', ''/d'', ''/d/b''] \<and> sorted (map ch_path changes)"
proof -
  define x where "x = demo_externs [(''t'', mk_dir [demo_dir ''s'' ''d'', demo_file ''1'' ''a'']),
       (''s'', mk_dir [demo_file ''2'' ''b''])]"
  define changes where "changes = [create_change ''/a'' (demo_file ''1'' ''a''),
    create_change ''/d'' (demo_dir ''s'' ''d''), create_change ''/d/b'' (demo_file ''2'' ''b'')]"
  have run: "diff_trees (configure 5 100) x (demo_db [''t'', ''s'']) ''r'' None ''t'' = Inr changes"
    unfolding x_def changes_def by code_simp
  have "sorted (map ch_path changes)" using first_commit_complete [OF run] by blast
  then show ?thesis using run by (auto simp: x_def changes_def create_change_def)
qed

section \<open>Every reported change is real\<close>

text \<open>What the paired walk keeps, for the walk from \<open>old_root\<close> and \<open>new_root\<close>.\<close>

abbreviation any_entry :: "DirEntryData \<Rightarrow> bool" where
  "any_entry \<equiv> \<lambda>_. True"

definition frame_ok :: "externs \<Rightarrow> fs_objects \<Rightarrow> string \<Rightarrow> string \<Rightarrow> string \<Rightarrow> DiffFrame \<Rightarrow> bool" where
  "frame_ok x db r oroot nroot f \<longleftrightarrow>
     (\<forall>i. old_fs_id f = Some i \<longrightarrow> (child any_entry x db r)\<^sup>*\<^sup>* ([], oroot) (df_prefix f, i)) \<and>
     (new_fs_id f = EMPTY_SHA1 \<or> (child any_entry x db r)\<^sup>*\<^sup>* ([], nroot) (df_prefix f, new_fs_id f))"

definition deleted_ok :: "FsChange list \<Rightarrow> (string \<times> (string \<times> DirEntryData) list) list \<Rightarrow> bool" where
  "deleted_ok ds m \<longleftrightarrow> (\<forall>i l. map_of m i = Some l \<longrightarrow>
     (\<forall>(p, e)\<in>set l. de_id e = i \<and> delete_change p e \<in> set ds))"

definition acc_ok :: "externs \<Rightarrow> fs_objects \<Rightarrow> string \<Rightarrow> string \<Rightarrow> string \<Rightarrow> diff_acc \<Rightarrow> bool" where
  "acc_ok x db r oroot nroot acc \<longleftrightarrow>
     (\<forall>c\<in>set (da_changes acc). \<exists>p e. c = edit_change p e \<and> entry_below any_entry x db r ([], nroot) p e) \<and>
     (\<forall>(p, e)\<in>set (da_created acc). entry_below any_entry x db r ([], nroot) p e) \<and>
     (\<forall>c\<in>set (pending_deletes acc). \<exists>p e. c = delete_change p e \<and> entry_below any_entry x db r ([], oroot) p e) \<and>
     deleted_ok (pending_deletes acc) (obj_to_deleted acc)"

definition walk_ok ::
    "externs \<Rightarrow> fs_objects \<Rightarrow> string \<Rightarrow> string \<Rightarrow> string \<Rightarrow> DiffFrame list \<times> diff_acc \<Rightarrow> bool" where
  "walk_ok x db r oroot nroot = (\<lambda>(fr, acc). (\<forall>f\<in>set fr. frame_ok x db r oroot nroot f) \<and>
     acc_ok x db r oroot nroot acc)"

lemma deleted_ok_push:
  "deleted_ok ds m \<Longrightarrow> delete_change p e \<in> set ds \<Longrightarrow> deleted_ok ds (push_deleted (p, e) m)"
  by (cases "map_of m (de_id e)") (auto simp: deleted_ok_def push_deleted_def split: if_splits)

lemma deleted_ok_mono: "deleted_ok ds m \<Longrightarrow> set ds \<subseteq> set ds' \<Longrightarrow> deleted_ok ds' m"
  unfolding deleted_ok_def by fastforce

lemma deleted_ok_fold:
  "deleted_ok ds m \<Longrightarrow> \<forall>(p, e)\<in>set l. delete_change p e \<in> set ds \<Longrightarrow> deleted_ok ds (fold push_deleted l m)"
proof (induction l arbitrary: m)
  case (Cons a l)
  obtain p e where a: "a = (p, e)" by (cases a)
  have "deleted_ok ds (push_deleted a m)" using Cons.prems a by (auto intro: deleted_ok_push)
  then show ?case using Cons.IH Cons.prems(2) by simp
qed simp

text \<open>The two sides of a frame whose directories were read.\<close>

definition side_ok :: "externs \<Rightarrow> fs_objects \<Rightarrow> string \<Rightarrow> string \<Rightarrow> string \<Rightarrow> FsDirData \<Rightarrow> bool" where
  "side_ok x db r root q d \<longleftrightarrow> (\<forall>e\<in>set (dirents d). entry_below any_entry x db r ([], root) (join_path q (de_name e)) e \<and>
     (child any_entry x db r)\<^sup>*\<^sup>* ([], root) (join_path q (de_name e), de_id e))"

lemma side_okI:
  "(child any_entry x db r)\<^sup>*\<^sup>* ([], root) (q, i) \<Longrightarrow> read_fs_dir_data x db r i = Inr d \<Longrightarrow> side_ok x db r root q d"
  by (auto simp: side_ok_def intro: entry_belowI child_step)

lemma frame_new_only_ok:
  assumes "side_ok x db r nroot q d" "walk_ok x db r oroot nroot s"
  shows "walk_ok x db r oroot nroot (frame_new_only q d s)"
  unfolding frame_new_only_def
proof (rule fold_invariant [where Q = "\<lambda>e. e \<in> set (dirents d)"])
  fix e s
  assume e: "e \<in> set (dirents d)" and s: "walk_ok x db r oroot nroot s"
  obtain ns acc where s': "s = (ns, acc)" by (cases s)
  show "walk_ok x db r oroot nroot (case s of (nexts, acc) \<Rightarrow> let path = join_path q (de_name e) in
       (if has_dir_bit (de_mode e)
        then nexts @ [\<lparr>old_fs_id = None, new_fs_id = de_id e, df_prefix = path\<rparr>] else nexts,
        acc\<lparr>da_created := da_created acc @ [(path, e)]\<rparr>))"
    using s s' e assms(1) by (auto simp: walk_ok_def side_ok_def acc_ok_def frame_ok_def Let_def)
qed (use assms(2) in auto)

lemma frame_old_only_ok:
  assumes "side_ok x db r oroot q d" "walk_ok x db r oroot nroot s"
  shows "walk_ok x db r oroot nroot (frame_old_only q d s)"
  unfolding frame_old_only_def
proof (rule fold_invariant [where Q = "\<lambda>e. e \<in> set (dirents d)"])
  fix e s
  assume e: "e \<in> set (dirents d)" and s: "walk_ok x db r oroot nroot s"
  obtain ns acc where s': "s = (ns, acc)" by (cases s)
  have "deleted_ok (pending_deletes acc @ [delete_change (join_path q (de_name e)) e])
      (push_deleted (join_path q (de_name e), e) (obj_to_deleted acc))"
    using s s' by (intro deleted_ok_push) (auto simp: walk_ok_def acc_ok_def intro: deleted_ok_mono)
  then show "walk_ok x db r oroot nroot (case s of (nexts, acc) \<Rightarrow> let path = join_path q (de_name e) in
       (if has_dir_bit (de_mode e) then nexts @ [gone_frame path e] else nexts,
        acc\<lparr>pending_deletes := pending_deletes acc @ [delete_change path e],
            obj_to_deleted := push_deleted (path, e) (obj_to_deleted acc)\<rparr>))"
    using s s' e assms(1)
    by (auto simp: walk_ok_def side_ok_def acc_ok_def frame_ok_def gone_frame_def Let_def)
qed (use assms(2) in auto)

lemma drop_old_entries_ok:
  assumes "side_ok x db r oroot q od" "walk_ok x db r oroot nroot (ns, acc)"
    and "drop_old_entries q od nd (ns, acc) = (dh, ns', acc')"
  shows "walk_ok x db r oroot nroot (ns', acc') \<and> (\<forall>(p, e)\<in>set dh. delete_change p e \<in> set (pending_deletes acc'))"
proof -
  let ?f = "\<lambda>old_entry (deleted_here, nexts, acc).
       if list_ex (\<lambda>e. de_name e = de_name old_entry) (dirents nd) then (deleted_here, nexts, acc)
       else let path = join_path q (de_name old_entry) in
         (deleted_here @ [(path, old_entry)],
          if has_dir_bit (de_mode old_entry) then nexts @ [gone_frame path old_entry] else nexts,
          acc\<lparr>pending_deletes := pending_deletes acc @ [delete_change path old_entry]\<rparr>)"
  let ?P = "\<lambda>(dh, ns, acc). walk_ok x db r oroot nroot (ns, acc) \<and>
    (\<forall>(p, e)\<in>set dh. delete_change p e \<in> set (pending_deletes acc))"
  have "?P (fold ?f (dirents od) ([], ns, acc))"
  proof (rule fold_invariant [where Q = "\<lambda>e. e \<in> set (dirents od)"])
    fix e s
    assume e: "e \<in> set (dirents od)" and s: "?P s"
    obtain dh ns acc where s': "s = (dh, ns, acc)" by (cases s)
    have "deleted_ok (pending_deletes acc @ [delete_change (join_path q (de_name e)) e]) (obj_to_deleted acc)"
      using s s' by (auto simp: walk_ok_def acc_ok_def intro: deleted_ok_mono)
    then show "?P (?f e s)"
      using s s' e assms(1)
      by (auto simp: walk_ok_def side_ok_def acc_ok_def frame_ok_def gone_frame_def Let_def)
  qed (use assms(2) in auto)
  then show ?thesis using assms(3) by (simp add: drop_old_entries_def)
qed

lemma old_entries_of:
  "map_of (fold (\<lambda>d m. hm_insert (de_name d) d m) es m0) n = Some old \<Longrightarrow>
   (old \<in> set es \<and> de_name old = n) \<or> map_of m0 n = Some old"
  by (induction es arbitrary: m0) (fastforce split: if_splits)+

lemma new_entry_step_ok:
  assumes new: "side_ok x db r nroot q nd" "e \<in> set (dirents nd)" and old: "side_ok x db r oroot q od"
    and oe: "\<And>n o'. map_of old_entries n = Some o' \<Longrightarrow> o' \<in> set (dirents od) \<and> de_name o' = n"
    and ok: "walk_ok x db r oroot nroot (ns, acc)"
  shows "walk_ok x db r oroot nroot (new_entry_step q old_entries dbi e (ns, acc))"
proof -
  let ?p = "join_path q (de_name e)"
  have n: "entry_below any_entry x db r ([], nroot) ?p e" "(child any_entry x db r)\<^sup>*\<^sup>* ([], nroot) (?p, de_id e)"
    using new by (simp_all add: side_ok_def)
  show ?thesis
  proof (cases "map_of old_entries (de_name e)")
    case None
    then show ?thesis using ok n
      by (auto simp: new_entry_step_def walk_ok_def acc_ok_def frame_ok_def Let_def)
  next
    case (Some o')
    then have o: "(child any_entry x db r)\<^sup>*\<^sup>* ([], oroot) (?p, de_id o')"
      using oe [OF Some] old by (auto simp: side_ok_def)
    show ?thesis using ok n o Some
      by (auto simp: new_entry_step_def walk_ok_def acc_ok_def frame_ok_def gone_frame_def Let_def)
  qed
qed

lemma frame_both_ok:
  assumes new: "side_ok x db r nroot q nd" and old: "side_ok x db r oroot q od"
    and ok: "walk_ok x db r oroot nroot s"
  shows "walk_ok x db r oroot nroot (frame_both q od nd s)"
proof -
  obtain ns acc where s: "s = (ns, acc)" by (cases s)
  obtain dh ns' acc' where d: "drop_old_entries q od nd (ns, acc) = (dh, ns', acc')"
    by (metis prod_cases3)
  have w: "walk_ok x db r oroot nroot (ns', acc')" "\<forall>(p, e)\<in>set dh. delete_change p e \<in> set (pending_deletes acc')"
    using drop_old_entries_ok [OF old _ d] ok s by auto
  then have w': "walk_ok x db r oroot nroot (ns', acc'\<lparr>obj_to_deleted := fold push_deleted dh (obj_to_deleted acc')\<rparr>)"
    by (auto simp: walk_ok_def acc_ok_def intro: deleted_ok_fold)
  show ?thesis
    unfolding frame_both_def s d Let_def prod.case
  proof (rule fold_invariant [where Q = "\<lambda>e. e \<in> set (dirents nd)"])
    fix e t
    assume e: "e \<in> set (dirents nd)" and t: "walk_ok x db r oroot nroot t"
    obtain ts ta where t': "t = (ts, ta)" by (cases t)
    show "walk_ok x db r oroot nroot (new_entry_step q
       (fold (\<lambda>d m. hm_insert (de_name d) d m) (dirents od) []) (fold (\<lambda>(_, entry) m.
            if map_of m (de_id entry) = None then hm_insert (de_id entry) entry m else m) dh []) e t)"
      unfolding t'
      by (rule new_entry_step_ok [OF new e old]) (use old_entries_of t t' in fastforce)+
  qed (use w' in auto)
qed

lemma batch_side_ok:
  assumes "read_fs_dir_data_batch x db r ids = Inr m" "map_of m i = Some d"
    "(child any_entry x db r)\<^sup>*\<^sup>* ([], root) (q, i)"
  shows "side_ok x db r root q d"
  using read_dir_batch_iff [OF assms(1), of i d] assms(2,3) by (auto intro: side_okI)

lemma diff_frame_ok:
  assumes om: "\<And>i d. map_of old_map i = Some d \<Longrightarrow> (child any_entry x db r)\<^sup>*\<^sup>* ([], oroot) (df_prefix f, i) \<Longrightarrow>
      side_ok x db r oroot (df_prefix f) d"
    and nm: "\<And>i d. map_of new_map i = Some d \<Longrightarrow> i \<noteq> EMPTY_SHA1 \<and> ((child any_entry x db r)\<^sup>*\<^sup>* ([], nroot) (df_prefix f, i) \<longrightarrow>
      side_ok x db r nroot (df_prefix f) d)"
    and f: "frame_ok x db r oroot nroot f" and ok: "walk_ok x db r oroot nroot s"
  shows "walk_ok x db r oroot nroot (diff_frame old_map new_map f s)"
proof -
  have n: "side_ok x db r nroot (df_prefix f) d" if "map_of new_map (new_fs_id f) = Some d" for d
    using nm [OF that] f by (simp add: frame_ok_def)
  have o: "side_ok x db r oroot (df_prefix f) d" if "Option.bind (old_fs_id f) (map_of old_map) = Some d" for d
    using that f om by (auto simp: frame_ok_def Option.bind_eq_Some_conv)
  show ?thesis unfolding diff_frame_def
    using n o ok by (auto split: option.splits intro: frame_new_only_ok frame_old_only_ok frame_both_ok)
qed

lemma diff_level_ok:
  assumes lv: "diff_level x db r fr acc = Inr (nexts, acc')" and ok: "walk_ok x db r oroot nroot (fr, acc)"
  shows "walk_ok x db r oroot nroot (nexts, acc')"
proof -
  let ?oids = "List.map_filter old_fs_id fr"
  obtain nm om where nm: "read_fs_dir_data_batch x db r (map new_fs_id fr) = Inr nm"
    and om: "(if ?oids = [] then Inr [] else read_fs_dir_data_batch x db r ?oids) = Inr om"
    and out: "(nexts, acc') = fold (diff_frame om nm) fr ([], acc)"
    using lv unfolding diff_level_def Let_def rbind_eq_Inr_iff by (metis sum.inject(2))
  show ?thesis unfolding out
  proof (rule fold_invariant [where Q = "\<lambda>f. f \<in> set fr"])
    fix f s
    assume f: "f \<in> set fr" and s: "walk_ok x db r oroot nroot s"
    show "walk_ok x db r oroot nroot (diff_frame om nm f s)"
    proof (rule diff_frame_ok [OF _ _ _ s])
      show "side_ok x db r oroot (df_prefix f) d"
        if "map_of om i = Some d" "(child any_entry x db r)\<^sup>*\<^sup>* ([], oroot) (df_prefix f, i)" for i d
        using om that batch_side_ok by (cases "?oids = []") auto
      show "i \<noteq> EMPTY_SHA1 \<and> ((child any_entry x db r)\<^sup>*\<^sup>* ([], nroot) (df_prefix f, i) \<longrightarrow>
          side_ok x db r nroot (df_prefix f) d)" if "map_of nm i = Some d" for i d
        using that batch_side_ok [OF nm that] read_dir_batch_iff [OF nm, of i d] by auto
      show "frame_ok x db r oroot nroot f" using ok f by (simp add: walk_ok_def)
    qed
  qed (use ok in \<open>auto simp: walk_ok_def\<close>)
qed

interpretation diff_walk: level_walk "diff_level x db r" "\<lambda>_ fr acc. walk_ok x db r oroot nroot (fr, acc)"
  for x db r oroot nroot
  by unfold_locales (rule diff_level_ok)

lemma diff_walk_ok:
  assumes "bfs lim (diff_level x db r) new_guard
    [\<lparr>old_fs_id = Some oroot, new_fs_id = nroot, df_prefix = []\<rparr>] empty_acc = Inr acc"
  shows "acc_ok x db r oroot nroot acc"
proof -
  have "\<exists>n :: nat. walk_ok x db r oroot nroot ([], acc)"
    using assms by (rule diff_walk.bfs_result)
      (auto simp: new_guard_def walk_ok_def frame_ok_def acc_ok_def empty_acc_def deleted_ok_def)
  then show ?thesis by (simp add: walk_ok_def)
qed

text \<open>What the matching pass keeps, over the changes \<open>base\<close> that the walk left.\<close>

definition paired :: "FsChange list \<Rightarrow> string list \<Rightarrow> string \<Rightarrow> DirEntryData \<Rightarrow> FsChange \<Rightarrow> bool" where
  "paired base ids p e c \<longleftrightarrow> (\<exists>old e'. delete_change old e' \<in> set base \<and> de_id e' = de_id e \<and> de_id e \<in> set ids \<and>
     c = move_change old p e)"

definition match_ok :: "(string \<Rightarrow> DirEntryData \<Rightarrow> bool) \<Rightarrow> FsChange list \<Rightarrow> match_state \<Rightarrow> bool" where
  "match_ok N base s \<longleftrightarrow> set base \<subseteq> set (ms_changes s) \<and> deleted_ok base (ms_deleted s) \<and>
     (\<forall>c\<in>set (ms_changes s). c \<in> set base \<or>
        (\<exists>p e. N p e \<and> (c = create_change p e \<or> paired base (superseded_ids s) p e c)))"

lemma deleted_ok_insert:
  "deleted_ok ds m \<Longrightarrow> \<forall>(p, f)\<in>set l. de_id f = i \<and> delete_change p f \<in> set ds \<Longrightarrow> deleted_ok ds (hm_insert i l m)"
  by (auto simp: deleted_ok_def split: if_splits)

lemma match_created_ok:
  assumes "match_ok N base s" "N p e"
  shows "match_ok N base (match_created (p, e) s)"
proof -
  consider (pop) d ds where "map_of (ms_deleted s) (de_id e) = Some (d # ds)"
    | (new) "match_created (p, e) s = s\<lparr>ms_changes := ms_changes s @ [create_change p e]\<rparr>"
    by (cases "map_of (ms_deleted s) (de_id e)" rule: option.exhaust;
        cases "the (map_of (ms_deleted s) (de_id e))") (auto simp: match_created_def)
  then show ?thesis
  proof cases
    case new
    then show ?thesis using assms by (auto simp: match_ok_def)
  next
    case pop
    obtain old e' where l: "last (d # ds) = (old, e')" by fastforce
    have "deleted_ok base (ms_deleted s)" using assms(1) by (simp add: match_ok_def)
    then have all: "\<forall>(p, f)\<in>set (d # ds). de_id f = de_id e \<and> delete_change p f \<in> set base"
      using pop by (auto simp: deleted_ok_def)
    have "(old, e') \<in> set (d # ds)" using l last_in_set [of "d # ds"] by auto
    with all have del: "delete_change old e' \<in> set base" "de_id e' = de_id e" by auto
    have dok: "deleted_ok base (hm_insert (de_id e) (butlast (d # ds)) (ms_deleted s))"
      by (rule deleted_ok_insert) (use assms(1) all in_set_butlastD in \<open>fastforce simp: match_ok_def simp del: butlast.simps\<close>)+
    let ?s = "match_created (p, e) s"
    have s: "superseded_ids ?s = superseded_ids s @ [de_id e]" "ms_deleted ?s = hm_insert (de_id e) (butlast (d # ds)) (ms_deleted s)"
      "ms_changes ?s = ms_changes s @ [move_change old p e]"
      using pop l by (simp_all add: match_created_def Let_def)
    have mono: "paired base (superseded_ids s) q f c \<Longrightarrow> paired base (superseded_ids ?s) q f c" for q f c
      unfolding paired_def s set_append by blast
    have "paired base (superseded_ids ?s) p e (move_change old p e)"
      unfolding paired_def s using del by auto
    then show ?thesis using assms dok mono unfolding match_ok_def s(2,3) by fastforce
  qed
qed

lemma match_all_ok:
  "match_ok N base s \<Longrightarrow> \<forall>(p, e)\<in>set cs. N p e \<Longrightarrow> match_ok N base (fold match_created cs s)"
proof (induction cs arbitrary: s)
  case (Cons c cs)
  obtain p e where c: "c = (p, e)" by (cases c)
  have "match_ok N base (match_created c s)" using Cons.prems c by (auto intro: match_created_ok)
  then show ?case using Cons.IH Cons.prems(2) by simp
qed simp

lemma mark_superseded_in:
  "c \<in> set (mark_superseded ids dirs cs) \<Longrightarrow> \<exists>c0\<in>set cs. c = c0 \<or> (op_type c0 = ''delete'' \<and> c = c0\<lparr>superseded := True\<rparr>)"
  by (auto simp: mark_superseded_def split: if_splits)

lemma mark_superseded_delete:
  "delete_change p e \<in> set cs \<Longrightarrow> de_id e \<in> set ids \<Longrightarrow>
   (delete_change p e)\<lparr>superseded := True\<rparr> \<in> set (mark_superseded ids dirs cs)"
  by (force simp: mark_superseded_def delete_change_def list_ex_iff)


lemma diff_trees_run:
  "oroot \<noteq> EMPTY_SHA1 \<Longrightarrow> bfs lim (diff_level x db r) new_guard
     [\<lparr>old_fs_id = Some oroot, new_fs_id = nroot, df_prefix = []\<rparr>] empty_acc = Inr acc \<Longrightarrow>
   diff_trees lim x db r (Some oroot) nroot = Inr (finish_diff acc)"
  by (simp add: diff_trees_def)

lemmas change_sels = delete_change_def create_change_def edit_change_def move_change_def parent_dir_def

lemma demo_root_not_empty: "''o'' \<noteq> EMPTY_SHA1"
  by (simp add: EMPTY_SHA1_def numeral_eq_Suc)


section \<open>Where the code differs from its comments\<close>

text \<open>
  A delete is marked superseded whenever its object id reappears anywhere, not only when its
  own path was reported as the source of a rename. With two old files of equal content and one
  new one, one rename is reported and both deletes are marked, although one of the two files is
  gone without a rename.
\<close>

theorem superseded_marks_unmatched_delete:
  "\<exists>changes. diff_trees (configure 5 100) (demo_externs [(''o'', mk_dir [demo_file ''1'' ''a'', demo_file ''1'' ''b'']),
       (''n'', mk_dir [demo_file ''1'' ''c''])]) (demo_db [''o'', ''n'']) ''r'' (Some ''o'') ''n'' = Inr changes
    \<and> map (\<lambda>c. (op_type c, ch_path c, old_path c, superseded c)) changes =
        [(''delete'', ''/a'', None, True), (''delete'', ''/b'', None, True), (''rename'', ''/c'', Some ''/b'', False)]"
proof -
  define x where "x = demo_externs [(''o'', mk_dir [demo_file ''1'' ''a'', demo_file ''1'' ''b'']),
       (''n'', mk_dir [demo_file ''1'' ''c''])]"
  define acc where "acc = \<lparr>da_changes = [], da_created = [(''/c'', demo_file ''1'' ''c'')],
    pending_deletes = [delete_change ''/a'' (demo_file ''1'' ''a''), delete_change ''/b'' (demo_file ''1'' ''b'')],
    obj_to_deleted = [(''1'', [(''/a'', demo_file ''1'' ''a''), (''/b'', demo_file ''1'' ''b'')])]\<rparr>"
  have "bfs (configure 5 100) (diff_level x (demo_db [''o'', ''n'']) ''r'') new_guard
      [\<lparr>old_fs_id = Some ''o'', new_fs_id = ''n'', df_prefix = []\<rparr>] empty_acc = Inr acc"
    unfolding x_def acc_def by code_simp
  then have "diff_trees (configure 5 100) x (demo_db [''o'', ''n'']) ''r'' (Some ''o'') ''n'' = Inr (finish_diff acc)"
    by (rule diff_trees_run [OF demo_root_not_empty])
  moreover have "finish_diff acc = [(delete_change ''/a'' (demo_file ''1'' ''a''))\<lparr>superseded := True\<rparr>,
      (delete_change ''/b'' (demo_file ''1'' ''b''))\<lparr>superseded := True\<rparr>, move_change ''/b'' ''/c'' (demo_file ''1'' ''c'')]"
    unfolding acc_def by code_simp
  then have "map (\<lambda>c. (op_type c, ch_path c, old_path c, superseded c)) (finish_diff acc) =
        [(''delete'', ''/a'', None, True), (''delete'', ''/b'', None, True), (''rename'', ''/c'', Some ''/b'', False)]"
    by (simp add: change_sels)
  ultimately show ?thesis unfolding x_def by (intro exI [of _ "finish_diff acc"] conjI)
qed

text \<open>A file replaced by an empty directory of the same name is not reported at all: the entry is
  neither created, since the name existed, nor edited, since it is a directory.\<close>

lemma file_to_empty_dir_unreported:
  "diff_trees (configure 5 100) (demo_externs [(''o'', mk_dir [demo_file ''1'' ''a'']),
     (''n'', mk_dir [demo_dir EMPTY_SHA1 ''a''])]) (demo_db [''o'', ''n'']) ''r'' (Some ''o'') ''n'' = Inr []"
  by code_simp

end
