(* ===== verification/Sanitize.thy ===== *)
theory Sanitize
  imports Prelude "HOL-Library.Sublist"
begin

text \<open>
  Filename and virtual-path validation, \<open>base/src/sanitize.rs\<close>, with the in-repo path helpers
  of \<open>infra/src/common/util.rs\<close> and \<open>is_self_or_subpath\<close> of \<open>server/src/domain/fs.rs\<close>.

  \<open>std::path::Path::components\<close> is modelled as on Unix, where \<open>/\<close> is the only separator. The
  arguments are Rust \<open>str\<close> values, so the \<open>invalid unicode\<close> branch of the source cannot be
  taken and has no counterpart here; neither has the Windows-only \<open>Prefix\<close> component.
\<close>

section \<open>Definitions\<close>

definition INVALID_FILENAME_CHARS :: "char list" where
  "INVALID_FILENAME_CHARS =
     [CHR 0x00, CHR 0x0A, CHR 0x0D, CHR 0x09, CHR 0x27, CHR 0x22, CHR ''<'', CHR ''>'', CHR 0x5C]"

definition MAX_FILENAME_LEN :: nat where "MAX_FILENAME_LEN = 255"

definition MAX_PATH_LEN :: nat where "MAX_PATH_LEN = 4096"

definition WINDOWS_RESERVED_NAMES :: "string list" where
  "WINDOWS_RESERVED_NAMES =
     [''CON'', ''PRN'', ''AUX'', ''NUL'', ''CONIN$'', ''CONOUT$'', ''COM1'', ''COM2'', ''COM3'',
      ''COM4'', ''COM5'', ''COM6'', ''COM7'', ''COM8'', ''COM9'', ''LPT1'', ''LPT2'', ''LPT3'',
      ''LPT4'', ''LPT5'', ''LPT6'', ''LPT7'', ''LPT8'', ''LPT9'']"

definition is_windows_reserved_name :: "string \<Rightarrow> bool" where
  "is_windows_reserved_name name =
     (let base = hd (split_on dot name);
          base = trim_end_matches [CHR '' '', dot] base;
          upper = to_ascii_uppercase base
      in List.member WINDOWS_RESERVED_NAMES upper)"

definition contains_any :: "char list \<Rightarrow> string \<Rightarrow> bool" where
  "contains_any cs s \<longleftrightarrow> list_ex (\<lambda>c. List.member cs c) s"

definition validate_filename :: "string \<Rightarrow> string + unit" where
  "validate_filename name =
     (if name = [] \<or> name = ''.'' \<or> name = ''..'' then Inl ''invalid filename''
      else if length name > MAX_FILENAME_LEN then Inl ''filename too long''
      else if contains_any INVALID_FILENAME_CHARS name
        then Inl ''filename contains invalid characters''
      else if contains_any [slash] name then Inl ''filename must not contain path separators''
      else if is_windows_reserved_name name then Inl ''filename is reserved by Windows''
      else Inr ())"

datatype component = RootDir | CurDir | ParentDir | Normal string

fun segment_component :: "string \<Rightarrow> component list" where
  "segment_component s =
     (if s = [] \<or> s = ''.'' then [] else if s = ''..'' then [ParentDir] else [Normal s])"

definition components :: "string \<Rightarrow> component list" where
  "components path =
     (let segs = split_on slash path in
      (if starts_with path [slash] then [RootDir] else if hd segs = ''.'' then [CurDir] else []) @
      concat (map segment_component segs))"

fun canon_step :: "component \<Rightarrow> string list \<Rightarrow> string + string list" where
  "canon_step RootDir normalized = Inr normalized"
| "canon_step CurDir normalized = Inr normalized"
| "canon_step (Normal name) normalized =
     (if name = ''.'' \<or> name = ''..'' then Inl ''path contains unnormalized components''
      else if list_ex (\<lambda>ch. List.member name ch) INVALID_FILENAME_CHARS
        then Inl ''path contains invalid characters''
      else Inr (normalized @ [name]))"
| "canon_step ParentDir normalized =
     (if normalized = [] then Inl ''path traversal beyond root'' else Inr (butlast normalized))"

definition canonicalize_path :: "string \<Rightarrow> string + string" where
  "canonicalize_path path =
     (if path = [] then Inl ''path must not be empty''
      else if \<not> starts_with path [slash] then Inl ''path must start with /''
      else if length path > MAX_PATH_LEN then Inl ''path too long''
      else if contains_any [CHR 0x00] path then Inl ''path contains null byte''
      else rbind (rfold canon_step (components path) [])
        (\<lambda>normalized. if normalized = [] then Inr [slash]
                      else Inr (slash # join_with [slash] normalized)))"

definition validate_path :: "string \<Rightarrow> string + unit" where
  "validate_path path = rbind (canonicalize_path path) (\<lambda>_. Inr ())"

definition safe_join_path :: "string \<Rightarrow> string \<Rightarrow> string + string" where
  "safe_join_path base relative =
     rbind (canonicalize_path base) (\<lambda>base.
       if trim relative = [] then Inr base
       else let relative = trim_start_matches [slash] relative;
                combined = (if base = [slash] then slash # relative else base @ slash # relative)
            in canonicalize_path combined)"

definition safe_normalize_path :: "string \<Rightarrow> string + string" where
  "safe_normalize_path path =
     (let path = trim path in
      if path = [] then Inr [slash]
      else canonicalize_path (if starts_with path [slash] then path else slash # path))"

definition parent_path_from :: "string \<Rightarrow> string" where
  "parent_path_from path =
     (case rsplit_once slash path of
        Some ([], _) \<Rightarrow> [slash]
      | Some (parent, _) \<Rightarrow> parent
      | None \<Rightarrow> [slash])"

definition basename :: "string \<Rightarrow> string" where
  "basename path = (case rsplit_once slash path of Some (_, name) \<Rightarrow> name | None \<Rightarrow> [])"

definition util_join_path :: "string \<Rightarrow> string \<Rightarrow> string" where
  "util_join_path parent name =
     (if parent = [slash] then slash # name else parent @ slash # name)"

definition is_self_or_subpath :: "string \<Rightarrow> string \<Rightarrow> bool" where
  "is_self_or_subpath src dst =
     (if dst = src then True
      else let prefix = (if src = [slash] then [slash] else trim_end_matches [slash] src @ [slash])
           in starts_with dst prefix)"

section \<open>Canonical paths\<close>

text \<open>A clean segment is what canonicalization keeps; a canonical path is the root or the
  slash-joined list of clean segments.\<close>

definition clean_segment :: "string \<Rightarrow> bool" where
  "clean_segment s \<longleftrightarrow> s \<noteq> [] \<and> s \<noteq> ''.'' \<and> s \<noteq> ''..'' \<and> slash \<notin> set s \<and>
     set s \<inter> set INVALID_FILENAME_CHARS = {}"

definition path_of :: "string list \<Rightarrow> string" where
  "path_of segs = (if segs = [] then [slash] else slash # join_with [slash] segs)"

definition canonical_path :: "string \<Rightarrow> bool" where
  "canonical_path p \<longleftrightarrow> (\<exists>segs. (\<forall>s\<in>set segs. clean_segment s) \<and> p = path_of segs)"

lemma contains_any_iff: "contains_any cs s \<longleftrightarrow> set s \<inter> set cs \<noteq> {}"
  by (auto simp: contains_any_def list_ex_iff)

lemma canon_step_Normal:
  "clean_segment s \<Longrightarrow> canon_step (Normal s) st = Inr (st @ [s])"
  by (auto simp: clean_segment_def list_ex_iff)

lemma segment_component_clean [simp]: "clean_segment s \<Longrightarrow> segment_component s = [Normal s]"
  by (simp add: clean_segment_def)

lemma slash_not_invalid: "slash \<notin> set INVALID_FILENAME_CHARS"
  by (simp add: INVALID_FILENAME_CHARS_def)

lemma nul_invalid: "CHR 0x00 \<in> set INVALID_FILENAME_CHARS"
  by (simp add: INVALID_FILENAME_CHARS_def)

lemma rfold_canon_clean:
  "\<forall>s\<in>set segs. clean_segment s \<Longrightarrow> rfold canon_step (map Normal segs) st = Inr (st @ segs)"
  by (induction segs arbitrary: st) (auto simp: canon_step_Normal simp del: canon_step.simps)

lemma concat_segment_component_clean:
  "\<forall>s\<in>set segs. clean_segment s \<Longrightarrow> concat (map segment_component segs) = map Normal segs"
  by (induction segs) (auto simp del: segment_component.simps)

lemma rfold_canon_clean_result:
  assumes "rfold canon_step cs st = Inr out"
    and "\<forall>s\<in>set st. clean_segment s"
    and "\<And>n. Normal n \<in> set cs \<Longrightarrow> n \<noteq> [] \<and> slash \<notin> set n"
  shows "\<forall>s\<in>set out. clean_segment s"
  using assms(1,2)
proof (rule rfold_invariant)
  fix c u v
  assume c: "c \<in> set cs" and u: "\<forall>s\<in>set u. clean_segment s" and v: "canon_step c u = Inr v"
  show "\<forall>s\<in>set v. clean_segment s"
  proof (cases c)
    case (Normal n)
    then have "clean_segment n"
      using v assms(3) [of n] c by (auto simp: clean_segment_def list_ex_iff split: if_splits)
    then show ?thesis using Normal v u by (auto split: if_splits)
  qed (use u v in \<open>auto split: if_splits dest: in_set_butlastD\<close>)
qed

lemma Normal_in_components: "Normal n \<in> set (components p) \<Longrightarrow> n \<noteq> [] \<and> slash \<notin> set n"
  by (auto simp: components_def Let_def dest: split_on_no_sep split: if_splits)

lemma canonicalize_path_cases:
  assumes "canonicalize_path p = Inr q"
  obtains segs where "rfold canon_step (components p) [] = Inr segs" "q = path_of segs"
    "\<forall>s\<in>set segs. clean_segment s" "p \<noteq> []" "starts_with p [slash]"
    "length p \<le> MAX_PATH_LEN" "CHR 0x00 \<notin> set p"
proof -
  from assms obtain segs where f: "rfold canon_step (components p) [] = Inr segs"
    and q: "q = path_of segs"
    and side: "p \<noteq> []" "starts_with p [slash]" "length p \<le> MAX_PATH_LEN" "CHR 0x00 \<notin> set p"
    by (auto simp: canonicalize_path_def rbind_eq_Inr_iff path_of_def contains_any_iff
        split: if_splits)
  have "\<forall>s\<in>set segs. clean_segment s"
    using rfold_canon_clean_result [OF f] Normal_in_components by simp
  then show thesis using that f q side by blast
qed

lemma components_path_of:
  assumes "\<forall>s\<in>set segs. clean_segment s"
  shows "components (path_of segs) = RootDir # map Normal segs"
proof (cases "segs = []")
  case True
  then show ?thesis by (simp add: components_def path_of_def starts_with_def)
next
  case False
  have "split_on slash (join_with [slash] segs) = segs"
    using False assms by (intro split_on_join) (auto simp: clean_segment_def)
  then show ?thesis
    using False assms
    by (simp add: components_def path_of_def starts_with_def concat_segment_component_clean)
qed

lemma nul_not_in_path_of:
  assumes "\<forall>s\<in>set segs. clean_segment s"
  shows "CHR 0x00 \<notin> set (path_of segs)"
proof -
  have "CHR 0x00 \<notin> set s" if "s \<in> set segs" for s
    using assms that nul_invalid by (auto simp: clean_segment_def)
  then show ?thesis using set_join_with [of "[slash]" segs] by (auto simp: path_of_def)
qed

lemma path_of_starts: "starts_with (path_of segs) [slash]"
  by (simp add: path_of_def starts_with_def)

lemma path_of_nonempty [simp]: "path_of segs \<noteq> []"
  by (simp add: path_of_def)

text \<open>Canonical paths are fixed points, as long as they are not too long.\<close>

lemma canonicalize_path_of:
  assumes "\<forall>s\<in>set segs. clean_segment s" "length (path_of segs) \<le> MAX_PATH_LEN"
  shows "canonicalize_path (path_of segs) = Inr (path_of segs)"
proof -
  have "rfold canon_step (components (path_of segs)) [] = Inr segs"
    using rfold_canon_clean [OF assms(1), of "[]"] by (simp add: components_path_of [OF assms(1)])
  then show ?thesis
    using assms(2) nul_not_in_path_of [OF assms(1)]
      path_of_starts [of segs] path_of_nonempty [of segs]
    by (simp add: canonicalize_path_def contains_any_iff) (simp add: path_of_def)
qed

subsection \<open>Canonicalization never lengthens a path\<close>

definition segs_len :: "string list \<Rightarrow> nat" where
  "segs_len segs = sum_list (map (\<lambda>s. Suc (length s)) segs)"

lemma segs_len_simps [simp]:
  "segs_len [] = 0" "segs_len (s # ss) = Suc (length s) + segs_len ss"
  "segs_len (xs @ ys) = segs_len xs + segs_len ys"
  by (simp_all add: segs_len_def)

lemma segs_len_butlast: "segs_len (butlast xs) \<le> segs_len xs"
  by (induction xs) auto

lemma length_path_of: "length (path_of segs) = max 1 (segs_len segs)"
proof -
  have "segs \<noteq> [] \<Longrightarrow> Suc (length (join_with [slash] segs)) = segs_len segs"
    by (induction segs rule: induct_list012) auto
  then show ?thesis by (auto simp: path_of_def)
qed

lemma segs_len_split: "segs_len (split_on slash p) = Suc (length p)"
proof (induction p)
  case (Cons x p)
  then show ?case by (cases "split_on slash p") auto
qed simp

lemma rfold_canon_len:
  "rfold canon_step (concat (map segment_component segs)) st = Inr out \<Longrightarrow>
   segs_len out \<le> segs_len st + segs_len segs"
proof (induction segs arbitrary: st)
  case (Cons s segs)
  then obtain u where u: "rfold canon_step (segment_component s) st = Inr u"
    and o: "rfold canon_step (concat (map segment_component segs)) u = Inr out"
    by (auto simp: rfold_append rbind_eq_Inr_iff simp del: segment_component.simps)
  have "segs_len u \<le> segs_len st + Suc (length s)"
    using u segs_len_butlast [of st] by (auto split: if_splits simp: rbind_eq_Inr_iff)
  with Cons.IH [OF o] show ?case by simp
qed simp

lemma canonicalize_path_length:
  assumes "canonicalize_path p = Inr q"
  shows "length q \<le> length p"
proof -
  obtain segs where f: "rfold canon_step (components p) [] = Inr segs"
    and q: "q = path_of segs" and p: "starts_with p [slash]" "p \<noteq> []"
    using assms by (rule canonicalize_path_cases)
  obtain t where t: "p = slash # t" using p by (auto simp: starts_with_iff)
  have "rfold canon_step (concat (map segment_component (split_on slash t))) [] = Inr segs"
    using f t by (simp add: components_def starts_with_def)
  from rfold_canon_len [OF this] have "segs_len segs \<le> Suc (length t)"
    by (simp add: segs_len_split)
  then show ?thesis using t q by (simp add: length_path_of)
qed

section \<open>Appending segments\<close>

lemma path_of_root_iff:
  assumes "\<forall>s\<in>set segs. s \<noteq> []"
  shows "path_of segs = [slash] \<longleftrightarrow> segs = []"
proof
  assume "path_of segs = [slash]"
  then have "segs_len segs \<le> 1" using length_path_of [of segs] by simp
  then show "segs = []" using assms by (cases segs) auto
qed (simp add: path_of_def)

lemma path_of_snoc:
  assumes "\<forall>s\<in>set segs. s \<noteq> []"
  shows "path_of (segs @ [s]) = util_join_path (path_of segs) s"
proof (cases "segs = []")
  case False
  then have "join_with [slash] (segs @ [s]) = join_with [slash] segs @ slash # s"
    by (induction segs rule: induct_list012) auto
  then show ?thesis using False path_of_root_iff [OF assms]
    by (simp add: util_join_path_def) (simp add: path_of_def)
qed (simp add: path_of_def util_join_path_def)

lemma clean_segments_nonempty: "\<forall>s\<in>set segs. clean_segment s \<Longrightarrow> \<forall>s\<in>set segs. s \<noteq> []"
  by (auto simp: clean_segment_def)

lemma split_path_of:
  assumes "segs \<noteq> []" "\<forall>s\<in>set segs. slash \<notin> set s"
  shows "split_on slash (path_of segs) = [] # segs"
  using assms by (simp add: path_of_def split_on_join)

lemma path_of_append:
  "segs \<noteq> [] \<Longrightarrow> more \<noteq> [] \<Longrightarrow> path_of (segs @ more) = path_of segs @ slash # join_with [slash] more"
proof -
  assume *: "segs \<noteq> []" "more \<noteq> []"
  then have "join_with [slash] (segs @ more) = join_with [slash] segs @ slash # join_with [slash] more"
    by (induction segs rule: induct_list012) (auto simp: join_with_Cons)
  then show ?thesis using * by (simp add: path_of_def)
qed

lemma parent_path_of_snoc:
  "slash \<notin> set s \<Longrightarrow> s \<noteq> [] \<Longrightarrow> parent_path_from (path_of (segs @ [s])) = path_of segs"
proof (cases "segs = []")
  case True
  assume s: "slash \<notin> set s"
  have "rsplit_once slash ([] @ slash # s) = Some ([], s)" using s by (rule rsplit_once_append)
  then show ?thesis using True by (simp add: path_of_def parent_path_from_def)
next
  case False
  assume s: "slash \<notin> set s"
  have "path_of (segs @ [s]) = path_of segs @ slash # s"
    using path_of_append [OF False, of "[s]"] by simp
  then have "rsplit_once slash (path_of (segs @ [s])) = Some (path_of segs, s)"
    using s by (simp add: rsplit_once_append)
  then show ?thesis by (simp add: parent_path_from_def split: list.split)
qed

lemma last_path_of:
  assumes "segs \<noteq> []" "\<forall>s\<in>set segs. clean_segment s"
  shows "trim_end_matches [slash] (path_of segs) = path_of segs"
proof -
  obtain ini s where segs: "segs = ini @ [s]" using assms(1) by (cases segs rule: rev_cases) auto
  then have s: "s \<noteq> []" "slash \<notin> set s" using assms(2) by (auto simp: clean_segment_def)
  obtain w where w: "path_of segs = w @ s"
    using path_of_snoc [of ini s] segs assms(2)
    by (auto simp: util_join_path_def clean_segment_def split: if_splits)
  then show ?thesis
    using s by (cases s rule: rev_cases) (auto simp: trim_end_matches_def)
qed

text \<open>On canonical paths the textual test \<open>is_self_or_subpath\<close> is the segment-wise prefix test.\<close>

lemma is_self_or_subpath_path_of:
  assumes a: "\<forall>s\<in>set a. clean_segment s" and b: "\<forall>s\<in>set b. clean_segment s"
  shows "is_self_or_subpath (path_of a) (path_of b) \<longleftrightarrow> prefix a b"
proof (cases "a = []")
  case True
  then show ?thesis using path_of_starts [of b]
    by (simp add: is_self_or_subpath_def path_of_def [of "[]"])
next
  case False
  then have ne: "path_of a \<noteq> [slash]"
    using path_of_root_iff [OF clean_segments_nonempty [OF a]] by simp
  have pre: "is_self_or_subpath (path_of a) (path_of b) \<longleftrightarrow>
      path_of b = path_of a \<or> starts_with (path_of b) (path_of a @ [slash])"
    using ne last_path_of [OF False a] by (auto simp: is_self_or_subpath_def Let_def)
  have no_a: "\<forall>s\<in>set a. slash \<notin> set s" and no_b: "\<forall>s\<in>set b. slash \<notin> set s"
    using a b by (auto simp: clean_segment_def)
  show ?thesis
  proof
    assume "is_self_or_subpath (path_of a) (path_of b)"
    then consider "path_of b = path_of a" | t where "path_of b = path_of a @ slash # t"
      using pre by (auto simp: starts_with_iff)
    then show "prefix a b"
    proof cases
      case 1
      have "b \<noteq> []" using 1 ne by (auto simp: path_of_def)
      then show ?thesis
        using split_path_of [OF False no_a] split_path_of [of b] no_b 1 by simp
    next
      case (2 t)
      have b0: "b \<noteq> []" using 2 by (auto simp: path_of_def split: if_splits)
      have "[] # b = split_on slash (path_of a @ slash # t)"
        using split_path_of [OF b0 no_b] 2 by simp
      also have "\<dots> = ([] # a) @ split_on slash t"
        by (simp add: split_on_append split_path_of [OF False no_a])
      finally show ?thesis by simp
    qed
  next
    assume "prefix a b"
    then obtain more where b': "b = a @ more" by (auto simp: prefix_def)
    show "is_self_or_subpath (path_of a) (path_of b)"
      using b' False pre path_of_append [of a more] by (cases "more = []") (auto simp: starts_with_iff)
  qed
qed

lemma rfold_canon_prefix:
  assumes "rfold canon_step cs st = Inr out" "ParentDir \<notin> set cs"
  shows "prefix st out"
proof (rule rfold_invariant [OF assms(1), where P = "prefix st"])
  fix c u v
  assume *: "c \<in> set cs" "prefix st u" "canon_step c u = Inr v"
  show "prefix st v" by (cases c) (use * assms(2) in \<open>auto split: if_splits\<close>)
qed simp

lemma ParentDir_segment: "ParentDir \<in> set (concat (map segment_component segs)) \<Longrightarrow> ''..'' \<in> set segs"
  by (auto split: if_splits)

lemma split_on_trim_start: "set (split_on c (trim_start_matches [c] s)) \<subseteq> set (split_on c s)"
  by (induction s) (auto simp: trim_start_matches_def)

lemma components_join:
  assumes "\<forall>s\<in>set segs. clean_segment s"
  shows "components (if path_of segs = [slash] then slash # rel else path_of segs @ slash # rel) =
    RootDir # map Normal segs @ concat (map segment_component (split_on slash rel))"
proof (cases "segs = []")
  case True
  then show ?thesis by (simp add: path_of_def components_def starts_with_def)
next
  case False
  have no: "\<forall>s\<in>set segs. slash \<notin> set s" using assms by (auto simp: clean_segment_def)
  have "starts_with (path_of segs @ slash # rel) [slash]"
    using path_of_starts [of segs] by (auto simp: starts_with_iff)
  then show ?thesis
    using False path_of_root_iff [OF clean_segments_nonempty [OF assms]] assms
    by (simp add: components_def split_on_append split_path_of [OF False no]
        concat_segment_component_clean)
qed

section \<open>Properties\<close>

text \<open>
  C32: a path that \<open>canonicalize_path\<close> accepts comes out canonical (no empty, \<open>.\<close> or \<open>..\<close>
  segment, no forbidden character), is not longer than the input, and is a fixed point.
\<close>

theorem canonicalize_path_sound:
  assumes "canonicalize_path p = Inr q"
  shows "canonical_path q \<and> length q \<le> length p \<and> canonicalize_path q = Inr q"
proof -
  obtain segs where q: "q = path_of segs" "\<forall>s\<in>set segs. clean_segment s" "length p \<le> MAX_PATH_LEN"
    using assms by (rule canonicalize_path_cases)
  moreover have "length q \<le> length p" using assms by (rule canonicalize_path_length)
  ultimately show ?thesis
    using canonicalize_path_of [of segs] unfolding canonical_path_def by auto
qed

theorem canonicalize_path_sound_witness:
  "canonicalize_path ''/a/./b/../c'' = Inr ''/a/c'' \<and> canonical_path ''/a/c'' \<and>
   canonicalize_path ''/a/c'' = Inr ''/a/c''"
proof -
  have h: "canonicalize_path ''/a/./b/../c'' = Inr ''/a/c''" by code_simp
  show ?thesis using h canonicalize_path_sound [OF h] by simp
qed

text \<open>
  Here \<open>..\<close> means the parent directory. Appending \<open>/..\<close> to an accepted path yields the parent of
  its canonical form, and an error when the canonical form is already the root.
\<close>

theorem canonicalize_path_parent:
  assumes "canonicalize_path p = Inr q" "length p + 3 \<le> MAX_PATH_LEN"
  shows "canonicalize_path (p @ ''/..'') =
    (if q = [slash] then Inl ''path traversal beyond root'' else Inr (parent_path_from q))"
proof -
  obtain segs where f: "rfold canon_step (components p) [] = Inr segs" and q: "q = path_of segs"
    and clean: "\<forall>s\<in>set segs. clean_segment s"
    and p: "p \<noteq> []" "starts_with p [slash]" "CHR 0x00 \<notin> set p"
    using assms(1) by (rule canonicalize_path_cases)
  have sw: "starts_with (p @ ''/..'') [slash]" using p by (auto simp: starts_with_iff)
  have "components (p @ ''/..'') = components p @ [ParentDir]"
    using p sw by (simp add: components_def split_on_append Let_def)
  then have fold: "rfold canon_step (components (p @ ''/..'')) [] = canon_step ParentDir segs"
    using f by (simp add: rfold_append)
  have root: "q = [slash] \<longleftrightarrow> segs = []"
    using q path_of_root_iff [OF clean_segments_nonempty [OF clean]] by simp
  have par: "segs \<noteq> [] \<Longrightarrow> parent_path_from q = path_of (butlast segs)"
    using q clean parent_path_of_snoc [of "last segs" "butlast segs"] last_in_set [of segs]
    by (auto simp: clean_segment_def)
  show ?thesis
    using assms(2) p sw fold root par
    by (simp add: canonicalize_path_def contains_any_iff path_of_def)
qed

theorem canonicalize_path_parent_witness:
  "canonicalize_path ''/a/b/..'' = Inr ''/a'' \<and>
   canonicalize_path ''//..'' = Inl ''path traversal beyond root''"
proof -
  have h1: "canonicalize_path ''/a/b'' = Inr ''/a/b''" by code_simp
  have h2: "canonicalize_path ''/'' = Inr ''/''" by code_simp
  have l: "length ''/a/b'' + 3 \<le> MAX_PATH_LEN" "length ''/'' + 3 \<le> MAX_PATH_LEN"
    by (simp_all add: MAX_PATH_LEN_def)
  have par: "parent_path_from ''/a/b'' = ''/a''" by code_simp
  show ?thesis
    using canonicalize_path_parent [OF h1 l(1)] canonicalize_path_parent [OF h2 l(2)] par by simp
qed

text \<open>
  A name that \<open>validate_filename\<close> accepts is a clean path segment, so joining it below a
  directory names exactly that child, provided it is not blank and the path stays short enough.
\<close>

theorem validate_filename_join:
  assumes "validate_filename n = Inr ()" "canonicalize_path base = Inr q" "trim n \<noteq> []"
    "length q + length n < MAX_PATH_LEN"
  shows "clean_segment n \<and> safe_join_path base n = Inr (util_join_path q n) \<and>
    parent_path_from (util_join_path q n) = q"
proof -
  have n: "clean_segment n"
    using assms(1) by (auto simp: validate_filename_def clean_segment_def contains_any_iff split: if_splits)
  obtain segs where q: "q = path_of segs" and clean: "\<forall>s\<in>set segs. clean_segment s"
    using assms(2) by (rule canonicalize_path_cases)
  have n': "n \<noteq> []" "slash \<notin> set n" using n by (auto simp: clean_segment_def)
  then have ts: "trim_start_matches [slash] n = n"
    by (cases n) (auto simp: trim_start_matches_def)
  have j: "util_join_path q n = path_of (segs @ [n])" 
    using q path_of_snoc [OF clean_segments_nonempty [OF clean]] by simp
  have "length (path_of (segs @ [n])) \<le> MAX_PATH_LEN"
    using assms(4) j [symmetric] by (auto simp: util_join_path_def)
  then have "canonicalize_path (util_join_path q n) = Inr (util_join_path q n)"
    using canonicalize_path_of [of "segs @ [n]"] clean n j by simp
  then have "safe_join_path base n = Inr (util_join_path q n)"
    using assms(2,3) ts by (simp add: safe_join_path_def util_join_path_def Let_def)
  then show ?thesis using n parent_path_of_snoc [OF n'(2,1), of segs] q j by simp
qed

theorem validate_filename_join_witness:
  "validate_filename ''r.txt'' = Inr () \<and> safe_join_path ''/docs/'' ''r.txt'' = Inr ''/docs/r.txt''"
proof -
  have h1: "validate_filename ''r.txt'' = Inr ()" by code_simp
  have h2: "canonicalize_path ''/docs/'' = Inr ''/docs''" by code_simp
  have h3: "trim ''r.txt'' \<noteq> []" by code_simp
  have h4: "length ''/docs'' + length ''r.txt'' < MAX_PATH_LEN" by (simp add: MAX_PATH_LEN_def)
  show ?thesis
    using h1 validate_filename_join [OF h1 h2 h3 h4] by (simp add: util_join_path_def)
qed

text \<open>
  Joining a relative path that has no \<open>..\<close> segment stays inside the base directory, as
  \<open>is_self_or_subpath\<close> decides it.
\<close>

theorem safe_join_path_below:
  assumes "canonicalize_path base = Inr q" "safe_join_path base rel = Inr r"
    "''..'' \<notin> set (split_on slash rel)"
  shows "is_self_or_subpath q r"
proof (cases "trim rel = []")
  case True
  then show ?thesis using assms by (simp add: safe_join_path_def is_self_or_subpath_def)
next
  case False
  obtain segs where q: "q = path_of segs" and clean: "\<forall>s\<in>set segs. clean_segment s"
    using assms(1) by (rule canonicalize_path_cases)
  define rel' where "rel' = trim_start_matches [slash] rel"
  have "canonicalize_path (if path_of segs = [slash] then slash # rel' else path_of segs @ slash # rel')
      = Inr r"
    using assms(1,2) False q 
    by (simp add: safe_join_path_def rel'_def Let_def split: if_splits)
  then obtain out where out: "rfold canon_step (RootDir # map Normal segs @
        concat (map segment_component (split_on slash rel'))) [] = Inr out"
    and r: "r = path_of out" and clean': "\<forall>s\<in>set out. clean_segment s"
    by (rule canonicalize_path_cases) (simp only: components_join [OF clean])
  have "ParentDir \<notin> set (concat (map segment_component (split_on slash rel')))"
    using assms(3) ParentDir_segment [of "split_on slash rel'"] split_on_trim_start [of slash rel]
    unfolding rel'_def by blast
  moreover have "rfold canon_step (concat (map segment_component (split_on slash rel'))) segs = Inr out"
    using out rfold_canon_clean [OF clean, of "[]"] by (simp add: rfold_append)
  ultimately have "prefix segs out" by (intro rfold_canon_prefix)
  then show ?thesis using is_self_or_subpath_path_of [OF clean clean'] q r by simp
qed

theorem safe_join_path_below_witness:
  "safe_join_path ''/a'' ''/b//c/'' = Inr ''/a/b/c'' \<and> is_self_or_subpath ''/a'' ''/a/b/c''"
proof -
  have h1: "canonicalize_path ''/a'' = Inr ''/a''" by code_simp
  have h2: "safe_join_path ''/a'' ''/b//c/'' = Inr ''/a/b/c''" by code_simp
  have h3: "''..'' \<notin> set (split_on slash ''/b//c/'')" by code_simp
  show ?thesis using h2 safe_join_path_below [OF h1 h2 h3] by simp
qed

end
