(* ===== verification/Commit.thy ===== *)
theory Commit
  imports FsObject
begin

text \<open>
  Commits and the HEAD of a library: \<open>CommitData\<close> of \<open>base/src/common.rs\<close>, the commit id of
  \<open>server/src/domain/commit.rs\<close>, the \<open>commits\<close> and \<open>repos\<close> tables with the columns the modelled
  operations use, and the compare-and-swap on HEAD of \<open>server/src/repository/repo.rs\<close>.

  The tables are maps: \<open>commits\<close> by its unique index \<open>(repo_id, commit_id)\<close>, \<open>repos\<close> by its
  primary key. \<open>t_published\<close> is the sequence of repo-update broadcasts the server has sent. One
  SQL statement is one atomic step.
\<close>

section \<open>Commit data and ids\<close>

record CommitData =
  cd_commit_id :: string
  cd_repo_id :: string
  cd_root_id :: string
  cd_creator_name :: string
  cd_creator :: string
  cd_description :: string
  cd_ctime :: int
  cd_parent_id :: "string option"
  cd_second_parent_id :: "string option"
  cd_repo_name :: "string option"
  cd_repo_desc :: "string option"
  cd_repo_category :: "string option"
  cd_encrypted :: "string option"
  cd_enc_version :: "int option"
  cd_magic :: "string option"
  cd_key :: "string option"
  cd_salt :: "string option"
  cd_pwd_hash :: "string option"
  cd_pwd_hash_algo :: "string option"
  cd_pwd_hash_params :: "string option"
  cd_version :: int
  cd_conflict :: "int option"
  cd_new_merge :: "int option"

abbreviation NUL :: char where "NUL \<equiv> CHR 0x00"

text \<open>The low \<open>n\<close> bytes of an integer in two's complement, most significant first;
  \<open>i64::to_be_bytes\<close> is the case of eight bytes.\<close>

fun be_bytes :: "nat \<Rightarrow> int \<Rightarrow> string" where
  "be_bytes 0 c = []"
| "be_bytes (Suc n) c = be_bytes n (c div 256) @ [char_of (c mod 256)]"

definition compute_commit_id_with_empty_name :: "externs \<Rightarrow> CommitData \<Rightarrow> bool \<Rightarrow> string" where
  "compute_commit_id_with_empty_name x data include_empty_name =
     sha1_hex x (cd_root_id data @ [NUL] @ cd_creator data @ [NUL] @
       (if cd_creator_name data \<noteq> [] \<or> include_empty_name then cd_creator_name data @ [NUL] else []) @
       cd_description data @ [NUL] @ be_bytes 8 (cd_ctime data))"

definition compute_commit_id :: "externs \<Rightarrow> CommitData \<Rightarrow> string" where
  "compute_commit_id x data = compute_commit_id_with_empty_name x data False"

text \<open>The struct literal every server-side commit starts from: the fields the caller fills, the rest
  \<open>None\<close> and the id still empty.\<close>

definition mk_commit :: "string \<Rightarrow> string \<Rightarrow> string \<Rightarrow> string \<Rightarrow> string \<Rightarrow> int \<Rightarrow> string option \<Rightarrow> int \<Rightarrow> CommitData" where
  "mk_commit repo_id root_id creator_name creator description ctime parent_id version =
     \<lparr>cd_commit_id = [], cd_repo_id = repo_id, cd_root_id = root_id, cd_creator_name = creator_name,
      cd_creator = creator, cd_description = description, cd_ctime = ctime, cd_parent_id = parent_id,
      cd_second_parent_id = None, cd_repo_name = None, cd_repo_desc = None, cd_repo_category = None,
      cd_encrypted = None, cd_enc_version = None, cd_magic = None, cd_key = None, cd_salt = None,
      cd_pwd_hash = None, cd_pwd_hash_algo = None, cd_pwd_hash_params = None, cd_version = version,
      cd_conflict = None, cd_new_merge = None\<rparr>"

section \<open>Tables\<close>

record repo_row =
  rp_owner_id :: int
  rp_head_commit_id :: "string option"
  rp_size :: int
  rp_version :: int
  rp_updated_at :: int

record commit_row =
  cm_commit_id :: string
  cm_root_id :: string
  cm_parent_id :: "string option"
  cm_second_parent_id :: "string option"
  cm_creator_name :: string
  cm_creator :: string
  cm_description :: string
  cm_ctime :: int
  cm_version :: int
  cm_new_merge :: "bool option"
  cm_conflict :: "bool option"

record tables =
  t_objects :: fs_objects
  t_commits :: "string \<times> string \<Rightarrow> commit_row option"
  t_repos :: "string \<Rightarrow> repo_row option"
  t_published :: "(string \<times> string) list"

text \<open>A plain \<open>INSERT\<close> into \<open>commits\<close>: a second row with the same key violates the unique index and
  surfaces as \<open>AppError::Internal\<close> with the driver's text, the argument \<open>unique_err\<close>.\<close>

definition insert_commit :: "string \<Rightarrow> string \<Rightarrow> commit_row \<Rightarrow> tables \<Rightarrow> unit result \<times> tables" where
  "insert_commit unique_err repo_id row t =
     (case t_commits t (repo_id, cm_commit_id row) of
        Some _ \<Rightarrow> (Inl (Internal unique_err), t)
      | None \<Rightarrow> (Inr (), t\<lparr>t_commits := (t_commits t)((repo_id, cm_commit_id row) \<mapsto> row)\<rparr>))"

definition normalized_updated_at :: "int \<Rightarrow> int \<Rightarrow> int" where
  "normalized_updated_at now updated_at = (if updated_at = 0 then now else updated_at)"

text \<open>\<open>UPDATE repos SET head_commit_id, updated_at WHERE id = ? AND head_commit_id = ?\<close> (\<open>IS NULL\<close>
  for no HEAD), and whether a row matched.\<close>

definition test_and_update_head_commit ::
    "int \<Rightarrow> string \<Rightarrow> string option \<Rightarrow> string \<Rightarrow> int \<Rightarrow> tables \<Rightarrow> bool \<times> tables" where
  "test_and_update_head_commit now repo_id from_id to_id updated_at t =
     (case t_repos t repo_id of
        None \<Rightarrow> (False, t)
      | Some rp \<Rightarrow>
          if rp_head_commit_id rp = from_id
          then (True, t\<lparr>t_repos := (t_repos t)(repo_id \<mapsto>
                  rp\<lparr>rp_head_commit_id := Some to_id, rp_updated_at := normalized_updated_at now updated_at\<rparr>)\<rparr>)
          else (False, t))"

definition head_of :: "tables \<Rightarrow> string \<Rightarrow> string option option" where
  "head_of t r = map_option rp_head_commit_id (t_repos t r)"

section \<open>Compare-and-swap\<close>

text \<open>
  A cell that holds at most one value and changes by compare-and-swap. Attempts that all expect
  the same value race: the first one wins and the others leave the state as it is.
\<close>

fun cas_race :: "('n \<Rightarrow> 's \<Rightarrow> bool \<times> 's) \<Rightarrow> 'n list \<Rightarrow> 's \<Rightarrow> bool list \<times> 's" where
  "cas_race f [] s = ([], s)"
| "cas_race f (n # ns) s = (let (b, s) = f n s; (bs, s) = cas_race f ns s in (b # bs, s))"

locale cas_cell =
  fixes cell :: "'s \<Rightarrow> 'v option"
    and swap :: "'v \<Rightarrow> 'n \<Rightarrow> 's \<Rightarrow> bool \<times> 's"
    and written :: "'n \<Rightarrow> 'v"
  assumes swap_hit: "cell s = Some a \<Longrightarrow> fst (swap a n s) \<and> cell (snd (swap a n s)) = Some (written n)"
    and swap_miss: "cell s \<noteq> Some a \<Longrightarrow> swap a n s = (False, s)"
begin

lemma race_lost: "cell s \<noteq> Some a \<Longrightarrow> cas_race (swap a) ns s = (replicate (length ns) False, s)"
  by (induction ns) (simp_all add: swap_miss)

lemma race_won:
  assumes "cell s = Some a" "written n \<noteq> a"
  shows "cas_race (swap a) (n # ns) s = (True # replicate (length ns) False, snd (swap a n s)) \<and>
    cell (snd (swap a n s)) = Some (written n)"
proof -
  obtain b s' where s': "swap a n s = (b, s')" by fastforce
  have "b" "cell s' = Some (written n)" using swap_hit [OF assms(1), of n] s' by auto
  moreover have "cas_race (swap a) ns s' = (replicate (length ns) False, s')"
    by (rule race_lost) (use calculation assms(2) in simp)
  ultimately show ?thesis using s' by simp
qed

end

interpretation head: cas_cell "\<lambda>t. head_of t r"
    "\<lambda>from_id (to_id, at) t. test_and_update_head_commit now r from_id to_id at t"
    "\<lambda>(to_id, at). Some to_id" for r now
  by unfold_locales
    (auto simp: head_of_def test_and_update_head_commit_def split: option.splits)

text \<open>
  Of any number of commits that were computed from the same HEAD and race to become the next
  one, exactly the first compare-and-swap succeeds; every later one is refused and changes
  nothing, so no HEAD that was moved in between is overwritten.
\<close>

theorem head_single_winner:
  assumes "head_of t r = Some from_id" and "Some to_id \<noteq> from_id"
  shows "cas_race (\<lambda>(to_id, at). test_and_update_head_commit now r from_id to_id at) ((to_id, at) # ns) t =
      (True # replicate (length ns) False, snd (test_and_update_head_commit now r from_id to_id at t)) \<and>
    head_of (snd (test_and_update_head_commit now r from_id to_id at t)) r = Some (Some to_id)"
  using head.race_won [of t r from_id "(to_id, at)" now ns] assms by (simp add: case_prod_unfold)

definition demo_row :: "string option \<Rightarrow> repo_row" where
  "demo_row h = \<lparr>rp_owner_id = 1, rp_head_commit_id = h, rp_size = 0, rp_version = 1, rp_updated_at = 5\<rparr>"

definition demo_tables :: tables where
  "demo_tables = \<lparr>t_objects = Map.empty, t_commits = Map.empty,
     t_repos = [''r'' \<mapsto> demo_row (Some ''c0'')], t_published = []\<rparr>"

theorem head_single_winner_witness:
  "fst (cas_race (\<lambda>(to_id, at). test_and_update_head_commit 9 ''r'' (Some ''c0'') to_id at)
     [(''c1'', 7), (''c2'', 8), (''c3'', 9)] demo_tables) = [True, False, False]"
proof -
  have h: "head_of demo_tables ''r'' = Some (Some ''c0'')"
    by (simp add: head_of_def demo_tables_def demo_row_def)
  show ?thesis
    using head_single_winner [OF h, of "''c1''" 9 7 "[(''c2'', 8), (''c3'', 9)]"] by (simp add: numeral_eq_Suc)
qed

section \<open>What a commit id covers\<close>

lemma length_be_bytes [simp]: "length (be_bytes n c) = n"
  by (induction n arbitrary: c) auto

lemma char_of_int_inj:
  assumes "char_of (a mod 256) = char_of (b mod 256)"
  shows "a mod 256 = (b :: int) mod 256"
  using arg_cong [OF assms, of "of_char :: char \<Rightarrow> int"] by simp

lemma be_bytes_inj: "be_bytes n c = be_bytes n c' \<Longrightarrow> c mod 256 ^ n = c' mod 256 ^ n"
proof (induction n arbitrary: c c')
  case (Suc n)
  have split: "k mod 256 ^ Suc n = 256 * ((k div 256) mod 256 ^ n) + k mod 256" for k :: int
    using zmod_zmult2_eq [of "256 ^ n" k 256] by (simp add: power_Suc)
  have "be_bytes n (c div 256) = be_bytes n (c' div 256)"
    and "char_of (c mod 256) = char_of (c' mod 256)" using Suc.prems by simp_all
  then show ?case using Suc.IH [of "c div 256" "c' div 256"] char_of_int_inj [of c c']
    by (simp only: split)
qed simp

lemma be_bytes_i64_inj:
  assumes "be_bytes 8 c = be_bytes 8 c'" "i64_min \<le> c" "c \<le> i64_max" "i64_min \<le> c'" "c' \<le> i64_max"
  shows "c = c'"
proof -
  have "c mod 2 ^ 64 = c' mod 2 ^ 64" using be_bytes_inj [OF assms(1)] by simp
  then obtain k where k: "c - c' = 2 ^ 64 * k" unfolding mod_eq_dvd_iff by (elim dvdE)
  then have "k = 0" using assms(2-) by simp
  then show ?thesis using k by simp
qed

text \<open>A sequence of fields, each closed by a NUL byte, determines the fields.\<close>

definition nul_fields :: "string list \<Rightarrow> string" where
  "nul_fields fs = concat (map (\<lambda>f. f @ [NUL]) fs)"

lemma nul_fields_inj:
  "nul_fields fs = nul_fields gs \<Longrightarrow> (\<forall>f\<in>set fs. NUL \<notin> set f) \<Longrightarrow> (\<forall>g\<in>set gs. NUL \<notin> set g) \<Longrightarrow> fs = gs"
proof (induction fs arbitrary: gs)
  case Nil
  then show ?case by (cases gs) (auto simp: nul_fields_def)
next
  case (Cons f fs)
  then obtain g gs' where gs: "gs = g # gs'" by (cases gs) (auto simp: nul_fields_def)
  then have eq: "f @ NUL # nul_fields fs = g @ NUL # nul_fields gs'"
    using Cons.prems by (simp add: nul_fields_def)
  then have "split_on NUL (f @ NUL # nul_fields fs) = split_on NUL (g @ NUL # nul_fields gs')" by simp
  then have "f = g" using Cons.prems gs by (simp add: split_on_append_sep)
  with eq Cons.IH [of gs'] Cons.prems gs show ?case by simp
qed

definition commit_fields :: "CommitData \<Rightarrow> string list" where
  "commit_fields d = [cd_root_id d, cd_creator d] @
     (if cd_creator_name d = [] then [] else [cd_creator_name d]) @ [cd_description d]"

lemma compute_commit_id_fields:
  "compute_commit_id x d = sha1_hex x (nul_fields (commit_fields d) @ be_bytes 8 (cd_ctime d))"
  by (simp add: compute_commit_id_def compute_commit_id_with_empty_name_def nul_fields_def commit_fields_def)

definition commit_wf :: "CommitData \<Rightarrow> bool" where
  "commit_wf d \<longleftrightarrow> (\<forall>f\<in>set (commit_fields d). NUL \<notin> set f) \<and> i64_min \<le> cd_ctime d \<and> cd_ctime d \<le> i64_max"

text \<open>
  A commit id identifies what it hashes: as long as SHA-1 does not collide on the two inputs
  and no field contains a NUL byte, equal ids mean equal root, creator, creator name, description
  and time, also across the omitted empty name.
\<close>

theorem commit_id_identifies:
  assumes "compute_commit_id x d = compute_commit_id x d'" and "commit_wf d" "commit_wf d'"
    and collision_free: "inj_on (sha1_hex x) ((\<lambda>d. nul_fields (commit_fields d) @ be_bytes 8 (cd_ctime d)) ` {d, d'})"
  shows "cd_root_id d = cd_root_id d' \<and> cd_creator d = cd_creator d' \<and>
    cd_creator_name d = cd_creator_name d' \<and> cd_description d = cd_description d' \<and>
    cd_ctime d = cd_ctime d'"
proof -
  have eq: "nul_fields (commit_fields d) @ be_bytes 8 (cd_ctime d) =
      nul_fields (commit_fields d') @ be_bytes 8 (cd_ctime d')"
    by (rule inj_onD [OF collision_free])
      (use assms(1) in \<open>simp_all only: compute_commit_id_fields image_insert image_empty insert_iff simp_thms\<close>)
  then have "be_bytes 8 (cd_ctime d) = be_bytes 8 (cd_ctime d')"
    and f: "nul_fields (commit_fields d) = nul_fields (commit_fields d')"
    using append_eq_append_conv length_be_bytes by metis+
  then have "cd_ctime d = cd_ctime d'"
    using assms(2,3) by (intro be_bytes_i64_inj) (simp_all add: commit_wf_def)
  moreover have "commit_fields d = commit_fields d'"
    using f assms(2,3) by (intro nul_fields_inj) (simp_all add: commit_wf_def)
  ultimately show ?thesis
    by (cases "cd_creator_name d = []"; cases "cd_creator_name d' = []") (simp_all add: commit_fields_def)
qed

theorem commit_id_identifies_witness:
  "let d = mk_commit ''r'' ''R'' [] ''0'' ''Added a'' 7 None 1;
       d' = mk_commit ''r'' ''R'' [] ''0'' ''Added a'' 7 (Some ''p'') 1 in
   compute_commit_id (demo_externs []) d = compute_commit_id (demo_externs []) d' \<and>
   cd_description d = cd_description d'"
proof -
  let ?d = "mk_commit ''r'' ''R'' [] ''0'' ''Added a'' 7 None 1"
  let ?d' = "mk_commit ''r'' ''R'' [] ''0'' ''Added a'' 7 (Some ''p'') 1"
  have eq: "compute_commit_id (demo_externs []) ?d = compute_commit_id (demo_externs []) ?d'"
    by (simp add: compute_commit_id_fields commit_fields_def mk_commit_def)
  have wf: "commit_wf ?d" "commit_wf ?d'" by (simp_all add: commit_wf_def commit_fields_def mk_commit_def)
  have inj: "inj_on (sha1_hex (demo_externs []))
      ((\<lambda>d. nul_fields (commit_fields d) @ be_bytes 8 (cd_ctime d)) ` {?d, ?d'})"
    by (auto intro: inj_onI)
  show ?thesis using eq commit_id_identifies [OF eq wf inj] by (simp add: Let_def)
qed

end
