(* ===== verification/TreeSize.thy ===== *)
theory TreeSize
  imports Traversal Tree Sanitize Commit
begin

text \<open>
  Sizes of trees and entries, \<open>server/src/fs/core/size.rs\<close>, over the tables they read:
  \<open>repos\<close> and \<open>commits\<close> beside \<open>fs_objects\<close>.
\<close>

section \<open>Definitions\<close>

fun size_entries :: "DirEntryData list \<Rightarrow> string list \<times> int \<Rightarrow> string list \<times> int" where
  "size_entries [] acc = acc"
| "size_entries (entry # es) (nexts, tot) =
     size_entries es (if has_dir_bit (de_mode entry) then (nexts @ [de_id entry], tot)
                      else (nexts, i64_wrap (tot + de_size entry)))"

fun size_frontier ::
    "(string \<times> FsDirData) list \<Rightarrow> string list \<Rightarrow> string list \<times> int \<Rightarrow> string list \<times> int" where
  "size_frontier dir_map [] acc = acc"
| "size_frontier dir_map (fs_id # ids) acc =
     size_frontier dir_map ids
       (case map_of dir_map fs_id of None \<Rightarrow> acc | Some d \<Rightarrow> size_entries (dirents d) acc)"

definition size_level ::
    "externs \<Rightarrow> fs_objects \<Rightarrow> string \<Rightarrow> string list \<Rightarrow> int \<Rightarrow> (string list \<times> int) result" where
  "size_level x db repo_id frontier tot =
     rbind (read_fs_dir_data_batch x db repo_id frontier) (\<lambda>dir_map.
       Inr (size_frontier dir_map frontier ([], tot)))"

definition compute_tree_size ::
    "tree_limits \<Rightarrow> externs \<Rightarrow> fs_objects \<Rightarrow> string \<Rightarrow> string \<Rightarrow> int result" where
  "compute_tree_size lim x db repo_id root_fs_id =
     (if root_fs_id = EMPTY_SHA1 then Inr 0
      else bfs lim (size_level x db repo_id) new_guard [root_fs_id] 0)"

definition compute_repo_size :: "tree_limits \<Rightarrow> externs \<Rightarrow> tables \<Rightarrow> string \<Rightarrow> int result" where
  "compute_repo_size lim x t repo_id =
     rbind (ok_or (NotFound ''repo not found'') (t_repos t repo_id)) (\<lambda>repo_record.
       (case rp_head_commit_id repo_record of
          None \<Rightarrow> Inr 0
        | Some head_commit_id \<Rightarrow>
            rbind (ok_or (NotFound ''head commit not found'') (t_commits t (repo_id, head_commit_id)))
              (\<lambda>head. compute_tree_size lim x (t_objects t) repo_id (cm_root_id head))))"

text \<open>\<open>UPDATE repos SET size = MAX(0, size + delta)\<close>.\<close>

definition adjust_size :: "string \<Rightarrow> int \<Rightarrow> tables \<Rightarrow> tables" where
  "adjust_size repo_id delta t =
     t\<lparr>t_repos := (\<lambda>i. if i = repo_id
        then map_option (\<lambda>rp. rp\<lparr>rp_size := max 0 (rp_size rp + delta)\<rparr>) (t_repos t i)
        else t_repos t i)\<rparr>"

definition adjust_repo_size :: "tree_limits \<Rightarrow> externs \<Rightarrow> string \<Rightarrow> int \<Rightarrow> tables \<Rightarrow> tables result" where
  "adjust_repo_size lim x repo_id delta t =
     rbind (ok_or (NotFound ''repo not found'') (t_repos t repo_id)) (\<lambda>r.
       if rp_size r = 0
       then rbind (compute_repo_size lim x t repo_id) (\<lambda>size. Inr (adjust_size repo_id size t))
       else Inr (adjust_size repo_id delta t))"

definition resolve_dirent :: "externs \<Rightarrow> tables \<Rightarrow> string \<Rightarrow> string \<Rightarrow> DirEntryData option result" where
  "resolve_dirent x t repo_id path =
     (let parent_path = (case rsplit_once slash path of
            Some ([], _) \<Rightarrow> [slash] | Some (parent, _) \<Rightarrow> parent | None \<Rightarrow> [slash]);
          name = basename path
      in
      rbind (ok_or (NotFound ''repo not found'') (t_repos t repo_id)) (\<lambda>repo_record.
      rbind (ok_or (NotFound ''no commits yet'') (rp_head_commit_id repo_record)) (\<lambda>head_commit_id.
      rbind (ok_or (NotFound ''head commit not found'') (t_commits t (repo_id, head_commit_id))) (\<lambda>head.
      rbind (map_err (\<lambda>e. Internal (''resolve parent failed: '' @ display_error e))
               (resolve_fs_id x (t_objects t) repo_id (cm_root_id head) parent_path)) (\<lambda>parent_fs_id.
      rbind (map_err (\<lambda>e. Internal (''read dir failed: '' @ display_error e))
               (read_fs_dir_data x (t_objects t) repo_id parent_fs_id)) (\<lambda>dir_data.
      Inr (find_entry name dir_data)))))))"

definition get_entry_total_size ::
    "tree_limits \<Rightarrow> externs \<Rightarrow> tables \<Rightarrow> string \<Rightarrow> string \<Rightarrow> int result" where
  "get_entry_total_size lim x t repo_id path =
     rbind (resolve_dirent x t repo_id path) (\<lambda>found.
       rbind (ok_or (NotFound ''entry not found'') found) (\<lambda>entry.
         if has_dir_bit (de_mode entry)
         then compute_tree_size lim x (t_objects t) repo_id (de_id entry)
         else Inr (de_size entry)))"

definition entry_exists :: "externs \<Rightarrow> tables \<Rightarrow> string \<Rightarrow> string \<Rightarrow> bool" where
  "entry_exists x t repo_id path =
     (case resolve_dirent x t repo_id path of Inr (Some _) \<Rightarrow> True | _ \<Rightarrow> False)"

section \<open>The size of a tree, recursively\<close>

text \<open>
  The reference: the sum of the file sizes below an object, following directories down to a given
  number of levels. A directory shared by several parents counts once per parent; an id that does
  not read as a directory counts nothing.
\<close>

fun tree_size :: "externs \<Rightarrow> fs_objects \<Rightarrow> string \<Rightarrow> nat \<Rightarrow> string \<Rightarrow> int" where
  "tree_size x db r 0 i = 0"
| "tree_size x db r (Suc n) i =
     (if i = EMPTY_SHA1 then 0
      else (case read_fs_dir_data x db r i of
              Inl _ \<Rightarrow> 0
            | Inr d \<Rightarrow> (\<Sum>e\<leftarrow>dirents d. if has_dir_bit (de_mode e) then tree_size x db r n (de_id e)
                                       else de_size e)))"

definition sum_sizes :: "externs \<Rightarrow> fs_objects \<Rightarrow> string \<Rightarrow> nat \<Rightarrow> string list \<Rightarrow> int" where
  "sum_sizes x db r n ids = (\<Sum>i\<leftarrow>ids. tree_size x db r n i)"

lemma sum_sizes_simps [simp]:
  "sum_sizes x db r n [] = 0"
  "sum_sizes x db r n (i # ids) = tree_size x db r n i + sum_sizes x db r n ids"
  "sum_sizes x db r n (ids @ js) = sum_sizes x db r n ids + sum_sizes x db r n js"
  by (simp_all add: sum_sizes_def)

lemma i64_wrap_shift: "i64_wrap a = i64_wrap b \<Longrightarrow> i64_wrap (a + c) = i64_wrap (b + c)"
  by (metis i64_wrap_add_left)

lemma size_entries_sum:
  "size_entries es (nexts, tot) = (nexts', tot') \<Longrightarrow>
   i64_wrap (tot' + sum_sizes x db r n nexts') =
   i64_wrap (tot + sum_sizes x db r n nexts +
     (\<Sum>e\<leftarrow>es. if has_dir_bit (de_mode e) then tree_size x db r n (de_id e) else de_size e))"
proof (induction es arbitrary: nexts tot)
  case (Cons e es)
  show ?case
  proof (cases "has_dir_bit (de_mode e)")
    case True
    then show ?thesis using Cons.IH [of "nexts @ [de_id e]" tot] Cons.prems
      by (simp add: algebra_simps)
  next
    case False
    let ?s = "\<Sum>e\<leftarrow>es. if has_dir_bit (de_mode e) then tree_size x db r n (de_id e) else de_size e"
    have "i64_wrap (tot' + sum_sizes x db r n nexts') =
        i64_wrap (i64_wrap (tot + de_size e) + (sum_sizes x db r n nexts + ?s))"
      using False Cons.IH [of nexts "i64_wrap (tot + de_size e)"] Cons.prems
      by (simp add: algebra_simps del: i64_wrap_add_left)
    then show ?thesis using False by (simp add: algebra_simps)
  qed
qed simp

lemma size_frontier_sum:
  assumes m: "\<And>i d. i \<in> set ids \<Longrightarrow>
      map_of m i = Some d \<longleftrightarrow> i \<noteq> EMPTY_SHA1 \<and> read_fs_dir_data x db r i = Inr d"
    and "size_frontier m ids (nexts, tot) = (nexts', tot')"
  shows "i64_wrap (tot' + sum_sizes x db r n nexts') =
    i64_wrap (tot + sum_sizes x db r n nexts + sum_sizes x db r (Suc n) ids)"
  using assms
proof (induction ids arbitrary: nexts tot)
  case (Cons i ids)
  show ?case
  proof (cases "map_of m i")
    case None
    then have "tree_size x db r (Suc n) i = 0"
      using Cons.prems(1) [of i] by (auto split: sum.splits)
    then show ?thesis using Cons.IH [of nexts tot] Cons.prems None by simp
  next
    case (Some d)
    obtain nx tt where st: "size_entries (dirents d) (nexts, tot) = (nx, tt)" by fastforce
    have rest: "i64_wrap (tot' + sum_sizes x db r n nexts') =
        i64_wrap (tt + sum_sizes x db r n nx + sum_sizes x db r (Suc n) ids)"
      using Cons.IH [of nx tt] Cons.prems Some st by simp
    have "tree_size x db r (Suc n) i =
        (\<Sum>e\<leftarrow>dirents d. if has_dir_bit (de_mode e) then tree_size x db r n (de_id e) else de_size e)"
      using Cons.prems(1) [of i d] Some by simp
    with i64_wrap_shift [OF size_entries_sum [OF st, of x db r n], of "sum_sizes x db r (Suc n) ids"] rest
    show ?thesis by (simp add: algebra_simps)
  qed
qed simp

lemma size_level_sum:
  assumes "size_level x db r fr tot = Inr (nexts, tot')"
  shows "i64_wrap (tot' + sum_sizes x db r n nexts) = i64_wrap (tot + sum_sizes x db r (Suc n) fr)"
proof -
  obtain m where m: "read_fs_dir_data_batch x db r fr = Inr m"
    and f: "size_frontier m fr ([], tot) = (nexts, tot')"
    using assms by (auto simp: size_level_def rbind_eq_Inr_iff)
  show ?thesis using size_frontier_sum [OF _ f, of x db r n] read_dir_batch_iff [OF m] by simp
qed

interpretation size_walk: level_walk "size_level x db r"
    "\<lambda>n fr tot. i64_wrap (tot + sum_sizes x db r n fr) = goal" for x db r goal
  by unfold_locales (simp add: size_level_sum)

lemma size_level_range:
  "size_level x db r fr tot = Inr (nexts, tot') \<Longrightarrow> i64_wrap tot = tot \<Longrightarrow> i64_wrap tot' = tot'"
proof -
  have entries: "i64_wrap (snd acc) = snd acc \<Longrightarrow>
      i64_wrap (snd (size_entries es acc)) = snd (size_entries es acc)" for es acc
    by (induction es acc rule: size_entries.induct) auto
  have "i64_wrap (snd acc) = snd acc \<Longrightarrow>
      i64_wrap (snd (size_frontier m ids acc)) = snd (size_frontier m ids acc)" for m ids acc
    by (induction m ids acc rule: size_frontier.induct) (auto simp: entries split: option.splits)
  from this [of "([], tot)"] show "size_level x db r fr tot = Inr (nexts, tot') \<Longrightarrow>
      i64_wrap tot = tot \<Longrightarrow> i64_wrap tot' = tot'"
    by (auto simp: size_level_def rbind_eq_Inr_iff) (metis snd_conv)
qed

interpretation size_range: level_walk "size_level x db r" "\<lambda>n fr tot. i64_wrap tot = tot" for x db r
  by unfold_locales (rule size_level_range)

section \<open>Endless trees\<close>

text \<open>A set of directory ids in which every directory has a child directory of the set: a cycle,
  or any other infinite descent that crafted objects may form.\<close>

definition endless :: "externs \<Rightarrow> fs_objects \<Rightarrow> string \<Rightarrow> string set \<Rightarrow> bool" where
  "endless x db r S \<longleftrightarrow> (\<forall>i\<in>S. i \<noteq> EMPTY_SHA1 \<and> (\<exists>d. read_fs_dir_data x db r i = Inr d \<and>
     (\<exists>e\<in>set (dirents d). has_dir_bit (de_mode e) \<and> de_id e \<in> S)))"

lemma size_entries_nexts:
  "set (fst (size_entries es acc)) =
   set (fst acc) \<union> {de_id e | e. e \<in> set es \<and> has_dir_bit (de_mode e)}"
  by (induction es acc rule: size_entries.induct) auto

lemma size_frontier_keeps: "set (fst acc) \<subseteq> set (fst (size_frontier m ids acc))"
  by (induction m ids acc rule: size_frontier.induct) (auto simp: size_entries_nexts split: option.splits)

lemma size_frontier_nexts:
  "i \<in> set ids \<Longrightarrow> map_of m i = Some d \<Longrightarrow> e \<in> set (dirents d) \<Longrightarrow> has_dir_bit (de_mode e) \<Longrightarrow>
   de_id e \<in> set (fst (size_frontier m ids acc))"
proof (induction ids arbitrary: acc)
  case (Cons k ids)
  show ?case
  proof (cases "k = i")
    case True
    then have "de_id e \<in> set (fst (size_entries (dirents d) acc))"
      using Cons.prems by (auto simp: size_entries_nexts)
    then show ?thesis using True Cons.prems size_frontier_keeps [of "size_entries (dirents d) acc" m ids] by auto
  next
    case False
    then show ?thesis using Cons by simp
  qed
qed simp

lemma size_level_endless:
  assumes "endless x db r S" "size_level x db r fr tot = Inr (nexts, tot')" "\<exists>i\<in>S. i \<in> set fr"
  shows "\<exists>i\<in>S. i \<in> set nexts"
proof -
  obtain m where m: "read_fs_dir_data_batch x db r fr = Inr m"
    and f: "size_frontier m fr ([], tot) = (nexts, tot')"
    using assms(2) by (auto simp: size_level_def rbind_eq_Inr_iff)
  obtain i d e where i: "i \<in> S" "i \<in> set fr" "i \<noteq> EMPTY_SHA1" "read_fs_dir_data x db r i = Inr d"
    and e: "e \<in> set (dirents d)" "has_dir_bit (de_mode e)" "de_id e \<in> S"
    using assms(1,3) by (fastforce simp: endless_def)
  have "map_of m i = Some d" using i read_dir_batch_iff [OF m] by simp
  then have "de_id e \<in> set nexts"
    using size_frontier_nexts [OF i(2) _ e(1,2), of m "([], tot)"] f by simp
  then show ?thesis using e by blast
qed

section \<open>Properties\<close>

text \<open>
  C33: whenever the level-by-level walk succeeds, its total is the recursive sum of file sizes
  below the root, as an \<open>i64\<close> computes it; the depth limit is deep enough for the whole tree.
\<close>

theorem compute_tree_size_sum:
  assumes "compute_tree_size lim x db r root = Inr tot"
  shows "tot = i64_wrap (tree_size x db r (max_tree_depth lim) root)"
proof (cases "root = EMPTY_SHA1")
  case True
  then have "tree_size x db r (max_tree_depth lim) root = 0" by (cases "max_tree_depth lim") auto
  then show ?thesis using assms True by (simp add: compute_tree_size_def i64_wrap_id)
next
  case False
  then have run: "bfs lim (size_level x db r) new_guard [root] 0 = Inr tot"
    using assms by (simp add: compute_tree_size_def)
  have zero: "i64_wrap 0 = 0" by (simp add: i64_wrap_id)
  have "i64_wrap tot = i64_wrap (tree_size x db r (max_tree_depth lim) root)"
    using size_walk.bfs_result [OF run] by (simp add: new_guard_def)
  moreover have "i64_wrap tot = tot"
    using size_range.bfs_result [OF run] zero by (simp add: new_guard_def)
  ultimately show ?thesis by simp
qed

definition size_db :: fs_objects where
  "size_db = demo_db [''R'', ''D'', ''L'']"

definition size_externs :: externs where
  "size_externs = demo_externs
     [(''R'', mk_dir [demo_file ''F'' ''f'', demo_dir ''D'' ''d'', demo_dir ''D'' ''e'']),
      (''D'', mk_dir [demo_file ''G'' ''g'']),
      (''L'', mk_dir [demo_dir ''L'' ''self''])]"

theorem compute_tree_size_sum_witness:
  "compute_tree_size (configure 4 9) size_externs size_db ''r'' ''R'' = Inr 9 \<and>
   i64_wrap (tree_size size_externs size_db ''r'' (max_tree_depth (configure 4 9)) ''R'') = 9"
proof -
  have h: "compute_tree_size (configure 4 9) size_externs size_db ''r'' ''R'' = Inr 9" by code_simp
  show ?thesis using h compute_tree_size_sum [OF h] by simp
qed

text \<open>
  A walk over an endless tree, a directory that contains itself for instance, is stopped by
  the guard: whatever the limits are, the size computation returns an error and not a total.
\<close>

theorem compute_tree_size_endless:
  assumes "endless x db r S" "root \<in> S"
  shows "\<exists>err. compute_tree_size lim x db r root = Inl err"
proof (cases "compute_tree_size lim x db r root")
  case (Inr tot)
  have "root \<noteq> EMPTY_SHA1" using assms by (auto simp: endless_def)
  then have run: "bfs lim (size_level x db r) new_guard [root] 0 = Inr tot"
    using Inr by (simp add: compute_tree_size_def)
  have "level_walk (size_level x db r) (\<lambda>_ fr _. \<exists>i\<in>S. i \<in> set fr)"
    by unfold_locales (rule size_level_endless [OF assms(1)])
  from level_walk.bfs_result [OF this run] show ?thesis using assms(2) by (simp add: new_guard_def)
qed simp

theorem compute_tree_size_endless_witness:
  "\<exists>err. compute_tree_size (configure 512 1000000) size_externs size_db ''r'' ''L'' = Inl err"
proof (rule compute_tree_size_endless)
  have "read_fs_dir_data size_externs size_db ''r'' ''L'' = Inr (mk_dir [demo_dir ''L'' ''self''])"
    by code_simp
  moreover have "''L'' \<noteq> EMPTY_SHA1" by code_simp
  ultimately show "endless size_externs size_db ''r'' {''L''}" by (simp add: endless_def)
qed simp

text \<open>
  On a library with an exact stored size keeps the size exact: when the
  stored size is the sum of the HEAD tree before the change and \<open>delta\<close> is the change of that sum,
  the new stored size is the sum after it, also when the size was never computed (stored as 0).
\<close>

theorem adjust_repo_size_exact:
  assumes "t_repos t r = Some rp" "rp_head_commit_id rp = Some h" "t_commits t (r, h) = Some c"
    and "adjust_repo_size lim x r delta t = Inr t'"
    and "compute_tree_size lim x (t_objects t) r (cm_root_id c) = Inr sz" "0 \<le> sz"
    and "rp_size rp = 0 \<or> rp_size rp + delta = sz"
  shows "map_option rp_size (t_repos t' r) = Some sz \<and> (\<forall>i. i \<noteq> r \<longrightarrow> t_repos t' i = t_repos t i)"
proof -
  have "compute_repo_size lim x t r = Inr sz"
    using assms by (simp add: compute_repo_size_def)
  then show ?thesis using assms
    by (auto simp: adjust_repo_size_def adjust_size_def split: if_splits)
qed

definition size_tables :: tables where
  "size_tables = \<lparr>t_objects = size_db,
     t_commits = (\<lambda>(r, c). if r = ''r'' \<and> c = ''C'' then Some
        \<lparr>cm_commit_id = ''C'', cm_root_id = ''R'', cm_parent_id = None, cm_second_parent_id = None,
         cm_creator_name = [], cm_creator = [], cm_description = [], cm_ctime = 1, cm_version = 1,
         cm_new_merge = None, cm_conflict = None\<rparr> else None),
     t_repos = (\<lambda>r. if r = ''r'' then Some \<lparr>rp_owner_id = 1, rp_head_commit_id = Some ''C'', rp_size = 0,
         rp_version = 1, rp_updated_at = 0\<rparr> else None), t_published = []\<rparr>"

theorem adjust_repo_size_exact_witness:
  "\<exists>t'. adjust_repo_size (configure 4 9) size_externs ''r'' 3 size_tables = Inr t' \<and>
     map_option rp_size (t_repos t' ''r'') = Some 9"
proof -
  have sz: "compute_tree_size (configure 4 9) size_externs size_db ''r'' ''R'' = Inr 9" by code_simp
  obtain t' where t': "adjust_repo_size (configure 4 9) size_externs ''r'' 3 size_tables = Inr t'"
    using sz by (simp add: adjust_repo_size_def compute_repo_size_def size_tables_def)
  have "map_option rp_size (t_repos t' ''r'') = Some 9 \<and>
      (\<forall>i. i \<noteq> ''r'' \<longrightarrow> t_repos t' i = t_repos size_tables i)"
    by (rule adjust_repo_size_exact [where rp = "the (t_repos size_tables ''r'')" and h = "''C''"
          and c = "the (t_commits size_tables (''r'', ''C''))", OF _ _ _ t'])
      (simp_all add: size_tables_def sz)
  then show ?thesis using t' by blast
qed

end
