(* ===== verification/RateLimit.thy ===== *)
theory RateLimit
  imports Prelude "HOL-Library.Product_Lexorder"
begin

text \<open>
  The in-memory rate limiters, \<open>infra/src/rate_limit/\<close>: eviction (\<open>mod.rs\<close>), the sliding window for
  general endpoints (\<open>generic.rs\<close>) and the login limiter with its spray detector (\<open>login.rs\<close>).

  Each operation takes the mutex for its whole body, so it is one atomic step on the record of the
  limiter's fields. The clock reading is an argument. Timestamps and windows are \<open>i64\<close>, budgets
  are \<open>u32\<close>; \<open>len() as u32\<close> keeps 32 bits and the subtraction that gives the cutoff wraps.
\<close>

section \<open>Eviction (mod.rs)\<close>

type_synonym attempts = "(string \<times> int list) list"

definition last_active :: "int list \<Rightarrow> int" where
  "last_active ts = (case ts of [] \<Rightarrow> i64_min | t # ts \<Rightarrow> fold max ts t)"

definition evict_oldest :: "nat \<Rightarrow> attempts \<Rightarrow> attempts" where
  "evict_oldest cap m =
     (if length m \<le> cap then m
      else
        let target = cap - cap div 10;
            remove = length m - target;
            by_age = sort (map (\<lambda>(key, timestamps). (last_active timestamps, key)) m)
        in fold (\<lambda>(_, key). hm_remove key) (take remove by_age) m)"

section \<open>The generic limiter (generic.rs)\<close>

definition MAX_KEYS :: nat where "MAX_KEYS = 50000"

record GenericRateLimiter =
  g_attempts :: attempts
  g_max_attempts :: "32 word"
  g_window_secs :: int

text \<open>\<open>u64 as i64\<close>.\<close>

definition u64_as_i64 :: "nat \<Rightarrow> int" where
  "u64_as_i64 n = i64_wrap (int n)"

definition new_generic :: "32 word \<Rightarrow> nat \<Rightarrow> GenericRateLimiter" where
  "new_generic max_attempts window_secs =
     \<lparr>g_attempts = [], g_max_attempts = max_attempts, g_window_secs = u64_as_i64 window_secs\<rparr>"

definition set_limits :: "32 word \<Rightarrow> nat \<Rightarrow> GenericRateLimiter \<Rightarrow> GenericRateLimiter" where
  "set_limits max_attempts window_secs l =
     l\<lparr>g_max_attempts := max_attempts, g_window_secs := u64_as_i64 window_secs\<rparr>"

definition disabled :: "GenericRateLimiter \<Rightarrow> bool" where
  "disabled l \<longleftrightarrow> g_max_attempts l = 0"

text \<open>\<open>map.entry(key).or_default()\<close>, push, retain.\<close>

definition push_retain :: "int \<Rightarrow> int \<Rightarrow> string \<Rightarrow> attempts \<Rightarrow> attempts" where
  "push_retain now cutoff key m =
     hm_insert key (filter (\<lambda>t. t > cutoff)
       ((case map_of m key of Some ts \<Rightarrow> ts | None \<Rightarrow> []) @ [now])) m"

text \<open>The check both limiters spell out: trim the key's timestamps, then report whether the key went
  stale (and is dropped) and whether the budget is used up.\<close>

definition check_key :: "int \<Rightarrow> 32 word \<Rightarrow> string \<Rightarrow> attempts \<Rightarrow> bool \<times> attempts" where
  "check_key cutoff limit key m =
     (case map_of m key of
        Some timestamps \<Rightarrow>
          let kept = filter (\<lambda>t. t > cutoff) timestamps in
          if kept = [] then (False, hm_remove key m)
          else (limit \<le> of_nat (length kept), hm_insert key kept m)
      | None \<Rightarrow> (False, m))"

definition record_attempt :: "int \<Rightarrow> string \<Rightarrow> GenericRateLimiter \<Rightarrow> GenericRateLimiter" where
  "record_attempt now key l =
     (if disabled l then l
      else l\<lparr>g_attempts := evict_oldest MAX_KEYS
               (push_retain now (i64_wrap (now - g_window_secs l)) key (g_attempts l))\<rparr>)"

definition is_limited :: "int \<Rightarrow> string \<Rightarrow> GenericRateLimiter \<Rightarrow> bool \<times> GenericRateLimiter" where
  "is_limited now key l =
     (if disabled l then (False, l)
      else let (limited, m) = check_key (i64_wrap (now - g_window_secs l)) (g_max_attempts l) key (g_attempts l)
        in (limited, l\<lparr>g_attempts := m\<rparr>))"

definition clear_generic :: "string \<Rightarrow> GenericRateLimiter \<Rightarrow> GenericRateLimiter" where
  "clear_generic key l = l\<lparr>g_attempts := hm_remove key (g_attempts l)\<rparr>"

section \<open>The login limiter (login.rs)\<close>

record LoginKeys =
  client_ip :: string
  lk_username :: string
  ip_key :: string
  pair_key :: string

definition new_login_keys :: "string \<Rightarrow> string \<Rightarrow> LoginKeys" where
  "new_login_keys ip username =
     \<lparr>client_ip = ip, lk_username = username, ip_key = ''login:ip:'' @ ip,
      pair_key = ''login:pair:'' @ ip @ '':'' @ username\<rparr>"

definition MAX_SPRAY_IPS :: nat where "MAX_SPRAY_IPS = 4096"
definition MAX_ATTEMPT_KEYS :: nat where "MAX_ATTEMPT_KEYS = 50000"

record LoginRateLimiter =
  l_attempts :: attempts
  l_spray :: "(string \<times> (string \<times> int) list) list"
  l_max_attempts :: "32 word"
  l_lockout_secs :: int
  l_max_distinct :: "32 word"

definition new_login :: "32 word \<Rightarrow> nat \<Rightarrow> 32 word \<Rightarrow> LoginRateLimiter" where
  "new_login max_attempts lockout_secs max_distinct =
     \<lparr>l_attempts = [], l_spray = [], l_max_attempts = max_attempts,
      l_lockout_secs = u64_as_i64 lockout_secs, l_max_distinct = max_distinct\<rparr>"

definition set_login_limits :: "32 word \<Rightarrow> nat \<Rightarrow> 32 word \<Rightarrow> LoginRateLimiter \<Rightarrow> LoginRateLimiter" where
  "set_login_limits max_attempts lockout_secs max_distinct l =
     l\<lparr>l_max_attempts := max_attempts, l_lockout_secs := u64_as_i64 lockout_secs, l_max_distinct := max_distinct\<rparr>"

definition login_cutoff :: "int \<Rightarrow> LoginRateLimiter \<Rightarrow> int" where
  "login_cutoff now l = i64_wrap (now - l_lockout_secs l)"

definition lockout_disabled :: "LoginRateLimiter \<Rightarrow> bool" where
  "lockout_disabled l \<longleftrightarrow> l_max_attempts l = 0"

definition record_failure :: "int \<Rightarrow> string \<Rightarrow> LoginRateLimiter \<Rightarrow> LoginRateLimiter" where
  "record_failure now key l =
     l\<lparr>l_attempts := evict_oldest MAX_ATTEMPT_KEYS (push_retain now (login_cutoff now l) key (l_attempts l))\<rparr>"

definition failure_count :: "int \<Rightarrow> LoginKeys \<Rightarrow> LoginRateLimiter \<Rightarrow> 32 word \<times> LoginRateLimiter" where
  "failure_count now ks l =
     (let cutoff = login_cutoff now l;
          (cnt, stale, m) = fold (\<lambda>key (cnt, stale, m).
            (case map_of m key of
               None \<Rightarrow> (cnt, stale, m)
             | Some ts \<Rightarrow>
                 let kept = filter (\<lambda>t. t > cutoff) ts; m = hm_insert key kept m in
                 if kept = [] then (cnt, stale @ [key], m)
                 else (max cnt (of_nat (length kept)), stale, m)))
            [ip_key ks, pair_key ks] (0, [], l_attempts l)
      in (cnt, l\<lparr>l_attempts := fold hm_remove stale m\<rparr>))"

definition is_locked :: "int \<Rightarrow> string \<Rightarrow> LoginRateLimiter \<Rightarrow> bool \<times> LoginRateLimiter" where
  "is_locked now key l =
     (if lockout_disabled l then (False, l)
      else let (limited, m) = check_key (login_cutoff now l) (l_max_attempts l) key (l_attempts l)
        in (limited, l\<lparr>l_attempts := m\<rparr>))"

fun any_locked :: "int \<Rightarrow> 32 word \<Rightarrow> string list \<Rightarrow> attempts \<Rightarrow> bool \<times> attempts" where
  "any_locked cutoff limit [] m = (False, m)"
| "any_locked cutoff limit (key # ks) m =
     (let (limited, m) = check_key cutoff limit key m in
      if limited then (True, m) else any_locked cutoff limit ks m)"

definition is_any_locked :: "int \<Rightarrow> string list \<Rightarrow> LoginRateLimiter \<Rightarrow> bool \<times> LoginRateLimiter" where
  "is_any_locked now ks l =
     (if lockout_disabled l then (False, l)
      else let (limited, m) = any_locked (login_cutoff now l) (l_max_attempts l) ks (l_attempts l)
        in (limited, l\<lparr>l_attempts := m\<rparr>))"

definition record_failures :: "int \<Rightarrow> string list \<Rightarrow> LoginRateLimiter \<Rightarrow> LoginRateLimiter" where
  "record_failures now ks l =
     l\<lparr>l_attempts := evict_oldest MAX_ATTEMPT_KEYS
         (fold (push_retain now (login_cutoff now l)) ks (l_attempts l))\<rparr>"

definition clear_login :: "string \<Rightarrow> LoginRateLimiter \<Rightarrow> LoginRateLimiter" where
  "clear_login key l = l\<lparr>l_attempts := hm_remove key (l_attempts l)\<rparr>"

text \<open>\<open>min_by_key\<close> keeps the first minimum in iteration order.\<close>

fun min_by_key :: "('a \<Rightarrow> int) \<Rightarrow> 'a list \<Rightarrow> 'a option" where
  "min_by_key f [] = None"
| "min_by_key f (x # xs) =
     (case min_by_key f xs of None \<Rightarrow> Some x | Some y \<Rightarrow> if f x \<le> f y then Some x else Some y)"

definition record_username_failure :: "int \<Rightarrow> string \<Rightarrow> string \<Rightarrow> LoginRateLimiter \<Rightarrow> LoginRateLimiter" where
  "record_username_failure now ip username l =
     (let cutoff = login_cutoff now l;
          m = l_spray l;
          m = (if map_of m ip = None \<and> MAX_SPRAY_IPS \<le> length m
               then (case min_by_key (\<lambda>(_, per_ip). last_active (map snd per_ip)) m of
                       Some (addr, _) \<Rightarrow> hm_remove addr m
                     | None \<Rightarrow> m)
               else m);
          per_ip = (case map_of m ip of Some p \<Rightarrow> p | None \<Rightarrow> []);
          per_ip = filter (\<lambda>(_, t). t > cutoff) per_ip
      in l\<lparr>l_spray := hm_insert ip (hm_insert username now per_ip) m\<rparr>)"

definition is_spraying :: "int \<Rightarrow> string \<Rightarrow> LoginRateLimiter \<Rightarrow> bool \<times> LoginRateLimiter" where
  "is_spraying now ip l =
     (if l_max_distinct l = 0 then (False, l)
      else
        (case map_of (l_spray l) ip of
           None \<Rightarrow> (False, l)
         | Some per_ip \<Rightarrow>
             let kept = filter (\<lambda>(_, t). t > login_cutoff now l) per_ip in
             if kept = [] then (False, l\<lparr>l_spray := hm_remove ip (l_spray l)\<rparr>)
             else (l_max_distinct l \<le> of_nat (length kept), l\<lparr>l_spray := hm_insert ip kept (l_spray l)\<rparr>)))"

definition is_login_blocked :: "int \<Rightarrow> int \<Rightarrow> LoginKeys \<Rightarrow> LoginRateLimiter \<Rightarrow> bool \<times> LoginRateLimiter" where
  "is_login_blocked now now' ks l =
     (let (locked, l) = is_any_locked now [ip_key ks, pair_key ks] l in
      if locked then (True, l) else is_spraying now' (client_ip ks) l)"

definition record_login_failure :: "int \<Rightarrow> int \<Rightarrow> LoginKeys \<Rightarrow> LoginRateLimiter \<Rightarrow> LoginRateLimiter" where
  "record_login_failure now now' ks l =
     record_username_failure now' (client_ip ks) (lk_username ks)
       (record_failures now [ip_key ks, pair_key ks] l)"

definition clear_login_failure :: "LoginKeys \<Rightarrow> LoginRateLimiter \<Rightarrow> LoginRateLimiter" where
  "clear_login_failure ks l = clear_login (pair_key ks) (clear_login (ip_key ks) l)"

section \<open>Eviction keeps the most recently active keys\<close>

lemma fold_hm_remove:
  "fold (\<lambda>(_, key). hm_remove key) ps m = filter (\<lambda>(k, _). k \<notin> snd ` set ps) m"
proof (induction ps arbitrary: m)
  case (Cons p ps)
  obtain a k where "p = (a, k)" by (cases p)
  then show ?case using Cons by (auto simp: hm_remove_def intro!: filter_cong)
qed simp

lemma distinct_age_keys:
  "distinct (map fst m) \<Longrightarrow> distinct (map snd (sort (map (\<lambda>(k, ts). (f ts, k)) m)))"
  (is "_ \<Longrightarrow> distinct (map snd (sort ?ps))")
proof -
  assume "distinct (map fst m)"
  then have "distinct (map snd ?ps)" by (simp add: o_def case_prod_beta)
  then show ?thesis by (metis distinct_map mset_map mset_sort mset_eq_imp_distinct_iff set_sort)
qed

lemma length_filter_notin_keys:
  assumes "distinct (map fst m)" "distinct ks" "set ks \<subseteq> fst ` set m"
  shows "length (filter (\<lambda>(k, _). k \<notin> set ks) m) = length m - length ks"
proof -
  have "length (filter (\<lambda>(k, _). k \<notin> set ks) m) = card (fst ` set (filter (\<lambda>(k, _). k \<notin> set ks) m))"
    using assms(1) by (metis distinct_card distinct_map_filter length_map set_map)
  also have "fst ` set (filter (\<lambda>(k, _). k \<notin> set ks) m) = fst ` set m - set ks" by force
  also have "card \<dots> = length m - length ks"
    using assms by (simp add: card_Diff_subset distinct_card flip: set_map)
  finally show ?thesis .
qed

lemma evict_lru:
  assumes "distinct (map fst m)" "evict_oldest cap m = m'"
  shows "length m' = (if length m \<le> cap then length m else cap - cap div 10)
    \<and> set m' \<subseteq> set m \<and> distinct (map fst m')
    \<and> (\<forall>(k, ts) \<in> set m - set m'. \<forall>(k', ts') \<in> set m'. last_active ts \<le> last_active ts')"
proof (cases "length m \<le> cap")
  case True
  then show ?thesis using assms by (auto simp: evict_oldest_def)
next
  case False
  define n where "n = length m - (cap - cap div 10)"
  define ps where "ps = sort (map (\<lambda>(k, ts). (last_active ts, k)) m)"
  have m': "m' = filter (\<lambda>(k, _). k \<notin> snd ` set (take n ps)) m"
    using assms(2) False by (simp add: evict_oldest_def n_def ps_def Let_def fold_hm_remove)
  have dist: "distinct (map snd (take n ps))"
    using distinct_take [OF distinct_age_keys [OF assms(1), of last_active], of n]
    by (simp add: ps_def take_map)
  have len: "length ps = length m" by (simp add: ps_def)
  have sub: "snd ` set (take n ps) \<subseteq> fst ` set m"
    using set_take_subset [of n ps] by (force simp: ps_def)
  have "length m' = length m - n"
    unfolding m' using length_filter_notin_keys [OF assms(1) dist] sub len by (simp add: n_def)
  moreover have "n \<le> length m" by (simp add: n_def)
  ultimately have l: "length m' = cap - cap div 10" using False by (simp add: n_def)
  have "last_active ts \<le> last_active ts'" if "(k, ts) \<in> set m" "(k, ts) \<notin> set m'" "(k', ts') \<in> set m'" for k ts k' ts'
  proof -
    have "k \<in> snd ` set (take n ps)" using that by (auto simp: m')
    then obtain a where a: "(a, k) \<in> set (take n ps)" by auto
    then have "(a, k) \<in> set ps" by (meson in_set_takeD)
    then obtain ts2 where "(k, ts2) \<in> set m" "a = last_active ts2" by (auto simp: ps_def)
    then have ak: "a = last_active ts" using that(1) assms(1) by (metis map_of_is_SomeI option.inject)
    have "k' \<notin> snd ` set (take n ps)" "(k', ts') \<in> set m" using that(3) by (auto simp: m')
    then have "(last_active ts', k') \<in> set ps" "(last_active ts', k') \<notin> set (take n ps)"
      by (force simp: ps_def)+
    then have "(last_active ts', k') \<in> set (drop n ps)" by (metis Un_iff append_take_drop_id set_append)
    moreover have "sorted (take n ps @ drop n ps)" by (simp add: ps_def)
    ultimately have "(a, k) \<le> (last_active ts', k')" using a unfolding sorted_append by blast
    then show ?thesis using ak by (auto simp: less_eq_prod_simp split: if_splits)
  qed
  then have "\<forall>(k, ts)\<in>set m - set m'. \<forall>(k', ts')\<in>set m'. last_active ts \<le> last_active ts'" by blast
  moreover have "set m' \<subseteq> set m" "distinct (map fst m')" using assms(1) by (auto simp: m' distinct_map_filter)
  ultimately show ?thesis using l False by simp
qed

lemma evict_len_sub:
  assumes "distinct (map fst m)" "evict_oldest cap m = m'"
  shows "length m' \<le> cap" "set m' \<subseteq> set m" "distinct (map fst m')" "length m \<le> cap \<Longrightarrow> m' = m"
proof -
  have e: "length m' = (if length m \<le> cap then length m else cap - cap div 10)" "set m' \<subseteq> set m" "distinct (map fst m')"
    using evict_lru [OF assms] by blast+
  then show "length m' \<le> cap" "set m' \<subseteq> set m" "distinct (map fst m')" by (simp_all split: if_splits)
  show "length m \<le> cap \<Longrightarrow> m' = m" using assms(2) by (simp add: evict_oldest_def)
qed

text \<open>
  Eviction leaves a map within the limit untouched; a larger one it trims to nine tenths of
  the limit. What stays keeps its timestamps, and no evicted key was active more recently than a
  key that stays.
\<close>

theorem evict_oldest_lru:
  assumes "distinct (map fst m)" "evict_oldest cap m = m'"
  shows "length m' = (if length m \<le> cap then length m else cap - cap div 10)
    \<and> set m' \<subseteq> set m \<and> distinct (map fst m')
    \<and> (\<forall>(k, ts) \<in> set m - set m'. \<forall>(k', ts') \<in> set m'. last_active ts \<le> last_active ts')"
  by (rule evict_lru [OF assms])

theorem evict_oldest_lru_witness:
  "let m = [(''a'', [5]), (''b'', [3, 9]), (''c'', [7])]; m' = evict_oldest 2 m in
   m' = [(''b'', [3, 9]), (''c'', [7])] \<and> length m' = 2 - 2 div 10 \<and>
   (\<forall>(k, ts) \<in> set m - set m'. \<forall>(k', ts') \<in> set m'. last_active ts \<le> last_active ts')"
proof -
  have e: "evict_oldest 2 [(''a'', [5]), (''b'', [3, 9]), (''c'', [7])] = [(''b'', [3, 9]), (''c'', [7])]"
    by code_simp
  show ?thesis using evict_oldest_lru [OF _ e] e by (simp add: Let_def)
qed

section \<open>The contract of a sliding window\<close>

text \<open>
  Both limiters promise the same: the attempts of a key inside the window are counted, until the
  key is cleared or evicted. The interface below states the laws of one operation; what they give
  for a whole sequence of operations is proved once.
\<close>

definition live :: "int \<Rightarrow> int \<Rightarrow> int list \<Rightarrow> int list" where
  "live w now ts = filter (\<lambda>t. t > now - w) ts"

definition clock :: "int \<Rightarrow> bool" where
  "clock now \<longleftrightarrow> 0 \<le> now \<and> now \<le> i64_max"

datatype event = Record int string | Check int string | Clear int string

fun event_time :: "event \<Rightarrow> int" where
  "event_time (Record t k) = t"
| "event_time (Check t k) = t"
| "event_time (Clear t k) = t"

text \<open>The attempts of a key since it was last cleared: the ideal, unbounded history.\<close>

fun history :: "string \<Rightarrow> event list \<Rightarrow> int list" where
  "history k [] = []"
| "history k (e # es) =
     (case e of Record t k' \<Rightarrow> (if k' = k \<and> (\<forall>t. Clear t k \<notin> set es) then t # history k es else history k es)
      | _ \<Rightarrow> history k es)"

definition recorded :: "event list \<Rightarrow> string set" where
  "recorded es = {k. \<exists>t. Record t k \<in> set es}"

lemma history_snoc:
  "history k (es @ [Record t k']) = history k es @ (if k' = k then [t] else [])"
  "history k (es @ [Check t k']) = history k es"
  "history k (es @ [Clear t k']) = (if k' = k then [] else history k es)"
proof -
  show "history k (es @ [Record t k']) = history k es @ (if k' = k then [t] else [])"
    by (induction es) (auto split: event.splits)
  show "history k (es @ [Check t k']) = history k es"
    by (induction es) (auto split: event.splits)
  show "history k (es @ [Clear t k']) = (if k' = k then [] else history k es)"
    by (induction es) (auto split: event.splits)
qed

locale window_limiter =
  fixes wf :: "'s \<Rightarrow> bool" and view :: "'s \<Rightarrow> string \<Rightarrow> int list" and keys :: "'s \<Rightarrow> string set"
    and win :: "'s \<Rightarrow> int" and budget :: "'s \<Rightarrow> 32 word" and cap :: nat
    and rec :: "int \<Rightarrow> string \<Rightarrow> 's \<Rightarrow> 's" and chk :: "int \<Rightarrow> string \<Rightarrow> 's \<Rightarrow> bool \<times> 's"
    and clr :: "string \<Rightarrow> 's \<Rightarrow> 's"
  assumes wf_ops: "wf s \<Longrightarrow> wf (rec now k s)" "wf s \<Longrightarrow> wf (snd (chk now k s))" "wf s \<Longrightarrow> wf (clr k s)"
    and limits: "win (rec now k s) = win s" "win (snd (chk now k s)) = win s" "win (clr k s) = win s"
      "budget (rec now k s) = budget s" "budget (snd (chk now k s)) = budget s" "budget (clr k s) = budget s"
    and keys_ops: "wf s \<Longrightarrow> keys (rec now k s) \<subseteq> insert k (keys s)" "wf s \<Longrightarrow> keys (snd (chk now k s)) \<subseteq> keys s"
      "wf s \<Longrightarrow> keys (clr k s) \<subseteq> keys s"
    and rec_view: "wf s \<Longrightarrow> budget s \<noteq> 0 \<Longrightarrow> clock now \<Longrightarrow> now \<le> now' \<Longrightarrow>
      live (win s) now' (view (rec now k s) k') = live (win s) now' (view s k' @ (if k' = k then [now] else [])) \<or>
      (view (rec now k s) k' = [] \<and> cap < card (insert k (keys s)))"
    and chk_view: "wf s \<Longrightarrow> clock now \<Longrightarrow> now \<le> now' \<Longrightarrow>
      live (win s) now' (view (snd (chk now k s)) k') = live (win s) now' (view s k')"
    and clr_view: "view (clr k s) k' = (if k' = k then [] else view s k')"
    and chk_result: "wf s \<Longrightarrow> clock now \<Longrightarrow> fst (chk now k s) \<longleftrightarrow>
      budget s \<noteq> 0 \<and> live (win s) now (view s k) \<noteq> [] \<and> budget s \<le> of_nat (length (live (win s) now (view s k)))"
begin

fun step :: "event \<Rightarrow> 's \<Rightarrow> 's" where
  "step (Record t k) s = rec t k s"
| "step (Check t k) s = snd (chk t k s)"
| "step (Clear t k) s = clr k s"

lemma step_wf: "wf s \<Longrightarrow> wf (step e s)"
  by (cases e) (simp_all add: wf_ops)

lemma step_limits: "win (step e s) = win s" "budget (step e s) = budget s"
  by (cases e; simp add: limits)+

lemma run_limits:
  "wf s \<Longrightarrow> wf (fold step es s)" "win (fold step es s) = win s" "budget (fold step es s) = budget s"
  by (induction es arbitrary: s) (simp_all add: step_wf step_limits)

lemma run_keys: "wf s \<Longrightarrow> keys (fold step es s) \<subseteq> keys s \<union> recorded es"
proof (induction es rule: rev_induct)
  case (snoc e es)
  have "keys (fold step (es @ [e]) s) \<subseteq> keys (fold step es s) \<union> recorded [e]"
    using keys_ops [OF run_limits(1) [OF snoc.prems, of es]] by (cases e) (fastforce simp: recorded_def)+
  then show ?case using snoc by (auto simp: recorded_def)
qed (simp add: recorded_def)

text \<open>What is stored is never more than the history, and exactly it while the cap holds.\<close>

lemma live_suffix_le:
  "live w now xs = [] \<or> live w now xs = ys \<Longrightarrow> length (live w now xs) \<le> length ys"
  by auto

lemma run_view:
  assumes s0: "wf s0" "budget s0 \<noteq> 0" "\<And>k. view s0 k = []" "keys s0 = {}"
  shows "sorted (map event_time es @ [now]) \<Longrightarrow> \<forall>e\<in>set es. clock (event_time e) \<Longrightarrow>
    length (live (win s0) now (view (fold step es s0) k)) \<le> length (live (win s0) now (history k es)) \<and>
    (card (recorded es) \<le> cap \<longrightarrow> live (win s0) now (view (fold step es s0) k) = live (win s0) now (history k es))"
proof (induction es rule: rev_induct)
  case Nil
  then show ?case by (simp add: s0 live_def)
next
  case (snoc e es)
  let ?s = "fold step es s0" and ?w = "win s0"
  have wf: "wf ?s" "win ?s = ?w" "budget ?s \<noteq> 0" using run_limits s0 by auto
  have tm: "clock (event_time e)" "event_time e \<le> now" using snoc.prems by (auto simp: sorted_append)
  have srt: "sorted (map event_time es @ [now])" using snoc.prems(1) by (auto simp: sorted_append)
  have fin: "finite (recorded es)" for es
    using finite_imageI [OF finite_set, of "\<lambda>e. case e of Record t k \<Rightarrow> k | _ \<Rightarrow> []" es]
    by (rule finite_subset [rotated]) (force simp: recorded_def image_iff split: event.splits)
  have mono: "card (recorded es) \<le> card (recorded (es @ [e]))"
    by (rule card_mono [OF fin]) (auto simp: recorded_def)
  have IH: "length (live ?w now (view ?s k)) \<le> length (live ?w now (history k es))"
    "card (recorded es) \<le> cap \<Longrightarrow> live ?w now (view ?s k) = live ?w now (history k es)"
    using snoc.IH srt snoc.prems(2) by auto
  show ?case
  proof (cases e)
    case (Record t k')
    have keys: "card (insert k' (keys ?s)) \<le> card (recorded (es @ [e]))"
      by (rule card_mono [OF fin]) (use run_keys [OF s0(1), of es] s0(4) Record in \<open>auto simp: recorded_def\<close>)
    have "live ?w now (view (rec t k' ?s) k) = live ?w now (view ?s k @ (if k = k' then [t] else [])) \<or>
        (view (rec t k' ?s) k = [] \<and> cap < card (insert k' (keys ?s)))"
      using rec_view [OF wf(1,3), of t now k' k] tm Record wf(2) by auto
    then show ?thesis using IH mono keys Record
      by (auto simp: history_snoc live_def)
  next
    case (Check t k')
    then show ?thesis using chk_view [OF wf(1), of t now k' k] tm IH wf(2) mono by (simp add: history_snoc)
  next
    case (Clear t k')
    then show ?thesis using IH mono by (simp add: history_snoc clr_view live_def)
  qed
qed

lemma check_after_run:
  assumes s0: "wf s0" "budget s0 \<noteq> 0" "\<And>k. view s0 k = []" "keys s0 = {}"
    and es: "sorted (map event_time es @ [now])" "\<forall>e\<in>set es. clock (event_time e)" "clock now"
    and n_def: "n = length (live (win s0) now (history k es))"
  shows "(fst (chk now k (fold step es s0)) \<and> n < 2 ^ 32 \<longrightarrow> budget s0 \<le> of_nat n) \<and>
    (card (recorded es) \<le> cap \<and> n < 2 ^ 32 \<longrightarrow> (fst (chk now k (fold step es s0)) \<longleftrightarrow> budget s0 \<le> of_nat n))"
proof -
  let ?s = "fold step es s0" and ?w = "win s0"
  let ?v = "length (live ?w now (view ?s k))"
  have wf: "wf ?s" "win ?s = ?w" "budget ?s = budget s0" using run_limits s0 by auto
  have le: "?v \<le> n" and eq: "card (recorded es) \<le> cap \<Longrightarrow> ?v = n"
    using run_view [OF s0 es(1,2), of k] by (auto simp: n_def)
  have res: "fst (chk now k ?s) \<longleftrightarrow> ?v \<noteq> 0 \<and> budget s0 \<le> of_nat ?v"
    using chk_result [OF wf(1) es(3), of k] wf s0(2) by simp
  have mono: "(of_nat ?v :: 32 word) \<le> of_nat n" if "n < 2 ^ 32"
    using le that by (simp add: word_le_nat_alt unat_of_nat)
  have zero: "\<not> budget s0 \<le> 0" using s0(2) by (simp add: word_le_0_iff)
  show ?thesis
  proof (intro conjI impI)
    assume "fst (chk now k ?s) \<and> n < 2 ^ 32"
    then show "budget s0 \<le> of_nat n" using res mono by (meson order_trans)
  next
    assume "card (recorded es) \<le> cap \<and> n < 2 ^ 32"
    then show "fst (chk now k ?s) \<longleftrightarrow> budget s0 \<le> of_nat n" using res eq zero by (cases "n = 0") auto
  qed
qed

end

section \<open>Both limiters keep the contract\<close>

definition stored :: "attempts \<Rightarrow> string \<Rightarrow> int list" where
  "stored m k = (case map_of m k of Some ts \<Rightarrow> ts | None \<Rightarrow> [])"

definition map_ok :: "nat \<Rightarrow> attempts \<Rightarrow> bool" where
  "map_ok cap m \<longleftrightarrow> distinct (map fst m) \<and> length m \<le> cap"

lemma live_filter:
  "now \<le> now' \<Longrightarrow> live w now' (filter (\<lambda>t. t > now - w) ts) = live w now' ts"
  by (auto simp: live_def intro!: filter_cong)

lemma cutoff_exact: "clock now \<Longrightarrow> 0 \<le> w \<Longrightarrow> w \<le> i64_max \<Longrightarrow> i64_wrap (now - w) = now - w"
  by (rule i64_wrap_id) (auto simp: clock_def)

lemma map_of_subset:
  assumes "distinct (map fst m)" "set m' \<subseteq> set m" "distinct (map fst m')"
  shows "map_of m' k = map_of m k \<or> map_of m' k = None"
proof (cases "map_of m' k")
  case (Some v)
  then have "(k, v) \<in> set m" using assms(2) map_of_SomeD by fastforce
  then show ?thesis using Some assms(1) by simp
qed simp

lemma map_of_in_keys: "map_of m k = Some v \<Longrightarrow> k \<in> fst ` set m"
  by (metis domI dom_map_of_conv_image_fst)

lemma evict_ok:
  assumes "distinct (map fst m)"
  shows "map_ok cap (evict_oldest cap m)" "fst ` set (evict_oldest cap m) \<subseteq> fst ` set m"
    "stored (evict_oldest cap m) k = stored m k \<or> (stored (evict_oldest cap m) k = [] \<and> cap < length m)"
proof -
  define m' where "m' = evict_oldest cap m"
  have len: "length m' \<le> cap" and sub: "set m' \<subseteq> set m" and dist: "distinct (map fst m')"
    and same: "length m \<le> cap \<Longrightarrow> m' = m"
    using evict_len_sub [OF assms m'_def [symmetric]] by auto
  show "map_ok cap (evict_oldest cap m)" using len dist by (simp add: map_ok_def m'_def)
  show "fst ` set (evict_oldest cap m) \<subseteq> fst ` set m" using sub by (auto simp: m'_def)
  show "stored (evict_oldest cap m) k = stored m k \<or> (stored (evict_oldest cap m) k = [] \<and> cap < length m)"
    using map_of_subset [OF assms sub dist, of k] same
    by (cases "length m \<le> cap") (auto simp: stored_def m'_def)
qed

lemma push_retain_ok:
  assumes "map_ok cap m"
  shows "distinct (map fst (push_retain now c k m))" "fst ` set (push_retain now c k m) = insert k (fst ` set m)"
    "stored (push_retain now c k m) k' = (if k' = k then filter (\<lambda>t. t > c) (stored m k @ [now]) else stored m k')"
  using assms by (auto simp: push_retain_def map_ok_def stored_def)

definition window_ok :: "int \<Rightarrow> bool" where
  "window_ok w \<longleftrightarrow> 0 \<le> w \<and> w \<le> i64_max"

text \<open>Recording, on the map alone: push, trim, evict.\<close>

lemma record_map_law:
  assumes "map_ok cap m" "clock now" "now \<le> now'" "window_ok w"
    and m'_def: "m' = evict_oldest cap (push_retain now (i64_wrap (now - w)) k m)"
  shows "live w now' (stored m' k') = live w now' (stored m k' @ (if k' = k then [now] else [])) \<or>
    (stored m' k' = [] \<and> cap < card (insert k (fst ` set m)))"
proof -
  let ?p = "push_retain now (now - w) k m"
  have m': "m' = evict_oldest cap ?p" using cutoff_exact [OF assms(2)] assms(4) by (simp add: m'_def window_ok_def)
  have "length ?p = card (insert k (fst ` set m))"
    using push_retain_ok(1,2) [OF assms(1), of now "now - w" k] by (metis distinct_card length_map set_map)
  moreover have "live w now' (stored ?p k') = live w now' (stored m k' @ (if k' = k then [now] else []))"
    using live_filter [OF assms(3), of w "stored m k @ [now]"]
    by (simp add: push_retain_ok(3) [OF assms(1)] del: filter_append filter.simps)
  ultimately show ?thesis
    using evict_ok(3) [OF push_retain_ok(1) [OF assms(1)], of cap now "now - w" k k'] unfolding m' by auto
qed

lemma check_map_ok:
  assumes "map_ok cap m"
  shows "map_ok cap (snd (check_key c b k m))" "fst ` set (snd (check_key c b k m)) \<subseteq> fst ` set m"
proof -
  have "map_ok cap (snd (check_key c b k m)) \<and> fst ` set (snd (check_key c b k m)) \<subseteq> fst ` set m"
  proof (cases "map_of m k")
    case (Some ts)
    then have k: "k \<in> fst ` set m" by (rule map_of_in_keys)
    have "map_ok cap (hm_insert k v m) \<and> fst ` set (hm_insert k v m) \<subseteq> fst ` set m" for v
      using assms k by (simp add: map_ok_def length_hm_insert insert_absorb)
    moreover have "map_ok cap (hm_remove k m) \<and> fst ` set (hm_remove k m) \<subseteq> fst ` set m"
      using assms length_hm_remove_le [of k m] by (auto simp: map_ok_def set_hm_remove)
    ultimately show ?thesis using Some by (simp add: check_key_def Let_def)
  qed (use assms in \<open>simp add: check_key_def\<close>)
  then show "map_ok cap (snd (check_key c b k m))" "fst ` set (snd (check_key c b k m)) \<subseteq> fst ` set m" by blast+
qed

lemma check_map_law:
  assumes "clock now" "window_ok w"
  shows "now \<le> now' \<Longrightarrow> live w now' (stored (snd (check_key (i64_wrap (now - w)) b k m)) k') = live w now' (stored m k')"
    "fst (check_key (i64_wrap (now - w)) b k m) \<longleftrightarrow>
       live w now (stored m k) \<noteq> [] \<and> b \<le> of_nat (length (live w now (stored m k)))"
proof -
  have c: "i64_wrap (now - w) = now - w" using assms by (intro cutoff_exact) (auto simp: window_ok_def)
  show "live w now' (stored (snd (check_key (i64_wrap (now - w)) b k m)) k') = live w now' (stored m k')" if "now \<le> now'"
    using live_filter [OF that, of w] unfolding c
    by (auto simp: check_key_def Let_def stored_def split: option.splits) (metis filter.simps(1) live_def)+
  show "fst (check_key (i64_wrap (now - w)) b k m) \<longleftrightarrow>
       live w now (stored m k) \<noteq> [] \<and> b \<le> of_nat (length (live w now (stored m k)))"
    unfolding c by (auto simp: check_key_def Let_def stored_def live_def split: option.splits)
qed

definition generic_ok :: "GenericRateLimiter \<Rightarrow> bool" where
  "generic_ok l \<longleftrightarrow> map_ok MAX_KEYS (g_attempts l) \<and> window_ok (g_window_secs l)"

definition login_ok :: "LoginRateLimiter \<Rightarrow> bool" where
  "login_ok l \<longleftrightarrow> map_ok MAX_ATTEMPT_KEYS (l_attempts l) \<and> window_ok (l_lockout_secs l)"

lemma record_map_ok:
  assumes "map_ok cap m"
  shows "map_ok cap (evict_oldest cap (push_retain now c k m))"
    "fst ` set (evict_oldest cap (push_retain now c k m)) \<subseteq> insert k (fst ` set m)"
  using evict_ok(1,2) [OF push_retain_ok(1) [OF assms]] push_retain_ok(2) [OF assms] by blast+

lemma remove_map_ok: "map_ok cap m \<Longrightarrow> map_ok cap (hm_remove k m)"
  using length_hm_remove_le [of k m] by (auto simp: map_ok_def)

lemma stored_remove: "stored (hm_remove k m) k' = (if k' = k then [] else stored m k')"
  by (simp add: stored_def)

lemmas generic_defs = record_attempt_def is_limited_def clear_generic_def disabled_def generic_ok_def
lemmas login_defs = record_failure_def is_locked_def clear_login_def lockout_disabled_def login_ok_def login_cutoff_def

interpretation generic: window_limiter generic_ok "\<lambda>l. stored (g_attempts l)" "\<lambda>l. fst ` set (g_attempts l)"
  g_window_secs g_max_attempts MAX_KEYS record_attempt is_limited clear_generic
proof
  fix s :: GenericRateLimiter and now now' :: int and k k' :: string
  show "generic_ok s \<Longrightarrow> generic_ok (record_attempt now k s)" by (simp add: generic_defs record_map_ok)
  show "generic_ok s \<Longrightarrow> generic_ok (snd (is_limited now k s))"
    by (simp add: generic_defs check_map_ok case_prod_beta)
  show "generic_ok s \<Longrightarrow> generic_ok (clear_generic k s)" by (simp add: generic_defs remove_map_ok)
  show "g_window_secs (record_attempt now k s) = g_window_secs s"
    "g_window_secs (snd (is_limited now k s)) = g_window_secs s" "g_window_secs (clear_generic k s) = g_window_secs s"
    "g_max_attempts (record_attempt now k s) = g_max_attempts s"
    "g_max_attempts (snd (is_limited now k s)) = g_max_attempts s" "g_max_attempts (clear_generic k s) = g_max_attempts s"
    by (simp_all add: generic_defs case_prod_beta)
  show "generic_ok s \<Longrightarrow> fst ` set (g_attempts (record_attempt now k s)) \<subseteq> insert k (fst ` set (g_attempts s))"
    using record_map_ok(2) by (auto simp: generic_defs)
  show "generic_ok s \<Longrightarrow> fst ` set (g_attempts (snd (is_limited now k s))) \<subseteq> fst ` set (g_attempts s)"
    using check_map_ok(2) [of MAX_KEYS "g_attempts s"] by (simp add: generic_defs case_prod_beta)
  show "generic_ok s \<Longrightarrow> fst ` set (g_attempts (clear_generic k s)) \<subseteq> fst ` set (g_attempts s)"
    by (auto simp: generic_defs set_hm_remove)
  show "live (g_window_secs s) now' (stored (g_attempts (record_attempt now k s)) k') =
        live (g_window_secs s) now' (stored (g_attempts s) k' @ (if k' = k then [now] else [])) \<or>
      (stored (g_attempts (record_attempt now k s)) k' = [] \<and> MAX_KEYS < card (insert k (fst ` set (g_attempts s))))"
    if "generic_ok s" "g_max_attempts s \<noteq> 0" "clock now" "now \<le> now'"
    using record_map_law [OF _ that(3,4) _ refl] that by (simp add: generic_defs)
  show "live (g_window_secs s) now' (stored (g_attempts (snd (is_limited now k s))) k') =
      live (g_window_secs s) now' (stored (g_attempts s) k')"
    if "generic_ok s" "clock now" "now \<le> now'"
    using check_map_law(1) [OF that(2) _ that(3)] that by (simp add: generic_defs case_prod_beta)
  show "stored (g_attempts (clear_generic k s)) k' = (if k' = k then [] else stored (g_attempts s) k')"
    by (simp add: generic_defs stored_remove)
  show "fst (is_limited now k s) = (g_max_attempts s \<noteq> 0 \<and> live (g_window_secs s) now (stored (g_attempts s) k) \<noteq> [] \<and>
      g_max_attempts s \<le> of_nat (length (live (g_window_secs s) now (stored (g_attempts s) k))))"
    if "generic_ok s" "clock now"
    using check_map_law(2) [OF that(2)] that by (simp add: generic_defs case_prod_beta)
qed

interpretation login: window_limiter login_ok "\<lambda>l. stored (l_attempts l)" "\<lambda>l. fst ` set (l_attempts l)"
  l_lockout_secs l_max_attempts MAX_ATTEMPT_KEYS record_failure is_locked clear_login
proof
  fix s :: LoginRateLimiter and now now' :: int and k k' :: string
  show "login_ok s \<Longrightarrow> login_ok (record_failure now k s)" by (simp add: login_defs record_map_ok)
  show "login_ok s \<Longrightarrow> login_ok (snd (is_locked now k s))" by (simp add: login_defs check_map_ok case_prod_beta)
  show "login_ok s \<Longrightarrow> login_ok (clear_login k s)" by (simp add: login_defs remove_map_ok)
  show "l_lockout_secs (record_failure now k s) = l_lockout_secs s"
    "l_lockout_secs (snd (is_locked now k s)) = l_lockout_secs s" "l_lockout_secs (clear_login k s) = l_lockout_secs s"
    "l_max_attempts (record_failure now k s) = l_max_attempts s"
    "l_max_attempts (snd (is_locked now k s)) = l_max_attempts s" "l_max_attempts (clear_login k s) = l_max_attempts s"
    by (simp_all add: login_defs case_prod_beta)
  show "login_ok s \<Longrightarrow> fst ` set (l_attempts (record_failure now k s)) \<subseteq> insert k (fst ` set (l_attempts s))"
    using record_map_ok(2) by (auto simp: login_defs)
  show "login_ok s \<Longrightarrow> fst ` set (l_attempts (snd (is_locked now k s))) \<subseteq> fst ` set (l_attempts s)"
    using check_map_ok(2) [of MAX_ATTEMPT_KEYS "l_attempts s"] by (simp add: login_defs case_prod_beta)
  show "login_ok s \<Longrightarrow> fst ` set (l_attempts (clear_login k s)) \<subseteq> fst ` set (l_attempts s)"
    by (auto simp: login_defs set_hm_remove)
  show "live (l_lockout_secs s) now' (stored (l_attempts (record_failure now k s)) k') =
        live (l_lockout_secs s) now' (stored (l_attempts s) k' @ (if k' = k then [now] else [])) \<or>
      (stored (l_attempts (record_failure now k s)) k' = [] \<and> MAX_ATTEMPT_KEYS < card (insert k (fst ` set (l_attempts s))))"
    if "login_ok s" "l_max_attempts s \<noteq> 0" "clock now" "now \<le> now'"
    using record_map_law [OF _ that(3,4) _ refl] that by (simp add: login_defs)
  show "live (l_lockout_secs s) now' (stored (l_attempts (snd (is_locked now k s))) k') =
      live (l_lockout_secs s) now' (stored (l_attempts s) k')"
    if "login_ok s" "clock now" "now \<le> now'"
    using check_map_law(1) [OF that(2) _ that(3)] that by (simp add: login_defs case_prod_beta)
  show "stored (l_attempts (clear_login k s)) k' = (if k' = k then [] else stored (l_attempts s) k')"
    by (simp add: login_defs stored_remove)
  show "fst (is_locked now k s) = (l_max_attempts s \<noteq> 0 \<and> live (l_lockout_secs s) now (stored (l_attempts s) k) \<noteq> [] \<and>
      l_max_attempts s \<le> of_nat (length (live (l_lockout_secs s) now (stored (l_attempts s) k))))"
    if "login_ok s" "clock now"
    using check_map_law(2) [OF that(2)] that by (simp add: login_defs case_prod_beta)
qed

lemma u64_as_i64_small: "int n \<le> i64_max \<Longrightarrow> u64_as_i64 n = int n"
  unfolding u64_as_i64_def by (rule i64_wrap_id) auto

lemma new_generic_ok: "int w \<le> i64_max \<Longrightarrow> generic_ok (new_generic b w)"
  by (simp add: generic_ok_def new_generic_def map_ok_def window_ok_def u64_as_i64_small)

lemma new_login_ok: "int w \<le> i64_max \<Longrightarrow> login_ok (new_login b w d)"
  by (simp add: login_ok_def new_login_def map_ok_def window_ok_def u64_as_i64_small)

text \<open>
  C29: the generic limiter counts exactly. After any sequence of attempts, checks and resets with
  a clock that does not run backwards, a key is reported limited only if the attempts inside the
  window since its last reset use up the budget; and if they do, it is reported, as long as no
  more than \<open>MAX_KEYS\<close> keys were seen, so that nothing was evicted.
\<close>

theorem generic_limiter_exact:
  assumes "b \<noteq> 0" "int w \<le> i64_max"
    and "sorted (map event_time es @ [now])" "\<forall>e\<in>set es. clock (event_time e)" "clock now"
    and "n = length (live (int w) now (history k es))" "n < 2 ^ 32"
    and "s = fold generic.step es (new_generic b w)"
  shows "(fst (is_limited now k s) \<longrightarrow> b \<le> of_nat n) \<and>
    (card (recorded es) \<le> MAX_KEYS \<longrightarrow> (fst (is_limited now k s) \<longleftrightarrow> b \<le> of_nat n)) \<and>
    length (g_attempts s) \<le> MAX_KEYS"
proof -
  let ?s0 = "new_generic b w"
  have ok: "generic_ok ?s0" by (rule new_generic_ok [OF assms(2)])
  have s0: "g_max_attempts ?s0 \<noteq> 0" "stored (g_attempts ?s0) k = []" "fst ` set (g_attempts ?s0) = {}"
    "g_window_secs ?s0 = int w" "g_max_attempts ?s0 = b" for k
    using assms(1,2) by (simp_all add: new_generic_def stored_def u64_as_i64_small)
  have "generic_ok s" unfolding assms(8) by (rule generic.run_limits(1) [OF ok])
  then have "length (g_attempts s) \<le> MAX_KEYS" by (simp add: generic_ok_def map_ok_def)
  then show ?thesis
    using generic.check_after_run [OF ok s0(1-3) assms(3-5), of n k] assms(6-8) s0(4,5) by auto
qed

theorem generic_limiter_exact_witness:
  "let es = [Record 100 ''k'', Record 101 ''x'', Check 102 ''k'', Record 130 ''k''];
       s = fold generic.step es (new_generic 2 60)
   in fst (is_limited 140 ''k'' s) \<and> \<not> fst (is_limited 165 ''k'' s)"
proof -
  define es where "es = [Record 100 ''k'', Record 101 ''x'', Check 102 ''k'', Record 130 ''k'']"
  define s where "s = fold generic.step es (new_generic 2 60)"
  have rec: "card (recorded es) \<le> MAX_KEYS"
  proof -
    have "recorded es = {''k'', ''x''}" by (auto simp: recorded_def es_def)
    then show ?thesis by (simp add: MAX_KEYS_def)
  qed
  have h: "history ''k'' es = [100, 130]" by (simp add: es_def)
  have "fst (is_limited now ''k'' s) \<longleftrightarrow> (2 :: 32 word) \<le> of_nat (length (live 60 now (history ''k'' es)))"
    if "130 \<le> now" "now \<le> 1000" for now
    using generic_limiter_exact [of 2 60 es now _ "''k''" s] rec that
    by (auto simp: s_def es_def clock_def live_def)
  from this [of 140] this [of 165] show ?thesis by (simp add: Let_def h live_def word_le_nat_alt flip: es_def s_def)
qed

section \<open>Credential spraying\<close>

text \<open>Login outcomes in order; a failure reads the clock once per recorder.\<close>

datatype login_event = Failure int int LoginKeys | Success LoginKeys

fun login_step :: "login_event \<Rightarrow> LoginRateLimiter \<Rightarrow> LoginRateLimiter" where
  "login_step (Failure t t' ks) l = record_login_failure t t' ks l"
| "login_step (Success ks) l = clear_login_failure ks l"

definition failed_accounts :: "int \<Rightarrow> string \<Rightarrow> login_event list \<Rightarrow> string set" where
  "failed_accounts since ip es = {u. \<exists>t t' ks. Failure t t' ks \<in> set es \<and> client_ip ks = ip \<and> lk_username ks = u \<and> t' > since}"

definition failed_ips :: "login_event list \<Rightarrow> string set" where
  "failed_ips es = {ip. \<exists>t t' ks. Failure t t' ks \<in> set es \<and> client_ip ks = ip}"

lemma failed_simps [simp]:
  "failed_accounts since ip [] = {}"
  "failed_accounts since ip (Failure t t' ks # es) =
     (if client_ip ks = ip \<and> t' > since then insert (lk_username ks) (failed_accounts since ip es)
      else failed_accounts since ip es)"
  "failed_accounts since ip (Success ks # es) = failed_accounts since ip es"
  "failed_ips [] = {}" "failed_ips (Failure t t' ks # es) = insert (client_ip ks) (failed_ips es)"
  "failed_ips (Success ks # es) = failed_ips es"
  by (auto simp: failed_accounts_def failed_ips_def)

definition fail_times :: "login_event list \<Rightarrow> int list" where
  "fail_times es = List.map_filter (\<lambda>e. case e of Failure t t' ks \<Rightarrow> Some t' | Success _ \<Rightarrow> None) es"

definition per_ip :: "LoginRateLimiter \<Rightarrow> string \<Rightarrow> (string \<times> int) list" where
  "per_ip l ip = (case map_of (l_spray l) ip of Some p \<Rightarrow> p | None \<Rightarrow> [])"

definition spray_inv :: "int \<Rightarrow> 32 word \<Rightarrow> login_event list \<Rightarrow> LoginRateLimiter \<Rightarrow> bool" where
  "spray_inv w d es l \<longleftrightarrow> l_lockout_secs l = w \<and> l_max_distinct l = d \<and>
     distinct (map fst (l_spray l)) \<and> fst ` set (l_spray l) \<subseteq> failed_ips es \<and>
     (\<forall>ip. distinct (map fst (per_ip l ip)) \<and> (\<forall>(u, t)\<in>set (per_ip l ip). t \<in> set (fail_times es)) \<and>
       (\<forall>now. (\<forall>t\<in>set (fail_times es). t \<le> now) \<longrightarrow>
          {u. \<exists>t. (u, t) \<in> set (per_ip l ip) \<and> t > now - w} = failed_accounts (now - w) ip es))"

lemma spray_other_fields:
  "l_spray (record_failures t ks l) = l_spray l" "l_lockout_secs (record_failures t ks l) = l_lockout_secs l"
  "l_max_distinct (record_failures t ks l) = l_max_distinct l"
  "l_spray (clear_login_failure keys l) = l_spray l" "l_lockout_secs (clear_login_failure keys l) = l_lockout_secs l"
  "l_max_distinct (clear_login_failure keys l) = l_max_distinct l"
  by (simp_all add: record_failures_def clear_login_failure_def clear_login_def)

lemma finite_failed_ips: "finite (failed_ips es)"
proof -
  have "failed_ips es \<subseteq> (\<lambda>e. case e of Failure t t' ks \<Rightarrow> client_ip ks | Success ks \<Rightarrow> []) ` set es"
    by (force simp: failed_ips_def image_iff split: login_event.splits)
  then show ?thesis by (rule finite_subset) simp
qed

lemma set_hm_insert_eq:
  "distinct (map fst m) \<Longrightarrow> set (hm_insert k v m) = insert (k, v) {p \<in> set m. fst p \<noteq> k}"
  by (induction k v m rule: hm_insert.induct) force+

lemma spray_entry_step:
  fixes P :: "(string \<times> int) list"
  assumes "distinct (map fst P)" "\<forall>(u, t)\<in>set P. t \<le> t'" "t' \<le> now"
  shows "{x. \<exists>t. (x, t) \<in> set (hm_insert u t' (filter (\<lambda>(_, t). t > t' - w) P)) \<and> t > now - w} =
    {x. \<exists>t. (x, t) \<in> set P \<and> t > now - w} \<union> (if t' > now - w then {u} else {})"
proof -
  have "distinct (map fst (filter (\<lambda>(_, t). t > t' - w) P))" using assms(1) by (simp add: distinct_map_filter)
  note eq = set_hm_insert_eq [OF this, of u t']
  show ?thesis
  proof (intro set_eqI iffI)
    fix x assume "x \<in> {x. \<exists>t. (x, t) \<in> set P \<and> t > now - w} \<union> (if t' > now - w then {u} else {})"
    then consider t where "(x, t) \<in> set P" "t > now - w" | "x = u" "t' > now - w" by (auto split: if_splits)
    then show "x \<in> {x. \<exists>t. (x, t) \<in> set (hm_insert u t' (filter (\<lambda>(_, t). t > t' - w) P)) \<and> t > now - w}"
    proof cases
      case 1
      have "t > t' - w" using 1(2) assms(3) by linarith
      moreover have "t \<le> t'" using 1(1) assms(2) by auto
      ultimately show ?thesis using 1 by (cases "x = u") (auto simp: eq intro: exI [of _ t'])
    next
      case 2
      then show ?thesis by (auto simp: eq)
    qed
  qed (auto simp: eq split: if_splits)
qed

text \<open>While the tracked addresses fit, recording one account changes one entry.\<close>

lemma record_username_no_evict:
  assumes "map_of (l_spray l) ip = None \<longrightarrow> length (l_spray l) < MAX_SPRAY_IPS"
  shows "l_spray (record_username_failure now ip u l) = hm_insert ip (hm_insert u now
      (filter (\<lambda>(_, t). t > login_cutoff now l) (per_ip l ip))) (l_spray l)"
    "l_lockout_secs (record_username_failure now ip u l) = l_lockout_secs l"
    "l_max_distinct (record_username_failure now ip u l) = l_max_distinct l"
  using assms by (auto simp: record_username_failure_def per_ip_def Let_def)

lemma spray_inv_step:
  assumes inv: "spray_inv w d es l" and w: "window_ok w"
    and srt: "sorted (fail_times (es @ [e]))" and clk: "\<forall>t\<in>set (fail_times (es @ [e])). clock t"
    and cap: "card (failed_ips (es @ [e])) \<le> MAX_SPRAY_IPS"
  shows "spray_inv w d (es @ [e]) (login_step e l)"
proof (cases e)
  case (Success ks)
  have "fail_times (es @ [e]) = fail_times es" "failed_ips (es @ [e]) = failed_ips es"
    "failed_accounts since ip (es @ [e]) = failed_accounts since ip es" for since ip
    by (auto simp: Success fail_times_def failed_ips_def failed_accounts_def List.map_filter_def)
  moreover have "per_ip (login_step e l) ip = per_ip l ip" for ip
    by (simp add: Success per_ip_def spray_other_fields)
  ultimately show ?thesis using inv by (simp add: Success spray_inv_def spray_other_fields)
next
  case (Failure t t' ks)
  let ?l = "record_failures t [ip_key ks, pair_key ks] l" and ?ip = "client_ip ks" and ?u = "lk_username ks"
  let ?l' = "record_username_failure t' ?ip ?u ?l"
  have ft: "fail_times (es @ [e]) = fail_times es @ [t']"
    by (simp add: fail_times_def Failure List.map_filter_def)
  have le: "\<forall>x\<in>set (fail_times es). x \<le> t'" using srt by (simp add: ft sorted_append)
  have fi: "failed_ips (es @ [e]) = insert ?ip (failed_ips es)" by (auto simp: failed_ips_def Failure)
  have fa: "failed_accounts since ip (es @ [e]) =
      failed_accounts since ip es \<union> (if ip = ?ip \<and> t' > since then {?u} else {})" for since ip
    by (auto simp: failed_accounts_def Failure)
  have d0: "distinct (map fst (l_spray l))" and k0: "fst ` set (l_spray l) \<subseteq> failed_ips es"
    using inv by (auto simp: spray_inv_def)
  have room: "map_of (l_spray ?l) ?ip = None \<longrightarrow> length (l_spray ?l) < MAX_SPRAY_IPS"
  proof
    assume that: "map_of (l_spray ?l) ?ip = None"
    have "?ip \<notin> fst ` set (l_spray l)" using that by (simp add: spray_other_fields map_of_eq_None_iff)
    then have "Suc (length (l_spray l)) = card (insert ?ip (fst ` set (l_spray l)))"
      using d0 by (metis card_insert_disjoint distinct_card finite_set length_map set_map)
    also have "\<dots> \<le> card (failed_ips (es @ [e]))"
      by (rule card_mono [OF finite_failed_ips]) (use k0 fi in auto)
    finally show "length (l_spray ?l) < MAX_SPRAY_IPS" using cap by (simp add: spray_other_fields)
  qed
  note upd = record_username_no_evict [OF room]
  have cut: "login_cutoff t' ?l = t' - w"
    using inv clk w by (simp add: login_cutoff_def spray_other_fields spray_inv_def ft cutoff_exact window_ok_def)
  have per: "per_ip ?l' ip = (if ip = ?ip then hm_insert ?u t' (filter (\<lambda>(_, t). t > t' - w) (per_ip l ip)) else per_ip l ip)" for ip
    by (simp add: per_ip_def upd(1) cut) (simp add: per_ip_def spray_other_fields)
  have one: "distinct (map fst (per_ip ?l' ip)) \<and> (\<forall>(u, t)\<in>set (per_ip ?l' ip). t \<in> set (fail_times (es @ [e]))) \<and>
       (\<forall>now. (\<forall>t\<in>set (fail_times (es @ [e])). t \<le> now) \<longrightarrow>
          {u. \<exists>t. (u, t) \<in> set (per_ip ?l' ip) \<and> t > now - w} = failed_accounts (now - w) ip (es @ [e]))" for ip
  proof -
    have I: "distinct (map fst (per_ip l ip))" "\<forall>(u, t)\<in>set (per_ip l ip). t \<in> set (fail_times es)"
      "\<And>now. \<forall>t\<in>set (fail_times es). t \<le> now \<Longrightarrow>
          {u. \<exists>t. (u, t) \<in> set (per_ip l ip) \<and> t > now - w} = failed_accounts (now - w) ip es"
      using inv by (auto simp: spray_inv_def)
    show ?thesis
    proof (cases "ip = ?ip")
      case True
      have "\<forall>(u, t)\<in>set (per_ip l ip). t \<le> t'" using I(2) le by auto
      from spray_entry_step [OF I(1) this] show ?thesis
        using I True hm_insert_subset [of ?u t' "filter (\<lambda>(_, t). t > t' - w) (per_ip l ip)"]
        by (auto simp: per fa ft distinct_map_filter)
    next
      case False
      then show ?thesis using I by (auto simp: per fa ft)
    qed
  qed
  have "distinct (map fst (l_spray ?l'))" "fst ` set (l_spray ?l') \<subseteq> failed_ips (es @ [e])"
    "l_lockout_secs ?l' = w" "l_max_distinct ?l' = d"
    using inv d0 k0 by (simp_all add: upd spray_other_fields fi spray_inv_def) blast
  moreover have "login_step e l = ?l'" by (simp add: Failure record_login_failure_def)
  ultimately show ?thesis using one unfolding spray_inv_def by simp
qed

text \<open>
  The spray detector counts distinct accounts, and successful logins do not reset it. After
  any sequence of failed and successful logins from at most \<open>MAX_SPRAY_IPS\<close> failing addresses, an
  address is reported as spraying exactly when the accounts it failed on inside the window reach
  the budget.
\<close>

theorem spray_counts_accounts:
  assumes "d \<noteq> 0" "int w \<le> i64_max"
    and "sorted (fail_times es @ [now])" "\<forall>t\<in>set (fail_times es @ [now]). clock t"
    and "card (failed_ips es) \<le> MAX_SPRAY_IPS"
    and "n = card (failed_accounts (now - int w) ip es)" "n < 2 ^ 32"
  shows "fst (is_spraying now ip (fold login_step es (new_login b w d))) \<longleftrightarrow> n \<noteq> 0 \<and> d \<le> of_nat n"
proof -
  have w: "window_ok (int w)" using assms(2) by (simp add: window_ok_def)
  have inv: "sorted (fail_times es) \<Longrightarrow> \<forall>t\<in>set (fail_times es). clock t \<Longrightarrow> card (failed_ips es) \<le> MAX_SPRAY_IPS \<Longrightarrow>
      spray_inv (int w) d es (fold login_step es (new_login b w d))" for es
  proof (induction es rule: rev_induct)
    case Nil
    then show ?case using assms(2)
      by (simp add: spray_inv_def new_login_def u64_as_i64_small per_ip_def failed_accounts_def)
  next
    case (snoc e es)
    have ft: "\<exists>ys. fail_times (es @ [e]) = fail_times es @ ys" by (auto simp: fail_times_def List.map_filter_def)
    then have "sorted (fail_times es)" "\<forall>t\<in>set (fail_times es). clock t"
      using snoc.prems(1,2) by (auto simp: sorted_append)
    moreover have "card (failed_ips es) \<le> card (failed_ips (es @ [e]))"
      by (rule card_mono [OF finite_failed_ips]) (auto simp: failed_ips_def)
    ultimately have "spray_inv (int w) d es (fold login_step es (new_login b w d))"
      using snoc.IH snoc.prems(3) by simp
    then show ?case using spray_inv_step [OF _ w snoc.prems] by simp
  qed
  let ?l = "fold login_step es (new_login b w d)" and ?since = "now - int w"
  have I: "spray_inv (int w) d es ?l" using inv assms(3-5) by (simp add: sorted_append)
  let ?kept = "filter (\<lambda>(_, t). t > ?since) (per_ip ?l ip)"
  have "distinct (map fst ?kept)" using I by (simp add: spray_inv_def distinct_map_filter)
  then have "length ?kept = card (fst ` set ?kept)" by (metis distinct_card length_map set_map)
  also have "fst ` set ?kept = {u. \<exists>t. (u, t) \<in> set (per_ip ?l ip) \<and> t > ?since}" by force
  also have "\<dots> = failed_accounts ?since ip es"
    using I assms(3) by (auto simp: spray_inv_def sorted_append)
  finally have len: "length ?kept = n" by (simp add: assms(6))
  have c: "login_cutoff now ?l = ?since" "l_max_distinct ?l = d"
    using I assms(4) w by (auto simp: login_cutoff_def spray_inv_def window_ok_def intro: cutoff_exact)
  show ?thesis
  proof (cases "map_of (l_spray ?l) ip")
    case None
    then show ?thesis using len by (simp add: is_spraying_def per_ip_def)
  next
    case (Some p)
    then have "?kept = filter (\<lambda>(_, t). t > ?since) p" by (simp add: per_ip_def)
    then show ?thesis using len c assms(1) Some by (auto simp: is_spraying_def Let_def)
  qed
qed

theorem spray_counts_accounts_witness:
  "let es = [Failure 10 10 (new_login_keys ''i'' ''a''), Success (new_login_keys ''i'' ''a''),
             Failure 20 20 (new_login_keys ''i'' ''b'')]
   in fst (is_spraying 30 ''i'' (fold login_step es (new_login 5 60 2)))"
proof -
  define es where "es = [Failure 10 10 (new_login_keys ''i'' ''a''), Success (new_login_keys ''i'' ''a''),
             Failure 20 20 (new_login_keys ''i'' ''b'')]"
  have a: "failed_accounts (30 - int 60) ''i'' es = {''a'', ''b''}"
    by (simp add: es_def new_login_keys_def)
  have i: "failed_ips es = {''i''}" by (simp add: es_def new_login_keys_def)
  have t: "fail_times es = [10, 20]" by (simp add: fail_times_def es_def List.map_filter_def)
  have "fst (is_spraying 30 ''i'' (fold login_step es (new_login 5 60 2))) \<longleftrightarrow> 2 \<noteq> (0 :: nat) \<and> (2 :: 32 word) \<le> of_nat 2"
    by (rule spray_counts_accounts) (use a i t in \<open>simp_all add: clock_def MAX_SPRAY_IPS_def\<close>)
  then show ?thesis by (simp add: Let_def flip: es_def)
qed

end
