(* ===== verification/Cdc.thy ===== *)
theory Cdc
  imports Prelude
begin

unbundle bit_operations_syntax

text \<open>
  Content-defined chunking, \<open>infra/src/storage/cdc.rs\<close>: the rolling fingerprint over GF(2), the
  whole-input chunker and the incremental \<open>Chunker\<close>.

  A byte is an \<open>8 word\<close>, a fingerprint a \<open>64 word\<close>; the static tables are functions of their
  index. Positions and lengths are below the length of a slice in memory, so \<open>usize\<close> is
  \<^typ>\<open>nat\<close>. The loops of the chunkers may run forever for degenerate sizes: they are partial
  functions, and \<open>None\<close> is the absence of a result (a loop without end or a failed
  \<open>debug_assert\<close>).
\<close>

type_synonym byte = "8 word"

section \<open>Parameters\<close>

definition SEAFILE_AVG_BLOCK :: nat where "SEAFILE_AVG_BLOCK = 8 * 1024 * 1024"
definition SEAFILE_MIN_BLOCK :: nat where "SEAFILE_MIN_BLOCK = 6 * 1024 * 1024"
definition SEAFILE_MAX_BLOCK :: nat where "SEAFILE_MAX_BLOCK = 10 * 1024 * 1024"

record ChunkSizes =
  cs_avg :: nat
  cs_min :: nat
  cs_max :: nat

definition SEAFILE :: ChunkSizes where
  "SEAFILE = \<lparr>cs_avg = SEAFILE_AVG_BLOCK, cs_min = SEAFILE_MIN_BLOCK, cs_max = SEAFILE_MAX_BLOCK\<rparr>"

definition POLYNOMIAL :: "64 word" where "POLYNOMIAL = 0xbfe6b8a5bf378d83"
definition WINDOW_BYTES :: nat where "WINDOW_BYTES = 48"
definition BREAK_PATTERN :: "32 word" where "BREAK_PATTERN = 0x13"
definition TABLE_INDEX_SHIFT :: nat where "TABLE_INDEX_SHIFT = 55"
definition FINGERPRINT_MASK :: "64 word" where "FINGERPRINT_MASK = 0xffffffff"

section \<open>Arithmetic over GF(2)\<close>

fun bit_len :: "nat \<Rightarrow> nat" where
  "bit_len n = (if n = 0 then 0 else Suc (bit_len (n div 2)))"

declare bit_len.simps [simp del]

definition msb_position :: "64 word \<Rightarrow> nat" where
  "msb_position v = bit_len (unat v)"

definition multiply_wide :: "64 word \<Rightarrow> 64 word \<Rightarrow> 64 word \<times> 64 word" where
  "multiply_wide x y =
     fold (\<lambda>k (high, low).
       if x AND push_bit k 1 \<noteq> 0 then (high XOR drop_bit (64 - k) y, low XOR push_bit k y) else (high, low))
       [1..<64] (0, if x AND 1 = 0 then 0 else y)"

definition reduce_product :: "64 word \<Rightarrow> 64 word \<Rightarrow> 64 word \<Rightarrow> 64 word" where
  "reduce_product high low divisor =
     (let degree = msb_position divisor - 1;
          scaled = push_bit (63 - degree) divisor;
          (high, low) =
            (if high \<noteq> 0 then
               fold (\<lambda>k (high, low).
                 if high AND push_bit k 1 \<noteq> 0
                 then (high XOR drop_bit (63 - k) scaled, low XOR push_bit (k + 1) scaled) else (high, low))
                 (rev [0..<63]) (if high AND push_bit 63 1 \<noteq> 0 then high XOR scaled else high, low)
             else (high, low))
      in fold (\<lambda>k low. if low AND push_bit k 1 \<noteq> 0 then low XOR drop_bit (63 - k) scaled else low)
           (rev [degree..<64]) low)"

definition multiply_mod :: "64 word \<Rightarrow> 64 word \<Rightarrow> 64 word \<Rightarrow> 64 word" where
  "multiply_mod x y divisor = (let (high, low) = multiply_wide x y in reduce_product high low divisor)"

text \<open>\<open>build_tables\<close>: one function per table.\<close>

definition table_unit :: "64 word" where
  "table_unit = reduce_product 0 (push_bit 63 1) POLYNOMIAL"

definition incoming_table :: "64 word \<Rightarrow> 64 word" where
  "incoming_table b = multiply_mod b table_unit POLYNOMIAL OR push_bit 63 b"

definition window_contribution :: "64 word" where
  "window_contribution =
     fold (\<lambda>_ c. push_bit 8 c XOR incoming_table (drop_bit TABLE_INDEX_SHIFT c)) [1..<WINDOW_BYTES] 1"

definition outgoing_table :: "64 word \<Rightarrow> 64 word" where
  "outgoing_table b = multiply_mod b window_contribution POLYNOMIAL"

section \<open>The rolling fingerprint\<close>

definition advance :: "64 word \<Rightarrow> byte \<Rightarrow> 64 word" where
  "advance fingerprint b =
     (push_bit 8 fingerprint OR ucast b) XOR incoming_table (drop_bit TABLE_INDEX_SHIFT fingerprint)"

definition window_fingerprint :: "byte list \<Rightarrow> 64 word" where
  "window_fingerprint window =
     fold (\<lambda>b fingerprint. advance fingerprint b AND FINGERPRINT_MASK) window 0"

definition roll :: "64 word \<Rightarrow> byte \<Rightarrow> byte \<Rightarrow> 64 word" where
  "roll fingerprint outgoing incoming =
     advance (fingerprint XOR outgoing_table (ucast outgoing)) incoming AND FINGERPRINT_MASK"

section \<open>Chunking a whole input\<close>

definition break_mask :: "ChunkSizes \<Rightarrow> 32 word" where
  "break_mask sizes = of_nat (cs_avg sizes) - 1"

definition is_break :: "ChunkSizes \<Rightarrow> 64 word \<Rightarrow> bool" where
  "is_break sizes fingerprint \<longleftrightarrow>
     (ucast fingerprint :: 32 word) AND break_mask sizes = BREAK_PATTERN AND break_mask sizes"

text \<open>The inner loop: the chunk it pushes and the next start.\<close>

function probe_loop ::
    "byte list \<Rightarrow> ChunkSizes \<Rightarrow> nat \<Rightarrow> nat \<Rightarrow> 64 word \<Rightarrow> (nat \<times> nat) \<times> nat" where
  "probe_loop data sizes start position fingerprint =
     (if is_break sizes fingerprint then ((start, position - start + 1), position + 1)
      else if start + cs_max sizes \<le> position + 1 \<or> length data \<le> position + 1 then
        ((start, min (cs_max sizes) (length data - start)), start + cs_max sizes)
      else let position = position + 1 in
        probe_loop data sizes start position
          (roll fingerprint (data ! (position - WINDOW_BYTES)) (data ! position)))"
  by pat_completeness auto
termination
  by (relation "measure (\<lambda>(data, sizes, start, position, fingerprint). length data - position)") auto

declare probe_loop.simps [simp del]

text \<open>The bytes \<open>data[from..to]\<close>.\<close>

definition slice :: "'a list \<Rightarrow> nat \<Rightarrow> nat \<Rightarrow> 'a list" where
  "slice data from to = take (to - from) (drop from data)"

partial_function (option) chunk_loop ::
    "byte list \<Rightarrow> ChunkSizes \<Rightarrow> nat \<Rightarrow> (nat \<times> nat) list \<Rightarrow> (nat \<times> nat) list option" where
  "chunk_loop data sizes start chunks =
     (if length data \<le> start then Some chunks
      else if length data - start \<le> cs_min sizes then Some (chunks @ [(start, length data - start)])
      else
        let position = start + cs_min sizes - 1;
            fingerprint = window_fingerprint (slice data (position + 1 - WINDOW_BYTES) (position + 1));
            (chunk, start) = probe_loop data sizes start position fingerprint
        in chunk_loop data sizes start (chunks @ [chunk]))"

declare chunk_loop.simps [code]

definition file_chunk_cdc_with :: "byte list \<Rightarrow> ChunkSizes \<Rightarrow> (nat \<times> nat) list option" where
  "file_chunk_cdc_with data sizes =
     (if cs_min sizes < WINDOW_BYTES then None else chunk_loop data sizes 0 [])"

definition file_chunk_cdc :: "byte list \<Rightarrow> (nat \<times> nat) list option" where
  "file_chunk_cdc data = file_chunk_cdc_with data SEAFILE"

section \<open>The incremental chunker\<close>

record Chunker =
  ck_sizes :: ChunkSizes
  pending :: "byte list"
  ck_fingerprint :: "64 word"
  next_probe :: nat
  probing :: bool

definition with_sizes :: "nat \<Rightarrow> ChunkSizes \<Rightarrow> Chunker option" where
  "with_sizes file_size sizes =
     (if cs_min sizes < WINDOW_BYTES then None
      else Some \<lparr>ck_sizes = sizes, pending = [], ck_fingerprint = 0, next_probe = 0, probing = False\<rparr>)"

definition new_chunker :: "nat \<Rightarrow> Chunker option" where
  "new_chunker file_size = with_sizes file_size SEAFILE"

definition emit :: "nat \<Rightarrow> Chunker \<times> byte list list \<Rightarrow> Chunker \<times> byte list list" where
  "emit len = (\<lambda>(c, completed).
     (c\<lparr>pending := drop len (pending c), ck_fingerprint := 0, next_probe := 0, probing := False\<rparr>,
      completed @ [take len (pending c)]))"

partial_function (option) scan :: "Chunker \<Rightarrow> byte list list \<Rightarrow> (Chunker \<times> byte list list) option" where
  "scan c completed =
     (if \<not> probing c \<and> length (pending c) \<le> cs_min (ck_sizes c) then Some (c, completed)
      else
        let sizes = ck_sizes c;
            c = (if probing c then c
                 else c\<lparr>ck_fingerprint := window_fingerprint
                          (slice (pending c) (cs_min sizes - WINDOW_BYTES) (cs_min sizes)),
                        next_probe := cs_min sizes - 1, probing := True\<rparr>);
            position = next_probe c
        in
        if length (pending c) \<le> position then Some (c, completed)
        else if is_break sizes (ck_fingerprint c) then
          (case emit (position + 1) (c, completed) of (c, completed) \<Rightarrow> scan c completed)
        else if cs_max sizes \<le> position + 1 then
          (case emit (cs_max sizes) (c, completed) of (c, completed) \<Rightarrow> scan c completed)
        else if length (pending c) \<le> position + 1 then Some (c, completed)
        else scan (c\<lparr>ck_fingerprint := roll (ck_fingerprint c)
                       (pending c ! (position + 1 - WINDOW_BYTES)) (pending c ! (position + 1)),
                     next_probe := position + 1\<rparr>) completed)"

declare scan.simps [code]

definition buffer_limit :: "ChunkSizes \<Rightarrow> nat" where
  "buffer_limit sizes = max (cs_max sizes) (usize_sat_add (cs_min sizes) 1)"

partial_function (option) feed_loop ::
    "byte list \<Rightarrow> Chunker \<Rightarrow> byte list list \<Rightarrow> (Chunker \<times> byte list list) option" where
  "feed_loop bytes c completed =
     (if bytes = [] then Some (c, completed)
      else
        let limit = buffer_limit (ck_sizes c);
            room = limit - length (pending c)
        in
        if room = 0 then
          Option.bind (scan c completed) (\<lambda>(c, completed).
            if limit \<le> length (pending c) then Some (c, completed)
            else feed_loop bytes c completed)
        else
          let n = min room (length bytes) in
          Option.bind (scan (c\<lparr>pending := pending c @ take n bytes\<rparr>) completed) (\<lambda>(c, completed).
            feed_loop (drop n bytes) c completed))"

declare feed_loop.simps [code]

definition feed :: "byte list \<Rightarrow> Chunker \<Rightarrow> (byte list list \<times> Chunker) option" where
  "feed bytes c = map_option (\<lambda>(c, completed). (completed, c)) (feed_loop bytes c [])"

definition finish :: "Chunker \<Rightarrow> byte list" where
  "finish c = pending c"

section \<open>Cutting a byte sequence\<close>

text \<open>
  The reference both chunkers are compared with. A rule says whether the data may be cut after
  \<open>lo + k\<close> bytes. The first cut is taken once more than \<open>lo\<close> bytes are there; what remains when
  no further cut exists is the tail.
\<close>

definition next_cut :: "nat \<Rightarrow> ('a list \<Rightarrow> nat \<Rightarrow> bool) \<Rightarrow> 'a list \<Rightarrow> nat option" where
  "next_cut lo stop xs =
     (if length xs \<le> lo then None
      else map_option (\<lambda>k. lo + k) (find (stop xs) [0..<Suc (length xs - lo)]))"

function cuts :: "nat \<Rightarrow> ('a list \<Rightarrow> nat \<Rightarrow> bool) \<Rightarrow> 'a list \<Rightarrow> 'a list list \<times> 'a list" where
  "cuts lo stop xs =
     (case next_cut lo stop xs of
        None \<Rightarrow> ([], xs)
      | Some n \<Rightarrow> if n = 0 then ([], xs)
          else let (cs, r) = cuts lo stop (drop n xs) in (take n xs # cs, r))"
  by pat_completeness auto
termination
  by (relation "measure (\<lambda>(lo, stop, xs). length xs)") (auto simp: next_cut_def split: if_splits)

declare cuts.simps [simp del]

definition pieces :: "nat \<Rightarrow> ('a list \<Rightarrow> nat \<Rightarrow> bool) \<Rightarrow> 'a list \<Rightarrow> 'a list list" where
  "pieces lo stop xs = (let (cs, r) = cuts lo stop xs in cs @ (if r = [] then [] else [r]))"

lemma find_upt_Some:
  "find P [a..<b] = Some k \<longleftrightarrow> a \<le> k \<and> k < b \<and> P k \<and> (\<forall>j. a \<le> j \<and> j < k \<longrightarrow> \<not> P j)"
proof (induction "b - a" arbitrary: a)
  case 0
  then show ?case by simp
next
  case (Suc n)
  then have "[a..<b] = a # [Suc a..<b]" by (simp add: upt_conv_Cons)
  moreover have "n = b - Suc a" using Suc.hyps(2) by simp
  note IH = Suc.hyps(1) [OF this]
  ultimately show ?case using Suc.hyps(2) by (auto simp: IH less_Suc_eq_le Suc_le_eq intro: le_neq_implies_less)
qed

lemma next_cut_Some:
  "next_cut lo stop xs = Some n \<longleftrightarrow> lo < length xs \<and>
     (\<exists>k. n = lo + k \<and> lo + k \<le> length xs \<and> stop xs k \<and> (\<forall>j<k. \<not> stop xs j))"
proof (cases "lo < length xs")
  case True
  then have r: "k < Suc (length xs - lo) \<longleftrightarrow> lo + k \<le> length xs" for k by auto
  show ?thesis using True by (auto simp: next_cut_def find_upt_Some r simp del: upt_Suc)
qed (auto simp: next_cut_def)

lemma next_cut_None:
  "next_cut lo stop xs = None \<longleftrightarrow> length xs \<le> lo \<or> (\<forall>k. lo + k \<le> length xs \<longrightarrow> \<not> stop xs k)"
proof (cases "lo < length xs")
  case True
  then have r: "k < Suc (length xs - lo) \<longleftrightarrow> lo + k \<le> length xs" for k by auto
  show ?thesis using True by (auto simp: next_cut_def find_None_iff r simp del: upt_Suc)
qed (auto simp: next_cut_def)

text \<open>The laws of a rule: data that arrives later does not change a decision, and a piece is never
  left uncut beyond \<open>hi\<close>.\<close>

locale cut_rule =
  fixes lo hi :: nat and stop :: "'a list \<Rightarrow> nat \<Rightarrow> bool"
  assumes stable: "lo + k \<le> length xs \<Longrightarrow> stop (xs @ ys) k = stop xs k"
    and forced: "hi \<le> lo + k \<Longrightarrow> stop xs k"
begin

lemma next_cut_append: "next_cut lo stop xs = Some n \<Longrightarrow> next_cut lo stop (xs @ ys) = Some n \<and> n \<le> length xs"
  by (auto simp: next_cut_Some stable)

lemma cuts_None: "next_cut lo stop xs = None \<Longrightarrow> cuts lo stop xs = ([], xs)"
  by (simp add: cuts.simps [of lo stop xs])

lemma cuts_Some:
  "next_cut lo stop xs = Some n \<Longrightarrow> 0 < n \<Longrightarrow>
   cuts lo stop xs = (take n xs # fst (cuts lo stop (drop n xs)), snd (cuts lo stop (drop n xs)))"
  by (simp add: cuts.simps [of lo stop xs] case_prod_beta)

lemma cuts_append:
  assumes "0 < lo"
  shows "cuts lo stop (xs @ ys) =
    (fst (cuts lo stop xs) @ fst (cuts lo stop (snd (cuts lo stop xs) @ ys)), snd (cuts lo stop (snd (cuts lo stop xs) @ ys)))"
proof (induction xs rule: measure_induct_rule [of length])
  case (less xs)
  show ?case
  proof (cases "next_cut lo stop xs")
    case None
    then show ?thesis by (simp add: cuts_None)
  next
    case (Some n)
    then have n: "next_cut lo stop (xs @ ys) = Some n" "n \<le> length xs" "0 < n" "lo < length xs"
      using next_cut_append [OF Some, of ys] assms by (auto simp: next_cut_Some)
    then have "length (drop n xs) < length xs" by simp
    from less.IH [OF this] show ?thesis
      using n by (simp add: cuts_Some [OF Some] cuts_Some [OF n(1)])
  qed
qed

lemma cuts_props:
  assumes "0 < lo" "lo \<le> hi"
  shows "concat (fst (cuts lo stop xs)) @ snd (cuts lo stop xs) = xs"
    and "\<forall>c\<in>set (fst (cuts lo stop xs)). lo \<le> length c \<and> length c \<le> hi"
    and "next_cut lo stop (snd (cuts lo stop xs)) = None"
proof (induction xs rule: measure_induct_rule [of length])
  case (less xs)
  {
    case 1
    show ?case
    proof (cases "next_cut lo stop xs")
      case (Some n)
      then have "0 < n" "n \<le> length xs" "lo < length xs" using assms by (auto simp: next_cut_Some)
      then show ?thesis using less(1) [of "drop n xs"] by (simp add: cuts_Some [OF Some])
    qed (simp add: cuts_None)
  next
    case 2
    show ?case
    proof (cases "next_cut lo stop xs")
      case (Some n)
      then obtain k where k: "n = lo + k" "n \<le> length xs" "\<forall>j<k. \<not> stop xs j" "lo < length xs"
        by (auto simp: next_cut_Some)
      have "n \<le> hi"
      proof (cases k)
        case (Suc j)
        then have "\<not> hi \<le> lo + j" using k(3) forced [of j xs] by auto
        then show ?thesis using Suc k(1) by simp
      qed (use k assms in auto)
      then show ?thesis using less(2) [of "drop n xs"] k assms by (simp add: cuts_Some [OF Some])
    qed (simp add: cuts_None)
  next
    case 3
    show ?case
    proof (cases "next_cut lo stop xs")
      case (Some n)
      then have "0 < n" "n \<le> length xs" "lo < length xs" using assms by (auto simp: next_cut_Some)
      then show ?thesis using less(3) [of "drop n xs"] by (simp add: cuts_Some [OF Some])
    qed (simp add: cuts_None)
  }
qed

lemma tail_short:
  assumes "0 < lo" "lo \<le> hi"
  shows "length (snd (cuts lo stop xs)) \<le> hi"
proof (rule ccontr)
  let ?r = "snd (cuts lo stop xs)"
  assume "\<not> length ?r \<le> hi"
  moreover from this have "stop ?r (hi - lo)" using assms by (intro forced) simp
  ultimately show False
    using cuts_props(3) [OF assms, of xs] assms by (auto simp: next_cut_None)
qed

end

section \<open>The rule of the fingerprint\<close>

text \<open>The fingerprint of a candidate chunk at position \<open>min - 1 + k\<close>, counted from its start.\<close>

fun chunk_fp :: "ChunkSizes \<Rightarrow> byte list \<Rightarrow> nat \<Rightarrow> 64 word" where
  "chunk_fp sizes xs 0 = window_fingerprint (slice xs (cs_min sizes - WINDOW_BYTES) (cs_min sizes))"
| "chunk_fp sizes xs (Suc k) =
     roll (chunk_fp sizes xs k) (xs ! (cs_min sizes + k - WINDOW_BYTES)) (xs ! (cs_min sizes + k))"

definition stop_at :: "ChunkSizes \<Rightarrow> byte list \<Rightarrow> nat \<Rightarrow> bool" where
  "stop_at sizes xs k \<longleftrightarrow> is_break sizes (chunk_fp sizes xs k) \<or> cs_max sizes \<le> cs_min sizes + k"

definition sizes_ok :: "ChunkSizes \<Rightarrow> bool" where
  "sizes_ok sizes \<longleftrightarrow> WINDOW_BYTES \<le> cs_min sizes \<and> cs_min sizes \<le> cs_max sizes \<and> cs_min sizes < usize_max"

lemma sizes_okD: "sizes_ok sizes \<Longrightarrow> 0 < cs_min sizes \<and> WINDOW_BYTES \<le> cs_min sizes \<and> cs_min sizes \<le> cs_max sizes"
  by (auto simp: sizes_ok_def WINDOW_BYTES_def)

lemma chunk_fp_append:
  "cs_min sizes + k \<le> length xs \<Longrightarrow> chunk_fp sizes (xs @ ys) k = chunk_fp sizes xs k"
  by (induction k) (auto simp: slice_def nth_append)

interpretation cdc: cut_rule "cs_min sizes" "cs_max sizes" "stop_at sizes" for sizes
  by unfold_locales (auto simp: stop_at_def chunk_fp_append)

abbreviation cdc_cuts :: "ChunkSizes \<Rightarrow> byte list \<Rightarrow> byte list list \<times> byte list" where
  "cdc_cuts sizes \<equiv> cuts (cs_min sizes) (stop_at sizes)"

definition cdc_pieces :: "ChunkSizes \<Rightarrow> byte list \<Rightarrow> byte list list" where
  "cdc_pieces sizes data = pieces (cs_min sizes) (stop_at sizes) data"

lemma first_stop_length:
  assumes "sizes_ok sizes" "\<forall>j<k. \<not> stop_at sizes xs j" "cs_max sizes \<le> cs_min sizes + k"
  shows "cs_max sizes = cs_min sizes + k"
proof (cases k)
  case 0
  then show ?thesis using assms by (auto simp: sizes_ok_def)
next
  case (Suc j)
  then have "\<not> stop_at sizes xs j" using assms(2) by simp
  then show ?thesis using Suc assms(3) by (simp add: stop_at_def)
qed

section \<open>The whole-input chunker\<close>

lemma probe_loop_spec:
  assumes ok: "sizes_ok sizes" and st: "start < length data" and xs: "xs = drop start data"
  shows "cs_min sizes + k \<le> length xs \<Longrightarrow> \<forall>j<k. \<not> stop_at sizes xs j \<Longrightarrow> cs_min sizes < length xs \<Longrightarrow>
    probe_loop data sizes start (start + cs_min sizes - 1 + k) (chunk_fp sizes xs k) =
      (case next_cut (cs_min sizes) (stop_at sizes) xs of
         Some n \<Rightarrow> ((start, n), start + n)
       | None \<Rightarrow> ((start, length xs), start + cs_max sizes))"
proof (induction "length xs - k" arbitrary: k rule: less_induct)
  case less
  define q where "q = start + cs_min sizes - 1 + k"
  let ?fp = "chunk_fp sizes xs k"
  have p: "q + 1 = start + (cs_min sizes + k)" using sizes_okD [OF ok] by (simp add: q_def)
  have len: "length xs = length data - start" by (simp add: xs)
  note unf = probe_loop.simps [of data sizes start q]
  show ?case unfolding q_def [symmetric]
  proof (cases "stop_at sizes xs k")
    case True
    then have n: "next_cut (cs_min sizes) (stop_at sizes) xs = Some (cs_min sizes + k)"
      using less.prems by (auto simp: next_cut_Some)
    show "probe_loop data sizes start q ?fp = (case next_cut (cs_min sizes) (stop_at sizes) xs of
         Some n \<Rightarrow> ((start, n), start + n) | None \<Rightarrow> ((start, length xs), start + cs_max sizes))"
    proof (cases "is_break sizes ?fp")
      case True
      have "q - start + 1 = cs_min sizes + k" using p sizes_okD [OF ok] by linarith
      then show ?thesis using p n True by (simp add: unf)
    next
      case False
      then have m: "cs_max sizes = cs_min sizes + k"
        using \<open>stop_at sizes xs k\<close> first_stop_length [OF ok less.prems(2)] by (simp add: stop_at_def)
      show ?thesis using p n m False less.prems(1) len by (simp add: unf)
    qed
  next
    case False
    then have nb: "\<not> is_break sizes ?fp" "cs_min sizes + k < cs_max sizes" by (auto simp: stop_at_def)
    have prev: "\<forall>j<Suc k. \<not> stop_at sizes xs j" using less.prems(2) False by (auto simp: less_Suc_eq)
    show "probe_loop data sizes start q ?fp = (case next_cut (cs_min sizes) (stop_at sizes) xs of
         Some n \<Rightarrow> ((start, n), start + n) | None \<Rightarrow> ((start, length xs), start + cs_max sizes))"
    proof (cases "cs_min sizes + k = length xs")
      case True
      then have "next_cut (cs_min sizes) (stop_at sizes) xs = None"
        using prev less.prems(3) by (auto simp: next_cut_None less_Suc_eq_le)
      moreover have "length data \<le> q + 1" "min (cs_max sizes) (length data - start) = length xs"
        using p True len st nb by auto
      ultimately show ?thesis using nb by (simp add: unf)
    next
      case False
      have go: "\<not> start + cs_max sizes \<le> q + 1" "\<not> length data \<le> q + 1"
        using p nb False less.prems(1) len by auto
      have "data ! (q + 1) = xs ! (cs_min sizes + k)"
        "data ! (q + 1 - WINDOW_BYTES) = xs ! (cs_min sizes + k - WINDOW_BYTES)"
        unfolding p using st sizes_okD [OF ok] by (simp_all add: xs)
      then have "probe_loop data sizes start q ?fp = probe_loop data sizes start (q + 1) (chunk_fp sizes xs (Suc k))"
        using nb go by (simp add: unf)
      moreover have "q + 1 = start + cs_min sizes - 1 + Suc k" by (simp add: q_def)
      ultimately show ?thesis using less.hyps [of "Suc k"] prev False less.prems(1,3) by (simp del: chunk_fp.simps)
    qed
  qed
qed

fun offsets :: "nat \<Rightarrow> 'a list list \<Rightarrow> (nat \<times> nat) list" where
  "offsets start [] = []"
| "offsets start (c # cs) = (start, length c) # offsets (start + length c) cs"

lemma pieces_None: "next_cut lo stop xs = None \<Longrightarrow> pieces lo stop xs = (if xs = [] then [] else [xs])"
  by (simp add: pieces_def cuts.simps [of lo stop xs])

lemma pieces_Some:
  "next_cut lo stop xs = Some n \<Longrightarrow> 0 < n \<Longrightarrow> pieces lo stop xs = take n xs # pieces lo stop (drop n xs)"
  by (simp add: pieces_def cuts.simps [of lo stop xs] case_prod_beta)

lemma chunk_loop_done: "length data \<le> start \<Longrightarrow> chunk_loop data sizes start acc = Some acc"
  by (simp add: chunk_loop.simps)

lemma first_window:
  assumes "sizes_ok sizes"
  shows "slice data (start + cs_min sizes - 1 + 1 - WINDOW_BYTES) (start + cs_min sizes - 1 + 1) =
    slice (drop start data) (cs_min sizes - WINDOW_BYTES) (cs_min sizes)"
  using sizes_okD [OF assms] by (simp add: slice_def add.commute)

lemma chunk_loop_spec:
  assumes ok: "sizes_ok sizes"
  shows "start \<le> length data \<Longrightarrow>
    chunk_loop data sizes start acc = Some (acc @ offsets start (cdc_pieces sizes (drop start data)))"
proof (induction "length data - start" arbitrary: start acc rule: less_induct)
  case less
  let ?xs = "drop start data"
  note lo = sizes_okD [OF ok]
  show ?case
  proof (cases "length data = start")
    case True
    then show ?thesis by (simp add: chunk_loop_done cdc_pieces_def pieces_None next_cut_None)
  next
    case False
    then have st: "start < length data" using less.prems by simp
    show ?thesis
    proof (cases "length ?xs \<le> cs_min sizes")
      case True
      then show ?thesis using st
        by (simp add: chunk_loop.simps [of data sizes start] cdc_pieces_def pieces_None next_cut_None)
    next
      case long: False
      have probe: "probe_loop data sizes start (start + cs_min sizes - 1)
          (window_fingerprint (slice data (start + cs_min sizes - 1 + 1 - WINDOW_BYTES) (start + cs_min sizes - 1 + 1))) =
        (case next_cut (cs_min sizes) (stop_at sizes) ?xs of
           Some n \<Rightarrow> ((start, n), start + n) | None \<Rightarrow> ((start, length ?xs), start + cs_max sizes))"
        using probe_loop_spec [OF ok st refl, of 0] long unfolding first_window [OF ok] by simp
      have unf: "chunk_loop data sizes start acc =
          (case probe_loop data sizes start (start + cs_min sizes - 1)
             (window_fingerprint (slice data (start + cs_min sizes - 1 + 1 - WINDOW_BYTES) (start + cs_min sizes - 1 + 1)))
           of (chunk, start) \<Rightarrow> chunk_loop data sizes start (acc @ [chunk]))"
        using st long by (subst chunk_loop.simps) (simp add: Let_def)
      show ?thesis
      proof (cases "next_cut (cs_min sizes) (stop_at sizes) ?xs")
        case None
        then have "\<not> stop_at sizes ?xs (length ?xs - cs_min sizes)" using long by (auto simp: next_cut_None)
        then have "length data \<le> start + cs_max sizes" using long by (auto simp: stop_at_def)
        then show ?thesis using unf probe None st
          by (simp add: chunk_loop_done cdc_pieces_def pieces_None)
      next
        case (Some n)
        then have n: "0 < n" "start + n \<le> length data" using lo st by (auto simp: next_cut_Some)
        then have "chunk_loop data sizes (start + n) (acc @ [(start, n)]) =
            Some ((acc @ [(start, n)]) @ offsets (start + n) (cdc_pieces sizes (drop (start + n) data)))"
          using st by (intro less.hyps) auto
        moreover have "length (take n ?xs) = n" "drop n ?xs = drop (start + n) data"
          using n by (simp_all add: add.commute)
        ultimately show ?thesis using unf probe Some
          by (simp add: cdc_pieces_def pieces_Some [OF Some n(1)] del: length_take drop_drop)
      qed
    qed
  qed
qed

lemma file_chunk_eq:
  "sizes_ok sizes \<Longrightarrow> file_chunk_cdc_with data sizes = Some (offsets 0 (cdc_pieces sizes data))"
  using chunk_loop_spec [of sizes 0 data "[]"] by (simp add: file_chunk_cdc_with_def sizes_ok_def)

lemma offsets_slices: "map (\<lambda>(s, n). take n (drop s (ys @ concat cs))) (offsets (length ys) cs) = cs"
proof (induction cs arbitrary: ys)
  case (Cons c cs)
  from Cons.IH [of "ys @ c"] show ?case by simp
qed simp

lemma concat_pieces: "sizes_ok sizes \<Longrightarrow> concat (cdc_pieces sizes data) = data"
  using cdc.cuts_props(1) [of sizes data] sizes_okD [of sizes]
  by (auto simp: cdc_pieces_def pieces_def case_prod_beta)

lemma pieces_bounds:
  assumes "sizes_ok sizes"
  shows "\<forall>c\<in>set (cdc_pieces sizes data). c \<noteq> [] \<and> length c \<le> cs_max sizes"
    and "\<forall>c\<in>set (butlast (cdc_pieces sizes data)). cs_min sizes \<le> length c"
proof -
  note lo = sizes_okD [OF assms]
  have c: "cs_min sizes \<le> length c \<and> length c \<le> cs_max sizes" if "c \<in> set (fst (cdc_cuts sizes data))" for c
    using cdc.cuts_props(2) [of sizes data] lo that by auto
  have r: "length (snd (cdc_cuts sizes data)) \<le> cs_max sizes" using cdc.tail_short [of sizes data] lo by simp
  show "\<forall>c\<in>set (cdc_pieces sizes data). c \<noteq> [] \<and> length c \<le> cs_max sizes"
    using c [of "[]"] c r lo by (auto simp: cdc_pieces_def pieces_def case_prod_beta)
  show "\<forall>c\<in>set (butlast (cdc_pieces sizes data)). cs_min sizes \<le> length c"
    using c by (auto simp: cdc_pieces_def pieces_def case_prod_beta butlast_append split: if_splits dest: in_set_butlastD)
qed

text \<open>
  Chunking a whole input returns for every input and all sane sizes. The chunks are the
  contiguous slices of the input, in order and without gaps; each is non-empty and at most the
  maximum size, and all but the last have at least the minimum size.
\<close>

theorem file_chunk_cdc_covers:
  assumes "sizes_ok sizes"
  shows "\<exists>cs. file_chunk_cdc_with data sizes = Some (offsets 0 cs) \<and> concat cs = data \<and>
    map (\<lambda>(start, n). take n (drop start data)) (offsets 0 cs) = cs \<and>
    (\<forall>c\<in>set cs. c \<noteq> [] \<and> length c \<le> cs_max sizes) \<and> (\<forall>c\<in>set (butlast cs). cs_min sizes \<le> length c)"
  using file_chunk_eq [OF assms] pieces_bounds [OF assms] concat_pieces [OF assms, of data]
    offsets_slices [of "[]" "cdc_pieces sizes data"]
  by (intro exI [of _ "cdc_pieces sizes data"]) simp

lemma seafile_sizes_ok: "sizes_ok SEAFILE"
  by (simp add: sizes_ok_def SEAFILE_def SEAFILE_AVG_BLOCK_def SEAFILE_MIN_BLOCK_def SEAFILE_MAX_BLOCK_def WINDOW_BYTES_def)

theorem file_chunk_cdc_covers_witness:
  "\<exists>cs :: byte list list. file_chunk_cdc (replicate 100 7) = Some (offsets 0 cs) \<and> concat cs = replicate 100 7"
  using file_chunk_cdc_covers [OF seafile_sizes_ok, of "replicate 100 7"] unfolding file_chunk_cdc_def by blast

section \<open>The incremental chunker\<close>

text \<open>A chunker between calls: not probing, or at a probe \<open>k\<close> with the right fingerprint and no cut
  before it.\<close>

definition at_probe :: "Chunker \<Rightarrow> nat \<Rightarrow> bool" where
  "at_probe c k \<longleftrightarrow> probing c \<and> next_probe c = cs_min (ck_sizes c) - 1 + k \<and>
     ck_fingerprint c = chunk_fp (ck_sizes c) (pending c) k \<and>
     cs_min (ck_sizes c) + k \<le> length (pending c) \<and> cs_min (ck_sizes c) < length (pending c) \<and>
     (\<forall>j<k. \<not> stop_at (ck_sizes c) (pending c) j)"

definition resumable :: "Chunker \<Rightarrow> bool" where
  "resumable c \<longleftrightarrow> \<not> probing c \<or> (\<exists>k. at_probe c k)"

lemma resumable_append: "resumable c \<Longrightarrow> resumable (c\<lparr>pending := pending c @ ys\<rparr>)"
proof -
  assume r: "resumable c"
  show ?thesis
  proof (cases "probing c")
    case True
    then obtain k where k: "at_probe c k" using r by (auto simp: resumable_def)
    have "\<forall>j<k. \<not> stop_at (ck_sizes c) (pending c @ ys) j"
      using k by (auto simp: at_probe_def stop_at_def chunk_fp_append)
    then have "at_probe (c\<lparr>pending := pending c @ ys\<rparr>) k" using k by (auto simp: at_probe_def chunk_fp_append)
    then show ?thesis by (auto simp: resumable_def)
  qed (simp add: resumable_def)
qed

lemma scan_probing:
  "probing c \<Longrightarrow> next_probe c < length (pending c) \<Longrightarrow> scan c done =
     (if is_break (ck_sizes c) (ck_fingerprint c) then
        (case emit (next_probe c + 1) (c, done) of (c, done) \<Rightarrow> scan c done)
      else if cs_max (ck_sizes c) \<le> next_probe c + 1 then
        (case emit (cs_max (ck_sizes c)) (c, done) of (c, done) \<Rightarrow> scan c done)
      else if length (pending c) \<le> next_probe c + 1 then Some (c, done)
      else scan (c\<lparr>ck_fingerprint := roll (ck_fingerprint c)
                   (pending c ! (next_probe c + 1 - WINDOW_BYTES)) (pending c ! (next_probe c + 1)),
                   next_probe := next_probe c + 1\<rparr>) done)"
  by (subst scan.simps) (simp add: Let_def)

lemma scan_at_probe:
  assumes ok: "sizes_ok (ck_sizes c)"
  shows "at_probe c k \<Longrightarrow>
    (case next_cut (cs_min (ck_sizes c)) (stop_at (ck_sizes c)) (pending c) of
       Some n \<Rightarrow> \<exists>c'. scan c done = scan c' (done @ [take n (pending c)]) \<and> \<not> probing c' \<and>
         pending c' = drop n (pending c) \<and> ck_sizes c' = ck_sizes c
     | None \<Rightarrow> \<exists>c'. scan c done = Some (c', done) \<and> resumable c' \<and> pending c' = pending c \<and> ck_sizes c' = ck_sizes c)"
  using ok
proof (induction "length (pending c) - k" arbitrary: c k rule: less_induct)
  case less
  define sizes where "sizes = ck_sizes c"
  define xs where "xs = pending c"
  have ap: "probing c" "next_probe c = cs_min sizes - 1 + k" "ck_fingerprint c = chunk_fp sizes xs k"
    "cs_min sizes + k \<le> length xs" "cs_min sizes < length xs" "\<forall>j<k. \<not> stop_at sizes xs j"
    using less.prems(1) by (auto simp: at_probe_def sizes_def xs_def)
  have ok: "sizes_ok sizes" using less.prems(2) by (simp add: sizes_def)
  have np: "next_probe c + 1 = cs_min sizes + k" using ap(2) sizes_okD [OF ok] by simp
  have lt: "next_probe c < length (pending c)" using np ap(4) by (simp add: xs_def)
  note sc = scan_probing [OF ap(1) lt, of "done", folded sizes_def xs_def, unfolded np]
  show ?case unfolding sizes_def [symmetric] xs_def [symmetric]
  proof (cases "stop_at sizes xs k")
    case True
    then have n: "next_cut (cs_min sizes) (stop_at sizes) xs = Some (cs_min sizes + k)"
      using ap by (auto simp: next_cut_Some)
    have m: "cs_max sizes = cs_min sizes + k" if "\<not> is_break sizes (chunk_fp sizes xs k)"
      using first_stop_length [OF ok ap(6)] True that by (simp add: stop_at_def)
    define c' where "c' = c\<lparr>pending := drop (cs_min sizes + k) xs, ck_fingerprint := 0, next_probe := 0, probing := False\<rparr>"
    have "scan c done = scan c' (done @ [take (cs_min sizes + k) xs])"
      using sc m ap(3) by (cases "is_break sizes (chunk_fp sizes xs k)") (simp_all add: emit_def c'_def xs_def)
    moreover have "\<not> probing c'" "pending c' = drop (cs_min sizes + k) xs" "ck_sizes c' = sizes"
      by (simp_all add: c'_def sizes_def)
    ultimately show "case next_cut (cs_min sizes) (stop_at sizes) xs of
       Some n \<Rightarrow> \<exists>c'. scan c done = scan c' (done @ [take n xs]) \<and> \<not> probing c' \<and> pending c' = drop n xs \<and> ck_sizes c' = sizes
     | None \<Rightarrow> \<exists>c'. scan c done = Some (c', done) \<and> resumable c' \<and> pending c' = xs \<and> ck_sizes c' = sizes"
      using n by auto
  next
    case False
    then have nb: "\<not> is_break sizes (chunk_fp sizes xs k)" "\<not> cs_max sizes \<le> cs_min sizes + k"
      by (auto simp: stop_at_def)
    have prev: "\<forall>j<Suc k. \<not> stop_at sizes xs j" using ap(6) False by (auto simp: less_Suc_eq)
    show "case next_cut (cs_min sizes) (stop_at sizes) xs of
       Some n \<Rightarrow> \<exists>c'. scan c done = scan c' (done @ [take n xs]) \<and> \<not> probing c' \<and> pending c' = drop n xs \<and> ck_sizes c' = sizes
     | None \<Rightarrow> \<exists>c'. scan c done = Some (c', done) \<and> resumable c' \<and> pending c' = xs \<and> ck_sizes c' = sizes"
    proof (cases "cs_min sizes + k = length xs")
      case True
      then have "next_cut (cs_min sizes) (stop_at sizes) xs = None"
        using prev ap(5) by (auto simp: next_cut_None less_Suc_eq_le)
      moreover have "scan c done = Some (c, done)" using sc nb ap(3) True by simp
      moreover have "resumable c" using less.prems(1) by (auto simp: resumable_def)
      ultimately show ?thesis by (simp add: xs_def sizes_def)
    next
      case False
      define c1 where "c1 = c\<lparr>ck_fingerprint := chunk_fp sizes xs (Suc k), next_probe := cs_min sizes + k\<rparr>"
      have step: "scan c done = scan c1 done" using sc nb ap(3,4) False by (simp add: c1_def)
      have "at_probe c1 (Suc k)"
        using ap prev False sizes_okD [OF ok] by (auto simp: at_probe_def c1_def sizes_def xs_def simp del: chunk_fp.simps)
      moreover have "length (pending c1) - Suc k < length (pending c) - k"
        using ap(4) False by (simp add: c1_def xs_def)
      moreover have "ck_sizes c1 = sizes" "pending c1 = xs" by (simp_all add: c1_def sizes_def xs_def)
      ultimately show ?thesis using less.hyps [of c1 "Suc k"] step ok by (simp split: option.splits)
    qed
  qed
qed

lemma scan_start:
  assumes ok: "sizes_ok (ck_sizes c)" and "\<not> probing c" "cs_min (ck_sizes c) < length (pending c)"
  shows "\<exists>c1. scan c done = scan c1 done \<and> at_probe c1 0 \<and> pending c1 = pending c \<and> ck_sizes c1 = ck_sizes c"
proof -
  let ?sizes = "ck_sizes c"
  define c1 where "c1 = c\<lparr>ck_fingerprint := window_fingerprint
      (slice (pending c) (cs_min ?sizes - WINDOW_BYTES) (cs_min ?sizes)), next_probe := cs_min ?sizes - 1, probing := True\<rparr>"
  have "scan c done = scan c1 done"
    using assms(2,3) by (subst (1 2) scan.simps) (simp add: c1_def Let_def)
  moreover have "at_probe c1 0" using assms(3) by (simp add: at_probe_def c1_def)
  ultimately show ?thesis by (auto simp: c1_def)
qed

lemma scan_spec:
  assumes "sizes_ok (ck_sizes c)" "resumable c"
  shows "\<exists>c'. scan c done = Some (c', done @ fst (cdc_cuts (ck_sizes c) (pending c))) \<and> resumable c' \<and>
    pending c' = snd (cdc_cuts (ck_sizes c) (pending c)) \<and> ck_sizes c' = ck_sizes c"
  using assms
proof (induction "length (pending c)" arbitrary: c "done" rule: less_induct)
  case less
  define sizes where "sizes = ck_sizes c"
  define xs where "xs = pending c"
  note ok = less.prems(1) [folded sizes_def] and lo = sizes_okD [OF less.prems(1), folded sizes_def]
  show ?case unfolding sizes_def [symmetric] xs_def [symmetric]
  proof (cases "\<not> probing c \<and> length xs \<le> cs_min sizes")
    case True
    then have "scan c done = Some (c, done)" by (subst scan.simps) (simp add: xs_def sizes_def)
    moreover have "cdc_cuts sizes xs = ([], xs)" using True by (intro cdc.cuts_None) (simp add: next_cut_None)
    ultimately show "\<exists>c'. scan c done = Some (c', done @ fst (cdc_cuts sizes xs)) \<and> resumable c' \<and>
        pending c' = snd (cdc_cuts sizes xs) \<and> ck_sizes c' = sizes"
      using less.prems(2) by (simp add: xs_def sizes_def)
  next
    case False
    have "\<exists>c1 k. scan c done = scan c1 done \<and> at_probe c1 k \<and> pending c1 = xs \<and> ck_sizes c1 = sizes"
    proof (cases "probing c")
      case True
      then show ?thesis using less.prems(2) by (auto simp: resumable_def sizes_def xs_def)
    next
      case False
      then show ?thesis using scan_start [OF less.prems(1) False, of "done"] \<open>\<not> (\<not> probing c \<and> length xs \<le> cs_min sizes)\<close>
        by (auto simp: sizes_def xs_def)
    qed
    then obtain c1 k where c1: "scan c done = scan c1 done" "at_probe c1 k" "pending c1 = xs" "ck_sizes c1 = sizes"
      by blast
    note probe = scan_at_probe [OF _ c1(2), of "done", unfolded c1(3,4)]
    show "\<exists>c'. scan c done = Some (c', done @ fst (cdc_cuts sizes xs)) \<and> resumable c' \<and>
        pending c' = snd (cdc_cuts sizes xs) \<and> ck_sizes c' = sizes"
    proof (cases "next_cut (cs_min sizes) (stop_at sizes) xs")
      case None
      then show ?thesis using probe ok c1(1) cdc.cuts_None [OF None] by auto
    next
      case (Some n)
      have n: "0 < n" "n \<le> length xs" using Some lo by (auto simp: next_cut_Some)
      obtain c2 where c2: "scan c1 done = scan c2 (done @ [take n xs])" "\<not> probing c2" "pending c2 = drop n xs" "ck_sizes c2 = sizes"
        using probe ok Some by auto
      have "\<exists>c'. scan c2 (done @ [take n xs]) = Some (c', (done @ [take n xs]) @ fst (cdc_cuts (ck_sizes c2) (pending c2))) \<and>
          resumable c' \<and> pending c' = snd (cdc_cuts (ck_sizes c2) (pending c2)) \<and> ck_sizes c' = ck_sizes c2"
        using n c2 ok by (intro less.hyps) (auto simp: xs_def resumable_def)
      then show ?thesis using c1(1) c2 cdc.cuts_Some [OF Some n(1)] by simp
    qed
  qed
qed

text \<open>The buffer never fills up without a cut.\<close>

lemma pending_below_limit:
  assumes "sizes_ok sizes" "next_cut (cs_min sizes) (stop_at sizes) xs = None"
  shows "length xs < buffer_limit sizes"
proof (cases "length xs \<le> cs_min sizes")
  case True
  then show ?thesis using assms(1) by (simp add: buffer_limit_def usize_sat_add_def sizes_ok_def)
next
  case False
  then have "\<not> stop_at sizes xs (length xs - cs_min sizes)" using assms(2) by (auto simp: next_cut_None)
  then show ?thesis using False by (auto simp: stop_at_def buffer_limit_def)
qed

lemma feed_loop_spec:
  assumes "sizes_ok (ck_sizes c)" "resumable c" "next_cut (cs_min (ck_sizes c)) (stop_at (ck_sizes c)) (pending c) = None"
  shows "\<exists>c'. feed_loop bytes c done = Some (c', done @ fst (cdc_cuts (ck_sizes c) (pending c @ bytes))) \<and>
    pending c' = snd (cdc_cuts (ck_sizes c) (pending c @ bytes)) \<and> ck_sizes c' = ck_sizes c \<and> resumable c'"
  using assms
proof (induction "length bytes" arbitrary: bytes c "done" rule: less_induct)
  case less
  define sizes where "sizes = ck_sizes c"
  note ok = less.prems(1) [folded sizes_def] and lo = sizes_okD [OF less.prems(1), folded sizes_def]
  show ?case unfolding sizes_def [symmetric]
  proof (cases "bytes = []")
    case True
    then show "\<exists>c'. feed_loop bytes c done = Some (c', done @ fst (cdc_cuts sizes (pending c @ bytes))) \<and>
        pending c' = snd (cdc_cuts sizes (pending c @ bytes)) \<and> ck_sizes c' = sizes \<and> resumable c'"
      using less.prems cdc.cuts_None [OF less.prems(3)] by (simp add: feed_loop.simps sizes_def)
  next
    case False
    define n where "n = min (buffer_limit sizes - length (pending c)) (length bytes)"
    have room: "length (pending c) < buffer_limit sizes"
      using pending_below_limit [OF less.prems(1,3)] by (simp add: sizes_def)
    then have n: "0 < n" "n \<le> length bytes" using False by (simp_all add: n_def)
    define c1 where "c1 = c\<lparr>pending := pending c @ take n bytes\<rparr>"
    have "resumable c1" unfolding c1_def by (rule resumable_append [OF less.prems(2)])
    moreover have c1: "ck_sizes c1 = sizes" "pending c1 = pending c @ take n bytes" by (simp_all add: c1_def sizes_def)
    ultimately obtain c2 where c2: "scan c1 done = Some (c2, done @ fst (cdc_cuts sizes (pending c1)))" "resumable c2"
      "pending c2 = snd (cdc_cuts sizes (pending c1))" "ck_sizes c2 = sizes"
      using scan_spec [of c1 "done"] ok by auto
    have "feed_loop bytes c done = feed_loop (drop n bytes) c2 (done @ fst (cdc_cuts sizes (pending c1)))"
      using False room c2(1) by (subst feed_loop.simps) (simp add: Let_def n_def c1_def sizes_def)
    moreover have "next_cut (cs_min sizes) (stop_at sizes) (pending c2) = None"
      unfolding c2(3) using lo by (intro cdc.cuts_props(3)) auto
    then have "\<exists>c'. feed_loop (drop n bytes) c2 (done @ fst (cdc_cuts sizes (pending c1))) =
        Some (c', (done @ fst (cdc_cuts sizes (pending c1))) @ fst (cdc_cuts (ck_sizes c2) (pending c2 @ drop n bytes))) \<and>
        pending c' = snd (cdc_cuts (ck_sizes c2) (pending c2 @ drop n bytes)) \<and> ck_sizes c' = ck_sizes c2 \<and> resumable c'"
      using n c2 ok by (intro less.hyps) auto
    moreover have "cdc_cuts sizes (pending c @ bytes) =
        (fst (cdc_cuts sizes (pending c1)) @ fst (cdc_cuts sizes (pending c2 @ drop n bytes)),
         snd (cdc_cuts sizes (pending c2 @ drop n bytes)))"
      using cdc.cuts_append [of sizes "pending c1" "drop n bytes"] lo c1(2) c2(3) by simp
    ultimately show "\<exists>c'. feed_loop bytes c done = Some (c', done @ fst (cdc_cuts sizes (pending c @ bytes))) \<and>
        pending c' = snd (cdc_cuts sizes (pending c @ bytes)) \<and> ck_sizes c' = sizes \<and> resumable c'"
      using c2(4) by auto
  qed
qed

text \<open>A caller that feeds an input in parts and collects the completed chunks.\<close>

fun stream :: "Chunker \<Rightarrow> byte list list \<Rightarrow> (byte list list \<times> Chunker) option" where
  "stream c [] = Some ([], c)"
| "stream c (part # parts) =
     Option.bind (feed part c) (\<lambda>(cs, c).
       Option.bind (stream c parts) (\<lambda>(cs', c). Some (cs @ cs', c)))"

lemma stream_spec:
  "sizes_ok (ck_sizes c) \<Longrightarrow> resumable c \<Longrightarrow>
   next_cut (cs_min (ck_sizes c)) (stop_at (ck_sizes c)) (pending c) = None \<Longrightarrow>
   \<exists>c'. stream c parts = Some (fst (cdc_cuts (ck_sizes c) (pending c @ concat parts)), c') \<and>
     pending c' = snd (cdc_cuts (ck_sizes c) (pending c @ concat parts))"
proof (induction parts arbitrary: c)
  case Nil
  then show ?case by (simp add: cdc.cuts_None)
next
  case (Cons part parts)
  define sizes where "sizes = ck_sizes c"
  obtain c1 where c1: "feed_loop part c [] = Some (c1, fst (cdc_cuts sizes (pending c @ part)))"
    "pending c1 = snd (cdc_cuts sizes (pending c @ part))" "ck_sizes c1 = sizes" "resumable c1"
    using feed_loop_spec [OF Cons.prems, of part "[]"] by (auto simp: sizes_def)
  have "next_cut (cs_min sizes) (stop_at sizes) (pending c1) = None"
    unfolding c1(2) using sizes_okD [OF Cons.prems(1)] by (intro cdc.cuts_props(3)) (auto simp: sizes_def)
  then obtain c2 where c2: "stream c1 parts = Some (fst (cdc_cuts sizes (pending c1 @ concat parts)), c2)"
    "pending c2 = snd (cdc_cuts sizes (pending c1 @ concat parts))"
    using Cons.IH [of c1] Cons.prems(1) c1(3,4) by (auto simp: sizes_def)
  have "cdc_cuts sizes (pending c @ concat (part # parts)) =
      (fst (cdc_cuts sizes (pending c @ part)) @ fst (cdc_cuts sizes (pending c1 @ concat parts)),
       snd (cdc_cuts sizes (pending c1 @ concat parts)))"
    using cdc.cuts_append [of sizes "pending c @ part" "concat parts"] sizes_okD [OF Cons.prems(1)] c1(2)
    by (simp add: sizes_def)
  then show ?case using c1(1) c2 by (simp add: feed_def flip: sizes_def)
qed

text \<open>
  C28: the incremental chunker agrees with the whole-input one. However an input is split into
  parts, feeding them returns (no loop runs forever), and the completed chunks together with a
  non-empty final one are the slices at the offsets computed from the whole input. The buffer
  held between calls never exceeds the maximum chunk size.
\<close>

theorem chunker_equals_whole:
  assumes "sizes_ok sizes" "with_sizes file_size sizes = Some c"
  shows "\<exists>cs c' offs. stream c parts = Some (cs, c') \<and>
    file_chunk_cdc_with (concat parts) sizes = Some offs \<and>
    map (\<lambda>(start, n). take n (drop start (concat parts))) offs =
      cs @ (if finish c' = [] then [] else [finish c']) \<and>
    length (pending c') \<le> cs_max sizes"
proof -
  have c: "ck_sizes c = sizes" "pending c = []" "\<not> probing c"
    using assms(2) by (auto simp: with_sizes_def split: if_splits)
  have "\<exists>c'. stream c parts = Some (fst (cdc_cuts (ck_sizes c) (pending c @ concat parts)), c') \<and>
     pending c' = snd (cdc_cuts (ck_sizes c) (pending c @ concat parts))"
    by (rule stream_spec) (use assms(1) c in \<open>auto simp: resumable_def next_cut_None\<close>)
  then obtain c' where c': "stream c parts = Some (fst (cdc_cuts sizes (concat parts)), c')"
    "pending c' = snd (cdc_cuts sizes (concat parts))"
    using c by auto
  have "cdc_pieces sizes (concat parts) = fst (cdc_cuts sizes (concat parts)) @ (if finish c' = [] then [] else [finish c'])"
    using c'(2) by (simp add: cdc_pieces_def pieces_def finish_def case_prod_beta)
  moreover have "map (\<lambda>(start, n). take n (drop start (concat parts))) (offsets 0 (cdc_pieces sizes (concat parts))) =
      cdc_pieces sizes (concat parts)"
    using offsets_slices [of "[]" "cdc_pieces sizes (concat parts)"] concat_pieces [OF assms(1), of "concat parts"] by simp
  moreover have "length (pending c') \<le> cs_max sizes"
    unfolding c'(2) using cdc.tail_short [of sizes] sizes_okD [OF assms(1)] by simp
  ultimately show ?thesis using c'(1) file_chunk_eq [OF assms(1)] by metis
qed

theorem chunker_equals_whole_witness:
  "\<exists>c cs c' offs. new_chunker 0 = Some c \<and> stream c [[1, 2], [3]] = Some (cs, c') \<and>
    file_chunk_cdc (concat [[1, 2], [3]]) = Some offs \<and>
    map (\<lambda>(start, n). take n (drop start (concat [[1, 2], [3]]))) offs = cs @ (if finish c' = [] then [] else [finish c'])"
proof -
  obtain c where c: "with_sizes 0 SEAFILE = Some c"
    using seafile_sizes_ok by (simp add: with_sizes_def sizes_ok_def)
  then show ?thesis using chunker_equals_whole [OF seafile_sizes_ok c, of "[[1, 2], [3]]"]
    unfolding new_chunker_def file_chunk_cdc_def by blast
qed

section \<open>Where the code differs from its comments\<close>

lemma fold_same: "(\<And>x. x \<in> set xs \<Longrightarrow> f x s = s) \<Longrightarrow> fold f xs s = s"
  by (induction xs) auto

lemma incoming_zero [simp]: "incoming_table 0 = 0"
proof -
  have "multiply_wide 0 y = (0, 0)" for y by (simp add: multiply_wide_def fold_same)
  moreover have "reduce_product 0 0 d = 0" for d by (simp add: reduce_product_def fold_same Let_def)
  ultimately show ?thesis by (simp add: incoming_table_def multiply_mod_def)
qed

definition fp_step :: "64 word \<Rightarrow> byte \<Rightarrow> 64 word" where
  "fp_step f b = (push_bit 8 f OR ucast b) AND mask 32"

lemma fingerprint_mask: "FINGERPRINT_MASK = mask 32"
  by (simp add: FINGERPRINT_MASK_def mask_eq_exp_minus_1)

lemma advance_masked:
  "f AND mask 32 = f \<Longrightarrow> advance f b AND FINGERPRINT_MASK = fp_step f b"
proof -
  assume f: "f AND mask 32 = f"
  have "drop_bit 55 (f AND mask 32) = 0"
    by (rule bit_word_eqI) (auto simp: bit_simps)
  then show ?thesis using f by (simp add: advance_def TABLE_INDEX_SHIFT_def fp_step_def fingerprint_mask)
qed

lemma fp_step_masked: "fp_step f b AND mask 32 = fp_step f b"
  by (simp add: fp_step_def and.assoc)

lemma window_fp_steps:
  "f AND mask 32 = f \<Longrightarrow> fold (\<lambda>b f. advance f b AND FINGERPRINT_MASK) w f = fold (\<lambda>b f. fp_step f b) w f"
  by (induction w arbitrary: f) (simp_all add: advance_masked fp_step_masked)

lemma four_steps_forget: "fp_step (fp_step (fp_step (fp_step f a) b) c) d = fp_step (fp_step (fp_step (fp_step 0 a) b) c) d"
  by (rule bit_word_eqI) (auto simp: fp_step_def bit_simps)

text \<open>
  The fingerprint of a window is a function of its last four bytes only. The value is masked
  to 32 bits after every byte, so the index into the incoming table is always zero and nothing of
  an earlier byte survives four steps, although the window has 48 bytes.
\<close>

theorem window_fingerprint_last_four:
  "window_fingerprint (w @ [a, b, c, d]) = window_fingerprint [a, b, c, d]"
proof -
  have "window_fingerprint v = fold (\<lambda>b f. fp_step f b) v 0" for v
    by (simp add: window_fingerprint_def window_fp_steps)
  then show ?thesis
    using four_steps_forget [of "fold (\<lambda>b f. fp_step f b) w 0" a b c d] by simp
qed

text \<open>The states the scan passes through when the maximum is zero and the first window is no break.\<close>

definition stuck :: "Chunker \<Rightarrow> bool" where
  "stuck c \<longleftrightarrow> cs_max (ck_sizes c) = 0 \<and> cs_min (ck_sizes c) < length (pending c) \<and>
     \<not> is_break (ck_sizes c) (chunk_fp (ck_sizes c) (pending c) 0) \<and>
     (probing c \<longrightarrow> ck_fingerprint c = chunk_fp (ck_sizes c) (pending c) 0 \<and>
        next_probe c = cs_min (ck_sizes c) - 1)"

lemma stuck_no_result: "scan c d = Some r \<Longrightarrow> \<not> stuck c"
proof (induct c d r rule: scan.raw_induct [rotated, consumes 1, case_names step])
  case (step f c d r)
  show ?case
  proof
    assume st: "stuck c"
    let ?c = "c\<lparr>pending := pending c, ck_fingerprint := 0, next_probe := 0, probing := False\<rparr>"
    have "stuck ?c" using st by (simp add: stuck_def)
    moreover have "f ?c (d @ [[]]) = Some r"
      using step(2) st by (cases "probing c") (auto simp: stuck_def emit_def Let_def split: if_splits)
    ultimately show False using step(1) by blast
  qed
qed

text \<open>
  With a maximum size of zero the scan does not return: it emits empty chunks without end as
  soon as more than the minimum is buffered and the first window is no break. The guard in
  \<open>feed\<close> against an endless loop is behind the call and is not reached.
\<close>

theorem scan_zero_max_diverges:
  assumes "cs_max (ck_sizes c) = 0" "cs_min (ck_sizes c) < length (pending c)" "\<not> probing c"
    and "\<not> is_break (ck_sizes c) (chunk_fp (ck_sizes c) (pending c) 0)"
  shows "scan c completed = None"
proof -
  have "stuck c" using assms by (simp add: stuck_def)
  then show ?thesis using stuck_no_result by (cases "scan c completed") auto
qed

lemma zero_window: "window_fingerprint (replicate n 0) = 0"
proof -
  have "advance 0 0 = 0" by (simp add: advance_def)
  then show ?thesis unfolding window_fingerprint_def by (intro fold_same) (auto simp: set_replicate_conv_if split: if_splits)
qed

theorem scan_zero_max_diverges_witness:
  "scan \<lparr>ck_sizes = \<lparr>cs_avg = 2, cs_min = 48, cs_max = 0\<rparr>, pending = replicate 49 0,
     ck_fingerprint = 0, next_probe = 0, probing = False\<rparr> [] = None"
proof (rule scan_zero_max_diverges)
  have "slice (replicate 49 (0 :: byte)) 0 48 = replicate 48 0" by (simp add: slice_def)
  then show "\<not> is_break (ck_sizes \<lparr>ck_sizes = \<lparr>cs_avg = 2, cs_min = 48, cs_max = 0\<rparr>, pending = replicate 49 0,
     ck_fingerprint = 0, next_probe = 0, probing = False\<rparr>) (chunk_fp (ck_sizes \<lparr>ck_sizes = \<lparr>cs_avg = 2, cs_min = 48, cs_max = 0\<rparr>,
     pending = replicate 49 0, ck_fingerprint = 0, next_probe = 0, probing = False\<rparr>)
     (pending \<lparr>ck_sizes = \<lparr>cs_avg = 2, cs_min = 48, cs_max = 0\<rparr>, pending = replicate 49 0,
     ck_fingerprint = 0, next_probe = 0, probing = False\<rparr>) 0)"
    using zero_window [of 48]
    by (simp add: is_break_def break_mask_def BREAK_PATTERN_def WINDOW_BYTES_def)
qed simp_all

end
