(* ===== verification/Quota.thy ===== *)
theory Quota
  imports Prelude
begin

text \<open>
  Storage-quota accounting: the usage snapshots and block reservations of
  \<open>infra/src/quota_cache.rs\<close> and the checks of \<open>server/src/service/fs/quota.rs\<close>.

  Every cache operation holds one mutex for its whole body and is one atomic step. \<open>Instant\<close>s are
  nanoseconds; \<open>duration_since\<close> is zero for a later instant, as the subtraction of \<^typ>\<open>nat\<close> is.
  The database is a record of the two tables read: quotas of users and sizes of owned
  repositories.
\<close>

section \<open>The cache (quota_cache.rs)\<close>

definition USAGE_TTL :: nat where "USAGE_TTL = 500 * 1000000"
definition USAGE_MAX :: nat where "USAGE_MAX = 4096"
definition RESERVED_MAX :: nat where "RESERVED_MAX = 8192"

record QuotaCache =
  usage :: "(int \<times> (int \<times> nat)) list"
  reserved :: "((int \<times> string) \<times> int) list"

definition new_quota_cache :: QuotaCache where
  "new_quota_cache = \<lparr>usage = [], reserved = []\<rparr>"

definition fresh :: "nat \<Rightarrow> nat \<Rightarrow> bool" where
  "fresh now at \<longleftrightarrow> now - at < USAGE_TTL"

definition cached_usage :: "nat \<Rightarrow> int \<Rightarrow> QuotaCache \<Rightarrow> int option" where
  "cached_usage now user_id c =
     (case map_of (usage c) user_id of
        Some (u, at) \<Rightarrow> if fresh now at then Some u else None
      | None \<Rightarrow> None)"

definition store_usage :: "nat \<Rightarrow> nat \<Rightarrow> int \<Rightarrow> int \<Rightarrow> QuotaCache \<Rightarrow> QuotaCache" where
  "store_usage now now' user_id u c =
     (let m = (if USAGE_MAX \<le> length (usage c)
               then filter (\<lambda>(_, (_, at)). fresh now at) (usage c) else usage c)
      in c\<lparr>usage := if length m < USAGE_MAX then hm_insert user_id (u, now') m else m\<rparr>)"

definition invalidate_usage :: "int \<Rightarrow> QuotaCache \<Rightarrow> QuotaCache" where
  "invalidate_usage user_id c = c\<lparr>usage := hm_remove user_id (usage c)\<rparr>"

definition reserved_sum :: "int \<Rightarrow> ((int \<times> string) \<times> int) list \<Rightarrow> int" where
  "reserved_sum user_id m = i64_wrap (\<Sum>((uid, _), n)\<leftarrow>filter (\<lambda>((uid, _), _). uid = user_id) m. n)"

definition reserved_total :: "int \<Rightarrow> QuotaCache \<Rightarrow> int" where
  "reserved_total user_id c = reserved_sum user_id (reserved c)"

definition reserve_if_fits ::
    "int \<Rightarrow> string \<Rightarrow> int \<Rightarrow> int \<Rightarrow> int \<Rightarrow> QuotaCache \<Rightarrow> unit option \<times> QuotaCache" where
  "reserve_if_fits user_id repo_id delta committed quota c =
     (if delta \<le> 0 then (Some (), c)
      else
        let m = reserved c in
        if i64_wrap (i64_wrap (committed + reserved_sum user_id m) + delta) > quota then (None, c)
        else
          let key = (user_id, repo_id);
              full = RESERVED_MAX \<le> length m \<and> map_of m key = None;
              m = (if full then filter (\<lambda>(_, n). n > 0) m else m)
          in
          if full \<and> RESERVED_MAX \<le> length m then (Some (), c\<lparr>reserved := m\<rparr>)
          else (Some (), c\<lparr>reserved := hm_insert key
                  (i64_wrap ((case map_of m key of Some n \<Rightarrow> n | None \<Rightarrow> 0) + delta)) m\<rparr>))"

definition release_repo :: "int \<Rightarrow> string \<Rightarrow> QuotaCache \<Rightarrow> int \<times> QuotaCache" where
  "release_repo user_id repo_id c =
     (case map_of (reserved c) (user_id, repo_id) of Some n \<Rightarrow> n | None \<Rightarrow> 0,
      c\<lparr>reserved := hm_remove (user_id, repo_id) (reserved c)\<rparr>)"

section \<open>The checks (service/fs/quota.rs)\<close>

record quota_db =
  storage_quota :: "int \<Rightarrow> int option option"
  owned_size :: "int \<Rightarrow> int"

text \<open>The clock of one check: the reading of \<open>cached_usage\<close> and the two of \<open>store_usage\<close>.\<close>

type_synonym readings = "nat \<times> nat \<times> nat"

definition user_usage :: "quota_db \<Rightarrow> readings \<Rightarrow> int \<Rightarrow> QuotaCache \<Rightarrow> int \<times> QuotaCache" where
  "user_usage db = (\<lambda>(t1, t2, t3) user_id c.
     (case cached_usage t1 user_id c of
        Some u \<Rightarrow> (u, c)
      | None \<Rightarrow> (owned_size db user_id, store_usage t2 t3 user_id (owned_size db user_id) c)))"

definition effective_quota :: "quota_db \<Rightarrow> int \<Rightarrow> nat \<Rightarrow> int option result" where
  "effective_quota db user_id default_quota =
     rbind (ok_or Unauthorized (storage_quota db user_id)) (\<lambda>own.
       if own = Some 0 then Inr None
       else
         let quota = (case own of Some n \<Rightarrow> n | None \<Rightarrow> i64_wrap (int default_quota))
         in Inr (if quota \<le> 0 then None else Some quota))"

definition check_upload_quota ::
    "quota_db \<Rightarrow> readings \<Rightarrow> int \<Rightarrow> int \<Rightarrow> nat \<Rightarrow> QuotaCache \<Rightarrow> unit result \<times> QuotaCache" where
  "check_upload_quota db ts user_id delta default_quota c =
     (if delta \<le> 0 then (Inr (), c)
      else
        (case effective_quota db user_id default_quota of
           Inl e \<Rightarrow> (Inl e, c)
         | Inr None \<Rightarrow> (Inr (), c)
         | Inr (Some quota) \<Rightarrow>
             let (u, c) = user_usage db ts user_id c in
             (if i64_wrap (u + delta) > quota then Inl QuotaExceeded else Inr (), c)))"

definition check_sync_quota ::
    "quota_db \<Rightarrow> readings \<Rightarrow> int \<Rightarrow> int \<Rightarrow> nat \<Rightarrow> QuotaCache \<Rightarrow> unit result \<times> QuotaCache" where
  "check_sync_quota db ts user_id delta default_quota c =
     (case effective_quota db user_id default_quota of
        Inl e \<Rightarrow> (Inl e, c)
      | Inr None \<Rightarrow> (Inr (), c)
      | Inr (Some quota) \<Rightarrow>
          let (u, c) = user_usage db ts user_id c in
          (if i64_wrap (u + max delta 0) \<ge> quota then Inl QuotaExceeded else Inr (), c))"

definition invalidate_user :: "int \<Rightarrow> QuotaCache \<Rightarrow> QuotaCache" where
  "invalidate_user user_id c = invalidate_usage user_id c"

definition reserve_block_bytes ::
    "quota_db \<Rightarrow> readings \<Rightarrow> int \<Rightarrow> string \<Rightarrow> int \<Rightarrow> nat \<Rightarrow> QuotaCache \<Rightarrow> unit result \<times> QuotaCache" where
  "reserve_block_bytes db ts user_id repo_id delta default_quota c =
     (if delta \<le> 0 then (Inr (), c)
      else
        (case effective_quota db user_id default_quota of
           Inl e \<Rightarrow> (Inl e, c)
         | Inr None \<Rightarrow> (Inr (), c)
         | Inr (Some quota) \<Rightarrow>
             let (u, c) = user_usage db ts user_id c;
                 (r, c) = reserve_if_fits user_id repo_id delta u quota c
             in (ok_or QuotaExceeded r, c)))"

definition release_repo_reservation :: "int \<Rightarrow> string \<Rightarrow> QuotaCache \<Rightarrow> QuotaCache" where
  "release_repo_reservation user_id repo_id c = snd (release_repo user_id repo_id c)"

section \<open>What is reserved\<close>

definition user_sum :: "int \<Rightarrow> ((int \<times> string) \<times> int) list \<Rightarrow> int" where
  "user_sum u m = (\<Sum>((uid, _), n)\<leftarrow>filter (\<lambda>((uid, _), _). uid = u) m. n)"

lemma user_sum_simps [simp]:
  "user_sum u [] = 0"
  "user_sum u (((uid, r), n) # m) = (if uid = u then n else 0) + user_sum u m"
  by (simp_all add: user_sum_def)

lemma reserved_sum_eq: "reserved_sum u m = i64_wrap (user_sum u m)"
  by (simp add: reserved_sum_def user_sum_def)

definition amount :: "((int \<times> string) \<times> int) list \<Rightarrow> int \<times> string \<Rightarrow> int" where
  "amount m k = (case map_of m k of Some n \<Rightarrow> n | None \<Rightarrow> 0)"

lemma user_sum_insert:
  "user_sum u (hm_insert k v m) = user_sum u m + (if fst k = u then v - amount m k else 0)"
proof (induction m)
  case (Cons p m)
  obtain uid q n where "p = ((uid, q), n)" by (metis prod.exhaust)
  then show ?case using Cons by (cases "(uid, q) = k") (auto simp: amount_def)
qed (cases k, simp add: amount_def)

lemma user_sum_nonneg: "\<forall>(k, n)\<in>set m. 0 \<le> n \<Longrightarrow> 0 \<le> user_sum u m"
  by (induction m) auto

lemma user_sum_remove: "\<forall>(k, n)\<in>set m. 0 \<le> n \<Longrightarrow> user_sum u (hm_remove k m) \<le> user_sum u m"
  by (induction m) (auto simp: hm_remove_def split: if_splits)

lemma user_sum_positive: "\<forall>(k, n)\<in>set m. 0 \<le> n \<Longrightarrow> user_sum u (filter (\<lambda>(_, n). n > 0) m) = user_sum u m"
  by (induction m) auto

lemma amount_le_sum:
  "\<forall>(k, n)\<in>set m. 0 \<le> n \<Longrightarrow> amount m (u, r) \<le> user_sum u m"
proof (induction m)
  case (Cons p m)
  obtain uid q n where p: "p = ((uid, q), n)" by (metis prod.exhaust)
  have "0 \<le> user_sum u m" using Cons.prems by (intro user_sum_nonneg) auto
  then show ?case using Cons p by (auto simp: amount_def)
qed (simp add: amount_def)

text \<open>One reservation, without overflow: the check is exact, a refusal changes nothing, and a grant
  is recorded unless the map is full of live reservations.\<close>

lemma reserve_cases:
  assumes "reserve_if_fits u r delta K Q c = (res, c')"
    and "0 < delta" "0 \<le> K" "Q + delta \<le> i64_max" "K + delta \<le> i64_max" "\<forall>(k, n)\<in>set (reserved c). 0 \<le> n"
    and "user_sum u (reserved c) = 0 \<or> K + user_sum u (reserved c) \<le> Q"
  shows "(res = None \<longleftrightarrow> K + user_sum u (reserved c) + delta > Q) \<and> (res = None \<longrightarrow> c' = c) \<and>
    (res \<noteq> None \<longrightarrow> (\<forall>(k, n)\<in>set (reserved c'). 0 \<le> n) \<and>
       (\<forall>v. user_sum v (reserved c') = user_sum v (reserved c) + (if v = u then delta else 0) \<or>
            (RESERVED_MAX \<le> length (reserved c') \<and> user_sum v (reserved c') = user_sum v (reserved c))))"
proof -
  define m where "m = reserved c"
  let ?S = "user_sum u m"
  have pos: "\<forall>(k, n)\<in>set m. 0 \<le> n" using assms(6) by (simp add: m_def)
  have S: "0 \<le> ?S" "?S + delta \<le> i64_max" "K + ?S + delta \<le> i64_max"
    using user_sum_nonneg [OF pos] assms(2-5,7) by (auto simp: m_def)
  have w: "i64_wrap (i64_wrap (K + reserved_sum u m) + delta) = K + ?S + delta"
    using S assms(2,3) by (simp add: reserved_sum_eq i64_wrap_id)
  define full where "full \<longleftrightarrow> RESERVED_MAX \<le> length m \<and> map_of m (u, r) = None"
  define m1 where "m1 = (if full then filter (\<lambda>(_, n). n > 0) m else m)"
  have m1: "\<forall>(k, n)\<in>set m1. 0 \<le> n" "\<And>v. user_sum v m1 = user_sum v m"
    using pos user_sum_positive [OF pos] by (auto simp: m1_def)
  have res: "(res, c') = (if K + ?S + delta > Q then (None, c)
      else if full \<and> RESERVED_MAX \<le> length m1 then (Some (), c\<lparr>reserved := m1\<rparr>)
      else (Some (), c\<lparr>reserved := hm_insert (u, r) (i64_wrap (amount m1 (u, r) + delta)) m1\<rparr>))"
    using assms(1,2) w unfolding reserve_if_fits_def full_def m1_def amount_def Let_def m_def by simp
  have a: "0 \<le> amount m1 (u, r)" "amount m1 (u, r) \<le> ?S"
    using m1 amount_le_sum [OF m1(1), of u r] by (auto simp: amount_def split: option.splits dest: map_of_SomeD)
  then have wa: "i64_wrap (amount m1 (u, r) + delta) = amount m1 (u, r) + delta"
    using S assms(2) by (intro i64_wrap_id) auto
  have ins: "\<forall>(k, n)\<in>set (hm_insert (u, r) (amount m1 (u, r) + delta) m1). 0 \<le> n"
    using m1(1) a(1) assms(2) hm_insert_subset [of "(u, r)" "amount m1 (u, r) + delta" m1] by auto
  show ?thesis
    using res m1 ins by (auto simp: wa user_sum_insert simp flip: m_def split: if_splits)
qed

section \<open>Concurrent uploads stay within the quota\<close>

text \<open>
  The cache operations as steps, in any order and by any users, for committed usages \<open>K\<close> and
  quotas \<open>Q\<close> that stay as they are (a commit starts a new phase). Sizes are small enough not to
  overflow.
\<close>

inductive quota_step :: "(int \<Rightarrow> int) \<Rightarrow> (int \<Rightarrow> int) \<Rightarrow> QuotaCache \<Rightarrow> QuotaCache \<Rightarrow> bool" for K Q where
  reserve: "reserve_if_fits u r delta (K u) (Q u) c = (res, c') \<Longrightarrow> Q u + delta \<le> i64_max \<Longrightarrow> K u + delta \<le> i64_max \<Longrightarrow>
    quota_step K Q c c'"
| release: "release_repo u r c = (n, c') \<Longrightarrow> quota_step K Q c c'"
| snapshot: "quota_step K Q c (store_usage t t' u n c)"
| invalidate: "quota_step K Q c (invalidate_usage u c)"

definition quota_inv :: "(int \<Rightarrow> int) \<Rightarrow> (int \<Rightarrow> int) \<Rightarrow> QuotaCache \<Rightarrow> bool" where
  "quota_inv K Q c \<longleftrightarrow> (\<forall>(k, n)\<in>set (reserved c). 0 \<le> n) \<and>
     (\<forall>u. user_sum u (reserved c) = 0 \<or> K u + user_sum u (reserved c) \<le> Q u)"

lemma quota_inv_step:
  assumes step: "quota_step K Q c c'" and inv: "quota_inv K Q c" and K: "\<And>u. 0 \<le> K u"
  shows "quota_inv K Q c'"
  using step
proof cases
  case (reserve u r delta res)
  show ?thesis
  proof (cases "delta \<le> 0")
    case True
    then show ?thesis using reserve inv by (simp add: reserve_if_fits_def)
  next
    case False
    have "(res = None \<longleftrightarrow> K u + user_sum u (reserved c) + delta > Q u) \<and> (res = None \<longrightarrow> c' = c) \<and>
      (res \<noteq> None \<longrightarrow> (\<forall>(k, n)\<in>set (reserved c'). 0 \<le> n) \<and>
         (\<forall>v. user_sum v (reserved c') = user_sum v (reserved c) + (if v = u then delta else 0) \<or>
              (RESERVED_MAX \<le> length (reserved c') \<and> user_sum v (reserved c') = user_sum v (reserved c))))"
      using reserve False inv K by (intro reserve_cases) (auto simp: quota_inv_def)
    note r = this
    show ?thesis
    proof (cases "res = None")
      case True
      then show ?thesis using r inv by simp
    next
      case False
      have "user_sum v (reserved c') = 0 \<or> K v + user_sum v (reserved c') \<le> Q v" for v
      proof (cases "user_sum v (reserved c') = user_sum v (reserved c)")
        case True
        then show ?thesis using inv unfolding quota_inv_def by metis
      next
        case changed: False
        then have "user_sum v (reserved c') = user_sum v (reserved c) + (if v = u then delta else 0)"
          using r False by blast
        then have "v = u" "user_sum v (reserved c') = user_sum u (reserved c) + delta" using changed by (auto split: if_splits)
        moreover have "K u + user_sum u (reserved c) + delta \<le> Q u" using r False by auto
        ultimately show ?thesis by simp
      qed
      then show ?thesis using r False by (simp add: quota_inv_def)
    qed
  qed
next
  case (release u r n)
  have pos: "\<forall>(k, n)\<in>set (reserved c). 0 \<le> n" using inv by (simp add: quota_inv_def)
  have c': "reserved c' = hm_remove (u, r) (reserved c)" using release by (auto simp: release_repo_def)
  have "user_sum v (reserved c') = 0 \<or> K v + user_sum v (reserved c') \<le> Q v" for v
  proof -
    have "0 \<le> user_sum v (hm_remove (u, r) (reserved c))"
      using pos by (intro user_sum_nonneg) (auto simp: set_hm_remove)
    moreover have "user_sum v (reserved c) = 0 \<or> K v + user_sum v (reserved c) \<le> Q v"
      using inv by (simp add: quota_inv_def)
    ultimately show ?thesis using user_sum_remove [OF pos, of v "(u, r)"] unfolding c' by linarith
  qed
  moreover have "\<forall>(k, n)\<in>set (reserved c'). 0 \<le> n" using pos by (auto simp: c' set_hm_remove)
  ultimately show ?thesis by (simp add: quota_inv_def)
qed (use inv in \<open>simp_all add: quota_inv_def store_usage_def invalidate_usage_def Let_def\<close>)



text \<open>After a commit has invalidated the snapshot, the next check reads the committed total.\<close>

lemma usage_after_invalidate: "fst (user_usage db ts u (invalidate_user u c)) = owned_size db u"
  by (cases ts) (simp add: user_usage_def invalidate_user_def invalidate_usage_def cached_usage_def)

text \<open>
  C40: the sync quota probe adds the client's delta without an overflow check. For a delta near the
  largest \<open>i64\<close> the sum wraps to a negative number and the probe answers that the upload fits,
  whatever the quota is.
\<close>

theorem sync_probe_overflow:
  assumes "storage_quota db u = Some (Some q)" "0 < q" "map_of (usage c) u = None"
    and "0 < owned_size db u" "owned_size db u \<le> i64_max"
  shows "fst (check_sync_quota db ts u i64_max d c) = Inr ()"
proof -
  have "i64_wrap (owned_size db u + i64_max) = owned_size db u - 1 + i64_min"
  proof -
    have "owned_size db u + i64_max + 2 ^ 63 = (owned_size db u - 1) + 2 ^ 64" by simp
    then have "(owned_size db u + i64_max + 2 ^ 63) mod 2 ^ 64 = (owned_size db u - 1) mod 2 ^ 64"
      by (simp only: mod_add_self2)
    also have "\<dots> = owned_size db u - 1" using assms(4,5) by (intro mod_pos_pos_trivial) auto
    finally show ?thesis by (simp add: i64_wrap_def)
  qed
  then have "i64_wrap (owned_size db u + i64_max) < q" using assms(2,5) by simp
  moreover have "fst (user_usage db ts u c) = owned_size db u"
    using assms(3) by (cases ts) (simp add: user_usage_def cached_usage_def)
  moreover have "effective_quota db u d = Inr (Some q)" using assms(1,2) by (auto simp: effective_quota_def)
  ultimately show ?thesis by (simp add: check_sync_quota_def case_prod_beta)
qed

theorem sync_probe_overflow_witness:
  "fst (check_sync_quota \<lparr>storage_quota = (\<lambda>_. Some (Some 1000)), owned_size = (\<lambda>_. 999)\<rparr> (0, 0, 0) 7 i64_max 0
     new_quota_cache) = Inr ()"
  by (rule sync_probe_overflow [where q = 1000]) (simp_all add: new_quota_cache_def)

end
