(* ===== verification/FileOps.thy ===== *)
theory FileOps
  imports Tree Commit Sanitize
begin

text \<open>
  The write path of a library, \<open>server/src/fs/core/file_ops.rs\<close>: resolving a directory with its
  ancestor chain, rewriting one directory and every ancestor up to the root, committing the new
  root under a compare-and-swap of HEAD, and the upload that adds a file; with
  \<open>generate_unique_filename\<close> of \<open>infra/src/common/util.rs\<close>.

  An operation returns its result together with the tables it leaves behind, also when it fails:
  rows stored before an error stay. The clock is an argument. Where the source awaits between
  reading HEAD and acting on it, other requests may run: the arguments \<open>other1\<close> (between the tree
  update and the HEAD read of the commit) and \<open>other2\<close> (between that read and the insertion and
  compare-and-swap) are what they do to the tables; a request that runs alone has the identity for
  both. The block pipeline that precedes an upload is content-defined chunking plus block storage
  and is not part of this theory.
\<close>

section \<open>Unique names\<close>

definition S_IFREG :: "32 word" where "S_IFREG = 33188"

definition split_extension :: "string \<Rightarrow> string \<times> string" where
  "split_extension name = (case rsplit_once dot name of Some (stem, ext) \<Rightarrow> (stem, dot # ext) | None \<Rightarrow> (name, []))"

definition unique_candidate :: "string \<Rightarrow> nat \<Rightarrow> string" where
  "unique_candidate name i =
     (let (stem, ext) = split_extension name in
      if ext = [] then stem @ '' ('' @ show_nat i @ '')''
      else stem @ '' ('' @ show_nat i @ '')'' @ ext)"

lemma show_nat_nonempty [simp]: "show_nat n \<noteq> []"
  by (subst show_nat.simps) simp

lemma digit_inj: "a < 10 \<Longrightarrow> b < 10 \<Longrightarrow> char_of (48 + a) = (char_of (48 + b :: nat) :: char) \<Longrightarrow> a = b"
  using arg_cong [of "char_of (48 + a)" "char_of (48 + b)" "of_char :: char \<Rightarrow> nat"] by simp

lemma show_nat_inj: "show_nat m = show_nat n \<Longrightarrow> m = n"
proof (induction m arbitrary: n rule: less_induct)
  case (less m)
  show ?case
  proof (cases "m < 10")
    case True
    then have "length (show_nat n) = 1" using less.prems [symmetric] by (simp add: show_nat.simps [of m])
    then have n: "n < 10" by (simp add: show_nat.simps [of n] split: if_splits)
    then show ?thesis using True less.prems digit_inj [of m n]
      by (simp add: show_nat.simps [of m] show_nat.simps [of n])
  next
    case False
    then have m: "show_nat m = show_nat (m div 10) @ [char_of (48 + m mod 10)]" by (subst show_nat.simps) simp
    have n10: "\<not> n < 10"
    proof
      assume "n < 10"
      then have "length (show_nat m) = 1" using less.prems by (simp add: show_nat.simps [of n])
      then show False using m by simp
    qed
    then have "show_nat n = show_nat (n div 10) @ [char_of (48 + n mod 10)]" by (subst show_nat.simps) simp
    then have "show_nat (m div 10) = show_nat (n div 10)"
      and "char_of (48 + m mod 10) = (char_of (48 + n mod 10 :: nat) :: char)" using m less.prems by simp_all
    then have "m div 10 = n div 10" "m mod 10 = n mod 10"
      using less.IH [of "m div 10" "n div 10"] False digit_inj [of "m mod 10" "n mod 10"] by auto
    then show ?thesis by (metis div_mult_mod_eq)
  qed
qed

lemma unique_candidate_inj: "unique_candidate name i = unique_candidate name j \<Longrightarrow> i = j"
  by (auto simp: unique_candidate_def Let_def dest: show_nat_inj split: prod.splits if_splits)

text \<open>The search stops: every index tried uses up one existing entry, since candidates of different
  indices differ. (The counter is an \<open>i32\<close> in the source; it would need \<open>2 ^ 31\<close> taken names in
  one directory to wrap.)\<close>

function unique_from :: "DirEntryData list \<Rightarrow> string \<Rightarrow> nat \<Rightarrow> string" where
  "unique_from existing name i =
     (let candidate = unique_candidate name i in
      if list_ex (\<lambda>d. de_name d = candidate) existing then unique_from existing name (i + 1)
      else candidate)"
  by pat_completeness auto
termination
proof (relation "measure (\<lambda>(existing, name, i). card {j. i \<le> j \<and> unique_candidate name j \<in> de_name ` set existing})")
  fix existing :: "DirEntryData list" and name i candidate
  let ?S = "\<lambda>i. {j. i \<le> j \<and> unique_candidate name j \<in> de_name ` set existing}"
  assume "candidate = unique_candidate name i" and "list_ex (\<lambda>d. de_name d = candidate) existing"
  then have "i \<in> ?S i" by (force simp: list_ex_iff)
  moreover have "finite (?S i)"
  proof (rule inj_on_finite)
    show "inj_on (unique_candidate name) (?S i)" by (auto intro: inj_onI dest: unique_candidate_inj)
    show "unique_candidate name ` ?S i \<subseteq> de_name ` set existing" by auto
  qed simp
  moreover have "i \<notin> ?S (i + 1)" and "?S (i + 1) \<subseteq> ?S i" by auto
  ultimately have "card (?S (i + 1)) < card (?S i)" by (intro psubset_card_mono) blast+
  then show "((existing, name, i + 1), existing, name, i) \<in>
      measure (\<lambda>(existing, name, i). card {j. i \<le> j \<and> unique_candidate name j \<in> de_name ` set existing})"
    by simp
qed simp

declare unique_from.simps [simp del]

definition generate_unique_filename :: "DirEntryData list \<Rightarrow> string \<Rightarrow> string" where
  "generate_unique_filename existing name = unique_from existing name 1"

section \<open>Resolving a directory with its ancestors\<close>

definition resolve_root_fs_id :: "tables \<Rightarrow> string \<Rightarrow> string result" where
  "resolve_root_fs_id t repo_id =
     rbind (ok_or (NotFound ''repo not found'') (t_repos t repo_id)) (\<lambda>repo_model.
     rbind (ok_or (NotFound ''repo has no head commit'') (rp_head_commit_id repo_model)) (\<lambda>head_commit_id.
     rbind (ok_or (NotFound ''head commit not found'') (t_commits t (repo_id, head_commit_id))) (\<lambda>commit_ent.
     Inr (cm_root_id commit_ent))))"

definition ops_resolve_fs_id :: "externs \<Rightarrow> tables \<Rightarrow> string \<Rightarrow> string \<Rightarrow> string result" where
  "ops_resolve_fs_id x t repo_id path =
     (if path = [slash] then resolve_root_fs_id t repo_id
      else rbind (resolve_root_fs_id t repo_id) (\<lambda>root_fs_id.
        resolve_fs_id x (t_objects t) repo_id root_fs_id path))"

fun chain_loop ::
    "externs \<Rightarrow> fs_objects \<Rightarrow> string \<Rightarrow> string \<Rightarrow> string list \<Rightarrow> string \<Rightarrow> string \<Rightarrow> (string \<times> string) list \<Rightarrow>
     (string \<times> (string \<times> string) list) result" where
  "chain_loop x db repo_id path [] accumulated current_fs_id chain = Inr (current_fs_id, chain)"
| "chain_loop x db repo_id path (part # parts) accumulated current_fs_id chain =
     (let accumulated = accumulated @ slash # part in
      rbind (read_fs_dir_data x db repo_id current_fs_id) (\<lambda>dir_data.
      rbind (ok_or (NotFound (''path component '' @ [CHR 0x27] @ part @ [CHR 0x27] @ '' not found in '' @
                [CHR 0x27] @ path @ [CHR 0x27])) (find_entry part dir_data)) (\<lambda>found.
      if \<not> is_dir_mode (de_mode found)
      then Inl (NotFound (''not a directory: '' @ [CHR 0x27] @ part @ [CHR 0x27] @ '' in '' @
                [CHR 0x27] @ path @ [CHR 0x27]))
      else chain_loop x db repo_id path parts accumulated (de_id found)
             (chain @ [(accumulated, de_id found)]))))"

definition resolve_fs_id_chain_from_root ::
    "externs \<Rightarrow> tables \<Rightarrow> string \<Rightarrow> string \<Rightarrow> string \<Rightarrow> (string \<times> (string \<times> string) list) result" where
  "resolve_fs_id_chain_from_root x t repo_id root_fs_id path =
     (if path = [slash] \<or> path = [] then Inr (root_fs_id, [])
      else chain_loop x (t_objects t) repo_id path (filter (\<lambda>p. p \<noteq> []) (split_on slash path)) [] root_fs_id [])"

definition resolve_fs_id_chain ::
    "externs \<Rightarrow> tables \<Rightarrow> string \<Rightarrow> string \<Rightarrow> (string \<times> (string \<times> string) list) result" where
  "resolve_fs_id_chain x t repo_id path =
     rbind (resolve_root_fs_id t repo_id) (\<lambda>root_fs_id.
       resolve_fs_id_chain_from_root x t repo_id root_fs_id path)"

section \<open>Rewriting the path to the root\<close>

definition store_dir_row :: "externs \<Rightarrow> string \<Rightarrow> FsDirData \<Rightarrow> tables \<Rightarrow> string \<times> tables" where
  "store_dir_row x repo_id d t =
     (case store_fs_dir_object x repo_id d (t_objects t) of (i, db) \<Rightarrow> (i, t\<lparr>t_objects := db\<rparr>))"

text \<open>The loop with \<open>break\<close>: the first entry of that name gets the new id.\<close>

fun set_child :: "string \<Rightarrow> string \<Rightarrow> DirEntryData list \<Rightarrow> DirEntryData list option" where
  "set_child name i [] = None"
| "set_child name i (e # es) =
     (if de_name e = name then Some (e\<lparr>de_id := i\<rparr> # es) else map_option ((#) e) (set_child name i es))"

definition link_child :: "int \<Rightarrow> string \<Rightarrow> string \<Rightarrow> DirEntryData list \<Rightarrow> DirEntryData list" where
  "link_child now name i es =
     (case set_child name i es of
        Some es' \<Rightarrow> es'
      | None \<Rightarrow> es @ [\<lparr>de_id = i, de_mode = S_IFDIR, de_modifier = [], de_mtime = now, de_name = name, de_size = 0\<rparr>])"

definition ancestor_fs_id ::
    "externs \<Rightarrow> string \<Rightarrow> (string \<times> string) list \<Rightarrow> string option \<Rightarrow> string \<Rightarrow> tables \<Rightarrow> string result" where
  "ancestor_fs_id x repo_id ancestor_chain root_override parent_path t =
     (if parent_path = [slash]
      then (case root_override of Some root \<Rightarrow> Inr root | None \<Rightarrow> resolve_root_fs_id t repo_id)
      else (case map_of (rev ancestor_chain) parent_path of
              Some i \<Rightarrow> Inr i
            | None \<Rightarrow> ops_resolve_fs_id x t repo_id parent_path))"

function walk_up_ancestors ::
    "externs \<Rightarrow> int \<Rightarrow> string \<Rightarrow> (string \<times> string) list \<Rightarrow> string option \<Rightarrow> string \<Rightarrow> string \<Rightarrow> tables \<Rightarrow>
     string result \<times> tables" where
  "walk_up_ancestors x now repo_id ancestor_chain root_override current_child_path current_child_fs_id t =
     (case rsplit_once slash current_child_path of
        None \<Rightarrow> (Inr current_child_fs_id, t)
      | Some (parent, child_name) \<Rightarrow>
          (let parent_path = if parent = [] then [slash] else parent in
           case ancestor_fs_id x repo_id ancestor_chain root_override parent_path t of
             Inl e \<Rightarrow> (Inl e, t)
           | Inr i \<Rightarrow>
               (case read_fs_dir_data x (t_objects t) repo_id i of
                  Inl e \<Rightarrow> (Inl e, t)
                | Inr d \<Rightarrow>
                    (let stored = store_dir_row x repo_id
                           (d\<lparr>dirents := link_child now child_name current_child_fs_id (dirents d)\<rparr>) t
                     in if parent_path = [slash] then (Inr (fst stored), snd stored)
                        else walk_up_ancestors x now repo_id ancestor_chain root_override
                               parent_path (fst stored) (snd stored)))))"
  by pat_completeness auto
termination
proof (relation "measure (\<lambda>(x, now, r, chain, ov, path, i, t). length path)", goal_cases)
  case (2 x now r chain ov path i t p parent name q i' d stored)
  then have "path = parent @ slash # name" by (auto dest!: rsplit_once_Some)
  with 2 show ?case by auto
qed simp

declare walk_up_ancestors.simps [simp del]

definition apply_tree_update ::
    "externs \<Rightarrow> int \<Rightarrow> string \<Rightarrow> string \<Rightarrow> string \<Rightarrow> (string \<times> string) list \<Rightarrow> string option \<Rightarrow>
     (DirEntryData list \<Rightarrow> DirEntryData list result) \<Rightarrow> tables \<Rightarrow> string result \<times> tables" where
  "apply_tree_update x now repo_id parent_path parent_fs_id ancestor_chain root_override update_fn t =
     (case rbind (read_fs_dir_data x (t_objects t) repo_id parent_fs_id)
             (\<lambda>d. rbind (update_fn (dirents d)) (\<lambda>es. Inr (d\<lparr>dirents := es\<rparr>))) of
        Inl e \<Rightarrow> (Inl e, t)
      | Inr parent_data \<Rightarrow>
          (case store_dir_row x repo_id parent_data t of (new_parent_fs_id, t) \<Rightarrow>
             if parent_path = [slash] then (Inr new_parent_fs_id, t)
             else walk_up_ancestors x now repo_id ancestor_chain root_override parent_path new_parent_fs_id t))"

definition update_dir_tree_no_commit ::
    "externs \<Rightarrow> int \<Rightarrow> string \<Rightarrow> string \<Rightarrow> string \<Rightarrow> (string \<times> string) list \<Rightarrow> string option \<Rightarrow>
     (DirEntryData list \<Rightarrow> DirEntryData list result) \<Rightarrow> tables \<Rightarrow> string result \<times> tables" where
  "update_dir_tree_no_commit x now repo_id parent_path parent_fs_id ancestor_chain root_override update_fn t =
     apply_tree_update x now repo_id parent_path parent_fs_id ancestor_chain root_override update_fn t"

section \<open>Committing\<close>

text \<open>
  The commit both \<open>create_commit\<close> and the upload make: read HEAD, skip when the tree is the one HEAD
  has, insert the commit row, move HEAD if it is still the one read, publish. They differ in the
  text of the conflict error, the argument \<open>what\<close>.
\<close>

definition commit_root ::
    "externs \<Rightarrow> string \<Rightarrow> int \<Rightarrow> (tables \<Rightarrow> tables) \<Rightarrow> string \<Rightarrow> string \<Rightarrow> string \<Rightarrow> string \<Rightarrow> string \<Rightarrow> tables \<Rightarrow>
     unit result \<times> tables" where
  "commit_root x unique_err now other2 what repo_id root_fs_id creator_name description t =
     (let repo_model = t_repos t repo_id;
          parent_commit_id = Option.bind repo_model rp_head_commit_id in
      if (case parent_commit_id of
            None \<Rightarrow> False
          | Some head_id \<Rightarrow> (case t_commits t (repo_id, head_id) of
                None \<Rightarrow> False | Some c \<Rightarrow> cm_root_id c = root_fs_id))
      then (Inr (), t)
      else
        let commit_data = mk_commit repo_id root_fs_id creator_name EMPTY_SHA1 description now parent_commit_id 1;
            commit_id = compute_commit_id x commit_data;
            row = \<lparr>cm_commit_id = commit_id, cm_root_id = root_fs_id, cm_parent_id = parent_commit_id,
                   cm_second_parent_id = None, cm_creator_name = creator_name, cm_creator = EMPTY_SHA1,
                   cm_description = description, cm_ctime = now, cm_version = 1, cm_new_merge = None,
                   cm_conflict = None\<rparr>
        in (case insert_commit unique_err repo_id row (other2 t) of
              (Inl e, t) \<Rightarrow> (Inl e, t)
            | (Inr _, t) \<Rightarrow>
                if repo_model = None then (Inl (NotFound ''repo not found''), t)
                else (case test_and_update_head_commit now repo_id parent_commit_id commit_id now t of
                        (False, t) \<Rightarrow> (Inl (Conflict (''HEAD of '' @ repo_id @ '' advanced while this '' @ what @
                                         '' was being committed'')), t)
                      | (True, t) \<Rightarrow> (Inr (), t\<lparr>t_published := t_published t @ [(repo_id, commit_id)]\<rparr>))))"

definition create_commit ::
    "externs \<Rightarrow> string \<Rightarrow> int \<Rightarrow> (tables \<Rightarrow> tables) \<Rightarrow> string \<Rightarrow> string \<Rightarrow> string \<Rightarrow> string \<Rightarrow> tables \<Rightarrow>
     unit result \<times> tables" where
  "create_commit x unique_err now other2 repo_id root_fs_id creator_name description t =
     commit_root x unique_err now other2 ''change'' repo_id root_fs_id creator_name description t"

definition update_dir_tree_and_commit ::
    "externs \<Rightarrow> string \<Rightarrow> int \<Rightarrow> (tables \<Rightarrow> tables) \<Rightarrow> (tables \<Rightarrow> tables) \<Rightarrow> string \<Rightarrow> string \<Rightarrow> string \<Rightarrow>
     string \<Rightarrow> string \<Rightarrow> (string \<times> string) list \<Rightarrow> (DirEntryData list \<Rightarrow> DirEntryData list result) \<Rightarrow> tables \<Rightarrow>
     string result \<times> tables" where
  "update_dir_tree_and_commit x unique_err now other1 other2 repo_id parent_path parent_fs_id modifier
     description ancestor_chain update_fn t =
     (case apply_tree_update x now repo_id parent_path parent_fs_id ancestor_chain None update_fn t of
        (Inl e, t) \<Rightarrow> (Inl e, t)
      | (Inr root_fs_id, t) \<Rightarrow>
          (case create_commit x unique_err now other2 repo_id root_fs_id modifier description (other1 t) of
             (Inl e, t) \<Rightarrow> (Inl e, t)
           | (Inr _, t) \<Rightarrow> (Inr root_fs_id, t)))"

section \<open>Uploads\<close>

definition upload_parent ::
    "externs \<Rightarrow> string \<Rightarrow> string \<Rightarrow> tables \<Rightarrow> (string \<times> (string \<times> string) list) result \<times> tables" where
  "upload_parent x repo_id parent_path t =
     (if parent_path = [slash] then
        (case Option.bind (t_repos t repo_id) rp_head_commit_id of
           Some commit_id \<Rightarrow>
             (rbind (ok_or (NotFound ''head commit not found'') (t_commits t (repo_id, commit_id)))
                (\<lambda>c. Inr (cm_root_id c, [])), t)
         | None \<Rightarrow> (case store_dir_row x repo_id empty_dir t of (i, t) \<Rightarrow> (Inr (i, []), t)))
      else (resolve_fs_id_chain x t repo_id parent_path, t))"

definition upload_entries ::
    "int \<Rightarrow> string \<Rightarrow> string \<Rightarrow> string \<Rightarrow> int \<Rightarrow> bool \<Rightarrow> DirEntryData list \<Rightarrow> DirEntryData list \<times> string" where
  "upload_entries now modifier name file_fs_id total_size replace es =
     (let identical_replace = replace \<and>
            list_ex (\<lambda>d. de_name d = name \<and> de_id d = file_fs_id \<and> de_size d = total_size) es;
          es = (if replace \<and> \<not> identical_replace then filter (\<lambda>d. de_name d \<noteq> name) es else es);
          effective_name =
            (if identical_replace then name
             else if \<not> replace \<and> list_ex (\<lambda>d. de_name d = name) es
                  then generate_unique_filename es name else name)
      in (if identical_replace then es
          else es @ [\<lparr>de_id = file_fs_id, de_mode = S_IFREG, de_modifier = modifier, de_mtime = now,
                           de_name = effective_name, de_size = total_size\<rparr>], effective_name))"

definition create_file_from_blocks ::
    "externs \<Rightarrow> string \<Rightarrow> int \<Rightarrow> (tables \<Rightarrow> tables) \<Rightarrow> (tables \<Rightarrow> tables) \<Rightarrow> string \<Rightarrow> string \<Rightarrow> string \<Rightarrow>
     string list \<Rightarrow> int \<Rightarrow> string \<Rightarrow> bool \<Rightarrow> tables \<Rightarrow> (string \<times> string) result \<times> tables" where
  "create_file_from_blocks x unique_err now other1 other2 repo_id parent_path name blocks total_size
     modifier replace t =
     (let (file_fs_id, db) = store_fs_file_object x repo_id
            \<lparr>block_ids = blocks, file_size = total_size, file_type = 1, file_version = 1\<rparr> (t_objects t);
          t = t\<lparr>t_objects := db\<rparr>
      in (case upload_parent x repo_id parent_path t of
            (Inl e, t) \<Rightarrow> (Inl e, t)
          | (Inr (parent_fs_id, ancestor_chain), t) \<Rightarrow>
              (case read_fs_dir_data x (t_objects t) repo_id parent_fs_id of
                 Inl e \<Rightarrow> (Inl e, t)
               | Inr parent_data \<Rightarrow>
                   (let (es, effective_name) =
                          upload_entries now modifier name file_fs_id total_size replace (dirents parent_data);
                        (new_dir_fs_id, t) = store_dir_row x repo_id
                          \<lparr>dirents = es, dir_type = SEAF_METADATA_TYPE_DIR, dir_version = 1\<rparr> t
                    in (case (if parent_path = [slash] then (Inr new_dir_fs_id, t)
                              else walk_up_ancestors x now repo_id ancestor_chain None parent_path new_dir_fs_id t) of
                          (Inl e, t) \<Rightarrow> (Inl e, t)
                        | (Inr root_fs_id, t) \<Rightarrow>
                            (case commit_root x unique_err now other2 ''upload'' repo_id root_fs_id modifier
                                    (''Added '' @ effective_name) (other1 t) of
                               (Inl e, t) \<Rightarrow> (Inl e, t)
                             | (Inr _, t) \<Rightarrow> (Inr (file_fs_id, effective_name), t)))))))"

section \<open>The new tree as a function of the old one\<close>

text \<open>
  The reference: the directories of the updated tree along a path, root first, when the directory
  at the end of the path becomes \<open>d\<close>. Every ancestor keeps its entries except for the id of the
  child on the path.
\<close>

fun path_copy :: "externs \<Rightarrow> fs_objects \<Rightarrow> string \<Rightarrow> string \<Rightarrow> string list \<Rightarrow> FsDirData \<Rightarrow> FsDirData list" where
  "path_copy x db r root [] d = [d]"
| "path_copy x db r root (s # ss) d =
     (case read_fs_dir_data x db r root of
        Inl _ \<Rightarrow> [d]
      | Inr a \<Rightarrow>
          (case find_entry s a of
             None \<Rightarrow> [d]
           | Some e \<Rightarrow>
               (let ds = path_copy x db r (de_id e) ss d
                in a\<lparr>dirents := link_child 0 s (dir_fs_id x (hd ds)) (dirents a)\<rparr> # ds)))"

definition store_all :: "externs \<Rightarrow> string \<Rightarrow> FsDirData list \<Rightarrow> tables \<Rightarrow> tables" where
  "store_all x r ds t = foldr (\<lambda>d t. snd (store_dir_row x r d t)) ds t"

definition abs_path :: "string list \<Rightarrow> string" where
  "abs_path segs = (if segs = [] then [slash] else concat (map (\<lambda>s. slash # s) segs))"

definition segs_ok :: "string list \<Rightarrow> bool" where
  "segs_ok segs \<longleftrightarrow> (\<forall>s\<in>set segs. s \<noteq> [] \<and> slash \<notin> set s)"

lemma path_copy_nonempty [simp]: "path_copy x db r root segs d \<noteq> []"
  by (cases segs) (auto simp: Let_def split: sum.splits option.splits)

lemma set_child_None: "set_child n i es = None \<longleftrightarrow> find (\<lambda>e. de_name e = n) es = None"
  by (induction es) auto

lemma link_child_now:
  "find_entry n d = Some e \<Longrightarrow> link_child now n i (dirents d) = link_child now' n i (dirents d)"
  using set_child_None [of n i "dirents d"]
  by (auto simp: link_child_def find_entry_def split: option.splits)

lemma abs_path_snoc:
  "segs_ok (ss @ [s]) \<Longrightarrow>
   rsplit_once slash (abs_path (ss @ [s])) = Some (concat (map (\<lambda>s. slash # s) ss), s)"
  by (simp add: abs_path_def segs_ok_def rsplit_once_append)

lemma abs_path_eq_root [simp]: "segs_ok segs \<Longrightarrow> abs_path segs = [slash] \<longleftrightarrow> segs = []"
  by (cases segs) (auto simp: abs_path_def segs_ok_def)

lemma path_segments_abs: "segs_ok segs \<Longrightarrow> path_segments (abs_path segs) = segs"
proof (cases segs)
  case Nil
  then show ?thesis by (simp add: path_segments_def abs_path_def trim_start_matches_def)
next
  case (Cons s ss)
  have join: "concat (map (\<lambda>s. slash # s) (s # ss)) = slash # join_with [slash] (s # ss)" for s ss
  proof (induction ss arbitrary: s)
    case (Cons u us)
    from Cons.IH [of u] show ?case by (simp add: join_with_Cons)
  qed simp
  assume ok: "segs_ok segs"
  then have s: "s \<noteq> []" "hd s \<noteq> slash" using Cons hd_in_set [of s] by (auto simp: segs_ok_def simp del: hd_in_set)
  then have "trim_start_matches [slash] (abs_path segs) = join_with [slash] segs"
    using Cons join [of s ss] by (cases s; cases ss) (simp_all add: abs_path_def trim_start_matches_def)
  moreover have "split_on slash (join_with [slash] segs) = segs"
    using ok Cons by (intro split_on_join) (auto simp: segs_ok_def)
  moreover have "filter (\<lambda>s. s \<noteq> []) segs = segs" using ok by (auto simp: segs_ok_def filter_id_conv)
  ultimately show ?thesis by (simp add: path_segments_def)
qed

lemma resolve_dir_append:
  "resolve_dir_segments x db r i (ss @ ts) =
     rbind (resolve_dir_segments x db r i ss) (\<lambda>j. resolve_dir_segments x db r j ts)"
proof (induction ss arbitrary: i)
  case (Cons s ss)
  then show ?case by (auto simp: rbind_def split: sum.splits)
qed simp

lemma resolve_dir_mono:
  "db \<subseteq>\<^sub>m db' \<Longrightarrow> resolve_dir_segments x db r i ss = Inr j \<Longrightarrow> resolve_dir_segments x db' r i ss = Inr j"
  by (induction ss arbitrary: i) (auto simp: rbind_eq_Inr_iff dest: read_dir_mono split: if_splits)

lemma resolve_mono:
  "db \<subseteq>\<^sub>m db' \<Longrightarrow> resolve_segments x db r i ss = Inr j \<Longrightarrow> resolve_segments x db' r i ss = Inr j"
proof (induction ss arbitrary: i)
  case (Cons s ss)
  from Cons.prems obtain d e where "read_fs_dir_data x db r i = Inr d" "find_entry s d = Some e"
    "ss = [] \<or> is_dir_mode (de_mode e)" "resolve_segments x db r (de_id e) ss = Inr j"
    by (auto simp: rbind_eq_Inr_iff split: if_splits)
  with Cons show ?case by (auto dest: read_dir_mono)
qed simp

lemma path_copy_snoc:
  assumes "resolve_dir_segments x db r root ss = Inr i" "read_fs_dir_data x db r i = Inr a"
    and "find_entry s a = Some e"
  shows "path_copy x db r root (ss @ [s]) d =
    path_copy x db r root ss (a\<lparr>dirents := link_child 0 s (dir_fs_id x d) (dirents a)\<rparr>) @ [d]"
  using assms
proof (induction ss arbitrary: root)
  case (Cons u us)
  from Cons.prems(1) obtain b e' where b: "read_fs_dir_data x db r root = Inr b" "find_entry u b = Some e'"
    and "resolve_dir_segments x db r (de_id e') us = Inr i"
    by (auto simp: rbind_eq_Inr_iff split: if_splits)
  from Cons.IH [OF this(3) Cons.prems(2,3)] b show ?case by (simp add: Let_def)
qed simp

lemma path_copy_last:
  assumes "resolve_dir_segments x db r root segs = Inr i"
  shows "path_copy x db r root segs d = butlast (path_copy x db r root segs d) @ [d]"
proof -
  have "last (path_copy x db r root segs d) = d"
    using assms by (induction segs arbitrary: root) (auto simp: rbind_eq_Inr_iff Let_def split: if_splits)
  then show ?thesis using append_butlast_last_id [OF path_copy_nonempty] by metis
qed

lemma path_copy_mono:
  "resolve_dir_segments x db r root segs = Inr i \<Longrightarrow> db \<subseteq>\<^sub>m db' \<Longrightarrow>
   path_copy x db' r root segs d = path_copy x db r root segs d"
  by (induction segs arbitrary: root)
    (auto simp: rbind_eq_Inr_iff Let_def dest: read_dir_mono split: if_splits)

lemma store_dir_row_eq:
  "store_dir_row x r d t = (dir_fs_id x d, t\<lparr>t_objects := snd (store_fs_dir_object x r d (t_objects t))\<rparr>)"
  by (simp add: store_dir_row_def store_dir_eq)

lemma fst_store_dir_row [simp]: "fst (store_dir_row x r d t) = dir_fs_id x d"
  by (simp add: store_dir_row_eq)

lemma store_all_simps [simp]:
  "store_all x r [] t = t"
  "store_all x r (d # ds) t = snd (store_dir_row x r d (store_all x r ds t))"
  "store_all x r (ds @ es) t = store_all x r ds (store_all x r es t)"
  by (simp_all add: store_all_def)

lemma store_row_keeps [simp]:
  "t_commits (snd (store_dir_row x r d t)) = t_commits t" "t_repos (snd (store_dir_row x r d t)) = t_repos t"
  "t_published (snd (store_dir_row x r d t)) = t_published t"
  by (simp_all add: store_dir_row_eq)

lemma store_all_keeps [simp]:
  "t_commits (store_all x r ds t) = t_commits t" "t_repos (store_all x r ds t) = t_repos t"
  "t_published (store_all x r ds t) = t_published t"
  by (induction ds) simp_all

lemma store_row_le: "t_objects t \<subseteq>\<^sub>m t_objects (snd (store_dir_row x r d t))"
  by (simp add: store_dir_row_eq store_dir_le)

lemma store_all_le: "t_objects t \<subseteq>\<^sub>m t_objects (store_all x r ds t)"
  by (induction ds) (auto intro: map_le_trans store_row_le)

text \<open>
  What a walk needs from its ancestor lookups: on every directory strictly above the end of the
  path they answer as the tree does, whatever rows have been added meanwhile.
\<close>

definition lookups_ok ::
    "externs \<Rightarrow> string \<Rightarrow> (string \<times> string) list \<Rightarrow> string option \<Rightarrow> string \<Rightarrow> string list \<Rightarrow> tables \<Rightarrow> bool" where
  "lookups_ok x r chain ov root segs t \<longleftrightarrow>
     (\<forall>ps s qs db i. segs = ps @ s # qs \<longrightarrow> t_objects t \<subseteq>\<^sub>m db \<longrightarrow>
        resolve_dir_segments x (t_objects t) r root ps = Inr i \<longrightarrow>
        ancestor_fs_id x r chain ov (abs_path ps) (t\<lparr>t_objects := db\<rparr>) = Inr i)"

lemma lookups_okD:
  assumes "lookups_ok x r chain ov root (ps @ s # qs) t"
    and "t_objects t \<subseteq>\<^sub>m t_objects u" "t_commits u = t_commits t" "t_repos u = t_repos t"
      "t_published u = t_published t"
    and "resolve_dir_segments x (t_objects t) r root ps = Inr i"
  shows "ancestor_fs_id x r chain ov (abs_path ps) u = Inr i"
proof -
  have "u = t\<lparr>t_objects := t_objects u\<rparr>" using assms(3-5) by simp
  then show ?thesis using assms(1,2,6) unfolding lookups_ok_def by metis
qed

lemma lookups_ok_prefix:
  "lookups_ok x r chain ov root (ps @ qs) t \<Longrightarrow> lookups_ok x r chain ov root ps t"
  unfolding lookups_ok_def by (metis append.assoc append_Cons)

lemma segs_ok_append [simp]: "segs_ok (ps @ qs) \<longleftrightarrow> segs_ok ps \<and> segs_ok qs"
  by (auto simp: segs_ok_def)

lemma walk_up_step:
  assumes "rsplit_once slash path = Some (parent, name)" "pp = (if parent = [] then [slash] else parent)"
    and "ancestor_fs_id x r chain ov pp u = Inr j" "read_fs_dir_data x (t_objects u) r j = Inr a"
    and "a' = a\<lparr>dirents := link_child now name i (dirents a)\<rparr>"
  shows "walk_up_ancestors x now r chain ov path i u =
    (if pp = [slash] then (Inr (dir_fs_id x a'), snd (store_dir_row x r a' u))
     else walk_up_ancestors x now r chain ov pp (dir_fs_id x a') (snd (store_dir_row x r a' u)))"
  using assms by (subst walk_up_ancestors.simps) (simp add: Let_def store_dir_row_eq)

text \<open>The bottom-up loop computes the top-down reference.\<close>

lemma walk_up_path_copy:
  assumes "segs \<noteq> []" "segs_ok segs" "resolve_dir_segments x (t_objects t) r root segs = Inr i"
    and "lookups_ok x r chain ov root segs t"
    and "t_objects t \<subseteq>\<^sub>m t_objects u" "t_commits u = t_commits t" "t_repos u = t_repos t"
      "t_published u = t_published t"
  shows "walk_up_ancestors x now r chain ov (abs_path segs) (dir_fs_id x d) u =
    (Inr (dir_fs_id x (hd (path_copy x (t_objects t) r root segs d))),
     store_all x r (butlast (path_copy x (t_objects t) r root segs d)) u)"
  using assms
proof (induction segs arbitrary: d u i rule: rev_induct)
  case (snoc s ss)
  from snoc.prems(3) obtain j a e where j: "resolve_dir_segments x (t_objects t) r root ss = Inr j"
    and a: "read_fs_dir_data x (t_objects t) r j = Inr a" and e: "find_entry s a = Some e"
    by (auto simp: resolve_dir_append rbind_eq_Inr_iff split: if_splits)
  define a' where "a' = a\<lparr>dirents := link_child 0 s (dir_fs_id x d) (dirents a)\<rparr>"
  have now: "link_child now s k (dirents a) = link_child 0 s k (dirents a)" for k
    by (rule link_child_now [OF e])
  have copy: "path_copy x (t_objects t) r root (ss @ [s]) d = path_copy x (t_objects t) r root ss a' @ [d]"
    unfolding a'_def by (rule path_copy_snoc [OF j a e])
  have anc: "ancestor_fs_id x r chain ov (abs_path ss) u = Inr j"
    by (rule lookups_okD [of _ _ _ _ _ _ s "[]" t]) (use snoc.prems j in auto)
  have read: "read_fs_dir_data x (t_objects u) r j = Inr a" by (rule read_dir_mono [OF snoc.prems(5) a])
  define u' where "u' = snd (store_dir_row x r a' u)"
  have u': "t_objects t \<subseteq>\<^sub>m t_objects u'" "t_commits u' = t_commits t" "t_repos u' = t_repos t"
      "t_published u' = t_published t"
    using snoc.prems(5-8) by (auto simp: u'_def intro: map_le_trans store_row_le)
  have pp: "(if concat (map (\<lambda>s. slash # s) ss) = [] then [slash] else concat (map (\<lambda>s. slash # s) ss)) = abs_path ss"
    by (auto simp: abs_path_def)
  have step: "walk_up_ancestors x now r chain ov (abs_path (ss @ [s])) (dir_fs_id x d) u =
      (if ss = [] then (Inr (dir_fs_id x a'), u')
       else walk_up_ancestors x now r chain ov (abs_path ss) (dir_fs_id x a') u')"
    using walk_up_step [OF abs_path_snoc [OF snoc.prems(2)] pp [symmetric] anc read, of a' now "dir_fs_id x d"]
      snoc.prems(2) by (simp add: now a'_def [symmetric] u'_def)
  show ?case
  proof (cases "ss = []")
    case True
    then show ?thesis using step copy by (simp add: u'_def)
  next
    case False
    have "walk_up_ancestors x now r chain ov (abs_path ss) (dir_fs_id x a') u' =
      (Inr (dir_fs_id x (hd (path_copy x (t_objects t) r root ss a'))),
       store_all x r (butlast (path_copy x (t_objects t) r root ss a')) u')"
      by (rule snoc.IH [OF False _ j _ u']) (use snoc.prems lookups_ok_prefix in auto)
    moreover have "store_all x r (path_copy x (t_objects t) r root ss a') u =
        store_all x r (butlast (path_copy x (t_objects t) r root ss a')) u'"
    proof -
      have "path_copy x (t_objects t) r root ss a' =
          butlast (path_copy x (t_objects t) r root ss a') @ [a']"
        by (rule path_copy_last [OF j])
      then show ?thesis using store_all_simps(3) [of x r _ "[a']" u] by (metis store_all_simps(1,2) u'_def)
    qed
    ultimately show ?thesis using step copy False by simp
  qed
qed simp

section \<open>Reading the new tree\<close>

text \<open>
  What the third-party code must do on the directories an operation writes: the parser inverts the
  serializer on them, none of their ids is the sentinel, and ids do not clash, neither with rows
  already stored nor among themselves.
\<close>

definition faithful :: "externs \<Rightarrow> string \<Rightarrow> fs_objects \<Rightarrow> FsDirData set \<Rightarrow> bool" where
  "faithful x r db D \<longleftrightarrow>
     (\<forall>d\<in>D. dir_type d = SEAF_METADATA_TYPE_DIR \<and> dir_version d = 1 \<and>
        (dirents d \<noteq> [] \<longrightarrow>
           parse_dir x (dir_to_json x (sorted_dir d)) = Inr (strip_dir (sorted_dir d)) \<and>
           dir_fs_id x d \<noteq> EMPTY_SHA1 \<and> db (r, dir_fs_id x d) \<in> {None, Some (dir_row x d)})) \<and>
     (\<forall>d\<in>D. \<forall>d'\<in>D. dirents d \<noteq> [] \<longrightarrow> dirents d' \<noteq> [] \<longrightarrow> dir_fs_id x d = dir_fs_id x d' \<longrightarrow>
        dir_row x d = dir_row x d')"

lemma store_row_object:
  "t_objects (snd (store_dir_row x r d t)) =
     (if dirents d = [] then t_objects t else insert_or_ignore r (dir_fs_id x d) (dir_row x d) (t_objects t))"
  by (simp add: store_dir_row_eq store_dir_eq)

lemma faithfulD:
  assumes "faithful x r db D" "d \<in> D"
  shows "dir_type d = SEAF_METADATA_TYPE_DIR" "dir_version d = 1"
    and "dirents d \<noteq> [] \<Longrightarrow> parse_dir x (dir_to_json x (sorted_dir d)) = Inr (strip_dir (sorted_dir d))"
    and "dirents d \<noteq> [] \<Longrightarrow> dir_fs_id x d \<noteq> EMPTY_SHA1"
    and "dirents d \<noteq> [] \<Longrightarrow> db (r, dir_fs_id x d) = None \<or> db (r, dir_fs_id x d) = Some (dir_row x d)"
  using assms unfolding faithful_def by blast+

lemma faithful_rows_agree:
  "faithful x r db D \<Longrightarrow> d \<in> D \<Longrightarrow> d' \<in> D \<Longrightarrow> dirents d \<noteq> [] \<Longrightarrow> dirents d' \<noteq> [] \<Longrightarrow>
   dir_fs_id x d = dir_fs_id x d' \<Longrightarrow> dir_row x d = dir_row x d'"
  unfolding faithful_def by blast

lemma faithful_mono:
  assumes "faithful x r db D"
    and "\<And>d. d \<in> D \<Longrightarrow> dirents d \<noteq> [] \<Longrightarrow> db' (r, dir_fs_id x d) = None \<or> db' (r, dir_fs_id x d) = Some (dir_row x d)"
  shows "faithful x r db' D"
  using assms unfolding faithful_def by blast

lemma insert_or_ignore_eq:
  "insert_or_ignore r i row db (r, j) =
     (if j = i then (case db (r, i) of None \<Rightarrow> Some row | Some old \<Rightarrow> Some old) else db (r, j))"
  by (simp add: insert_or_ignore_def split: option.split)

lemma faithful_row:
  assumes "faithful x r (t_objects t) D" "d \<in> D" "dirents d \<noteq> []"
  shows "t_objects (snd (store_dir_row x r d t)) (r, dir_fs_id x d) = Some (dir_row x d)"
  using faithfulD(5) [OF assms] assms(3) by (elim disjE) (simp_all add: store_row_object insert_or_ignore_eq)

lemma faithful_store:
  assumes "faithful x r (t_objects t) D" "d \<in> D"
  shows "faithful x r (t_objects (snd (store_dir_row x r d t))) D"
proof (rule faithful_mono [OF assms(1)])
  fix d' assume d': "d' \<in> D" "dirents d' \<noteq> []"
  let ?new = "t_objects (snd (store_dir_row x r d t)) (r, dir_fs_id x d')"
  consider "dirents d = []" | "dirents d \<noteq> []" "dir_fs_id x d' = dir_fs_id x d"
    | "dirents d \<noteq> []" "dir_fs_id x d' \<noteq> dir_fs_id x d" by blast
  then show "?new = None \<or> ?new = Some (dir_row x d')"
  proof cases
    case 2
    then have "dir_row x d' = dir_row x d"
      using faithful_rows_agree [OF assms(1) d'(1) assms(2)] d'(2) by blast
    then show ?thesis using faithful_row [OF assms 2(1)] 2(2) by metis
  qed (use faithfulD(5) [OF assms(1) d'] in \<open>simp_all add: store_row_object insert_or_ignore_eq\<close>)
qed

lemma faithful_store_all:
  "faithful x r (t_objects t) D \<Longrightarrow> set ds \<subseteq> D \<Longrightarrow> faithful x r (t_objects (store_all x r ds t)) D"
  by (induction ds) (auto intro: faithful_store)

lemma store_all_row:
  assumes "faithful x r (t_objects t) D" "set ds \<subseteq> D" "d \<in> set ds" "dirents d \<noteq> []"
  shows "t_objects (store_all x r ds t) (r, dir_fs_id x d) = Some (dir_row x d)"
  using assms
proof (induction ds)
  case (Cons a ds)
  show ?case
  proof (cases "d = a")
    case True
    then show ?thesis using faithful_row [OF faithful_store_all, of x r t D ds a] Cons.prems by auto
  next
    case False
    then have "t_objects (store_all x r ds t) (r, dir_fs_id x d) = Some (dir_row x d)"
      using Cons by auto
    then show ?thesis using map_le_SomeD [OF store_row_le] by simp
  qed
qed simp

lemma store_all_reads:
  assumes "faithful x r (t_objects t) (set ds)" "d \<in> set ds"
  shows "read_fs_dir_data x (t_objects (store_all x r ds t)) r (dir_fs_id x d) = Inr (strip_dir (sorted_dir d))"
proof (cases "dirents d = []")
  case True
  then have "strip_dir (sorted_dir d) = empty_dir"
    using faithfulD(1,2) [OF assms] by (simp add: strip_dir_def sorted_dir_def sort_dirents_desc_def empty_dir_def)
  then show ?thesis using True by (simp add: dir_fs_id_def read_fs_dir_data_def)
next
  case False
  then have "t_objects (store_all x r ds t) (r, dir_fs_id x d) = Some (dir_row x d)"
    using assms by (intro store_all_row) auto
  moreover have "parse_dir x (dir_to_json x (sorted_dir d)) = Inr (strip_dir (sorted_dir d))"
    "dir_fs_id x d \<noteq> EMPTY_SHA1" "dir_type d = SEAF_METADATA_TYPE_DIR"
    using faithfulD [OF assms] False by blast+
  ultimately show ?thesis by (simp add: read_fs_dir_data_def dir_row_def)
qed

lemma find_map: "find P (map f xs) = map_option f (find (P \<circ> f) xs)"
  by (induction xs) auto

lemma strip_dirent_sel [simp]:
  "de_name (strip_dirent e) = de_name e" "de_id (strip_dirent e) = de_id e" "de_mode (strip_dirent e) = de_mode e"
  "de_mtime (strip_dirent e) = de_mtime e"
  by (simp_all add: strip_dirent_def)

lemma find_entry_stored: "find_entry n (strip_dir (sorted_dir d)) = map_option strip_dirent (find_entry n d)"
  by (simp add: find_entry_def strip_dir_def sorted_dir_def sort_dirents_desc_def find_map comp_def find_sort_desc)

lemma find_set_child:
  "set_child s i es = Some es' \<Longrightarrow> find (\<lambda>e. de_name e = s) es = Some e \<Longrightarrow>
   find (\<lambda>e. de_name e = n) es' = (if n = s then Some (e\<lparr>de_id := i\<rparr>) else find (\<lambda>e. de_name e = n) es)"
  by (induction es arbitrary: es') (auto split: if_splits)

lemma find_link_child:
  assumes "find_entry s a = Some e"
  shows "find_entry n (a\<lparr>dirents := link_child now s i (dirents a)\<rparr>) =
    (if n = s then Some (e\<lparr>de_id := i\<rparr>) else find_entry n a)"
proof -
  obtain es where es: "set_child s i (dirents a) = Some es"
    using assms set_child_None [of s i "dirents a"] by (auto simp: find_entry_def)
  then show ?thesis using assms find_set_child [OF es] by (simp add: find_entry_def link_child_def)
qed

text \<open>Every directory of the copy reads back, in the tables that hold it.\<close>

definition copy_stored :: "externs \<Rightarrow> fs_objects \<Rightarrow> string \<Rightarrow> FsDirData list \<Rightarrow> bool" where
  "copy_stored x db r ds \<longleftrightarrow>
     (\<forall>d\<in>set ds. read_fs_dir_data x db r (dir_fs_id x d) = Inr (strip_dir (sorted_dir d)))"

lemma copy_through:
  assumes "resolve_dir_segments x db r root segs = Inr i"
    and "copy_stored x db' r (path_copy x db r root segs d)"
  shows "resolve_segments x db' r (dir_fs_id x (hd (path_copy x db r root segs d))) (segs @ q) =
      resolve_segments x db' r (dir_fs_id x d) q"
    and "resolve_dir_segments x db' r (dir_fs_id x (hd (path_copy x db r root segs d))) segs =
      Inr (dir_fs_id x d)"
  using assms
proof (induction segs arbitrary: root)
  case (Cons s ss)
  {
    case 1
    then obtain a e where a: "read_fs_dir_data x db r root = Inr a" "find_entry s a = Some e"
      "is_dir_mode (de_mode e)" "resolve_dir_segments x db r (de_id e) ss = Inr i"
      by (auto simp: rbind_eq_Inr_iff split: if_splits)
    with 1 Cons.IH(1) [of "de_id e"] show ?case
      by (simp add: Let_def copy_stored_def find_entry_stored find_link_child)
  next
    case 2
    then obtain a e where a: "read_fs_dir_data x db r root = Inr a" "find_entry s a = Some e"
      "is_dir_mode (de_mode e)" "resolve_dir_segments x db r (de_id e) ss = Inr i"
      by (auto simp: rbind_eq_Inr_iff split: if_splits)
    with 2 Cons.IH(2) [of "de_id e"] show ?case
      by (simp add: Let_def copy_stored_def find_entry_stored find_link_child)
  }
qed simp_all

lemma copy_beside:
  assumes "resolve_dir_segments x db r root segs = Inr i" "db \<subseteq>\<^sub>m db'"
    and "copy_stored x db' r (path_copy x db r root segs d)"
    and "\<not> prefix segs q" "\<not> prefix q segs" "resolve_segments x db r root q = Inr j"
  shows "resolve_segments x db' r (dir_fs_id x (hd (path_copy x db r root segs d))) q = Inr j"
  using assms
proof (induction segs arbitrary: root q)
  case (Cons s ss)
  obtain n ns where q: "q = n # ns" using Cons.prems(5) by (cases q) auto
  from Cons.prems(1) obtain a e where a: "read_fs_dir_data x db r root = Inr a" "find_entry s a = Some e"
      "is_dir_mode (de_mode e)" "resolve_dir_segments x db r (de_id e) ss = Inr i"
    by (auto simp: rbind_eq_Inr_iff split: if_splits)
  from Cons.prems(6) a(1) q obtain e' where e': "find_entry n a = Some e'" "ns = [] \<or> is_dir_mode (de_mode e')"
      "resolve_segments x db r (de_id e') ns = Inr j"
    by (auto simp: rbind_eq_Inr_iff split: if_splits)
  show ?case
  proof (cases "n = s")
    case True
    then show ?thesis using Cons.IH [of "de_id e" ns] Cons.prems(2-5) a e' q
      by (simp add: Let_def copy_stored_def find_entry_stored find_link_child)
  next
    case False
    then show ?thesis using resolve_mono [OF Cons.prems(2) e'(3)] Cons.prems(3) a e' q
      by (auto simp: Let_def copy_stored_def find_entry_stored find_link_child)
  qed
qed simp

end
