(* ===== verification/FileOpsLaws.thy ===== *)
theory FileOpsLaws
  imports FileOps
begin

text \<open>
  What the write path guarantees: a directory update rewrites exactly the directories on its path,
  every other path of the tree keeps its meaning, the commit that carries the new root becomes
  HEAD with the old HEAD as its parent, an upload never loses an entry it was not asked to
  replace; and where the guard on HEAD does not reach.
\<close>

section \<open>Ancestor chains\<close>

lemma abs_path_inj:
  "segs_ok ps \<Longrightarrow> segs_ok qs \<Longrightarrow> abs_path ps = abs_path qs \<Longrightarrow> ps = qs"
  by (metis path_segments_abs)

lemma ex_prefix_Cons:
  "(\<exists>ps. ps \<noteq> [] \<and> prefix ps (p # parts) \<and> Q ps) \<longleftrightarrow> Q [p] \<or> (\<exists>qs. qs \<noteq> [] \<and> prefix qs parts \<and> Q (p # qs))"
proof (intro iffI; elim exE conjE disjE)
  fix ps assume "ps \<noteq> []" "prefix ps (p # parts)" "Q ps"
  then obtain qs where "ps = p # qs" "prefix qs parts" by (cases ps) auto
  then show "Q [p] \<or> (\<exists>qs. qs \<noteq> [] \<and> prefix qs parts \<and> Q (p # qs))" using \<open>Q ps\<close> by (cases "qs = []") auto
next
  assume "Q [p]"
  then show "\<exists>ps. ps \<noteq> [] \<and> prefix ps (p # parts) \<and> Q ps" by (intro exI [of _ "[p]"]) simp
next
  fix qs assume "prefix qs parts" "Q (p # qs)"
  then show "\<exists>ps. ps \<noteq> [] \<and> prefix ps (p # parts) \<and> Q ps" by (intro exI [of _ "p # qs"]) simp
qed

lemma chain_loop_spec:
  assumes "chain_loop x db r path parts acc cur ch = Inr (i, ch')"
  shows "resolve_dir_segments x db r cur parts = Inr i \<and>
    ((k, v) \<in> set ch' \<longleftrightarrow> (k, v) \<in> set ch \<or> (\<exists>ps. ps \<noteq> [] \<and> prefix ps parts \<and>
       k = acc @ concat (map (\<lambda>s. slash # s) ps) \<and> resolve_dir_segments x db r cur ps = Inr v))"
  using assms
proof (induction parts arbitrary: acc cur ch)
  case (Cons p parts)
  then obtain d e where d: "read_fs_dir_data x db r cur = Inr d" "find_entry p d = Some e"
    and m: "is_dir_mode (de_mode e)"
    and rest: "chain_loop x db r path parts (acc @ slash # p) (de_id e) (ch @ [(acc @ slash # p, de_id e)]) = Inr (i, ch')"
    by (auto simp: Let_def rbind_eq_Inr_iff split: if_splits)
  have step: "resolve_dir_segments x db r cur (p # ps) = resolve_dir_segments x db r (de_id e) ps" for ps
    using d m by simp
  show ?case
    unfolding ex_prefix_Cons step using Cons.IH [OF rest] by auto
qed auto

lemma parts_abs: "segs_ok segs \<Longrightarrow> segs \<noteq> [] \<Longrightarrow> filter (\<lambda>p. p \<noteq> []) (split_on slash (abs_path segs)) = segs"
proof -
  assume ok: "segs_ok segs" "segs \<noteq> []"
  have "split_on slash (concat (map (\<lambda>s. slash # s) ss)) = [] # ss" if "segs_ok ss" for ss
    using that
  proof (induction ss)
    case (Cons s ss)
    then have "split_on slash (s @ concat (map (\<lambda>s. slash # s) ss)) = s # ss"
    proof (cases ss)
      case Nil
      then show ?thesis using Cons.prems by (simp add: split_on_id segs_ok_def)
    next
      case (Cons u us)
      then show ?thesis using Cons.IH Cons.prems by (simp add: split_on_append_sep segs_ok_def)
    qed
    then show ?case by simp
  qed simp
  then show ?thesis using ok by (auto simp: abs_path_def segs_ok_def filter_id_conv)
qed

lemma resolve_fs_id_chain_spec:
  assumes "resolve_fs_id_chain_from_root x t r root (abs_path segs) = Inr (i, chain)" "segs_ok segs"
  shows "resolve_dir_segments x (t_objects t) r root segs = Inr i \<and>
    set chain = {(abs_path ps, v) | ps v.
      ps \<noteq> [] \<and> prefix ps segs \<and> resolve_dir_segments x (t_objects t) r root ps = Inr v}"
proof (cases "segs = []")
  case True
  then show ?thesis using assms by (auto simp: resolve_fs_id_chain_from_root_def abs_path_def)
next
  case False
  have "abs_path segs \<noteq> []" by (cases segs) (simp_all add: abs_path_def)
  then have "chain_loop x (t_objects t) r (abs_path segs) segs [] root [] = Inr (i, chain)"
    using assms False by (simp add: resolve_fs_id_chain_from_root_def parts_abs)
  note spec = chain_loop_spec [OF this]
  have "(k, v) \<in> set chain \<longleftrightarrow> (\<exists>ps. ps \<noteq> [] \<and> prefix ps segs \<and> k = abs_path ps \<and>
      resolve_dir_segments x (t_objects t) r root ps = Inr v)" for k v
    using spec [of k v] by (auto simp: abs_path_def)
  then show ?thesis using spec by auto
qed

lemma resolve_root_objects [simp]: "resolve_root_fs_id (t\<lparr>t_objects := db\<rparr>) r = resolve_root_fs_id t r"
  by (simp add: resolve_root_fs_id_def)

text \<open>Both ways the callers supply ancestors are right: no chain, with the root taken from HEAD, and
  the chain of the same resolution, with the root from HEAD or handed over.\<close>

lemma lookups_ok_empty:
  assumes "resolve_root_fs_id t r = Inr root" "segs_ok segs"
  shows "lookups_ok x r [] None root segs t"
  unfolding lookups_ok_def
proof (intro allI impI)
  fix ps s qs db i
  assume segs: "segs = ps @ s # qs" and le: "t_objects t \<subseteq>\<^sub>m db"
    and i: "resolve_dir_segments x (t_objects t) r root ps = Inr i"
  then have ok: "segs_ok ps" using assms(2) by simp
  have "resolve_segments x db r root ps = Inr i"
    using resolve_mono [OF le resolve_dir_imp_resolve [OF i]] .
  then show "ancestor_fs_id x r [] None (abs_path ps) (t\<lparr>t_objects := db\<rparr>) = Inr i"
    using assms(1) i ok
    by (auto simp: ancestor_fs_id_def ops_resolve_fs_id_def resolve_fs_id_def path_segments_abs)
qed

lemma lookups_ok_chain:
  assumes "resolve_fs_id_chain_from_root x t r root (abs_path segs) = Inr (j, chain)" "segs_ok segs"
    and "ov = Some root \<or> ov = None \<and> resolve_root_fs_id t r = Inr root"
  shows "lookups_ok x r chain ov root segs t"
  unfolding lookups_ok_def
proof (intro allI impI)
  fix ps s qs db i
  assume segs: "segs = ps @ s # qs" and i: "resolve_dir_segments x (t_objects t) r root ps = Inr i"
  then have ok: "segs_ok ps" using assms(2) by simp
  have chain: "set chain = {(abs_path ps, v) | ps v.
      ps \<noteq> [] \<and> prefix ps segs \<and> resolve_dir_segments x (t_objects t) r root ps = Inr v}"
    using resolve_fs_id_chain_spec [OF assms(1,2)] by blast
  have "map_of (rev chain) (abs_path ps) = Some i" if "ps \<noteq> []"
  proof -
    have "(abs_path ps, i) \<in> set (rev chain)" using chain i segs that by fastforce
    then obtain v where v: "map_of (rev chain) (abs_path ps) = Some v"
      by (metis map_of_eq_None_iff image_eqI fst_conv not_None_eq)
    then have "(abs_path ps, v) \<in> set chain" using map_of_SomeD by fastforce
    then obtain ps' where "abs_path ps = abs_path ps'" "prefix ps' segs"
      "resolve_dir_segments x (t_objects t) r root ps' = Inr v" using chain by blast
    moreover have "segs_ok ps'" using assms(2) calculation(2) by (auto simp: prefix_def)
    ultimately show ?thesis using abs_path_inj [OF ok] i v by auto
  qed
  then show "ancestor_fs_id x r chain ov (abs_path ps) (t\<lparr>t_objects := db\<rparr>) = Inr i"
    using assms(3) i ok by (auto simp: ancestor_fs_id_def)
qed

section \<open>Updating one directory\<close>

lemma store_then_walk:
  assumes "segs_ok segs" "resolve_dir_segments x (t_objects t) r root segs = Inr i"
    and "lookups_ok x r chain ov root segs t" "ds = path_copy x (t_objects t) r root segs d"
  shows "(if abs_path segs = [slash] then (Inr (dir_fs_id x d), snd (store_dir_row x r d t))
    else walk_up_ancestors x now r chain ov (abs_path segs) (dir_fs_id x d) (snd (store_dir_row x r d t))) =
    (Inr (dir_fs_id x (hd ds)), store_all x r ds t)"
proof (cases "segs = []")
  case True
  then show ?thesis using assms(4) by (simp add: abs_path_def)
next
  case False
  let ?u = "snd (store_dir_row x r d t)"
  have "walk_up_ancestors x now r chain ov (abs_path segs) (dir_fs_id x d) ?u =
      (Inr (dir_fs_id x (hd ds)), store_all x r (butlast ds) ?u)"
    unfolding assms(4) by (rule walk_up_path_copy [OF False assms(1-3)]) (simp_all add: store_row_le)
  moreover have "store_all x r ds t = store_all x r (butlast ds) ?u"
    using path_copy_last [OF assms(2), of d] assms(4) store_all_simps(3) [of x r "butlast ds" "[d]" t] by simp
  ultimately show ?thesis using False assms(1) by simp
qed

lemma apply_tree_update_eq:
  assumes "segs_ok segs" "resolve_dir_segments x (t_objects t) r root segs = Inr i"
    and "read_fs_dir_data x (t_objects t) r i = Inr pd" "f (dirents pd) = Inr es"
    and "lookups_ok x r chain ov root segs t"
    and "ds = path_copy x (t_objects t) r root segs (pd\<lparr>dirents := es\<rparr>)"
  shows "apply_tree_update x now r (abs_path segs) i chain ov f t =
    (Inr (dir_fs_id x (hd ds)), store_all x r ds t)"
  using store_then_walk [OF assms(1,2,5,6), of now] assms(3,4)
  by (simp add: apply_tree_update_def case_prod_unfold split: if_splits)

text \<open>What holds of a tree after the directory at \<open>segs\<close> became \<open>d\<close>: it reads as \<open>d\<close> in canonical order,
  and a path that neither leads to it nor through it resolves as before.\<close>

definition tree_updated ::
    "externs \<Rightarrow> string \<Rightarrow> fs_objects \<Rightarrow> string \<Rightarrow> string list \<Rightarrow> FsDirData \<Rightarrow> fs_objects \<Rightarrow> string \<Rightarrow> bool" where
  "tree_updated x r db root segs d db' root' \<longleftrightarrow>
     resolve_dir_segments x db' r root' segs = Inr (dir_fs_id x d) \<and>
     read_fs_dir_data x db' r (dir_fs_id x d) = Inr (strip_dir (sorted_dir d)) \<and>
     (\<forall>q. resolve_segments x db' r root' (segs @ q) = resolve_segments x db' r (dir_fs_id x d) q) \<and>
     (\<forall>q j. \<not> prefix segs q \<longrightarrow> \<not> prefix q segs \<longrightarrow> resolve_segments x db r root q = Inr j \<longrightarrow>
        resolve_segments x db' r root' q = Inr j)"

lemma path_copy_updates:
  assumes "resolve_dir_segments x (t_objects t) r root segs = Inr i"
    and "ds = path_copy x (t_objects t) r root segs d" "faithful x r (t_objects t) (set ds)"
  shows "tree_updated x r (t_objects t) root segs d (t_objects (store_all x r ds t)) (dir_fs_id x (hd ds))"
proof -
  have st: "copy_stored x (t_objects (store_all x r ds t)) r ds"
    unfolding copy_stored_def using store_all_reads [OF assms(3)] by blast
  have "d \<in> set ds" using path_copy_last [OF assms(1), of d] assms(2)
    by (metis in_set_conv_decomp)
  then show ?thesis unfolding tree_updated_def
    using copy_through [OF assms(1), of "t_objects (store_all x r ds t)" d]
      copy_beside [OF assms(1) store_all_le, of x r ds d] st assms(2) store_all_reads [OF assms(3)]
    by auto
qed

section \<open>Committing\<close>

text \<open>The row \<open>create_commit\<close> inserts.\<close>

definition new_commit_id :: "externs \<Rightarrow> int \<Rightarrow> string \<Rightarrow> string \<Rightarrow> string \<Rightarrow> string \<Rightarrow> string option \<Rightarrow> string" where
  "new_commit_id x now r root who desc parent =
     compute_commit_id x (mk_commit r root who EMPTY_SHA1 desc now parent 1)"

definition head_root :: "tables \<Rightarrow> string \<Rightarrow> (string \<times> string) option" where
  "head_root t r = Option.bind (t_repos t r) (\<lambda>rp. Option.bind (rp_head_commit_id rp) (\<lambda>h.
     map_option (\<lambda>c. (h, cm_root_id c)) (t_commits t (r, h))))"

lemma head_root_resolve: "head_root t r = Some (h, root) \<Longrightarrow> resolve_root_fs_id t r = Inr root"
  by (auto simp: head_root_def resolve_root_fs_id_def bind_eq_Some_conv)

lemma resolve_root_head: "resolve_root_fs_id t r = Inr root \<longleftrightarrow> (\<exists>h. head_root t r = Some (h, root))"
  by (auto simp: head_root_def resolve_root_fs_id_def bind_eq_Some_conv rbind_eq_Inr_iff)

text \<open>HEAD advanced by one commit: its parent is the old HEAD, the history below it is kept.\<close>

definition head_advanced :: "string \<Rightarrow> tables \<Rightarrow> string \<Rightarrow> string \<Rightarrow> tables \<Rightarrow> bool" where
  "head_advanced r t h root t' \<longleftrightarrow>
     t_commits t \<subseteq>\<^sub>m t_commits t' \<and> t_objects t' = t_objects t \<and>
     (\<exists>h' c. head_root t' r = Some (h', root) \<and> t_commits t' (r, h') = Some c \<and> cm_parent_id c = Some h)"

lemma commit_root_advances:
  assumes "head_root t r = Some (h, old)" "old \<noteq> root"
    and "t_commits t (r, new_commit_id x now r root who desc (Some h)) = None"
  shows "\<exists>t'. commit_root x ue now (\<lambda>t. t) what r root who desc t = (Inr (), t') \<and> head_advanced r t h root t'"
proof -
  from assms(1) obtain rp c where rp: "t_repos t r = Some rp" "rp_head_commit_id rp = Some h"
    "t_commits t (r, h) = Some c" "cm_root_id c = old"
    by (auto simp: head_root_def bind_eq_Some_conv)
  let ?r = "commit_root x ue now (\<lambda>t. t) what r root who desc t"
  have "fst ?r = Inr () \<and> head_advanced r t h root (snd ?r)"
    using rp assms(2,3)
    by (auto simp: commit_root_def insert_commit_def test_and_update_head_commit_def head_advanced_def
        head_root_def new_commit_id_def map_le_def Let_def dom_def)
  then show ?thesis by (metis prod.collapse)
qed

lemma commit_root_skips:
  "head_root t r = Some (h, root) \<Longrightarrow> commit_root x ue now o2 what r root who desc t = (Inr (), t)"
  by (auto simp: commit_root_def head_root_def bind_eq_Some_conv Let_def)

lemma head_root_store_all [simp]: "head_root (store_all x r' ds t) r = head_root t r"
  by (simp add: head_root_def)

section \<open>Properties of updates\<close>

lemma chain_lookups:
  assumes "head_root t r = Some (h, root)" "segs_ok segs"
    and "chain = [] \<or> resolve_fs_id_chain x t r (abs_path segs) = Inr (i, chain)"
  shows "lookups_ok x r chain None root segs t"
  using assms(3)
proof
  assume "chain = []"
  then show ?thesis using lookups_ok_empty [OF head_root_resolve [OF assms(1)] assms(2)] by simp
next
  assume "resolve_fs_id_chain x t r (abs_path segs) = Inr (i, chain)"
  then have "resolve_fs_id_chain_from_root x t r root (abs_path segs) = Inr (i, chain)"
    using head_root_resolve [OF assms(1)] by (simp add: resolve_fs_id_chain_def)
  then show ?thesis
    by (rule lookups_ok_chain) (use assms(2) head_root_resolve [OF assms(1)] in simp_all)
qed

lemma commit_after_update:
  assumes "head_root t r = Some (h, root)" "u = store_all x r ds t"
    and "t_commits t (r, new_commit_id x now r root' who desc (Some h)) = None"
  obtains t' where "commit_root x ue now (\<lambda>t. t) what r root' who desc u = (Inr (), t')"
    "t_objects t' = t_objects u" "t_commits t \<subseteq>\<^sub>m t_commits t'"
    "if root' = root then head_root t' r = Some (h, root)
     else \<exists>h' c. head_root t' r = Some (h', root') \<and> t_commits t' (r, h') = Some c \<and> cm_parent_id c = Some h"
proof (cases "root' = root")
  case True
  then show ?thesis using that [of u] commit_root_skips [of u r h root] assms by simp
next
  case False
  then show ?thesis
    using that commit_root_advances [of u r h root root' x now who desc ue what] assms
    by (auto simp: head_advanced_def)
qed

text \<open>
  C2: a directory update that runs alone succeeds and does what it says: the new HEAD tree has the
  updated entries at the path, every path that does not lead to or through that directory resolves
  as before, no commit is lost, and HEAD's new commit has the old HEAD as its parent (or HEAD stays
  when the tree did not change). This holds with and without a precomputed ancestor chain.
\<close>

theorem update_dir_tree_commits:
  assumes head: "head_root t r = Some (h, root)" and ok: "segs_ok segs"
    and dir: "resolve_dir_segments x (t_objects t) r root segs = Inr i"
      "read_fs_dir_data x (t_objects t) r i = Inr pd" "f (dirents pd) = Inr es"
    and chain: "chain = [] \<or> resolve_fs_id_chain x t r (abs_path segs) = Inr (i, chain)"
    and ds: "ds = path_copy x (t_objects t) r root segs (pd\<lparr>dirents := es\<rparr>)"
    and codec: "faithful x r (t_objects t) (set ds)"
    and fresh: "t_commits t (r, new_commit_id x now r (dir_fs_id x (hd ds)) who desc (Some h)) = None"
  shows "\<exists>root' t'. update_dir_tree_and_commit x ue now (\<lambda>t. t) (\<lambda>t. t) r (abs_path segs) i who desc chain f t =
      (Inr root', t') \<and>
    tree_updated x r (t_objects t) root segs (pd\<lparr>dirents := es\<rparr>) (t_objects t') root' \<and>
    t_commits t \<subseteq>\<^sub>m t_commits t' \<and>
    (if root' = root then head_root t' r = Some (h, root)
     else \<exists>h' c. head_root t' r = Some (h', root') \<and> t_commits t' (r, h') = Some c \<and> cm_parent_id c = Some h)"
proof -
  have upd: "apply_tree_update x now r (abs_path segs) i chain None f t =
      (Inr (dir_fs_id x (hd ds)), store_all x r ds t)"
    by (rule apply_tree_update_eq [OF ok dir(1,2), of f es]) (use dir chain_lookups [OF head ok chain] ds in simp_all)
  obtain t' where t': "commit_root x ue now (\<lambda>t. t) ''change'' r (dir_fs_id x (hd ds)) who desc (store_all x r ds t) = (Inr (), t')"
    and o: "t_objects t' = t_objects (store_all x r ds t)"
    and rest: "t_commits t \<subseteq>\<^sub>m t_commits t'"
      "if dir_fs_id x (hd ds) = root then head_root t' r = Some (h, root)
       else \<exists>h' c. head_root t' r = Some (h', dir_fs_id x (hd ds)) \<and> t_commits t' (r, h') = Some c \<and> cm_parent_id c = Some h"
    by (rule commit_after_update [OF head refl fresh])
  show ?thesis
    by (intro exI [of _ "dir_fs_id x (hd ds)"] exI [of _ t'] conjI rest)
      (use upd t' o path_copy_updates [OF dir(1) ds codec] in
        \<open>simp_all add: update_dir_tree_and_commit_def create_commit_def\<close>)
qed

text \<open>
  Between reading HEAD and moving it, a commit cannot overwrite anybody: whatever other requests
  do in that window, \<open>create_commit\<close> either leaves HEAD as they left it, or finds HEAD exactly as it
  had read it and makes its own commit, with that parent, the new HEAD.
\<close>

theorem create_commit_guards_head:
  "let (res, t') = create_commit x ue now other2 r root who desc t;
       parent = Option.bind (t_repos t r) rp_head_commit_id;
       new = new_commit_id x now r root who desc parent in
   if res = Inr () then
     t' = t \<and> resolve_root_fs_id t r = Inr root \<or>
     head_of (other2 t) r = Some parent \<and> head_of t' r = Some (Some new) \<and>
     map_option cm_parent_id (t_commits t' (r, new)) = Some parent
   else t_commits (other2 t) \<subseteq>\<^sub>m t_commits t' \<and> head_of t' r = head_of (other2 t) r"
  by (auto simp: create_commit_def commit_root_def new_commit_id_def insert_commit_def Let_def head_of_def
      test_and_update_head_commit_def resolve_root_fs_id_def map_le_def
      split: option.splits prod.splits bool.splits if_splits)

text \<open>
  C36: the guard does not reach back to the tree. When another request moves HEAD after the tree was
  read and before \<open>create_commit\<close> reads HEAD, the update still succeeds: its commit is put on top of
  the other one, while its tree is the one computed from the old HEAD, so what the other commit
  changed is gone from HEAD. (The comment in \<open>create_commit\<close> says that HEAD moves only while it is
  still the commit the tree was computed from.)
\<close>

theorem stale_update_succeeds:
  assumes ok: "segs_ok segs"
    and dir: "resolve_dir_segments x (t_objects t) r root segs = Inr i"
      "read_fs_dir_data x (t_objects t) r i = Inr pd" "f (dirents pd) = Inr es"
    and head: "head_root t r = Some (h, root)"
    and chain: "chain = [] \<or> resolve_fs_id_chain x t r (abs_path segs) = Inr (i, chain)"
    and ds: "ds = path_copy x (t_objects t) r root segs (pd\<lparr>dirents := es\<rparr>)"
    and moved: "head_root (other1 (store_all x r ds t)) r = Some (h2, root2)" "root2 \<noteq> dir_fs_id x (hd ds)"
    and fresh: "t_commits (other1 (store_all x r ds t))
        (r, new_commit_id x now r (dir_fs_id x (hd ds)) who desc (Some h2)) = None"
  shows "\<exists>t'. update_dir_tree_and_commit x ue now other1 (\<lambda>t. t) r (abs_path segs) i who desc chain f t =
      (Inr (dir_fs_id x (hd ds)), t') \<and>
    head_advanced r (other1 (store_all x r ds t)) h2 (dir_fs_id x (hd ds)) t'"
proof -
  have upd: "apply_tree_update x now r (abs_path segs) i chain None f t =
      (Inr (dir_fs_id x (hd ds)), store_all x r ds t)"
    by (rule apply_tree_update_eq [OF ok dir(1,2), of f es]) (use dir chain_lookups [OF head ok chain] ds in simp_all)
  from commit_root_advances [OF moved fresh, of ue "''change''"] show ?thesis
    using upd by (auto simp: update_dir_tree_and_commit_def create_commit_def)
qed

section \<open>Uploads\<close>

lemma unique_from_fresh: "unique_from es name i \<notin> de_name ` set es"
proof (induction es name i rule: unique_from.induct)
  case (1 es name i)
  then show ?case by (subst unique_from.simps) (auto simp: Let_def list_ex_iff image_iff)
qed

lemma unique_from_first:
  "\<exists>k\<ge>i. unique_from es name i = unique_candidate name k \<and>
     unique_candidate name ` {i..<k} \<subseteq> de_name ` set es"
proof (induction es name i rule: unique_from.induct)
  case (1 es name i)
  show ?case
  proof (cases "list_ex (\<lambda>d. de_name d = unique_candidate name i) es")
    case False
    then show ?thesis by (subst unique_from.simps) (auto simp: Let_def)
  next
    case True
    then obtain k where k: "i + 1 \<le> k" "unique_from es name (i + 1) = unique_candidate name k"
      "unique_candidate name ` {i + 1..<k} \<subseteq> de_name ` set es" using 1 by blast
    moreover have "unique_candidate name i \<in> de_name ` set es" using True by (force simp: list_ex_iff)
    moreover have "{i..<k} = insert i {i + 1..<k}" using k(1) by auto
    ultimately have "unique_candidate name ` {i..<k} \<subseteq> de_name ` set es" by simp
    then show ?thesis using True k
      by (intro exI [of _ k] conjI) (simp_all add: unique_from.simps [of es name i])
  qed
qed

text \<open>
  The name generated for a "keep both" upload is free in the directory and is the first free one
  of the numbered candidates \<open>stem (1).ext\<close>, \<open>stem (2).ext\<close>, \<dots>; the search always ends.
\<close>

theorem unique_filename_first_free:
  "\<exists>k\<ge>1. generate_unique_filename es name = unique_candidate name k \<and>
     unique_candidate name ` {1..<k} \<subseteq> de_name ` set es \<and>
     generate_unique_filename es name \<notin> de_name ` set es"
  using unique_from_first [of 1 es name] unique_from_fresh [of es name 1]
  by (auto simp: generate_unique_filename_def)

lemma find_append: "find P (xs @ ys) = (case find P xs of None \<Rightarrow> find P ys | Some x \<Rightarrow> Some x)"
  by (induction xs) auto

lemma find_name_None: "find (\<lambda>e. de_name e = n) es = None \<longleftrightarrow> n \<notin> de_name ` set es"
  by (induction es) auto

lemma find_name_distinct:
  "distinct (map de_name es) \<Longrightarrow> e \<in> set es \<Longrightarrow> find (\<lambda>d. de_name d = de_name e) es = Some e"
  by (induction es) (auto simp: image_iff)

lemma find_filter_other:
  "m \<noteq> n \<Longrightarrow> find (\<lambda>e. de_name e = m) (filter (\<lambda>e. de_name e \<noteq> n) es) = find (\<lambda>e. de_name e = m) es"
  by (induction es) auto

text \<open>The entry list after an upload: the effective name leads to the file, every other name to what
  it led to before; without \<open>replace\<close> the effective name was free.\<close>

lemma upload_entries_spec:
  assumes "upload_entries now who name fid sz replace es = (es', eff)" "distinct (map de_name es)"
  shows "map_option de_id (find (\<lambda>e. de_name e = eff) es') = Some fid"
    and "n \<noteq> eff \<Longrightarrow> find (\<lambda>e. de_name e = n) es' = find (\<lambda>e. de_name e = n) es"
    and "\<not> replace \<Longrightarrow> eff \<notin> de_name ` set es" and "replace \<Longrightarrow> eff = name"
    and "\<not> replace \<Longrightarrow> name \<notin> de_name ` set es \<Longrightarrow> eff = name"
proof -
  let ?same = "\<lambda>d. de_name d = name \<and> de_id d = fid \<and> de_size d = sz"
  let ?new = "\<lambda>nm. \<lparr>de_id = fid, de_mode = S_IFREG, de_modifier = who, de_mtime = now, de_name = nm, de_size = sz\<rparr>"
  consider (same) "replace" "list_ex ?same es" "es' = es" "eff = name"
    | (repl) "replace" "es' = filter (\<lambda>d. de_name d \<noteq> name) es @ [?new name]" "eff = name"
    | (add) "\<not> replace" "es' = es @ [?new eff]" "eff \<notin> de_name ` set es" "name \<notin> de_name ` set es \<longrightarrow> eff = name"
  proof -
    have ex: "list_ex (\<lambda>d. de_name d = name) es \<longleftrightarrow> name \<in> de_name ` set es" by (auto simp: list_ex_iff)
    have eqs: "(es', eff) = upload_entries now who name fid sz replace es" using assms(1) by simp
    show thesis if *: "replace \<Longrightarrow> list_ex ?same es \<Longrightarrow> es' = es \<Longrightarrow> eff = name \<Longrightarrow> thesis"
      "replace \<Longrightarrow> es' = filter (\<lambda>d. de_name d \<noteq> name) es @ [?new name] \<Longrightarrow> eff = name \<Longrightarrow> thesis"
      "\<not> replace \<Longrightarrow> es' = es @ [?new eff] \<Longrightarrow> eff \<notin> de_name ` set es \<Longrightarrow>
        name \<notin> de_name ` set es \<longrightarrow> eff = name \<Longrightarrow> thesis" for thesis
    proof (cases replace)
      case True
      then show thesis using *(1,2) eqs by (cases "list_ex ?same es") (simp_all add: upload_entries_def Let_def)
    next
      case False
      then show thesis using *(3) eqs unique_from_fresh [of es name 1] ex
        by (cases "name \<in> de_name ` set es") (simp_all add: upload_entries_def generate_unique_filename_def Let_def)
    qed
  qed
  note cases = this
  show "map_option de_id (find (\<lambda>e. de_name e = eff) es') = Some fid" using cases
  proof cases
    case same
    then obtain e where "e \<in> set es" "?same e" by (auto simp: list_ex_iff)
    then show ?thesis using find_name_distinct [OF assms(2)] same by force
  next
    case repl
    have "find (\<lambda>e. de_name e = name) (filter (\<lambda>d. de_name d \<noteq> name) es) = None" by (auto simp: find_name_None)
    then show ?thesis using repl by (simp add: find_append)
  next
    case add
    then have "find (\<lambda>e. de_name e = eff) es = None" by (simp add: find_name_None)
    then show ?thesis using add by (simp add: find_append)
  qed
  show "find (\<lambda>e. de_name e = n) es' = find (\<lambda>e. de_name e = n) es" if "n \<noteq> eff"
    using cases that by cases (simp_all add: find_append find_filter_other split: option.split)
  show "\<not> replace \<Longrightarrow> eff \<notin> de_name ` set es" "replace \<Longrightarrow> eff = name"
    "\<not> replace \<Longrightarrow> name \<notin> de_name ` set es \<Longrightarrow> eff = name"
    using cases by (cases; simp)+
qed

lemma upload_parent_head:
  assumes "head_root t r = Some (h, root)" "segs_ok segs"
    and "upload_parent x r (abs_path segs) t = (Inr (i, chain), u)"
  shows "u = t \<and> resolve_dir_segments x (t_objects t) r root segs = Inr i \<and>
    lookups_ok x r chain None root segs t"
proof (cases "segs = []")
  case True
  then show ?thesis using assms lookups_ok_empty [OF head_root_resolve [OF assms(1)], of "[]"]
    by (auto simp: upload_parent_def abs_path_def head_root_def bind_eq_Some_conv)
next
  case False
  then have c: "resolve_fs_id_chain x t r (abs_path segs) = Inr (i, chain)" and "u = t"
    using assms by (auto simp: upload_parent_def)
  then have "resolve_fs_id_chain_from_root x t r root (abs_path segs) = Inr (i, chain)"
    using head_root_resolve [OF assms(1)] by (simp add: resolve_fs_id_chain_def)
  from resolve_fs_id_chain_spec [OF this assms(2)] show ?thesis
    using chain_lookups [OF assms(1,2), of chain x i] c \<open>u = t\<close> by blast
qed

lemma upload_parent_found:
  assumes "head_root t r = Some (h, root)" "segs_ok segs" "resolve_dir_segments x (t_objects t) r root segs = Inr i"
  shows "\<exists>chain. upload_parent x r (abs_path segs) t = (Inr (i, chain), t)"
proof (cases "segs = []")
  case True
  then show ?thesis using assms
    by (auto simp: upload_parent_def abs_path_def head_root_def bind_eq_Some_conv)
next
  case False
  have loop: "\<exists>ch'. chain_loop x db r path parts acc cur ch = Inr (i, ch')"
    if "resolve_dir_segments x db r cur parts = Inr i" for db path parts acc cur ch
    using that
  proof (induction parts arbitrary: acc cur ch)
    case (Cons p parts)
    then obtain d e where "read_fs_dir_data x db r cur = Inr d" "find_entry p d = Some e"
      "is_dir_mode (de_mode e)" "resolve_dir_segments x db r (de_id e) parts = Inr i"
      by (auto simp: rbind_eq_Inr_iff split: if_splits)
    with Cons.IH [of "de_id e"] show ?case by (simp add: Let_def)
  qed simp
  have "abs_path segs \<noteq> []" using False by (simp add: abs_path_def)
  then show ?thesis
    using loop [OF assms(3)] False assms(2) head_root_resolve [OF assms(1)]
    by (auto simp: upload_parent_def resolve_fs_id_chain_def resolve_fs_id_chain_from_root_def parts_abs)
qed

text \<open>The tables after the file object was stored, and the directories an upload writes.\<close>

definition upload_file :: "externs \<Rightarrow> string \<Rightarrow> string list \<Rightarrow> int \<Rightarrow> fs_objects \<Rightarrow> string \<times> fs_objects" where
  "upload_file x r blocks sz db =
     store_fs_file_object x r \<lparr>block_ids = blocks, file_size = sz, file_type = 1, file_version = 1\<rparr> db"

text \<open>
  C13: an upload that runs alone succeeds; afterwards the effective name in the target directory
  resolves to the new file, every other name of that directory resolves as before, and so does every
  path outside it. Without \<open>replace\<close> the effective name was not in use, so no existing entry is
  lost; with \<open>replace\<close> it is the requested name.
\<close>

theorem create_file_keeps_entries:
  assumes head: "head_root t r = Some (h, root)" and ok: "segs_ok segs"
    and dir: "resolve_dir_segments x (t_objects t) r root segs = Inr i"
      "read_fs_dir_data x (t_objects t) r i = Inr pd" "distinct (map de_name (dirents pd))"
    and upl: "upload_file x r blocks sz (t_objects t) = (fid, db1)"
    and entries: "upload_entries now who name fid sz replace (dirents pd) = (es, eff)"
    and ds: "ds = path_copy x (t_objects t) r root segs (mk_dir es)"
    and codec: "faithful x r db1 (set ds)"
    and fresh: "t_commits t (r, new_commit_id x now r (dir_fs_id x (hd ds)) who (''Added '' @ eff) (Some h)) = None"
  shows "\<exists>root' t'. create_file_from_blocks x ue now (\<lambda>t. t) (\<lambda>t. t) r (abs_path segs) name blocks sz who replace t =
      (Inr (fid, eff), t') \<and> resolve_root_fs_id t' r = Inr root' \<and>
    resolve_segments x (t_objects t') r root' (segs @ [eff]) = Inr fid \<and>
    (\<forall>n e. n \<noteq> eff \<longrightarrow> find_entry n pd = Some e \<longrightarrow>
       resolve_segments x (t_objects t') r root' (segs @ [n]) = Inr (de_id e)) \<and>
    (\<forall>q j. \<not> prefix segs q \<longrightarrow> \<not> prefix q segs \<longrightarrow> resolve_segments x (t_objects t) r root q = Inr j \<longrightarrow>
       resolve_segments x (t_objects t') r root' q = Inr j) \<and>
    (if replace then eff = name else find_entry eff pd = None)"
proof -
  define t1 where "t1 = t\<lparr>t_objects := db1\<rparr>"
  have le: "t_objects t \<subseteq>\<^sub>m t_objects t1"
    using upl store_file_le by (simp add: t1_def upload_file_def) (metis snd_conv)
  have head1: "head_root t1 r = Some (h, root)" using head by (simp add: t1_def head_root_def)
  have dir1: "resolve_dir_segments x (t_objects t1) r root segs = Inr i"
      "read_fs_dir_data x (t_objects t1) r i = Inr pd"
    using resolve_dir_mono [OF le dir(1)] read_dir_mono [OF le dir(2)] .
  have ds1: "ds = path_copy x (t_objects t1) r root segs (mk_dir es)"
    using ds path_copy_mono [OF dir(1) le] by simp
  obtain chain where up: "upload_parent x r (abs_path segs) t1 = (Inr (i, chain), t1)"
    using upload_parent_found [OF head1 ok dir1(1)] by blast
  have walk: "(if abs_path segs = [slash] then (Inr (dir_fs_id x (mk_dir es)), snd (store_dir_row x r (mk_dir es) t1))
      else walk_up_ancestors x now r chain None (abs_path segs) (dir_fs_id x (mk_dir es)) (snd (store_dir_row x r (mk_dir es) t1))) =
      (Inr (dir_fs_id x (hd ds)), store_all x r ds t1)"
    by (rule store_then_walk [OF ok dir1(1) _ ds1]) (use upload_parent_head [OF head1 ok up] in blast)
  obtain t' where t': "commit_root x ue now (\<lambda>t. t) ''upload'' r (dir_fs_id x (hd ds)) who (''Added '' @ eff) (store_all x r ds t1) = (Inr (), t')"
    and o: "t_objects t' = t_objects (store_all x r ds t1)"
    and hd': "if dir_fs_id x (hd ds) = root then head_root t' r = Some (h, root)
       else \<exists>h' c. head_root t' r = Some (h', dir_fs_id x (hd ds)) \<and> t_commits t' (r, h') = Some c \<and> cm_parent_id c = Some h"
    by (rule commit_after_update [OF head1 refl, where ds = ds]) (use fresh in \<open>simp_all add: t1_def\<close>)
  have run: "create_file_from_blocks x ue now (\<lambda>t. t) (\<lambda>t. t) r (abs_path segs) name blocks sz who replace t =
      (Inr (fid, eff), t')"
    using upl up dir1 entries walk t'
    by (cases "abs_path segs = [slash]")
      (simp_all add: create_file_from_blocks_def upload_file_def t1_def [symmetric] mk_dir_def [symmetric]
        case_prod_unfold Let_def)
  have tu: "tree_updated x r (t_objects t1) root segs (mk_dir es) (t_objects t') (dir_fs_id x (hd ds))"
    unfolding o by (rule path_copy_updates [OF dir1(1) ds1]) (use codec in \<open>simp add: t1_def\<close>)
  have below: "resolve_segments x (t_objects t') r (dir_fs_id x (hd ds)) (segs @ [n]) = Inr (de_id e)"
    if "find (\<lambda>e. de_name e = n) es = Some e" for n e
    using tu that by (simp add: tree_updated_def find_entry_stored) (simp add: find_entry_def mk_dir_def)
  note spec = upload_entries_spec [OF entries dir(3)]
  have "resolve_segments x (t_objects t') r (dir_fs_id x (hd ds)) (segs @ [eff]) = Inr fid"
    using spec(1) below by auto
  moreover have "resolve_segments x (t_objects t') r (dir_fs_id x (hd ds)) (segs @ [n]) = Inr (de_id e)"
    if "n \<noteq> eff" "find_entry n pd = Some e" for n e
    using below [of n e] spec(2) [OF that(1)] that(2) by (simp add: find_entry_def)
  moreover have "resolve_segments x (t_objects t') r (dir_fs_id x (hd ds)) q = Inr j"
    if "\<not> prefix segs q" "\<not> prefix q segs" "resolve_segments x (t_objects t) r root q = Inr j" for q j
    using tu that resolve_mono [OF le] by (simp add: tree_updated_def)
  moreover have "if replace then eff = name else find_entry eff pd = None"
    using spec(3,4) by (simp add: find_entry_def find_name_None)
  moreover have "resolve_root_fs_id t' r = Inr (dir_fs_id x (hd ds))"
    using hd' head_root_resolve by (metis (full_types))
  ultimately show ?thesis using run by blast
qed

section \<open>A concrete library\<close>

text \<open>
  One library with the tree \<open>/f\<close>, \<open>/d/g\<close>. The update adds the empty file \<open>h\<close> to \<open>/d\<close>; its
  two rewritten directories are in the parser's table.
\<close>

definition lib_entry :: DirEntryData where
  "lib_entry = \<lparr>de_id = EMPTY_SHA1, de_mode = S_IFREG, de_modifier = ''m'', de_mtime = 7, de_name = ''h'', de_size = 0\<rparr>"

definition lib_d :: FsDirData where "lib_d = mk_dir [demo_file ''G'' ''g'']"
definition lib_d' :: FsDirData where "lib_d' = mk_dir [demo_file ''G'' ''g'', lib_entry]"
definition lib_root :: FsDirData where "lib_root = mk_dir [demo_file ''F'' ''f'', demo_dir ''D'' ''d'']"

definition lib_root' :: FsDirData where
  "lib_root' = mk_dir [demo_file ''F'' ''f'', demo_dir (dir_fs_id (demo_externs []) lib_d') ''d'']"

definition lib_x :: externs where
  "lib_x = demo_externs [(''R'', lib_root), (''D'', lib_d), (''R2'', mk_dir [demo_file ''Z'' ''z'']),
     (dir_to_json (demo_externs []) (sorted_dir lib_d'), strip_dir (sorted_dir lib_d')),
     (dir_to_json (demo_externs []) (sorted_dir lib_root'), strip_dir (sorted_dir lib_root'))]"

definition lib_commit :: "string \<Rightarrow> string option \<Rightarrow> commit_row" where
  "lib_commit root p = \<lparr>cm_commit_id = ''c'', cm_root_id = root, cm_parent_id = p, cm_second_parent_id = None,
     cm_creator_name = ''m'', cm_creator = ''0'', cm_description = [], cm_ctime = 1, cm_version = 1,
     cm_new_merge = None, cm_conflict = None\<rparr>"

definition lib_tables :: tables where
  "lib_tables = \<lparr>t_objects = demo_db [''R'', ''D'', ''R2''],
     t_commits = [(''r'', ''c0'') \<mapsto> lib_commit ''R'' None], t_repos = [''r'' \<mapsto> demo_row (Some ''c0'')],
     t_published = []\<rparr>"

lemma lib_json [simp]: "dir_to_json lib_x d = dir_to_json (demo_externs []) d"
  by (rule dir_to_json_cong) (simp add: lib_x_def)

lemma lib_sha1 [simp]: "sha1_hex lib_x s = CHR ''h'' # s"
  by (simp add: lib_x_def)

lemma lib_id: "dir_fs_id lib_x d = dir_fs_id (demo_externs []) d"
  by (simp add: dir_fs_id_def)

lemma lib_head: "head_root lib_tables ''r'' = Some (''c0'', ''R'')"
  by (simp add: head_root_def lib_tables_def demo_row_def lib_commit_def)

lemma lib_reads:
  "read_fs_dir_data lib_x (t_objects lib_tables) ''r'' ''R'' = Inr lib_root"
  "read_fs_dir_data lib_x (t_objects lib_tables) ''r'' ''D'' = Inr lib_d"
  by (simp_all add: read_fs_dir_data_def lib_tables_def demo_db_def lib_x_def EMPTY_SHA1_def numeral_eq_Suc
      SEAF_METADATA_TYPE_DIR_def as_i8_def)

lemma lib_dir_mode [simp]: "is_dir_mode (0x4000 :: 32 word)"
  by (simp add: is_dir_mode_def S_IFMT_def S_IFDIR_TYPE_def)

lemma lib_resolve: "resolve_dir_segments lib_x (t_objects lib_tables) ''r'' ''R'' [''d''] = Inr ''D''"
  by (simp add: lib_reads) (simp add: find_entry_def lib_root_def mk_dir_def demo_dir_def demo_file_def)

lemma lib_copy:
  "path_copy lib_x (t_objects lib_tables) ''r'' ''R'' [''d''] lib_d' = [lib_root', lib_d']"
  by (simp add: lib_reads)
    (simp add: lib_id find_entry_def lib_root_def lib_root'_def mk_dir_def demo_dir_def demo_file_def link_child_def)

lemma lib_sorted:
  "sorted_dir lib_d' = mk_dir [lib_entry, demo_file ''G'' ''g'']"
  "sorted_dir lib_root' = lib_root'"
  by (simp_all add: lib_d'_def lib_root'_def sorted_dir_def sort_dirents_desc_def mk_dir_def lib_entry_def)

lemma dir_to_json_first:
  "dirents d = e # es \<Longrightarrow> \<exists>rest. dir_to_json x d =
     ''{'' @ quote @ ''dirents'' @ quote @ '': [{'' @ quote @ ''id'' @ quote @ '': '' @ json_string x (de_id e) @ rest"
  by (cases es) (simp_all add: dir_to_json_def dirent_to_json_def Let_def)

lemma lib_json_neq:
  "dir_to_json (demo_externs []) (sorted_dir lib_d') \<noteq> dir_to_json (demo_externs []) (sorted_dir lib_root')"
proof -
  have d: "dirents (sorted_dir lib_d') = [lib_entry, demo_file ''G'' ''g'']"
    unfolding lib_sorted by (simp add: mk_dir_def)
  have r: "dirents (sorted_dir lib_root') = [demo_file ''F'' ''f'', demo_dir (dir_fs_id (demo_externs []) lib_d') ''d'']"
    unfolding lib_sorted by (simp add: lib_root'_def mk_dir_def)
  show ?thesis using dir_to_json_first [OF d, of "demo_externs []"] dir_to_json_first [OF r, of "demo_externs []"]
    by (auto simp: lib_entry_def demo_file_def EMPTY_SHA1_def numeral_eq_Suc)
qed

lemma lib_ids:
  "dir_fs_id lib_x lib_d' = CHR ''h'' # dir_to_json (demo_externs []) (sorted_dir lib_d')"
  "dir_fs_id lib_x lib_root' = CHR ''h'' # dir_to_json (demo_externs []) (sorted_dir lib_root')"
  by (simp_all add: lib_id dir_fs_id_def) (simp_all add: lib_d'_def lib_root'_def mk_dir_def)

lemma lib_parse:
  "parse_dir lib_x (dir_to_json lib_x (sorted_dir lib_d')) = Inr (strip_dir (sorted_dir lib_d'))"
  "parse_dir lib_x (dir_to_json lib_x (sorted_dir lib_root')) = Inr (strip_dir (sorted_dir lib_root'))"
proof -
  have neq: "dir_to_json y d \<noteq> ''R''" "dir_to_json y d \<noteq> ''D''" "dir_to_json y d \<noteq> ''R2''" for y d
    by (simp_all add: dir_to_json_def)
  show "parse_dir lib_x (dir_to_json lib_x (sorted_dir lib_d')) = Inr (strip_dir (sorted_dir lib_d'))"
    "parse_dir lib_x (dir_to_json lib_x (sorted_dir lib_root')) = Inr (strip_dir (sorted_dir lib_root'))"
    using neq lib_json_neq by (simp_all, simp_all add: lib_x_def)
qed

lemma lib_faithful: "faithful lib_x ''r'' (t_objects lib_tables) {lib_root', lib_d'}"
proof -
  have "\<forall>d\<in>{lib_root', lib_d'}. dir_type d = SEAF_METADATA_TYPE_DIR \<and> dir_version d = 1"
    by (simp add: lib_root'_def lib_d'_def mk_dir_def)
  moreover have "\<forall>d\<in>{lib_root', lib_d'}. dir_fs_id lib_x d \<noteq> EMPTY_SHA1 \<and>
      t_objects lib_tables (''r'', dir_fs_id lib_x d) = None"
    by (simp add: lib_ids EMPTY_SHA1_def numeral_eq_Suc lib_tables_def demo_db_def)
  moreover have "dir_fs_id lib_x lib_d' \<noteq> dir_fs_id lib_x lib_root'"
    using lib_json_neq by (simp add: lib_ids)
  ultimately show ?thesis unfolding faithful_def using lib_parse by auto
qed

lemma lib_new_commit: "t_commits lib_tables (''r'', new_commit_id lib_x now ''r'' root who desc p) = None"
  by (simp add: lib_tables_def new_commit_id_def compute_commit_id_def compute_commit_id_with_empty_name_def lib_x_def)

theorem update_dir_tree_commits_witness:
  "\<exists>root' t'. update_dir_tree_and_commit lib_x ''dup'' 9 (\<lambda>t. t) (\<lambda>t. t) ''r'' ''/d'' ''D'' ''m'' ''add h'' []
      (\<lambda>es. Inr (es @ [lib_entry])) lib_tables = (Inr root', t') \<and>
    read_fs_dir_data lib_x (t_objects t') ''r'' (dir_fs_id lib_x lib_d') = Inr (strip_dir (sorted_dir lib_d')) \<and>
    t_commits lib_tables \<subseteq>\<^sub>m t_commits t'"
proof -
  have d': "lib_d\<lparr>dirents := dirents lib_d @ [lib_entry]\<rparr> = lib_d'"
    by (simp add: lib_d_def lib_d'_def mk_dir_def)
  have ok: "segs_ok [''d'']" and path: "abs_path [''d''] = ''/d''" by (simp_all add: segs_ok_def abs_path_def)
  have "\<exists>root' t'. update_dir_tree_and_commit lib_x ''dup'' 9 (\<lambda>t. t) (\<lambda>t. t) ''r'' (abs_path [''d'']) ''D'' ''m'' ''add h'' []
      (\<lambda>es. Inr (es @ [lib_entry])) lib_tables = (Inr root', t') \<and>
    tree_updated lib_x ''r'' (t_objects lib_tables) ''R'' [''d''] (lib_d\<lparr>dirents := dirents lib_d @ [lib_entry]\<rparr>)
      (t_objects t') root' \<and>
    t_commits lib_tables \<subseteq>\<^sub>m t_commits t' \<and>
    (if root' = ''R'' then head_root t' ''r'' = Some (''c0'', ''R'')
     else \<exists>h' c. head_root t' ''r'' = Some (h', root') \<and> t_commits t' (''r'', h') = Some c \<and> cm_parent_id c = Some ''c0'')"
    by (rule update_dir_tree_commits [OF lib_head ok lib_resolve lib_reads(2) _ _ refl])
      (use lib_faithful lib_copy lib_new_commit d' in simp_all)
  then show ?thesis unfolding path d' tree_updated_def by blast
qed

theorem create_file_keeps_entries_witness:
  "\<exists>root' t'. create_file_from_blocks lib_x ''dup'' 7 (\<lambda>t. t) (\<lambda>t. t) ''r'' ''/d'' ''h'' [] 0 ''m'' False lib_tables =
      (Inr (EMPTY_SHA1, ''h''), t') \<and> resolve_root_fs_id t' ''r'' = Inr root' \<and>
    resolve_segments lib_x (t_objects t') ''r'' root' [''d'', ''h''] = Inr EMPTY_SHA1 \<and>
    resolve_segments lib_x (t_objects t') ''r'' root' [''d'', ''g''] = Inr ''G'' \<and>
    resolve_segments lib_x (t_objects t') ''r'' root' [''f''] = Inr ''F''"
proof -
  have ok: "segs_ok [''d'']" and path: "abs_path [''d''] = ''/d''" by (simp_all add: segs_ok_def abs_path_def)
  have upl: "upload_file lib_x ''r'' [] 0 (t_objects lib_tables) = (EMPTY_SHA1, t_objects lib_tables)"
    by (simp add: upload_file_def store_fs_file_object_def compute_file_def)
  have ents: "upload_entries 7 ''m'' ''h'' EMPTY_SHA1 0 False (dirents lib_d) = (dirents lib_d', ''h'')"
    by (simp add: upload_entries_def lib_d_def lib_d'_def mk_dir_def lib_entry_def Let_def)
  have d': "mk_dir (dirents lib_d') = lib_d'" by (simp add: lib_d'_def mk_dir_def)
  have dist: "distinct (map de_name (dirents lib_d))" by (simp add: lib_d_def mk_dir_def)
  obtain root' t' where run: "create_file_from_blocks lib_x ''dup'' 7 (\<lambda>t. t) (\<lambda>t. t) ''r'' (abs_path [''d'']) ''h'' [] 0 ''m'' False lib_tables =
      (Inr (EMPTY_SHA1, ''h''), t')" "resolve_root_fs_id t' ''r'' = Inr root'"
    and h: "resolve_segments lib_x (t_objects t') ''r'' root' ([''d''] @ [''h'']) = Inr EMPTY_SHA1"
    and n: "\<forall>n e. n \<noteq> ''h'' \<longrightarrow> find_entry n lib_d = Some e \<longrightarrow>
       resolve_segments lib_x (t_objects t') ''r'' root' ([''d''] @ [n]) = Inr (de_id e)"
    and q: "\<forall>q j. \<not> prefix [''d''] q \<longrightarrow> \<not> prefix q [''d''] \<longrightarrow>
       resolve_segments lib_x (t_objects lib_tables) ''r'' ''R'' q = Inr j \<longrightarrow>
       resolve_segments lib_x (t_objects t') ''r'' root' q = Inr j"
    using create_file_keeps_entries [OF lib_head ok lib_resolve lib_reads(2) dist upl ents refl, of "''dup''"]
      lib_faithful lib_copy lib_new_commit d' by auto
  have g: "resolve_segments lib_x (t_objects t') ''r'' root' [''d'', ''g''] = Inr ''G''"
    using n [rule_format, of "''g''" "demo_file ''G'' ''g''"] by (simp add: find_entry_def lib_d_def mk_dir_def)
  have "resolve_segments lib_x (t_objects lib_tables) ''r'' ''R'' [''f''] = Inr ''F''"
    by (simp add: lib_reads) (simp add: find_entry_def lib_root_def mk_dir_def)
  then have "resolve_segments lib_x (t_objects t') ''r'' root' [''f''] = Inr ''F''"
    using q [rule_format, of "[''f'']" "''F''"] by (simp del: resolve_segments.simps)
  with run h g show ?thesis by (intro exI [of _ root'] exI [of _ t']) (simp add: path)
qed

text \<open>Another request commits the tree \<open>R2\<close>, with the file \<open>/z\<close>, while the update is on its way.\<close>

definition lib_other :: "tables \<Rightarrow> tables" where
  "lib_other t = t\<lparr>t_commits := (t_commits t)((''r'', ''c1'') \<mapsto> lib_commit ''R2'' (Some ''c0'')),
     t_repos := [''r'' \<mapsto> demo_row (Some ''c1'')]\<rparr>"

theorem stale_update_succeeds_witness:
  "\<exists>root' t'. update_dir_tree_and_commit lib_x ''dup'' 9 lib_other (\<lambda>t. t) ''r'' ''/d'' ''D'' ''m'' ''add h'' []
      (\<lambda>es. Inr (es @ [lib_entry])) lib_tables = (Inr root', t') \<and>
    resolve_root_fs_id t' ''r'' = Inr root' \<and>
    (\<forall>j. resolve_segments lib_x (t_objects t') ''r'' root' [''z''] \<noteq> Inr j)"
proof -
  have d': "lib_d\<lparr>dirents := dirents lib_d @ [lib_entry]\<rparr> = lib_d'"
    by (simp add: lib_d_def lib_d'_def mk_dir_def)
  have ok: "segs_ok [''d'']" and path: "abs_path [''d''] = ''/d''" by (simp_all add: segs_ok_def abs_path_def)
  let ?ds = "[lib_root', lib_d']"
  let ?u = "store_all lib_x ''r'' ?ds lib_tables"
  have moved: "head_root (lib_other ?u) ''r'' = Some (''c1'', ''R2'')"
    by (simp add: head_root_def lib_other_def demo_row_def lib_commit_def)
  have neq: "''R2'' \<noteq> dir_fs_id lib_x (hd ?ds)" by (simp add: lib_ids)
  have fresh: "t_commits (lib_other ?u)
      (''r'', new_commit_id lib_x 9 ''r'' (dir_fs_id lib_x (hd ?ds)) ''m'' ''add h'' (Some ''c1'')) = None"
    using lib_new_commit
    by (simp add: lib_other_def new_commit_id_def compute_commit_id_def compute_commit_id_with_empty_name_def)
  obtain t' where run: "update_dir_tree_and_commit lib_x ''dup'' 9 lib_other (\<lambda>t. t) ''r'' (abs_path [''d'']) ''D'' ''m'' ''add h'' []
      (\<lambda>es. Inr (es @ [lib_entry])) lib_tables = (Inr (dir_fs_id lib_x (hd ?ds)), t')"
    and adv: "head_advanced ''r'' (lib_other ?u) ''c1'' (dir_fs_id lib_x (hd ?ds)) t'"
    using stale_update_succeeds [OF ok lib_resolve lib_reads(2), of "\<lambda>es. Inr (es @ [lib_entry])"
        "dirents lib_d @ [lib_entry]" "''c0''" "[]" ?ds lib_other "''c1''" "''R2''" 9 "''m''" "''add h''" "''dup''"]
      lib_head lib_copy d' moved neq fresh by auto
  have "t_objects t' = t_objects ?u" using adv by (simp add: head_advanced_def lib_other_def)
  moreover have "read_fs_dir_data lib_x (t_objects ?u) ''r'' (dir_fs_id lib_x lib_root') =
      Inr (strip_dir (sorted_dir lib_root'))"
    by (rule store_all_reads) (use lib_faithful in simp_all)
  moreover have "find_entry ''z'' lib_root' = None" by (simp add: find_entry_def lib_root'_def mk_dir_def)
  ultimately have "\<forall>j. resolve_segments lib_x (t_objects t') ''r'' (dir_fs_id lib_x (hd ?ds)) [''z''] \<noteq> Inr j"
    by (simp add: find_entry_stored)
  moreover have "resolve_root_fs_id t' ''r'' = Inr (dir_fs_id lib_x (hd ?ds))"
    using adv by (auto simp: head_advanced_def intro: head_root_resolve)
  ultimately show ?thesis using run path by metis
qed

end
