(* ===== verification/SyncWalk.thy ===== *)
theory SyncWalk
  imports Traversal
begin

text \<open>
  The two walks that tell a sync client which objects to download, \<open>collect_fs_ids\<close> and
  \<open>diff_fs_ids\<close> of \<open>server/src/service/sync/mod.rs\<close>. A \<open>HashSet\<close> of ids is a set.
\<close>

section \<open>Definitions\<close>

definition is_dir_object :: "fs_object \<Rightarrow> bool" where
  "is_dir_object obj \<longleftrightarrow> obj_type obj = as_i8 SEAF_METADATA_TYPE_DIR"

definition collect_object ::
    "externs \<Rightarrow> bool \<Rightarrow> string \<times> fs_object \<Rightarrow> string set \<times> string set \<times> string list \<Rightarrow>
     string set \<times> string set \<times> string list" where
  "collect_object x dir_only = (\<lambda>(fs_id, obj) (visited, result, nexts).
     if fs_id \<in> visited then (visited, result, nexts)
     else
       let visited = insert fs_id visited in
       (visited,
        if \<not> dir_only \<or> is_dir_object obj then insert fs_id result else result,
        if is_dir_object obj then
          (case parse_dir x (obj_data obj) of
             Inr dir_data \<Rightarrow> nexts @ filter (\<lambda>i. i \<notin> visited) (map de_id (dirents dir_data))
           | Inl _ \<Rightarrow> nexts)
        else nexts))"

definition collect_ids_level ::
    "externs \<Rightarrow> fs_objects \<Rightarrow> string \<Rightarrow> bool \<Rightarrow> string list \<Rightarrow> string set \<times> string set \<Rightarrow>
     (string list \<times> string set \<times> string set) result" where
  "collect_ids_level x db repo_id dir_only frontier = (\<lambda>(visited, result).
     (case fold (collect_object x dir_only) (find_by_repo_and_fs_ids db repo_id frontier) (visited, result, []) of
        (visited, result, nexts) \<Rightarrow> Inr (nexts, visited, result)))"

definition collect_fs_ids ::
    "tree_limits \<Rightarrow> externs \<Rightarrow> fs_objects \<Rightarrow> string \<Rightarrow> string \<Rightarrow> bool \<Rightarrow> string set result" where
  "collect_fs_ids lim x db repo_id root_fs_id dir_only =
     rbind (bfs lim (collect_ids_level x db repo_id dir_only) new_guard [root_fs_id] ({}, {}))
       (\<lambda>(_, result). Inr result)"

definition join_sync_path :: "string \<Rightarrow> string \<Rightarrow> string" where
  "join_sync_path pre name = (if pre = [] then slash # name else pre @ slash # name)"

record SyncFrame =
  client_fs_id :: "string option"
  server_fs_id :: string
  sf_prefix :: string

text \<open>One entry of a server directory against the entries of the client's, \<open>None\<close> when the client
  does not have the directory.\<close>

definition sync_entry ::
    "bool \<Rightarrow> string \<Rightarrow> (string \<rightharpoonup> DirEntryData) option \<Rightarrow> DirEntryData \<Rightarrow>
     string set \<times> SyncFrame list \<Rightarrow> string set \<times> SyncFrame list" where
  "sync_entry dir_only pre client entry = (\<lambda>(result, nexts).
     if de_id entry = EMPTY_SHA1 then (result, nexts)
     else
       let path = join_sync_path pre (de_name entry); is_dir = has_dir_bit (de_mode entry);
           mine = (case client of None \<Rightarrow> None | Some m \<Rightarrow> m (de_name entry)) in
       if (case mine of Some c \<Rightarrow> de_id c = de_id entry | None \<Rightarrow> False) then (result, nexts)
       else
         (if \<not> dir_only \<or> is_dir then insert (de_id entry) result else result,
          if is_dir then nexts @ [\<lparr>client_fs_id = map_option de_id mine, server_fs_id = de_id entry, sf_prefix = path\<rparr>]
          else nexts))"

definition sync_frame ::
    "bool \<Rightarrow> (string \<times> FsDirData) list \<Rightarrow> (string \<times> FsDirData) list \<Rightarrow> SyncFrame \<Rightarrow>
     string set \<times> SyncFrame list \<Rightarrow> string set \<times> SyncFrame list" where
  "sync_frame dir_only server_map client_map frame acc =
     (case map_of server_map (server_fs_id frame) of
        None \<Rightarrow> acc
      | Some server_dir \<Rightarrow>
          let client_dir = Option.bind (client_fs_id frame) (map_of client_map);
              client = map_option (\<lambda>d. map_of (rev (map (\<lambda>e. (de_name e, e)) (dirents d)))) client_dir in
          fold (sync_entry dir_only (sf_prefix frame) client) (dirents server_dir) acc)"

definition sync_level ::
    "externs \<Rightarrow> fs_objects \<Rightarrow> string \<Rightarrow> bool \<Rightarrow> SyncFrame list \<Rightarrow> string set \<Rightarrow>
     (SyncFrame list \<times> string set) result" where
  "sync_level x db repo_id dir_only frontier result =
     rbind (read_fs_dir_data_batch x db repo_id (map server_fs_id frontier)) (\<lambda>server_map.
     rbind (let client_ids = List.map_filter client_fs_id frontier in
            if client_ids = [] then Inr [] else read_fs_dir_data_batch x db repo_id client_ids) (\<lambda>client_map.
     (case fold (sync_frame dir_only server_map client_map) frontier (result, []) of
        (result, nexts) \<Rightarrow> Inr (nexts, result))))"

definition diff_fs_ids ::
    "tree_limits \<Rightarrow> externs \<Rightarrow> fs_objects \<Rightarrow> string \<Rightarrow> string \<Rightarrow> string \<Rightarrow> bool \<Rightarrow> string set result" where
  "diff_fs_ids lim x db repo_id client_root server_root dir_only =
     bfs lim (sync_level x db repo_id dir_only) new_guard
       [\<lparr>client_fs_id = Some client_root, server_fs_id = server_root, sf_prefix = []\<rparr>] {server_root}"

section \<open>Reachable objects\<close>

text \<open>
  The objects a tree refers to: its root, and the ids in every directory object among them, whatever
  the entries' modes say.
\<close>

inductive obj_reach :: "externs \<Rightarrow> fs_objects \<Rightarrow> string \<Rightarrow> string \<Rightarrow> string \<Rightarrow> bool" for x db r where
  reach_self: "obj_reach x db r i i"
| reach_step: "obj_reach x db r i j \<Longrightarrow> db (r, j) = Some obj \<Longrightarrow> is_dir_object obj \<Longrightarrow>
    parse_dir x (obj_data obj) = Inr d \<Longrightarrow> e \<in> set (dirents d) \<Longrightarrow> obj_reach x db r i (de_id e)"

lemma obj_reach_trans: "obj_reach x db r j k \<Longrightarrow> obj_reach x db r i j \<Longrightarrow> obj_reach x db r i k"
  by (induction rule: obj_reach.induct) (auto intro: obj_reach.intros)

text \<open>What a client needs to check out a tree: the directories along entries with the directory bit,
  and every entry of those.\<close>

inductive tree_dir :: "externs \<Rightarrow> fs_objects \<Rightarrow> string \<Rightarrow> string \<Rightarrow> string \<Rightarrow> bool" for x db r where
  dir_self: "tree_dir x db r i i"
| dir_step: "read_fs_dir_data x db r i = Inr d \<Longrightarrow> e \<in> set (dirents d) \<Longrightarrow> has_dir_bit (de_mode e) \<Longrightarrow>
    tree_dir x db r (de_id e) k \<Longrightarrow> tree_dir x db r i k"

definition tree_obj :: "externs \<Rightarrow> fs_objects \<Rightarrow> string \<Rightarrow> string \<Rightarrow> string \<Rightarrow> bool" where
  "tree_obj x db r i k \<longleftrightarrow> tree_dir x db r i k \<or>
     (\<exists>j d e. tree_dir x db r i j \<and> read_fs_dir_data x db r j = Inr d \<and> e \<in> set (dirents d) \<and> k = de_id e)"

lemma tree_dir_unfold:
  "tree_dir x db r i j \<longleftrightarrow> j = i \<or> (\<exists>d e. read_fs_dir_data x db r i = Inr d \<and> e \<in> set (dirents d) \<and>
     has_dir_bit (de_mode e) \<and> tree_dir x db r (de_id e) j)"
  by (subst tree_dir.simps) blast

lemma tree_obj_cases:
  assumes "tree_obj x db r i k"
  obtains "k = i"
  | d e where "read_fs_dir_data x db r i = Inr d" "e \<in> set (dirents d)" "k = de_id e"
  | d e where "read_fs_dir_data x db r i = Inr d" "e \<in> set (dirents d)" "has_dir_bit (de_mode e)"
      "tree_obj x db r (de_id e) k"
proof -
  from assms consider "tree_dir x db r i k"
    | j d' e' where "tree_dir x db r i j" "read_fs_dir_data x db r j = Inr d'" "e' \<in> set (dirents d')" "k = de_id e'"
    unfolding tree_obj_def by blast
  then show thesis
  proof cases
    case 1
    then show thesis using that(1,3) unfolding tree_dir_unfold [of x db r i] tree_obj_def by blast
  next
    case 2
    from 2(1) consider "j = i" | d e where "read_fs_dir_data x db r i = Inr d" "e \<in> set (dirents d)"
        "has_dir_bit (de_mode e)" "tree_dir x db r (de_id e) j"
      unfolding tree_dir_unfold [of x db r i] by blast
    then show thesis
    proof cases
      case 1
      then show thesis using that(2) 2 by blast
    next
      case a: 2
      then show thesis using that(3) [OF a(1-3)] 2 unfolding tree_obj_def by blast
    qed
  qed
qed

lemma tree_obj_self: "tree_obj x db r i i"
  by (simp add: tree_obj_def dir_self)

lemma tree_obj_entry:
  "read_fs_dir_data x db r i = Inr d \<Longrightarrow> e \<in> set (dirents d) \<Longrightarrow> tree_obj x db r i (de_id e)"
  unfolding tree_obj_def by (blast intro: dir_self)

lemma tree_obj_below:
  "read_fs_dir_data x db r i = Inr d \<Longrightarrow> e \<in> set (dirents d) \<Longrightarrow> has_dir_bit (de_mode e) \<Longrightarrow>
   tree_obj x db r (de_id e) k \<Longrightarrow> tree_obj x db r i k"
  unfolding tree_obj_def by (blast intro: dir_step)

lemma tree_dir_obj:
  "tree_dir x db r i j \<Longrightarrow> tree_obj x db r j k \<Longrightarrow> tree_obj x db r i k"
  by (induction rule: tree_dir.induct) (auto intro: tree_obj_below)

lemma read_dir_row:
  "read_fs_dir_data x db r i = Inr d \<Longrightarrow> i \<noteq> EMPTY_SHA1 \<Longrightarrow>
   \<exists>obj. db (r, i) = Some obj \<and> is_dir_object obj \<and> parse_dir x (obj_data obj) = Inr d"
  by (auto simp: read_fs_dir_data_def rbind_eq_Inr_iff is_dir_object_def split: if_splits)

lemma read_empty_dir [simp]: "read_fs_dir_data x db r EMPTY_SHA1 = Inr empty_dir"
  by (simp add: read_fs_dir_data_def)

lemma dir_entry_reach:
  "read_fs_dir_data x db r i = Inr d \<Longrightarrow> e \<in> set (dirents d) \<Longrightarrow> obj_reach x db r i (de_id e)"
  by (cases "i = EMPTY_SHA1") (auto simp: empty_dir_def dest!: read_dir_row intro: reach_step reach_self)

lemma tree_obj_reach: "tree_obj x db r i k \<Longrightarrow> obj_reach x db r i k"
proof -
  have dir: "tree_dir x db r i j \<Longrightarrow> obj_reach x db r i j" for j
    by (induction rule: tree_dir.induct) (auto intro: reach_self obj_reach_trans dir_entry_reach)
  show "tree_obj x db r i k \<Longrightarrow> obj_reach x db r i k"
    unfolding tree_obj_def using dir by (auto intro: obj_reach_trans dir_entry_reach)
qed

lemma tree_obj_empty: "tree_obj x db r EMPTY_SHA1 k \<Longrightarrow> k = EMPTY_SHA1"
  by (erule tree_obj_cases) (auto simp: empty_dir_def)

section \<open>Collecting a whole tree\<close>

text \<open>The ids a walk has seen are closed under children, except for those still to be fetched and
  those without a row.\<close>

definition closed_up_to :: "externs \<Rightarrow> fs_objects \<Rightarrow> string \<Rightarrow> string set \<Rightarrow> string set \<Rightarrow> bool" where
  "closed_up_to x db r visited known \<longleftrightarrow>
     (\<forall>j\<in>visited. \<forall>obj d e. db (r, j) = Some obj \<longrightarrow> is_dir_object obj \<longrightarrow> parse_dir x (obj_data obj) = Inr d \<longrightarrow>
        e \<in> set (dirents d) \<longrightarrow> de_id e \<in> known \<or> db (r, de_id e) = None)"

definition wanted :: "fs_objects \<Rightarrow> string \<Rightarrow> bool \<Rightarrow> string \<Rightarrow> bool" where
  "wanted db r dir_only j \<longleftrightarrow> \<not> dir_only \<or> (\<exists>obj. db (r, j) = Some obj \<and> is_dir_object obj)"

definition collect_inv ::
    "externs \<Rightarrow> fs_objects \<Rightarrow> string \<Rightarrow> bool \<Rightarrow> string \<Rightarrow> string set \<Rightarrow> string set \<times> string set \<times> string list \<Rightarrow> bool" where
  "collect_inv x db r dir_only root rest = (\<lambda>(visited, result, nexts).
     (\<forall>j\<in>visited. obj_reach x db r root j \<and> db (r, j) \<noteq> None) \<and>
     (\<forall>j\<in>rest \<union> set nexts. obj_reach x db r root j) \<and>
     result = {j \<in> visited. wanted db r dir_only j} \<and>
     closed_up_to x db r visited (visited \<union> rest \<union> set nexts) \<and>
     (root \<in> visited \<union> rest \<union> set nexts \<or> db (r, root) = None))"

lemma closed_up_toD:
  "closed_up_to x db r v A \<Longrightarrow> j \<in> v \<Longrightarrow> db (r, j) = Some obj \<Longrightarrow> is_dir_object obj \<Longrightarrow>
   parse_dir x (obj_data obj) = Inr d \<Longrightarrow> e \<in> set (dirents d) \<Longrightarrow> de_id e \<in> A \<or> db (r, de_id e) = None"
  unfolding closed_up_to_def by (elim ballE [of _ _ j]) (simp_all add: not_None_eq)

lemma closed_up_toI:
  assumes "\<And>j obj d e. j \<in> v \<Longrightarrow> db (r, j) = Some obj \<Longrightarrow> is_dir_object obj \<Longrightarrow>
    parse_dir x (obj_data obj) = Inr d \<Longrightarrow> e \<in> set (dirents d) \<Longrightarrow> de_id e \<in> A \<or> db (r, de_id e) = None"
  shows "closed_up_to x db r v A"
  unfolding closed_up_to_def by (intro ballI allI impI) (rule assms)

lemma closed_up_to_mono:
  assumes "closed_up_to x db r v A" and "\<And>i. i \<in> A \<Longrightarrow> i \<in> B \<or> db (r, i) = None"
  shows "closed_up_to x db r v B"
proof (rule closed_up_toI)
  fix j obj d e
  assume "j \<in> v" "db (r, j) = Some obj" "is_dir_object obj" "parse_dir x (obj_data obj) = Inr d" "e \<in> set (dirents d)"
  from closed_up_toD [OF assms(1) this] assms(2) show "de_id e \<in> B \<or> db (r, de_id e) = None" by metis
qed

lemma collect_object_inv:
  assumes inv: "collect_inv x db r dir_only root (insert i rest) acc" and row: "db (r, i) = Some obj"
  shows "collect_inv x db r dir_only root rest (collect_object x dir_only (i, obj) acc)"
proof -
  obtain visited result nexts where acc: "acc = (visited, result, nexts)" by (cases acc)
  have reach: "obj_reach x db r root i" using inv acc by (simp add: collect_inv_def)
  have w: "wanted db r dir_only i \<longleftrightarrow> \<not> dir_only \<or> is_dir_object obj" using row by (simp add: wanted_def)
  show ?thesis
  proof (cases "i \<in> visited")
    case True
    then have "visited \<union> insert i rest \<union> set nexts = visited \<union> rest \<union> set nexts" by auto
    then show ?thesis using inv acc True by (simp add: collect_inv_def collect_object_def) metis
  next
    case False
    define new where "new = (if is_dir_object obj then (case parse_dir x (obj_data obj) of
        Inr d \<Rightarrow> filter (\<lambda>j. j \<notin> insert i visited) (map de_id (dirents d)) | Inl _ \<Rightarrow> []) else [])"
    have eq: "collect_object x dir_only (i, obj) acc =
        (insert i visited, if wanted db r dir_only i then insert i result else result, nexts @ new)"
      using False acc w by (auto simp: collect_object_def new_def Let_def split: sum.splits)
    have new_reach: "\<forall>j\<in>set new. obj_reach x db r root j"
    proof
      fix j assume "j \<in> set new"
      then obtain d e where "is_dir_object obj" "parse_dir x (obj_data obj) = Inr d" "e \<in> set (dirents d)" "j = de_id e"
        by (cases "is_dir_object obj"; cases "parse_dir x (obj_data obj)") (auto simp: new_def)
      then show "obj_reach x db r root j" using reach_step [OF reach row] by simp
    qed
    have closed: "closed_up_to x db r (insert i visited) (insert i visited \<union> rest \<union> set (nexts @ new))"
      (is "closed_up_to x db r _ ?K")
    proof -
      have "closed_up_to x db r visited ?K"
        by (rule closed_up_to_mono [of x db r visited "visited \<union> insert i rest \<union> set nexts"])
          (use inv acc in \<open>auto simp: collect_inv_def\<close>)
      moreover have "de_id e \<in> ?K \<or> db (r, de_id e) = None"
        if "is_dir_object obj" "parse_dir x (obj_data obj) = Inr d" "e \<in> set (dirents d)" for d e
        using that by (auto simp: new_def)
      ultimately show ?thesis using row unfolding closed_up_to_def by auto
    qed
    have set_eq: "(if wanted db r dir_only i then insert i result else result) =
        {j \<in> insert i visited. wanted db r dir_only j}" using inv acc by (auto simp: collect_inv_def)
    show ?thesis unfolding eq set_eq using inv acc new_reach reach row closed
      by (simp add: collect_inv_def) (metis Un_iff)
  qed
qed

lemma collect_objects_inv:
  assumes "\<forall>(i, obj)\<in>set rows. db (r, i) = Some obj"
    and "collect_inv x db r dir_only root (fst ` set rows \<union> rest) acc"
  shows "collect_inv x db r dir_only root rest (fold (collect_object x dir_only) rows acc)"
  using assms
proof (induction rows arbitrary: acc)
  case (Cons row rows)
  obtain i obj where row: "row = (i, obj)" by (cases row)
  have "collect_inv x db r dir_only root (insert i (fst ` set rows \<union> rest)) acc"
    using Cons.prems(2) row by (simp add: Un_insert_left)
  from collect_object_inv [OF this, of obj] Cons row show ?case by simp
qed simp

lemma collect_inv_drop:
  assumes "collect_inv x db r dir_only root A (v, res, [])" "B \<subseteq> A" "\<forall>i\<in>A - B. db (r, i) = None"
  shows "collect_inv x db r dir_only root B (v, res, [])"
proof -
  have "closed_up_to x db r v (v \<union> B)"
    by (rule closed_up_to_mono [of x db r v "v \<union> A"]) (use assms in \<open>auto simp: collect_inv_def\<close>)
  moreover have "root \<in> v \<union> B \<or> db (r, root) = None" using assms(1,3) by (auto simp: collect_inv_def)
  ultimately show ?thesis using assms(1,2) by (auto simp: collect_inv_def)
qed

interpretation collect_ids_walk: level_walk "collect_ids_level x db r dir_only"
    "\<lambda>n fr acc. collect_inv x db r dir_only root {} (fst acc, snd acc, fr)" for x db r dir_only root
proof
  fix fr acc nexts acc' n
  assume step: "collect_ids_level x db r dir_only fr acc = Inr (nexts, acc')"
    and inv: "collect_inv x db r dir_only root {} (fst acc, snd acc, fr)"
  let ?rows = "find_by_repo_and_fs_ids db r fr"
  have rows: "\<forall>(i, obj)\<in>set ?rows. db (r, i) = Some obj" by (auto simp: find_by_ids_set)
  have keys: "fst ` set ?rows = {i \<in> set fr. db (r, i) \<noteq> None}" by (force simp: find_by_ids_set)
  have "collect_inv x db r dir_only root (set fr) (fst acc, snd acc, [])"
    using inv by (simp add: collect_inv_def)
  then have "collect_inv x db r dir_only root (fst ` set ?rows) (fst acc, snd acc, [])"
    by (rule collect_inv_drop) (auto simp: keys)
  then have "collect_inv x db r dir_only root {} (fold (collect_object x dir_only) ?rows (fst acc, snd acc, []))"
    using collect_objects_inv [OF rows, of x dir_only root "{}"] by simp
  moreover have "fold (collect_object x dir_only) ?rows (fst acc, snd acc, []) = (fst acc', snd acc', nexts)"
    using step by (cases acc) (auto simp: collect_ids_level_def split: prod.splits)
  ultimately show "collect_inv x db r dir_only root {} (fst acc', snd acc', nexts)" by simp
qed

lemma reach_in_closed:
  "obj_reach x db r i j \<Longrightarrow> closed_up_to x db r v v \<Longrightarrow> i \<in> v \<or> db (r, i) = None \<Longrightarrow>
   j \<in> v \<or> db (r, j) = None"
  by (induction rule: obj_reach.induct) (auto dest: closed_up_toD)

text \<open>
  The full listing is exact: whenever the bounded walk succeeds, it returns precisely the stored
  objects that the root refers to, directly or through directory objects (all of them, or only the
  directory objects), however often an object is shared.
\<close>

theorem collect_fs_ids_exact:
  assumes "collect_fs_ids lim x db r root dir_only = Inr ids"
  shows "ids = {j. obj_reach x db r root j \<and> db (r, j) \<noteq> None \<and> wanted db r dir_only j}"
proof -
  obtain visited where run: "bfs lim (collect_ids_level x db r dir_only) new_guard [root] ({}, {}) = Inr (visited, ids)"
    using assms by (auto simp: collect_fs_ids_def rbind_eq_Inr_iff)
  have "collect_inv x db r dir_only root {} (fst ({}, {}), snd ({}, {}), [root])"
    by (simp add: collect_inv_def closed_up_to_def reach_self)
  with collect_ids_walk.bfs_result [OF run] have inv: "collect_inv x db r dir_only root {} (visited, ids, [])"
    by (simp add: new_guard_def)
  then have "j \<in> visited" if "obj_reach x db r root j" "db (r, j) \<noteq> None" for j
    using reach_in_closed [OF that(1)] that(2) by (auto simp: collect_inv_def)
  then show ?thesis using inv by (auto simp: collect_inv_def)
qed

section \<open>Comparing two trees\<close>

definition frame_ok ::
    "externs \<Rightarrow> fs_objects \<Rightarrow> string \<Rightarrow> string \<Rightarrow> string \<Rightarrow> string set \<Rightarrow> SyncFrame \<Rightarrow> bool" where
  "frame_ok x db r croot sroot result f \<longleftrightarrow>
     (\<forall>c. client_fs_id f = Some c \<longrightarrow> obj_reach x db r croot c) \<and> server_fs_id f \<in> result \<and>
     tree_dir x db r sroot (server_fs_id f)"

text \<open>An object is accounted for: nothing is stored for it, it is announced, the client's tree refers
  to it, or a pending pair of directories leads to it.\<close>

definition accounted ::
    "externs \<Rightarrow> fs_objects \<Rightarrow> string \<Rightarrow> string \<Rightarrow> string set \<Rightarrow> SyncFrame set \<Rightarrow> string \<Rightarrow> bool" where
  "accounted x db r croot result pending k \<longleftrightarrow> k = EMPTY_SHA1 \<or> k \<in> result \<or> obj_reach x db r croot k \<or>
     (\<exists>f\<in>pending. tree_obj x db r (server_fs_id f) k)"

definition sync_inv ::
    "externs \<Rightarrow> fs_objects \<Rightarrow> string \<Rightarrow> string \<Rightarrow> string \<Rightarrow> SyncFrame set \<Rightarrow> string set \<Rightarrow> bool" where
  "sync_inv x db r croot sroot pending result \<longleftrightarrow>
     (\<forall>f\<in>pending. frame_ok x db r croot sroot result f) \<and>
     (\<forall>k. tree_obj x db r sroot k \<longrightarrow> accounted x db r croot result pending k) \<and>
     (\<forall>k\<in>result. tree_obj x db r sroot k)"

lemma accounted_mono:
  "accounted x db r croot res P k \<Longrightarrow> res \<subseteq> res' \<Longrightarrow> P \<subseteq> P' \<Longrightarrow> accounted x db r croot res' P' k"
  unfolding accounted_def by (metis subsetD)

lemma frame_ok_mono: "frame_ok x db r croot sroot res f \<Longrightarrow> res \<subseteq> res' \<Longrightarrow> frame_ok x db r croot sroot res' f"
  unfolding frame_ok_def by (metis subsetD)

definition entry_objs :: "externs \<Rightarrow> fs_objects \<Rightarrow> string \<Rightarrow> DirEntryData \<Rightarrow> string set" where
  "entry_objs x db r e = {k. k = de_id e \<or> has_dir_bit (de_mode e) \<and> tree_obj x db r (de_id e) k}"

lemma sync_entry_step:
  assumes read: "read_fs_dir_data x db r i = Inr d" "tree_dir x db r sroot i" "e \<in> set (dirents d)"
    and client: "\<forall>m n c. client = Some m \<longrightarrow> m n = Some c \<longrightarrow> obj_reach x db r croot (de_id c)"
    and run: "sync_entry False pre client e (res, nx) = (res', nx')"
    and ok: "\<forall>f\<in>set nx. frame_ok x db r croot sroot res f" "\<forall>k\<in>res. tree_obj x db r sroot k"
  shows "res \<subseteq> res' \<and> set nx \<subseteq> set nx' \<and> (\<forall>f\<in>set nx'. frame_ok x db r croot sroot res' f) \<and>
    (\<forall>k\<in>res'. tree_obj x db r sroot k) \<and> (\<forall>k\<in>entry_objs x db r e. accounted x db r croot res' (set nx') k)"
proof (cases "de_id e = EMPTY_SHA1")
  case True
  then have "res' = res" "nx' = nx" using run by (simp_all add: sync_entry_def)
  moreover have "k = EMPTY_SHA1" if "k \<in> entry_objs x db r e" for k
    using that True by (auto simp: entry_objs_def dest: tree_obj_empty)
  ultimately show ?thesis using ok by (auto simp: accounted_def)
next
  case False
  define mine where "mine = (case client of None \<Rightarrow> None | Some m \<Rightarrow> m (de_name e))"
  have mine: "obj_reach x db r croot (de_id c)" if "mine = Some c" for c
    using that client by (auto simp: mine_def split: option.splits)
  show ?thesis
  proof (cases "map_option de_id mine = Some (de_id e)")
    case True
    then obtain c where c: "mine = Some c" "de_id c = de_id e" by auto
    then have "res' = res" "nx' = nx" using run False by (simp_all add: sync_entry_def mine_def [symmetric] Let_def)
    moreover have "obj_reach x db r croot k" if "k \<in> entry_objs x db r e" for k
      using that mine [OF c(1)] c(2) by (auto simp: entry_objs_def dest: tree_obj_reach intro: obj_reach_trans)
    ultimately show ?thesis using ok by (auto simp: accounted_def)
  next
    case neq: False
    define f where "f = \<lparr>client_fs_id = map_option de_id mine, server_fs_id = de_id e, sf_prefix = join_sync_path pre (de_name e)\<rparr>"
    have "\<not> (case mine of Some c \<Rightarrow> de_id c = de_id e | None \<Rightarrow> False)" using neq by (cases mine) auto
    then have res': "res' = insert (de_id e) res"
      and nx': "nx' = (if has_dir_bit (de_mode e) then nx @ [f] else nx)"
      using run False by (auto simp: sync_entry_def mine_def [symmetric] f_def Let_def)
    have obj: "tree_obj x db r sroot (de_id e)"
      using tree_dir_obj [OF read(2) tree_obj_entry [OF read(1,3)]] .
    have fok: "frame_ok x db r croot sroot res' f" if "has_dir_bit (de_mode e)"
    proof -
      have "tree_dir x db r i (de_id e)" using dir_step [OF read(1,3) that] dir_self by metis
      with read(2) have "tree_dir x db r sroot (de_id e)"
        by (induction rule: tree_dir.induct) (auto intro: tree_dir.intros)
      then show ?thesis using mine res' by (auto simp: frame_ok_def f_def)
    qed
    have acc: "accounted x db r croot res' (set nx') k" if "k \<in> entry_objs x db r e" for k
      using that by (auto simp: entry_objs_def accounted_def res' nx' f_def)
    have "\<forall>f'\<in>set nx'. frame_ok x db r croot sroot res' f'"
      using ok(1) fok frame_ok_mono [of x db r croot sroot res _ res'] unfolding nx' res' by auto
    then show ?thesis using acc ok(2) obj by (auto simp: res' nx')
  qed
qed

lemma sync_entries_step:
  assumes read: "read_fs_dir_data x db r i = Inr d" "tree_dir x db r sroot i"
    and client: "\<forall>m n c. client = Some m \<longrightarrow> m n = Some c \<longrightarrow> obj_reach x db r croot (de_id c)"
    and "set es \<subseteq> set (dirents d)" "fold (sync_entry False pre client) es (res, nx) = (res', nx')"
    and "\<forall>f\<in>set nx. frame_ok x db r croot sroot res f" "\<forall>k\<in>res. tree_obj x db r sroot k"
  shows "res \<subseteq> res' \<and> set nx \<subseteq> set nx' \<and> (\<forall>f\<in>set nx'. frame_ok x db r croot sroot res' f) \<and>
    (\<forall>k\<in>res'. tree_obj x db r sroot k) \<and>
    (\<forall>e\<in>set es. \<forall>k\<in>entry_objs x db r e. accounted x db r croot res' (set nx') k)"
  using assms(4-)
proof (induction es arbitrary: res nx)
  case (Cons e es)
  obtain res1 nx1 where s1: "sync_entry False pre client e (res, nx) = (res1, nx1)" by fastforce
  have e: "e \<in> set (dirents d)" using Cons.prems(1) by simp
  have st: "res \<subseteq> res1 \<and> set nx \<subseteq> set nx1 \<and> (\<forall>f\<in>set nx1. frame_ok x db r croot sroot res1 f) \<and>
    (\<forall>k\<in>res1. tree_obj x db r sroot k) \<and> (\<forall>k\<in>entry_objs x db r e. accounted x db r croot res1 (set nx1) k)"
    by (rule sync_entry_step [OF read e client s1]) (use Cons.prems in simp_all)
  have rest: "res1 \<subseteq> res' \<and> set nx1 \<subseteq> set nx' \<and> (\<forall>f\<in>set nx'. frame_ok x db r croot sroot res' f) \<and>
    (\<forall>k\<in>res'. tree_obj x db r sroot k) \<and>
    (\<forall>e\<in>set es. \<forall>k\<in>entry_objs x db r e. accounted x db r croot res' (set nx') k)"
    by (rule Cons.IH) (use Cons.prems s1 st in simp_all)
  have "\<forall>k\<in>entry_objs x db r e. accounted x db r croot res' (set nx') k"
    using st rest accounted_mono [of x db r croot res1 "set nx1" _ res' "set nx'"] by simp
  then show ?case using st rest by (simp add: subset_trans [of res res1 res'] subset_trans [of "set nx" "set nx1" "set nx'"])
qed simp

text \<open>A directory the server does not hold, or an empty one, has no objects but itself.\<close>

lemma unread_tree_obj:
  "tree_obj x db r i k \<Longrightarrow> i = EMPTY_SHA1 \<or> (\<forall>d. read_fs_dir_data x db r i \<noteq> Inr d) \<Longrightarrow> k = i"
  by (erule tree_obj_cases) (auto simp: empty_dir_def)

lemma sync_frame_step:
  assumes fok: "frame_ok x db r croot sroot res f"
    and smap: "\<And>i d. map_of server_map i = Some d \<longleftrightarrow> i \<in> S \<and> i \<noteq> EMPTY_SHA1 \<and> read_fs_dir_data x db r i = Inr d"
    and cmap: "\<And>i d. map_of client_map i = Some d \<Longrightarrow> read_fs_dir_data x db r i = Inr d"
    and "server_fs_id f \<in> S" "sync_frame False server_map client_map f (res, nx) = (res', nx')"
    and ok: "\<forall>f\<in>set nx. frame_ok x db r croot sroot res f" "\<forall>k\<in>res. tree_obj x db r sroot k"
  shows "res \<subseteq> res' \<and> set nx \<subseteq> set nx' \<and> (\<forall>f\<in>set nx'. frame_ok x db r croot sroot res' f) \<and>
    (\<forall>k\<in>res'. tree_obj x db r sroot k) \<and>
    (\<forall>k. tree_obj x db r (server_fs_id f) k \<longrightarrow> accounted x db r croot res' (set nx') k)"
proof (cases "map_of server_map (server_fs_id f)")
  case None
  then have eq: "res' = res" "nx' = nx" using assms(5) by (simp_all add: sync_frame_def)
  have "server_fs_id f = EMPTY_SHA1 \<or> (\<forall>d. read_fs_dir_data x db r (server_fs_id f) \<noteq> Inr d)"
    using None smap [of "server_fs_id f"] assms(4) by (metis option.distinct(1))
  then have "k = server_fs_id f" if "tree_obj x db r (server_fs_id f) k" for k
    using unread_tree_obj [OF that] by blast
  then show ?thesis using ok eq fok by (auto simp: accounted_def frame_ok_def)
next
  case (Some d)
  then have read: "read_fs_dir_data x db r (server_fs_id f) = Inr d" using smap by blast
  have dir: "tree_dir x db r sroot (server_fs_id f)" using fok by (simp add: frame_ok_def)
  define client where "client = map_option (\<lambda>d. map_of (rev (map (\<lambda>e. (de_name e, e)) (dirents d))))
      (Option.bind (client_fs_id f) (map_of client_map))"
  have client: "\<forall>m n c. client = Some m \<longrightarrow> m n = Some c \<longrightarrow> obj_reach x db r croot (de_id c)"
  proof (intro allI impI)
    fix m n c assume "client = Some m" "m n = Some c"
    then obtain ci cd where cd: "client_fs_id f = Some ci" "map_of client_map ci = Some cd"
      and m: "map_of (rev (map (\<lambda>e. (de_name e, e)) (dirents cd))) n = Some c"
      by (auto simp: client_def bind_eq_Some_conv)
    have cd': "c \<in> set (dirents cd)" using map_of_SomeD [OF m] by auto
    show "obj_reach x db r croot (de_id c)"
      using cd dir_entry_reach [OF cmap [OF cd(2)] cd'] fok by (auto simp: frame_ok_def intro: obj_reach_trans)
  qed
  have run: "fold (sync_entry False (sf_prefix f) client) (dirents d) (res, nx) = (res', nx')"
    using assms(5) Some by (simp add: sync_frame_def client_def Let_def)
  have step: "res \<subseteq> res' \<and> set nx \<subseteq> set nx' \<and> (\<forall>f\<in>set nx'. frame_ok x db r croot sroot res' f) \<and>
    (\<forall>k\<in>res'. tree_obj x db r sroot k) \<and>
    (\<forall>e\<in>set (dirents d). \<forall>k\<in>entry_objs x db r e. accounted x db r croot res' (set nx') k)"
    by (rule sync_entries_step [OF read dir client _ run ok]) simp
  have "accounted x db r croot res' (set nx') k" if "tree_obj x db r (server_fs_id f) k" for k
    using that
  proof (cases rule: tree_obj_cases)
    case 1
    then show ?thesis using fok step by (auto simp: frame_ok_def accounted_def)
  qed (use step read in \<open>auto simp: entry_objs_def\<close>)
  then show ?thesis using step by blast
qed

lemma sync_frames_step:
  assumes smap: "\<And>i d. map_of server_map i = Some d \<longleftrightarrow> i \<in> S \<and> i \<noteq> EMPTY_SHA1 \<and> read_fs_dir_data x db r i = Inr d"
    and cmap: "\<And>i d. map_of client_map i = Some d \<Longrightarrow> read_fs_dir_data x db r i = Inr d"
    and "server_fs_id ` set fs \<subseteq> S" "fold (sync_frame False server_map client_map) fs (res, nx) = (res', nx')"
    and "sync_inv x db r croot sroot (set fs \<union> set nx) res"
  shows "sync_inv x db r croot sroot (set nx') res'"
  using assms(3-)
proof (induction fs arbitrary: res nx)
  case (Cons f fs)
  obtain res1 nx1 where s1: "sync_frame False server_map client_map f (res, nx) = (res1, nx1)" by fastforce
  have inv: "\<forall>f'\<in>set (f # fs) \<union> set nx. frame_ok x db r croot sroot res f'" "\<forall>k\<in>res. tree_obj x db r sroot k"
    "\<And>k. tree_obj x db r sroot k \<Longrightarrow> accounted x db r croot res (set (f # fs) \<union> set nx) k"
    using Cons.prems(3) by (simp_all add: sync_inv_def)
  have st: "res \<subseteq> res1 \<and> set nx \<subseteq> set nx1 \<and> (\<forall>f\<in>set nx1. frame_ok x db r croot sroot res1 f) \<and>
    (\<forall>k\<in>res1. tree_obj x db r sroot k) \<and>
    (\<forall>k. tree_obj x db r (server_fs_id f) k \<longrightarrow> accounted x db r croot res1 (set nx1) k)"
    by (rule sync_frame_step [OF _ smap cmap _ s1]) (use inv Cons.prems(1) in auto)
  have "accounted x db r croot res1 (set fs \<union> set nx1) k" if "tree_obj x db r sroot k" for k
  proof -
    from inv(3) [OF that] consider "tree_obj x db r (server_fs_id f) k" | "accounted x db r croot res (set fs \<union> set nx) k"
      by (auto simp: accounted_def)
    then show ?thesis using st by cases (auto elim!: accounted_mono)
  qed
  moreover have "\<forall>f'\<in>set fs \<union> set nx1. frame_ok x db r croot sroot res1 f'"
    using inv(1) st frame_ok_mono [of x db r croot sroot res _ res1] by auto
  ultimately have "sync_inv x db r croot sroot (set fs \<union> set nx1) res1" using st by (simp add: sync_inv_def)
  from Cons.IH [OF _ _ this] Cons.prems(1,2) s1 show ?case by simp
qed simp

interpretation sync_walk: level_walk "sync_level x db r False"
    "\<lambda>n fr res. sync_inv x db r croot sroot (set fr) res" for x db r croot sroot
proof
  fix fr res nexts res' n
  assume step: "sync_level x db r False fr res = Inr (nexts, res')" and inv: "sync_inv x db r croot sroot (set fr) res"
  obtain sm cm where sm: "read_fs_dir_data_batch x db r (map server_fs_id fr) = Inr sm"
    and cm: "(let ids = List.map_filter client_fs_id fr in if ids = [] then Inr [] else read_fs_dir_data_batch x db r ids) = Inr cm"
    and run: "fold (sync_frame False sm cm) fr (res, []) = (res', nexts)"
    using step by (force simp: sync_level_def rbind_eq_Inr_iff case_prod_unfold prod_eq_iff)
  have cmap: "read_fs_dir_data x db r i = Inr d" if "map_of cm i = Some d" for i d
    using cm that read_dir_batch_iff [of x db r _ cm] by (auto simp: Let_def split: if_splits)
  show "sync_inv x db r croot sroot (set nexts) res'"
    by (rule sync_frames_step [OF read_dir_batch_iff [OF sm] cmap _ run]) (use inv in auto)
qed

text \<open>
  C8: what a client is told to download is enough and nothing else: whenever the comparison of two
  trees succeeds, every announced id belongs to the server's tree, and every object of the server's
  tree is announced, is already part of the client's tree, or is the sentinel for which nothing is
  stored.
\<close>

theorem diff_fs_ids_complete:
  assumes "diff_fs_ids lim x db r client_root server_root False = Inr ids"
  shows "ids \<subseteq> {k. tree_obj x db r server_root k} \<and>
    {k. tree_obj x db r server_root k} \<subseteq> ids \<union> {k. obj_reach x db r client_root k} \<union> {EMPTY_SHA1}"
proof -
  let ?f = "\<lparr>client_fs_id = Some client_root, server_fs_id = server_root, sf_prefix = []\<rparr>"
  have "sync_inv x db r client_root server_root (set [?f]) {server_root}"
    by (simp add: sync_inv_def frame_ok_def accounted_def reach_self dir_self tree_obj_self)
  then have "sync_inv x db r client_root server_root (set []) ids"
    using sync_walk.bfs_result [OF assms [unfolded diff_fs_ids_def]] by (simp add: new_guard_def)
  then show ?thesis by (auto simp: sync_inv_def accounted_def)
qed

section \<open>Concrete trees\<close>

text \<open>The server's tree \<open>S\<close> shares the directory \<open>D\<close> with the client's tree \<open>C\<close> and adds \<open>/e\<close>.\<close>

definition walk_db :: fs_objects where "walk_db = demo_db [''C'', ''S'', ''D'', ''E'']"

definition walk_x :: externs where
  "walk_x = demo_externs
     [(''C'', mk_dir [demo_dir ''D'' ''d'']),
      (''S'', mk_dir [demo_dir ''E'' ''e'', demo_dir ''D'' ''d'']),
      (''D'', mk_dir [demo_file ''F'' ''f'']), (''E'', mk_dir [demo_file ''G'' ''g''])]"

theorem collect_fs_ids_exact_witness:
  "collect_fs_ids (configure 4 9) walk_x walk_db ''r'' ''S'' False = Inr {''S'', ''D'', ''E''} \<and>
   {''S'', ''D'', ''E''} = {j. obj_reach walk_x walk_db ''r'' ''S'' j \<and> walk_db (''r'', j) \<noteq> None \<and> wanted walk_db ''r'' False j}"
proof -
  have h: "collect_fs_ids (configure 4 9) walk_x walk_db ''r'' ''S'' False = Inr {''S'', ''D'', ''E''}" by code_simp
  show ?thesis using h collect_fs_ids_exact [OF h] by simp
qed

theorem diff_fs_ids_complete_witness:
  "diff_fs_ids (configure 4 9) walk_x walk_db ''r'' ''C'' ''S'' False = Inr {''S'', ''E'', ''G''} \<and>
   {k. tree_obj walk_x walk_db ''r'' ''S'' k} \<subseteq>
     {''S'', ''E'', ''G''} \<union> {k. obj_reach walk_x walk_db ''r'' ''C'' k} \<union> {EMPTY_SHA1}"
proof -
  have h: "diff_fs_ids (configure 4 9) walk_x walk_db ''r'' ''C'' ''S'' False = Inr {''S'', ''E'', ''G''}" by code_simp
  show ?thesis using h diff_fs_ids_complete [OF h] by simp
qed

end
