(* ===== verification/SyncCheck.thy ===== *)
theory SyncCheck
  imports SyncWalk
begin

text \<open>
  What the server checks before a pushed tree may become HEAD: \<open>check_commit_blocks\<close> and
  \<open>full_check_blocks\<close> of \<open>server/src/service/sync/mod.rs\<close> (objects and blocks present, size of the
  change). The laws are in \<open>SyncCheckLaws\<close>.

  The block store is the argument \<open>has_block\<close>, the presence of a block of this library; querying it
  in concurrent batches does not change the answers. \<open>size_delta\<close> is an \<open>i64\<close> and wraps.
\<close>

section \<open>The two-sided walk\<close>

definition stored_dir :: "string \<Rightarrow> string option" where
  "stored_dir i = (if i = EMPTY_SHA1 then None else Some i)"

record BlockFrame =
  bf_base :: "string option"
  bf_new :: "string option"
  bf_prefix :: string

definition child_of :: "string \<Rightarrow> string \<Rightarrow> string" where
  "child_of pre name = (if pre = [] then name else pre @ slash # name)"

text \<open>The accumulators of one level: size, files to check as \<open>(id, path)\<close>, the next frontier.\<close>

type_synonym level_acc = "int \<times> (string \<times> string) list \<times> BlockFrame list"

definition drop_base_entry :: "string \<Rightarrow> DirEntryData \<Rightarrow> level_acc \<Rightarrow> level_acc" where
  "drop_base_entry pre entry = (\<lambda>(delta, pending, nexts).
     if has_dir_bit (de_mode entry)
     then (delta, pending, nexts @ [\<lparr>bf_base = stored_dir (de_id entry), bf_new = None,
             bf_prefix = child_of pre (de_name entry)\<rparr>])
     else (i64_wrap (delta - de_size entry), pending, nexts))"

definition add_new_entry :: "string \<Rightarrow> DirEntryData \<Rightarrow> level_acc \<Rightarrow> level_acc" where
  "add_new_entry pre entry = (\<lambda>(delta, pending, nexts).
     let child = child_of pre (de_name entry) in
     if has_dir_bit (de_mode entry)
     then (delta, pending, nexts @ [\<lparr>bf_base = None, bf_new = stored_dir (de_id entry), bf_prefix = child\<rparr>])
     else (i64_wrap (delta + de_size entry), pending @ [(de_id entry, child)], nexts))"

definition compare_entry :: "string \<Rightarrow> (string \<rightharpoonup> DirEntryData) \<Rightarrow> DirEntryData \<Rightarrow> level_acc \<Rightarrow> level_acc" where
  "compare_entry pre base_entries new_entry acc =
     (case base_entries (de_name new_entry) of
        None \<Rightarrow> add_new_entry pre new_entry acc
      | Some base_entry \<Rightarrow>
          if de_id new_entry = de_id base_entry then acc
          else
            let child = child_of pre (de_name new_entry); (delta, pending, nexts) = acc in
            (case (has_dir_bit (de_mode base_entry), has_dir_bit (de_mode new_entry)) of
               (True, True) \<Rightarrow> (delta, pending, nexts @ [\<lparr>bf_base = stored_dir (de_id base_entry),
                   bf_new = stored_dir (de_id new_entry), bf_prefix = child\<rparr>])
             | (False, True) \<Rightarrow> (i64_wrap (delta - de_size base_entry), pending,
                   nexts @ [\<lparr>bf_base = None, bf_new = stored_dir (de_id new_entry), bf_prefix = child\<rparr>])
             | (True, False) \<Rightarrow> (i64_wrap (delta + de_size new_entry), pending @ [(de_id new_entry, child)],
                   nexts @ [\<lparr>bf_base = stored_dir (de_id base_entry), bf_new = None, bf_prefix = child\<rparr>])
             | (False, False) \<Rightarrow> (i64_wrap (delta + i64_wrap (de_size new_entry - de_size base_entry)),
                   pending @ [(de_id new_entry, child)], nexts)))"

definition compare_dirs :: "string \<Rightarrow> FsDirData \<Rightarrow> FsDirData \<Rightarrow> level_acc \<Rightarrow> level_acc" where
  "compare_dirs pre base_dir new_dir acc =
     (let base_entries = map_of (rev (map (\<lambda>e. (de_name e, e)) (dirents base_dir)));
          acc = fold (compare_entry pre base_entries) (dirents new_dir) acc;
          matched = set (filter (\<lambda>n. base_entries n \<noteq> None) (map de_name (dirents new_dir)))
      in fold (drop_base_entry pre) (filter (\<lambda>e. de_name e \<notin> matched) (dirents base_dir)) acc)"

definition check_frame ::
    "(string \<times> FsDirData) list \<Rightarrow> (string \<times> FsDirData) list \<Rightarrow> BlockFrame \<Rightarrow> level_acc \<Rightarrow> level_acc result" where
  "check_frame base_map new_map frame acc =
     (if bf_base frame = bf_new frame then Inr acc
      else
        let base_dir = Option.bind (bf_base frame) (map_of base_map);
            new_dir = Option.bind (bf_new frame) (map_of new_map); pre = bf_prefix frame in
        if bf_base frame \<noteq> None \<and> base_dir = None \<or> bf_new frame \<noteq> None \<and> new_dir = None then
          if bf_new frame \<noteq> None \<and> new_dir = None \<and> bf_base frame = None then Inl BlockMissing else Inr acc
        else
          (case new_dir of
             None \<Rightarrow> Inr (case base_dir of None \<Rightarrow> acc | Some d \<Rightarrow> fold (drop_base_entry pre) (dirents d) acc)
           | Some nd \<Rightarrow>
               (case base_dir of
                  None \<Rightarrow> Inr (fold (add_new_entry pre) (dirents nd) acc)
                | Some bd \<Rightarrow> Inr (compare_dirs pre bd nd acc))))"

text \<open>The files of one level: an absent object is an error unless it is the sentinel of the empty file,
  a file with an absent block is reported by its path.\<close>

definition check_pending ::
    "(string \<Rightarrow> bool) \<Rightarrow> (string \<times> FsFileData) list \<Rightarrow> string \<times> string \<Rightarrow> string list \<Rightarrow> string list result" where
  "check_pending has_block file_map = (\<lambda>(fs_id, path) missing.
     (case map_of file_map fs_id of
        None \<Rightarrow> if fs_id \<noteq> EMPTY_SHA1 then Inl BlockMissing else Inr missing
      | Some file_data \<Rightarrow>
          if list_ex (\<lambda>b. \<not> has_block b) (block_ids file_data) then Inr (missing @ [path]) else Inr missing))"

definition check_level ::
    "externs \<Rightarrow> fs_objects \<Rightarrow> (string \<Rightarrow> bool) \<Rightarrow> string \<Rightarrow> BlockFrame list \<Rightarrow> string list \<times> int \<Rightarrow>
     (BlockFrame list \<times> string list \<times> int) result" where
  "check_level x db has_block repo_id frontier = (\<lambda>(missing, size_delta).
     rbind (read_fs_dir_data_batch x db repo_id (List.map_filter bf_new frontier)) (\<lambda>new_map.
     rbind (let base_ids = List.map_filter bf_base frontier in
            if base_ids = [] then Inr [] else read_fs_dir_data_batch x db repo_id base_ids) (\<lambda>base_map.
     rbind (rfold (check_frame base_map new_map) frontier (size_delta, [], [])) (\<lambda>(size_delta, pending, nexts).
     if pending = [] then Inr (nexts, missing, size_delta)
     else
       rbind (read_fs_file_data_batch x db repo_id (map fst pending)) (\<lambda>file_map.
       rbind (rfold (check_pending has_block file_map) pending missing) (\<lambda>missing.
       Inr (nexts, missing, size_delta)))))))"

section \<open>A first upload\<close>

definition check_blocks_concurrent :: "(string \<Rightarrow> bool) \<Rightarrow> string list \<Rightarrow> bool" where
  "check_blocks_concurrent has_block ids = list_ex (list_ex (\<lambda>b. \<not> has_block b)) (chunks 16 ids)"

definition full_frame ::
    "externs \<Rightarrow> (string \<Rightarrow> bool) \<Rightarrow> (string \<times> fs_object) list \<Rightarrow> string \<times> string \<Rightarrow>
     string list \<times> int \<times> (string \<times> string) list \<Rightarrow> (string list \<times> int \<times> (string \<times> string) list) result" where
  "full_frame x has_block obj_map = (\<lambda>(fs_id, path) (missing, size_total, nexts).
     (case map_of obj_map fs_id of
        None \<Rightarrow> if fs_id \<noteq> EMPTY_SHA1 then Inl BlockMissing else Inr (missing, size_total, nexts)
      | Some obj \<Rightarrow>
          if obj_type obj = 1 then
            rbind (map_err (\<lambda>e. Internal (''invalid file object: '' @ e)) (parse_file x (obj_data obj))) (\<lambda>file_data.
            Inr (if check_blocks_concurrent has_block (block_ids file_data) then missing @ [path] else missing,
                 i64_wrap (size_total + file_size file_data), nexts))
          else if obj_type obj = 3 then
            rbind (map_err (\<lambda>e. Internal (''invalid dir object: '' @ e)) (parse_dir x (obj_data obj))) (\<lambda>dir_data.
            Inr (missing, size_total,
                 nexts @ map (\<lambda>entry. (de_id entry, child_of path (de_name entry))) (dirents dir_data)))
          else Inr (missing, size_total, nexts)))"

definition full_level ::
    "externs \<Rightarrow> fs_objects \<Rightarrow> (string \<Rightarrow> bool) \<Rightarrow> string \<Rightarrow> (string \<times> string) list \<Rightarrow> string list \<times> int \<Rightarrow>
     ((string \<times> string) list \<times> string list \<times> int) result" where
  "full_level x db has_block repo_id frontier = (\<lambda>(missing, size_total).
     (let ids = filter (\<lambda>i. i \<noteq> EMPTY_SHA1) (map fst frontier);
          obj_map = rev (find_by_repo_and_fs_ids db repo_id ids) in
      rbind (rfold (full_frame x has_block obj_map) frontier (missing, size_total, []))
        (\<lambda>(missing, size_total, nexts). Inr (nexts, missing, size_total))))"

definition full_check_blocks ::
    "tree_limits \<Rightarrow> externs \<Rightarrow> fs_objects \<Rightarrow> (string \<Rightarrow> bool) \<Rightarrow> string \<Rightarrow> string \<Rightarrow> string list \<times> int \<Rightarrow>
     (string list \<times> int) result" where
  "full_check_blocks lim x db has_block repo_id root_id acc =
     bfs lim (full_level x db has_block repo_id) new_guard [(root_id, [])] acc"

definition check_commit_blocks ::
    "tree_limits \<Rightarrow> externs \<Rightarrow> fs_objects \<Rightarrow> (string \<Rightarrow> bool) \<Rightarrow> string \<Rightarrow> string \<Rightarrow> string option \<Rightarrow>
     string list \<times> int \<Rightarrow> (string list \<times> int) result" where
  "check_commit_blocks lim x db has_block repo_id new_root_id base_root_id acc =
     (case base_root_id of
        Some base_root \<Rightarrow>
          if base_root = new_root_id then Inr acc
          else bfs lim (check_level x db has_block repo_id) new_guard
                 [\<lparr>bf_base = stored_dir base_root, bf_new = stored_dir new_root_id, bf_prefix = []\<rparr>] acc
      | None \<Rightarrow> full_check_blocks lim x db has_block repo_id new_root_id acc)"

end
