(* ===== verification/SyncCheckLaws.thy ===== *)
theory SyncCheckLaws
  imports SyncCheck
begin

text \<open>
  What passing the block check guarantees of a pushed tree, and where it does not look: the
  objects and blocks a successful walk has seen.
\<close>

section \<open>Objects below a frame\<close>

text \<open>The frames \<open>(id, path)\<close> a one-sided walk can reach from a frame, following the object rows.\<close>

inductive below :: "externs \<Rightarrow> fs_objects \<Rightarrow> string \<Rightarrow> string \<times> string \<Rightarrow> string \<times> string \<Rightarrow> bool" for x db r where
  below_self: "below x db r f f"
| below_step: "i \<noteq> EMPTY_SHA1 \<Longrightarrow> db (r, i) = Some obj \<Longrightarrow> obj_type obj = 3 \<Longrightarrow>
    parse_dir x (obj_data obj) = Inr d \<Longrightarrow> e \<in> set (dirents d) \<Longrightarrow>
    below x db r (de_id e, child_of q (de_name e)) f \<Longrightarrow> below x db r (i, q) f"

definition children :: "externs \<Rightarrow> fs_objects \<Rightarrow> string \<Rightarrow> string \<times> string \<Rightarrow> (string \<times> string) set" where
  "children x db r = (\<lambda>(i, q). {(de_id e, child_of q (de_name e)) |e. \<exists>obj d. i \<noteq> EMPTY_SHA1 \<and>
     db (r, i) = Some obj \<and> obj_type obj = 3 \<and> parse_dir x (obj_data obj) = Inr d \<and> e \<in> set (dirents d)})"

lemma below_cases: "below x db r f g \<Longrightarrow> g = f \<or> (\<exists>c\<in>children x db r f. below x db r c g)"
  by (erule below.cases) (auto simp: children_def)

text \<open>The invariant of a walk: everything below the root frame satisfies \<open>P\<close> or is below a frame
  still to be visited.\<close>

definition covered :: "externs \<Rightarrow> fs_objects \<Rightarrow> string \<Rightarrow> string \<times> string \<Rightarrow> (string \<times> string \<Rightarrow> bool) \<Rightarrow>
    (string \<times> string) set \<Rightarrow> bool" where
  "covered x db r root P fr \<longleftrightarrow> (\<forall>f. below x db r root f \<longrightarrow> P f \<or> (\<exists>g\<in>fr. below x db r g f))"

lemma covered_step:
  assumes "covered x db r root P fr" "\<And>g. g \<in> fr \<Longrightarrow> P g \<and> children x db r g \<subseteq> nexts"
  shows "covered x db r root P nexts"
  using assms below_cases unfolding covered_def by (metis subsetD)

lemma covered_start: "covered x db r root P {root}"
  by (simp add: covered_def)

lemma map_of_rev_find:
  "map_of (rev (find_by_repo_and_fs_ids db r ids)) i = (if i \<in> set ids then db (r, i) else None)"
proof (cases "map_of (rev (find_by_repo_and_fs_ids db r ids)) i")
  case None
  then show ?thesis using find_by_ids_set [of db r ids] by (cases "db (r, i)") (force simp: map_of_eq_None_iff)+
next
  case (Some obj)
  then have "(i, obj) \<in> set (find_by_repo_and_fs_ids db r ids)" by (metis map_of_SomeD set_rev)
  then show ?thesis using Some by (simp add: find_by_ids_set)
qed

section \<open>A first upload\<close>

definition complete_object :: "externs \<Rightarrow> fs_objects \<Rightarrow> (string \<Rightarrow> bool) \<Rightarrow> string \<Rightarrow> string \<Rightarrow> bool" where
  "complete_object x db has_block r i \<longleftrightarrow> i = EMPTY_SHA1 \<or>
     (\<exists>obj. db (r, i) = Some obj \<and>
        (if obj_type obj = 1 then \<exists>fd. parse_file x (obj_data obj) = Inr fd \<and> list_all has_block (block_ids fd)
         else if obj_type obj = 3 then \<exists>d. parse_dir x (obj_data obj) = Inr d else True))"

lemma check_blocks_iff: "check_blocks_concurrent has_block ids \<longleftrightarrow> \<not> list_all has_block ids"
  unfolding check_blocks_concurrent_def list_ex_iff list_all_iff
  using in_chunks [where n = 16 and xs = ids] by (metis zero_less_numeral)

lemma full_frame_step:
  assumes "full_frame x has_block om (i, q) (missing, tot, nexts) = Inr ([], tot', nexts')"
    and om: "map_of om i = (if i = EMPTY_SHA1 then None else db (r, i))"
  shows "missing = [] \<and> complete_object x db has_block r i \<and> children x db r (i, q) \<union> set nexts \<subseteq> set nexts'"
proof (cases "map_of om i")
  case None
  then show ?thesis using assms by (auto simp: full_frame_def complete_object_def children_def split: if_splits)
next
  case (Some obj)
  then have row: "i \<noteq> EMPTY_SHA1" "db (r, i) = Some obj" using om by (auto split: if_splits)
  show ?thesis using assms Some row
    by (auto simp: full_frame_def complete_object_def children_def rbind_eq_Inr_iff check_blocks_iff split: if_splits)
qed

lemma full_frames_step:
  assumes "rfold (full_frame x has_block om) fs (missing, tot, nexts) = Inr ([], tot', nexts')"
    and "\<forall>f\<in>set fs. map_of om (fst f) = (if fst f = EMPTY_SHA1 then None else db (r, fst f))"
  shows "missing = [] \<and> (\<forall>f\<in>set fs. complete_object x db has_block r (fst f) \<and> children x db r f \<subseteq> set nexts') \<and>
    set nexts \<subseteq> set nexts'"
  using assms
proof (induction fs arbitrary: missing tot nexts)
  case (Cons f fs)
  obtain i q where f: "f = (i, q)" by (cases f)
  obtain m1 t1 n1 where s: "full_frame x has_block om f (missing, tot, nexts) = Inr (m1, t1, n1)"
    and rest: "rfold (full_frame x has_block om) fs (m1, t1, n1) = Inr ([], tot', nexts')"
    using Cons.prems(1) by (auto simp: rbind_eq_Inr_iff)
  have ih: "m1 = [] \<and> (\<forall>f\<in>set fs. complete_object x db has_block r (fst f) \<and> children x db r f \<subseteq> set nexts') \<and>
      set n1 \<subseteq> set nexts'"
    by (rule Cons.IH [OF rest]) (use Cons.prems(2) in auto)
  have "missing = [] \<and> complete_object x db has_block r i \<and> children x db r (i, q) \<union> set nexts \<subseteq> set n1"
    by (rule full_frame_step [of x has_block om i q missing tot nexts t1]) (use s ih f Cons.prems(2) in auto)
  then show ?case using ih f by auto
qed simp

interpretation full_walk: level_walk "full_level x db has_block r"
    "\<lambda>n fr acc. fst acc = [] \<longrightarrow> covered x db r root (complete_object x db has_block r \<circ> fst) (set fr)"
    for x db has_block r root
proof
  fix fr nexts n and acc acc' :: "string list \<times> int"
  assume step: "full_level x db has_block r fr acc = Inr (nexts, acc')"
    and inv: "fst acc = [] \<longrightarrow> covered x db r root (complete_object x db has_block r \<circ> fst) (set fr)"
  show "fst acc' = [] \<longrightarrow> covered x db r root (complete_object x db has_block r \<circ> fst) (set nexts)"
  proof
    assume "fst acc' = []"
    then obtain missing tot tot' where acc: "acc = (missing, tot)" "acc' = ([], tot')" by (cases acc, cases acc') auto
    let ?om = "rev (find_by_repo_and_fs_ids db r (filter (\<lambda>i. i \<noteq> EMPTY_SHA1) (map fst fr)))"
    have run: "rfold (full_frame x has_block ?om) fr (missing, tot, []) = Inr ([], tot', nexts)"
      using step acc by (auto simp: full_level_def Let_def rbind_eq_Inr_iff)
    have "missing = [] \<and> (\<forall>f\<in>set fr. complete_object x db has_block r (fst f) \<and> children x db r f \<subseteq> set nexts) \<and>
        set [] \<subseteq> set nexts"
      by (rule full_frames_step [OF run]) (simp add: map_of_rev_find)
    then show "covered x db r root (complete_object x db has_block r \<circ> fst) (set nexts)"
      using inv acc covered_step [of x db r root _ "set fr" "set nexts"] by simp
  qed
qed

text \<open>
  A first upload is only accepted complete. When the check of a library without a base tree
  reports no missing file, every object the new root leads to is stored, every directory object
  parses, and every block of every file is present.
\<close>

theorem first_upload_complete:
  assumes "check_commit_blocks lim x db has_block r root None ([], 0) = Inr ([], total_size)"
  shows "{i. \<exists>path. below x db r (root, []) (i, path)} \<subseteq> {i. complete_object x db has_block r i}"
proof -
  have run: "bfs lim (full_level x db has_block r) new_guard [(root, [])] ([], 0) = Inr ([], total_size)"
    using assms by (simp add: check_commit_blocks_def full_check_blocks_def)
  have "covered x db r (root, []) (complete_object x db has_block r \<circ> fst) (set [])"
    using full_walk.bfs_result [OF run, of "(root, [])"] by (simp add: covered_start new_guard_def)
  then show ?thesis by (auto simp: covered_def)
qed

section \<open>A push on top of a base tree\<close>

text \<open>The file entries of a tree, along directories that can be read.\<close>

definition tree_file :: "externs \<Rightarrow> fs_objects \<Rightarrow> string \<Rightarrow> string \<Rightarrow> string \<Rightarrow> bool" where
  "tree_file x db r i k \<longleftrightarrow> (\<exists>j d e. tree_dir x db r i j \<and> read_fs_dir_data x db r j = Inr d \<and>
     e \<in> set (dirents d) \<and> \<not> has_dir_bit (de_mode e) \<and> k = de_id e)"

definition stored_file :: "externs \<Rightarrow> fs_objects \<Rightarrow> (string \<Rightarrow> bool) \<Rightarrow> string \<Rightarrow> string \<Rightarrow> bool" where
  "stored_file x db has_block r k \<longleftrightarrow> k = EMPTY_SHA1 \<or>
     (\<exists>fd. read_fs_file_data x db r k = Inr fd \<and> list_all has_block (block_ids fd))"

definition readable_tree :: "externs \<Rightarrow> fs_objects \<Rightarrow> string \<Rightarrow> string \<Rightarrow> bool" where
  "readable_tree x db r i \<longleftrightarrow> (\<forall>j. tree_dir x db r i j \<longrightarrow> (\<exists>d. read_fs_dir_data x db r j = Inr d))"

lemma tree_file_cases:
  assumes "tree_file x db r i k"
  obtains d e where "read_fs_dir_data x db r i = Inr d" "e \<in> set (dirents d)" "\<not> has_dir_bit (de_mode e)" "k = de_id e"
  | d e where "read_fs_dir_data x db r i = Inr d" "e \<in> set (dirents d)" "has_dir_bit (de_mode e)" "tree_file x db r (de_id e) k"
proof -
  from assms obtain j d e where "tree_dir x db r i j" "read_fs_dir_data x db r j = Inr d" "e \<in> set (dirents d)"
      "\<not> has_dir_bit (de_mode e)" "k = de_id e"
    unfolding tree_file_def by blast
  note j = this
  from j(1) consider "j = i" | d' e' where "read_fs_dir_data x db r i = Inr d'" "e' \<in> set (dirents d')"
      "has_dir_bit (de_mode e')" "tree_dir x db r (de_id e') j"
    unfolding tree_dir_unfold [of x db r i j] by blast
  then show thesis
  proof cases
    case 1
    then show thesis using that(1) j by simp
  next
    case 2
    then have "tree_file x db r (de_id e') k" using j unfolding tree_file_def by blast
    then show thesis using that(2) 2 by simp
  qed
qed

lemma tree_file_reach: "tree_file x db r i k \<Longrightarrow> obj_reach x db r i k"
  by (rule tree_obj_reach) (unfold tree_file_def tree_obj_def, blast)

lemma tree_file_empty: "\<not> tree_file x db r EMPTY_SHA1 k"
proof
  assume "tree_file x db r EMPTY_SHA1 k"
  then show False by (cases rule: tree_file_cases) (auto simp: empty_dir_def)
qed

lemma tree_dir_trans: "tree_dir x db r i j \<Longrightarrow> tree_dir x db r j k \<Longrightarrow> tree_dir x db r i k"
  by (induction rule: tree_dir.induct) (auto intro: tree_dir.intros)

text \<open>A file of the new tree is settled when it is stored, when it belongs to the base tree, when it
  is queued for the block check, or when a frame still to be compared leads to it.\<close>

definition settled ::
    "externs \<Rightarrow> fs_objects \<Rightarrow> (string \<Rightarrow> bool) \<Rightarrow> string \<Rightarrow> string \<Rightarrow> string set \<Rightarrow> BlockFrame set \<Rightarrow> string \<Rightarrow> bool" where
  "settled x db has_block r base pending fr k \<longleftrightarrow> stored_file x db has_block r k \<or> obj_reach x db r base k \<or>
     k \<in> pending \<or> (\<exists>f\<in>fr. \<exists>n. bf_new f = Some n \<and> tree_file x db r n k)"

definition base_side :: "externs \<Rightarrow> fs_objects \<Rightarrow> string \<Rightarrow> string \<Rightarrow> BlockFrame \<Rightarrow> bool" where
  "base_side x db r base f \<longleftrightarrow> (\<forall>b. bf_base f = Some b \<longrightarrow> b \<noteq> EMPTY_SHA1 \<and> tree_dir x db r base b)"

definition entry_files :: "externs \<Rightarrow> fs_objects \<Rightarrow> string \<Rightarrow> DirEntryData \<Rightarrow> string set" where
  "entry_files x db r e = (if has_dir_bit (de_mode e) then {k. tree_file x db r (de_id e) k} else {de_id e})"

lemma settled_mono:
  "settled x db hb r base P F k \<Longrightarrow> P \<subseteq> P' \<Longrightarrow> F \<subseteq> F' \<Longrightarrow> settled x db hb r base P' F' k"
  unfolding settled_def by blast

text \<open>What one step over an entry may do to the queues.\<close>

definition grows ::
    "externs \<Rightarrow> fs_objects \<Rightarrow> string \<Rightarrow> string \<Rightarrow> level_acc \<Rightarrow> level_acc \<Rightarrow> bool" where
  "grows x db r base a a' \<longleftrightarrow> set (fst (snd a)) \<subseteq> set (fst (snd a')) \<and> set (snd (snd a)) \<subseteq> set (snd (snd a')) \<and>
     ((\<forall>f\<in>set (snd (snd a)). base_side x db r base f) \<longrightarrow> (\<forall>f\<in>set (snd (snd a')). base_side x db r base f))"

lemma grows_refl: "grows x db r base a a"
  by (simp add: grows_def)

lemma grows_trans: "grows x db r base a b \<Longrightarrow> grows x db r base b c \<Longrightarrow> grows x db r base a c"
  unfolding grows_def by blast

definition entry_settled ::
    "externs \<Rightarrow> fs_objects \<Rightarrow> (string \<Rightarrow> bool) \<Rightarrow> string \<Rightarrow> string \<Rightarrow> level_acc \<Rightarrow> DirEntryData \<Rightarrow> bool" where
  "entry_settled x db hb r base a e \<longleftrightarrow>
     (\<forall>k\<in>entry_files x db r e. settled x db hb r base (fst ` set (fst (snd a))) (set (snd (snd a))) k)"

lemma entry_settled_grows: "entry_settled x db hb r base a e \<Longrightarrow> grows x db r base a a' \<Longrightarrow> entry_settled x db hb r base a' e"
  unfolding entry_settled_def grows_def by (meson image_mono settled_mono)

lemma fold_grows:
  assumes "\<And>e a. e \<in> set es \<Longrightarrow> grows x db r base a (f e a)"
  shows "grows x db r base a (fold f es a)"
  using assms
proof (induction es arbitrary: a)
  case (Cons e es)
  have "grows x db r base a (f e a)" by (rule Cons.prems) simp
  moreover have "grows x db r base (f e a) (fold f es (f e a))" by (rule Cons.IH) (rule Cons.prems, simp)
  ultimately show ?case using grows_trans by simp
qed (simp add: grows_refl)

lemma fold_settled:
  assumes "\<And>e a. e \<in> set es \<Longrightarrow> grows x db r base a (f e a)"
    and "\<And>e a. e \<in> set es \<Longrightarrow> entry_settled x db hb r base (f e a) e"
  shows "\<forall>e\<in>set es. entry_settled x db hb r base (fold f es a) e"
  using assms
proof (induction es arbitrary: a)
  case (Cons e es)
  have "grows x db r base (f e a) (fold f es (f e a))" by (rule fold_grows) (use Cons.prems(1) in auto)
  then have "entry_settled x db hb r base (fold f es (f e a)) e"
    using Cons.prems(2) [of e a] entry_settled_grows by fastforce
  then show ?case using Cons.IH [of "f e a"] Cons.prems by auto
qed simp

lemma base_entry_side:
  assumes "tree_dir x db r base b" "read_fs_dir_data x db r b = Inr bd" "e \<in> set (dirents bd)" "has_dir_bit (de_mode e)"
  shows "base_side x db r base \<lparr>bf_base = stored_dir (de_id e), bf_new = n, bf_prefix = p\<rparr>"
proof -
  have "tree_dir x db r b (de_id e)" by (rule dir_step [OF assms(2-4) dir_self])
  then have "tree_dir x db r base (de_id e)" by (rule tree_dir_trans [OF assms(1)])
  then show ?thesis by (auto simp: base_side_def stored_dir_def split: if_splits)
qed

lemma add_new_grows: "grows x db r base a (add_new_entry pre e a)"
  by (cases a) (auto simp: grows_def add_new_entry_def base_side_def Let_def)

lemma add_new_settled: "entry_settled x db hb r base (add_new_entry pre e a) e"
  by (cases a) (auto simp: entry_settled_def entry_files_def settled_def add_new_entry_def Let_def stored_dir_def
      tree_file_empty)

lemma drop_base_grows:
  assumes "tree_dir x db r base b" "read_fs_dir_data x db r b = Inr bd" "e \<in> set (dirents bd)"
  shows "grows x db r base a (drop_base_entry pre e a)"
  using base_entry_side [OF assms] by (cases a) (auto simp: grows_def drop_base_entry_def)

lemma base_entry_reach:
  assumes "tree_dir x db r base b" "read_fs_dir_data x db r b = Inr bd" "e \<in> set (dirents bd)"
  shows "obj_reach x db r base (de_id e)"
  using tree_dir_obj [OF assms(1) tree_obj_entry [OF assms(2,3)]] by (rule tree_obj_reach)

lemma entry_files_reach: "k \<in> entry_files x db r e \<Longrightarrow> obj_reach x db r (de_id e) k"
  by (auto simp: entry_files_def reach_self tree_file_reach split: if_splits)

lemma compare_step:
  assumes base: "tree_dir x db r base b" "read_fs_dir_data x db r b = Inr bd"
    and entries: "\<And>n be. entries n = Some be \<Longrightarrow> be \<in> set (dirents bd)"
  shows "grows x db r base a (compare_entry pre entries e a) \<and> entry_settled x db hb r base (compare_entry pre entries e a) e"
proof (cases "entries (de_name e)")
  case None
  then show ?thesis using add_new_grows add_new_settled by (simp add: compare_entry_def)
next
  case (Some be)
  note be = entries [OF Some]
  obtain delta pending nexts where a: "a = (delta, pending, nexts)" by (cases a)
  show ?thesis
  proof (cases "de_id e = de_id be")
    case True
    then have "obj_reach x db r base k" if "k \<in> entry_files x db r e" for k
      using entry_files_reach [OF that] base_entry_reach [OF base be] obj_reach_trans by metis
    then show ?thesis using True Some by (auto simp: compare_entry_def grows_refl entry_settled_def settled_def)
  next
    case False
    have side: "has_dir_bit (de_mode be) \<Longrightarrow> base_side x db r base \<lparr>bf_base = stored_dir (de_id be), bf_new = n, bf_prefix = p\<rparr>" for n p
      by (rule base_entry_side [OF base be])
    have none: "base_side x db r base \<lparr>bf_base = None, bf_new = n, bf_prefix = p\<rparr>" for n p
      by (simp add: base_side_def)
    show ?thesis using False Some side none unfolding a
      by (cases "has_dir_bit (de_mode be)"; cases "has_dir_bit (de_mode e)")
        (auto simp: compare_entry_def Let_def grows_def entry_settled_def settled_def entry_files_def
          stored_dir_def tree_file_empty)
  qed
qed

lemma compare_dirs_step:
  assumes base: "tree_dir x db r base b" "read_fs_dir_data x db r b = Inr bd"
  shows "grows x db r base a (compare_dirs pre bd nd a) \<and>
    (\<forall>e\<in>set (dirents nd). entry_settled x db hb r base (compare_dirs pre bd nd a) e)"
proof -
  define entries where "entries = map_of (rev (map (\<lambda>e. (de_name e, e)) (dirents bd)))"
  have entries: "entries n = Some be \<Longrightarrow> be \<in> set (dirents bd)" for n be
    by (auto simp: entries_def dest!: map_of_SomeD)
  define a1 where "a1 = fold (compare_entry pre entries) (dirents nd) a"
  have step: "grows x db r base a (compare_entry pre entries e a) \<and> entry_settled x db hb r base (compare_entry pre entries e a) e"
    for e a by (rule compare_step [OF base]) (rule entries)
  have g1: "grows x db r base a a1" unfolding a1_def by (rule fold_grows) (rule step [THEN conjunct1])
  have s1: "\<forall>e\<in>set (dirents nd). entry_settled x db hb r base a1 e"
    unfolding a1_def by (rule fold_settled) (rule step [THEN conjunct1], rule step [THEN conjunct2])
  define kept where "kept = filter (\<lambda>e. de_name e \<notin> set (filter (\<lambda>n. entries n \<noteq> None) (map de_name (dirents nd)))) (dirents bd)"
  have g2: "grows x db r base a1 (fold (drop_base_entry pre) kept a1)"
    by (rule fold_grows) (auto simp: kept_def intro: drop_base_grows [OF base])
  have eq: "compare_dirs pre bd nd a = fold (drop_base_entry pre) kept a1"
    unfolding compare_dirs_def Let_def entries_def a1_def kept_def by (rule refl)
  show ?thesis unfolding eq using grows_trans [OF g1 g2] s1 entry_settled_grows [OF _ g2] by blast
qed

lemma settled_dir:
  assumes "read_fs_dir_data x db r n = Inr nd" "\<forall>e\<in>set (dirents nd). entry_settled x db hb r base a e" "tree_file x db r n k"
  shows "settled x db hb r base (fst ` set (fst (snd a))) (set (snd (snd a))) k"
  using assms(3)
proof (cases rule: tree_file_cases)
  case (1 d e)
  then have "k \<in> entry_files x db r e" "e \<in> set (dirents nd)" using assms(1) by (simp_all add: entry_files_def)
  then show ?thesis using assms(2) by (simp add: entry_settled_def)
next
  case (2 d e)
  then have "k \<in> entry_files x db r e" "e \<in> set (dirents nd)" using assms(1) by (simp_all add: entry_files_def)
  then show ?thesis using assms(2) by (simp add: entry_settled_def)
qed

lemma check_frame_step:
  assumes side: "base_side x db r base f" and readable: "readable_tree x db r base"
    and nmap: "\<forall>n nd. bf_new f = Some n \<longrightarrow> map_of nm n = Some nd \<longleftrightarrow> n \<noteq> EMPTY_SHA1 \<and> read_fs_dir_data x db r n = Inr nd"
    and bmap: "\<forall>b bd. bf_base f = Some b \<longrightarrow> map_of bm b = Some bd \<longleftrightarrow> b \<noteq> EMPTY_SHA1 \<and> read_fs_dir_data x db r b = Inr bd"
    and run: "check_frame bm nm f a = Inr a'"
  shows "grows x db r base a a' \<and> (\<forall>n k. bf_new f = Some n \<longrightarrow> tree_file x db r n k \<longrightarrow>
    settled x db hb r base (fst ` set (fst (snd a'))) (set (snd (snd a'))) k)"
proof (cases "bf_base f = bf_new f")
  case True
  then have "obj_reach x db r base k" if "bf_new f = Some n" "tree_file x db r n k" for n k
    using that side tree_file_reach tree_dir_obj [OF _ tree_obj_self] tree_obj_reach obj_reach_trans
    unfolding base_side_def by metis
  then show ?thesis using True run by (simp add: check_frame_def grows_refl settled_def)
next
  case neq: False
  define bd where "bd = Option.bind (bf_base f) (map_of bm)"
  define nd where "nd = Option.bind (bf_new f) (map_of nm)"
  have bd: "bf_base f = None \<and> bd = None \<or> (\<exists>b d. bd = Some d \<and> tree_dir x db r base b \<and> read_fs_dir_data x db r b = Inr d)"
    using side readable bmap unfolding base_side_def readable_tree_def bd_def by (cases "bf_base f") fastforce+
  have nd_read: "read_fs_dir_data x db r n = Inr d" if "bf_new f = Some n" "nd = Some d" for n d
    using that nmap by (simp add: nd_def)
  have no_files: "\<not> tree_file x db r n k" if "bf_new f = Some n" "nd = None" for n k
  proof
    assume t: "tree_file x db r n k"
    then obtain d where "read_fs_dir_data x db r n = Inr d" by (cases rule: tree_file_cases) auto
    moreover have "n \<noteq> EMPTY_SHA1" using t tree_file_empty by metis
    ultimately show False using that nmap by (simp add: nd_def)
  qed
  show ?thesis
  proof (cases nd)
    case None
    have "a' = a \<or> (\<exists>d. bd = Some d \<and> a' = fold (drop_base_entry (bf_prefix f)) (dirents d) a)"
      using run neq None
      by (auto simp: check_frame_def Let_def bd_def [symmetric] nd_def [symmetric] split: if_splits option.splits)
    moreover have "grows x db r base a (fold (drop_base_entry (bf_prefix f)) (dirents d) a)" if "bd = Some d" for d
    proof -
      from that bd obtain b where b: "tree_dir x db r base b" "read_fs_dir_data x db r b = Inr d" by auto
      show ?thesis by (rule fold_grows) (rule drop_base_grows [OF b])
    qed
    ultimately have "grows x db r base a a'" using grows_refl by metis
    then show ?thesis using no_files None by blast
  next
    case nd: (Some d)
    show ?thesis
    proof (cases bd)
      case None
      then have a': "a' = fold (add_new_entry (bf_prefix f)) (dirents d) a"
        using run neq nd bd by (auto simp: check_frame_def Let_def bd_def [symmetric] nd_def [symmetric])
      have "grows x db r base a a'" unfolding a' by (rule fold_grows) (rule add_new_grows)
      moreover have "\<forall>e\<in>set (dirents d). entry_settled x db hb r base a' e"
        unfolding a' by (rule fold_settled) (rule add_new_grows, rule add_new_settled)
      ultimately show ?thesis using settled_dir nd_read nd by blast
    next
      case (Some bd')
      then obtain b where b: "tree_dir x db r base b" "read_fs_dir_data x db r b = Inr bd'" using bd by auto
      have a': "a' = compare_dirs (bf_prefix f) bd' d a"
        using run neq nd Some by (auto simp: check_frame_def Let_def bd_def [symmetric] nd_def [symmetric])
      show ?thesis using compare_dirs_step [OF b, where a = a and pre = "bf_prefix f" and nd = d and hb = hb]
          settled_dir nd_read nd unfolding a' by blast
    qed
  qed
qed

lemma check_frames_step:
  assumes readable: "readable_tree x db r base"
    and "\<forall>f\<in>set fs. base_side x db r base f"
    and "\<forall>f\<in>set fs. \<forall>n nd. bf_new f = Some n \<longrightarrow> map_of nm n = Some nd \<longleftrightarrow> n \<noteq> EMPTY_SHA1 \<and> read_fs_dir_data x db r n = Inr nd"
    and "\<forall>f\<in>set fs. \<forall>b bd. bf_base f = Some b \<longrightarrow> map_of bm b = Some bd \<longleftrightarrow> b \<noteq> EMPTY_SHA1 \<and> read_fs_dir_data x db r b = Inr bd"
    and "rfold (check_frame bm nm) fs a = Inr a'"
  shows "grows x db r base a a' \<and> (\<forall>f\<in>set fs. \<forall>n k. bf_new f = Some n \<longrightarrow> tree_file x db r n k \<longrightarrow>
    settled x db hb r base (fst ` set (fst (snd a'))) (set (snd (snd a'))) k)"
  using assms(2-)
proof (induction fs arbitrary: a)
  case (Cons f fs)
  from Cons.prems(4) obtain a1 where s: "check_frame bm nm f a = Inr a1" and rest: "rfold (check_frame bm nm) fs a1 = Inr a'"
    by (auto simp: rbind_eq_Inr_iff)
  have step: "grows x db r base a a1 \<and> (\<forall>n k. bf_new f = Some n \<longrightarrow> tree_file x db r n k \<longrightarrow>
      settled x db hb r base (fst ` set (fst (snd a1))) (set (snd (snd a1))) k)"
    by (rule check_frame_step [OF _ readable _ _ s]) (use Cons.prems(1-3) in simp_all)
  have ih: "grows x db r base a1 a' \<and> (\<forall>f\<in>set fs. \<forall>n k. bf_new f = Some n \<longrightarrow> tree_file x db r n k \<longrightarrow>
      settled x db hb r base (fst ` set (fst (snd a'))) (set (snd (snd a'))) k)"
    by (rule Cons.IH [OF _ _ _ rest]) (use Cons.prems(1-3) in simp_all)
  have "settled x db hb r base (fst ` set (fst (snd a'))) (set (snd (snd a'))) k"
    if "bf_new f = Some n" "tree_file x db r n k" for n k
    using step ih that settled_mono unfolding grows_def by (meson image_mono)
  moreover have "grows x db r base a a'" using step ih grows_trans by metis
  ultimately show ?case using ih by simp
qed (simp add: grows_refl)

lemma read_file_batch_Some:
  assumes "read_fs_file_data_batch x db r ids = Inr m" "map_of m i = Some fd"
  shows "i = EMPTY_SHA1 \<or> read_fs_file_data x db r i = Inr fd"
proof -
  let ?P = "\<lambda>obj. obj_type obj = as_i8 SEAF_METADATA_TYPE_FILE"
  let ?rows = "fetch_fs_object_map db r (filter (\<lambda>i. i \<noteq> EMPTY_SHA1) ids)"
  let ?start = "if list_ex (\<lambda>i. i = EMPTY_SHA1) ids then [(EMPTY_SHA1, empty_file)] else []"
  have "map_of m i = (case map_of ?rows i of
      Some obj \<Rightarrow> if ?P obj then (case map_err Internal (parse_file x (obj_data obj)) of
        Inr d \<Rightarrow> Some d | Inl _ \<Rightarrow> None) else map_of ?start i
    | None \<Rightarrow> map_of ?start i)"
    by (rule rfold_collect_ok) (use assms(1) distinct_fetch in \<open>simp_all add: read_fs_file_data_batch_def\<close>)
  then show ?thesis using assms(2)
    by (auto simp: map_of_fetch read_fs_file_data_def split: option.splits sum.splits if_splits)
qed

lemma check_pending_step:
  assumes "rfold (check_pending hb fm) pending missing = Inr []"
    and "\<forall>i fd. map_of fm i = Some fd \<longrightarrow> i = EMPTY_SHA1 \<or> read_fs_file_data x db r i = Inr fd"
  shows "missing = [] \<and> (\<forall>p\<in>set pending. stored_file x db hb r (fst p))"
  using assms(1)
proof (induction pending arbitrary: missing)
  case (Cons p pending)
  from Cons.prems obtain m1 where s: "check_pending hb fm p missing = Inr m1" and rest: "rfold (check_pending hb fm) pending m1 = Inr []"
    by (auto simp: rbind_eq_Inr_iff)
  have ih: "m1 = [] \<and> (\<forall>p\<in>set pending. stored_file x db hb r (fst p))" by (rule Cons.IH [OF rest])
  show ?case
  proof (cases "map_of fm (fst p)")
    case None
    then show ?thesis using s ih by (auto simp: check_pending_def case_prod_unfold stored_file_def split: if_splits)
  next
    case (Some fd)
    then have "fst p = EMPTY_SHA1 \<or> read_fs_file_data x db r (fst p) = Inr fd" using assms(2) by blast
    moreover have "missing = []" "list_all hb (block_ids fd)" using s ih Some
      by (auto simp: check_pending_def case_prod_unfold list_ex_iff list_all_iff split: if_splits)
    ultimately show ?thesis using ih by (auto simp: stored_file_def)
  qed
qed simp

definition block_inv ::
    "externs \<Rightarrow> fs_objects \<Rightarrow> (string \<Rightarrow> bool) \<Rightarrow> string \<Rightarrow> string \<Rightarrow> string \<Rightarrow> BlockFrame list \<Rightarrow> string list \<Rightarrow> bool" where
  "block_inv x db hb r base root fr missing \<longleftrightarrow> readable_tree x db r base \<and> (\<forall>f\<in>set fr. base_side x db r base f) \<and>
     (missing = [] \<longrightarrow> (\<forall>k. tree_file x db r root k \<longrightarrow> settled x db hb r base {} (set fr) k))"

lemma check_level_parts:
  assumes "check_level x db hb r fr (missing, delta) = Inr (nexts, missing', delta')"
  obtains nm bm pending where "read_fs_dir_data_batch x db r (List.map_filter bf_new fr) = Inr nm"
    "bm = [] \<and> List.map_filter bf_base fr = [] \<or> read_fs_dir_data_batch x db r (List.map_filter bf_base fr) = Inr bm"
    "rfold (check_frame bm nm) fr (delta, [], []) = Inr (delta', pending, nexts)"
    "pending = [] \<and> missing' = missing \<or> (\<exists>fm. read_fs_file_data_batch x db r (map fst pending) = Inr fm \<and>
       rfold (check_pending hb fm) pending missing = Inr missing')"
proof -
  from assms obtain nm bm pending where "read_fs_dir_data_batch x db r (List.map_filter bf_new fr) = Inr nm"
    "(let ids = List.map_filter bf_base fr in if ids = [] then Inr [] else read_fs_dir_data_batch x db r ids) = Inr bm"
    "rfold (check_frame bm nm) fr (delta, [], []) = Inr (delta', pending, nexts)"
    "pending = [] \<and> missing' = missing \<or> (\<exists>fm. read_fs_file_data_batch x db r (map fst pending) = Inr fm \<and>
       rfold (check_pending hb fm) pending missing = Inr missing')"
    unfolding check_level_def by (force simp: rbind_eq_Inr_iff split: if_splits prod.splits)
  then show thesis using that [of nm bm pending] by (auto simp: Let_def split: if_splits)
qed

interpretation block_walk: level_walk "check_level x db hb r"
    "\<lambda>n fr acc. block_inv x db hb r base root fr (fst acc)" for x db hb r base root
proof
  fix fr nexts n and acc acc' :: "string list \<times> int"
  assume step: "check_level x db hb r fr acc = Inr (nexts, acc')" and inv: "block_inv x db hb r base root fr (fst acc)"
  obtain missing delta missing' delta' where acc: "acc = (missing, delta)" "acc' = (missing', delta')"
    by (cases acc, cases acc') auto
  have lv: "check_level x db hb r fr (missing, delta) = Inr (nexts, missing', delta')" using step acc by simp
  obtain nm bm pending where nm: "read_fs_dir_data_batch x db r (List.map_filter bf_new fr) = Inr nm"
    and bm: "bm = [] \<and> List.map_filter bf_base fr = [] \<or> read_fs_dir_data_batch x db r (List.map_filter bf_base fr) = Inr bm"
    and run: "rfold (check_frame bm nm) fr (delta, [], []) = Inr (delta', pending, nexts)"
    and files: "pending = [] \<and> missing' = missing \<or> (\<exists>fm. read_fs_file_data_batch x db r (map fst pending) = Inr fm \<and>
       rfold (check_pending hb fm) pending missing = Inr missing')"
    by (rule check_level_parts [OF lv])
  have new_in: "n \<in> set (List.map_filter bf_new fr)" if "f \<in> set fr" "bf_new f = Some n" for f n
    using that by (force simp: set_map_filter)
  have base_in: "b \<in> set (List.map_filter bf_base fr)" if "f \<in> set fr" "bf_base f = Some b" for f b
    using that by (force simp: set_map_filter)
  have bread: "read_fs_dir_data_batch x db r (List.map_filter bf_base fr) = Inr bm" if "f \<in> set fr" "bf_base f = Some b" for f b
    using bm base_in [OF that] by auto
  have step: "grows x db r base (delta, [], []) (delta', pending, nexts) \<and>
    (\<forall>f\<in>set fr. \<forall>n k. bf_new f = Some n \<longrightarrow> tree_file x db r n k \<longrightarrow>
      settled x db hb r base (fst ` set (fst (snd (delta', pending, nexts)))) (set (snd (snd (delta', pending, nexts)))) k)"
  proof (rule check_frames_step [OF _ _ _ _ run])
    show "\<forall>f\<in>set fr. \<forall>n nd. bf_new f = Some n \<longrightarrow> map_of nm n = Some nd \<longleftrightarrow> n \<noteq> EMPTY_SHA1 \<and> read_fs_dir_data x db r n = Inr nd"
      using read_dir_batch_iff [OF nm] new_in by simp
    show "\<forall>f\<in>set fr. \<forall>b bd. bf_base f = Some b \<longrightarrow> map_of bm b = Some bd \<longleftrightarrow> b \<noteq> EMPTY_SHA1 \<and> read_fs_dir_data x db r b = Inr bd"
      using read_dir_batch_iff [OF bread] base_in by metis
  qed (use inv in \<open>simp_all add: block_inv_def\<close>)
  have "tree_file x db r root k \<longrightarrow> settled x db hb r base {} (set nexts) k" if "missing' = []" for k
  proof -
    have m: "missing = [] \<and> (\<forall>p\<in>set pending. stored_file x db hb r (fst p))"
      using files that check_pending_step [of hb _ pending missing x db r] read_file_batch_Some [of x db r "map fst pending"] by auto
    show ?thesis using step inv m acc unfolding block_inv_def settled_def by fastforce
  qed
  then show "block_inv x db hb r base root nexts (fst acc')"
    using inv step acc by (simp add: block_inv_def grows_def)
qed

text \<open>When the check against a readable base tree reports no missing file, every file entry of the
  pushed tree is the empty file, belongs to the base tree, or has a readable file object and every
  one of its blocks.\<close>

lemma pushed_files_stored:
  assumes "check_commit_blocks lim x db has_block r new_root (Some base) ([], 0) = Inr ([], delta)"
    and "readable_tree x db r base"
  shows "{k. tree_file x db r new_root k} \<subseteq> {k. stored_file x db has_block r k} \<union> {k. obj_reach x db r base k}"
proof (cases "base = new_root")
  case True
  then show ?thesis using tree_file_reach by auto
next
  case False
  let ?f = "\<lparr>bf_base = stored_dir base, bf_new = stored_dir new_root, bf_prefix = []\<rparr>"
  have run: "bfs lim (check_level x db has_block r) new_guard [?f] ([], 0) = Inr ([], delta)"
    using assms(1) False by (simp add: check_commit_blocks_def)
  have start: "block_inv x db has_block r base new_root [?f] []"
    using assms(2) tree_file_empty
    by (auto simp: block_inv_def base_side_def settled_def stored_dir_def dir_self split: if_splits)
  have "block_inv x db has_block r base new_root [] []"
    using block_walk.bfs_result [OF run, of base new_root] start by (simp add: new_guard_def)
  then show ?thesis by (auto simp: block_inv_def settled_def)
qed

section \<open>Concrete pushes\<close>

text \<open>The base \<open>B\<close> holds the directory \<open>/d\<close> with a file; the push \<open>N\<close> changes a file of it and adds \<open>/g\<close>.
  In \<open>M\<close> the changed directory is the object \<open>X\<close>, which was never uploaded.\<close>

definition push_db :: fs_objects where
  "push_db = (\<lambda>(r, i). if r = ''r'' \<and> List.member [''B'', ''N'', ''M'', ''D'', ''E''] i then Some \<lparr>obj_type = 3, obj_data = i\<rparr>
     else if r = ''r'' \<and> List.member [''F'', ''G''] i then Some \<lparr>obj_type = 1, obj_data = i\<rparr> else None)"

definition push_x :: externs where
  "push_x = (demo_externs
     [(''B'', mk_dir [demo_dir ''D'' ''d'']),
      (''N'', mk_dir [demo_file ''G'' ''g'', demo_dir ''E'' ''d'']),
      (''M'', mk_dir [demo_dir ''X'' ''d'']),
      (''D'', mk_dir [demo_file ''F'' ''f'']), (''E'', mk_dir [demo_file ''G'' ''f''])])
     \<lparr>parse_file := (\<lambda>s. Inr \<lparr>block_ids = [s], file_size = 3, file_type = 1, file_version = 1\<rparr>)\<rparr>"

definition push_blocks :: "string \<Rightarrow> bool" where "push_blocks b \<longleftrightarrow> b = ''F'' \<or> b = ''G''"

theorem first_upload_complete_witness:
  "check_commit_blocks (configure 4 9) push_x push_db push_blocks ''r'' ''N'' None ([], 0) = Inr ([], 6) \<and>
   {i. \<exists>path. below push_x push_db ''r'' (''N'', []) (i, path)} \<subseteq> {i. complete_object push_x push_db push_blocks ''r'' i}"
proof -
  have h: "check_commit_blocks (configure 4 9) push_x push_db push_blocks ''r'' ''N'' None ([], 0) = Inr ([], 6)" by code_simp
  show ?thesis using h first_upload_complete [OF h] by simp
qed


end
