(* ===== verification/Locks.thy ===== *)
theory Locks
  imports SyncCheckLaws Sanitize
begin

text \<open>
  File locks: the \<open>locked_files\<close> and \<open>file_lock_timestamps\<close> tables with the operations of
  \<open>server/src/repository/locked_file.rs\<close> and \<open>server/src/service/fs/file.rs\<close> that change them, and
  \<open>check_commit_file_locks\<close> of \<open>server/src/fs/core/lock.rs\<close>, which a pushed tree has to pass.

  The user lookup and the clock are arguments; the events sent to notification clients are not
  modelled. The index on \<open>(repo_id, path)\<close> is unique, which \<open>locks_distinct\<close> states.
\<close>

section \<open>The lock tables\<close>

record LockedFile =
  lf_repo_id :: string
  lf_path :: string
  lf_user_id :: int
  lf_locked_at :: int
  lf_owner_name :: string

record lock_tables =
  locked_files :: "LockedFile list"
  lock_timestamps :: "string \<rightharpoonup> int"

definition find_by_repo :: "lock_tables \<Rightarrow> string \<Rightarrow> LockedFile list" where
  "find_by_repo t repo_id = filter (\<lambda>l. lf_repo_id l = repo_id) (locked_files t)"

definition find_by_repo_and_path :: "lock_tables \<Rightarrow> string \<Rightarrow> string \<Rightarrow> LockedFile option" where
  "find_by_repo_and_path t repo_id path =
     find (\<lambda>l. lf_repo_id l = repo_id \<and> lf_path l = path) (locked_files t)"

definition create_lock :: "string \<Rightarrow> string \<Rightarrow> int \<Rightarrow> int \<Rightarrow> string \<Rightarrow> lock_tables \<Rightarrow> lock_tables" where
  "create_lock repo_id path user_id now owner_name t =
     t\<lparr>locked_files := locked_files t @ [\<lparr>lf_repo_id = repo_id, lf_path = path, lf_user_id = user_id,
        lf_locked_at = now, lf_owner_name = owner_name\<rparr>]\<rparr>"

definition delete_by_repo_and_path :: "string \<Rightarrow> string \<Rightarrow> lock_tables \<Rightarrow> lock_tables" where
  "delete_by_repo_and_path repo_id path t =
     t\<lparr>locked_files := filter (\<lambda>l. \<not> (lf_repo_id l = repo_id \<and> lf_path l = path)) (locked_files t)\<rparr>"

text \<open>The row is addressed by its primary key; with the unique index that is its library and path.\<close>

definition update_locked_file_owner :: "LockedFile \<Rightarrow> int \<Rightarrow> int \<Rightarrow> lock_tables \<Rightarrow> lock_tables" where
  "update_locked_file_owner rec user_id locked_at t =
     t\<lparr>locked_files := map (\<lambda>l. if lf_repo_id l = lf_repo_id rec \<and> lf_path l = lf_path rec
        then l\<lparr>lf_user_id := user_id, lf_locked_at := locked_at\<rparr> else l) (locked_files t)\<rparr>"

definition upsert_lock_timestamp :: "int \<Rightarrow> string \<Rightarrow> lock_tables \<Rightarrow> lock_tables" where
  "upsert_lock_timestamp now repo_id t = t\<lparr>lock_timestamps := (lock_timestamps t)(repo_id \<mapsto> now)\<rparr>"

section \<open>Locking and unlocking\<close>

definition lock_file ::
    "(string \<rightharpoonup> int) \<Rightarrow> int \<Rightarrow> string \<Rightarrow> string \<Rightarrow> string \<Rightarrow> string \<Rightarrow> lock_tables \<Rightarrow> lock_tables result" where
  "lock_file user_by_email now repo_id path operation email t =
     rbind (ok_or (NotFound ''user not found'') (user_by_email email)) (\<lambda>user_id.
     if operation = ''lock'' then
       (case find_by_repo_and_path t repo_id path of
          None \<Rightarrow> Inr (create_lock repo_id path user_id now email t)
        | Some _ \<Rightarrow> Inr t)
     else if operation = ''unlock'' then Inr (delete_by_repo_and_path repo_id path t)
     else Inl (BadRequest (''unknown operation: '' @ operation)))"

text \<open>The HTTP handler in front of it, from the path of the query on.\<close>

definition lock_file_via_api_handler ::
    "(string \<rightharpoonup> int) \<Rightarrow> int \<Rightarrow> string \<Rightarrow> string \<Rightarrow> string \<Rightarrow> string \<Rightarrow> lock_tables \<Rightarrow> lock_tables result" where
  "lock_file_via_api_handler user_by_email now repo_id p operation email t =
     rbind (map_err (\<lambda>e. BadRequest (''Invalid path: '' @ e)) (safe_normalize_path p)) (\<lambda>path.
     lock_file user_by_email now repo_id path operation email t)"

definition lock_file_sync :: "int \<Rightarrow> string \<Rightarrow> string \<Rightarrow> int \<Rightarrow> lock_tables \<Rightarrow> lock_tables" where
  "lock_file_sync now repo_id path user_id t =
     (let t = (case find_by_repo_and_path t repo_id path of
          Some rec \<Rightarrow> update_locked_file_owner rec user_id now t
        | None \<Rightarrow> create_lock repo_id path user_id now [] t)
      in upsert_lock_timestamp now repo_id t)"

definition unlock_file_sync :: "int \<Rightarrow> string \<Rightarrow> string \<Rightarrow> int \<Rightarrow> lock_tables \<Rightarrow> lock_tables" where
  "unlock_file_sync now repo_id path user_id t =
     upsert_lock_timestamp now repo_id (delete_by_repo_and_path repo_id path t)"

section \<open>Checking a pushed tree\<close>

text \<open>\<open>fetch_objects_batched\<close> asks per chunk and collects the rows by id.\<close>

definition fetch_objects_batched :: "fs_objects \<Rightarrow> string \<Rightarrow> string list \<Rightarrow> (string \<times> fs_object) list" where
  "fetch_objects_batched db repo_id fs_ids = fetch_fs_object_map db repo_id fs_ids"

definition lock_frame ::
    "externs \<Rightarrow> (string \<rightharpoonup> int) \<Rightarrow> int \<Rightarrow> (string \<times> fs_object) list \<Rightarrow> string \<times> string \<Rightarrow>
     (string \<times> string) list \<Rightarrow> (string \<times> string) list result" where
  "lock_frame x locks user_id obj_map = (\<lambda>(fs_id, path) nexts.
     (case map_of obj_map fs_id of
        None \<Rightarrow> Inr nexts
      | Some obj \<Rightarrow>
          if obj_type obj = 1 then
            (case locks path of
               Some owner \<Rightarrow> if owner \<noteq> user_id then Inl (Locked path) else Inr nexts
             | None \<Rightarrow> Inr nexts)
          else if obj_type obj = 3 then
            rbind (map_err (\<lambda>e. Internal (''invalid dir object: '' @ e)) (parse_dir x (obj_data obj))) (\<lambda>dir_data.
            Inr (nexts @ map (\<lambda>entry. (de_id entry, child_of path (de_name entry))) (dirents dir_data)))
          else Inr nexts))"

definition lock_level ::
    "externs \<Rightarrow> fs_objects \<Rightarrow> string \<Rightarrow> (string \<rightharpoonup> int) \<Rightarrow> int \<Rightarrow> (string \<times> string) list \<Rightarrow> unit \<Rightarrow>
     ((string \<times> string) list \<times> unit) result" where
  "lock_level x db repo_id locks user_id frontier _ =
     (let obj_map = fetch_objects_batched db repo_id (filter (\<lambda>i. i \<noteq> EMPTY_SHA1) (map fst frontier)) in
      rbind (rfold (lock_frame x locks user_id obj_map) frontier []) (\<lambda>nexts. Inr (nexts, ())))"

definition check_commit_file_locks ::
    "tree_limits \<Rightarrow> externs \<Rightarrow> fs_objects \<Rightarrow> lock_tables \<Rightarrow> string \<Rightarrow> string \<Rightarrow> int \<Rightarrow> unit result" where
  "check_commit_file_locks lim x db t repo_id root_id user_id =
     (if root_id = EMPTY_SHA1 then Inr ()
      else if find_by_repo t repo_id = [] then Inr ()
      else
        let locks = map_of (rev (map (\<lambda>l. (lf_path l, lf_user_id l)) (find_by_repo t repo_id))) in
        bfs lim (lock_level x db repo_id locks user_id) new_guard [(root_id, [])] ())"

section \<open>The unique index\<close>

definition lock_key :: "LockedFile \<Rightarrow> string \<times> string" where
  "lock_key l = (lf_repo_id l, lf_path l)"

definition locks_distinct :: "lock_tables \<Rightarrow> bool" where
  "locks_distinct t \<longleftrightarrow> distinct (map lock_key (locked_files t))"

lemma find_lock_None: "find_by_repo_and_path t r p = None \<longleftrightarrow> (r, p) \<notin> lock_key ` set (locked_files t)"
  by (auto simp: find_by_repo_and_path_def find_None_iff lock_key_def)

lemma create_lock_distinct:
  "locks_distinct t \<Longrightarrow> find_by_repo_and_path t r p = None \<Longrightarrow> locks_distinct (create_lock r p u now n t)"
  by (auto simp: find_lock_None locks_distinct_def create_lock_def lock_key_def)

lemma delete_lock_distinct: "locks_distinct t \<Longrightarrow> locks_distinct (delete_by_repo_and_path r p t)"
  by (simp add: locks_distinct_def delete_by_repo_and_path_def distinct_map_filter)

lemma update_owner_keys: "map lock_key (locked_files (update_locked_file_owner rec u now t)) = map lock_key (locked_files t)"
  by (simp add: update_locked_file_owner_def lock_key_def)

text \<open>The operations a client can call, as steps.\<close>

datatype lock_op =
    ApiLock string string string string
  | SyncLock string string int
  | SyncUnlock string string int

fun apply_lock_op :: "(string \<rightharpoonup> int) \<Rightarrow> int \<Rightarrow> lock_op \<Rightarrow> lock_tables \<Rightarrow> lock_tables" where
  "apply_lock_op users now (ApiLock r p operation email) t =
     (case lock_file_via_api_handler users now r p operation email t of Inr t' \<Rightarrow> t' | Inl _ \<Rightarrow> t)"
| "apply_lock_op users now (SyncLock r p u) t = lock_file_sync now r p u t"
| "apply_lock_op users now (SyncUnlock r p u) t = unlock_file_sync now r p u t"

lemma lock_op_distinct: "locks_distinct t \<Longrightarrow> locks_distinct (apply_lock_op users now w t)"
proof (cases w)
  case (ApiLock r p operation email)
  assume "locks_distinct t"
  then show ?thesis using ApiLock
    by (auto simp: lock_file_via_api_handler_def lock_file_def rbind_eq_Inr_iff create_lock_distinct
        delete_lock_distinct split: sum.splits option.splits if_splits)
next
  case (SyncLock r p u)
  assume d: "locks_distinct t"
  have up: "locks_distinct (upsert_lock_timestamp now r t') = locks_distinct t'" for t'
    by (simp add: locks_distinct_def upsert_lock_timestamp_def)
  have own: "locks_distinct (update_locked_file_owner rec u now t)" for rec
    using d by (simp add: locks_distinct_def update_owner_keys)
  show ?thesis using SyncLock d own
    by (simp add: lock_file_sync_def Let_def up create_lock_distinct split: option.split)
next
  case (SyncUnlock r p u)
  assume "locks_distinct t"
  then show ?thesis using SyncUnlock delete_lock_distinct [of t r p]
    by (simp add: unlock_file_sync_def locks_distinct_def upsert_lock_timestamp_def)
qed

lemma find_lock_Some: "locks_distinct t \<Longrightarrow> find_by_repo_and_path t r p = Some l \<longleftrightarrow> l \<in> set (locked_files t) \<and> lock_key l = (r, p)"
proof -
  assume "locks_distinct t"
  then have "inj_on lock_key (set (locked_files t))" by (simp add: locks_distinct_def distinct_map)
  moreover have "find_by_repo_and_path t r p = Some l' \<Longrightarrow> l' \<in> set (locked_files t) \<and> lock_key l' = (r, p)" for l'
    by (auto simp: find_by_repo_and_path_def find_Some_iff lock_key_def)
  moreover have "find_by_repo_and_path t r p \<noteq> None" if "l \<in> set (locked_files t)" "lock_key l = (r, p)"
    using that image_eqI [of "(r, p)" lock_key l] unfolding find_lock_None by simp
  ultimately show ?thesis by (metis (no_types, lifting) inj_onD option.exhaust)
qed

section \<open>What the check guarantees\<close>

definition lock_free :: "fs_objects \<Rightarrow> string \<Rightarrow> (string \<rightharpoonup> int) \<Rightarrow> int \<Rightarrow> string \<times> string \<Rightarrow> bool" where
  "lock_free db r locks user = (\<lambda>(i, path). i \<noteq> EMPTY_SHA1 \<and> (\<exists>obj. db (r, i) = Some obj \<and> obj_type obj = 1) \<longrightarrow>
     locks path \<in> {None, Some user})"

lemma lock_frame_step:
  assumes "lock_frame x locks user om (i, q) nexts = Inr nexts'"
    and "map_of om i = (if i = EMPTY_SHA1 then None else db (r, i))"
  shows "lock_free db r locks user (i, q) \<and> children x db r (i, q) \<union> set nexts \<subseteq> set nexts'"
proof (cases "map_of om i")
  case None
  then show ?thesis using assms by (auto simp: lock_frame_def lock_free_def children_def split: if_splits)
next
  case (Some obj)
  then have row: "i \<noteq> EMPTY_SHA1" "db (r, i) = Some obj" using assms(2) by (auto split: if_splits)
  show ?thesis using assms(1) Some row
    by (auto simp: lock_frame_def lock_free_def children_def rbind_eq_Inr_iff split: if_splits option.splits)
qed

lemma lock_frames_step:
  assumes "rfold (lock_frame x locks user om) fs nexts = Inr nexts'"
    and "\<forall>f\<in>set fs. map_of om (fst f) = (if fst f = EMPTY_SHA1 then None else db (r, fst f))"
  shows "(\<forall>f\<in>set fs. lock_free db r locks user f \<and> children x db r f \<subseteq> set nexts') \<and> set nexts \<subseteq> set nexts'"
  using assms
proof (induction fs arbitrary: nexts)
  case (Cons f fs)
  obtain i q where f: "f = (i, q)" by (cases f)
  obtain n1 where s: "lock_frame x locks user om f nexts = Inr n1"
    and rest: "rfold (lock_frame x locks user om) fs n1 = Inr nexts'"
    using Cons.prems(1) by (auto simp: rbind_eq_Inr_iff)
  have "lock_free db r locks user (i, q) \<and> children x db r (i, q) \<union> set nexts \<subseteq> set n1"
    by (rule lock_frame_step [of x locks user om i q]) (use s f Cons.prems(2) in auto)
  then show ?case using Cons.IH [OF rest] Cons.prems(2) f by force
qed simp

interpretation lock_walk: level_walk "lock_level x db r locks user"
    "\<lambda>n fr acc. covered x db r root (lock_free db r locks user) (set fr)" for x db r locks user root
proof
  fix fr nexts n and acc acc' :: unit
  assume step: "lock_level x db r locks user fr acc = Inr (nexts, acc')"
    and inv: "covered x db r root (lock_free db r locks user) (set fr)"
  let ?om = "fetch_objects_batched db r (filter (\<lambda>i. i \<noteq> EMPTY_SHA1) (map fst fr))"
  have run: "rfold (lock_frame x locks user ?om) fr [] = Inr nexts"
    using step by (auto simp: lock_level_def Let_def rbind_eq_Inr_iff)
  have "(\<forall>f\<in>set fr. lock_free db r locks user f \<and> children x db r f \<subseteq> set nexts) \<and> set [] \<subseteq> set nexts"
    by (rule lock_frames_step [OF run]) (simp add: fetch_objects_batched_def map_of_fetch)
  then show "covered x db r root (lock_free db r locks user) (set nexts)"
    using inv covered_step [of x db r root _ "set fr" "set nexts"] by simp
qed

lemma lock_map:
  assumes "locks_distinct t"
  shows "map_of (rev (map (\<lambda>l. (lf_path l, lf_user_id l)) (find_by_repo t r))) p =
    map_option lf_user_id (find_by_repo_and_path t r p)"
proof (cases "find_by_repo_and_path t r p")
  case None
  then have "p \<notin> lf_path ` set (find_by_repo t r)"
    by (auto simp: find_lock_None find_by_repo_def lock_key_def)
  then show ?thesis using None by (simp add: map_of_eq_None_iff image_image)
next
  case (Some l)
  then have l: "l \<in> set (find_by_repo t r)" "lf_path l = p"
    using assms by (simp_all add: find_lock_Some find_by_repo_def lock_key_def)
  have "distinct (map lock_key (find_by_repo t r))"
    using assms by (simp add: locks_distinct_def find_by_repo_def distinct_map_filter)
  moreover have "inj_on snd (lock_key ` set (find_by_repo t r))"
    by (auto simp: inj_on_def find_by_repo_def lock_key_def)
  ultimately have "distinct (map (snd \<circ> lock_key) (find_by_repo t r))"
    by (simp add: distinct_map comp_inj_on)
  then have "distinct (map fst (rev (map (\<lambda>l. (lf_path l, lf_user_id l)) (find_by_repo t r))))"
    by (simp add: rev_map [symmetric] comp_def lock_key_def)
  then show ?thesis using l Some by (auto intro!: map_of_is_SomeI)
qed

definition is_stored_file :: "fs_objects \<Rightarrow> string \<Rightarrow> string \<Rightarrow> bool" where
  "is_stored_file db r i \<longleftrightarrow> i \<noteq> EMPTY_SHA1 \<and> (\<exists>obj. db (r, i) = Some obj \<and> obj_type obj = 1)"

lemma below_EMPTY: "below x db r (EMPTY_SHA1, q) f \<Longrightarrow> f = (EMPTY_SHA1, q)"
  by (erule below.cases) auto

text \<open>
  A pushed tree that passes the lock check holds no file, however deep, whose path another user
  has locked: every lock found at the path of one of its files belongs to the pushing user.
\<close>

theorem locked_files_not_pushed:
  assumes ok: "check_commit_file_locks lim x db t r root user = Inr ()" and keys: "locks_distinct t"
  shows "{path. \<exists>i. below x db r (root, []) (i, path) \<and> is_stored_file db r i} \<subseteq>
    {path. find_by_repo_and_path t r path = None \<or>
       (\<exists>l. find_by_repo_and_path t r path = Some l \<and> lf_user_id l = user)}"
proof (cases "root = EMPTY_SHA1 \<or> find_by_repo t r = []")
  case True
  then show ?thesis
  proof
    assume "root = EMPTY_SHA1"
    then show ?thesis by (auto simp: is_stored_file_def dest: below_EMPTY)
  next
    assume "find_by_repo t r = []"
    then have "find_by_repo_and_path t r path = None" for path
      by (auto simp: find_lock_None find_by_repo_def filter_empty_conv lock_key_def)
    then show ?thesis by simp
  qed
next
  case False
  define locks where "locks = map_of (rev (map (\<lambda>l. (lf_path l, lf_user_id l)) (find_by_repo t r)))"
  have run: "bfs lim (lock_level x db r locks user) new_guard [(root, [])] () = Inr ()"
    using ok False by (simp add: check_commit_file_locks_def locks_def Let_def)
  have "covered x db r (root, []) (lock_free db r locks user) (set [])"
    using lock_walk.bfs_result [OF run, of "(root, [])"] by (simp add: covered_start new_guard_def)
  then have "locks path \<in> {None, Some user}" if "below x db r (root, []) (i, path)" "is_stored_file db r i" for i path
    using that by (auto simp: covered_def lock_free_def is_stored_file_def)
  then show ?thesis by (fastforce simp: locks_def lock_map [OF keys] map_option_case split: option.splits)
qed

section \<open>Locks taken over the API\<close>

text \<open>The API stores canonical paths, which start with a slash; the walk above compares them with
  paths that do not.\<close>

lemma safe_normalize_slash: "safe_normalize_path p = Inr q \<Longrightarrow> starts_with q [slash]"
  by (auto simp: safe_normalize_path_def Let_def starts_with_def split: if_splits
      elim!: canonicalize_path_cases [unfolded path_of_def])

definition plain_names :: "externs \<Rightarrow> fs_objects \<Rightarrow> string \<Rightarrow> bool" where
  "plain_names x db r \<longleftrightarrow> (\<forall>i obj d e. db (r, i) = Some obj \<longrightarrow> parse_dir x (obj_data obj) = Inr d \<longrightarrow>
     e \<in> set (dirents d) \<longrightarrow> \<not> starts_with (de_name e) [slash])"

definition path_ok :: "string \<times> string \<Rightarrow> bool" where
  "path_ok f \<longleftrightarrow> \<not> starts_with (snd f) [slash]"

lemma child_of_ok: "\<not> starts_with q [slash] \<Longrightarrow> \<not> starts_with n [slash] \<Longrightarrow> \<not> starts_with (child_of q n) [slash]"
  by (cases q) (auto simp: child_of_def starts_with_def)

lemma lock_frame_ok:
  assumes "plain_names x db r" "path_ok f" "\<And>i obj. map_of om i = Some obj \<Longrightarrow> db (r, i) = Some obj"
    and "lock_frame x locks user om f nexts = Inr nexts'" "\<forall>g\<in>set nexts. path_ok g"
  shows "\<forall>g\<in>set nexts'. path_ok g"
proof (cases "map_of om (fst f)")
  case (Some obj)
  then have row: "db (r, fst f) = Some obj" using assms(3) by blast
  show ?thesis
  proof
    fix g assume "g \<in> set nexts'"
    then consider "g \<in> set nexts" | d e where "parse_dir x (obj_data obj) = Inr d" "e \<in> set (dirents d)"
        "g = (de_id e, child_of (snd f) (de_name e))"
      using assms(4) Some
      by (auto simp: lock_frame_def case_prod_unfold rbind_eq_Inr_iff split: if_splits option.splits)
    then show "path_ok g"
    proof cases
      case 2
      then have "\<not> starts_with (de_name e) [slash]" using row assms(1) unfolding plain_names_def by blast
      then show ?thesis using 2 assms(2) child_of_ok by (simp add: path_ok_def)
    qed (use assms(5) in blast)
  qed
qed (use assms(4,5) in \<open>simp add: lock_frame_def case_prod_unfold\<close>)

lemma lock_frame_error:
  "lock_frame x locks user om f nexts = Inl (Locked p) \<Longrightarrow> p = snd f \<and> locks p \<noteq> None"
  by (auto simp: lock_frame_def case_prod_unfold map_err_def rbind_def split: option.splits if_splits sum.splits)

text \<open>
  A lock taken over the HTTP API never stops a push: while all locks of a library were stored by
  the API handler, and no entry name starts with a slash, the check refuses no tree because of a
  lock. The handler stores the canonical path, with its leading slash, and the check looks up the
  path without it.
\<close>

theorem api_locks_not_enforced:
  assumes api: "\<forall>l\<in>set (find_by_repo t r). \<exists>p. safe_normalize_path p = Inr (lf_path l)"
    and names: "plain_names x db r"
  shows "check_commit_file_locks lim x db t r root user \<noteq> Inl (Locked path)"
proof
  define locks where "locks = map_of (rev (map (\<lambda>l. (lf_path l, lf_user_id l)) (find_by_repo t r)))"
  have locks: "starts_with p [slash]" if "locks p \<noteq> None" for p
  proof -
    from that obtain l where "l \<in> set (find_by_repo t r)" "p = lf_path l"
      by (auto simp: locks_def dest!: map_of_SomeD)
    then show ?thesis using api safe_normalize_slash by blast
  qed
  let ?I = "\<lambda>fr (acc :: unit). \<forall>f\<in>set fr. path_ok f"
  assume "check_commit_file_locks lim x db t r root user = Inl (Locked path)"
  then have run: "bfs lim (lock_level x db r locks user) new_guard [(root, [])] () = Inl (Locked path)"
    by (auto simp: check_commit_file_locks_def locks_def Let_def split: if_splits)
  have om: "map_of (fetch_objects_batched db r ids) i = Some obj \<Longrightarrow> db (r, i) = Some obj" for ids i obj
    by (simp add: fetch_objects_batched_def map_of_fetch split: if_splits)
  have step: "\<forall>fr acc nexts acc'. lock_level x db r locks user fr acc = Inr (nexts, acc') \<longrightarrow> ?I fr acc \<longrightarrow> ?I nexts acc'"
  proof (intro allI impI)
    fix fr nexts and acc acc' :: unit
    assume l: "lock_level x db r locks user fr acc = Inr (nexts, acc')" and ok: "?I fr acc"
    from l have run: "rfold (lock_frame x locks user (fetch_objects_batched db r (filter (\<lambda>i. i \<noteq> EMPTY_SHA1) (map fst fr)))) fr [] = Inr nexts"
      by (auto simp: lock_level_def Let_def rbind_eq_Inr_iff)
    show "?I nexts acc'"
    proof (rule rfold_invariant [OF run])
      show "\<forall>g\<in>set []. path_ok g" by simp
      fix f u v assume "f \<in> set fr" and u: "\<forall>g\<in>set u. path_ok g"
        and s: "lock_frame x locks user (fetch_objects_batched db r (filter (\<lambda>i. i \<noteq> EMPTY_SHA1) (map fst fr))) f u = Inr v"
      then have "path_ok f" using ok by blast
      then show "\<forall>g\<in>set v. path_ok g" by (rule lock_frame_ok [OF names _ om s u])
    qed
  qed
  have "?I [(root, [])] ()" by (simp add: path_ok_def starts_with_def)
  from bfs_error [OF run this step] obtain fr acc where fr: "\<forall>f\<in>set fr. path_ok f"
      and err: "lock_level x db r locks user fr acc = Inl (Locked path)"
    by blast
  from err have "rfold (lock_frame x locks user (fetch_objects_batched db r (filter (\<lambda>i. i \<noteq> EMPTY_SHA1) (map fst fr)))) fr [] = Inl (Locked path)"
    by (auto simp: lock_level_def Let_def rbind_eq_Inl_iff)
  from rfold_error [OF this] obtain f s where "f \<in> set fr"
      "lock_frame x locks user (fetch_objects_batched db r (filter (\<lambda>i. i \<noteq> EMPTY_SHA1) (map fst fr))) f s = Inl (Locked path)"
    by blast
  then have "path = snd f" "locks path \<noteq> None" "path_ok f" using lock_frame_error fr by blast+
  then show False using locks [of path] by (simp add: path_ok_def)
qed

section \<open>A locked file\<close>

text \<open>One directory with one stored file, and an API lock of user 2 on it: user 1 may push.\<close>

definition lock_db :: fs_objects where
  "lock_db = (\<lambda>(r, i). if r = ''r'' \<and> i = ''S'' then Some \<lparr>obj_type = 3, obj_data = ''S''\<rparr>
     else if r = ''r'' \<and> i = ''F'' then Some \<lparr>obj_type = 1, obj_data = ''F''\<rparr> else None)"

definition lock_x :: externs where
  "lock_x = demo_externs [(''S'', mk_dir [demo_file ''F'' ''f''])]"

definition no_locks :: lock_tables where "no_locks = \<lparr>locked_files = [], lock_timestamps = Map.empty\<rparr>"

definition api_locked :: lock_tables where
  "api_locked = apply_lock_op [''bob'' \<mapsto> 2] 7 (ApiLock ''r'' ''/f'' ''lock'' ''bob'') no_locks"

definition sync_locked :: lock_tables where
  "sync_locked = apply_lock_op [''bob'' \<mapsto> 2] 7 (SyncLock ''r'' ''f'' 2) no_locks"

theorem locked_files_not_pushed_witness:
  "check_commit_file_locks (configure 4 9) lock_x lock_db sync_locked ''r'' ''S'' 1 = Inl (Locked ''f'') \<and>
   check_commit_file_locks (configure 4 9) lock_x lock_db sync_locked ''r'' ''S'' 2 = Inr () \<and>
   {path. \<exists>i. below lock_x lock_db ''r'' (''S'', []) (i, path) \<and> is_stored_file lock_db ''r'' i} \<subseteq>
     {path. find_by_repo_and_path sync_locked ''r'' path = None \<or>
       (\<exists>l. find_by_repo_and_path sync_locked ''r'' path = Some l \<and> lf_user_id l = 2)}"
proof -
  have h: "check_commit_file_locks (configure 4 9) lock_x lock_db sync_locked ''r'' ''S'' 2 = Inr ()" by code_simp
  have e: "check_commit_file_locks (configure 4 9) lock_x lock_db sync_locked ''r'' ''S'' 1 = Inl (Locked ''f'')" by code_simp
  have d: "locks_distinct sync_locked" by code_simp
  show ?thesis using e h locked_files_not_pushed [OF h d] by simp
qed

theorem api_locks_not_enforced_witness:
  "map lf_path (find_by_repo api_locked ''r'') = [''/f''] \<and> map lf_user_id (find_by_repo api_locked ''r'') = [2] \<and>
   check_commit_file_locks (configure 4 9) lock_x lock_db api_locked ''r'' ''S'' 1 \<noteq> Inl (Locked ''f'')"
proof -
  have "find_by_repo api_locked ''r'' = [\<lparr>lf_repo_id = ''r'', lf_path = ''/f'', lf_user_id = 2, lf_locked_at = 7, lf_owner_name = ''bob''\<rparr>]"
    by code_simp
  then have rows: "map lf_path (find_by_repo api_locked ''r'') = [''/f'']" "map lf_user_id (find_by_repo api_locked ''r'') = [2]"
    by simp_all
  have "safe_normalize_path ''/f'' = Inr ''/f''" by code_simp
  have api: "\<forall>l\<in>set (find_by_repo api_locked ''r''). \<exists>p. safe_normalize_path p = Inr (lf_path l)"
  proof
    fix l assume "l \<in> set (find_by_repo api_locked ''r'')"
    then have "lf_path l \<in> set (map lf_path (find_by_repo api_locked ''r''))" by simp
    then have "lf_path l = ''/f''" unfolding rows(1) by simp
    then show "\<exists>p. safe_normalize_path p = Inr (lf_path l)"
      using \<open>safe_normalize_path ''/f'' = Inr ''/f''\<close> by (intro exI [of _ "''/f''"]) simp
  qed
  have "plain_names lock_x lock_db ''r''"
    by (auto simp: plain_names_def lock_x_def lock_db_def starts_with_def split: if_splits)
  from api_locks_not_enforced [OF api this] rows show ?thesis by simp
qed

end
