(* ===== verification/SyncBranch.thy ===== *)
theory SyncBranch
  imports Merge TreeDiff TreeSize Locks
begin

text \<open>
  Accepting a push: \<open>put_commit\<close>, \<open>merge_branch\<close>, \<open>create_merge_commit\<close> and \<open>update_branch\<close> of
  \<open>server/src/service/sync/mod.rs\<close>, composed from the merge, the checks, the compare-and-swap, the
  size accounting and the tree diff.

  The environment holds what is outside the library's tables: the limits, the third-party
  functions, the block store, the locks, the clocks and, as \<open>br_others k\<close>, whatever other writers do
  to the tables between reading HEAD and swapping it in attempt \<open>k\<close>. Index scheduling is not
  modelled. A merge that fails reports its error only: the objects it stored before are reachable
  from no commit and are left out of the resulting tables.
\<close>

section \<open>Environment\<close>

record branch_env =
  br_lim :: tree_limits
  br_ext :: externs
  br_has_block :: "string \<Rightarrow> bool"
  br_locks :: lock_tables
  br_now :: "nat \<Rightarrow> int"
  br_merge_now :: "nat \<Rightarrow> nat \<Rightarrow> int"
  br_nickname_of :: "string \<Rightarrow> string option"
  br_local_time :: "int \<Rightarrow> string option"
  br_others :: "nat \<Rightarrow> tables \<Rightarrow> tables"
  br_unique_err :: string

text \<open>A fallible step on the tables, and the sequence of two: \<open>?\<close> after an \<open>await\<close>.\<close>

type_synonym 'a step = "tables \<Rightarrow> 'a result \<times> tables"

definition sbind :: "'a step \<Rightarrow> ('a \<Rightarrow> 'b step) \<Rightarrow> 'b step" where
  "sbind m f t = (case m t of (Inl e, t) \<Rightarrow> (Inl e, t) | (Inr v, t) \<Rightarrow> f v t)"

definition sreturn :: "'a result \<Rightarrow> 'a step" where
  "sreturn v t = (v, t)"

lemma sbind_Inr: "sbind m f t = (Inr w, t') \<longleftrightarrow> (\<exists>v u. m t = (Inr v, u) \<and> f v u = (Inr w, t'))"
  by (auto simp: sbind_def split: prod.splits sum.splits)

lemma sreturn_Inr: "sreturn v t = (Inr w, t') \<longleftrightarrow> v = Inr w \<and> t' = t"
  by (auto simp: sreturn_def)

section \<open>Commits\<close>

definition find_commit :: "tables \<Rightarrow> string \<Rightarrow> string \<Rightarrow> commit_row option" where
  "find_commit t repo_id commit_id = t_commits t (repo_id, commit_id)"

definition put_commit :: "string \<Rightarrow> CommitData \<Rightarrow> unit step" where
  "put_commit unique_err data t =
     (case find_commit t (cd_repo_id data) (cd_commit_id data) of
        Some _ \<Rightarrow> (Inr (), t)
      | None \<Rightarrow> insert_commit unique_err (cd_repo_id data)
          \<lparr>cm_commit_id = cd_commit_id data, cm_root_id = cd_root_id data, cm_parent_id = cd_parent_id data,
           cm_second_parent_id = cd_second_parent_id data, cm_creator_name = cd_creator_name data,
           cm_creator = cd_creator data, cm_description = cd_description data, cm_ctime = cd_ctime data,
           cm_version = as_i8 (cd_version data), cm_new_merge = map_option (\<lambda>v. v \<noteq> 0) (cd_new_merge data),
           cm_conflict = map_option (\<lambda>v. v \<noteq> 0) (cd_conflict data)\<rparr> t)"

definition AUTO_MERGE_DESCRIPTION :: string where "AUTO_MERGE_DESCRIPTION = ''Auto merge by system''"

definition create_merge_commit ::
    "branch_env \<Rightarrow> int \<Rightarrow> string \<Rightarrow> repo_row \<Rightarrow> commit_row \<Rightarrow> string \<Rightarrow> string \<Rightarrow> bool \<Rightarrow> string step" where
  "create_merge_commit env ctime repo_id repo_model new_commit head_id new_root conflict t =
     (let data = (mk_commit repo_id new_root (cm_creator_name new_commit) EMPTY_SHA1 AUTO_MERGE_DESCRIPTION
            ctime (Some head_id) (rp_version repo_model))
            \<lparr>cd_second_parent_id := Some (cm_commit_id new_commit),
             cd_conflict := (if conflict then Some 1 else None), cd_new_merge := Some 1\<rparr>;
          commit_id = compute_commit_id (br_ext env) data in
      (case find_commit t repo_id commit_id of
         Some _ \<Rightarrow> (Inr commit_id, t)
       | None \<Rightarrow> sbind (insert_commit (br_unique_err env) repo_id
           \<lparr>cm_commit_id = commit_id, cm_root_id = new_root, cm_parent_id = Some head_id,
            cm_second_parent_id = Some (cm_commit_id new_commit), cm_creator_name = cm_creator_name new_commit,
            cm_creator = EMPTY_SHA1, cm_description = AUTO_MERGE_DESCRIPTION, cm_ctime = ctime,
            cm_version = as_i8 (rp_version repo_model), cm_new_merge = Some True,
            cm_conflict = (if conflict then Some True else None)\<rparr>) (\<lambda>_. sreturn (Inr commit_id)) t))"

section \<open>Merging with HEAD\<close>

record branch_target =
  bt_head :: string
  bt_root :: string
  bt_diff_base :: "string option"
  bt_delta :: int
  bt_kept_deleted :: bool

definition merge_env_of :: "branch_env \<Rightarrow> nat \<Rightarrow> string \<Rightarrow> commit_row \<Rightarrow> merge_env" where
  "merge_env_of env attempt repo_id new_commit =
     \<lparr>me_ext = br_ext env, me_lim = br_lim env, me_repo_id = repo_id, me_remote_root = cm_root_id new_commit,
      me_creator_name = cm_creator_name new_commit, me_nickname_of = br_nickname_of env,
      me_now = br_merge_now env attempt, me_local_time = br_local_time env\<rparr>"

definition unwrap_or_empty :: "string option \<Rightarrow> string" where
  "unwrap_or_empty v = (case v of Some i \<Rightarrow> i | None \<Rightarrow> EMPTY_SHA1)"

definition merge_branch ::
    "branch_env \<Rightarrow> nat \<Rightarrow> string \<Rightarrow> repo_row \<Rightarrow> commit_row \<Rightarrow> string option \<Rightarrow> string option \<Rightarrow> branch_target step" where
  "merge_branch env attempt repo_id repo_model new_commit current_head base_root_id t =
     (case current_head of
        None \<Rightarrow> (Inl (Internal ''merge without HEAD''), t)
      | Some head_id \<Rightarrow>
          (case find_commit t repo_id head_id of
             None \<Rightarrow> (Inl (Internal ''head commit not found''), t)
           | Some head_commit \<Rightarrow>
               (case merge_trees (merge_env_of env attempt repo_id new_commit) (unwrap_or_empty base_root_id)
                       (cm_root_id head_commit) (t_objects t) of
                  Inl e \<Rightarrow> (Inl e, t)
                | Inr (outcome, objects) \<Rightarrow>
                    let t = t\<lparr>t_objects := objects\<rparr> in
                    sbind (sreturn (check_commit_blocks (br_lim env) (br_ext env) objects (br_has_block env) repo_id
                             (merged_root outcome) (Some (cm_root_id head_commit)) ([], 0))) (\<lambda>(missing, delta).
                    if missing \<noteq> [] then sreturn (Inl BlockMissing)
                    else
                      sbind (create_merge_commit env (br_now env attempt) repo_id repo_model new_commit head_id
                               (merged_root outcome) (out_conflict outcome)) (\<lambda>commit_id.
                      sreturn (Inr \<lparr>bt_head = commit_id, bt_root = merged_root outcome,
                        bt_diff_base = Some (cm_root_id head_commit), bt_delta = delta,
                        bt_kept_deleted = out_kept_deleted outcome\<rparr>))) t)))"

section \<open>The activity log\<close>

record ActivityItem =
  ai_op_type :: string
  ai_obj_type :: string
  ai_path :: string
  ai_old_path :: "string option"
  ai_size :: "int option"
  ai_obj_id :: "string option"
  ai_merged :: bool
  ai_merge_kept :: bool

definition EXCLUDED_ACTIVITY_PREFIXES :: "string list" where
  "EXCLUDED_ACTIVITY_PREFIXES = [''/_Internal'', ''/images/sdoc'', ''/images/auto-upload'']"

definition merge_kept_path :: "(string \<times> bool) list \<Rightarrow> string \<Rightarrow> bool" where
  "merge_kept_path kept_paths path = list_ex (\<lambda>(p, is_dir). path = p \<or>
     is_dir \<and> starts_with path p \<and> starts_with (drop (length p) path) [slash]) kept_paths"

definition activity_items :: "string \<Rightarrow> bool \<Rightarrow> (string \<times> bool) list \<Rightarrow> FsChange list \<Rightarrow> ActivityItem list" where
  "activity_items commit_desc is_merge kept_paths changes =
     (let is_reverted = starts_with commit_desc ''Reverted'' \<or> starts_with commit_desc ''Recovered'' in
      List.map_filter (\<lambda>c.
        let opr = (if is_reverted \<and> (op_type c = ''create'' \<or> op_type c = ''edit'') then ''recover'' else op_type c) in
        if superseded c then None
        else if list_ex (starts_with (ch_path c)) EXCLUDED_ACTIVITY_PREFIXES then None
        else Some \<lparr>ai_op_type = opr, ai_obj_type = ch_obj_type c, ai_path = ch_path c, ai_old_path = old_path c,
               ai_size = Some (ch_size c), ai_obj_id = Some (ch_obj_id c), ai_merged = is_merge,
               ai_merge_kept = is_merge \<and> merge_kept_path kept_paths (ch_path c)\<rparr>) changes)"

definition changes_or_default :: "FsChange list result \<Rightarrow> FsChange list" where
  "changes_or_default v = (case v of Inr cs \<Rightarrow> cs | Inl _ \<Rightarrow> [])"

definition kept_paths_of ::
    "branch_env \<Rightarrow> tables \<Rightarrow> string \<Rightarrow> bool \<Rightarrow> string option \<Rightarrow> branch_target \<Rightarrow> (string \<times> bool) list" where
  "kept_paths_of env t repo_id is_merge base_root_id target =
     (if is_merge \<and> bt_kept_deleted target then
        (case (base_root_id, bt_diff_base target) of
           (Some base, Some head) \<Rightarrow>
             map (\<lambda>c. (ch_path c, ch_obj_type c = ''dir'')) (filter (\<lambda>c. op_type c = ''delete'')
               (changes_or_default (diff_trees (br_lim env) (br_ext env) (t_objects t) repo_id (Some base) head)))
         | _ \<Rightarrow> [])
      else [])"

section \<open>Updating the branch\<close>

definition publish_repo_update :: "string \<Rightarrow> string \<Rightarrow> tables \<Rightarrow> tables" where
  "publish_repo_update repo_id head t = t\<lparr>t_published := t_published t @ [(repo_id, head)]\<rparr>"

text \<open>What follows a won swap.\<close>

definition branch_moved ::
    "branch_env \<Rightarrow> string \<Rightarrow> string \<Rightarrow> bool \<Rightarrow> string option \<Rightarrow> branch_target \<Rightarrow> (bool \<times> ActivityItem list) step" where
  "branch_moved env repo_id commit_desc is_merge base_root_id target t =
     (case adjust_repo_size (br_lim env) (br_ext env) repo_id (bt_delta target) t of
        Inl e \<Rightarrow> (Inl e, t)
      | Inr t \<Rightarrow>
          let changes = changes_or_default (diff_trees (br_lim env) (br_ext env) (t_objects t) repo_id
                (bt_diff_base target) (bt_root target));
              items = activity_items commit_desc is_merge (kept_paths_of env t repo_id is_merge base_root_id target) changes
          in (Inr (False, items), publish_repo_update repo_id (bt_head target) t))"

definition MAX_BRANCH_RETRY :: nat where "MAX_BRANCH_RETRY = 3"

text \<open>One attempt up to the swap: \<open>None\<close> when the branch already is at \<open>new_head\<close>.\<close>

definition branch_attempt ::
    "branch_env \<Rightarrow> string \<Rightarrow> string \<Rightarrow> commit_row \<Rightarrow> string option \<Rightarrow> int \<Rightarrow> nat \<Rightarrow>
     (string option \<times> bool \<times> branch_target \<times> int) option step" where
  "branch_attempt env repo_id new_head new_commit base_root_id size_delta attempt t =
     (case t_repos t repo_id of
        None \<Rightarrow> (Inl (Internal ''repo not found''), t)
      | Some repo_model \<Rightarrow>
          let current_head = (case rp_head_commit_id repo_model of
                Some head \<Rightarrow> if head \<noteq> EMPTY_SHA1 then Some head else None | None \<Rightarrow> None) in
          if current_head = Some new_head then (Inr None, t)
          else
            let parent_matches_head = (cm_parent_id new_commit \<noteq> None \<and> cm_parent_id new_commit = current_head);
                is_merge = (current_head \<noteq> None \<and> \<not> parent_matches_head) in
            sbind (if \<not> is_merge
                   then sreturn (Inr \<lparr>bt_head = new_head, bt_root = cm_root_id new_commit,
                          bt_diff_base = base_root_id, bt_delta = size_delta, bt_kept_deleted = False\<rparr>)
                   else merge_branch env attempt repo_id repo_model new_commit current_head base_root_id) (\<lambda>target t.
            sbind (if is_merge
                   then sreturn (rbind (ok_or (Internal ''merged commit not found'') (find_commit t repo_id (bt_head target)))
                          (\<lambda>c. Inr (cm_ctime c)))
                   else sreturn (Inr (cm_ctime new_commit))) (\<lambda>updated_at.
            sreturn (Inr (Some (current_head, is_merge, target, updated_at)))) t) t)"

definition concurrent_error :: "string \<Rightarrow> AppError" where
  "concurrent_error repo_id = Internal (''repository '' @ repo_id @
     '' HEAD was updated concurrently more than '' @ show_nat MAX_BRANCH_RETRY @ '' times'')"

function branch_loop ::
    "branch_env \<Rightarrow> string \<Rightarrow> string \<Rightarrow> string \<Rightarrow> commit_row \<Rightarrow> string option \<Rightarrow> int \<Rightarrow> nat \<Rightarrow>
     (bool \<times> ActivityItem list) step" where
  "branch_loop env repo_id new_head commit_desc new_commit base_root_id size_delta attempt t =
     (case branch_attempt env repo_id new_head new_commit base_root_id size_delta attempt t of
        (Inl e, t) \<Rightarrow> (Inl e, t)
      | (Inr None, t) \<Rightarrow> (Inr (True, []), publish_repo_update repo_id new_head t)
      | (Inr (Some (current_head, is_merge, target, updated_at)), t) \<Rightarrow>
          (case test_and_update_head_commit (br_now env attempt) repo_id current_head (bt_head target) updated_at
                  (br_others env attempt t) of
             (True, t) \<Rightarrow> branch_moved env repo_id commit_desc is_merge base_root_id target t
           | (False, t) \<Rightarrow>
               if attempt > MAX_BRANCH_RETRY then (Inl (concurrent_error repo_id), t)
               else branch_loop env repo_id new_head commit_desc new_commit base_root_id size_delta (attempt + 1) t))"
  by pat_completeness auto
termination
  by (relation "measure (\<lambda>(env, r, h, desc, c, b, d, attempt, t). MAX_BRANCH_RETRY + 1 - attempt)") auto

declare branch_loop.simps [simp del]

text \<open>The checks before the loop: the root object, the base tree, blocks, locks and the parent.\<close>

definition base_root_of :: "tables \<Rightarrow> string \<Rightarrow> commit_row \<Rightarrow> string option" where
  "base_root_of t repo_id new_commit =
     (case cm_parent_id new_commit of
        Some parent_id \<Rightarrow> if parent_id \<noteq> EMPTY_SHA1 then map_option cm_root_id (find_commit t repo_id parent_id) else None
      | None \<Rightarrow> None)"

definition check_root :: "tables \<Rightarrow> string \<Rightarrow> string \<Rightarrow> unit result" where
  "check_root t repo_id root_id =
     (if root_id \<noteq> EMPTY_SHA1 then
        (case t_objects t (repo_id, root_id) of
           Some obj \<Rightarrow> if obj_type obj = as_i8 SEAF_METADATA_TYPE_DIR then Inr ()
                       else Inl (BadRequest ''commit root is not a directory object'')
         | None \<Rightarrow> Inl BlockMissing)
      else Inr ())"

definition update_branch ::
    "branch_env \<Rightarrow> string \<Rightarrow> string \<Rightarrow> int \<Rightarrow> string \<Rightarrow> (bool \<times> ActivityItem list) step" where
  "update_branch env repo_id new_head user_id commit_desc t =
     sbind (sreturn (ok_or (Internal ''commit not found'') (find_commit t repo_id new_head))) (\<lambda>new_commit.
     sbind (sreturn (check_root t repo_id (cm_root_id new_commit))) (\<lambda>_.
     let base_root_id = base_root_of t repo_id new_commit in
     sbind (sreturn (check_commit_blocks (br_lim env) (br_ext env) (t_objects t) (br_has_block env) repo_id
              (cm_root_id new_commit) base_root_id ([], 0))) (\<lambda>(missing, size_delta).
     if missing \<noteq> [] then sreturn (Inl BlockMissing)
     else
       sbind (sreturn (check_commit_file_locks (br_lim env) (br_ext env) (t_objects t) (br_locks env) repo_id
                (cm_root_id new_commit) user_id)) (\<lambda>_.
       if (case cm_parent_id new_commit of Some parent_id \<Rightarrow> parent_id \<noteq> EMPTY_SHA1 \<and> base_root_id = None | None \<Rightarrow> False)
       then sreturn (Inl (BadRequest ''parent commit not found''))
       else branch_loop env repo_id new_head commit_desc new_commit base_root_id size_delta 1)))) t"

end
