(* ===== verification/SyncBranchLaws.thy ===== *)
theory SyncBranchLaws
  imports SyncBranch
begin

text \<open>
  What accepting a push does to HEAD, whatever other writers do in between: \<open>update_branch\<close> moves
  HEAD only from the commit it has just read, to the uploaded commit or to a merge with that HEAD.
\<close>

section \<open>The swap\<close>

lemma swap_won:
  "test_and_update_head_commit now r from_id target at u = (True, t) \<longleftrightarrow>
   head_of u r = Some from_id \<and> (\<exists>rp. t_repos u r = Some rp \<and> t = u\<lparr>t_repos := (t_repos u)(r \<mapsto>
     rp\<lparr>rp_head_commit_id := Some target, rp_updated_at := normalized_updated_at now at\<rparr>)\<rparr>)"
  by (auto simp: test_and_update_head_commit_def head_of_def split: option.splits)

text \<open>What only HEAD and the size of library \<open>r\<close>, and the broadcasts, may differ in.\<close>

definition same_but :: "string \<Rightarrow> tables \<Rightarrow> tables \<Rightarrow> bool" where
  "same_but r u t \<longleftrightarrow> t_commits t = t_commits u \<and> t_objects t = t_objects u \<and> (\<forall>i. i \<noteq> r \<longrightarrow> t_repos t i = t_repos u i)"

lemma adjust_size_same:
  "adjust_repo_size lim x r delta t = Inr t' \<Longrightarrow> same_but r t t' \<and> head_of t' r = head_of t r \<and> t_published t' = t_published t"
  by (auto simp: adjust_repo_size_def adjust_size_def same_but_def head_of_def rbind_eq_Inr_iff split: if_splits)

lemma branch_moved_Inr:
  assumes "branch_moved env r desc m base target t = (Inr (b, items), t')"
  shows "\<not> b \<and> same_but r t t' \<and> head_of t' r = head_of t r \<and> t_published t' = t_published t @ [(r, bt_head target)]"
proof -
  from assms obtain u where u: "adjust_repo_size (br_lim env) (br_ext env) r (bt_delta target) t = Inr u"
    and t': "\<not> b" "t' = publish_repo_update r (bt_head target) u"
    by (auto simp: branch_moved_def Let_def split: sum.splits)
  then show ?thesis using adjust_size_same [OF u]
    by (simp add: publish_repo_update_def same_but_def head_of_def)
qed

section \<open>Merging\<close>

text \<open>The commit \<open>target\<close> in \<open>v\<close> records the merge of the upload \<open>c\<close> with the HEAD \<open>h\<close> of \<open>w\<close>: its tree
  is the three-way merge of the two trees over the base, and its parents are \<open>h\<close> and the upload;
  unless a commit of that id was already there.\<close>

definition merged_onto ::
    "branch_env \<Rightarrow> nat \<Rightarrow> string \<Rightarrow> commit_row \<Rightarrow> string option \<Rightarrow> string \<Rightarrow> tables \<Rightarrow> string \<Rightarrow> tables \<Rightarrow> bool" where
  "merged_onto env k r c base h w target v \<longleftrightarrow>
     (\<exists>head_commit outcome. t_commits w (r, h) = Some head_commit \<and>
        merge_trees (merge_env_of env k r c) (unwrap_or_empty base) (cm_root_id head_commit) (t_objects w)
          = Inr (outcome, t_objects v) \<and>
        (if t_commits w (r, target) = None
         then \<exists>row. t_commits v = (t_commits w)((r, target) \<mapsto> row) \<and> cm_root_id row = merged_root outcome \<and>
                cm_parent_id row = Some h \<and> cm_second_parent_id row = Some (cm_commit_id c) \<and> cm_new_merge row = Some True
         else t_commits v = t_commits w))"

lemma create_merge_commit_Inr:
  assumes "create_merge_commit env now r rp c h root conflict w = (Inr target, v)"
  shows "t_objects v = t_objects w \<and> t_repos v = t_repos w \<and>
    (if t_commits w (r, target) = None
     then \<exists>row. t_commits v = (t_commits w)((r, target) \<mapsto> row) \<and> cm_root_id row = root \<and>
            cm_parent_id row = Some h \<and> cm_second_parent_id row = Some (cm_commit_id c) \<and> cm_new_merge row = Some True
     else t_commits v = t_commits w)"
  using assms
  by (auto simp: create_merge_commit_def Let_def find_commit_def sbind_Inr sreturn_Inr insert_commit_def
      split: option.splits)

lemma merge_branch_Inr:
  assumes "merge_branch env k r rp c head base w = (Inr target, v)"
  shows "t_repos v = t_repos w \<and> (\<exists>h. head = Some h \<and> merged_onto env k r c base h w (bt_head target) v)"
proof -
  obtain h where h: "head = Some h" using assms by (cases head) (auto simp: merge_branch_def)
  obtain hc where hc: "t_commits w (r, h) = Some hc"
    using assms h by (cases "t_commits w (r, h)") (auto simp: merge_branch_def find_commit_def)
  obtain outcome objs where m: "merge_trees (merge_env_of env k r c) (unwrap_or_empty base) (cm_root_id hc) (t_objects w)
      = Inr (outcome, objs)"
    using assms h hc
    by (cases "merge_trees (merge_env_of env k r c) (unwrap_or_empty base) (cm_root_id hc) (t_objects w)")
      (auto simp: merge_branch_def find_commit_def)
  obtain cid where cid: "create_merge_commit env (br_now env k) r rp c h (merged_root outcome) (out_conflict outcome)
      (w\<lparr>t_objects := objs\<rparr>) = (Inr cid, v)" "bt_head target = cid"
    using assms h hc m
    by (auto simp: merge_branch_def find_commit_def Let_def sbind_Inr sreturn_Inr split: if_splits)
  show ?thesis using create_merge_commit_Inr [OF cid(1)] cid(2) h hc m by (auto simp: merged_onto_def split: if_splits)
qed

lemma branch_attempt_Some:
  assumes "branch_attempt env r new_head c base delta k w = (Inr (Some (from_id, is_merge, target, at)), v)"
  shows "t_repos v = t_repos w \<and> from_id \<noteq> Some new_head \<and>
    (if from_id = None \<or> cm_parent_id c = from_id then bt_head target = new_head \<and> v = w
     else \<exists>h. from_id = Some h \<and> merged_onto env k r c base h w (bt_head target) v)"
proof (cases "is_merge")
  case False
  then show ?thesis using assms
    by (auto simp: branch_attempt_def Let_def sbind_Inr sreturn_Inr split: option.splits if_splits)
next
  case True
  then obtain rp where a: "merge_branch env k r rp c from_id base w = (Inr target, v)" "from_id \<noteq> None"
      "cm_parent_id c \<noteq> from_id" "from_id \<noteq> Some new_head"
    using assms by (auto simp: branch_attempt_def Let_def sbind_Inr sreturn_Inr split: option.splits if_splits)
  then show ?thesis using merge_branch_Inr [OF a(1)] by auto
qed

text \<open>
  A won push: in attempt \<open>k\<close>, other writers turned \<open>v\<close> into \<open>u\<close>; HEAD in \<open>u\<close> is still \<open>from_id\<close>, and
  the swap moved it to a commit that follows \<open>from_id\<close>.
\<close>

definition head_followed ::
    "branch_env \<Rightarrow> string \<Rightarrow> string \<Rightarrow> commit_row \<Rightarrow> string option \<Rightarrow> tables \<Rightarrow> bool" where
  "head_followed env r new_head c base t' \<longleftrightarrow>
     (\<exists>k w v from_id target. k \<in> {1..MAX_BRANCH_RETRY + 1} \<and>
        head_of (br_others env k v) r = Some from_id \<and> head_of t' r = Some (Some target) \<and>
        same_but r (br_others env k v) t' \<and>
        (if from_id = None \<or> cm_parent_id c = from_id then target = new_head
         else \<exists>h. from_id = Some h \<and> merged_onto env k r c base h w target v))"

lemma branch_loop_follows:
  assumes "branch_loop env r new_head desc c base delta k t = (Inr (False, items), t')" "1 \<le> k" "k \<le> MAX_BRANCH_RETRY + 1"
  shows "head_followed env r new_head c base t'"
  using assms
proof (induction env r new_head desc c base delta k t rule: branch_loop.induct)
  case (1 env r new_head desc c base delta k t)
  obtain res v where att: "branch_attempt env r new_head c base delta k t = (res, v)" by fastforce
  from "1.prems"(1) att obtain from_id is_merge target at where res: "res = Inr (Some (from_id, is_merge, target, at))"
    by (simp add: branch_loop.simps [of env r new_head desc c base delta k t] split: sum.splits option.splits prod.splits)
  obtain won s where cas: "test_and_update_head_commit (br_now env k) r from_id (bt_head target) at (br_others env k v) = (won, s)"
    by fastforce
  show ?case
  proof (cases won)
    case True
    then have run: "branch_moved env r desc is_merge base target s = (Inr (False, items), t')"
      using "1.prems"(1) att res cas by (simp add: branch_loop.simps [of env r new_head desc c base delta k t])
    have s: "head_of (br_others env k v) r = Some from_id" "head_of s r = Some (Some (bt_head target))"
        "same_but r (br_others env k v) s"
      using cas True by (auto simp: swap_won head_of_def same_but_def)
    have t': "head_of t' r = Some (Some (bt_head target))" "same_but r (br_others env k v) t'"
      using branch_moved_Inr [OF run] s by (auto simp: same_but_def)
    have f: "if from_id = None \<or> cm_parent_id c = from_id then bt_head target = new_head
        else \<exists>h. from_id = Some h \<and> merged_onto env k r c base h t (bt_head target) v"
      using branch_attempt_Some [OF att [unfolded res]] by presburger
    have k: "k \<in> {1..MAX_BRANCH_RETRY + 1}" using "1.prems"(2,3) by simp
    show ?thesis unfolding head_followed_def using k s(1) t' f by blast
  next
    case False
    then have "\<not> MAX_BRANCH_RETRY < k"
      and "branch_loop env r new_head desc c base delta (k + 1) s = (Inr (False, items), t')"
      using "1.prems"(1) att res cas by (auto simp: branch_loop.simps [of env r new_head desc c base delta k t] split: if_splits)
    then show ?thesis using "1.IH" [OF att [symmetric] res refl refl refl refl cas [symmetric]] False by auto
  qed
qed

lemma update_branch_parts:
  assumes "update_branch env r new_head user desc t = (Inr out, t')"
  obtains c delta where "t_commits t (r, new_head) = Some c" "check_root t r (cm_root_id c) = Inr ()"
    "check_commit_blocks (br_lim env) (br_ext env) (t_objects t) (br_has_block env) r (cm_root_id c) (base_root_of t r c) ([], 0)
       = Inr ([], delta)"
    "check_commit_file_locks (br_lim env) (br_ext env) (t_objects t) (br_locks env) r (cm_root_id c) user = Inr ()"
    "branch_loop env r new_head desc c (base_root_of t r c) delta 1 t = (Inr out, t')"
proof -
  from assms show thesis using that
    by (auto simp: update_branch_def Let_def find_commit_def sbind_Inr sreturn_Inr split: if_splits prod.splits option.splits)
qed

text \<open>
  C1: no push overwrites a HEAD it has not seen, whatever other writers do between its reads and its
  swap. When \<open>update_branch\<close> reports that it moved the branch, then in one of at most four attempts
  HEAD still was the value that attempt had read, and it was moved to the uploaded commit, if that
  HEAD was empty or the upload's parent, and otherwise to a commit recording the three-way merge of
  the upload with that HEAD, parented on both. Nothing else of the tables is touched by the swap.
\<close>

theorem update_branch_follows_head:
  assumes "update_branch env r new_head user desc t = (Inr (False, items), t')"
  shows "\<exists>c. t_commits t (r, new_head) = Some c \<and> head_followed env r new_head c (base_root_of t r c) t'"
proof -
  obtain c delta where c: "t_commits t (r, new_head) = Some c"
    and run: "branch_loop env r new_head desc c (base_root_of t r c) delta 1 t = (Inr (False, items), t')"
    by (rule update_branch_parts [OF assms])
  have "head_followed env r new_head c (base_root_of t r c) t'"
    by (rule branch_loop_follows [OF run]) (simp_all add: MAX_BRANCH_RETRY_def)
  then show ?thesis using c by blast
qed


section \<open>Progress\<close>


lemma sentinel_loop:
  assumes "t_repos t r = Some rp" "rp_head_commit_id rp = Some EMPTY_SHA1" "br_others env = (\<lambda>_ t. t)"
  shows "\<exists>e. branch_loop env r new_head desc c base delta k t = (Inl e, t)"
  using assms
proof (induction env r new_head desc c base delta k t rule: branch_loop.induct)
  case (1 env r new_head desc c base delta k t)
  define target where "target = \<lparr>bt_head = new_head, bt_root = cm_root_id c, bt_diff_base = base, bt_delta = delta, bt_kept_deleted = False\<rparr>"
  have att: "branch_attempt env r new_head c base delta k t = (Inr (Some (None, False, target, cm_ctime c)), t)"
    using "1.prems" by (simp add: branch_attempt_def Let_def sbind_def sreturn_def target_def)
  have cas: "test_and_update_head_commit (br_now env k) r None (bt_head target) (cm_ctime c) (br_others env k t) = (False, t)"
    using "1.prems" by (simp add: test_and_update_head_commit_def)
  show ?case
  proof (cases "MAX_BRANCH_RETRY < k")
    case True
    then show ?thesis using att cas by (simp add: branch_loop.simps [of env r new_head desc c base delta k t])
  next
    case False
    then show ?thesis using "1.IH" [OF att [symmetric] refl refl refl refl refl cas [symmetric]] "1.prems" att cas
      by (simp add: branch_loop.simps [of env r new_head desc c base delta k t])
  qed
qed

text \<open>
  A HEAD column that holds the all-zero sentinel blocks every push for good: read as \<open>no HEAD\<close>, it
  is compared with \<open>NULL\<close> by the swap, which never matches, so even a push that runs alone fails
  after its last retry, or earlier.
\<close>

theorem sentinel_head_blocks_pushes:
  assumes "t_repos t r = Some rp" "rp_head_commit_id rp = Some EMPTY_SHA1" "br_others env = (\<lambda>_ t. t)"
  shows "\<exists>e. update_branch env r new_head user desc t = (Inl e, t)"
  using sentinel_loop [OF assms]
  by (fastforce simp: update_branch_def Let_def sbind_def sreturn_def split: sum.splits)

section \<open>A push that loses a race\<close>

text \<open>Library \<open>r\<close> is at \<open>B\<close> with \<open>/a\<close> and \<open>/b\<close>. The upload \<open>N\<close> deletes \<open>/b\<close>; before its first swap,
  another writer moves HEAD to \<open>H\<close>, which deletes \<open>/a\<close>. The second attempt merges both.\<close>

definition race_x :: externs where
  "race_x = demo_externs
     [(''RB'', mk_dir [demo_file ''F'' ''b'', demo_file ''F'' ''a'']), (''RH'', mk_dir [demo_file ''F'' ''b'']),
      (''RN'', mk_dir [demo_file ''F'' ''a''])]"

definition race_commit :: "string \<Rightarrow> string \<Rightarrow> string option \<Rightarrow> commit_row" where
  "race_commit i root parent = \<lparr>cm_commit_id = i, cm_root_id = root, cm_parent_id = parent, cm_second_parent_id = None,
     cm_creator_name = ''u'', cm_creator = [], cm_description = [], cm_ctime = 4, cm_version = 1, cm_new_merge = None,
     cm_conflict = None\<rparr>"

definition race_repo :: "string \<Rightarrow> repo_row" where
  "race_repo h = \<lparr>rp_owner_id = 1, rp_head_commit_id = Some h, rp_size = 6, rp_version = 1, rp_updated_at = 5\<rparr>"

definition race_tables :: tables where
  "race_tables = \<lparr>t_objects = demo_db [''RB'', ''RH'', ''RN''],
     t_commits = [(''r'', ''B'') \<mapsto> race_commit ''B'' ''RB'' None, (''r'', ''H'') \<mapsto> race_commit ''H'' ''RH'' (Some ''B''),
       (''r'', ''N'') \<mapsto> race_commit ''N'' ''RN'' (Some ''B'')],
     t_repos = [''r'' \<mapsto> race_repo ''B''], t_published = []\<rparr>"

definition race_env :: "bool \<Rightarrow> branch_env" where
  "race_env disturbed = \<lparr>br_lim = configure 4 9, br_ext = race_x, br_has_block = (\<lambda>_. True), br_locks = no_locks,
     br_now = (\<lambda>k. int k), br_merge_now = (\<lambda>k n. 0), br_nickname_of = (\<lambda>_. None), br_local_time = (\<lambda>_. None),
     br_others = (\<lambda>k t. if disturbed \<and> k = 1 then t\<lparr>t_repos := (t_repos t)(''r'' \<mapsto> race_repo ''H'')\<rparr> else t),
     br_unique_err = ''unique''\<rparr>"

lemma race_run:
  "map_prod (map_sum id fst) (\<lambda>t. map_option (\<lambda>rp. (rp_size rp, rp_head_commit_id rp = Some ''N'')) (t_repos t ''r''))
     (update_branch (race_env True) ''r'' ''N'' 1 [] race_tables) = (Inr False, Some (3, False))"
  by code_simp

lemma raced_push:
  obtains items t' where "update_branch (race_env True) ''r'' ''N'' 1 [] race_tables = (Inr (False, items), t')"
    "head_of t' ''r'' \<noteq> Some (Some ''N'')"
proof -
  obtain res t' where u: "update_branch (race_env True) ''r'' ''N'' 1 [] race_tables = (res, t')" by fastforce
  then obtain items where "res = Inr (False, items)" "head_of t' ''r'' \<noteq> Some (Some ''N'')"
    using race_run by (cases res) (auto simp: head_of_def)
  then show thesis using that u by blast
qed

theorem update_branch_follows_head_witness:
  "\<exists>items t' c. update_branch (race_env True) ''r'' ''N'' 1 [] race_tables = (Inr (False, items), t') \<and>
     head_of t' ''r'' \<noteq> Some (Some ''N'') \<and> t_commits race_tables (''r'', ''N'') = Some c \<and>
     head_followed (race_env True) ''r'' ''N'' c (base_root_of race_tables ''r'' c) t'"
proof -
  obtain items t' where u: "update_branch (race_env True) ''r'' ''N'' 1 [] race_tables = (Inr (False, items), t')"
    and h: "head_of t' ''r'' \<noteq> Some (Some ''N'')"
    by (rule raced_push)
  show ?thesis using u h update_branch_follows_head [OF u] by blast
qed

lemma race_base_readable: "readable_tree race_x (demo_db [''RB'', ''RH'', ''RN'']) ''r'' ''RB''"
proof -
  have rb: "read_fs_dir_data race_x (demo_db [''RB'', ''RH'', ''RN'']) ''r'' ''RB'' =
      Inr (mk_dir [demo_file ''F'' ''b'', demo_file ''F'' ''a''])"
    by code_simp
  have "j = ''RB''" if "tree_dir race_x (demo_db [''RB'', ''RH'', ''RN'']) ''r'' ''RB'' j" for j
    using that by (cases rule: tree_dir.cases) (auto simp: rb)
  then show ?thesis unfolding readable_tree_def by (metis rb)
qed



theorem sentinel_head_blocks_pushes_witness:
  "let t = race_tables\<lparr>t_repos := [''r'' \<mapsto> race_repo EMPTY_SHA1]\<rparr> in
   \<exists>e. update_branch (race_env False) ''r'' ''N'' 1 [] t = (Inl e, t)"
  unfolding Let_def
  by (rule sentinel_head_blocks_pushes [of _ _ "race_repo EMPTY_SHA1"]) (simp_all add: race_repo_def race_env_def)

end
