(* ===== verification/PackFs.thy ===== *)
theory PackFs
  imports Prelude
begin

text \<open>
  The wire format of a pack of file-system objects, \<open>infra/src/serialization/pack_fs.rs\<close>: entries
  of a 40-byte hexadecimal id, a four-byte big-endian length and that many bytes. \<open>zlib\<close> is a
  parameter of \<open>decompress_fs_data\<close>: what the decoder yields of a body, at most the limit and one
  byte more, or its error text.

  Offsets into the body are \<open>usize\<close>; a body in memory is far below its range, so they are natural
  numbers.
\<close>

definition MAX_FS_OBJECT_BYTES :: nat where "MAX_FS_OBJECT_BYTES = 64 * 1024 * 1024"

definition decompress_fs_data :: "(string \<Rightarrow> nat \<Rightarrow> string + string) \<Rightarrow> string \<Rightarrow> string + string" where
  "decompress_fs_data zlib_take data =
     rbind (zlib_take data (MAX_FS_OBJECT_BYTES + 1)) (\<lambda>decompressed.
       if length decompressed > MAX_FS_OBJECT_BYTES then Inl ''fs object too large after decompression''
       else Inr decompressed)"

text \<open>\<open>u32::to_be_bytes\<close> and \<open>u32::from_be_bytes\<close>; \<open>len() as u32\<close> keeps the low 32 bits.\<close>

definition u32_to_be_bytes :: "nat \<Rightarrow> string" where
  "u32_to_be_bytes n =
     [char_of (n div 16777216 mod 256), char_of (n div 65536 mod 256), char_of (n div 256 mod 256),
      char_of (n mod 256)]"

definition u32_from_be_bytes :: "string \<Rightarrow> nat" where
  "u32_from_be_bytes bs = foldl (\<lambda>acc c. acc * 256 + of_char c) 0 bs"

definition as_u32 :: "nat \<Rightarrow> nat" where "as_u32 n = n mod 4294967296"

definition encode_pack_fs_entries :: "(string \<times> string) list \<Rightarrow> string" where
  "encode_pack_fs_entries entries =
     concat (map (\<lambda>(fs_id, data). fs_id @ u32_to_be_bytes (as_u32 (length data)) @ data) entries)"

definition is_ascii_hexdigit :: "char \<Rightarrow> bool" where
  "is_ascii_hexdigit c \<longleftrightarrow> (let n = of_char c :: nat in
     48 \<le> n \<and> n \<le> 57 \<or> 65 \<le> n \<and> n \<le> 70 \<or> 97 \<le> n \<and> n \<le> 102)"

text \<open>
  The loop, on the part of the body from \<open>offset\<close> on; \<open>done\<close> are the entries decoded so far. An
  id with a byte outside ASCII is rejected whether or not it is valid UTF-8, so the two error texts
  for it are one here.
\<close>

definition invalid_fs_id :: string where "invalid_fs_id = ''invalid fs_id: must be 40 hex characters''"

function decode_from :: "string \<Rightarrow> (string \<times> string) list \<Rightarrow> string + (string \<times> string) list" where
  "decode_from rest acc =
     (if 44 \<le> length rest then
        let fs_id = take 40 rest; size = u32_from_be_bytes (take 4 (drop 40 rest)); rest = drop 44 rest in
        if \<not> list_all is_ascii_hexdigit fs_id then Inl invalid_fs_id
        else if length rest < size then Inl (''truncated data at entry '' @ show_nat (length acc))
        else decode_from (drop size rest) (acc @ [(fs_id, take size rest)])
      else if rest \<noteq> [] then Inl (''trailing '' @ show_nat (length rest) @ '' byte(s) after the last fs object'')
      else Inr acc)"
  by pat_completeness auto
termination
  by (relation "measure (\<lambda>(rest, acc). length rest)") auto

declare decode_from.simps [simp del]

definition decode_pack_fs_entries :: "string \<Rightarrow> string + (string \<times> string) list" where
  "decode_pack_fs_entries data = decode_from data []"

section \<open>Round trips\<close>

lemma u32_bytes_length [simp]: "length (u32_to_be_bytes n) = 4"
  by (simp add: u32_to_be_bytes_def)

lemma u32_from_to:
  assumes "n < 4294967296"
  shows "u32_from_be_bytes (u32_to_be_bytes n) = n"
proof -
  have s: "k = k div 256 * 256 + k mod 256" for k :: nat by simp
  have d: "n div 65536 = n div 256 div 256" "n div 16777216 = n div 256 div 256 div 256"
    by (simp_all add: div_mult2_eq [symmetric])
  have top: "n div 256 div 256 div 256 < 256" using assms by (simp add: div_mult2_eq [symmetric])
  show ?thesis
    using s [of n] s [of "n div 256"] s [of "n div 256 div 256"] top
    by (simp add: u32_from_be_bytes_def u32_to_be_bytes_def d)
qed

lemma u32_to_from:
  assumes "length bs = 4"
  shows "u32_to_be_bytes (u32_from_be_bytes bs) = bs \<and> u32_from_be_bytes bs < 4294967296"
proof -
  obtain a b c d where bs: "bs = [a, b, c, d]"
    using assms by (auto simp: numeral_eq_Suc length_Suc_conv)
  have lt: "(of_char k :: nat) < 256" for k by simp
  define A B C D where "A = (of_char a :: nat)" and "B = (of_char b :: nat)" and "C = (of_char c :: nat)"
    and "D = (of_char d :: nat)"
  have v: "u32_from_be_bytes bs = ((A * 256 + B) * 256 + C) * 256 + D"
    by (simp add: bs u32_from_be_bytes_def A_def B_def C_def D_def)
  have lts: "B < 256" "C < 256" "D < 256" "A < 256" using lt by (simp_all add: A_def B_def C_def D_def)
  have step: "(k * 256 + m) div 256 = k" "(k * 256 + m) mod 256 = m" if "m < 256" for k m :: nat
    using that by simp_all
  have dv: "k div 65536 = k div 256 div 256" "k div 16777216 = k div 256 div 256 div 256" for k :: nat
    by (simp_all add: div_mult2_eq [symmetric])
  have "u32_from_be_bytes bs mod 256 = D" "u32_from_be_bytes bs div 256 mod 256 = C"
    "u32_from_be_bytes bs div 65536 mod 256 = B" "u32_from_be_bytes bs div 16777216 mod 256 = A"
    unfolding v dv using lts by (simp_all only: step mod_less)
  moreover have "u32_from_be_bytes bs < 4294967296" unfolding v using lts by simp
  ultimately show ?thesis by (simp add: u32_to_be_bytes_def bs A_def B_def C_def D_def)
qed

text \<open>An entry a sender may put into a pack: a hexadecimal id of 40 bytes, data of less than 4 GiB.\<close>

definition entry_ok :: "string \<times> string \<Rightarrow> bool" where
  "entry_ok e \<longleftrightarrow> length (fst e) = 40 \<and> list_all is_ascii_hexdigit (fst e) \<and> length (snd e) < 4294967296"

lemma decode_from_entry:
  assumes "entry_ok (i, d)"
  shows "decode_from (i @ u32_to_be_bytes (as_u32 (length d)) @ d @ rest) acc = decode_from rest (acc @ [(i, d)])"
proof -
  have i: "length i = 40" and h: "list_all is_ascii_hexdigit i" and d: "length d < 4294967296"
    using assms by (simp_all add: entry_ok_def)
  have "as_u32 (length d) = length d" using d by (simp add: as_u32_def)
  then show ?thesis using i h u32_from_to [OF d]
    by (subst decode_from.simps) (simp add: Let_def)
qed

lemma decode_encode_from:
  "list_all entry_ok es \<Longrightarrow> decode_from (encode_pack_fs_entries es) acc = Inr (acc @ es)"
proof (induction es arbitrary: acc)
  case Nil
  show ?case by (subst decode_from.simps) (simp add: encode_pack_fs_entries_def)
next
  case (Cons e es)
  obtain i d where e: "e = (i, d)" by (cases e)
  have "encode_pack_fs_entries (e # es) = i @ u32_to_be_bytes (as_u32 (length d)) @ d @ encode_pack_fs_entries es"
    by (simp add: encode_pack_fs_entries_def e)
  then show ?case using decode_from_entry [of i d "encode_pack_fs_entries es" acc] Cons e by simp
qed

lemma decode_from_inverse:
  "decode_from rest acc = Inr es \<Longrightarrow> \<exists>new. es = acc @ new \<and> list_all entry_ok new \<and> encode_pack_fs_entries new = rest"
proof (induction rest acc rule: decode_from.induct)
  case (1 rest acc)
  show ?case
  proof (cases "44 \<le> length rest")
    case False
    then have "rest = []" "es = acc" using "1.prems" by (auto simp: decode_from.simps [of rest acc] split: if_splits)
    then show ?thesis by (simp add: encode_pack_fs_entries_def)
  next
    case True
    define i bs tl where "i = take 40 rest" and "bs = take 4 (drop 40 rest)" and "tl = drop 44 rest"
    define n where "n = u32_from_be_bytes bs"
    have rest: "rest = i @ bs @ tl"
      using append_take_drop_id [of 40 rest] append_take_drop_id [of 4 "drop 40 rest"]
      by (simp add: i_def bs_def tl_def)
    have len: "length i = 40" "length bs = 4" using True by (simp_all add: i_def bs_def)
    have h: "list_all is_ascii_hexdigit i" and n: "n \<le> length tl"
      and run: "decode_from (drop n tl) (acc @ [(i, take n tl)]) = Inr es"
      using "1.prems" True by (auto simp: decode_from.simps [of rest acc] Let_def i_def bs_def tl_def n_def split: if_splits)
    obtain new where new: "es = (acc @ [(i, take n tl)]) @ new" "list_all entry_ok new"
      "encode_pack_fs_entries new = drop n tl"
      using "1.IH" [OF True refl refl refl] h n run by (auto simp: i_def bs_def tl_def n_def)
    have b: "u32_to_be_bytes n = bs" "n < 4294967296" using u32_to_from [OF len(2)] by (simp_all add: n_def)
    have "entry_ok (i, take n tl)" using len h b(2) n by (simp add: entry_ok_def)
    moreover have "encode_pack_fs_entries ((i, take n tl) # new) = rest"
      using new(3) b n rest by (simp add: encode_pack_fs_entries_def as_u32_def)
    ultimately show ?thesis using new(1,2) by (intro exI [of _ "(i, take n tl) # new"]) simp
  qed
qed

text \<open>
  C34: decoding is the exact inverse of encoding: a pack of well-formed entries decodes to those
  entries, and a body that decodes to some entries is byte for byte the encoding of them, all of them
  well-formed. In particular no body with a truncated entry or trailing bytes is accepted.
\<close>

theorem pack_fs_exact:
  "decode_pack_fs_entries body = Inr es \<longleftrightarrow> list_all entry_ok es \<and> body = encode_pack_fs_entries es"
  using decode_from_inverse [of body "[]" es] decode_encode_from [of es "[]"]
  by (auto simp: decode_pack_fs_entries_def)

text \<open>The limit of the decompressor holds for everything it returns.\<close>

lemma decompress_bounded:
  "decompress_fs_data z data = Inr out \<Longrightarrow> length out \<le> MAX_FS_OBJECT_BYTES"
  by (auto simp: decompress_fs_data_def rbind_eq_Inr_iff split: if_splits)

end
