(* ===== verification/FsUpload.thy ===== *)
theory FsUpload
  imports PackFs Sanitize FsObject
begin

text \<open>
  Receiving file-system objects from a sync client: \<open>insert_fs_objects\<close> of
  \<open>server/src/service/sync/mod.rs\<close>, with the verification mode, and the part of the handler
  \<open>recv_fs\<close> (\<open>server/src/handler/sync/fs.rs\<close>) behind its permission check.

  What \<open>serde_json\<close>, \<open>String::from_utf8\<close>, the zlib decoder and the debug format do is an argument; a
  valid UTF-8 byte string is the string of its bytes.
\<close>

record upload_externs =
  up_ext :: externs
  up_zlib_take :: "string \<Rightarrow> nat \<Rightarrow> string + string"
  up_is_utf8 :: "string \<Rightarrow> bool"
  up_has_dirents :: "string \<Rightarrow> string + bool"
  up_debug :: "string \<Rightarrow> string"

datatype FsObjectVerifyMode = Off | Strict | Log

definition configure_fs_object_verification :: "string \<Rightarrow> FsObjectVerifyMode" where
  "configure_fs_object_verification mode =
     (let mode = to_ascii_lowercase mode in
      if mode = ''off'' then Off else if mode = ''log'' then Log else Strict)"

definition MAX_FS_PACK_ENTRIES :: nat where "MAX_FS_PACK_ENTRIES = 4096"
definition MAX_FS_PACK_DECOMPRESSED_BYTES :: nat where "MAX_FS_PACK_DECOMPRESSED_BYTES = 128 * 1024 * 1024"

definition check_dir_object :: "upload_externs \<Rightarrow> string \<Rightarrow> int result" where
  "check_dir_object u json_str =
     rbind (map_err (\<lambda>e. BadRequest (''invalid dir object: '' @ e)) (parse_dir (up_ext u) json_str)) (\<lambda>dir_data.
     if dir_type dir_data \<noteq> SEAF_METADATA_TYPE_DIR
     then Inl (BadRequest (''fs object has dirents but type '' @ show_int (dir_type dir_data) @ '' (expected '' @
            show_int SEAF_METADATA_TYPE_DIR @ '')''))
     else if dir_version dir_data < 1
     then Inl (BadRequest (''dir object version must be >= 1, got '' @ show_int (dir_version dir_data)))
     else
       rbind (rfold (\<lambda>dirent _. map_err (\<lambda>e. BadRequest (''invalid dirent name '' @ up_debug u (de_name dirent) @ '': '' @ e))
                (validate_filename (de_name dirent))) (dirents dir_data) ())
         (\<lambda>_. Inr (as_i8 SEAF_METADATA_TYPE_DIR)))"

definition check_file_object :: "upload_externs \<Rightarrow> string \<Rightarrow> int result" where
  "check_file_object u json_str =
     rbind (map_err (\<lambda>e. BadRequest (''invalid file object: '' @ e)) (parse_file (up_ext u) json_str)) (\<lambda>file_data.
     if file_type file_data \<noteq> SEAF_METADATA_TYPE_FILE
     then Inl (BadRequest (''fs object has no dirents but type '' @ show_int (file_type file_data) @ '' (expected '' @
            show_int SEAF_METADATA_TYPE_FILE @ '')''))
     else if file_version file_data < 1
     then Inl (BadRequest (''file object version must be >= 1, got '' @ show_int (file_version file_data)))
     else if file_size file_data < 0
     then Inl (BadRequest (''file object size must be >= 0, got '' @ show_int (file_size file_data)))
     else Inr (as_i8 SEAF_METADATA_TYPE_FILE))"

definition u64_sat_add :: "nat \<Rightarrow> nat \<Rightarrow> nat" where
  "u64_sat_add a b = min (2 ^ 64 - 1) (a + b)"

text \<open>One entry of the pack: the running total and the rows accepted so far.\<close>

definition check_pack_entry ::
    "upload_externs \<Rightarrow> FsObjectVerifyMode \<Rightarrow> string \<times> string \<Rightarrow> nat \<times> (string \<times> fs_object) list \<Rightarrow>
     (nat \<times> (string \<times> fs_object) list) result" where
  "check_pack_entry u mode = (\<lambda>(fs_id, data) (total_decompressed, models).
     rbind (map_err (\<lambda>e. BadRequest (''decompress fs object: '' @ e)) (decompress_fs_data (up_zlib_take u) data))
       (\<lambda>decompressed.
     let total_decompressed = u64_sat_add total_decompressed (length decompressed) in
     if total_decompressed > MAX_FS_PACK_DECOMPRESSED_BYTES
     then Inl (BadRequest (''fs object pack too large after decompression (max '' @
            show_nat MAX_FS_PACK_DECOMPRESSED_BYTES @ '' bytes)''))
     else
       let computed = sha1_hex (up_ext u) decompressed in
       if fs_id \<noteq> EMPTY_SHA1 \<and> computed \<noteq> fs_id \<and> mode = Strict
       then Inl (BadRequest (''fs object id mismatch: expected '' @ fs_id @ '', computed '' @ computed))
       else if \<not> up_is_utf8 u decompressed then Inl (BadRequest ''invalid utf-8 in fs object'')
       else
         rbind (map_err (\<lambda>e. BadRequest (''invalid json in fs object: '' @ e)) (up_has_dirents u decompressed)) (\<lambda>has_dirents.
         rbind (if has_dirents then check_dir_object u decompressed else check_file_object u decompressed) (\<lambda>ty.
         Inr (total_decompressed, models @ [(fs_id, \<lparr>obj_type = ty, obj_data = decompressed\<rparr>)])))))"

definition insert_many :: "string \<Rightarrow> (string \<times> fs_object) list \<Rightarrow> fs_objects \<Rightarrow> fs_objects" where
  "insert_many repo_id models db = fold (\<lambda>(fs_id, row). insert_or_ignore repo_id fs_id row) models db"

definition insert_fs_objects ::
    "upload_externs \<Rightarrow> FsObjectVerifyMode \<Rightarrow> string \<Rightarrow> (string \<times> string) list \<Rightarrow> fs_objects \<Rightarrow> unit result \<times> fs_objects" where
  "insert_fs_objects u mode repo_id entries db =
     (if length entries > MAX_FS_PACK_ENTRIES
      then (Inl (BadRequest (''too many fs objects in pack: '' @ show_nat (length entries) @ '' (max '' @
              show_nat MAX_FS_PACK_ENTRIES @ '')'')), db)
      else
        (case rfold (check_pack_entry u mode) entries (0, []) of
           Inl e \<Rightarrow> (Inl e, db)
         | Inr (_, models) \<Rightarrow> (Inr (), if models = [] then db else insert_many repo_id models db)))"

definition recv_fs ::
    "upload_externs \<Rightarrow> FsObjectVerifyMode \<Rightarrow> string \<Rightarrow> string \<Rightarrow> fs_objects \<Rightarrow> unit result \<times> fs_objects" where
  "recv_fs u mode repo_id data db =
     (case map_err BadRequest (decode_pack_fs_entries data) of
        Inl e \<Rightarrow> (Inl e, db)
      | Inr entries \<Rightarrow> insert_fs_objects u mode repo_id entries db)"

section \<open>What reaches the table\<close>

text \<open>A row whose content matches its id (in strict mode) and whose structure was checked.\<close>

definition vetted :: "upload_externs \<Rightarrow> FsObjectVerifyMode \<Rightarrow> string \<Rightarrow> fs_object \<Rightarrow> bool" where
  "vetted u mode i row \<longleftrightarrow>
     (mode = Strict \<and> i \<noteq> EMPTY_SHA1 \<longrightarrow> sha1_hex (up_ext u) (obj_data row) = i) \<and>
     (obj_type row = 3 \<and> (\<exists>d. parse_dir (up_ext u) (obj_data row) = Inr d \<and> dir_type d = 3 \<and>
         (\<forall>e\<in>set (dirents d). validate_filename (de_name e) = Inr ())) \<or>
      obj_type row = 1 \<and> (\<exists>f. parse_file (up_ext u) (obj_data row) = Inr f \<and> file_type f = 1 \<and> 0 \<le> file_size f))"

lemma rfold_unit_all:
  "rfold (\<lambda>e (_ :: unit). g e) es () = Inr () \<Longrightarrow> e \<in> set es \<Longrightarrow> g e = Inr ()"
  by (induction es) (auto simp: rbind_eq_Inr_iff)

lemma check_dir_vetted:
  "check_dir_object u s = Inr ty \<Longrightarrow> ty = 3 \<and> (\<exists>d. parse_dir (up_ext u) s = Inr d \<and> dir_type d = 3 \<and>
     (\<forall>e\<in>set (dirents d). validate_filename (de_name e) = Inr ()))"
  by (auto simp: check_dir_object_def rbind_eq_Inr_iff SEAF_METADATA_TYPE_DIR_def as_i8_def split: if_splits
      dest!: rfold_unit_all)

lemma check_file_vetted:
  "check_file_object u s = Inr ty \<Longrightarrow> ty = 1 \<and> (\<exists>f. parse_file (up_ext u) s = Inr f \<and> file_type f = 1 \<and> 0 \<le> file_size f)"
  by (auto simp: check_file_object_def rbind_eq_Inr_iff SEAF_METADATA_TYPE_FILE_def as_i8_def split: if_splits)

lemma check_pack_entry_Inr:
  assumes "check_pack_entry u mode (i, data) (n, ms) = Inr (n', ms')"
  shows "n' \<le> MAX_FS_PACK_DECOMPRESSED_BYTES \<and> (\<exists>row. ms' = ms @ [(i, row)] \<and> vetted u mode i row \<and> n' = n + length (obj_data row))"
proof -
  from assms obtain dec where dec: "decompress_fs_data (up_zlib_take u) data = Inr dec"
    by (auto simp: check_pack_entry_def rbind_eq_Inr_iff)
  define tot where "tot = u64_sat_add n (length dec)"
  have not_large: "tot \<le> MAX_FS_PACK_DECOMPRESSED_BYTES"
    using assms dec by (auto simp: check_pack_entry_def Let_def tot_def [symmetric] split: if_splits)
  have hash: "\<not> (i \<noteq> EMPTY_SHA1 \<and> sha1_hex (up_ext u) dec \<noteq> i \<and> mode = Strict)"
    using assms dec not_large by (auto simp: check_pack_entry_def Let_def tot_def [symmetric] split: if_splits)
  have "\<exists>ty. (check_dir_object u dec = Inr ty \<or> check_file_object u dec = Inr ty) \<and> n' = tot \<and>
      ms' = ms @ [(i, \<lparr>obj_type = ty, obj_data = dec\<rparr>)]"
    using assms dec not_large hash
    by (auto simp: check_pack_entry_def Let_def tot_def [symmetric] rbind_eq_Inr_iff split: if_splits)
  then obtain ty where ty: "check_dir_object u dec = Inr ty \<or> check_file_object u dec = Inr ty"
    and n': "n' = u64_sat_add n (length dec)" "n' \<le> MAX_FS_PACK_DECOMPRESSED_BYTES"
    and ms': "ms' = ms @ [(i, \<lparr>obj_type = ty, obj_data = dec\<rparr>)]"
    using not_large tot_def by blast
  have "n' = n + length dec" using n' by (simp add: MAX_FS_PACK_DECOMPRESSED_BYTES_def u64_sat_add_def min_def split: if_splits)
  moreover have "vetted u mode i \<lparr>obj_type = ty, obj_data = dec\<rparr>"
    using hash ty check_dir_vetted [of u dec ty] check_file_vetted [of u dec ty]
    by (simp add: vetted_def) blast
  ultimately show ?thesis using n'(2) ms' by simp
qed

lemma check_pack_Inr:
  assumes "rfold (check_pack_entry u mode) entries (n, ms) = Inr (n', ms')" "n \<le> MAX_FS_PACK_DECOMPRESSED_BYTES"
    "\<forall>(i, row)\<in>set ms. vetted u mode i row" "sum_list (map (\<lambda>m. length (obj_data (snd m))) ms) = n"
  shows "n' \<le> MAX_FS_PACK_DECOMPRESSED_BYTES \<and> (\<forall>(i, row)\<in>set ms'. vetted u mode i row) \<and>
    sum_list (map (\<lambda>m. length (obj_data (snd m))) ms') = n' \<and> length ms' = length ms + length entries"
  using assms
proof (induction entries arbitrary: n ms)
  case (Cons e entries)
  obtain i data where e: "e = (i, data)" by (cases e)
  obtain n1 ms1 where s: "check_pack_entry u mode (i, data) (n, ms) = Inr (n1, ms1)"
    and rest: "rfold (check_pack_entry u mode) entries (n1, ms1) = Inr (n', ms')"
    using Cons.prems(1) e by (auto simp: rbind_eq_Inr_iff)
  from check_pack_entry_Inr [OF s] obtain row where row: "ms1 = ms @ [(i, row)]" "vetted u mode i row"
      "n1 = n + length (obj_data row)" "n1 \<le> MAX_FS_PACK_DECOMPRESSED_BYTES" by blast
  have "n' \<le> MAX_FS_PACK_DECOMPRESSED_BYTES \<and> (\<forall>(i, row)\<in>set ms'. vetted u mode i row) \<and>
    sum_list (map (\<lambda>m. length (obj_data (snd m))) ms') = n' \<and> length ms' = length ms1 + length entries"
    by (rule Cons.IH [OF rest]) (use row Cons.prems in auto)
  then show ?case using row by simp
qed auto

lemma insert_many_le: "db \<subseteq>\<^sub>m insert_many r ms db"
proof (induction ms arbitrary: db)
  case (Cons m ms)
  obtain i row where "m = (i, row)" by (cases m)
  then have "insert_many r (m # ms) db = insert_many r ms (insert_or_ignore r i row db)" by (simp add: insert_many_def)
  then show ?case using Cons.IH [of "insert_or_ignore r i row db"] insert_or_ignore_le map_le_trans by metis
qed (simp add: insert_many_def)

lemma insert_many_new:
  "insert_many r ms db k \<noteq> db k \<Longrightarrow> \<exists>i row. k = (r, i) \<and> (i, row) \<in> set ms \<and> insert_many r ms db k = Some row"
proof (induction ms arbitrary: db)
  case (Cons m ms)
  obtain i row where m: "m = (i, row)" by (cases m)
  let ?db = "insert_or_ignore r i row db"
  have eq: "insert_many r (m # ms) db = insert_many r ms ?db" by (simp add: insert_many_def m)
  show ?case
  proof (cases "insert_many r ms ?db k = ?db k")
    case True
    then have "?db k \<noteq> db k" using Cons.prems eq by simp
    then have "k = (r, i)" "?db k = Some row" by (auto simp: insert_or_ignore_def split: option.splits if_splits)
    then show ?thesis using True m eq by auto
  next
    case False
    then show ?thesis using Cons.IH [of ?db] eq by auto
  qed
qed (simp add: insert_many_def)


text \<open>
  What a pack may expand to is bounded: a pack is only accepted with at most 4096 objects whose
  decompressed texts together stay within 128 MiB, and its parsed rows are one per entry.
\<close>

theorem accepted_pack_bounded:
  assumes "insert_fs_objects u mode r entries db = (Inr (), db')"
  shows "length entries \<le> 4096 \<and> (\<exists>ms. (db' = db \<or> db' = insert_many r ms db) \<and> length ms = length entries \<and>
    sum_list (map (\<lambda>m. length (obj_data (snd m))) ms) \<le> 134217728)"
proof -
  from assms have len: "length entries \<le> 4096"
    by (auto simp: insert_fs_objects_def MAX_FS_PACK_ENTRIES_def split: if_splits)
  from assms obtain n ms where ms: "rfold (check_pack_entry u mode) entries (0, []) = Inr (n, ms)"
    and db': "db' = db \<or> db' = insert_many r ms db"
    by (auto simp: insert_fs_objects_def split: sum.splits if_splits)
  show ?thesis using len db' check_pack_Inr [OF ms] by (auto simp: MAX_FS_PACK_DECOMPRESSED_BYTES_def intro!: exI [of _ ms])
qed

definition demo_upload :: upload_externs where
  "demo_upload = \<lparr>up_ext = (demo_externs [])\<lparr>parse_file := (\<lambda>s. Inr \<lparr>block_ids = [s], file_size = 3, file_type = 1, file_version = 1\<rparr>)\<rparr>,
     up_zlib_take = (\<lambda>s _. Inr s), up_is_utf8 = (\<lambda>_. True), up_has_dirents = (\<lambda>_. Inr False), up_debug = (\<lambda>s. s)\<rparr>"

theorem accepted_pack_bounded_witness:
  "\<exists>db'. insert_fs_objects demo_upload Strict ''r'' [(''hF'', ''F'')] Map.empty = (Inr (), db') \<and> db' (''r'', ''hF'') \<noteq> None \<and>
     (\<exists>ms. (db' = Map.empty \<or> db' = insert_many ''r'' ms Map.empty) \<and> length ms = 1 \<and>
        sum_list (map (\<lambda>m. length (obj_data (snd m))) ms) \<le> 134217728)"
proof -
  have h: "insert_fs_objects demo_upload Strict ''r'' [(''hF'', ''F'')] Map.empty =
      (Inr (), insert_many ''r'' [(''hF'', \<lparr>obj_type = 1, obj_data = ''F''\<rparr>)] Map.empty)"
    by (simp add: insert_fs_objects_def MAX_FS_PACK_ENTRIES_def check_pack_entry_def decompress_fs_data_def Let_def
        MAX_FS_OBJECT_BYTES_def MAX_FS_PACK_DECOMPRESSED_BYTES_def u64_sat_add_def demo_upload_def check_file_object_def
        SEAF_METADATA_TYPE_FILE_def as_i8_def)
  show ?thesis using h accepted_pack_bounded [OF h] by (simp add: insert_many_def insert_or_ignore_def)
qed

end
