(* ===== verification/Gc.thy ===== *)
theory Gc
  imports SyncCheckLaws
begin

text \<open>
  Garbage collection, \<open>server/src/fs/core/gc.rs\<close>: which commits a library keeps, which objects and
  blocks they reach, pruning of rows and deletion of blocks.

  The tables hold the columns the pass reads; a commit has its primary key. The block store is, per
  library, the list of its blocks with their modification times. The \<open>hex\<close> crate is a pair of
  functions, \<open>gc_dec\<close> from an id to its raw bytes and \<open>gc_enc\<close> back. A \<open>HashSet\<close> is a list without
  repetitions. Other writers act at two points of a library's pass: after the snapshot was read
  (\<open>gc_others_prune\<close>) and before HEAD is read again (\<open>gc_others_check\<close>). \<open>gc_checkpoint\<close> is the running
  job's answer at a checkpoint. Input and output errors of the block store and the count of removed
  items that the pass reports are not modelled.
\<close>

section \<open>State\<close>

record gc_commit =
  gm_id :: int
  gm_commit_id :: string
  gm_root_id :: string
  gm_ctime :: int

record gc_repo =
  gr_id :: string
  gr_head :: "string option"
  gr_history_limit :: int
  gr_history_ttl_days :: int

record gc_state =
  gs_repos :: "gc_repo list"
  gs_commits :: "string \<Rightarrow> gc_commit list"
  gs_objects :: fs_objects
  gs_blocks :: "string \<Rightarrow> (string \<times> int) list"
  gs_deleted_repos :: "string list"
  gs_repo_dirs :: "string list"

record GcPolicy =
  min_block_age_secs :: nat
  verify_head :: bool

definition new_gc_policy :: "nat \<Rightarrow> GcPolicy" where
  "new_gc_policy secs = \<lparr>min_block_age_secs = secs, verify_head = True\<rparr>"

definition immediate_gc_policy :: GcPolicy where
  "immediate_gc_policy = \<lparr>min_block_age_secs = 0, verify_head = False\<rparr>"

record gc_env =
  gc_lim :: tree_limits
  gc_ext :: externs
  gc_dec :: "string \<Rightarrow> string"
  gc_enc :: "string \<Rightarrow> string"
  gc_now :: int
  gc_policy :: GcPolicy
  gc_checkpoint :: "string \<Rightarrow> nat option \<Rightarrow> unit result"
  gc_others_prune :: "string \<Rightarrow> gc_state \<Rightarrow> gc_state"
  gc_others_check :: "string \<Rightarrow> gc_state \<Rightarrow> gc_state"
  gc_dir_removed :: "string \<Rightarrow> bool"

definition SECS_PER_DAY :: int where "SECS_PER_DAY = 86400"
definition CHECKPOINT_EVERY_BLOCKS :: nat where "CHECKPOINT_EVERY_BLOCKS = 256"

text \<open>\<open>ORDER BY ctime DESC, id DESC\<close>.\<close>

definition commits_by_ctime_desc :: "gc_state \<Rightarrow> string \<Rightarrow> gc_commit list" where
  "commits_by_ctime_desc st repo_id = rev (sort_key gm_ctime (sort_key gm_id (gs_commits st repo_id)))"

section \<open>Retention\<close>

definition compute_keep_commits :: "gc_commit list \<Rightarrow> int \<Rightarrow> int \<Rightarrow> int \<Rightarrow> int list" where
  "compute_keep_commits commits history_limit history_ttl_days now =
     (let keep = [];
          keep = (if history_limit > 0 then fold (\<lambda>c. List.insert (gm_id c)) (take (nat history_limit) commits) keep else keep);
          keep = (if history_ttl_days > 0
                  then let cutoff = now - history_ttl_days * SECS_PER_DAY in
                       fold (\<lambda>c keep. if gm_ctime c \<ge> cutoff then List.insert (gm_id c) keep else keep) commits keep
                  else keep);
          keep = (if history_limit = 0 \<and> history_ttl_days = 0 then fold (\<lambda>c. List.insert (gm_id c)) commits keep else keep)
      in keep)"

section \<open>Reachable objects and blocks\<close>

definition gc_entry :: "(string \<Rightarrow> string) \<Rightarrow> DirEntryData \<Rightarrow> string list \<times> string list \<Rightarrow> string list \<times> string list" where
  "gc_entry dec entry = (\<lambda>(collected, nexts).
     let is_new = (dec (de_id entry) \<notin> set collected) in
     (List.insert (dec (de_id entry)) collected,
      if is_new \<and> has_dir_bit (de_mode entry) then nexts @ [de_id entry] else nexts))"

definition gc_object ::
    "externs \<Rightarrow> (string \<Rightarrow> string) \<Rightarrow> string \<times> fs_object \<Rightarrow> string list \<times> string list \<Rightarrow> (string list \<times> string list) result" where
  "gc_object x dec = (\<lambda>(_, obj) acc.
     if obj_type obj = as_i8 SEAF_METADATA_TYPE_DIR then
       rbind (map_err Internal (parse_dir x (obj_data obj))) (\<lambda>dir_data. Inr (fold (gc_entry dec) (dirents dir_data) acc))
     else Inr acc)"

definition gc_collect_level ::
    "externs \<Rightarrow> fs_objects \<Rightarrow> string \<Rightarrow> (string \<Rightarrow> string) \<Rightarrow> string list \<Rightarrow> string list \<Rightarrow> (string list \<times> string list) result" where
  "gc_collect_level x db repo_id dec frontier collected =
     rbind (rfold (gc_object x dec) (fetch_fs_object_map db repo_id frontier) (collected, [])) (\<lambda>(collected, nexts).
     Inr (nexts, collected))"

definition gc_collect_fs_ids ::
    "gc_env \<Rightarrow> fs_objects \<Rightarrow> string \<Rightarrow> string \<Rightarrow> string list \<Rightarrow> string list result" where
  "gc_collect_fs_ids env db repo_id root_id collected =
     (if gc_dec env root_id \<in> set collected then Inr collected
      else bfs (gc_lim env) (gc_collect_level (gc_ext env) db repo_id (gc_dec env)) new_guard [root_id]
             (List.insert (gc_dec env root_id) collected))"

definition collect_repo_alive_blocks ::
    "gc_env \<Rightarrow> fs_objects \<Rightarrow> string \<Rightarrow> gc_commit list \<Rightarrow> int list \<Rightarrow> (string list \<times> string list) result" where
  "collect_repo_alive_blocks env db repo_id commits keep =
     (if commits = [] then Inr ([], [])
      else
        rbind (rfold (\<lambda>c reachable. if gm_id c \<in> set keep then gc_collect_fs_ids env db repo_id (gm_root_id c) reachable
                                    else Inr reachable) commits []) (\<lambda>reachable.
        if reachable = [] then Inr (reachable, [])
        else
          rbind (read_fs_file_data_batch (gc_ext env) db repo_id (map (gc_enc env) reachable)) (\<lambda>files.
          Inr (reachable, fold (\<lambda>(_, f) alive. fold List.insert (block_ids f) alive) files []))))"

section \<open>Pruning\<close>

definition prune_repo ::
    "gc_env \<Rightarrow> gc_repo \<Rightarrow> gc_commit list \<Rightarrow> int list \<Rightarrow> string list \<Rightarrow> gc_state \<Rightarrow> gc_state" where
  "prune_repo env repo_model commits keep active_fs_ids st =
     (if length keep = length commits then st
      else
        let r = gr_id repo_model;
            st = st\<lparr>gs_objects := (\<lambda>(q, i). if q = r \<and> gc_dec env i \<notin> set active_fs_ids then None else gs_objects st (q, i))\<rparr>;
            pruned_ids = map gm_id (filter (\<lambda>c. gm_id c \<notin> set keep) commits)
        in st\<lparr>gs_commits := (\<lambda>q. filter (\<lambda>c. gm_id c \<notin> set pruned_ids) (gs_commits st q))\<rparr>)"

definition repo_head_moved :: "gc_state \<Rightarrow> gc_repo \<Rightarrow> bool" where
  "repo_head_moved st snapshot =
     (case find (\<lambda>p. gr_id p = gr_id snapshot) (gs_repos st) of
        Some current \<Rightarrow> gr_head current \<noteq> gr_head snapshot
      | None \<Rightarrow> True)"

section \<open>Deleting blocks\<close>

definition block_modified_secs :: "gc_state \<Rightarrow> string \<Rightarrow> string \<Rightarrow> int option" where
  "block_modified_secs st repo_id b = map_of (gs_blocks st repo_id) b"

definition remove_block :: "string \<Rightarrow> string \<Rightarrow> gc_state \<Rightarrow> gc_state" where
  "remove_block repo_id b st =
     st\<lparr>gs_blocks := (gs_blocks st)(repo_id := filter (\<lambda>p. fst p \<noteq> b) (gs_blocks st repo_id))\<rparr>"

definition too_fresh :: "gc_env \<Rightarrow> gc_state \<Rightarrow> string \<Rightarrow> string \<Rightarrow> bool" where
  "too_fresh env st repo_id b \<longleftrightarrow> min_block_age_secs (gc_policy env) > 0 \<and>
     (case block_modified_secs st repo_id b of
        Some m \<Rightarrow> i64_sat (gc_now env - m) < i64_wrap (int (min_block_age_secs (gc_policy env)))
      | None \<Rightarrow> False)"

fun delete_orphans :: "gc_env \<Rightarrow> string \<Rightarrow> nat \<Rightarrow> string list \<Rightarrow> gc_state \<Rightarrow> unit result \<times> gc_state" where
  "delete_orphans env repo_id index [] st = (Inr (), st)"
| "delete_orphans env repo_id index (b # bs) st =
     (case (if index mod CHECKPOINT_EVERY_BLOCKS = 0 then gc_checkpoint env repo_id (Some index) else Inr ()) of
        Inl e \<Rightarrow> (Inl e, st)
      | Inr _ \<Rightarrow>
          if too_fresh env st repo_id b then delete_orphans env repo_id (index + 1) bs st
          else delete_orphans env repo_id (index + 1) bs (remove_block repo_id b st))"

section \<open>The pass\<close>

definition gc_one_repo :: "gc_env \<Rightarrow> gc_repo \<Rightarrow> gc_state \<Rightarrow> unit result \<times> gc_state" where
  "gc_one_repo env repo_model st =
     (let r = gr_id repo_model in
      case gc_checkpoint env r None of
        Inl e \<Rightarrow> (Inl e, st)
      | Inr _ \<Rightarrow>
          let commits = commits_by_ctime_desc st r in
          if commits = [] then (Inr (), st)
          else
            let keep = compute_keep_commits commits (gr_history_limit repo_model) (gr_history_ttl_days repo_model) (gc_now env) in
            (case collect_repo_alive_blocks env (gs_objects st) r commits keep of
               Inl e \<Rightarrow> (Inl e, st)
             | Inr (reachable, alive_blocks) \<Rightarrow>
                 let st = gc_others_prune env r st;
                     st = (if gr_history_limit repo_model \<noteq> 0 \<or> gr_history_ttl_days repo_model \<noteq> 0
                           then prune_repo env repo_model commits keep reachable st else st);
                     orphan_blocks = filter (\<lambda>b. b \<notin> set alive_blocks) (map fst (gs_blocks st r));
                     st = gc_others_check env r st in
                 if verify_head (gc_policy env) \<and> repo_head_moved st repo_model then (Inr (), st)
                 else delete_orphans env r 0 orphan_blocks st))"

fun gc_all_repos :: "gc_env \<Rightarrow> gc_repo list \<Rightarrow> gc_state \<Rightarrow> unit result \<times> gc_state" where
  "gc_all_repos env [] st = (Inr (), st)"
| "gc_all_repos env (p # ps) st =
     (case gc_one_repo env p st of
        (Inl e, st) \<Rightarrow> (Inl e, st)
      | (Inr _, st) \<Rightarrow> gc_all_repos env ps st)"

definition sweep_orphan_repo_dirs :: "gc_env \<Rightarrow> gc_state \<Rightarrow> gc_state" where
  "sweep_orphan_repo_dirs env st =
     fold (\<lambda>r st. if find (\<lambda>p. gr_id p = r) (gs_repos st) \<noteq> None then st
                  else if List.member (gs_deleted_repos st) r then st
                  else if gc_dir_removed env r
                  then st\<lparr>gs_blocks := (gs_blocks st)(r := []), gs_repo_dirs := filter (\<lambda>d. d \<noteq> r) (gs_repo_dirs st)\<rparr>
                  else st) (gs_repo_dirs st) st"

definition garbage_collect_with :: "gc_env \<Rightarrow> gc_state \<Rightarrow> unit result \<times> gc_state" where
  "garbage_collect_with env st =
     (case gc_all_repos env (gs_repos st) st of
        (Inl e, st) \<Rightarrow> (Inl e, st)
      | (Inr _, st) \<Rightarrow> (Inr (), sweep_orphan_repo_dirs env st))"

end
