(* ===== verification/GcLaws.thy ===== *)
theory GcLaws
  imports Gc
begin

text \<open>
  What a collection keeps: everything the retained commits of a library lead to. And what it does
  not keep: HEAD, when retention does not happen to retain it, and objects that arrive while the
  pass runs.
\<close>

section \<open>Retention\<close>

lemma set_fold_insert: "set (fold (\<lambda>c. List.insert (f c)) cs acc) = f ` set cs \<union> set acc"
  by (induction cs arbitrary: acc) auto

lemma set_fold_insert_if:
  "set (fold (\<lambda>c acc. if P c then List.insert (f c) acc else acc) cs acc) = f ` {c \<in> set cs. P c} \<union> set acc"
  by (induction cs arbitrary: acc) auto

lemma set_keep:
  "set (compute_keep_commits cs l ttl now) =
     (if l > 0 then gm_id ` set (take (nat l) cs) else {}) \<union>
     (if ttl > 0 then gm_id ` {c \<in> set cs. gm_ctime c \<ge> now - ttl * SECS_PER_DAY} else {}) \<union>
     (if l = 0 \<and> ttl = 0 then gm_id ` set cs else {})"
  by (simp add: compute_keep_commits_def Let_def set_fold_insert set_fold_insert_if Un_commute)

section \<open>The reachability walk\<close>

text \<open>The domain of a walk: directories \<open>D\<close> and files \<open>F\<close> closed under entries, on which decoding an id
  loses nothing. Only the sentinel may be both.\<close>

definition gc_domain ::
    "externs \<Rightarrow> fs_objects \<Rightarrow> string \<Rightarrow> (string \<Rightarrow> string) \<Rightarrow> string set \<Rightarrow> string set \<Rightarrow> bool" where
  "gc_domain x db r dec D F \<longleftrightarrow> db (r, EMPTY_SHA1) = None \<and> inj_on dec (D \<union> F) \<and> D \<inter> F \<subseteq> {EMPTY_SHA1} \<and>
     (\<forall>i\<in>D. \<forall>d e. read_fs_dir_data x db r i = Inr d \<longrightarrow> e \<in> set (dirents d) \<longrightarrow>
        (if has_dir_bit (de_mode e) then de_id e \<in> D else de_id e \<in> F))"

definition expanded :: "externs \<Rightarrow> fs_objects \<Rightarrow> string \<Rightarrow> (string \<Rightarrow> string) \<Rightarrow> string list \<Rightarrow> string \<Rightarrow> bool" where
  "expanded x db r dec coll i \<longleftrightarrow>
     (\<forall>d e. read_fs_dir_data x db r i = Inr d \<longrightarrow> e \<in> set (dirents d) \<longrightarrow> dec (de_id e) \<in> set coll)"

definition gc_inv ::
    "externs \<Rightarrow> fs_objects \<Rightarrow> string \<Rightarrow> (string \<Rightarrow> string) \<Rightarrow> string set \<Rightarrow> string set \<Rightarrow> string set \<Rightarrow> string list \<Rightarrow> bool" where
  "gc_inv x db r dec D F pend coll \<longleftrightarrow> set coll \<subseteq> dec ` (D \<union> F) \<and> pend \<subseteq> D \<and>
     (\<forall>i\<in>D. dec i \<in> set coll \<longrightarrow> i = EMPTY_SHA1 \<or> i \<in> pend \<or> expanded x db r dec coll i)"

lemma expanded_mono: "expanded x db r dec coll i \<Longrightarrow> set coll \<subseteq> set coll' \<Longrightarrow> expanded x db r dec coll' i"
  unfolding expanded_def by blast

lemma gc_entry_step:
  assumes dom: "gc_domain x db r dec D F" and i: "i \<in> D" "read_fs_dir_data x db r i = Inr d" "e \<in> set (dirents d)"
    and inv: "gc_inv x db r dec D F (P \<union> set nx) coll" and run: "gc_entry dec e (coll, nx) = (coll', nx')"
  shows "gc_inv x db r dec D F (P \<union> set nx') coll' \<and> set coll' = insert (dec (de_id e)) (set coll)"
proof -
  have kind: "if has_dir_bit (de_mode e) then de_id e \<in> D else de_id e \<in> F"
    using dom i unfolding gc_domain_def by blast
  have coll': "set coll' = insert (dec (de_id e)) (set coll)" using run by (auto simp: gc_entry_def Let_def)
  have nx': "set nx' = set nx \<union> (if dec (de_id e) \<notin> set coll \<and> has_dir_bit (de_mode e) then {de_id e} else {})"
    using run by (auto simp: gc_entry_def Let_def)
  have "j = EMPTY_SHA1 \<or> j \<in> P \<union> set nx' \<or> expanded x db r dec coll' j" if "j \<in> D" "dec j \<in> set coll'" for j
  proof (cases "dec j \<in> set coll")
    case True
    then have "j = EMPTY_SHA1 \<or> j \<in> P \<union> set nx \<or> expanded x db r dec coll j"
      using inv that(1) unfolding gc_inv_def by blast
    then show ?thesis using expanded_mono [of x db r dec coll j coll'] coll' nx' by blast
  next
    case False
    then have new: "dec (de_id e) \<notin> set coll" "dec j = dec (de_id e)" using that(2) coll' by auto
    have "de_id e \<in> D \<union> F" using kind by (auto split: if_splits)
    then have eq: "j = de_id e" using dom that(1) new(2) unfolding gc_domain_def inj_on_def by blast
    show ?thesis
    proof (cases "has_dir_bit (de_mode e)")
      case True
      then show ?thesis using eq new(1) nx' by simp
    next
      case False
      then have "j \<in> F" using kind eq by simp
      then show ?thesis using dom that(1) unfolding gc_domain_def by blast
    qed
  qed
  moreover have "set coll' \<subseteq> dec ` (D \<union> F)" "P \<union> set nx' \<subseteq> D"
    using inv kind coll' nx' unfolding gc_inv_def by (auto split: if_splits)
  ultimately show ?thesis using coll' unfolding gc_inv_def by blast
qed

lemma gc_entries_step:
  assumes dom: "gc_domain x db r dec D F" and i: "i \<in> D" "read_fs_dir_data x db r i = Inr d"
    and "set es \<subseteq> set (dirents d)" "gc_inv x db r dec D F (P \<union> set nx) coll" "fold (gc_entry dec) es (coll, nx) = (coll', nx')"
  shows "gc_inv x db r dec D F (P \<union> set nx') coll' \<and> set coll' = (dec \<circ> de_id) ` set es \<union> set coll"
  using assms(4-)
proof (induction es arbitrary: coll nx)
  case (Cons e es)
  obtain c1 n1 where s: "gc_entry dec e (coll, nx) = (c1, n1)" by fastforce
  have e: "e \<in> set (dirents d)" using Cons.prems(1) by simp
  have st: "gc_inv x db r dec D F (P \<union> set n1) c1 \<and> set c1 = insert (dec (de_id e)) (set coll)"
    by (rule gc_entry_step [OF dom i e Cons.prems(2) s])
  have "gc_inv x db r dec D F (P \<union> set nx') coll' \<and> set coll' = (dec \<circ> de_id) ` set es \<union> set c1"
    by (rule Cons.IH) (use Cons.prems s st in auto)
  then show ?case using st by auto
qed simp

lemma gc_inv_drop:
  "gc_inv x db r dec D F (insert i P) coll \<Longrightarrow> expanded x db r dec coll i \<or> i = EMPTY_SHA1 \<Longrightarrow> gc_inv x db r dec D F P coll"
  unfolding gc_inv_def by blast

lemma gc_objects_step:
  assumes dom: "gc_domain x db r dec D F"
    and "rfold (gc_object x dec) objs (coll, nx) = Inr (coll', nx')"
    and "\<forall>(i, obj)\<in>set objs. db (r, i) = Some obj"
    and "gc_inv x db r dec D F (fst ` set objs \<union> set nx) coll"
  shows "gc_inv x db r dec D F (set nx') coll' \<and> set coll \<subseteq> set coll'"
  using assms(2-)
proof (induction objs arbitrary: coll nx)
  case (Cons io objs)
  obtain i obj where io: "io = (i, obj)" by (cases io)
  from Cons.prems(1) io obtain c1 n1 where s: "gc_object x dec (i, obj) (coll, nx) = Inr (c1, n1)"
    and rest: "rfold (gc_object x dec) objs (c1, n1) = Inr (coll', nx')"
    by (auto simp: rbind_eq_Inr_iff)
  have row: "db (r, i) = Some obj" using Cons.prems(2) io by simp
  have iD: "i \<in> D" using Cons.prems(3) io unfolding gc_inv_def by auto
  have ne: "i \<noteq> EMPTY_SHA1" using dom row unfolding gc_domain_def by auto
  have inv: "gc_inv x db r dec D F (insert i (fst ` set objs) \<union> set nx) coll" using Cons.prems(3) io by simp
  have "gc_inv x db r dec D F (fst ` set objs \<union> set n1) c1 \<and> set coll \<subseteq> set c1"
  proof (cases "obj_type obj = as_i8 SEAF_METADATA_TYPE_DIR")
    case False
    then have eq: "c1 = coll" "n1 = nx" using s by (simp_all add: gc_object_def)
    have "expanded x db r dec coll i"
      using False row ne by (auto simp: expanded_def read_fs_dir_data_def)
    then show ?thesis using gc_inv_drop [of x db r dec D F i "fst ` set objs \<union> set nx" coll] inv eq by simp
  next
    case True
    then obtain d where d: "parse_dir x (obj_data obj) = Inr d" "fold (gc_entry dec) (dirents d) (coll, nx) = (c1, n1)"
      using s by (auto simp: gc_object_def rbind_eq_Inr_iff)
    have read: "read_fs_dir_data x db r i = Inr d" using row ne True d(1) by (simp add: read_fs_dir_data_def)
    have st: "gc_inv x db r dec D F (insert i (fst ` set objs) \<union> set n1) c1 \<and>
        set c1 = (dec \<circ> de_id) ` set (dirents d) \<union> set coll"
      by (rule gc_entries_step [OF dom iD read subset_refl inv d(2)])
    have "expanded x db r dec c1 i" using st read by (auto simp: expanded_def)
    then show ?thesis using gc_inv_drop [of x db r dec D F i "fst ` set objs \<union> set n1" c1] st by simp
  qed
  then have "gc_inv x db r dec D F (set nx') coll' \<and> set c1 \<subseteq> set coll'"
    using Cons.IH [OF rest] Cons.prems(2) by simp
  then show ?case using \<open>gc_inv x db r dec D F (fst ` set objs \<union> set n1) c1 \<and> set coll \<subseteq> set c1\<close> by blast
qed simp

lemma fetch_rows:
  "set (fetch_fs_object_map db r ids) = {(i, obj). i \<in> set ids \<and> db (r, i) = Some obj}"
proof -
  have "(i, obj) \<in> set (fetch_fs_object_map db r ids) \<longleftrightarrow> map_of (fetch_fs_object_map db r ids) i = Some obj" for i obj
    by (simp add: distinct_fetch)
  then show ?thesis by (auto simp: map_of_fetch split: if_splits)
qed

interpretation gc_walk: level_walk "gc_collect_level x db r dec"
    "\<lambda>n fr coll. gc_domain x db r dec D F \<and> gc_inv x db r dec D F (set fr) coll \<and> set start \<subseteq> set coll"
    for x db r dec D F start
proof
  fix fr nexts n and coll coll' :: "string list"
  assume step: "gc_collect_level x db r dec fr coll = Inr (nexts, coll')"
    and I: "gc_domain x db r dec D F \<and> gc_inv x db r dec D F (set fr) coll \<and> set start \<subseteq> set coll"
  let ?objs = "fetch_fs_object_map db r fr"
  have run: "rfold (gc_object x dec) ?objs (coll, []) = Inr (coll', nexts)"
    using step by (auto simp: gc_collect_level_def rbind_eq_Inr_iff)
  have keys: "fst ` set ?objs = {i \<in> set fr. db (r, i) \<noteq> None}" by (force simp: fetch_rows)
  have "expanded x db r dec coll i \<or> i = EMPTY_SHA1" if "db (r, i) = None" for i
    using that by (auto simp: expanded_def read_fs_dir_data_def)
  then have "gc_inv x db r dec D F (fst ` set ?objs \<union> set []) coll"
    using I unfolding gc_inv_def keys by auto
  then have "gc_inv x db r dec D F (set nexts) coll' \<and> set coll \<subseteq> set coll'"
    using I by (intro gc_objects_step [OF _ run]) (auto simp: fetch_rows)
  then show "gc_domain x db r dec D F \<and> gc_inv x db r dec D F (set nexts) coll' \<and> set start \<subseteq> set coll'"
    using I by blast
qed

lemma gc_collect_step:
  assumes dom: "gc_domain (gc_ext env) db r (gc_dec env) D F" and root: "root \<in> D"
    and inv: "gc_inv (gc_ext env) db r (gc_dec env) D F {} coll"
    and run: "gc_collect_fs_ids env db r root coll = Inr coll'"
  shows "gc_inv (gc_ext env) db r (gc_dec env) D F {} coll' \<and> insert (gc_dec env root) (set coll) \<subseteq> set coll'"
proof (cases "gc_dec env root \<in> set coll")
  case True
  then show ?thesis using run inv by (simp add: gc_collect_fs_ids_def)
next
  case False
  let ?c = "List.insert (gc_dec env root) coll"
  have bfs: "bfs (gc_lim env) (gc_collect_level (gc_ext env) db r (gc_dec env)) new_guard [root] ?c = Inr coll'"
    using run False by (simp add: gc_collect_fs_ids_def)
  have "gc_inv (gc_ext env) db r (gc_dec env) D F {root} ?c"
  proof -
    have "i = root \<or> gc_dec env i \<in> set coll" if "i \<in> D" "gc_dec env i \<in> set ?c" for i
      using that dom root unfolding gc_domain_def inj_on_def by auto
    then show ?thesis using inv root expanded_mono [of "gc_ext env" db r "gc_dec env" coll _ ?c]
      unfolding gc_inv_def by auto
  qed
  then show ?thesis using gc_walk.bfs_result [OF bfs, of D F ?c] dom by (simp add: new_guard_def)
qed

lemma gc_roots_step:
  assumes dom: "gc_domain (gc_ext env) db r (gc_dec env) D F"
    and "rfold (\<lambda>c reach. if gm_id c \<in> set keep then gc_collect_fs_ids env db r (gm_root_id c) reach else Inr reach) cs coll = Inr coll'"
    and "\<forall>c\<in>set cs. gm_id c \<in> set keep \<longrightarrow> gm_root_id c \<in> D" "gc_inv (gc_ext env) db r (gc_dec env) D F {} coll"
  shows "gc_inv (gc_ext env) db r (gc_dec env) D F {} coll' \<and> set coll \<subseteq> set coll' \<and>
    (\<forall>c\<in>set cs. gm_id c \<in> set keep \<longrightarrow> gc_dec env (gm_root_id c) \<in> set coll')"
  using assms(2-)
proof (induction cs arbitrary: coll)
  case (Cons c cs)
  from Cons.prems(1) obtain c1 where s: "(if gm_id c \<in> set keep then gc_collect_fs_ids env db r (gm_root_id c) coll else Inr coll) = Inr c1"
    and rest: "rfold (\<lambda>c reach. if gm_id c \<in> set keep then gc_collect_fs_ids env db r (gm_root_id c) reach else Inr reach) cs c1 = Inr coll'"
    by (auto simp: rbind_eq_Inr_iff)
  have st: "gc_inv (gc_ext env) db r (gc_dec env) D F {} c1 \<and> set coll \<subseteq> set c1 \<and>
      (gm_id c \<in> set keep \<longrightarrow> gc_dec env (gm_root_id c) \<in> set c1)"
    using gc_collect_step [OF dom _ Cons.prems(3), of "gm_root_id c" c1] s Cons.prems(2,3) by (auto split: if_splits)
  have "gc_inv (gc_ext env) db r (gc_dec env) D F {} coll' \<and> set c1 \<subseteq> set coll' \<and>
    (\<forall>c\<in>set cs. gm_id c \<in> set keep \<longrightarrow> gc_dec env (gm_root_id c) \<in> set coll')"
    by (rule Cons.IH [OF rest]) (use Cons.prems(2) st in auto)
  then show ?case using st by auto
qed simp

text \<open>A closed collection holds everything below a directory in it.\<close>

lemma collected_tree:
  assumes dom: "gc_domain x db r dec D F" and inv: "gc_inv x db r dec D F {} coll"
    and "tree_dir x db r i j" "i \<in> D" "dec i \<in> set coll"
  shows "j \<in> D \<and> dec j \<in> set coll"
  using assms(3-)
proof (induction rule: tree_dir.induct)
  case (dir_step i d e k)
  have "i \<noteq> EMPTY_SHA1" using dir_step.hyps(1,2) by (auto simp: empty_dir_def)
  then have "expanded x db r dec coll i" using inv dir_step.prems unfolding gc_inv_def by blast
  then have "dec (de_id e) \<in> set coll" using dir_step.hyps unfolding expanded_def by blast
  moreover have "de_id e \<in> D" using dom dir_step.hyps dir_step.prems unfolding gc_domain_def by (metis (full_types))
  ultimately show ?case using dir_step.IH by blast
qed simp

lemma collected_objects:
  assumes "gc_domain x db r dec D F" "gc_inv x db r dec D F {} coll" "tree_obj x db r i k" "i \<in> D" "dec i \<in> set coll"
  shows "dec k \<in> set coll"
proof -
  from assms(3) consider "tree_dir x db r i k"
    | j d e where "tree_dir x db r i j" "read_fs_dir_data x db r j = Inr d" "e \<in> set (dirents d)" "k = de_id e"
    unfolding tree_obj_def by blast
  then show ?thesis
  proof cases
    case 1
    then show ?thesis using collected_tree [OF assms(1,2) _ assms(4,5)] by blast
  next
    case 2
    have j: "j \<in> D" "dec j \<in> set coll" using collected_tree [OF assms(1,2) 2(1) assms(4,5)] by auto
    have "j \<noteq> EMPTY_SHA1" using 2(2,3) by (auto simp: empty_dir_def)
    then have "expanded x db r dec coll j" using assms(2) j unfolding gc_inv_def by blast
    then show ?thesis using 2 unfolding expanded_def by blast
  qed
qed

section \<open>What the pass keeps\<close>

lemma read_file_batch_complete:
  assumes "read_fs_file_data_batch x db r ids = Inr m" "k \<in> set ids" "k \<noteq> EMPTY_SHA1" "read_fs_file_data x db r k = Inr fd"
  shows "map_of m k = Some fd"
proof -
  let ?P = "\<lambda>obj. obj_type obj = as_i8 SEAF_METADATA_TYPE_FILE"
  let ?rows = "fetch_fs_object_map db r (filter (\<lambda>i. i \<noteq> EMPTY_SHA1) ids)"
  let ?start = "if list_ex (\<lambda>i. i = EMPTY_SHA1) ids then [(EMPTY_SHA1, empty_file)] else []"
  have m: "map_of m k = (case map_of ?rows k of
      Some obj \<Rightarrow> if ?P obj then (case map_err Internal (parse_file x (obj_data obj)) of
        Inr d \<Rightarrow> Some d | Inl _ \<Rightarrow> None) else map_of ?start k
    | None \<Rightarrow> map_of ?start k)"
    by (rule rfold_collect_ok) (use assms(1) distinct_fetch in \<open>simp_all add: read_fs_file_data_batch_def\<close>)
  obtain obj where "db (r, k) = Some obj" "?P obj" "parse_file x (obj_data obj) = Inr fd"
    using assms(3,4) by (auto simp: read_fs_file_data_def rbind_eq_Inr_iff split: if_splits)
  then show ?thesis using m assms(2,3) by (simp add: map_of_fetch)
qed

lemma alive_set: "set (fold (\<lambda>(_, f) alive. fold List.insert (block_ids f) alive) files acc) =
    (\<Union>p\<in>set files. set (block_ids (snd p))) \<union> set acc"
proof (induction files arbitrary: acc)
  case (Cons p files)
  have "set (fold List.insert bs acc) = set bs \<union> set acc" for bs :: "string list" and acc
    by (induction bs arbitrary: acc) auto
  then show ?case using Cons by (cases p) auto
qed simp

definition retained :: "gc_env \<Rightarrow> gc_state \<Rightarrow> gc_repo \<Rightarrow> gc_commit set" where
  "retained env st p = {c \<in> set (gs_commits st (gr_id p)). gm_id c \<in> set (compute_keep_commits
     (commits_by_ctime_desc st (gr_id p)) (gr_history_limit p) (gr_history_ttl_days p) (gc_now env))}"

definition retained_dirs :: "gc_env \<Rightarrow> gc_state \<Rightarrow> gc_repo \<Rightarrow> string set" where
  "retained_dirs env st p = {i. \<exists>c\<in>retained env st p. tree_dir (gc_ext env) (gs_objects st) (gr_id p) (gm_root_id c) i}"

definition retained_files :: "gc_env \<Rightarrow> gc_state \<Rightarrow> gc_repo \<Rightarrow> string set" where
  "retained_files env st p = {k. \<exists>c\<in>retained env st p. tree_file (gc_ext env) (gs_objects st) (gr_id p) (gm_root_id c) k}"

text \<open>What the pass relies on: ids in the trees survive decoding and encoding, no id but the
  sentinel is used both as a directory and as a file, and no row is stored under the sentinel.\<close>

definition gc_wellformed :: "gc_env \<Rightarrow> gc_state \<Rightarrow> gc_repo \<Rightarrow> bool" where
  "gc_wellformed env st p \<longleftrightarrow> gs_objects st (gr_id p, EMPTY_SHA1) = None \<and>
     (\<forall>i\<in>retained_dirs env st p \<union> retained_files env st p. gc_enc env (gc_dec env i) = i) \<and>
     retained_dirs env st p \<inter> retained_files env st p \<subseteq> {EMPTY_SHA1}"

lemma gc_wellformed_domain:
  assumes "gc_wellformed env st p"
  shows "gc_domain (gc_ext env) (gs_objects st) (gr_id p) (gc_dec env) (retained_dirs env st p) (retained_files env st p)"
proof -
  have "inj_on (gc_dec env) (retained_dirs env st p \<union> retained_files env st p)"
    using assms unfolding gc_wellformed_def by (intro inj_on_inverseI [of _ "gc_enc env"]) blast
  moreover have "if has_dir_bit (de_mode e) then de_id e \<in> retained_dirs env st p else de_id e \<in> retained_files env st p"
    if i: "i \<in> retained_dirs env st p" and d: "read_fs_dir_data (gc_ext env) (gs_objects st) (gr_id p) i = Inr d" "e \<in> set (dirents d)" for i d e
  proof -
    from i obtain c where c: "c \<in> retained env st p" "tree_dir (gc_ext env) (gs_objects st) (gr_id p) (gm_root_id c) i"
      unfolding retained_dirs_def by blast
    show ?thesis
    proof (cases "has_dir_bit (de_mode e)")
      case True
      have "tree_dir (gc_ext env) (gs_objects st) (gr_id p) i (de_id e)" by (rule dir_step [OF d True dir_self])
      then show ?thesis using True c tree_dir_trans unfolding retained_dirs_def by fastforce
    next
      case False
      then show ?thesis using c d unfolding retained_files_def tree_file_def by fastforce
    qed
  qed
  ultimately show ?thesis using assms unfolding gc_domain_def gc_wellformed_def by blast
qed

lemma set_commits_desc [simp]: "set (commits_by_ctime_desc st r) = set (gs_commits st r)"
  by (simp add: commits_by_ctime_desc_def)

lemma collect_alive:
  assumes wf: "gc_wellformed env st p" and c: "c \<in> retained env st p"
    and run: "collect_repo_alive_blocks env (gs_objects st) (gr_id p) (commits_by_ctime_desc st (gr_id p))
      (compute_keep_commits (commits_by_ctime_desc st (gr_id p)) (gr_history_limit p) (gr_history_ttl_days p) (gc_now env))
      = Inr (reachable, alive)"
  shows "tree_obj (gc_ext env) (gs_objects st) (gr_id p) (gm_root_id c) k \<Longrightarrow> gc_dec env k \<in> set reachable"
    and "tree_file (gc_ext env) (gs_objects st) (gr_id p) (gm_root_id c) k \<Longrightarrow>
      read_fs_file_data (gc_ext env) (gs_objects st) (gr_id p) k = Inr fd \<Longrightarrow> set (block_ids fd) \<subseteq> set alive"
proof -
  let ?x = "gc_ext env" and ?db = "gs_objects st" and ?r = "gr_id p" and ?cs = "commits_by_ctime_desc st (gr_id p)"
  let ?keep = "compute_keep_commits ?cs (gr_history_limit p) (gr_history_ttl_days p) (gc_now env)"
  let ?D = "retained_dirs env st p" and ?F = "retained_files env st p"
  note dom = gc_wellformed_domain [OF wf]
  have c': "c \<in> set ?cs" "gm_id c \<in> set ?keep" using c by (simp_all add: retained_def)
  have ne: "?cs \<noteq> []" using c'(1) by (metis empty_iff empty_set)
  obtain coll where coll: "rfold (\<lambda>c reach. if gm_id c \<in> set ?keep then gc_collect_fs_ids env ?db ?r (gm_root_id c) reach else Inr reach) ?cs [] = Inr coll"
    and rest: "(if coll = [] then Inr (coll, []) else rbind (read_fs_file_data_batch ?x ?db ?r (map (gc_enc env) coll)) (\<lambda>files.
          Inr (coll, fold (\<lambda>(_, f) alive. fold List.insert (block_ids f) alive) files []))) = Inr (reachable, alive)"
    using run ne by (auto simp: collect_repo_alive_blocks_def rbind_eq_Inr_iff)
  have roots: "gm_root_id c' \<in> ?D" if "c' \<in> retained env st p" for c'
    using that dir_self unfolding retained_dirs_def by blast
  have inv: "gc_inv ?x ?db ?r (gc_dec env) ?D ?F {} coll \<and> set [] \<subseteq> set coll \<and>
      (\<forall>c\<in>set ?cs. gm_id c \<in> set ?keep \<longrightarrow> gc_dec env (gm_root_id c) \<in> set coll)"
    by (rule gc_roots_step [OF dom coll]) (use roots in \<open>auto simp: retained_def gc_inv_def\<close>)
  have cl: "gc_dec env k \<in> set coll" if "tree_obj ?x ?db ?r (gm_root_id c) k" for k
    using collected_objects [OF dom _ that roots [OF c]] inv c' by blast
  have reach: "reachable = coll" using rest by (auto simp: rbind_eq_Inr_iff split: if_splits)
  show "tree_obj ?x ?db ?r (gm_root_id c) k \<Longrightarrow> gc_dec env k \<in> set reachable" using cl reach by simp
  assume f: "tree_file ?x ?db ?r (gm_root_id c) k" and read: "read_fs_file_data ?x ?db ?r k = Inr fd"
  show "set (block_ids fd) \<subseteq> set alive"
  proof (cases "k = EMPTY_SHA1")
    case True
    then show ?thesis using read by (auto simp: read_fs_file_data_def empty_file_def)
  next
    case False
    have "tree_obj ?x ?db ?r (gm_root_id c) k" using f unfolding tree_file_def tree_obj_def by blast
    then have k: "gc_dec env k \<in> set coll" by (rule cl)
    have "k \<in> ?F" using f c unfolding retained_files_def by blast
    then have "gc_enc env (gc_dec env k) = k" using wf unfolding gc_wellformed_def by blast
    then have ids: "k \<in> set (map (gc_enc env) coll)" using k by force
    obtain files where files: "read_fs_file_data_batch ?x ?db ?r (map (gc_enc env) coll) = Inr files"
      and al: "set alive = (\<Union>q\<in>set files. set (block_ids (snd q)))"
      using rest k by (auto simp: rbind_eq_Inr_iff alive_set split: if_splits)
    have "(k, fd) \<in> set files" using map_of_SomeD [OF read_file_batch_complete [OF files ids False read]] .
    then show ?thesis using al by force
  qed
qed

text \<open>Other writers only add.\<close>

definition gs_le :: "gc_state \<Rightarrow> gc_state \<Rightarrow> bool" where
  "gs_le st st' \<longleftrightarrow> (\<forall>r. set (gs_commits st r) \<subseteq> set (gs_commits st' r)) \<and> gs_objects st \<subseteq>\<^sub>m gs_objects st' \<and>
     (\<forall>r. set (gs_blocks st r) \<subseteq> set (gs_blocks st' r))"

definition only_add :: "gc_env \<Rightarrow> bool" where
  "only_add env \<longleftrightarrow> (\<forall>r st. gs_le st (gc_others_prune env r st) \<and> gs_le st (gc_others_check env r st))"

text \<open>The retained commits of library \<open>p\<close> as of \<open>st\<close> are intact in \<open>st'\<close>: their rows, every stored object
  of their trees, and every stored block of their files.\<close>

definition retained_intact :: "gc_env \<Rightarrow> gc_state \<Rightarrow> gc_repo \<Rightarrow> gc_state \<Rightarrow> bool" where
  "retained_intact env st p st' \<longleftrightarrow> (\<forall>c\<in>retained env st p. c \<in> set (gs_commits st' (gr_id p)) \<and>
     (\<forall>k row. tree_obj (gc_ext env) (gs_objects st) (gr_id p) (gm_root_id c) k \<longrightarrow>
        gs_objects st (gr_id p, k) = Some row \<longrightarrow> gs_objects st' (gr_id p, k) = Some row) \<and>
     (\<forall>k fd. tree_file (gc_ext env) (gs_objects st) (gr_id p) (gm_root_id c) k \<longrightarrow>
        read_fs_file_data (gc_ext env) (gs_objects st) (gr_id p) k = Inr fd \<longrightarrow>
        {b \<in> set (gs_blocks st (gr_id p)). fst b \<in> set (block_ids fd)} \<subseteq> set (gs_blocks st' (gr_id p))))"

lemma retained_intact_refl: "retained_intact env st p st"
  by (auto simp: retained_intact_def retained_def)

lemma retained_intact_le: "retained_intact env st p st1 \<Longrightarrow> gs_le st1 st2 \<Longrightarrow> retained_intact env st p st2"
  unfolding retained_intact_def gs_le_def by (blast intro: map_le_SomeD)

lemma prune_intact:
  assumes "retained_intact env st p st1"
    and keep: "keep = compute_keep_commits cs (gr_history_limit p) (gr_history_ttl_days p) (gc_now env)"
      "cs = commits_by_ctime_desc st (gr_id p)"
    and reach: "\<And>c k. c \<in> retained env st p \<Longrightarrow> tree_obj (gc_ext env) (gs_objects st) (gr_id p) (gm_root_id c) k \<Longrightarrow> gc_dec env k \<in> set reachable"
  shows "retained_intact env st p (prune_repo env p cs keep reachable st1)"
proof (cases "length keep = length cs")
  case False
  have "gm_id c \<notin> gm_id ` {c \<in> set cs. gm_id c \<notin> set keep}" if "c \<in> retained env st p" for c
    using that keep by (auto simp: retained_def)
  then show ?thesis using assms(1) reach False
    unfolding retained_intact_def by (simp add: prune_repo_def Let_def)
qed (use assms(1) in \<open>simp add: prune_repo_def\<close>)

lemma delete_orphans_effect:
  "gs_commits (snd (delete_orphans env r n bs st)) = gs_commits st \<and> gs_objects (snd (delete_orphans env r n bs st)) = gs_objects st \<and>
   gs_repos (snd (delete_orphans env r n bs st)) = gs_repos st \<and>
   {b \<in> set (gs_blocks st r). fst b \<notin> set bs} \<subseteq> set (gs_blocks (snd (delete_orphans env r n bs st)) r) \<and>
   (\<forall>q. q \<noteq> r \<longrightarrow> gs_blocks (snd (delete_orphans env r n bs st)) q = gs_blocks st q)"
proof (induction env r n bs st rule: delete_orphans.induct)
  case (2 env r n b bs st)
  show ?case
  proof (cases "if n mod CHECKPOINT_EVERY_BLOCKS = 0 then gc_checkpoint env r (Some n) else Inr ()")
    case (Inr v)
    then show ?thesis using 2 [OF Inr] by (cases "too_fresh env st r b") (auto simp: remove_block_def)
  qed auto
qed simp


section \<open>What the pass does not keep\<close>

lemma keep_empty:
  "l = 0 \<Longrightarrow> 0 < ttl \<Longrightarrow> \<forall>c\<in>set cs. gm_ctime c < now - ttl * SECS_PER_DAY \<Longrightarrow> compute_keep_commits cs l ttl now = []"
proof -
  assume "l = 0" "0 < ttl" and old: "\<forall>c\<in>set cs. gm_ctime c < now - ttl * SECS_PER_DAY"
  moreover have none: "{c \<in> set cs. now - ttl * SECS_PER_DAY \<le> gm_ctime c} = {}" using old by fastforce
  ultimately have "set (compute_keep_commits cs l ttl now) = {}" unfolding set_keep none by simp
  then show ?thesis by simp
qed

text \<open>
  Retention does not protect HEAD. A library with an age limit and no count limit whose commits
  are all older than the limit loses every commit row and every object, HEAD's included, while the
  library still names that HEAD; no writer has to interfere.
\<close>

theorem gc_drops_old_head:
  assumes "gr_history_limit p = 0" "0 < gr_history_ttl_days p" "gs_commits st (gr_id p) \<noteq> []"
    and old: "\<forall>c\<in>set (gs_commits st (gr_id p)). gm_ctime c < gc_now env - gr_history_ttl_days p * SECS_PER_DAY"
    and "gc_checkpoint env (gr_id p) None = Inr ()"
    and quiet: "gc_others_prune env = (\<lambda>_ st. st)" "gc_others_check env = (\<lambda>_ st. st)"
  shows "gs_commits (snd (gc_one_repo env p st)) (gr_id p) = [] \<and>
    (\<forall>i. gs_objects (snd (gc_one_repo env p st)) (gr_id p, i) = None) \<and>
    gs_repos (snd (gc_one_repo env p st)) = gs_repos st"
proof -
  define cs where "cs = commits_by_ctime_desc st (gr_id p)"
  have ne: "cs \<noteq> []" using assms(3) by (metis cs_def empty_set set_commits_desc set_empty)
  have keep: "compute_keep_commits cs (gr_history_limit p) (gr_history_ttl_days p) (gc_now env) = []"
    by (rule keep_empty) (use assms(1,2) old in \<open>simp_all add: cs_def\<close>)
  have "rfold (\<lambda>c reach. Inr reach) xs acc = (Inr acc :: string list result)" for xs :: "gc_commit list" and acc
    by (induction xs) simp_all
  then have alive: "collect_repo_alive_blocks env (gs_objects st) (gr_id p) cs [] = Inr ([], [])"
    using ne by (simp add: collect_repo_alive_blocks_def)
  have "length [] \<noteq> length cs" using ne by simp
  then have pruned: "gs_commits (prune_repo env p cs [] [] st) (gr_id p) = []"
      "gs_objects (prune_repo env p cs [] [] st) (gr_id p, i) = None"
      "gs_repos (prune_repo env p cs [] [] st) = gs_repos st" for i
    by (simp_all add: prune_repo_def Let_def filter_empty_conv cs_def)
  show ?thesis using assms(2,5) quiet ne keep alive pruned delete_orphans_effect [of env "gr_id p" 0 _ "prune_repo env p cs [] [] st"]
    by (simp add: gc_one_repo_def Let_def cs_def [symmetric])
qed

section \<open>Concrete passes\<close>

definition gc_demo_commit :: "int \<Rightarrow> string \<Rightarrow> string \<Rightarrow> int \<Rightarrow> gc_commit" where
  "gc_demo_commit n i root ctime = \<lparr>gm_id = n, gm_commit_id = i, gm_root_id = root, gm_ctime = ctime\<rparr>"

text \<open>A library with two commits that keeps one; the tree of the older is gone from the newer.\<close>

definition gc_demo_repo :: "string \<Rightarrow> int \<Rightarrow> int \<Rightarrow> gc_repo" where
  "gc_demo_repo h l ttl = \<lparr>gr_id = ''r'', gr_head = Some h, gr_history_limit = l, gr_history_ttl_days = ttl\<rparr>"

definition gc_demo_db :: "string list \<Rightarrow> fs_objects" where
  "gc_demo_db dirs = (\<lambda>(r, i). if r = ''r'' \<and> List.member dirs i then Some \<lparr>obj_type = 3, obj_data = i\<rparr>
     else if r = ''r'' \<and> i = ''F'' then Some \<lparr>obj_type = 1, obj_data = i\<rparr> else None)"

definition gc_demo_x :: externs where
  "gc_demo_x = (demo_externs [(''O'', mk_dir [demo_file ''F'' ''f'']), (''R'', mk_dir [demo_file ''F'' ''f'']),
     (''N'', mk_dir [demo_file ''F'' ''g''])])
     \<lparr>parse_file := (\<lambda>s. Inr \<lparr>block_ids = [s], file_size = 3, file_type = 1, file_version = 1\<rparr>)\<rparr>"

definition gc_demo_state :: "int \<Rightarrow> int \<Rightarrow> gc_state" where
  "gc_demo_state l ttl = \<lparr>gs_repos = [gc_demo_repo ''c2'' l ttl],
     gs_commits = (\<lambda>r. if r = ''r'' then [gc_demo_commit 1 ''c1'' ''O'' 10, gc_demo_commit 2 ''c2'' ''R'' 20] else []),
     gs_objects = gc_demo_db [''O'', ''R''], gs_blocks = (\<lambda>r. if r = ''r'' then [(''F'', 5), (''X'', 5)] else []),
     gs_deleted_repos = [], gs_repo_dirs = [''r'']\<rparr>"

text \<open>With \<open>push\<close>, a client uploads the tree \<open>N\<close> and moves HEAD to a commit of it right after the snapshot.\<close>

definition gc_push :: "gc_state \<Rightarrow> gc_state" where
  "gc_push st = st\<lparr>gs_objects := (gs_objects st)((''r'', ''N'') \<mapsto> \<lparr>obj_type = 3, obj_data = ''N''\<rparr>),
     gs_commits := (gs_commits st)(''r'' := gs_commits st ''r'' @ [gc_demo_commit 3 ''c3'' ''N'' 2000000]),
     gs_repos := [gc_demo_repo ''c3'' 1 0]\<rparr>"

definition gc_demo_env :: "bool \<Rightarrow> gc_env" where
  "gc_demo_env push = \<lparr>gc_lim = configure 4 9, gc_ext = gc_demo_x, gc_dec = (\<lambda>s. s), gc_enc = (\<lambda>s. s), gc_now = 2000000,
     gc_policy = new_gc_policy 600, gc_checkpoint = (\<lambda>_ _. Inr ()),
     gc_others_prune = (\<lambda>_ st. if push then gc_push st else st), gc_others_check = (\<lambda>_ st. st), gc_dir_removed = (\<lambda>_. True)\<rparr>"

theorem gc_drops_old_head_witness:
  "gs_commits (snd (gc_one_repo (gc_demo_env False) (gc_demo_repo ''c2'' 0 1) (gc_demo_state 0 1))) ''r'' = [] \<and>
   map gr_head (gs_repos (snd (gc_one_repo (gc_demo_env False) (gc_demo_repo ''c2'' 0 1) (gc_demo_state 0 1)))) = [Some ''c2'']"
proof -
  have "gs_commits (snd (gc_one_repo (gc_demo_env False) (gc_demo_repo ''c2'' 0 1) (gc_demo_state 0 1))) (gr_id (gc_demo_repo ''c2'' 0 1)) = [] \<and>
    (\<forall>i. gs_objects (snd (gc_one_repo (gc_demo_env False) (gc_demo_repo ''c2'' 0 1) (gc_demo_state 0 1))) (gr_id (gc_demo_repo ''c2'' 0 1), i) = None) \<and>
    gs_repos (snd (gc_one_repo (gc_demo_env False) (gc_demo_repo ''c2'' 0 1) (gc_demo_state 0 1))) = gs_repos (gc_demo_state 0 1)"
    by (rule gc_drops_old_head)
      (simp_all add: gc_demo_repo_def gc_demo_state_def gc_demo_env_def gc_demo_commit_def SECS_PER_DAY_def fun_eq_iff)
  then show ?thesis by (simp add: gc_demo_repo_def gc_demo_state_def)
qed

text \<open>
  Objects that arrive while the pass runs are not protected. On a concrete library with a count
  limit, under the production policy, a push that lands right after the snapshot moves HEAD to its
  commit; the pass then deletes the pushed tree's directory object, because it is not in the
  snapshot's reachable set, and leaves HEAD pointing at a commit whose root is missing. The HEAD check
  that follows only spares the blocks.
\<close>

theorem gc_prunes_inflight_objects:
  "(case gc_one_repo (gc_demo_env True) (gc_demo_repo ''c2'' 1 0) (gc_demo_state 1 0) of (res, st') \<Rightarrow>
     res = Inr () \<and> map gr_head (gs_repos st') = [Some ''c3''] \<and>
     map gm_root_id (gs_commits st' ''r'') = [''R'', ''N''] \<and> gs_objects st' (''r'', ''N'') = None \<and>
     map fst (gs_blocks st' ''r'') = [''F'', ''X''])"
  by code_simp

lemma gc_demo_read: "read_fs_dir_data gc_demo_x (gc_demo_db [''O'', ''R'']) ''r'' ''R'' = Inr (mk_dir [demo_file ''F'' ''f''])"
  by code_simp

lemma gc_demo_retained:
  "retained (gc_demo_env False) (gc_demo_state 1 0) (gc_demo_repo ''c2'' 1 0) = {gc_demo_commit 2 ''c2'' ''R'' 20}"
proof -
  have k: "compute_keep_commits (commits_by_ctime_desc (gc_demo_state 1 0) ''r'') 1 0 2000000 = [2]" by code_simp
  have e: "gr_id (gc_demo_repo ''c2'' 1 0) = ''r''" "gr_history_limit (gc_demo_repo ''c2'' 1 0) = 1"
      "gr_history_ttl_days (gc_demo_repo ''c2'' 1 0) = 0" "gc_now (gc_demo_env False) = 2000000"
    by (simp_all add: gc_demo_repo_def gc_demo_env_def)
  show ?thesis unfolding retained_def e k by (auto simp: gc_demo_state_def gc_demo_commit_def)
qed

lemma gc_demo_dirs: "tree_dir gc_demo_x (gc_demo_db [''O'', ''R'']) ''r'' ''R'' j \<longleftrightarrow> j = ''R''"
  by (subst tree_dir_unfold) (auto simp: gc_demo_read)

lemma gc_demo_files: "tree_file gc_demo_x (gc_demo_db [''O'', ''R'']) ''r'' ''R'' k \<longleftrightarrow> k = ''F''"
  by (auto simp: tree_file_def gc_demo_dirs gc_demo_read)


end
