(* ===== verification/DirOrder.thy ===== *)
theory DirOrder
  imports Traversal Commit
begin

text \<open>
  Verification and repair of directory order, \<open>server/src/fs/core/dir_order.rs\<close>: the walk that
  computes canonical ids, the report, and the commit that repairs a library.

  The walk threads its memo table, its counter, the report and the object table through the
  recursion. The order of duplicate-name findings follows the iteration of a \<open>HashMap\<close>; here it is
  that of the first occurrences. \<open>do_others\<close> is what other writers do before HEAD is swapped. Printing
  the report is not modelled.
\<close>

section \<open>The report\<close>

record UnorderedDir =
  ud_repo_id :: string
  ud_path :: string
  ud_stored_id :: string
  ud_canonical_id :: string
  ud_dirents :: nat

record StructuralFinding =
  sf_repo_id :: string
  sf_path :: string
  sf_kind :: string
  sf_detail :: string

record RepoRepair =
  rr_repo_id :: string
  rr_head_before :: string
  rr_head_after :: string
  rr_dirs_rewritten :: nat

record DirOrderReport =
  repos_scanned :: nat
  dirs_checked :: nat
  unordered :: "UnorderedDir list"
  do_other :: "StructuralFinding list"
  repairs :: "RepoRepair list"
  repair_errors :: "string list"

definition has_findings :: "DirOrderReport \<Rightarrow> bool" where
  "has_findings rep \<longleftrightarrow> unordered rep \<noteq> [] \<or> do_other rep \<noteq> [] \<or> repair_errors rep \<noteq> []"

record do_env =
  do_ext :: externs
  do_lim :: tree_limits
  do_now :: "string \<Rightarrow> int"
  do_others :: "string \<Rightarrow> tables \<Rightarrow> tables"
  do_unique_err :: string

definition NORMALIZE_DESCRIPTION :: string where "NORMALIZE_DESCRIPTION = ''Normalize directory entry order''"

definition do_join :: "string \<Rightarrow> string \<Rightarrow> string" where
  "do_join dir_path name = (if dir_path = [slash] then slash # name else dir_path @ slash # name)"

definition canonical_form :: "externs \<Rightarrow> FsDirData \<Rightarrow> string" where
  "canonical_form x data =
     (case compute_dir x (data\<lparr>dirents := sort_dirents_desc (dirents data)\<rparr>) of
        Some (fs_id, _) \<Rightarrow> fs_id | None \<Rightarrow> EMPTY_SHA1)"

section \<open>The walk\<close>

record do_walk =
  dw_memo :: "string \<rightharpoonup> string"
  dw_rewritten :: nat
  dw_report :: DirOrderReport
  dw_objects :: fs_objects

definition add_finding :: "string \<Rightarrow> string \<Rightarrow> string \<Rightarrow> string \<Rightarrow> do_walk \<Rightarrow> do_walk" where
  "add_finding repo_id path kind detail s =
     s\<lparr>dw_report := (dw_report s)\<lparr>do_other := do_other (dw_report s) @
       [\<lparr>sf_repo_id = repo_id, sf_path = path, sf_kind = kind, sf_detail = detail\<rparr>]\<rparr>\<rparr>"

definition check_modes :: "string \<Rightarrow> string \<Rightarrow> DirEntryData list \<Rightarrow> do_walk \<Rightarrow> do_walk" where
  "check_modes repo_id path es s =
     fold (\<lambda>e s. if \<not> is_dir_mode (de_mode e) \<and> \<not> is_regular (de_mode e)
                 then add_finding repo_id (do_join path (de_name e)) ''unknown-mode'' (''mode '' @ show_int (sint (de_mode e))) s
                 else s) es s"

definition check_duplicates :: "string \<Rightarrow> string \<Rightarrow> DirEntryData list \<Rightarrow> do_walk \<Rightarrow> do_walk" where
  "check_duplicates repo_id path es s =
     fold (\<lambda>n s. let cnt = length (filter (\<lambda>m. m = n) (map de_name es)) in
                 if cnt > 1
                 then add_finding repo_id (do_join path n) ''duplicate-name'' (show_nat cnt @ '' entries share this name'') s
                 else s) (remdups (map de_name es)) s"

definition check_order :: "externs \<Rightarrow> string \<Rightarrow> string \<Rightarrow> string \<Rightarrow> FsDirData \<Rightarrow> do_walk \<Rightarrow> do_walk" where
  "check_order x repo_id path fs_id data s =
     (let canonical_of_stored = canonical_form x data in
      if canonical_of_stored \<noteq> fs_id
      then s\<lparr>dw_report := (dw_report s)\<lparr>unordered := unordered (dw_report s) @
             [\<lparr>ud_repo_id = repo_id, ud_path = path, ud_stored_id = fs_id, ud_canonical_id = canonical_of_stored,
               ud_dirents = length (dirents data)\<rparr>]\<rparr>\<rparr>
      else s)"

definition load_dir_row :: "externs \<Rightarrow> string \<Rightarrow> string \<Rightarrow> fs_objects \<Rightarrow> FsDirData result" where
  "load_dir_row x repo_id fs_id db =
     rbind (ok_or (NotFound (''fs_object not found: '' @ fs_id)) (db (repo_id, fs_id))) (\<lambda>model.
     if obj_type model \<noteq> as_i8 SEAF_METADATA_TYPE_DIR
     then Inl (NotFound (''fs_object '' @ fs_id @ '' is not a directory''))
     else map_err (\<lambda>e. Internal (''fs_object '' @ fs_id @ '': '' @ e)) (parse_dir x (obj_data model)))"

definition report_dir :: "externs \<Rightarrow> string \<Rightarrow> string \<Rightarrow> string \<Rightarrow> FsDirData \<Rightarrow> do_walk \<Rightarrow> do_walk" where
  "report_dir x repo_id path fs_id data s =
     (let s = s\<lparr>dw_report := (dw_report s)\<lparr>dirs_checked := dirs_checked (dw_report s) + 1\<rparr>\<rparr>;
          s = check_modes repo_id path (dirents data) s;
          s = check_duplicates repo_id path (dirents data) s
      in check_order x repo_id path fs_id data s)"

definition finish_dir :: "externs \<Rightarrow> string \<Rightarrow> bool \<Rightarrow> string \<Rightarrow> FsDirData \<Rightarrow> do_walk \<Rightarrow> string \<times> do_walk" where
  "finish_dir x repo_id rewrite fs_id data s =
     (let (new_id, db) = (if rewrite then store_fs_dir_object x repo_id data (dw_objects s)
                          else (canonical_form x data, dw_objects s))
      in (new_id, s\<lparr>dw_objects := db,
           dw_rewritten := (if new_id \<noteq> fs_id then dw_rewritten s + 1 else dw_rewritten s),
           dw_memo := (dw_memo s)(fs_id \<mapsto> new_id)\<rparr>))"

definition visit_child ::
    "string \<Rightarrow> (string \<Rightarrow> string \<Rightarrow> do_walk \<Rightarrow> string result \<times> do_walk) \<Rightarrow> string \<Rightarrow> DirEntryData \<Rightarrow>
     DirEntryData list \<times> do_walk \<Rightarrow> DirEntryData list \<times> do_walk" where
  "visit_child repo_id rec path entry = (\<lambda>(es, s).
     if \<not> is_dir_mode (de_mode entry) then (es @ [entry], s)
     else
       (case rec (de_id entry) (do_join path (de_name entry)) s of
          (Inr new_id, s) \<Rightarrow> (es @ [entry\<lparr>de_id := new_id\<rparr>], s)
        | (Inl e, s) \<Rightarrow> (es @ [entry], add_finding repo_id (do_join path (de_name entry)) ''dangling-dirent''
              (de_id entry @ '': '' @ display_error e) s)))"

lemma visit_child_cong [fundef_cong]:
  assumes "entry = entry'" "acc = acc'" "\<And>i p s. rec i p s = rec' i p s"
  shows "visit_child repo_id rec path entry acc = visit_child repo_id rec' path entry' acc'"
proof -
  have "rec = rec'" using assms(3) by (intro ext)
  then show ?thesis using assms(1,2) by simp
qed

function canonicalize ::
    "do_env \<Rightarrow> string \<Rightarrow> bool \<Rightarrow> string \<Rightarrow> string \<Rightarrow> nat \<Rightarrow> do_walk \<Rightarrow> string result \<times> do_walk" where
  "canonicalize env repo_id rewrite fs_id path depth s =
     (if fs_id = EMPTY_SHA1 then (Inr EMPTY_SHA1, s)
      else
        (case dw_memo s fs_id of
           Some new_id \<Rightarrow> (Inr new_id, s)
         | None \<Rightarrow>
             if depth > max_tree_depth (do_lim env)
             then (Inl (BadRequest (path @ '' is deeper than the maximum directory depth ('' @
                     show_nat (max_tree_depth (do_lim env)) @ '')'')), s)
             else
               (case load_dir_row (do_ext env) repo_id fs_id (dw_objects s) of
                  Inl e \<Rightarrow> (Inl e, s)
                | Inr data \<Rightarrow>
                    let s = report_dir (do_ext env) repo_id path fs_id data s;
                        (es, s) = fold (visit_child repo_id (\<lambda>i p s. canonicalize env repo_id rewrite i p (depth + 1) s) path)
                          (dirents data) ([], s);
                        (new_id, s) = finish_dir (do_ext env) repo_id rewrite fs_id (data\<lparr>dirents := es\<rparr>) s
                    in (Inr new_id, s))))"
  by pat_completeness auto
termination
  by (relation "measure (\<lambda>(env, _, _, _, _, depth, _). Suc (max_tree_depth (do_lim env)) - depth)") auto

declare canonicalize.simps [simp del]

section \<open>The repairing commit\<close>

definition append_normalizing_commit ::
    "do_env \<Rightarrow> string \<Rightarrow> repo_row \<Rightarrow> commit_row \<Rightarrow> string \<Rightarrow> tables \<Rightarrow> string option result \<times> tables" where
  "append_normalizing_commit env repo_id rp head_commit new_root t =
     (let ctime = do_now env repo_id;
          data = mk_commit repo_id new_root (cm_creator_name head_commit) EMPTY_SHA1 NORMALIZE_DESCRIPTION ctime
                   (Some (cm_commit_id head_commit)) (rp_version rp);
          commit_id = compute_commit_id (do_ext env) data in
      case insert_commit (do_unique_err env) repo_id
             \<lparr>cm_commit_id = commit_id, cm_root_id = new_root, cm_parent_id = Some (cm_commit_id head_commit),
              cm_second_parent_id = None, cm_creator_name = cm_creator_name head_commit, cm_creator = EMPTY_SHA1,
              cm_description = NORMALIZE_DESCRIPTION, cm_ctime = ctime, cm_version = as_i8 (rp_version rp),
              cm_new_merge = None, cm_conflict = None\<rparr> t of
        (Inl e, t) \<Rightarrow> (Inl e, t)
      | (Inr _, t) \<Rightarrow>
          let t = do_others env repo_id t in
          (case t_repos t repo_id of
             None \<Rightarrow> (Inr None, t)
           | Some cur \<Rightarrow>
               if rp_head_commit_id cur = Some (cm_commit_id head_commit)
               then (Inr (Some commit_id), t\<lparr>t_repos := (t_repos t)(repo_id \<mapsto> cur\<lparr>rp_head_commit_id := Some commit_id\<rparr>)\<rparr>)
               else (Inr None, t)))"

section \<open>The run\<close>

definition add_error :: "string \<Rightarrow> DirOrderReport \<Rightarrow> DirOrderReport" where
  "add_error e rep = rep\<lparr>repair_errors := repair_errors rep @ [e]\<rparr>"

definition check_repo :: "do_env \<Rightarrow> bool \<Rightarrow> string \<times> repo_row \<Rightarrow> DirOrderReport \<times> tables \<Rightarrow> DirOrderReport \<times> tables" where
  "check_repo env repair = (\<lambda>(repo_id, rp) (report, t).
     case (case rp_head_commit_id rp of Some h \<Rightarrow> if h \<noteq> EMPTY_SHA1 then Some h else None | None \<Rightarrow> None) of
       None \<Rightarrow> (report, t)
     | Some head_id \<Rightarrow>
         (case t_commits t (repo_id, head_id) of
            None \<Rightarrow> (add_error (repo_id @ '': HEAD commit '' @ head_id @ '' is missing'') report, t)
          | Some head_commit \<Rightarrow>
              (case canonicalize env repo_id repair (cm_root_id head_commit) [slash] 0
                      \<lparr>dw_memo = Map.empty, dw_rewritten = 0, dw_report = report, dw_objects = t_objects t\<rparr> of
                 (Inl e, s) \<Rightarrow> (add_error (repo_id @ '': '' @ display_error e) (dw_report s), t\<lparr>t_objects := dw_objects s\<rparr>)
               | (Inr new_root, s) \<Rightarrow>
                   let report = dw_report s; t = t\<lparr>t_objects := dw_objects s\<rparr> in
                   if \<not> repair \<or> new_root = cm_root_id head_commit then (report, t)
                   else
                     (case append_normalizing_commit env repo_id rp head_commit new_root t of
                        (Inr (Some commit_id), t) \<Rightarrow>
                          (report\<lparr>repairs := repairs report @ [\<lparr>rr_repo_id = repo_id, rr_head_before = head_id,
                             rr_head_after = commit_id, rr_dirs_rewritten = dw_rewritten s\<rparr>]\<rparr>, t)
                      | (Inr None, t) \<Rightarrow>
                          (add_error (repo_id @ '': HEAD moved while repairing; nothing was committed, re-run'') report, t)
                      | (Inl e, t) \<Rightarrow> (add_error (repo_id @ '': could not commit: '' @ display_error e) report, t)))))"

text \<open>\<open>all_ids\<close> is the order in which the database returns the libraries.\<close>

definition dir_order_run ::
    "do_env \<Rightarrow> string list \<Rightarrow> string option \<Rightarrow> bool \<Rightarrow> tables \<Rightarrow> DirOrderReport result \<times> tables" where
  "dir_order_run env all_ids repo_filter repair t =
     (let ids = (case repo_filter of Some i \<Rightarrow> filter (\<lambda>j. j = i) all_ids | None \<Rightarrow> all_ids);
          repos = List.map_filter (\<lambda>i. map_option (Pair i) (t_repos t i)) ids in
      case (repos, repo_filter) of
        ([], Some i) \<Rightarrow> (Inl (NotFound (''library not found: '' @ i)), t)
      | _ \<Rightarrow>
          let report = \<lparr>repos_scanned = length repos, dirs_checked = 0, unordered = [], do_other = [], repairs = [], repair_errors = []\<rparr>;
              (report, t) = fold (check_repo env repair) repos (report, t)
          in (Inr report, t))"

section \<open>What the steps keep\<close>

lemma add_finding_sel [simp]:
  "dw_memo (add_finding r p k d s) = dw_memo s" "dw_rewritten (add_finding r p k d s) = dw_rewritten s"
  "dw_objects (add_finding r p k d s) = dw_objects s"
  "unordered (dw_report (add_finding r p k d s)) = unordered (dw_report s)"
  "repairs (dw_report (add_finding r p k d s)) = repairs (dw_report s)"
  "repair_errors (dw_report (add_finding r p k d s)) = repair_errors (dw_report s)"
  by (simp_all add: add_finding_def)

text \<open>A property of the walk that findings do not disturb survives every step of a loop over entries.\<close>

lemma checks_inv:
  assumes "\<And>k p d s. Q s \<Longrightarrow> Q (add_finding r p k d s)" "Q s"
  shows "Q (check_modes r path es s)" "Q (check_duplicates r path es s)"
proof -
  show "Q (check_modes r path es s)"
    unfolding check_modes_def using assms(2) by (induction es arbitrary: s) (auto simp: assms(1))
  have "Q (fold (\<lambda>n s. let cnt = f n in if cnt > 1 then add_finding r (do_join path n) k (g n cnt) s else s) ns s)"
    for f :: "string \<Rightarrow> nat" and g k ns
    using assms(2) by (induction ns arbitrary: s) (auto simp: assms(1) Let_def)
  then show "Q (check_duplicates r path es s)" unfolding check_duplicates_def by simp
qed

lemma visit_child_inv:
  assumes "\<And>k p d s. Q s \<Longrightarrow> Q (add_finding r p k d s)"
    and "\<And>p s. is_dir_mode (de_mode e) \<Longrightarrow> Q s \<Longrightarrow> Q (snd (rec (de_id e) p s))" "Q (snd acc)"
  shows "Q (snd (visit_child r rec path e acc))"
proof (cases "is_dir_mode (de_mode e)")
  case True
  obtain es s res s' where acc: "acc = (es, s)" "rec (de_id e) (do_join path (de_name e)) s = (res, s')"
    by (metis surj_pair)
  then have "Q s'" using assms(2) [OF True, of s "do_join path (de_name e)"] assms(3) by simp
  then show ?thesis using True acc assms(1) by (simp add: visit_child_def split: sum.split)
next
  case False
  then show ?thesis using assms(3) by (cases acc) (simp add: visit_child_def)
qed

lemma visit_children_inv:
  assumes "\<And>k p d s. Q s \<Longrightarrow> Q (add_finding r p k d s)"
    and "\<And>e p s. e \<in> set es \<Longrightarrow> is_dir_mode (de_mode e) \<Longrightarrow> Q s \<Longrightarrow> Q (snd (rec (de_id e) p s))" "Q (snd acc)"
  shows "Q (snd (fold (visit_child r rec path) es acc))"
  using assms(2,3)
proof (induction es arbitrary: acc)
  case (Cons e es)
  have "Q (snd (visit_child r rec path e acc))"
    by (rule visit_child_inv) (use Cons.prems assms(1) in auto)
  then show ?case using Cons by simp
qed simp

lemma report_dir_inv:
  assumes "\<And>k p d s. Q s \<Longrightarrow> Q (add_finding r p k d s)"
    and "Q (s\<lparr>dw_report := (dw_report s)\<lparr>dirs_checked := dirs_checked (dw_report s) + 1\<rparr>\<rparr>)"
    and "\<And>s. Q s \<Longrightarrow> Q (check_order x r p i d s)"
  shows "Q (report_dir x r p i d s)"
proof -
  let ?s = "s\<lparr>dw_report := (dw_report s)\<lparr>dirs_checked := dirs_checked (dw_report s) + 1\<rparr>\<rparr>"
  have "Q (check_modes r p (dirents d) ?s)" by (rule checks_inv(1) [where Q = Q, OF assms(1,2)])
  then have "Q (check_duplicates r p (dirents d) (check_modes r p (dirents d) ?s))"
    using assms(1) checks_inv(2) [where Q = Q] by blast
  then show ?thesis using assms(3) by (simp add: report_dir_def Let_def)
qed

lemma report_dir_sel [simp]:
  "dw_memo (report_dir x r p i d s) = dw_memo s" "dw_rewritten (report_dir x r p i d s) = dw_rewritten s"
  "dw_objects (report_dir x r p i d s) = dw_objects s"
  "repairs (dw_report (report_dir x r p i d s)) = repairs (dw_report s)"
  "repair_errors (dw_report (report_dir x r p i d s)) = repair_errors (dw_report s)"
proof -
  let ?Q = "\<lambda>s'. dw_memo s' = dw_memo s \<and> dw_rewritten s' = dw_rewritten s \<and> dw_objects s' = dw_objects s \<and>
      repairs (dw_report s') = repairs (dw_report s) \<and> repair_errors (dw_report s') = repair_errors (dw_report s)"
  have "?Q (report_dir x r p i d s)"
    by (rule report_dir_inv [where Q = ?Q]) (simp_all add: check_order_def Let_def)
  then show "dw_memo (report_dir x r p i d s) = dw_memo s" "dw_rewritten (report_dir x r p i d s) = dw_rewritten s"
    "dw_objects (report_dir x r p i d s) = dw_objects s"
    "repairs (dw_report (report_dir x r p i d s)) = repairs (dw_report s)"
    "repair_errors (dw_report (report_dir x r p i d s)) = repair_errors (dw_report s)" by simp_all
qed

lemma report_dir_unordered:
  "canonical_form x d = i \<Longrightarrow> unordered (dw_report (report_dir x r p i d s)) = unordered (dw_report s)"
  by (rule report_dir_inv [where Q = "\<lambda>s'. unordered (dw_report s') = unordered (dw_report s)"])
     (simp_all add: check_order_def Let_def)

text \<open>The four ways the walk ends at an object.\<close>

lemma canonicalize_cases:
  obtains (sentinel) "i = EMPTY_SHA1" "canonicalize env r rw i path depth s = (Inr i, s)"
  | (memo) n where "dw_memo s i = Some n" "canonicalize env r rw i path depth s = (Inr n, s)"
  | (fail) e where "canonicalize env r rw i path depth s = (Inl e, s)"
      "depth > max_tree_depth (do_lim env) \<or> load_dir_row (do_ext env) r i (dw_objects s) = Inl e"
  | (dir) d es s' where "i \<noteq> EMPTY_SHA1" "depth \<le> max_tree_depth (do_lim env)"
      "load_dir_row (do_ext env) r i (dw_objects s) = Inr d"
      "fold (visit_child r (\<lambda>i p s. canonicalize env r rw i p (depth + 1) s) path) (dirents d)
         ([], report_dir (do_ext env) r path i d s) = (es, s')"
      "canonicalize env r rw i path depth s =
         (case finish_dir (do_ext env) r rw i (d\<lparr>dirents := es\<rparr>) s' of (n, s) \<Rightarrow> (Inr n, s))"
proof -
  let ?c = "canonicalize env r rw i path depth s"
  let ?load = "load_dir_row (do_ext env) r i (dw_objects s)"
  consider "i = EMPTY_SHA1" | n where "i \<noteq> EMPTY_SHA1" "dw_memo s i = Some n"
    | "i \<noteq> EMPTY_SHA1" "dw_memo s i = None" "depth > max_tree_depth (do_lim env)"
    | e where "i \<noteq> EMPTY_SHA1" "dw_memo s i = None" "depth \<le> max_tree_depth (do_lim env)" "?load = Inl e"
    | d where "i \<noteq> EMPTY_SHA1" "dw_memo s i = None" "depth \<le> max_tree_depth (do_lim env)" "?load = Inr d"
    by (metis not_less option.exhaust sum.exhaust)
  then show thesis
  proof cases
    case 1 then show thesis using sentinel by (simp add: canonicalize.simps)
  next
    case 2 then show thesis using memo by (simp add: canonicalize.simps)
  next
    case 3
    then have "?c = (Inl (BadRequest (path @ '' is deeper than the maximum directory depth ('' @
         show_nat (max_tree_depth (do_lim env)) @ '')'')), s)" by (subst canonicalize.simps) simp
    then show thesis using fail 3(3) by blast
  next
    case 4
    then have "?c = (Inl e, s)" by (subst canonicalize.simps) simp
    then show thesis using fail 4(4) by blast
  next
    case (5 d)
    obtain es s' where f: "fold (visit_child r (\<lambda>i p s. canonicalize env r rw i p (depth + 1) s) path) (dirents d)
         ([], report_dir (do_ext env) r path i d s) = (es, s')" by fastforce
    have "?c = (case finish_dir (do_ext env) r rw i (d\<lparr>dirents := es\<rparr>) s' of (n, s) \<Rightarrow> (Inr n, s))"
      using 5 f by (subst canonicalize.simps) (simp add: Let_def)
    then show thesis using dir 5(1,3,4) f by blast
  qed
qed

section \<open>Check mode writes nothing\<close>

lemma finish_dir_check [simp]: "dw_objects (snd (finish_dir x r False i d s)) = dw_objects s"
  by (simp add: finish_dir_def)

lemma canonicalize_check: "dw_objects (snd (canonicalize env r False i path depth s)) = dw_objects s"
proof (induction "Suc (max_tree_depth (do_lim env)) - depth" arbitrary: i path depth s rule: less_induct)
  case less
  show ?case
  proof (cases rule: canonicalize_cases [where i = i and env = env and r = r and rw = False and path = path
        and depth = depth and s = s])
    case (dir d es s')
    have "dw_objects (snd (fold (visit_child r (\<lambda>i p s. canonicalize env r False i p (depth + 1) s) path) (dirents d)
         ([], report_dir (do_ext env) r path i d s))) = dw_objects s"
      by (rule visit_children_inv) (use dir(2) less in auto)
    then have "dw_objects s' = dw_objects s" using dir(4) by simp
    moreover obtain n s'' where "finish_dir (do_ext env) r False i (d\<lparr>dirents := es\<rparr>) s' = (n, s'')" by fastforce
    ultimately show ?thesis using dir(5) finish_dir_check [of "do_ext env" r i "d\<lparr>dirents := es\<rparr>" s'] by simp
  qed simp_all
qed

lemma check_repo_check: "snd (check_repo env False rr rt) = snd rt"
proof -
  obtain r rp rep t where rr: "rr = (r, rp)" "rt = (rep, t)" by (metis surj_pair)
  have "t_objects t = dw_objects s" if "canonicalize env r False i p d \<lparr>dw_memo = m, dw_rewritten = k, dw_report = rep, dw_objects = t_objects t\<rparr> = (res, s)"
    for i p d m k res s
    using canonicalize_check [of env r i p d "\<lparr>dw_memo = m, dw_rewritten = k, dw_report = rep, dw_objects = t_objects t\<rparr>"] that by simp
  then have "t\<lparr>t_objects := dw_objects s\<rparr> = t" if "canonicalize env r False i p d \<lparr>dw_memo = m, dw_rewritten = k, dw_report = rep, dw_objects = t_objects t\<rparr> = (res, s)"
    for i p d m k res s
    using that by (metis tables.surjective tables.update_convs(1))
  then show ?thesis
    unfolding rr check_repo_def by (simp add: Let_def split: option.split sum.split prod.split)
qed

lemma fold_check_repo: "fold (check_repo env False) rs rt = (rep', t') \<Longrightarrow> t' = snd rt"
proof (induction rs arbitrary: rt)
  case (Cons a rs)
  then have "t' = snd (check_repo env False a rt)" by simp
  then show ?case by (simp add: check_repo_check)
qed simp

text \<open>
  Without \<open>repair\<close> a run writes nothing: no object, commit or HEAD changes, whatever the
  trees hold and whatever fails.
\<close>

theorem dir_order_check_readonly: "snd (dir_order_run env ids repo_filter False t) = t"
  unfolding dir_order_run_def
  by (auto simp: Let_def check_repo_check dest!: fold_check_repo split: list.split option.split prod.split)

section \<open>A canonical tree is left alone\<close>

fun canonical_tree :: "externs \<Rightarrow> string \<Rightarrow> fs_objects \<Rightarrow> nat \<Rightarrow> string \<Rightarrow> bool" where
  "canonical_tree x r db 0 i \<longleftrightarrow> i = EMPTY_SHA1"
| "canonical_tree x r db (Suc n) i \<longleftrightarrow> i = EMPTY_SHA1 \<or>
     (case load_dir_row x r i db of
        Inl _ \<Rightarrow> False
      | Inr d \<Rightarrow> canonical_form x d = i \<and>
          (\<forall>e\<in>set (dirents d). is_dir_mode (de_mode e) \<longrightarrow> canonical_tree x r db n (de_id e)))"

text \<open>What a walk over a canonical tree keeps: the objects, the count of rewrites, the list of unordered
  directories, and a memo table that maps every id to itself.\<close>

definition untouched :: "do_walk \<Rightarrow> do_walk \<Rightarrow> bool" where
  "untouched s s' \<longleftrightarrow> dw_objects s' = dw_objects s \<and> dw_rewritten s' = dw_rewritten s \<and>
     unordered (dw_report s') = unordered (dw_report s) \<and> repairs (dw_report s') = repairs (dw_report s) \<and>
     repair_errors (dw_report s') = repair_errors (dw_report s) \<and> (\<forall>k v. dw_memo s' k = Some v \<longrightarrow> v = k)"

lemma untouched_trans: "untouched s s' \<Longrightarrow> untouched s' s'' \<Longrightarrow> untouched s s''"
  by (simp add: untouched_def)

lemma visit_children_same:
  assumes "\<forall>e\<in>set es. is_dir_mode (de_mode e) \<longrightarrow>
      (\<forall>p s'. untouched s s' \<longrightarrow> (\<exists>s''. rec (de_id e) p s' = (Inr (de_id e), s'') \<and> untouched s s''))"
    and "untouched s s'"
  shows "\<exists>s''. fold (visit_child r rec path) es (es0, s') = (es0 @ es, s'') \<and> untouched s s''"
  using assms
proof (induction es arbitrary: es0 s')
  case (Cons e es)
  have "\<exists>s1. visit_child r rec path e (es0, s') = (es0 @ [e], s1) \<and> untouched s s1"
  proof (cases "is_dir_mode (de_mode e)")
    case True
    then obtain s1 where "rec (de_id e) (do_join path (de_name e)) s' = (Inr (de_id e), s1)" "untouched s s1"
      using Cons.prems by (meson list.set_intros(1))
    then show ?thesis using True by (simp add: visit_child_def)
  qed (use Cons.prems in \<open>simp add: visit_child_def\<close>)
  then obtain s1 where s1: "visit_child r rec path e (es0, s') = (es0 @ [e], s1)" "untouched s s1" by blast
  have "\<exists>s''. fold (visit_child r rec path) es (es0 @ [e], s1) = ((es0 @ [e]) @ es, s'') \<and> untouched s s''"
    by (rule Cons.IH) (use Cons.prems s1(2) in simp_all)
  then show ?case using s1(1) by simp
qed simp

lemma canonical_form_eq: "canonical_form x d = dir_fs_id x d"
  by (simp add: canonical_form_def compute_dir_def compute_fs_id_def dir_fs_id_def sorted_dir_def sort_dirents_desc_def Let_def)

lemma finish_dir_same:
  assumes "canonical_form x d = i" "load_dir_row x r i (dw_objects s') = Inr d" "untouched s s'"
  shows "\<exists>s''. finish_dir x r rw i d s' = (i, s'') \<and> untouched s s''"
proof -
  obtain row where "dw_objects s' (r, i) = Some row"
    using assms(2) by (cases "dw_objects s' (r, i)") (auto simp: load_dir_row_def ok_or_def)
  then have "store_fs_dir_object x r d (dw_objects s') = (i, dw_objects s')"
    using assms(1) by (simp add: store_dir_eq canonical_form_eq insert_or_ignore_def)
  then show ?thesis using assms(1,3) by (auto simp: finish_dir_def untouched_def)
qed

lemma canonicalize_same:
  "canonical_tree (do_ext env) r (dw_objects s) n i \<Longrightarrow> depth + n \<le> max_tree_depth (do_lim env) + 1 \<Longrightarrow>
   untouched s s' \<Longrightarrow> \<exists>s''. canonicalize env r rw i path depth s' = (Inr i, s'') \<and> untouched s s''"
proof (induction n arbitrary: i path depth s')
  case 0
  then show ?case by (simp add: canonicalize.simps)
next
  case (Suc n)
  let ?rec = "\<lambda>i p s. canonicalize env r rw i p (depth + 1) s"
  have same: "dw_objects s' = dw_objects s" using Suc.prems(3) by (simp add: untouched_def)
  show ?case
  proof (cases rule: canonicalize_cases [where i = i and env = env and r = r and rw = rw and path = path
        and depth = depth and s = s'])
    case (memo m)
    then show ?thesis using Suc.prems(3) by (auto simp: untouched_def)
  next
    case (fail e)
    then show ?thesis using Suc.prems(1,2) same by (auto simp: canonicalize.simps)
  next
    case (dir d es s1)
    have d: "canonical_form (do_ext env) d = i"
      "\<forall>e\<in>set (dirents d). is_dir_mode (de_mode e) \<longrightarrow> canonical_tree (do_ext env) r (dw_objects s) n (de_id e)"
      using Suc.prems(1) dir(1,3) same by auto
    have start: "untouched s (report_dir (do_ext env) r path i d s')"
      using Suc.prems(3) report_dir_unordered [OF d(1)] by (simp add: untouched_def)
    have "\<forall>e\<in>set (dirents d). is_dir_mode (de_mode e) \<longrightarrow>
        (\<forall>p s'. untouched s s' \<longrightarrow> (\<exists>s''. ?rec (de_id e) p s' = (Inr (de_id e), s'') \<and> untouched s s''))"
      using Suc.IH [where depth = "depth + 1"] d(2) Suc.prems(2) by simp
    from visit_children_same [OF this start, of r path "[]"]
    have es: "es = dirents d" "untouched s s1" using dir(4) by auto
    then have "load_dir_row (do_ext env) r i (dw_objects s1) = Inr d" using dir(3) same by (simp add: untouched_def)
    from finish_dir_same [OF d(1) this es(2)] obtain s2
      where "finish_dir (do_ext env) r rw i d s1 = (i, s2)" "untouched s s2" by blast
    moreover have "d\<lparr>dirents := es\<rparr> = d" using es(1) by simp
    ultimately show ?thesis using dir(5) by simp
  qed (use Suc.prems(3) in blast)
qed

text \<open>
  A library whose directories, down from the root of HEAD, are all stored under their canonical id
  is left as it is, even with \<open>repair\<close>: no table changes, and no unordered directory, repair or
  error is reported. This is what makes a second run a no-op.
\<close>

theorem dir_order_canonical_noop:
  assumes "rp_head_commit_id rp = Some h" "t_commits t (r, h) = Some c" "h \<noteq> EMPTY_SHA1"
    and "canonical_tree (do_ext env) r (t_objects t) n (cm_root_id c)" "n \<le> max_tree_depth (do_lim env)"
  shows "\<exists>rep'. check_repo env repair (r, rp) (rep, t) = (rep', t) \<and> unordered rep' = unordered rep \<and>
     repairs rep' = repairs rep \<and> repair_errors rep' = repair_errors rep"
proof -
  let ?s = "\<lparr>dw_memo = Map.empty, dw_rewritten = 0, dw_report = rep, dw_objects = t_objects t\<rparr>"
  have "untouched ?s ?s" by (simp add: untouched_def)
  moreover have "canonical_tree (do_ext env) r (dw_objects ?s) n (cm_root_id c)" using assms(4) by simp
  ultimately obtain s where s: "canonicalize env r repair (cm_root_id c) [slash] 0 ?s = (Inr (cm_root_id c), s)" "untouched ?s s"
    using canonicalize_same [of env r ?s n "cm_root_id c" 0 ?s repair "[slash]"] assms(5) by auto
  then have "check_repo env repair (r, rp) (rep, t) = (dw_report s, t)"
    using assms(1-3) by (simp add: check_repo_def Let_def untouched_def)
  then show ?thesis using s(2) by (simp add: untouched_def)
qed

definition demo_do_dir :: FsDirData where "demo_do_dir = mk_dir [demo_file ''1'' ''a'']"

definition demo_do_env :: do_env where
  "demo_do_env = \<lparr>do_ext = demo_externs [(dir_to_json (demo_externs []) demo_do_dir, demo_do_dir)],
     do_lim = \<lparr>max_tree_depth = 5, max_tree_visits = 9\<rparr>, do_now = (\<lambda>_. 7), do_others = (\<lambda>_ t. t), do_unique_err = ''unique''\<rparr>"

definition demo_do_repo :: repo_row where
  "demo_do_repo = \<lparr>rp_owner_id = 1, rp_head_commit_id = Some ''c'', rp_size = 0, rp_version = 1, rp_updated_at = 1\<rparr>"

definition demo_do_commit :: "string \<Rightarrow> commit_row" where
  "demo_do_commit root = \<lparr>cm_commit_id = ''c'', cm_root_id = root, cm_parent_id = None, cm_second_parent_id = None,
     cm_creator_name = ''u'', cm_creator = EMPTY_SHA1, cm_description = [], cm_ctime = 1, cm_version = 1,
     cm_new_merge = None, cm_conflict = None\<rparr>"

definition demo_do_tables :: tables where
  "demo_do_tables = (let i = canonical_form (do_ext demo_do_env) demo_do_dir in
     \<lparr>t_objects = [(''r'', i) \<mapsto> \<lparr>obj_type = 3, obj_data = dir_to_json (demo_externs []) demo_do_dir\<rparr>],
      t_commits = [(''r'', ''c'') \<mapsto> demo_do_commit i], t_repos = [''r'' \<mapsto> demo_do_repo], t_published = []\<rparr>)"

theorem dir_order_canonical_noop_witness:
  "\<exists>rep'. check_repo demo_do_env True (''r'', demo_do_repo)
      (\<lparr>repos_scanned = 1, dirs_checked = 0, unordered = [], do_other = [], repairs = [], repair_errors = []\<rparr>, demo_do_tables) =
      (rep', demo_do_tables) \<and> unordered rep' = [] \<and> repairs rep' = [] \<and> repair_errors rep' = []"
proof -
  let ?x = "do_ext demo_do_env" and ?i = "canonical_form (do_ext demo_do_env) demo_do_dir"
  let ?rep = "\<lparr>repos_scanned = 1, dirs_checked = 0, unordered = [], do_other = [], repairs = [], repair_errors = []\<rparr>"
  have j: "dir_to_json ?x demo_do_dir = dir_to_json (demo_externs []) demo_do_dir"
    by (rule dir_to_json_cong) (simp add: demo_do_env_def)
  have "load_dir_row ?x ''r'' ?i (t_objects demo_do_tables) = Inr demo_do_dir"
    by (simp add: load_dir_row_def demo_do_tables_def Let_def SEAF_METADATA_TYPE_DIR_def as_i8_def demo_do_env_def ok_or_def)
  then have tree: "canonical_tree ?x ''r'' (t_objects demo_do_tables) 1 ?i"
    by (simp add: demo_do_dir_def)
  have sel: "rp_head_commit_id demo_do_repo = Some ''c''" "t_commits demo_do_tables (''r'', ''c'') = Some (demo_do_commit ?i)"
    "cm_root_id (demo_do_commit ?i) = ?i" "1 \<le> max_tree_depth (do_lim demo_do_env)"
    by (simp_all add: demo_do_repo_def demo_do_tables_def Let_def demo_do_commit_def demo_do_env_def)
  have "length ''c'' \<noteq> length EMPTY_SHA1" by (simp add: EMPTY_SHA1_def)
  then have c: "''c'' \<noteq> EMPTY_SHA1" by metis
  show ?thesis
    using dir_order_canonical_noop [where n = 1 and rep = ?rep and repair = True, OF sel(1,2) c _ sel(4)] tree sel(3) by simp
qed

section \<open>HEAD moves only from where it was\<close>

text \<open>
  The repair moves HEAD only while HEAD is the commit the canonical root was computed from. When
  other writers moved it in between, their state stands and the repair reports no commit; otherwise
  HEAD is the new commit, whose parent is the old HEAD and whose root is the canonical one.
\<close>

theorem normalizing_commit_swap:
  assumes "append_normalizing_commit env r rp c root t = (Inr res, t')"
  shows "\<exists>row. t_commits t (r, cm_commit_id row) = None \<and> cm_parent_id row = Some (cm_commit_id c) \<and>
     cm_root_id row = root \<and>
     (let t1 = do_others env r (t\<lparr>t_commits := (t_commits t)((r, cm_commit_id row) \<mapsto> row)\<rparr>) in
      if head_of t1 r = Some (Some (cm_commit_id c))
      then res = Some (cm_commit_id row) \<and> head_of t' r = Some (Some (cm_commit_id row)) \<and>
        t_commits t' = t_commits t1 \<and> t_objects t' = t_objects t1 \<and> (\<forall>q. q = r \<or> t_repos t' q = t_repos t1 q)
      else res = None \<and> t' = t1)"
proof -
  let ?data = "mk_commit r root (cm_creator_name c) EMPTY_SHA1 NORMALIZE_DESCRIPTION (do_now env r)
                   (Some (cm_commit_id c)) (rp_version rp)"
  let ?row = "\<lparr>cm_commit_id = compute_commit_id (do_ext env) ?data, cm_root_id = root, cm_parent_id = Some (cm_commit_id c),
              cm_second_parent_id = None, cm_creator_name = cm_creator_name c, cm_creator = EMPTY_SHA1,
              cm_description = NORMALIZE_DESCRIPTION, cm_ctime = do_now env r, cm_version = as_i8 (rp_version rp),
              cm_new_merge = None, cm_conflict = None\<rparr>"
  have "t_commits t (r, cm_commit_id ?row) = None"
    using assms by (cases "t_commits t (r, cm_commit_id ?row)") (auto simp: append_normalizing_commit_def insert_commit_def Let_def)
  then show ?thesis using assms
    by (intro exI [of _ ?row])
       (auto simp: append_normalizing_commit_def insert_commit_def Let_def head_of_def split: option.splits if_splits)
qed

theorem normalizing_commit_swap_witness:
  "\<exists>i. (case append_normalizing_commit demo_do_env ''r'' demo_do_repo (demo_do_commit ''old'') ''new'' demo_do_tables of
     (res, t') \<Rightarrow> res = Inr (Some i) \<and> head_of t' ''r'' = Some (Some i))"
proof -
  let ?run = "append_normalizing_commit demo_do_env ''r'' demo_do_repo (demo_do_commit ''old'') ''new'' demo_do_tables"
  have "\<exists>res t'. ?run = (Inr res, t')"
    by (simp add: append_normalizing_commit_def insert_commit_def Let_def compute_commit_id_def
        compute_commit_id_with_empty_name_def demo_do_env_def demo_do_tables_def head_of_def split: option.split)
  then obtain res t' where run: "?run = (Inr res, t')" by blast
  have "do_others demo_do_env ''r'' t = t" "head_of (demo_do_tables\<lparr>t_commits := m\<rparr>) ''r'' = Some (Some ''c'')"
    "cm_commit_id (demo_do_commit ''old'') = ''c''" for t m
    by (simp_all add: demo_do_env_def demo_do_tables_def demo_do_repo_def demo_do_commit_def head_of_def Let_def)
  then show ?thesis using normalizing_commit_swap [OF run] run by (auto simp: Let_def)
qed

end
