(* ===== verification/Credentials.thy ===== *)
theory Credentials
  imports Commit
begin

text \<open>
  The credential tables and the repositories over them: \<open>sync_tokens\<close> (\<open>repository/sync_token.rs\<close>),
  \<open>api_tokens\<close> (\<open>repository/api_token.rs\<close>), \<open>api_keys\<close> with \<open>api_key_repos\<close>
  (\<open>repository/api_key.rs\<close>), and the write throttle of \<open>repository/throttle.rs\<close>, all under
  \<open>server/src\<close>; with the device identity of \<open>domain/device.rs\<close>.

  A table is the list of its rows. An insert takes the id the database assigns. The stored form of a
  secret is given by \<open>sha256_hex\<close> (account tokens and keys) and \<open>encrypt\<close> (sync tokens, a
  deterministic cipher), which are parameters.
\<close>

section \<open>Devices (domain/device.rs)\<close>

record DeviceIdentity =
  dv_platform :: "string option"
  dv_device_id :: string
  dv_device_name :: "string option"
  dv_client_version :: "string option"

record PeerStamp =
  ps_id :: string
  ps_name :: "string option"
  ps_client_version :: "string option"

definition non_empty :: "string option \<Rightarrow> string option" where
  "non_empty v = (case v of Some s \<Rightarrow> if s = [] then None else Some s | None \<Rightarrow> None)"

definition new_device ::
    "string option \<Rightarrow> string option \<Rightarrow> string option \<Rightarrow> string option \<Rightarrow> DeviceIdentity option" where
  "new_device platform device_id device_name client_version =
     map_option (\<lambda>d. \<lparr>dv_platform = non_empty platform, dv_device_id = d, dv_device_name = non_empty device_name,
        dv_client_version = non_empty client_version\<rparr>) (non_empty device_id)"

definition device_peer :: "DeviceIdentity \<Rightarrow> PeerStamp" where
  "device_peer d = \<lparr>ps_id = dv_device_id d, ps_name = dv_device_name d, ps_client_version = dv_client_version d\<rparr>"

section \<open>Write throttle (repository/throttle.rs)\<close>

type_synonym throttle = "(int \<times> int) list"

definition WRITE_INTERVAL :: int where "WRITE_INTERVAL = 60"

definition should_write :: "int \<Rightarrow> int \<Rightarrow> int \<Rightarrow> throttle \<Rightarrow> bool \<times> throttle" where
  "should_write interval i now seen =
     (if (case map_of seen i of Some previous \<Rightarrow> now - previous < interval | None \<Rightarrow> False) then (False, seen)
      else (True, hm_insert i now (filter (\<lambda>(_, previous). now - previous < interval) seen)))"

section \<open>Sync tokens (repository/sync_token.rs)\<close>

record sync_token =
  st_id :: int
  st_token :: string
  st_repo_id :: string
  st_user_id :: int
  st_created_at :: int
  st_expires_at :: "int option"
  st_peer_id :: "string option"
  st_peer_name :: "string option"
  st_peer_ip :: "string option"
  st_client_version :: "string option"
  st_last_sync_time :: "int option"

type_synonym sync_tokens = "sync_token list"

definition st_find_by_token :: "(string \<Rightarrow> string) \<Rightarrow> sync_tokens \<Rightarrow> string \<Rightarrow> sync_token option" where
  "st_find_by_token encrypt ts token = find (\<lambda>m. st_token m = encrypt token) ts"

definition st_find_by_token_and_repo ::
    "(string \<Rightarrow> string) \<Rightarrow> sync_tokens \<Rightarrow> string \<Rightarrow> string \<Rightarrow> sync_token option" where
  "st_find_by_token_and_repo encrypt ts token repo_id =
     find (\<lambda>m. st_token m = encrypt token \<and> st_repo_id m = repo_id) ts"

definition peer_query :: "string option \<Rightarrow> sync_token \<Rightarrow> bool" where
  "peer_query peer_id m = (case non_empty peer_id of Some p \<Rightarrow> st_peer_id m = Some p | None \<Rightarrow> st_peer_id m = None)"

definition st_find_by_repo_user_peer :: "sync_tokens \<Rightarrow> string \<Rightarrow> int \<Rightarrow> string option \<Rightarrow> sync_token option" where
  "st_find_by_repo_user_peer ts repo_id user_id peer_id =
     find (\<lambda>m. st_repo_id m = repo_id \<and> st_user_id m = user_id \<and> peer_query peer_id m) ts"

definition st_create ::
    "(string \<Rightarrow> string) \<Rightarrow> string \<Rightarrow> int \<Rightarrow> string \<Rightarrow> int \<Rightarrow> string \<Rightarrow> PeerStamp option \<Rightarrow> int \<Rightarrow> int option \<Rightarrow>
     sync_tokens \<Rightarrow> unit result \<times> sync_tokens" where
  "st_create encrypt unique_err new_id repo_id user_id token peer now expires_at ts =
     (if list_ex (\<lambda>m. st_token m = encrypt token) ts then (Inl (Internal unique_err), ts)
      else (Inr (), ts @ [\<lparr>st_id = new_id, st_token = encrypt token, st_repo_id = repo_id, st_user_id = user_id,
         st_created_at = now, st_expires_at = expires_at, st_peer_id = map_option ps_id peer,
         st_peer_name = Option.bind peer ps_name, st_peer_ip = None,
         st_client_version = Option.bind peer ps_client_version, st_last_sync_time = None\<rparr>]))"

definition st_delete_by_repo :: "string \<Rightarrow> sync_tokens \<Rightarrow> sync_tokens" where
  "st_delete_by_repo repo_id ts = filter (\<lambda>m. st_repo_id m \<noteq> repo_id) ts"

definition st_delete_by_token :: "(string \<Rightarrow> string) \<Rightarrow> string \<Rightarrow> sync_tokens \<Rightarrow> sync_tokens" where
  "st_delete_by_token encrypt token ts = filter (\<lambda>m. st_token m \<noteq> encrypt token) ts"

definition st_delete_by_id :: "int \<Rightarrow> sync_tokens \<Rightarrow> sync_tokens" where
  "st_delete_by_id i ts = filter (\<lambda>m. st_id m \<noteq> i) ts"

definition st_delete_by_id_and_user :: "int \<Rightarrow> int \<Rightarrow> sync_tokens \<Rightarrow> sync_tokens" where
  "st_delete_by_id_and_user i user_id ts = filter (\<lambda>m. \<not> (st_id m = i \<and> st_user_id m = user_id)) ts"

definition st_delete_by_user :: "int \<Rightarrow> sync_tokens \<Rightarrow> sync_tokens" where
  "st_delete_by_user user_id ts = filter (\<lambda>m. st_user_id m \<noteq> user_id) ts"

definition st_delete_by_repo_and_user :: "string \<Rightarrow> int \<Rightarrow> sync_tokens \<Rightarrow> sync_tokens" where
  "st_delete_by_repo_and_user repo_id user_id ts = filter (\<lambda>m. \<not> (st_repo_id m = repo_id \<and> st_user_id m = user_id)) ts"

definition st_delete_by_user_and_peer :: "int \<Rightarrow> string \<Rightarrow> sync_tokens \<Rightarrow> sync_tokens" where
  "st_delete_by_user_and_peer user_id peer_id ts = filter (\<lambda>m. \<not> (st_user_id m = user_id \<and> st_peer_id m = Some peer_id)) ts"

definition st_attach_peer_if_unset :: "int \<Rightarrow> PeerStamp \<Rightarrow> sync_tokens \<Rightarrow> bool \<times> sync_tokens" where
  "st_attach_peer_if_unset i peer ts =
     (list_ex (\<lambda>m. st_id m = i \<and> st_peer_id m = None) ts,
      map (\<lambda>m. if st_id m = i \<and> st_peer_id m = None
               then m\<lparr>st_peer_id := Some (ps_id peer), st_peer_name := ps_name peer, st_client_version := ps_client_version peer\<rparr>
               else m) ts)"

definition st_touch_peer :: "int \<Rightarrow> string option \<Rightarrow> string option \<Rightarrow> int \<Rightarrow> sync_tokens \<Rightarrow> sync_tokens" where
  "st_touch_peer i peer_ip client_version last_sync_time ts =
     map (\<lambda>m. if st_id m = i
              then m\<lparr>st_peer_ip := peer_ip, st_last_sync_time := Some last_sync_time,
                     st_client_version := (if client_version \<noteq> None then client_version else st_client_version m)\<rparr>
              else m) ts"

section \<open>Account tokens (repository/api_token.rs)\<close>

datatype SessionSource = Web | WebClientLogin | Client | ClientSso

fun source_id :: "SessionSource \<Rightarrow> string" where
  "source_id Web = ''web''"
| "source_id WebClientLogin = ''web_client_login''"
| "source_id Client = ''client''"
| "source_id ClientSso = ''client_sso''"

record api_token =
  at_id :: int
  at_user_id :: int
  at_token :: string
  at_created_at :: int
  at_expires_at :: "int option"
  at_device_id :: "string option"
  at_platform :: "string option"
  at_device_name :: "string option"
  at_client_version :: "string option"
  at_is_pending :: bool
  at_source :: string
  at_user_agent :: "string option"

type_synonym api_tokens = "api_token list"

definition at_find_by_token :: "(string \<Rightarrow> string) \<Rightarrow> api_tokens \<Rightarrow> string \<Rightarrow> api_token option" where
  "at_find_by_token sha256_hex ts token = find (\<lambda>m. at_token m = sha256_hex token) ts"

definition at_delete_by_id_and_user :: "int \<Rightarrow> int \<Rightarrow> api_tokens \<Rightarrow> api_tokens" where
  "at_delete_by_id_and_user i user_id ts = filter (\<lambda>m. \<not> (at_id m = i \<and> at_user_id m = user_id)) ts"

definition at_delete_many_by_device :: "string \<Rightarrow> api_tokens \<Rightarrow> api_tokens" where
  "at_delete_many_by_device device_id ts = filter (\<lambda>m. at_device_id m \<noteq> Some device_id) ts"

definition at_delete_by_token :: "(string \<Rightarrow> string) \<Rightarrow> string \<Rightarrow> api_tokens \<Rightarrow> api_tokens" where
  "at_delete_by_token sha256_hex token ts = filter (\<lambda>m. at_token m \<noteq> sha256_hex token) ts"

definition at_delete_many_by_user_platform_device :: "int \<Rightarrow> string \<Rightarrow> string \<Rightarrow> api_tokens \<Rightarrow> api_tokens" where
  "at_delete_many_by_user_platform_device user_id platform device_id ts =
     filter (\<lambda>m. \<not> (at_user_id m = user_id \<and> at_platform m = Some platform \<and> at_device_id m = Some device_id)) ts"

definition at_delete_many_by_user_and_device :: "int \<Rightarrow> string \<Rightarrow> api_tokens \<Rightarrow> api_tokens" where
  "at_delete_many_by_user_and_device user_id device_id ts =
     filter (\<lambda>m. \<not> (at_user_id m = user_id \<and> at_device_id m = Some device_id)) ts"

definition at_delete_many_by_user_id :: "int \<Rightarrow> api_tokens \<Rightarrow> api_tokens" where
  "at_delete_many_by_user_id user_id ts = filter (\<lambda>m. at_user_id m \<noteq> user_id) ts"

definition at_delete_many_by_user_id_except :: "(string \<Rightarrow> string) \<Rightarrow> int \<Rightarrow> string \<Rightarrow> api_tokens \<Rightarrow> api_tokens" where
  "at_delete_many_by_user_id_except sha256_hex user_id keep_raw_token ts =
     filter (\<lambda>m. \<not> (at_user_id m = user_id \<and> at_token m \<noteq> sha256_hex keep_raw_token)) ts"

definition at_delete_browser_sessions_except :: "int \<Rightarrow> int option \<Rightarrow> api_tokens \<Rightarrow> api_tokens" where
  "at_delete_browser_sessions_except user_id keep_id ts =
     filter (\<lambda>m. \<not> (at_user_id m = user_id \<and> \<not> at_is_pending m \<and> at_source m \<notin> {source_id Client, source_id ClientSso} \<and>
        (case keep_id of Some i \<Rightarrow> at_id m \<noteq> i | None \<Rightarrow> True))) ts"

text \<open>\<open>CreateSessionTokenParams\<close> with the raw token already in place of the stored form.\<close>

definition at_create_session_token :: "(string \<Rightarrow> string) \<Rightarrow> string \<Rightarrow> api_token \<Rightarrow> api_tokens \<Rightarrow> unit result \<times> api_tokens" where
  "at_create_session_token sha256_hex unique_err params ts =
     (let row = params\<lparr>at_token := sha256_hex (at_token params)\<rparr> in
      if list_ex (\<lambda>m. at_token m = at_token row) ts then (Inl (Internal unique_err), ts)
      else (Inr (), ts @ [row]))"

section \<open>API keys (repository/api_key.rs)\<close>

record api_key =
  ak_id :: int
  ak_user_id :: int
  ak_name :: string
  ak_key_hash :: string
  ak_key_prefix :: "string option"
  ak_capabilities :: string
  ak_all_repos :: bool
  ak_created_at :: int
  ak_expires_at :: "int option"
  ak_last_used_at :: "int option"

record ApiKeyBinding =
  ab_repo_id :: string
  ab_permission :: string

text \<open>The rows of \<open>api_key_repos\<close> are pairs of a key id and a binding.\<close>

record key_tables =
  kt_keys :: "api_key list"
  kt_bindings :: "(int \<times> ApiKeyBinding) list"

record ApiKeyLookup =
  lk_key :: api_key
  lk_bindings :: "ApiKeyBinding list"

definition ak_list_bindings :: "key_tables \<Rightarrow> int \<Rightarrow> ApiKeyBinding list" where
  "ak_list_bindings k key_id = rev (sort_desc ab_repo_id (map snd (filter (\<lambda>(i, _). i = key_id) (kt_bindings k))))"

definition ak_find_by_presented :: "(string \<Rightarrow> string) \<Rightarrow> key_tables \<Rightarrow> string \<Rightarrow> ApiKeyLookup option" where
  "ak_find_by_presented sha256_hex k raw =
     map_option (\<lambda>key. \<lparr>lk_key = key, lk_bindings = ak_list_bindings k (ak_id key)\<rparr>)
       (find (\<lambda>key. ak_key_hash key = sha256_hex raw) (kt_keys k))"

definition ak_find_by_id_and_user :: "key_tables \<Rightarrow> int \<Rightarrow> int \<Rightarrow> api_key option" where
  "ak_find_by_id_and_user k key_id user_id = find (\<lambda>key. ak_id key = key_id \<and> ak_user_id key = user_id) (kt_keys k)"

definition ak_create :: "string \<Rightarrow> api_key \<Rightarrow> ApiKeyBinding list \<Rightarrow> key_tables \<Rightarrow> api_key result \<times> key_tables" where
  "ak_create unique_err row bindings k =
     (if list_ex (\<lambda>key. ak_key_hash key = ak_key_hash row) (kt_keys k) then (Inl (Internal unique_err), k)
      else (Inr row, \<lparr>kt_keys = kt_keys k @ [row], kt_bindings = kt_bindings k @ map (Pair (ak_id row)) bindings\<rparr>))"

record UpdateApiKeyParams =
  up_name :: "string option"
  up_capabilities :: "string option"
  up_all_repos :: "bool option"
  up_expires_at :: "int option option"

definition set_or :: "'a option \<Rightarrow> 'a \<Rightarrow> 'a" where
  "set_or v old = (case v of Some new \<Rightarrow> new | None \<Rightarrow> old)"

definition ak_update_metadata :: "int \<Rightarrow> int \<Rightarrow> UpdateApiKeyParams \<Rightarrow> key_tables \<Rightarrow> bool \<times> key_tables" where
  "ak_update_metadata key_id user_id p k =
     (if up_name p = None \<and> up_capabilities p = None \<and> up_all_repos p = None \<and> up_expires_at p = None
      then (ak_find_by_id_and_user k key_id user_id \<noteq> None, k)
      else (ak_find_by_id_and_user k key_id user_id \<noteq> None,
        k\<lparr>kt_keys := map (\<lambda>key. if ak_id key = key_id \<and> ak_user_id key = user_id
            then key\<lparr>ak_name := set_or (up_name p) (ak_name key),
                     ak_capabilities := set_or (up_capabilities p) (ak_capabilities key),
                     ak_all_repos := set_or (up_all_repos p) (ak_all_repos key),
                     ak_expires_at := set_or (up_expires_at p) (ak_expires_at key)\<rparr>
            else key) (kt_keys k)\<rparr>))"

text \<open>The bindings of a deleted key go with it (\<open>ON DELETE CASCADE\<close> of \<open>api_key_repos.key_id\<close>).\<close>

definition delete_keys :: "(api_key \<Rightarrow> bool) \<Rightarrow> key_tables \<Rightarrow> key_tables" where
  "delete_keys P k =
     (let gone = map ak_id (filter P (kt_keys k)) in
      \<lparr>kt_keys = filter (\<lambda>key. \<not> P key) (kt_keys k), kt_bindings = filter (\<lambda>(i, _). i \<notin> set gone) (kt_bindings k)\<rparr>)"

definition ak_delete_by_id_and_user :: "int \<Rightarrow> int \<Rightarrow> key_tables \<Rightarrow> bool \<times> key_tables" where
  "ak_delete_by_id_and_user key_id user_id k =
     (list_ex (\<lambda>key. ak_id key = key_id \<and> ak_user_id key = user_id) (kt_keys k),
      delete_keys (\<lambda>key. ak_id key = key_id \<and> ak_user_id key = user_id) k)"

definition ak_delete_by_id :: "int \<Rightarrow> key_tables \<Rightarrow> bool \<times> key_tables" where
  "ak_delete_by_id key_id k =
     (list_ex (\<lambda>key. ak_id key = key_id) (kt_keys k), delete_keys (\<lambda>key. ak_id key = key_id) k)"

definition ak_delete_by_user :: "int \<Rightarrow> key_tables \<Rightarrow> key_tables" where
  "ak_delete_by_user user_id k = delete_keys (\<lambda>key. ak_user_id key = user_id) k"

definition ak_replace_bindings :: "int \<Rightarrow> ApiKeyBinding list \<Rightarrow> key_tables \<Rightarrow> key_tables" where
  "ak_replace_bindings key_id bindings k =
     k\<lparr>kt_bindings := filter (\<lambda>(i, _). i \<noteq> key_id) (kt_bindings k) @ map (Pair key_id) bindings\<rparr>"

definition ak_delete_orphan_bound_keys :: "key_tables \<Rightarrow> key_tables" where
  "ak_delete_orphan_bound_keys k =
     (let bound = map fst (kt_bindings k) in
      delete_keys (\<lambda>key. \<not> ak_all_repos key \<and> ak_id key \<notin> set bound) k)"

definition ak_delete_bindings_by_repo :: "string \<Rightarrow> key_tables \<Rightarrow> key_tables" where
  "ak_delete_bindings_by_repo repo_id k =
     ak_delete_orphan_bound_keys (k\<lparr>kt_bindings := filter (\<lambda>(_, b). ab_repo_id b \<noteq> repo_id) (kt_bindings k)\<rparr>)"

definition ak_delete_bindings_for_repo_user :: "string \<Rightarrow> int \<Rightarrow> key_tables \<Rightarrow> key_tables" where
  "ak_delete_bindings_for_repo_user repo_id user_id k =
     (let key_ids = map ak_id (filter (\<lambda>key. ak_user_id key = user_id) (kt_keys k)) in
      if key_ids = [] then k
      else ak_delete_orphan_bound_keys
        (k\<lparr>kt_bindings := filter (\<lambda>(i, b). \<not> (ab_repo_id b = repo_id \<and> i \<in> set key_ids)) (kt_bindings k)\<rparr>))"

definition ak_touch_last_used :: "int \<Rightarrow> int \<Rightarrow> key_tables \<Rightarrow> key_tables" where
  "ak_touch_last_used key_id ts k =
     k\<lparr>kt_keys := map (\<lambda>key. if ak_id key = key_id then key\<lparr>ak_last_used_at := Some ts\<rparr> else key) (kt_keys k)\<rparr>"

section \<open>The throttle spaces writes out\<close>

lemma should_write_spaced:
  "should_write interval i now seen = (True, seen') \<Longrightarrow> interval > 0 \<Longrightarrow> should_write interval i later seen' = (True, seen'') \<Longrightarrow>
   later - now \<ge> interval"
  by (auto simp: should_write_def split: if_splits)

end
