(* ===== verification/AuthCache.thy ===== *)
theory AuthCache
  imports Credentials
begin

text \<open>
  The caches in front of the credential repositories, \<open>server/src/repository/auth_cache.rs\<close>: the TTL
  cache \<open>TokenCache<T>\<close> and the protocol by which the three decorators use it, as a step relation.

  A lookup that misses is two steps, the database read and the insert into the cache, with other
  requests in between: the code holds the lock of the cache during neither the read nor the gap. A
  mutation is two steps as well, the statement and the clearing of the cache. \<open>token_lookup\<close> is what
  a decorator relies on: the statements that leave the cache alone do not change what authentication
  reads. It is interpreted on the three repositories.
\<close>

section \<open>TokenCache\<close>

type_synonym 'v token_cache = "(string \<times> 'v \<times> int) list"

definition TOKEN_CACHE_TTL :: int where "TOKEN_CACHE_TTL = 300"

definition TOKEN_CACHE_MAX_ENTRIES :: nat where "TOKEN_CACHE_MAX_ENTRIES = 10000"

definition tc_get :: "int \<Rightarrow> string \<Rightarrow> ('v \<Rightarrow> bool) \<Rightarrow> 'v token_cache \<Rightarrow> 'v option \<times> 'v token_cache" where
  "tc_get now key is_valid entries =
     (case map_of entries key of
        None \<Rightarrow> (None, entries)
      | Some (v, cached_at) \<Rightarrow>
          if now - cached_at > TOKEN_CACHE_TTL \<or> \<not> is_valid v then (None, hm_remove key entries) else (Some v, entries))"

definition tc_insert :: "int \<Rightarrow> string \<Rightarrow> 'v \<Rightarrow> 'v token_cache \<Rightarrow> 'v token_cache" where
  "tc_insert now key v entries =
     (let entries =
        (if length entries \<ge> TOKEN_CACHE_MAX_ENTRIES
         then let kept = filter (\<lambda>(_, _, cached_at). now - cached_at \<le> TOKEN_CACHE_TTL) entries in
              if length kept \<ge> TOKEN_CACHE_MAX_ENTRIES then [] else kept
         else entries)
      in hm_insert key (v, now) entries)"

definition token_expired :: "int \<Rightarrow> int option \<Rightarrow> bool" where
  "token_expired now expires_at = (case expires_at of Some e \<Rightarrow> now > e | None \<Rightarrow> False)"

lemma tc_get_subset: "tc_get now key ok c = (res, c') \<Longrightarrow> set c' \<subseteq> set c \<and> length c' \<le> length c"
  by (auto simp: tc_get_def set_hm_remove length_hm_remove_le split: option.splits if_splits)

lemma tc_get_Some:
  "tc_get now key ok c = (Some v, c') \<Longrightarrow> c' = c \<and> ok v \<and> (\<exists>t. (key, v, t) \<in> set c \<and> now - t \<le> TOKEN_CACHE_TTL)"
  by (auto simp: tc_get_def not_less split: option.splits if_splits) (meson map_of_SomeD)

lemma tc_insert_subset: "set (tc_insert now key v c) \<subseteq> insert (key, v, now) (set c)"
proof -
  have "set (hm_insert key (v, now) c') \<subseteq> insert (key, v, now) (set c)" if "set c' \<subseteq> set c" for c'
    using hm_insert_subset [of key "(v, now)" c'] that by blast
  then show ?thesis by (simp add: tc_insert_def Let_def)
qed

lemma tc_insert_length: "length c \<le> TOKEN_CACHE_MAX_ENTRIES \<Longrightarrow> length (tc_insert now key v c) \<le> TOKEN_CACHE_MAX_ENTRIES"
proof -
  assume c: "length c \<le> TOKEN_CACHE_MAX_ENTRIES"
  have "length (hm_insert key (v, now) c') \<le> TOKEN_CACHE_MAX_ENTRIES" if "length c' < TOKEN_CACHE_MAX_ENTRIES" for c'
    using length_hm_insert [of key "(v, now)" c'] that by simp
  then show ?thesis using c by (simp add: tc_insert_def Let_def TOKEN_CACHE_MAX_ENTRIES_def not_le)
qed

section \<open>The protocol\<close>

record ('db, 'v) cache_state =
  cs_db :: 'db
  cs_cache :: "'v token_cache"
  cs_now :: int
  cs_reads :: "(string \<times> 'v option) list"
  cs_clears :: nat

text \<open>\<open>cs_reads\<close>: lookups that have read the database and not yet filled the cache; \<open>cs_clears\<close>: mutations whose
  clearing is still to come.\<close>

inductive cache_step ::
    "('db \<Rightarrow> string \<Rightarrow> 'v option) \<Rightarrow> ('v \<Rightarrow> int option) \<Rightarrow> ('db \<Rightarrow> 'db \<Rightarrow> bool) \<Rightarrow> ('db \<Rightarrow> 'db \<Rightarrow> bool) \<Rightarrow>
     ('db, 'v) cache_state \<Rightarrow> ('db, 'v) cache_state \<Rightarrow> bool"
  for lookup expiry mutates touches where
  hit: "tc_get (cs_now s) key (\<lambda>v. \<not> token_expired (cs_now s) (expiry v)) (cs_cache s) = (Some v, c) \<Longrightarrow>
    cache_step lookup expiry mutates touches s (s\<lparr>cs_cache := c\<rparr>)"
| miss: "tc_get (cs_now s) key (\<lambda>v. \<not> token_expired (cs_now s) (expiry v)) (cs_cache s) = (None, c) \<Longrightarrow>
    cache_step lookup expiry mutates touches s
      (s\<lparr>cs_cache := c, cs_reads := cs_reads s @ [(key, lookup (cs_db s) key)]\<rparr>)"
| fill: "cs_reads s = xs @ (key, res) # ys \<Longrightarrow>
    cache_step lookup expiry mutates touches s
      (s\<lparr>cs_reads := xs @ ys, cs_cache := (case res of Some v \<Rightarrow> tc_insert (cs_now s) key v (cs_cache s) | None \<Rightarrow> cs_cache s)\<rparr>)"
| mutate: "mutates (cs_db s) db \<Longrightarrow>
    cache_step lookup expiry mutates touches s (s\<lparr>cs_db := db, cs_clears := cs_clears s + 1\<rparr>)"
| clear: "cs_clears s = Suc n \<Longrightarrow> cache_step lookup expiry mutates touches s (s\<lparr>cs_cache := [], cs_clears := n\<rparr>)"
| touch: "touches (cs_db s) db \<Longrightarrow> cache_step lookup expiry mutates touches s (s\<lparr>cs_db := db\<rparr>)"
| tick: "now \<ge> cs_now s \<Longrightarrow> cache_step lookup expiry mutates touches s (s\<lparr>cs_now := now\<rparr>)"

inductive_cases cache_stepE: "cache_step lookup expiry mutates touches s s'"

definition cache_start :: "'db \<Rightarrow> ('db, 'v) cache_state" where
  "cache_start db = \<lparr>cs_db = db, cs_cache = [], cs_now = 0, cs_reads = [], cs_clears = 0\<rparr>"

text \<open>No mutation falls between the read of a lookup and its insert.\<close>

definition serial :: "('db, 'v) cache_state \<Rightarrow> ('db, 'v) cache_state \<Rightarrow> bool" where
  "serial s s' \<longleftrightarrow> cs_clears s' > cs_clears s \<longrightarrow> cs_reads s = []"

definition serial_step ::
    "('db \<Rightarrow> string \<Rightarrow> 'v option) \<Rightarrow> ('v \<Rightarrow> int option) \<Rightarrow> ('db \<Rightarrow> 'db \<Rightarrow> bool) \<Rightarrow> ('db \<Rightarrow> 'db \<Rightarrow> bool) \<Rightarrow>
     ('db, 'v) cache_state \<Rightarrow> ('db, 'v) cache_state \<Rightarrow> bool" where
  "serial_step lookup expiry mutates touches s s' \<longleftrightarrow> cache_step lookup expiry mutates touches s s' \<and> serial s s'"

lemma cache_size:
  "(cache_step lookup expiry mutates touches)\<^sup>*\<^sup>* s s' \<Longrightarrow> length (cs_cache s) \<le> TOKEN_CACHE_MAX_ENTRIES \<Longrightarrow>
   length (cs_cache s') \<le> TOKEN_CACHE_MAX_ENTRIES"
proof (induction rule: rtranclp_induct)
  case (step t u)
  then have t: "length (cs_cache t) \<le> TOKEN_CACHE_MAX_ENTRIES" by blast
  from step.hyps(2) show ?case
    by (cases rule: cache_step.cases) (use t in \<open>auto dest: tc_get_subset simp: tc_insert_length split: option.split\<close>)
qed

section \<open>What a decorator relies on\<close>

locale token_lookup =
  fixes lookup :: "'db \<Rightarrow> string \<Rightarrow> 'v option"
    and expiry :: "'v \<Rightarrow> int option"
    and mutates :: "'db \<Rightarrow> 'db \<Rightarrow> bool"
    and touches :: "'db \<Rightarrow> 'db \<Rightarrow> bool"
    and view :: "'v \<Rightarrow> 'a"
  assumes touches_view: "touches db db' \<Longrightarrow> map_option view (lookup db' key) = map_option view (lookup db key)"
begin

definition agrees :: "'db \<Rightarrow> string \<Rightarrow> 'v \<Rightarrow> bool" where
  "agrees db key v \<longleftrightarrow> map_option view (lookup db key) = Some (view v)"

definition coherent :: "('db, 'v) cache_state \<Rightarrow> bool" where
  "coherent s \<longleftrightarrow> (\<forall>(key, res)\<in>set (cs_reads s). \<forall>v. res = Some v \<longrightarrow> agrees (cs_db s) key v) \<and>
     (cs_clears s = 0 \<longrightarrow> (\<forall>(key, v, t)\<in>set (cs_cache s). agrees (cs_db s) key v))"

lemma agrees_touch: "touches db db' \<Longrightarrow> agrees db' key v \<longleftrightarrow> agrees db key v"
  by (simp add: agrees_def touches_view)

lemma coherent_step: "serial_step lookup expiry mutates touches s s' \<Longrightarrow> coherent s \<Longrightarrow> coherent s'"
proof -
  assume step: "serial_step lookup expiry mutates touches s s'" and c: "coherent s"
  from step have "cache_step lookup expiry mutates touches s s'" and ser: "serial s s'" by (simp_all add: serial_step_def)
  then show ?thesis
  proof (cases rule: cache_step.cases)
    case (fill xs key res ys)
    have a: "agrees (cs_db s) key v" if "res = Some v" for v using c fill(2) that by (auto simp: coherent_def)
    have "agrees (cs_db s) k w" if mem: "(k, w, t) \<in> set (cs_cache s')" "cs_clears s = 0" for k w t
    proof (cases "(k, w, t) \<in> set (cs_cache s)")
      case False
      then obtain v where "res = Some v" "(k, w, t) \<in> set (tc_insert (cs_now s) key v (cs_cache s))"
        using mem(1) fill(1) by (cases res) auto
      then have "k = key" "w = v" using False tc_insert_subset [of "cs_now s" key v "cs_cache s"] by auto
      then show ?thesis using a \<open>res = Some v\<close> by simp
    qed (use c mem in \<open>auto simp: coherent_def\<close>)
    then show ?thesis using c fill unfolding coherent_def by auto
  next
    case (mutate db)
    then have "cs_reads s = []" using ser by (simp add: serial_def)
    then show ?thesis using mutate by (simp add: coherent_def)
  next
    case (hit key v c')
    then show ?thesis using c tc_get_subset [OF hit(2)] unfolding coherent_def by auto
  next
    case (miss key c')
    then show ?thesis using c tc_get_subset [OF miss(2)] unfolding coherent_def by (auto simp: agrees_def)
  next
    case (touch db)
    then show ?thesis using c unfolding coherent_def by (auto simp: agrees_touch)
  qed (use c in \<open>auto simp: coherent_def\<close>)
qed

lemma coherent_run:
  "(serial_step lookup expiry mutates touches)\<^sup>*\<^sup>* (cache_start db) s \<Longrightarrow> coherent s"
proof (induction rule: rtranclp_induct)
  case base
  show ?case by (simp add: coherent_def cache_start_def)
next
  case (step t u)
  then show ?case using coherent_step by blast
qed

text \<open>In a serial run a hit serves what the database holds.\<close>

lemma serial_hit:
  assumes "(serial_step lookup expiry mutates touches)\<^sup>*\<^sup>* (cache_start db) s" "cs_clears s = 0"
    and "tc_get (cs_now s) key ok (cs_cache s) = (Some v, c)"
  shows "map_option view (lookup (cs_db s) key) = Some (view v)"
proof -
  obtain t where "(key, v, t) \<in> set (cs_cache s)" using tc_get_Some [OF assms(3)] by blast
  then show ?thesis using coherent_run [OF assms(1)] assms(2) by (auto simp: coherent_def agrees_def)
qed

text \<open>Once a token is gone from the table and no lookup that saw it is under way, the entries that
  still hold it only grow older.\<close>

definition gone :: "string \<Rightarrow> ('db, 'v) cache_state \<Rightarrow> bool" where
  "gone key s \<longleftrightarrow> lookup (cs_db s) key = None \<and> (\<forall>v. (key, Some v) \<notin> set (cs_reads s))"

lemma gone_step:
  assumes "cache_step lookup expiry mutates touches s s'" "gone key s" "lookup (cs_db s') key = None"
    and "\<forall>v t. (key, v, t) \<in> set (cs_cache s) \<longrightarrow> t \<le> T"
  shows "gone key s' \<and> (\<forall>v t. (key, v, t) \<in> set (cs_cache s') \<longrightarrow> t \<le> T)"
  using assms(1)
proof (cases rule: cache_step.cases)
  case (fill xs k res ys)
  have "t \<le> T" if mem: "(key, w, t) \<in> set (cs_cache s')" for w t
  proof (cases "(key, w, t) \<in> set (cs_cache s)")
    case False
    then obtain v where v: "res = Some v" "(key, w, t) \<in> set (tc_insert (cs_now s) k v (cs_cache s))"
      using mem fill(1) by (cases res) auto
    then have "k = key" using False tc_insert_subset [of "cs_now s" k v "cs_cache s"] by auto
    then have "(key, Some v) \<in> set (cs_reads s)" using v(1) fill(2) by simp
    then show ?thesis using assms(2) by (simp add: gone_def)
  qed (use assms(4) in blast)
  then show ?thesis using fill assms(2,3) by (auto simp: gone_def)
next
  case (hit k v c)
  then show ?thesis using assms(2-4) tc_get_subset [OF hit(2)] by (auto simp: gone_def)
next
  case (miss k c)
  then show ?thesis using assms(2-4) tc_get_subset [OF miss(2)] by (auto simp: gone_def)
qed (use assms(2-4) in \<open>auto simp: gone_def\<close>)

lemma gone_run:
  assumes "(\<lambda>s s'. cache_step lookup expiry mutates touches s s' \<and> lookup (cs_db s') key = None)\<^sup>*\<^sup>* s s'" "gone key s"
    and "\<forall>v t. (key, v, t) \<in> set (cs_cache s) \<longrightarrow> t \<le> T"
  shows "gone key s' \<and> (\<forall>v t. (key, v, t) \<in> set (cs_cache s') \<longrightarrow> t \<le> T)"
  using assms(1)
proof (induction rule: rtranclp_induct)
  case base
  show ?case using assms(2,3) by blast
next
  case (step t u)
  then show ?case using gone_step by blast
qed

lemma gone_misses:
  assumes "(\<lambda>s s'. cache_step lookup expiry mutates touches s s' \<and> lookup (cs_db s') key = None)\<^sup>*\<^sup>* s s'" "gone key s"
    and "\<forall>v t. (key, v, t) \<in> set (cs_cache s) \<longrightarrow> t \<le> T" "cs_now s' - T > TOKEN_CACHE_TTL"
  shows "fst (tc_get (cs_now s') key ok (cs_cache s')) = None"
proof (cases "tc_get (cs_now s') key ok (cs_cache s')")
  case (Pair res c)
  show ?thesis
  proof (cases res)
    case (Some v)
    then obtain t where "(key, v, t) \<in> set (cs_cache s')" "cs_now s' - t \<le> TOKEN_CACHE_TTL"
      using tc_get_Some [of "cs_now s'" key ok "cs_cache s'" v c] Pair by auto
    moreover have "\<forall>v t. (key, v, t) \<in> set (cs_cache s') \<longrightarrow> t \<le> T" using gone_run [OF assms(1-3)] by blast
    ultimately have "t \<le> T" by blast
    then show ?thesis using \<open>cs_now s' - t \<le> TOKEN_CACHE_TTL\<close> assms(4) by simp
  qed (use Pair in simp)
qed

end

section \<open>The three decorators\<close>

text \<open>What authentication decides on: of a sync token its library, its user and its expiry; of an
  account token the row, which no statement updates; of a key everything but the time of its last
  use.\<close>

definition st_view :: "sync_token \<Rightarrow> int \<times> string \<times> int \<times> int option" where
  "st_view m = (st_id m, st_repo_id m, st_user_id m, st_expires_at m)"

inductive st_touches :: "sync_tokens \<Rightarrow> sync_tokens \<Rightarrow> bool" where
  "st_touches ts (snd (st_attach_peer_if_unset i peer ts))"
| "st_touches ts (st_touch_peer i ip ver at ts)"

inductive st_mutates :: "(string \<Rightarrow> string) \<Rightarrow> sync_tokens \<Rightarrow> sync_tokens \<Rightarrow> bool" for encrypt where
  "st_mutates encrypt ts (snd (st_create encrypt err i r u token peer now ex ts))"
| "st_mutates encrypt ts (st_delete_by_repo r ts)"
| "st_mutates encrypt ts (st_delete_by_token encrypt token ts)"
| "st_mutates encrypt ts (st_delete_by_id i ts)"
| "st_mutates encrypt ts (st_delete_by_id_and_user i u ts)"
| "st_mutates encrypt ts (st_delete_by_user u ts)"
| "st_mutates encrypt ts (st_delete_by_repo_and_user r u ts)"
| "st_mutates encrypt ts (st_delete_by_user_and_peer u p ts)"

inductive at_touches :: "api_tokens \<Rightarrow> api_tokens \<Rightarrow> bool" where
  "at_touches ts ts"

inductive at_mutates :: "(string \<Rightarrow> string) \<Rightarrow> api_tokens \<Rightarrow> api_tokens \<Rightarrow> bool" for sha256_hex where
  "at_mutates sha256_hex ts (snd (at_create_session_token sha256_hex err params ts))"
| "at_mutates sha256_hex ts (at_delete_by_id_and_user i u ts)"
| "at_mutates sha256_hex ts (at_delete_many_by_device d ts)"
| "at_mutates sha256_hex ts (at_delete_by_token sha256_hex token ts)"
| "at_mutates sha256_hex ts (at_delete_many_by_user_platform_device u p d ts)"
| "at_mutates sha256_hex ts (at_delete_many_by_user_and_device u d ts)"
| "at_mutates sha256_hex ts (at_delete_many_by_user_id u ts)"
| "at_mutates sha256_hex ts (at_delete_many_by_user_id_except sha256_hex u keep ts)"
| "at_mutates sha256_hex ts (at_delete_browser_sessions_except u keep_id ts)"

definition lk_view :: "ApiKeyLookup \<Rightarrow> ApiKeyLookup" where
  "lk_view l = l\<lparr>lk_key := (lk_key l)\<lparr>ak_last_used_at := None\<rparr>\<rparr>"

inductive ak_touches :: "key_tables \<Rightarrow> key_tables \<Rightarrow> bool" where
  "ak_touches k (ak_touch_last_used i ts k)"

inductive ak_mutates :: "key_tables \<Rightarrow> key_tables \<Rightarrow> bool" where
  "ak_mutates k (snd (ak_create err row bindings k))"
| "ak_mutates k (snd (ak_update_metadata i u params k))"
| "ak_mutates k (snd (ak_delete_by_id_and_user i u k))"
| "ak_mutates k (snd (ak_delete_by_id i k))"
| "ak_mutates k (ak_delete_by_user u k)"
| "ak_mutates k (ak_replace_bindings i bindings k)"
| "ak_mutates k (ak_delete_bindings_by_repo r k)"
| "ak_mutates k (ak_delete_bindings_for_repo_user r u k)"
| "ak_mutates k (ak_delete_orphan_bound_keys k)"

lemma find_map_view:
  "(\<And>x. P (f x) \<longleftrightarrow> P x) \<Longrightarrow> (\<And>x. view (f x) = view x) \<Longrightarrow> map_option view (find P (map f xs)) = map_option view (find P xs)"
  by (induction xs) auto

interpretation sync_cache: token_lookup "st_find_by_token encrypt" st_expires_at "st_mutates encrypt" st_touches st_view
  for encrypt
proof
  fix db db' key assume "st_touches db db'"
  then show "map_option st_view (st_find_by_token encrypt db' key) = map_option st_view (st_find_by_token encrypt db key)"
    by (cases; simp only: st_find_by_token_def st_attach_peer_if_unset_def st_touch_peer_def snd_conv)
       (rule find_map_view; simp add: st_view_def)+
qed

interpretation session_cache: token_lookup "at_find_by_token sha256_hex" at_expires_at "at_mutates sha256_hex" at_touches "\<lambda>m. m"
  for sha256_hex
  by standard (auto elim: at_touches.cases)

interpretation key_cache: token_lookup "ak_find_by_presented sha256_hex" "\<lambda>l. ak_expires_at (lk_key l)" ak_mutates ak_touches lk_view
  for sha256_hex
proof
  fix db db' key assume "ak_touches db db'"
  then obtain i ts where db': "db' = ak_touch_last_used i ts db" by cases
  let ?P = "\<lambda>k. ak_key_hash k = sha256_hex key" and ?f = "\<lambda>k. if ak_id k = i then k\<lparr>ak_last_used_at := Some ts\<rparr> else k"
  let ?lk = "\<lambda>k. \<lparr>lk_key = k\<lparr>ak_last_used_at := None\<rparr>, lk_bindings = ak_list_bindings db (ak_id k)\<rparr>"
  have b: "ak_list_bindings db' = ak_list_bindings db" by (simp add: db' ak_touch_last_used_def ak_list_bindings_def fun_eq_iff)
  have "map_option ?lk (find ?P (map ?f (kt_keys db))) = map_option ?lk (find ?P (kt_keys db))"
    by (rule find_map_view) simp_all
  moreover have "map_option lk_view (ak_find_by_presented sha256_hex d key) = map_option ?lk (find ?P (kt_keys d))"
    if "ak_list_bindings d = ak_list_bindings db" for d
    by (simp add: ak_find_by_presented_def that lk_view_def option.map_comp comp_def)
  ultimately show "map_option lk_view (ak_find_by_presented sha256_hex db' key) = map_option lk_view (ak_find_by_presented sha256_hex db key)"
    using b by (simp add: db' ak_touch_last_used_def)
qed

section \<open>Revocation\<close>

definition demo_sync_token :: sync_token where
  "demo_sync_token = \<lparr>st_id = 1, st_token = ''tok'', st_repo_id = ''r'', st_user_id = 7, st_created_at = 0, st_expires_at = None,
     st_peer_id = None, st_peer_name = None, st_peer_ip = None, st_client_version = None, st_last_sync_time = None\<rparr>"

text \<open>
  While no deletion falls between a lookup's read of the table and its insert into the cache, a
  sync token the cache serves is in the table, with the library, user and expiry the table holds.
\<close>

theorem sync_cache_serial_hit:
  assumes "(serial_step (st_find_by_token encrypt) st_expires_at (st_mutates encrypt) st_touches)\<^sup>*\<^sup>* (cache_start db) s"
    and "cs_clears s = 0" "tc_get (cs_now s) key ok (cs_cache s) = (Some m, c)"
  shows "\<exists>row. st_find_by_token encrypt (cs_db s) key = Some row \<and> st_view row = st_view m"
  using sync_cache.serial_hit [OF assms] by auto

theorem sync_cache_serial_hit_witness:
  "\<exists>s :: (sync_tokens, sync_token) cache_state. cs_cache s = [(''tok'', demo_sync_token, 0)] \<and>
     (\<exists>row. st_find_by_token id (cs_db s) ''tok'' = Some row \<and> st_view row = st_view demo_sync_token)"
proof -
  let ?m = demo_sync_token and ?R = "cache_step (st_find_by_token id) st_expires_at (st_mutates id) st_touches"
  define s0 where "s0 = (cache_start [?m] :: (sync_tokens, sync_token) cache_state)"
  define s1 where "s1 = s0\<lparr>cs_reads := [(''tok'', Some ?m)]\<rparr>"
  define s2 where "s2 = s1\<lparr>cs_reads := [], cs_cache := [(''tok'', ?m, 0)]\<rparr>"
  have get: "tc_get 0 ''tok'' ok [] = (None, [])" for ok :: "sync_token \<Rightarrow> bool" by (simp add: tc_get_def)
  have "?R s0 s1"
    using cache_step.miss [of s0 "''tok''" st_expires_at "[]" "st_find_by_token id" "st_mutates id" st_touches] get
    by (simp add: s0_def s1_def cache_start_def st_find_by_token_def demo_sync_token_def)
  then have 1: "serial_step (st_find_by_token id) st_expires_at (st_mutates id) st_touches s0 s1"
    by (simp add: serial_step_def serial_def s1_def)
  have "?R s1 s2"
    using cache_step.fill [of s1 "[]" "''tok''" "Some ?m" "[]"]
    by (simp add: s0_def s1_def s2_def cache_start_def tc_insert_def TOKEN_CACHE_MAX_ENTRIES_def)
  then have "serial_step (st_find_by_token id) st_expires_at (st_mutates id) st_touches s1 s2"
    by (simp add: serial_step_def serial_def s2_def)
  with 1 have run: "(serial_step (st_find_by_token id) st_expires_at (st_mutates id) st_touches)\<^sup>*\<^sup>* (cache_start [?m]) s2"
    unfolding s0_def by (meson converse_rtranclp_into_rtranclp rtranclp.rtrancl_refl)
  have s2: "cs_clears s2 = 0" "cs_now s2 = 0" "cs_cache s2 = [(''tok'', ?m, 0)]"
    by (simp_all add: s0_def s1_def s2_def cache_start_def)
  then have "tc_get (cs_now s2) ''tok'' (\<lambda>_. True) (cs_cache s2) = (Some ?m, cs_cache s2)"
    by (simp add: tc_get_def TOKEN_CACHE_TTL_def)
  from sync_cache_serial_hit [OF run s2(1) this] s2(3) show ?thesis by blast
qed

text \<open>
  C31: whatever the interleaving, a sync token that is no longer in the table stops being served one
  lifetime of a cache entry after the lookups that saw it are done.
\<close>

theorem sync_cache_revoked:
  assumes "(\<lambda>s s'. cache_step (st_find_by_token encrypt) st_expires_at (st_mutates encrypt) st_touches s s' \<and>
      st_find_by_token encrypt (cs_db s') key = None)\<^sup>*\<^sup>* s s'"
    and "st_find_by_token encrypt (cs_db s) key = None" "\<forall>m. (key, Some m) \<notin> set (cs_reads s)"
    and "\<forall>m t. (key, m, t) \<in> set (cs_cache s) \<longrightarrow> t \<le> T" "cs_now s' - T > TOKEN_CACHE_TTL"
  shows "fst (tc_get (cs_now s') key ok (cs_cache s')) = None"
  using sync_cache.gone_misses [OF assms(1)] assms(2-5) by (simp add: sync_cache.gone_def)

theorem sync_cache_revoked_witness:
  "fst (tc_get 301 ''tok'' (\<lambda>_. True) [(''tok'', demo_sync_token, 0)]) = None"
proof -
  define s where "s = \<lparr>cs_db = ([] :: sync_tokens), cs_cache = [(''tok'', demo_sync_token, 0)], cs_now = 0, cs_reads = [], cs_clears = 0\<rparr>"
  let ?R = "\<lambda>s s'. cache_step (st_find_by_token id) st_expires_at (st_mutates id) st_touches s s' \<and>
      st_find_by_token id (cs_db s') ''tok'' = None"
  have "?R s (s\<lparr>cs_now := 301\<rparr>)"
    by (intro conjI cache_step.tick) (simp_all add: s_def st_find_by_token_def)
  then have run: "?R\<^sup>*\<^sup>* s (s\<lparr>cs_now := 301\<rparr>)" using r_into_rtranclp [of ?R s "s\<lparr>cs_now := 301\<rparr>"] by simp
  have "fst (tc_get (cs_now (s\<lparr>cs_now := 301\<rparr>)) ''tok'' (\<lambda>_. True) (cs_cache (s\<lparr>cs_now := 301\<rparr>))) = None"
  proof (rule sync_cache_revoked [OF run, where T = 0])
    show "st_find_by_token id (cs_db s) ''tok'' = None" by (simp add: s_def st_find_by_token_def)
    show "\<forall>m. (''tok'', Some m) \<notin> set (cs_reads s)" by (simp add: s_def)
    show "\<forall>m t. (''tok'', m, t) \<in> set (cs_cache s) \<longrightarrow> t \<le> 0" by (simp add: s_def)
    show "TOKEN_CACHE_TTL < cs_now (s\<lparr>cs_now := 301\<rparr>) - 0" by (simp add: s_def TOKEN_CACHE_TTL_def)
  qed
  then show ?thesis by (simp add: s_def)
qed

text \<open>
  C35: a deletion between the read and the insert of a lookup defeats the clearing of the cache: the
  revoked token is back in the cache, with no request under way, and is served.
\<close>

theorem sync_cache_resurrects_revoked:
  "\<exists>s. (cache_step (st_find_by_token id) st_expires_at (st_mutates id) st_touches)\<^sup>*\<^sup>* (cache_start [demo_sync_token]) s \<and>
     cs_db s = [] \<and> cs_reads s = [] \<and> cs_clears s = 0 \<and>
     fst (tc_get (cs_now s) ''tok'' (\<lambda>m. \<not> token_expired (cs_now s) (st_expires_at m)) (cs_cache s)) = Some demo_sync_token"
proof -
  let ?m = demo_sync_token and ?R = "cache_step (st_find_by_token id) st_expires_at (st_mutates id) st_touches"
  define s1 where "s1 = (cache_start [?m] :: (sync_tokens, sync_token) cache_state)\<lparr>cs_reads := [(''tok'', Some ?m)]\<rparr>"
  define s2 where "s2 = s1\<lparr>cs_db := [], cs_clears := 1\<rparr>"
  define s3 where "s3 = s2\<lparr>cs_cache := [], cs_clears := 0\<rparr>"
  define s4 where "s4 = s3\<lparr>cs_reads := [], cs_cache := [(''tok'', ?m, 0)]\<rparr>"
  have get: "tc_get 0 ''tok'' ok [] = (None, [])" for ok :: "sync_token \<Rightarrow> bool" by (simp add: tc_get_def)
  have "?R (cache_start [?m]) s1"
    using cache_step.miss [of "cache_start [?m]" "''tok''" st_expires_at "[]" "st_find_by_token id" "st_mutates id" st_touches] get
    by (simp add: s1_def cache_start_def st_find_by_token_def demo_sync_token_def)
  moreover have "?R s1 s2"
    using cache_step.mutate [of "st_mutates id" s1 "[]"] st_mutates.intros(4) [of id "cs_db s1" 1]
    by (simp add: s1_def s2_def cache_start_def st_delete_by_id_def demo_sync_token_def)
  moreover have "?R s2 s3"
    using cache_step.clear [of s2 0] by (simp add: s2_def s3_def)
  moreover have "?R s3 s4"
    using cache_step.fill [of s3 "[]" "''tok''" "Some ?m" "[]"]
    by (simp add: s1_def s2_def s3_def s4_def cache_start_def tc_insert_def TOKEN_CACHE_MAX_ENTRIES_def)
  ultimately have run: "?R\<^sup>*\<^sup>* (cache_start [?m]) s4" by (meson converse_rtranclp_into_rtranclp rtranclp.rtrancl_refl)
  have s4: "cs_db s4 = []" "cs_reads s4 = []" "cs_clears s4 = 0" "cs_now s4 = 0" "cs_cache s4 = [(''tok'', ?m, 0)]"
    by (simp_all add: s1_def s2_def s3_def s4_def cache_start_def)
  have "st_expires_at ?m = None" by (simp add: demo_sync_token_def)
  then show ?thesis
    by (intro exI [of _ s4]) (simp add: run s4 tc_get_def TOKEN_CACHE_TTL_def token_expired_def)
qed

end
