(* ===== verification/Capability.thy ===== *)
theory Capability
  imports Prelude "HOL-Library.Word"
begin

text \<open>
  The capability catalog of the unified API keys, \<open>server/src/domain/capability.rs\<close>: the enum, its ids
  on disk, the implication table and the bit set \<open>CapabilitySet(u128)\<close> with its parsers and its closure
  loop. The route table of the same file is in theory \<open>Routes\<close>.
\<close>

unbundle bit_operations_syntax

section \<open>The catalog\<close>

datatype Capability =
    AccountRead | AccountWrite | DeviceRead | DeviceWrite | LibraryRead
  | LibraryCreate | LibraryUpdate | LibraryDelete | LibraryPassword | FileRead
  | FileWrite | FileDelete | TrashRead | TrashWrite | HistoryRead
  | HistoryWrite | ShareLinkRead | ShareLinkWrite | UploadLinkRead | UploadLinkWrite
  | MetadataRead | MetadataWrite | TagRead | TagWrite | StarRead
  | StarWrite | ActivityRead | SearchRead | SearchReindex | SearchWrite
  | SyncRead | SyncWrite | SyncToken | NotificationRead | WebdavRead
  | WebdavWrite | AdminUserRead | AdminUserWrite | KeyRead | KeyWrite

definition cap_ALL :: "Capability list" where
  "cap_ALL =
    [AccountRead, AccountWrite, DeviceRead, DeviceWrite, LibraryRead, LibraryCreate,
     LibraryUpdate, LibraryDelete, LibraryPassword, FileRead, FileWrite, FileDelete,
     TrashRead, TrashWrite, HistoryRead, HistoryWrite, ShareLinkRead, ShareLinkWrite,
     UploadLinkRead, UploadLinkWrite, MetadataRead, MetadataWrite, TagRead, TagWrite,
     StarRead, StarWrite, ActivityRead, SearchRead, SearchReindex, SearchWrite,
     SyncRead, SyncWrite, SyncToken, NotificationRead, WebdavRead, WebdavWrite,
     AdminUserRead, AdminUserWrite, KeyRead, KeyWrite]"

text \<open>The discriminant \<open>self as u32\<close>.\<close>

fun cap_index :: "Capability \<Rightarrow> nat" where
  "cap_index AccountRead = 0"
| "cap_index AccountWrite = 1"
| "cap_index DeviceRead = 2"
| "cap_index DeviceWrite = 3"
| "cap_index LibraryRead = 4"
| "cap_index LibraryCreate = 5"
| "cap_index LibraryUpdate = 6"
| "cap_index LibraryDelete = 7"
| "cap_index LibraryPassword = 8"
| "cap_index FileRead = 9"
| "cap_index FileWrite = 10"
| "cap_index FileDelete = 11"
| "cap_index TrashRead = 12"
| "cap_index TrashWrite = 13"
| "cap_index HistoryRead = 14"
| "cap_index HistoryWrite = 15"
| "cap_index ShareLinkRead = 16"
| "cap_index ShareLinkWrite = 17"
| "cap_index UploadLinkRead = 18"
| "cap_index UploadLinkWrite = 19"
| "cap_index MetadataRead = 20"
| "cap_index MetadataWrite = 21"
| "cap_index TagRead = 22"
| "cap_index TagWrite = 23"
| "cap_index StarRead = 24"
| "cap_index StarWrite = 25"
| "cap_index ActivityRead = 26"
| "cap_index SearchRead = 27"
| "cap_index SearchReindex = 28"
| "cap_index SearchWrite = 29"
| "cap_index SyncRead = 30"
| "cap_index SyncWrite = 31"
| "cap_index SyncToken = 32"
| "cap_index NotificationRead = 33"
| "cap_index WebdavRead = 34"
| "cap_index WebdavWrite = 35"
| "cap_index AdminUserRead = 36"
| "cap_index AdminUserWrite = 37"
| "cap_index KeyRead = 38"
| "cap_index KeyWrite = 39"

fun cap_id :: "Capability \<Rightarrow> string" where
  "cap_id AccountRead = ''account.read''"
| "cap_id AccountWrite = ''account.write''"
| "cap_id DeviceRead = ''device.read''"
| "cap_id DeviceWrite = ''device.write''"
| "cap_id LibraryRead = ''library.read''"
| "cap_id LibraryCreate = ''library.create''"
| "cap_id LibraryUpdate = ''library.update''"
| "cap_id LibraryDelete = ''library.delete''"
| "cap_id LibraryPassword = ''library.password''"
| "cap_id FileRead = ''file.read''"
| "cap_id FileWrite = ''file.write''"
| "cap_id FileDelete = ''file.delete''"
| "cap_id TrashRead = ''trash.read''"
| "cap_id TrashWrite = ''trash.write''"
| "cap_id HistoryRead = ''history.read''"
| "cap_id HistoryWrite = ''history.write''"
| "cap_id ShareLinkRead = ''share_link.read''"
| "cap_id ShareLinkWrite = ''share_link.write''"
| "cap_id UploadLinkRead = ''upload_link.read''"
| "cap_id UploadLinkWrite = ''upload_link.write''"
| "cap_id MetadataRead = ''metadata.read''"
| "cap_id MetadataWrite = ''metadata.write''"
| "cap_id TagRead = ''tag.read''"
| "cap_id TagWrite = ''tag.write''"
| "cap_id StarRead = ''star.read''"
| "cap_id StarWrite = ''star.write''"
| "cap_id ActivityRead = ''activity.read''"
| "cap_id SearchRead = ''search.read''"
| "cap_id SearchReindex = ''search.reindex''"
| "cap_id SearchWrite = ''search.write''"
| "cap_id SyncRead = ''sync.read''"
| "cap_id SyncWrite = ''sync.write''"
| "cap_id SyncToken = ''sync.token''"
| "cap_id NotificationRead = ''notification.read''"
| "cap_id WebdavRead = ''webdav.read''"
| "cap_id WebdavWrite = ''webdav.write''"
| "cap_id AdminUserRead = ''admin.user.read''"
| "cap_id AdminUserWrite = ''admin.user.write''"
| "cap_id KeyRead = ''key.read''"
| "cap_id KeyWrite = ''key.write''"

definition from_id :: "string \<Rightarrow> Capability option" where
  "from_id i = find (\<lambda>c. cap_id c = i) cap_ALL"

datatype CapabilityDomain =
    AccountDomain | DeviceDomain | InvitationDomain | LibraryDomain | FileDomain
  | TrashDomain | HistoryDomain | SharingDomain | MetadataDomain | DiscoveryDomain
  | SyncDomain | NotificationDomain | WebdavDomain | AdminDomain | KeyDomain

fun cap_domain :: "Capability \<Rightarrow> CapabilityDomain" where
  "cap_domain AccountRead = AccountDomain"
| "cap_domain AccountWrite = AccountDomain"
| "cap_domain DeviceRead = DeviceDomain"
| "cap_domain DeviceWrite = DeviceDomain"
| "cap_domain LibraryRead = LibraryDomain"
| "cap_domain LibraryCreate = LibraryDomain"
| "cap_domain LibraryUpdate = LibraryDomain"
| "cap_domain LibraryDelete = LibraryDomain"
| "cap_domain LibraryPassword = LibraryDomain"
| "cap_domain FileRead = FileDomain"
| "cap_domain FileWrite = FileDomain"
| "cap_domain FileDelete = FileDomain"
| "cap_domain TrashRead = TrashDomain"
| "cap_domain TrashWrite = TrashDomain"
| "cap_domain HistoryRead = HistoryDomain"
| "cap_domain HistoryWrite = HistoryDomain"
| "cap_domain ShareLinkRead = SharingDomain"
| "cap_domain ShareLinkWrite = SharingDomain"
| "cap_domain UploadLinkRead = SharingDomain"
| "cap_domain UploadLinkWrite = SharingDomain"
| "cap_domain MetadataRead = MetadataDomain"
| "cap_domain MetadataWrite = MetadataDomain"
| "cap_domain TagRead = MetadataDomain"
| "cap_domain TagWrite = MetadataDomain"
| "cap_domain StarRead = DiscoveryDomain"
| "cap_domain StarWrite = DiscoveryDomain"
| "cap_domain ActivityRead = DiscoveryDomain"
| "cap_domain SearchRead = DiscoveryDomain"
| "cap_domain SearchReindex = DiscoveryDomain"
| "cap_domain SearchWrite = DiscoveryDomain"
| "cap_domain SyncRead = SyncDomain"
| "cap_domain SyncWrite = SyncDomain"
| "cap_domain SyncToken = SyncDomain"
| "cap_domain NotificationRead = NotificationDomain"
| "cap_domain WebdavRead = WebdavDomain"
| "cap_domain WebdavWrite = WebdavDomain"
| "cap_domain AdminUserRead = AdminDomain"
| "cap_domain AdminUserWrite = AdminDomain"
| "cap_domain KeyRead = KeyDomain"
| "cap_domain KeyWrite = KeyDomain"

definition is_write :: "Capability \<Rightarrow> bool" where
  "is_write c \<longleftrightarrow> c \<notin> set
    [AccountRead, DeviceRead, LibraryRead, FileRead, TrashRead, HistoryRead,
     ShareLinkRead, UploadLinkRead, MetadataRead, TagRead, StarRead, ActivityRead,
     SearchRead, SyncRead, NotificationRead, WebdavRead, AdminUserRead, KeyRead]"

definition is_reserved_to_sessions :: "Capability \<Rightarrow> bool" where
  "is_reserved_to_sessions c \<longleftrightarrow> c = KeyRead \<or> c = KeyWrite"

definition RETIRED_IDS :: "string list" where
  "RETIRED_IDS = [''invitation.read'', ''invitation.write'', ''history.manage'', ''member.read'', ''member.write'', ''group.read'']"

definition is_retired :: "string \<Rightarrow> bool" where "is_retired i \<longleftrightarrow> i \<in> set RETIRED_IDS"

definition IMPLICATIONS :: "(Capability \<times> Capability list) list" where
  "IMPLICATIONS =
    [(AccountWrite, [AccountRead]), (DeviceWrite, [DeviceRead]), (LibraryCreate, [LibraryRead]),
     (LibraryUpdate, [LibraryRead]), (LibraryDelete, [LibraryRead]), (LibraryPassword, [LibraryRead]),
     (FileWrite, [FileRead]), (FileDelete, [FileWrite]), (TrashWrite, [TrashRead, FileDelete]),
     (HistoryRead, [FileRead]), (HistoryWrite, [HistoryRead]), (ShareLinkWrite, [ShareLinkRead]),
     (UploadLinkWrite, [UploadLinkRead]), (MetadataRead, [LibraryRead]), (MetadataWrite, [MetadataRead]),
     (TagRead, [MetadataRead]), (TagWrite, [TagRead]), (StarWrite, [StarRead]),
     (SearchReindex, [SearchRead]), (SearchWrite, [SearchRead]), (SyncWrite, [SyncRead]),
     (SyncToken, [SyncWrite]), (WebdavWrite, [WebdavRead]), (AdminUserWrite, [AdminUserRead]),
     (KeyWrite, [KeyRead])]"

definition implied_by :: "Capability \<Rightarrow> Capability list" where
  "implied_by c = (case find (\<lambda>(d, _). d = c) IMPLICATIONS of Some (_, implied) \<Rightarrow> implied | None \<Rightarrow> [])"

section \<open>Sets of capabilities\<close>

type_synonym CapabilitySet = "128 word"

definition cap_bit :: "Capability \<Rightarrow> CapabilitySet" where "cap_bit c = push_bit (cap_index c) 1"

definition cs_insert :: "Capability \<Rightarrow> CapabilitySet \<Rightarrow> CapabilitySet" where "cs_insert c s = s OR cap_bit c"

definition cs_contains :: "CapabilitySet \<Rightarrow> Capability \<Rightarrow> bool" where "cs_contains s c \<longleftrightarrow> s AND cap_bit c \<noteq> 0"

definition cs_iter :: "CapabilitySet \<Rightarrow> Capability list" where "cs_iter s = filter (cs_contains s) cap_ALL"

definition contains_all :: "CapabilitySet \<Rightarrow> CapabilitySet \<Rightarrow> bool" where
  "contains_all s other \<longleftrightarrow> s AND other = other"

text \<open>One turn of the \<open>loop\<close> of \<open>expand\<close>: the capabilities of a snapshot, with whether anything was added.\<close>

definition expand_implied :: "Capability \<Rightarrow> CapabilitySet \<times> bool \<Rightarrow> CapabilitySet \<times> bool" where
  "expand_implied implied = (\<lambda>(s, added). if \<not> cs_contains s implied then (cs_insert implied s, True) else (s, added))"

definition expand_round :: "CapabilitySet \<Rightarrow> CapabilitySet \<times> bool" where
  "expand_round s = fold (\<lambda>c. fold expand_implied (implied_by c)) (cs_iter s) (s, False)"

section \<open>Basic facts\<close>

lemma set_cap_ALL [simp]: "set cap_ALL = UNIV"
proof -
  have "c \<in> set cap_ALL" for c by (cases c) (simp_all add: cap_ALL_def)
  then show ?thesis by auto
qed

lemma cap_index_less: "cap_index c < 40"
  by (cases c) simp_all

lemma map_index_cap_ALL: "map cap_index cap_ALL = [0..<40]"
  by (simp add: cap_ALL_def upt_rec)

lemma cap_index_inj: "cap_index c = cap_index d \<longleftrightarrow> c = d"
proof -
  have "inj_on cap_index (set cap_ALL)"
    using map_index_cap_ALL by (metis distinct_map distinct_upt)
  then show ?thesis by (auto dest: injD)
qed

lemma distinct_cap_ALL [simp]: "distinct cap_ALL"
  using map_index_cap_ALL by (metis distinct_map distinct_upt)

lemma bit_cap_bit: "bit (cap_bit c) n \<longleftrightarrow> n = cap_index c"
  using cap_index_less [of c] by (auto simp: cap_bit_def bit_simps)

lemma cs_contains_bit: "cs_contains s c \<longleftrightarrow> bit s (cap_index c)"
proof -
  have "s AND cap_bit c = 0 \<longleftrightarrow> \<not> bit s (cap_index c)"
    by (subst bit_eq_iff) (use cap_index_less [of c] in \<open>auto simp: bit_and_iff bit_cap_bit dest: spec [of _ "cap_index c"]\<close>)
  then show ?thesis by (simp add: cs_contains_def)
qed

lemma cs_contains_insert [simp]: "cs_contains (cs_insert c s) d \<longleftrightarrow> d = c \<or> cs_contains s d"
  by (auto simp: cs_contains_bit cs_insert_def bit_or_iff bit_cap_bit cap_index_inj)

lemma cs_contains_empty [simp]: "\<not> cs_contains 0 c"
  by (simp add: cs_contains_bit)

lemma set_cs_iter [simp]: "set (cs_iter s) = {c. cs_contains s c}"
  by (simp add: cs_iter_def)

definition cs_set :: "CapabilitySet \<Rightarrow> Capability set" where "cs_set s = {c. cs_contains s c}"

lemma cs_set_simps [simp]: "cs_set 0 = {}" "cs_set (cs_insert c s) = insert c (cs_set s)"
  by (auto simp: cs_set_def)

lemma cs_contains_set: "cs_contains s c \<longleftrightarrow> c \<in> cs_set s"
  by (simp add: cs_set_def)

lemma finite_Capability [simp]: "finite (A :: Capability set)"
  by (rule finite_subset [of _ "set cap_ALL"]) (simp, rule finite_set)

text \<open>No bit beyond the catalog is set; then a set of capabilities is its members.\<close>

definition cs_ok :: "CapabilitySet \<Rightarrow> bool" where "cs_ok s \<longleftrightarrow> (\<forall>n\<ge>40. \<not> bit s n)"

lemma cs_ok_insert [simp]: "cs_ok s \<Longrightarrow> cs_ok (cs_insert c s)"
  using cap_index_less [of c] by (auto simp: cs_ok_def cs_insert_def bit_or_iff bit_cap_bit)

lemma cs_ok_empty [simp]: "cs_ok 0"
  by (simp add: cs_ok_def)

lemma cap_index_onto: "n < 40 \<Longrightarrow> \<exists>c. cap_index c = n"
proof -
  assume "n < 40"
  then have "n \<in> set (map cap_index cap_ALL)" unfolding map_index_cap_ALL by simp
  then show ?thesis by auto
qed

lemma cs_eqI: "cs_ok s \<Longrightarrow> cs_ok t \<Longrightarrow> cs_set s = cs_set t \<Longrightarrow> s = t"
proof (rule bit_word_eqI)
  fix n assume ok: "cs_ok s" "cs_ok t" "cs_set s = cs_set t"
  show "bit s n \<longleftrightarrow> bit t n"
  proof (cases "n < 40")
    case True
    then obtain c where "cap_index c = n" using cap_index_onto by blast
    then show ?thesis using ok(3) by (auto simp: cs_set_def cs_contains_bit)
  qed (use ok(1,2) in \<open>simp add: cs_ok_def\<close>)
qed

section \<open>Expansion\<close>

definition implies :: "(Capability \<times> Capability) set" where "implies = {(c, d). d \<in> set (implied_by c)}"

lemma expand_implied_eq:
  "expand_implied d (s, b) = (if cs_contains s d then (s, b) else (cs_insert d s, True))"
  by (simp add: expand_implied_def)

lemma fold_expand_implied:
  "fold expand_implied ds (s, b) = (s', b') \<Longrightarrow>
   cs_set s' = cs_set s \<union> set ds \<and> (b' \<longleftrightarrow> b \<or> \<not> set ds \<subseteq> cs_set s) \<and> (cs_ok s \<longrightarrow> cs_ok s')"
proof (induction ds arbitrary: s b)
  case (Cons d ds)
  show ?case
  proof (cases "cs_contains s d")
    case True
    then have "fold expand_implied ds (s, b) = (s', b')" using Cons.prems by (simp add: expand_implied_eq)
    from Cons.IH [OF this] show ?thesis using True by (auto simp: cs_contains_set)
  next
    case False
    then have "fold expand_implied ds (cs_insert d s, True) = (s', b')" using Cons.prems by (simp add: expand_implied_eq)
    from Cons.IH [OF this] show ?thesis using False by (auto simp: cs_contains_set)
  qed
qed simp

lemma fold_expand_caps:
  "fold (\<lambda>c. fold expand_implied (implied_by c)) cs (s, b) = (s', b') \<Longrightarrow>
   cs_set s' = cs_set s \<union> implies `` set cs \<and> (b' \<longleftrightarrow> b \<or> \<not> implies `` set cs \<subseteq> cs_set s) \<and> (cs_ok s \<longrightarrow> cs_ok s')"
proof (induction cs arbitrary: s b)
  case (Cons c cs)
  obtain s1 b1 where s1: "fold expand_implied (implied_by c) (s, b) = (s1, b1)" by fastforce
  have "fold (\<lambda>c. fold expand_implied (implied_by c)) cs (s1, b1) = (s', b')" using Cons.prems s1 by simp
  from Cons.IH [OF this] fold_expand_implied [OF s1] show ?case by (auto simp: implies_def)
qed simp

lemma expand_round_spec:
  "expand_round s = (s', added) \<Longrightarrow>
   cs_set s' = cs_set s \<union> implies `` cs_set s \<and> (added \<longleftrightarrow> \<not> implies `` cs_set s \<subseteq> cs_set s) \<and> (cs_ok s \<longrightarrow> cs_ok s')"
  using fold_expand_caps [of "cs_iter s" s False s' added] by (simp add: expand_round_def cs_set_def)

text \<open>The loop ends because every further turn adds a capability.\<close>

function expand :: "CapabilitySet \<Rightarrow> CapabilitySet" where
  "expand s = (case expand_round s of (s', added) \<Rightarrow> if added then expand s' else s')"
  by pat_completeness auto
termination
proof (relation "measure (\<lambda>s. card (- cs_set s))")
  fix s s' added
  assume "(s', added) = expand_round s" "added"
  then have "expand_round s = (s', True)" by simp
  then have "cs_set s \<subset> cs_set s'" using expand_round_spec by blast
  then show "(s', s) \<in> measure (\<lambda>s. card (- cs_set s))" by (simp add: psubset_card_mono)
qed simp

declare expand.simps [simp del]

lemma expand_closure: "cs_set (expand s) = implies\<^sup>* `` cs_set s \<and> (cs_ok s \<longrightarrow> cs_ok (expand s))"
proof (induction s rule: expand.induct)
  case (1 s)
  obtain s' added where r: "expand_round s = (s', added)" by fastforce
  note sp = expand_round_spec [OF r]
  show ?case
  proof (cases added)
    case True
    then have "cs_set (expand s') = implies\<^sup>* `` cs_set s' \<and> (cs_ok s' \<longrightarrow> cs_ok (expand s'))" using 1 r by simp
    moreover have "implies\<^sup>* `` (cs_set s \<union> implies `` cs_set s) = implies\<^sup>* `` cs_set s"
      by (auto intro: converse_rtrancl_into_rtrancl)
    ultimately show ?thesis using True r sp by (simp add: expand.simps [of s])
  next
    case False
    then have "implies\<^sup>* `` cs_set s = cs_set s" using sp by (simp add: Image_closed_trancl)
    then show ?thesis using False r sp by (auto simp: expand.simps [of s])
  qed
qed

section \<open>Parsing and printing\<close>

text \<open>The error of a parser is the unknown id.\<close>

definition cs_parse :: "string list \<Rightarrow> string + CapabilitySet" where
  "cs_parse ids = rbind (rfold (\<lambda>i s. rbind (ok_or i (from_id i)) (\<lambda>c. Inr (cs_insert c s))) ids 0) (\<lambda>s. Inr (expand s))"

definition parse_stored :: "string list \<Rightarrow> string + CapabilitySet" where
  "parse_stored ids = cs_parse (filter (\<lambda>i. \<not> is_retired i) ids)"

definition to_ids :: "CapabilitySet \<Rightarrow> string list" where "to_ids s = map cap_id (cs_iter s)"

definition split_ids :: "string \<Rightarrow> string list" where
  "split_ids v = filter (\<lambda>s. s \<noteq> []) (map trim (split_on (CHR '','') v))"

definition from_canonical :: "string \<Rightarrow> string + CapabilitySet" where "from_canonical v = parse_stored (split_ids v)"

definition to_canonical :: "CapabilitySet \<Rightarrow> string" where "to_canonical s = join_with '','' (to_ids s)"

lemma from_id_Some: "from_id i = Some c \<Longrightarrow> cap_id c = i"
  by (auto simp: from_id_def find_Some_iff)

lemma from_id_id [simp]: "from_id (cap_id c) = Some c"
proof -
  have "list_all (\<lambda>c. from_id (cap_id c) = Some c) cap_ALL" by code_simp
  then show ?thesis by (simp add: list_all_iff)
qed

lemma cap_id_inj: "cap_id c = cap_id d \<longleftrightarrow> c = d"
  by (metis from_id_id option.inject)

lemma id_clean: "\<not> is_retired (cap_id c)" "trim (cap_id c) = cap_id c" "cap_id c \<noteq> []" "CHR '','' \<notin> set (cap_id c)"
proof -
  have "list_all (\<lambda>c. \<not> is_retired (cap_id c)) cap_ALL" by code_simp
  then show "\<not> is_retired (cap_id c)" by (simp add: list_all_iff)
  show "trim (cap_id c) = cap_id c"
    by (rule trim_id; cases c; simp add: white_space_def)
  show "cap_id c \<noteq> []" "CHR '','' \<notin> set (cap_id c)" by (cases c; simp)+
qed

lemma parse_fold:
  "rfold (\<lambda>i s. rbind (ok_or i (from_id i)) (\<lambda>c. Inr (cs_insert c s))) ids s = Inr s' \<Longrightarrow>
   cs_set s' = cs_set s \<union> {c. cap_id c \<in> set ids} \<and> (\<forall>i\<in>set ids. from_id i \<noteq> None) \<and> (cs_ok s \<longrightarrow> cs_ok s')"
proof (induction ids arbitrary: s)
  case (Cons i ids)
  then obtain c where c: "from_id i = Some c"
    "rfold (\<lambda>i s. rbind (ok_or i (from_id i)) (\<lambda>c. Inr (cs_insert c s))) ids (cs_insert c s) = Inr s'"
    by (auto simp: rbind_eq_Inr_iff)
  have "cap_id d = i \<longleftrightarrow> d = c" for d using from_id_Some [OF c(1)] by (auto simp: cap_id_inj)
  then show ?case using Cons.IH [OF c(2)] c(1) by auto
qed simp

text \<open>
  What a parsed list of ids grants: exactly the capabilities reachable from the listed ones through
  the implication table, in the reflexive and transitive closure. A list with an id outside the
  catalog is refused as a whole.
\<close>

theorem cs_parse_closure:
  "case cs_parse ids of
     Inl i \<Rightarrow> i \<in> set ids \<and> i \<notin> range cap_id
   | Inr s \<Rightarrow> set ids \<subseteq> range cap_id \<and> cs_set s = implies\<^sup>* `` {c. cap_id c \<in> set ids}"
proof (cases "rfold (\<lambda>i s. rbind (ok_or i (from_id i)) (\<lambda>c. Inr (cs_insert c s))) ids 0")
  case (Inl i)
  then have "\<exists>x u. x \<in> set ids \<and> rbind (ok_or x (from_id x)) (\<lambda>c. Inr (cs_insert c u)) = Inl i" by (rule rfold_error)
  then have "i \<in> set ids" "from_id i = None" by (auto simp: rbind_eq_Inl_iff ok_or_def split: option.splits)
  then show ?thesis using Inl by (auto simp: cs_parse_def)
next
  case (Inr s)
  have "set ids \<subseteq> range cap_id"
    using parse_fold [OF Inr] from_id_Some by fastforce
  then show ?thesis using parse_fold [OF Inr] expand_closure [of s] Inr by (simp add: cs_parse_def)
qed

lemma parse_ids: "cs_parse (map cap_id cs) = Inr (expand (fold cs_insert cs 0))"
proof -
  have "rfold (\<lambda>i s. rbind (ok_or i (from_id i)) (\<lambda>c. Inr (cs_insert c s))) (map cap_id cs) s = Inr (fold cs_insert cs s)" for s
    by (induction cs arbitrary: s) simp_all
  then show ?thesis by (simp add: cs_parse_def)
qed

lemma fold_cs_insert: "cs_set (fold cs_insert cs s) = cs_set s \<union> set cs" "cs_ok s \<Longrightarrow> cs_ok (fold cs_insert cs s)"
  by (induction cs arbitrary: s) auto

lemma split_ids_canonical: "split_ids (to_canonical s) = to_ids s"
proof (cases "to_ids s = []")
  case True
  then show ?thesis by (simp add: split_ids_def to_canonical_def)
next
  case False
  have "split_on (CHR '','') (join_with [CHR '',''] (to_ids s)) = to_ids s"
    by (rule split_on_join [OF False]) (auto simp: to_ids_def id_clean)
  then show ?thesis
    by (auto simp: split_ids_def to_canonical_def to_ids_def id_clean comp_def filter_id_conv intro!: map_idI)
qed

lemma canonical_reads_back:
  assumes "cs_parse ids = Inr s"
  shows "from_canonical (to_canonical s) = Inr s"
proof -
  obtain s0 where s0: "rfold (\<lambda>i s. rbind (ok_or i (from_id i)) (\<lambda>c. Inr (cs_insert c s))) ids 0 = Inr s0" "s = expand s0"
    using assms by (auto simp: cs_parse_def rbind_eq_Inr_iff)
  then have ok: "cs_ok s" "cs_set s = implies\<^sup>* `` cs_set s0" using parse_fold [OF s0(1)] expand_closure [of s0] by simp_all
  let ?t = "expand (fold cs_insert (cs_iter s) 0)"
  have "from_canonical (to_canonical s) = Inr ?t"
    unfolding from_canonical_def parse_stored_def split_ids_canonical
    by (simp add: to_ids_def id_clean(1) filter_map comp_def parse_ids)
  moreover have "cs_set ?t = implies\<^sup>* `` cs_set s" "cs_ok ?t"
    using expand_closure [of "fold cs_insert (cs_iter s) 0"] by (simp_all add: fold_cs_insert cs_set_def [of s])
  moreover have "implies\<^sup>* `` cs_set s = cs_set s" unfolding ok(2) by (auto intro: rtrancl_trans)
  ultimately show ?thesis using cs_eqI [of ?t s] ok(1) by simp
qed

text \<open>
  The form a key's capabilities are stored in reads back as the same set, for every set the
  parsers produce.
\<close>

theorem canonical_roundtrip:
  assumes "cs_parse ids = Inr s"
  shows "from_canonical (to_canonical s) = Inr s"
  using assms by (rule canonical_reads_back)

theorem canonical_roundtrip_witness:
  "from_canonical (to_canonical (expand (cs_insert FileDelete 0))) = Inr (expand (cs_insert FileDelete 0))"
  by (rule canonical_roundtrip [of "[''file.delete'']"]) (use parse_ids [of "[FileDelete]"] in simp)

section \<open>Presets\<close>

definition PRESETS :: "(string \<times> Capability list) list" where
  "PRESETS =
    [(''sync_client_rw'',
        [LibraryRead, FileRead, FileWrite, FileDelete, TrashRead, TrashWrite,
         HistoryRead, MetadataRead, TagRead, StarRead, StarWrite, ActivityRead,
         SearchRead, SyncRead, SyncWrite, SyncToken, NotificationRead]),
     (''sync_client_ro'',
        [LibraryRead, FileRead, TrashRead, HistoryRead, MetadataRead, TagRead,
         StarRead, ActivityRead, SearchRead, SyncRead, NotificationRead]),
     (''webdav_rw'',
        [WebdavRead, WebdavWrite]),
     (''webdav_ro'',
        [WebdavRead]),
     (''ci_upload'',
        [LibraryRead, FileRead, FileWrite, UploadLinkRead, UploadLinkWrite]),
     (''readonly_all'',
        [AccountRead, DeviceRead, LibraryRead, FileRead, TrashRead, HistoryRead,
         ShareLinkRead, UploadLinkRead, MetadataRead, TagRead, StarRead, ActivityRead,
         SearchRead, SyncRead, NotificationRead, WebdavRead]),
     (''full'',
        [AccountRead, AccountWrite, DeviceRead, DeviceWrite, LibraryRead, LibraryCreate,
         LibraryUpdate, LibraryDelete, LibraryPassword, FileRead, FileWrite, FileDelete,
         TrashRead, TrashWrite, HistoryRead, HistoryWrite, ShareLinkRead, ShareLinkWrite,
         UploadLinkRead, UploadLinkWrite, MetadataRead, MetadataWrite, TagRead, TagWrite,
         StarRead, StarWrite, ActivityRead, SearchRead, SearchReindex, SearchWrite,
         SyncRead, SyncWrite, SyncToken, NotificationRead, WebdavRead, WebdavWrite])]"

definition grantable :: "bool \<Rightarrow> Capability \<Rightarrow> bool" where
  "grantable webdav d \<longleftrightarrow> \<not> is_reserved_to_sessions d \<and> cap_domain d \<noteq> AdminDomain \<and> (webdav \<longrightarrow> cap_domain d = WebdavDomain)"

lemma grantable_implies: "(c, d) \<in> implies\<^sup>* \<Longrightarrow> grantable w c \<Longrightarrow> grantable w d"
proof (induction rule: rtrancl_induct)
  case (step d e)
  have "list_all (\<lambda>c. grantable True c \<longrightarrow> list_all (grantable True) (implied_by c)) cap_ALL"
    "list_all (\<lambda>c. grantable False c \<longrightarrow> list_all (grantable False) (implied_by c)) cap_ALL" by code_simp+
  then have "list_all (\<lambda>c. grantable w c \<longrightarrow> list_all (grantable w) (implied_by c)) cap_ALL" by (cases w) simp_all
  then show ?case using step by (simp add: list_all_iff implies_def)
qed

text \<open>
  No preset grants a capability that is reserved to sessions or to administrators, not even by
  implication, and the WebDAV presets grant nothing outside WebDAV.
\<close>

theorem presets_grantable:
  assumes "(n, cs) \<in> set PRESETS" "cs_contains (expand (fold cs_insert cs 0)) d"
  shows "\<not> is_reserved_to_sessions d \<and> cap_domain d \<noteq> AdminDomain \<and>
    (starts_with n ''webdav_'' \<longrightarrow> cap_domain d = WebdavDomain)"
proof -
  have "list_all (\<lambda>(n, cs). list_all (grantable (starts_with n ''webdav_'')) cs) PRESETS" by code_simp
  then have "\<forall>c\<in>set cs. grantable (starts_with n ''webdav_'') c" using assms(1) by (auto simp: list_all_iff)
  moreover have "\<exists>c\<in>set cs. (c, d) \<in> implies\<^sup>*"
    using assms(2) expand_closure [of "fold cs_insert cs 0"] by (auto simp: cs_contains_set fold_cs_insert)
  ultimately have "grantable (starts_with n ''webdav_'') d" using grantable_implies by blast
  then show ?thesis by (simp add: grantable_def)
qed

theorem presets_grantable_witness: "\<not> is_reserved_to_sessions WebdavRead \<and> cap_domain WebdavRead = WebdavDomain"
proof -
  have p: "(''webdav_ro'', [WebdavRead]) \<in> set PRESETS" by (simp add: PRESETS_def)
  have "cs_contains (expand (fold cs_insert [WebdavRead] 0)) WebdavRead"
    using expand_closure [of "fold cs_insert [WebdavRead] 0"] by (auto simp: cs_contains_set)
  from presets_grantable [OF p this] show ?thesis by (simp add: starts_with_def)
qed

end
