(* ===== verification/Routes.thy ===== *)
theory Routes
  imports Capability
begin

text \<open>
  The route classification of \<open>server/src/domain/capability.rs\<close>: the table \<open>ROUTES\<close>, in six parts in the
  order of the source, pattern matching and the choice of the most specific row, and the read/write
  classification of the sync and WebDAV surfaces. Methods are their text.
\<close>

datatype RouteAccess = Public | AnyAuthenticated | SessionOnly | NeedsCapability Capability

type_synonym RouteEntry = "string \<times> string \<times> RouteAccess"

definition ROUTES_1 :: "RouteEntry list" where
  "ROUTES_1 =
    [(''POST'', ''/api2/auth-token/'', Public),
     (''GET'', ''/api2/auth/ping/'', AnyAuthenticated),
     (''POST'', ''/api2/logout-device/'', SessionOnly),
     (''GET'', ''/api2/ping/'', Public),
     (''GET'', ''/api2/server-info/'', Public),
     (''POST'', ''/api2/device-wiped/'', Public),
     (''POST'', ''/api2/client-sso-link/'', Public),
     (''GET'', ''/api2/client-sso-link/{token}/'', Public),
     (''POST'', ''/api2/client-login/'', SessionOnly),
     (''GET'', ''/api2/account/info/'', NeedsCapability AccountRead),
     (''PUT'', ''/api2/account/info/'', NeedsCapability AccountWrite),
     (''POST'', ''/api2/account/'', NeedsCapability AdminUserWrite),
     (''POST'', ''/api2/accounts/'', NeedsCapability AdminUserWrite),
     (''GET'', ''/api2/avatars/user/{email}/resized/{size}/'', NeedsCapability AccountRead),
     (''POST'', ''/api/v2.1/user-avatar/'', NeedsCapability AccountWrite),
     (''GET'', ''/api2/devices/'', NeedsCapability DeviceRead),
     (''DELETE'', ''/api2/devices/'', NeedsCapability DeviceWrite),
     (''GET'', ''/api2/credentials/'', NeedsCapability DeviceRead),
     (''DELETE'', ''/api2/credentials/{kind}/{id}/'', NeedsCapability DeviceWrite),
     (''GET'', ''/api2/unseen_messages/'', NeedsCapability NotificationRead),
     (''GET'', ''/api2/repos/'', NeedsCapability LibraryRead),
     (''POST'', ''/api2/repos/'', NeedsCapability LibraryCreate),
     (''GET'', ''/api/v2.1/repos/'', NeedsCapability LibraryRead),
     (''GET'', ''/api2/repos/{repo_id}/'', NeedsCapability LibraryRead),
     (''POST'', ''/api2/repos/{repo_id}/'', NeedsCapability LibraryUpdate)]"

definition ROUTES_2 :: "RouteEntry list" where
  "ROUTES_2 =
    [(''DELETE'', ''/api2/repos/{repo_id}/'', NeedsCapability LibraryDelete),
     (''GET'', ''/api/v2.1/repos/{repo_id}/'', NeedsCapability LibraryRead),
     (''DELETE'', ''/api/v2.1/repos/{repo_id}/'', NeedsCapability LibraryDelete),
     (''GET'', ''/api2/default-repo/'', NeedsCapability LibraryRead),
     (''POST'', ''/api2/default-repo/'', NeedsCapability LibraryCreate),
     (''GET'', ''/api2/repos/{repo_id}/dir/sub_repo/'', NeedsCapability LibraryCreate),
     (''POST'', ''/api/v2.1/repos/{repo_id}/set-password/'', NeedsCapability LibraryPassword),
     (''PUT'', ''/api/v2.1/repos/{repo_id}/set-password/'', NeedsCapability LibraryPassword),
     (''GET'', ''/api/v2.1/deleted-repos/'', NeedsCapability LibraryRead),
     (''POST'', ''/api/v2.1/deleted-repos/'', NeedsCapability LibraryDelete),
     (''DELETE'', ''/api/v2.1/deleted-repos/'', NeedsCapability LibraryDelete),
     (''DELETE'', ''/api/v2.1/deleted-repos/{repo_id}/'', NeedsCapability LibraryDelete),
     (''GET'', ''/api2/repos/{repo_id}/dir/'', NeedsCapability FileRead),
     (''POST'', ''/api2/repos/{repo_id}/dir/'', NeedsCapability FileWrite),
     (''DELETE'', ''/api2/repos/{repo_id}/dir/'', NeedsCapability FileDelete),
     (''GET'', ''/api/v2.1/repos/{repo_id}/dir/'', NeedsCapability FileRead),
     (''POST'', ''/api/v2.1/repos/{repo_id}/dir/'', NeedsCapability FileWrite),
     (''DELETE'', ''/api/v2.1/repos/{repo_id}/dir/'', NeedsCapability FileDelete),
     (''GET'', ''/api/v2.1/repos/{repo_id}/dir/detail/'', NeedsCapability FileRead),
     (''POST'', ''/api2/repos/{repo_id}/dir/move/'', NeedsCapability FileWrite),
     (''POST'', ''/api2/repos/{repo_id}/dir/rename/'', NeedsCapability FileWrite),
     (''GET'', ''/api2/repos/{repo_id}/dir/shared_items/'', NeedsCapability FileRead),
     (''GET'', ''/api2/repos/{repo_id}/file/'', NeedsCapability FileRead),
     (''POST'', ''/api2/repos/{repo_id}/file/'', NeedsCapability FileWrite),
     (''PUT'', ''/api2/repos/{repo_id}/file/'', NeedsCapability FileWrite)]"

definition ROUTES_3 :: "RouteEntry list" where
  "ROUTES_3 =
    [(''DELETE'', ''/api2/repos/{repo_id}/file/'', NeedsCapability FileDelete),
     (''POST'', ''/api/v2.1/repos/{repo_id}/file/'', NeedsCapability FileWrite),
     (''DELETE'', ''/api/v2.1/repos/{repo_id}/file/'', NeedsCapability FileDelete),
     (''POST'', ''/api2/repos/{repo_id}/file/rename/'', NeedsCapability FileWrite),
     (''POST'', ''/api2/repos/{repo_id}/file/move/'', NeedsCapability FileWrite),
     (''GET'', ''/api2/repos/{repo_id}/file/detail/'', NeedsCapability FileRead),
     (''GET'', ''/api2/repos/{repo_id}/file/exif/'', NeedsCapability FileRead),
     (''GET'', ''/api2/repos/{repo_id}/file/index-text/'', NeedsCapability FileRead),
     (''POST'', ''/api2/repos/{repo_id}/file/reindex/'', NeedsCapability SearchReindex),
     (''GET'', ''/api2/repos/{repo_id}/thumbnail/'', NeedsCapability FileRead),
     (''GET'', ''/api2/repos/{repo_id}/file-uploaded-bytes/'', NeedsCapability FileWrite),
     (''GET'', ''/api/v2.1/repos/{repo_id}/file-uploaded-bytes/'', NeedsCapability FileWrite),
     (''POST'', ''/api/v2.1/repos/{repo_id}/zip-task/'', NeedsCapability FileRead),
     (''GET'', ''/repos/{repo_id}/files/{*path}'', NeedsCapability FileRead),
     (''GET'', ''/api2/repos/{repo_id}/upload-link/'', NeedsCapability FileWrite),
     (''GET'', ''/api2/repos/{repo_id}/update-link/'', NeedsCapability FileWrite),
     (''GET'', ''/api2/repos/{repo_id}/upload-blks-link/'', NeedsCapability FileWrite),
     (''GET'', ''/api2/repos/{repo_id}/update-blks-link/'', NeedsCapability FileWrite),
     (''GET'', ''/api2/repos/{repo_id}/files/{file_id}/blks/{block_id}/download-link/'', NeedsCapability FileWrite),
     (''POST'', ''/api2/repos/{repo_id}/fileops/delete/'', NeedsCapability FileDelete),
     (''POST'', ''/api2/repos/{repo_id}/fileops/copy/'', NeedsCapability FileWrite),
     (''POST'', ''/api2/repos/{repo_id}/fileops/move/'', NeedsCapability FileWrite),
     (''POST'', ''/api/v2.1/repos/sync-batch-move-item/'', NeedsCapability FileWrite),
     (''POST'', ''/api/v2.1/repos/sync-batch-copy-item/'', NeedsCapability FileWrite),
     (''POST'', ''/api/v2.1/repos/batch-delete-item/'', NeedsCapability FileDelete)]"

definition ROUTES_4 :: "RouteEntry list" where
  "ROUTES_4 =
    [(''DELETE'', ''/api/v2.1/repos/batch-delete-item/'', NeedsCapability FileDelete),
     (''POST'', ''/api/v2.1/repos/async-batch-copy-item/'', NeedsCapability FileWrite),
     (''POST'', ''/api/v2.1/repos/async-batch-move-item/'', NeedsCapability FileWrite),
     (''POST'', ''/api/v2.1/copy-move-task/'', NeedsCapability FileWrite),
     (''GET'', ''/api/v2.1/query-copy-move-progress/'', NeedsCapability FileRead),
     (''GET'', ''/api/v2.1/repos/{repo_id}/trash/'', NeedsCapability TrashRead),
     (''DELETE'', ''/api/v2.1/repos/{repo_id}/trash/'', NeedsCapability TrashWrite),
     (''POST'', ''/api/v2.1/repos/{repo_id}/trash/revert-dirents/'', NeedsCapability TrashWrite),
     (''GET'', ''/api/v2.1/repos/{repo_id}/trash2/'', NeedsCapability TrashRead),
     (''GET'', ''/api/v2.1/repos/{repo_id}/trash2/search/'', NeedsCapability TrashRead),
     (''POST'', ''/api/v2.1/repos/{repo_id}/trash2/revert/'', NeedsCapability TrashWrite),
     (''GET'', ''/api2/repo_history_changes/{repo_id}/'', NeedsCapability HistoryRead),
     (''GET'', ''/api/v2.1/repos/{repo_id}/file/history/'', NeedsCapability HistoryRead),
     (''GET'', ''/api/v2.1/repos/{repo_id}/file/revision/'', NeedsCapability HistoryRead),
     (''POST'', ''/api/v2.1/repos/{repo_id}/file/revision/restore/'', NeedsCapability HistoryWrite),
     (''GET'', ''/api2/shared-links/'', NeedsCapability ShareLinkRead),
     (''POST'', ''/api2/shared-links/'', NeedsCapability ShareLinkWrite),
     (''DELETE'', ''/api2/shared-links/{token}'', NeedsCapability ShareLinkWrite),
     (''GET'', ''/api/v2.1/share-links/'', NeedsCapability ShareLinkRead),
     (''POST'', ''/api/v2.1/share-links/'', NeedsCapability ShareLinkWrite),
     (''POST'', ''/api/v2.1/multi-share-links/'', NeedsCapability ShareLinkWrite),
     (''GET'', ''/api/v2.1/share-links/{token}/'', NeedsCapability ShareLinkRead),
     (''PUT'', ''/api/v2.1/share-links/{token}/'', NeedsCapability ShareLinkWrite),
     (''DELETE'', ''/api/v2.1/share-links/{token}/'', NeedsCapability ShareLinkWrite),
     (''GET'', ''/api2/upload-links/'', NeedsCapability UploadLinkRead)]"

definition ROUTES_5 :: "RouteEntry list" where
  "ROUTES_5 =
    [(''POST'', ''/api2/upload-links/'', NeedsCapability UploadLinkWrite),
     (''DELETE'', ''/api2/upload-links/{token}'', NeedsCapability UploadLinkWrite),
     (''GET'', ''/api/v2.1/upload-links/'', NeedsCapability UploadLinkRead),
     (''POST'', ''/api/v2.1/upload-links/'', NeedsCapability UploadLinkWrite),
     (''DELETE'', ''/api/v2.1/upload-links/clean-invalid/'', NeedsCapability UploadLinkWrite),
     (''GET'', ''/api/v2.1/upload-links/{token}/'', NeedsCapability UploadLinkRead),
     (''PUT'', ''/api/v2.1/upload-links/{token}/'', NeedsCapability UploadLinkWrite),
     (''DELETE'', ''/api/v2.1/upload-links/{token}/'', NeedsCapability UploadLinkWrite),
     (''GET'', ''/api/v2.1/upload-links/{token}/upload/'', NeedsCapability UploadLinkWrite),
     (''GET'', ''/api/v2.1/repos/{repo_id}/upload-links/'', NeedsCapability UploadLinkRead),
     (''GET'', ''/api2/groups/'', NeedsCapability LibraryRead),
     (''GET'', ''/api/v2.1/groups/'', NeedsCapability LibraryRead),
     (''GET'', ''/api/v2.1/repos/{repo_id}/related-users/'', NeedsCapability LibraryRead),
     (''GET'', ''/api/v2.1/repos/{repo_id}/metadata/'', NeedsCapability MetadataRead),
     (''PUT'', ''/api/v2.1/repos/{repo_id}/metadata/'', NeedsCapability MetadataWrite),
     (''GET'', ''/api/v2.1/repos/{repo_id}/metadata/record/'', NeedsCapability MetadataRead),
     (''PUT'', ''/api/v2.1/repos/{repo_id}/metadata/record/'', NeedsCapability MetadataWrite),
     (''GET'', ''/api/v2.1/repos/{repo_id}/metadata/tags/'', NeedsCapability TagRead),
     (''POST'', ''/api/v2.1/repos/{repo_id}/metadata/tags/'', NeedsCapability TagWrite),
     (''PUT'', ''/api/v2.1/repos/{repo_id}/metadata/tags/'', NeedsCapability TagWrite),
     (''DELETE'', ''/api/v2.1/repos/{repo_id}/metadata/tags/'', NeedsCapability TagWrite),
     (''GET'', ''/api/v2.1/repos/{repo_id}/metadata/tags-status/'', NeedsCapability TagRead),
     (''PUT'', ''/api/v2.1/repos/{repo_id}/metadata/tags-status/'', NeedsCapability TagWrite),
     (''DELETE'', ''/api/v2.1/repos/{repo_id}/metadata/tags-status/'', NeedsCapability TagWrite),
     (''GET'', ''/api/v2.1/repos/{repo_id}/metadata/tag-files/{tag_id}/'', NeedsCapability TagRead)]"

definition ROUTES_6 :: "RouteEntry list" where
  "ROUTES_6 =
    [(''PUT'', ''/api/v2.1/repos/{repo_id}/metadata/file-tags/'', NeedsCapability TagWrite),
     (''GET'', ''/api2/starredfiles/'', NeedsCapability StarRead),
     (''GET'', ''/api/v2.1/starred-items/'', NeedsCapability StarRead),
     (''POST'', ''/api/v2.1/starred-items/'', NeedsCapability StarWrite),
     (''DELETE'', ''/api/v2.1/starred-items/'', NeedsCapability StarWrite),
     (''GET'', ''/api/v2.1/activities/'', NeedsCapability ActivityRead),
     (''GET'', ''/api2/search/'', NeedsCapability SearchRead),
     (''GET'', ''/api/v2.1/search-file/'', NeedsCapability SearchRead),
     (''GET'', ''/api/v2.1/search-file'', NeedsCapability SearchRead),
     (''POST'', ''/api2/reindex/'', NeedsCapability SearchReindex),
     (''GET'', ''/api2/reindex-progress/'', NeedsCapability SearchReindex),
     (''POST'', ''/api2/index-file-text/'', NeedsCapability SearchWrite),
     (''GET'', ''/api2/repo-tokens/'', NeedsCapability SyncToken),
     (''GET'', ''/api2/repos/{repo_id}/download-info/'', NeedsCapability SyncToken),
     (''GET'', ''/api/v2.1/smart-link/'', NeedsCapability FileRead),
     (''GET'', ''/api2/admin/users/'', NeedsCapability AdminUserRead),
     (''POST'', ''/api2/admin/users/'', NeedsCapability AdminUserWrite),
     (''PUT'', ''/api2/admin/users/{user_id}/'', NeedsCapability AdminUserWrite),
     (''DELETE'', ''/api2/admin/users/{user_id}/'', NeedsCapability AdminUserWrite),
     (''GET'', ''/api2/api-keys/catalog/'', SessionOnly),
     (''GET'', ''/api2/api-keys/'', SessionOnly),
     (''POST'', ''/api2/api-keys/'', SessionOnly),
     (''GET'', ''/api2/api-keys/{id}/'', SessionOnly),
     (''PUT'', ''/api2/api-keys/{id}/'', SessionOnly),
     (''DELETE'', ''/api2/api-keys/{id}/'', SessionOnly)]"

definition ROUTES :: "RouteEntry list" where
  "ROUTES = ROUTES_1 @ ROUTES_2 @ ROUTES_3 @ ROUTES_4 @ ROUTES_5 @ ROUTES_6"

section \<open>Matching\<close>

definition ends_with :: "'a list \<Rightarrow> 'a list \<Rightarrow> bool" where "ends_with s p \<longleftrightarrow> starts_with (rev s) (rev p)"

definition is_classified_prefix :: "string \<Rightarrow> bool" where
  "is_classified_prefix path \<longleftrightarrow> path = ''/api2'' \<or> starts_with path ''/api2/'' \<or> path = ''/api/v2.1'' \<or>
     starts_with path ''/api/v2.1/'' \<or> starts_with path ''/repos/''"

definition trim_matches :: "'a list \<Rightarrow> 'a list \<Rightarrow> 'a list" where
  "trim_matches cs s = trim_end_matches cs (trim_start_matches cs s)"

definition route_segments :: "string \<Rightarrow> string list" where
  "route_segments p = split_on slash (trim_matches [slash] p)"

definition is_placeholder :: "string \<Rightarrow> bool" where
  "is_placeholder seg \<longleftrightarrow> starts_with seg ''{'' \<and> ends_with seg ''}''"

definition is_catch_all :: "string \<Rightarrow> bool" where
  "is_catch_all seg \<longleftrightarrow> (case strip_prefix seg ''{*'' of Some rest \<Rightarrow> ends_with rest ''}'' | None \<Rightarrow> False)"

fun segments_match :: "string list \<Rightarrow> string list \<Rightarrow> bool" where
  "segments_match [] path \<longleftrightarrow> path = []"
| "segments_match (seg # pat) path \<longleftrightarrow>
     (if is_catch_all seg then path \<noteq> []
      else case path of
        [] \<Rightarrow> False
      | actual # path' \<Rightarrow>
          (if is_placeholder seg then actual \<noteq> [] else seg = actual) \<and> segments_match pat path')"

definition pattern_matches :: "string \<Rightarrow> string \<Rightarrow> bool" where
  "pattern_matches pat path = segments_match (route_segments pat) (route_segments path)"

definition specificity :: "string \<Rightarrow> nat" where
  "specificity pat = sum_list (map length (filter (\<lambda>s. \<not> is_placeholder s) (route_segments pat)))"

text \<open>\<open>Iterator::max_by_key\<close>: the last of several maximal elements.\<close>

fun max_by_key :: "('a \<Rightarrow> nat) \<Rightarrow> 'a list \<Rightarrow> 'a option" where
  "max_by_key f [] = None"
| "max_by_key f (x # xs) =
     (case max_by_key f xs of None \<Rightarrow> Some x | Some y \<Rightarrow> if f x \<le> f y then Some y else Some x)"

definition route_method :: "string \<Rightarrow> string" where
  "route_method m = (if m = ''HEAD'' then ''GET'' else m)"

definition required_access :: "string \<Rightarrow> string \<Rightarrow> RouteAccess option" where
  "required_access m path =
     (if \<not> is_classified_prefix path then None
      else if m = ''OPTIONS'' then Some AnyAuthenticated
      else map_option (\<lambda>(_, _, access). access)
        (max_by_key (\<lambda>(_, pat, _). specificity pat)
          (filter (\<lambda>(m', pat, _). m' = route_method m \<and> pattern_matches pat path) ROUTES)))"

definition READ_ONLY_POST_SUFFIXES :: "string list" where
  "READ_ONLY_POST_SUFFIXES = [''/head-commits-multi'', ''/folder-perm'', ''/locked-files'']"

definition requires_sync_write :: "string \<Rightarrow> string \<Rightarrow> bool" where
  "requires_sync_write m path =
     (if m = ''GET'' \<or> m = ''HEAD'' then False
      else let trimmed = trim_end_matches [slash] path in
        \<not> list_ex (\<lambda>suffix. ends_with trimmed suffix) READ_ONLY_POST_SUFFIXES)"

definition webdav_requires_write :: "string \<Rightarrow> bool" where
  "webdav_requires_write m \<longleftrightarrow> m \<notin> set [''GET'', ''HEAD'', ''OPTIONS'', ''PROPFIND'', ''REPORT'']"

section \<open>Facts of the table\<close>

lemma max_by_key_in: "max_by_key f xs = Some x \<Longrightarrow> x \<in> set xs \<and> (\<forall>y\<in>set xs. f y \<le> f x)"
proof (induction xs arbitrary: x)
  case (Cons a xs)
  show ?case
  proof (cases "max_by_key f xs")
    case None
    then have "xs = []" by (cases xs) (auto split: option.splits if_splits)
    then show ?thesis using Cons.prems by simp
  next
    case (Some y)
    then show ?thesis using Cons.IH [OF Some] Cons.prems by (auto split: if_splits)
  qed
qed simp

lemma max_by_key_None [simp]: "max_by_key f xs = None \<longleftrightarrow> xs = []"
  by (cases xs) (auto split: option.splits)

lemma required_access_row:
  assumes "required_access m path = Some access" "m \<noteq> ''OPTIONS''"
  shows "\<exists>pat. (route_method m, pat, access) \<in> set ROUTES \<and> pattern_matches pat path \<and>
    (\<forall>(m', pat', access')\<in>set ROUTES. m' = route_method m \<longrightarrow> pattern_matches pat' path \<longrightarrow> specificity pat' \<le> specificity pat)"
proof -
  let ?rows = "filter (\<lambda>(m', pat, _). m' = route_method m \<and> pattern_matches pat path) ROUTES"
  have "map_option (\<lambda>(_, _, access). access) (max_by_key (\<lambda>(_, pat, _). specificity pat) ?rows) = Some access"
    using assms by (simp add: required_access_def split: if_splits)
  then obtain m' pat where "max_by_key (\<lambda>(_, pat, _). specificity pat) ?rows = Some (m', pat, access)" by auto
  from max_by_key_in [OF this] show ?thesis by auto
qed

text \<open>
  The rows that change the server, by the method that reaches them: each needs a capability that
  counts as a write, except for the request that prepares a zip download.
\<close>

definition mutating_methods :: "string list" where "mutating_methods = [''POST'', ''PUT'', ''DELETE'', ''PATCH'']"

definition row_needs_write :: "RouteEntry \<Rightarrow> bool" where
  "row_needs_write = (\<lambda>(m, pat, access). case access of
      NeedsCapability c \<Rightarrow> m \<in> set mutating_methods \<longrightarrow> is_write c \<or> pat = ''/api/v2.1/repos/{repo_id}/zip-task/''
    | _ \<Rightarrow> True)"

lemma rows_need_write: "list_all row_needs_write ROUTES"
  unfolding ROUTES_def list_all_append by (intro conjI; code_simp)

end
