(* ===== verification/Access.thy ===== *)
theory Access
  imports Routes Credentials
begin

text \<open>
  Who may do what: library permissions (\<open>domain/permission.rs\<close>), the authority of an API key
  (\<open>domain/api_key.rs\<close>), credentials (\<open>domain/credential.rs\<close>), library ids in paths
  (\<open>domain/repo_path.rs\<close>), the CSRF checks (\<open>service/auth/csrf.rs\<close>) and the extractors that
  authenticate a request (\<open>middleware/auth.rs\<close>, \<open>middleware/repo_extractor.rs\<close>), under \<open>server/src\<close>.

  A request is its method, its path, the template of the route it matched, its headers and the parsed
  query. Percent-decoding, the cookie parser, HMAC and the hashes of stored secrets are third-party
  code and fields of \<open>auth_env\<close>. Failing database statements and log lines are not modelled.
\<close>

section \<open>Tables and requests\<close>

record user_row =
  us_id :: int
  us_email :: string
  us_is_active :: bool
  us_email_verified :: bool
  us_is_admin :: bool

record member_row =
  mb_repo_id :: string
  mb_user_id :: int
  mb_permission :: string

record auth_db =
  au_users :: "int \<Rightarrow> user_row option"
  au_repo_owner :: "string \<Rightarrow> int option"
  au_repo_encrypted :: "string \<Rightarrow> bool"
  au_members :: "member_row list"
  au_sync_tokens :: sync_tokens
  au_api_tokens :: api_tokens
  au_keys :: key_tables
  au_key_usage_writes :: throttle
  au_peer_info_writes :: throttle

record auth_env =
  ae_now :: int
  ae_sha256_hex :: "string \<Rightarrow> string"
  ae_encrypt :: "string \<Rightarrow> string"
  ae_percent_decode :: "string \<Rightarrow> string option"
  ae_cookie_get :: "string list \<Rightarrow> string \<Rightarrow> string option"
  ae_hmac_hex :: "string \<Rightarrow> string \<Rightarrow> string"
  ae_csrf_secret :: string

record request =
  rq_method :: string
  rq_path :: string
  rq_template :: "string option"
  rq_headers :: "(string \<times> string) list"
  rq_query :: "(string \<Rightarrow> string option) option"
  rq_peer_ip :: "string option"

section \<open>Permissions (domain/permission.rs)\<close>

definition find_repo_owner_and_permission :: "auth_db \<Rightarrow> string \<Rightarrow> int \<Rightarrow> (int \<times> string option) option" where
  "find_repo_owner_and_permission db repo_id user_id =
     map_option (\<lambda>owner_id. (owner_id, map_option mb_permission
       (find (\<lambda>m. mb_repo_id m = repo_id \<and> mb_user_id m = user_id) (au_members db)))) (au_repo_owner db repo_id)"

definition check_repo_write_permission :: "auth_db \<Rightarrow> string \<Rightarrow> int \<Rightarrow> unit result" where
  "check_repo_write_permission db repo_id user_id =
     (case find_repo_owner_and_permission db repo_id user_id of
        None \<Rightarrow> Inl (NotFound ''repo not found'')
      | Some (owner_id, perm) \<Rightarrow>
          if owner_id = user_id then Inr () else if perm = Some ''rw'' then Inr () else Inl Forbidden)"

definition check_repo_owner :: "auth_db \<Rightarrow> string \<Rightarrow> int \<Rightarrow> unit result" where
  "check_repo_owner db repo_id user_id =
     (case find_repo_owner_and_permission db repo_id user_id of
        None \<Rightarrow> Inl (NotFound ''repo not found'')
      | Some (owner_id, _) \<Rightarrow> if owner_id = user_id then Inr () else Inl Forbidden)"

definition repo_permission :: "auth_db \<Rightarrow> string \<Rightarrow> int \<Rightarrow> string option result" where
  "repo_permission db repo_id user_id =
     (case find_repo_owner_and_permission db repo_id user_id of
        None \<Rightarrow> Inl (NotFound ''repo not found'')
      | Some (owner_id, perm) \<Rightarrow>
          if owner_id = user_id then Inr (Some ''rw'')
          else (case perm of
                  Some p \<Rightarrow> if p = ''rw'' then Inr (Some ''rw'') else Inr (Some ''r'')
                | None \<Rightarrow> Inr None))"

definition check_repo_read_permission :: "auth_db \<Rightarrow> string \<Rightarrow> int \<Rightarrow> unit result" where
  "check_repo_read_permission db repo_id user_id =
     rbind (repo_permission db repo_id user_id) (\<lambda>p. case p of Some _ \<Rightarrow> Inr () | None \<Rightarrow> Inl Forbidden)"

text \<open>\<open>RepoScope\<close>: no restriction, or a set of libraries.\<close>

type_synonym RepoScope = "string set option"

definition scope_allows :: "RepoScope \<Rightarrow> string \<Rightarrow> bool" where
  "scope_allows scope repo_id = (case scope of None \<Rightarrow> True | Some allowed \<Rightarrow> repo_id \<in> allowed)"

definition scope_intersect :: "RepoScope \<Rightarrow> string set \<Rightarrow> string set" where
  "scope_intersect scope ids = (case scope of None \<Rightarrow> ids | Some allowed \<Rightarrow> ids \<inter> allowed)"

definition accessible_repo_ids :: "auth_db \<Rightarrow> int \<Rightarrow> RepoScope \<Rightarrow> string set" where
  "accessible_repo_ids db user_id scope =
     scope_intersect scope ({r. au_repo_owner db r = Some user_id} \<union>
       mb_repo_id ` set (filter (\<lambda>m. mb_user_id m = user_id) (au_members db)))"

section \<open>Library ids in paths (domain/repo_path.rs)\<close>

definition is_ascii_hexdigit :: "char \<Rightarrow> bool" where
  "is_ascii_hexdigit c \<longleftrightarrow> c \<in> set ''0123456789abcdefABCDEF''"

definition is_uuid :: "string \<Rightarrow> bool" where
  "is_uuid s \<longleftrightarrow> length s = 36 \<and> s ! 8 = CHR ''-'' \<and> s ! 13 = CHR ''-'' \<and> s ! 18 = CHR ''-'' \<and> s ! 23 = CHR ''-'' \<and>
     list_all (\<lambda>(i, c). i = 8 \<or> i = 13 \<or> i = 18 \<or> i = 23 \<or> is_ascii_hexdigit c) (enumerate 0 s)"

definition candidates :: "string \<Rightarrow> string list" where
  "candidates trimmed_path =
     List.map_filter (\<lambda>p. map_option (\<lambda>rest. hd (split_on slash rest)) (strip_prefix trimmed_path p))
       [''seafhttp/repo/'', ''repo/''] @ [hd (split_on slash trimmed_path)]"

definition find_repo_id :: "auth_env \<Rightarrow> string \<Rightarrow> string option" where
  "find_repo_id env path = Option.bind (ae_percent_decode env path) (\<lambda>decoded. find is_uuid (split_on slash decoded))"

section \<open>The authority of a key (domain/api_key.rs)\<close>

datatype RepoCeiling = ReadCeiling | WriteCeiling

definition from_permission :: "string \<Rightarrow> RepoCeiling" where
  "from_permission p = (if p = ''r'' then ReadCeiling else WriteCeiling)"

record KeyAuthority =
  ka_key_id :: int
  ka_capabilities :: CapabilitySet
  ka_all_repos :: bool
  ka_repos :: "string \<rightharpoonup> RepoCeiling"

definition from_lookup :: "ApiKeyLookup \<Rightarrow> KeyAuthority result" where
  "from_lookup l =
     rbind (map_err (\<lambda>i. Internal (''api key '' @ show_int (ak_id (lk_key l)) @ '' has unknown capability: '' @ i))
       (parse_stored (split_ids (ak_capabilities (lk_key l))))) (\<lambda>capabilities.
     Inr \<lparr>ka_key_id = ak_id (lk_key l), ka_capabilities = capabilities, ka_all_repos = ak_all_repos (lk_key l),
          ka_repos = fold (\<lambda>b m. m(ab_repo_id b \<mapsto> from_permission (ab_permission b))) (lk_bindings l) Map.empty\<rparr>)"

definition ka_has :: "KeyAuthority \<Rightarrow> Capability \<Rightarrow> bool" where "ka_has a c = cs_contains (ka_capabilities a) c"

definition ka_allows_repo :: "KeyAuthority \<Rightarrow> string \<Rightarrow> bool \<Rightarrow> bool" where
  "ka_allows_repo a repo_id need_write =
     (if ka_all_repos a then True
      else case ka_repos a repo_id of Some ceiling \<Rightarrow> \<not> need_write \<or> ceiling = WriteCeiling | None \<Rightarrow> False)"

section \<open>Credentials (domain/credential.rs)\<close>

datatype Credential = Session | Key KeyAuthority | SyncTokenCredential

definition allows_route :: "Credential \<Rightarrow> RouteAccess \<Rightarrow> bool" where
  "allows_route cred access =
     (case access of
        Public \<Rightarrow> True
      | AnyAuthenticated \<Rightarrow> True
      | SessionOnly \<Rightarrow> cred = Session
      | NeedsCapability c \<Rightarrow> (case cred of Key a \<Rightarrow> ka_has a c | Session \<Rightarrow> True | SyncTokenCredential \<Rightarrow> False))"

definition allows_repo :: "Credential \<Rightarrow> string \<Rightarrow> bool \<Rightarrow> bool" where
  "allows_repo cred repo_id need_write = (case cred of Key a \<Rightarrow> ka_allows_repo a repo_id need_write | _ \<Rightarrow> True)"

definition repo_scope :: "Credential \<Rightarrow> RepoScope" where
  "repo_scope cred = (case cred of Key a \<Rightarrow> if ka_all_repos a then None else Some (dom (ka_repos a)) | _ \<Rightarrow> None)"

section \<open>Headers and CSRF (service/auth/csrf.rs)\<close>

text \<open>Header names are lower case. \<open>HeaderValue::to_str\<close> accepts visible ASCII and tabs.\<close>

definition to_str :: "string \<Rightarrow> string option" where
  "to_str v = (if list_all (\<lambda>c. (32 \<le> (of_char c :: int) \<and> (of_char c :: int) < 127) \<or> (of_char c :: int) = 9) v then Some v else None)"

definition header_get :: "(string \<times> string) list \<Rightarrow> string \<Rightarrow> string option" where
  "header_get headers name = map_of headers name"

definition header_str :: "(string \<times> string) list \<Rightarrow> string \<Rightarrow> string option" where
  "header_str headers name = Option.bind (header_get headers name) to_str"

definition header_get_all :: "(string \<times> string) list \<Rightarrow> string \<Rightarrow> string list" where
  "header_get_all headers name = map snd (filter (\<lambda>(n, _). n = name) headers)"

definition generate_csrf_token :: "auth_env \<Rightarrow> string \<Rightarrow> string" where
  "generate_csrf_token env session_token = ae_hmac_hex env (ae_csrf_secret env) session_token"

definition validate_csrf_token :: "auth_env \<Rightarrow> string \<Rightarrow> string \<Rightarrow> bool" where
  "validate_csrf_token env session_token csrf_token \<longleftrightarrow> generate_csrf_token env session_token = csrf_token"

definition extract_session_token :: "string \<Rightarrow> string option" where
  "extract_session_token cookie_str =
     Option.bind (find (\<lambda>s. starts_with s ''seahub-session='') (map trim (split_on (CHR '';'') cookie_str)))
       (\<lambda>s. strip_prefix s ''seahub-session='')"

definition validate_csrf_header :: "auth_env \<Rightarrow> (string \<times> string) list \<Rightarrow> string \<Rightarrow> bool" where
  "validate_csrf_header env headers session_token =
     (case header_str headers ''x-csrftoken'' of None \<Rightarrow> False | Some v \<Rightarrow> validate_csrf_token env session_token v)"

definition check_form_csrf :: "auth_env \<Rightarrow> string \<Rightarrow> string option \<Rightarrow> unit result" where
  "check_form_csrf env session_token csrf_token =
     (case csrf_token of
        Some token \<Rightarrow> if validate_csrf_token env session_token token then Inr () else Inl (BadRequest ''Invalid CSRF token.'')
      | None \<Rightarrow> Inl (BadRequest ''CSRF token is required.''))"

definition upload_link_cookie_name :: "string \<Rightarrow> string" where "upload_link_cookie_name token = ''visited_ufs_'' @ token"

definition share_link_cookie_name :: "string \<Rightarrow> string" where "share_link_cookie_name token = ''visited_sl_'' @ token"

definition has_link_unlock_cookie :: "auth_env \<Rightarrow> string option \<Rightarrow> string \<Rightarrow> string \<Rightarrow> bool" where
  "has_link_unlock_cookie env cookie_header cookie_name token =
     (let p = cookie_name @ ''='' in
      case cookie_header of
        None \<Rightarrow> False
      | Some cookie \<Rightarrow>
          (case Option.bind (find (\<lambda>s. starts_with s p) (map trim (split_on (CHR '';'') cookie))) (\<lambda>s. strip_prefix s p) of
             None \<Rightarrow> False
           | Some v \<Rightarrow> validate_csrf_token env token v))"

definition validate_origin :: "(string \<times> string) list \<Rightarrow> string \<Rightarrow> bool" where
  "validate_origin headers site_url_origin =
     (case header_str headers ''origin'' of
        Some origin \<Rightarrow> origin = site_url_origin
      | None \<Rightarrow>
          (case header_str headers ''referer'' of
             Some referer \<Rightarrow> starts_with referer (site_url_origin @ ''/'') \<or> referer = site_url_origin
           | None \<Rightarrow> True))"

section \<open>Extractors (middleware/auth.rs, middleware/mod.rs)\<close>

datatype StatusCode = UNAUTHORIZED | FORBIDDEN

definition require_csrf_for_cookie_session :: "auth_env \<Rightarrow> (string \<times> string) list \<Rightarrow> unit result" where
  "require_csrf_for_cookie_session env headers =
     (if header_get headers ''authorization'' \<noteq> None then Inr ()
      else case header_str headers ''cookie'' of
        None \<Rightarrow> Inr ()
      | Some cookie \<Rightarrow>
          (case extract_session_token cookie of
             None \<Rightarrow> Inr ()
           | Some session \<Rightarrow> if validate_csrf_header env headers session then Inr () else Inl Forbidden))"

definition NON_REPO_SYNC_ENDPOINTS :: "string list" where
  "NON_REPO_SYNC_ENDPOINTS = [''accessible-repos'', ''head-commits-multi'', ''protocol-version'']"

definition extract_url_repo_id :: "auth_env \<Rightarrow> string \<Rightarrow> unit + string option" where
  "extract_url_repo_id env path =
     (case ae_percent_decode env path of
        None \<Rightarrow> Inl ()
      | Some decoded \<Rightarrow>
          let cs = candidates (trim_start_matches [slash] decoded) in
          (case find is_uuid cs of
             Some repo_id \<Rightarrow> Inr (Some repo_id)
           | None \<Rightarrow> if hd cs \<in> set NON_REPO_SYNC_ENDPOINTS then Inr None else Inl ()))"

definition route_decision :: "auth_env \<Rightarrow> Credential \<Rightarrow> string \<Rightarrow> string \<Rightarrow> string \<Rightarrow> StatusCode + unit" where
  "route_decision env cred m route uri_path =
     (case required_access m route of
        None \<Rightarrow> Inl FORBIDDEN
      | Some access \<Rightarrow>
          if \<not> allows_route cred access then Inl FORBIDDEN
          else (case access of
                  NeedsCapability c \<Rightarrow>
                    (case find_repo_id env uri_path of
                       Some repo_id \<Rightarrow> if \<not> allows_repo cred repo_id (is_write c) then Inl FORBIDDEN else Inr ()
                     | None \<Rightarrow> Inr ())
                | _ \<Rightarrow> Inr ()))"

definition enforce_route_access :: "auth_env \<Rightarrow> Credential \<Rightarrow> request \<Rightarrow> StatusCode + unit" where
  "enforce_route_access env cred rq =
     route_decision env cred (rq_method rq) (case rq_template rq of Some t \<Rightarrow> t | None \<Rightarrow> rq_path rq) (rq_path rq)"

definition extract_auth_header_token :: "(string \<times> string) list \<Rightarrow> string option" where
  "extract_auth_header_token headers =
     Option.bind (header_str headers ''authorization'') (\<lambda>auth.
       case strip_prefix auth ''Token '' of Some token \<Rightarrow> Some token | None \<Rightarrow> strip_prefix auth ''Bearer '')"

definition cookie_pair :: "string \<Rightarrow> string \<Rightarrow> string option" where
  "cookie_pair name pair = Option.bind (strip_prefix pair name) (\<lambda>rest. strip_prefix rest ''='')"

definition cookie_value :: "auth_env \<Rightarrow> (string \<times> string) list \<Rightarrow> string \<Rightarrow> string option" where
  "cookie_value env headers name =
     (case ae_cookie_get env (header_get_all headers ''cookie'') name of
        Some v \<Rightarrow> Some v
      | None \<Rightarrow>
          let pairs = map trim (concat (map (split_on (CHR '';'')) (List.map_filter to_str (header_get_all headers ''cookie''))))
          in Option.bind (find (\<lambda>pair. cookie_pair name pair \<noteq> None) pairs) (cookie_pair name))"

definition session_cookie_value :: "auth_env \<Rightarrow> (string \<times> string) list \<Rightarrow> string option" where
  "session_cookie_value env headers = cookie_value env headers ''seahub-session''"

definition try_extract_cookie_session :: "auth_env \<Rightarrow> (string \<times> string) list \<Rightarrow> string \<Rightarrow> string option" where
  "try_extract_cookie_session env headers m =
     Option.bind (session_cookie_value env headers) (\<lambda>session_token.
       if m \<noteq> ''GET'' \<and> m \<noteq> ''HEAD'' \<and> \<not> validate_csrf_header env headers session_token then None
       else Some session_token)"

definition is_token_expired :: "int \<Rightarrow> int option \<Rightarrow> bool" where
  "is_token_expired now expires_at = (case expires_at of Some e \<Rightarrow> now > e | None \<Rightarrow> False)"

definition note_key_usage :: "auth_env \<Rightarrow> int \<Rightarrow> auth_db \<Rightarrow> auth_db" where
  "note_key_usage env key_id db =
     (case should_write WRITE_INTERVAL key_id (ae_now env) (au_key_usage_writes db) of
        (False, seen) \<Rightarrow> db\<lparr>au_key_usage_writes := seen\<rparr>
      | (True, seen) \<Rightarrow> db\<lparr>au_key_usage_writes := seen, au_keys := ak_touch_last_used key_id (ae_now env) (au_keys db)\<rparr>)"

definition device_from_api_token :: "api_token \<Rightarrow> DeviceIdentity option" where
  "device_from_api_token m = new_device (at_platform m) (at_device_id m) (at_device_name m) (at_client_version m)"

definition device_from_token :: "sync_token \<Rightarrow> DeviceIdentity option" where
  "device_from_token m = new_device None (st_peer_id m) (st_peer_name m) (st_client_version m)"

definition client_hint :: "request \<Rightarrow> DeviceIdentity option" where
  "client_hint rq = Option.bind (rq_query rq) (\<lambda>params.
     new_device None (params ''client_id'') (params ''client_name'') (params ''client_ver''))"

record AuthUser =
  av_user_id :: int
  av_email :: string
  av_credential :: Credential
  av_device :: "DeviceIdentity option"

definition load_auth_user :: "auth_db \<Rightarrow> int \<Rightarrow> Credential \<Rightarrow> DeviceIdentity option \<Rightarrow> StatusCode + AuthUser" where
  "load_auth_user db user_id cred device =
     (case au_users db user_id of
        None \<Rightarrow> Inl UNAUTHORIZED
      | Some u \<Rightarrow>
          if \<not> us_is_active u \<or> \<not> us_email_verified u then Inl FORBIDDEN
          else Inr \<lparr>av_user_id = us_id u, av_email = us_email u, av_credential = cred, av_device = device\<rparr>)"

definition auth_user :: "auth_env \<Rightarrow> request \<Rightarrow> auth_db \<Rightarrow> (StatusCode + AuthUser) \<times> auth_db" where
  "auth_user env rq db =
     (case (case extract_auth_header_token (rq_headers rq) of
              Some t \<Rightarrow> Some t
            | None \<Rightarrow> try_extract_cookie_session env (rq_headers rq) (rq_method rq)) of
        None \<Rightarrow> (Inl UNAUTHORIZED, db)
      | Some token_str \<Rightarrow>
          (case ak_find_by_presented (ae_sha256_hex env) (au_keys db) token_str of
             Some lookup \<Rightarrow>
               if is_token_expired (ae_now env) (ak_expires_at (lk_key lookup)) then (Inl UNAUTHORIZED, db)
               else (case from_lookup lookup of
                       Inl _ \<Rightarrow> (Inl UNAUTHORIZED, db)
                     | Inr authority \<Rightarrow>
                         let db = note_key_usage env (ak_id (lk_key lookup)) db; cred = Key authority in
                         (case enforce_route_access env cred rq of
                            Inl e \<Rightarrow> (Inl e, db)
                          | Inr _ \<Rightarrow> (load_auth_user db (ak_user_id (lk_key lookup)) cred None, db)))
           | None \<Rightarrow>
               (case at_find_by_token (ae_sha256_hex env) (au_api_tokens db) token_str of
                  None \<Rightarrow> (Inl UNAUTHORIZED, db)
                | Some record \<Rightarrow>
                    if is_token_expired (ae_now env) (at_expires_at record) then (Inl UNAUTHORIZED, db)
                    else if at_is_pending record then (Inl UNAUTHORIZED, db)
                    else (case enforce_route_access env Session rq of
                            Inl e \<Rightarrow> (Inl e, db)
                          | Inr _ \<Rightarrow> (load_auth_user db (at_user_id record) Session (device_from_api_token record), db)))))"

section \<open>Sync authentication\<close>

record SyncAuth =
  sa_user_id :: int
  sa_repo_id :: string
  sa_credential :: Credential
  sa_device :: "DeviceIdentity option"

definition ensure_active_user :: "auth_db \<Rightarrow> int \<Rightarrow> StatusCode + unit" where
  "ensure_active_user db user_id =
     (case au_users db user_id of
        None \<Rightarrow> Inl UNAUTHORIZED
      | Some u \<Rightarrow> if \<not> us_is_active u \<or> \<not> us_email_verified u then Inl FORBIDDEN else Inr ())"

definition extract_sync_token :: "(string \<times> string) list \<Rightarrow> string result" where
  "extract_sync_token headers =
     (case header_str headers ''seafile-repo-token'' of
        Some token \<Rightarrow> Inr token
      | None \<Rightarrow>
          (case Option.bind (header_str headers ''authorization'') (\<lambda>auth. strip_prefix auth ''Token '') of
             Some token \<Rightarrow> Inr token
           | None \<Rightarrow> Inl (BadRequest ''token is null'')))"

text \<open>The three ways a token authenticates, in the order \<open>from_token\<close> tries them.\<close>

definition sync_by_token :: "auth_env \<Rightarrow> auth_db \<Rightarrow> sync_token \<Rightarrow> string option \<Rightarrow> StatusCode + SyncAuth" where
  "sync_by_token env db record url_repo_id =
     (if is_token_expired (ae_now env) (st_expires_at record) then Inl FORBIDDEN
      else if (case url_repo_id of Some r \<Rightarrow> st_repo_id record \<noteq> r | None \<Rightarrow> False) then Inl FORBIDDEN
      else rbind (ensure_active_user db (st_user_id record)) (\<lambda>_.
        Inr \<lparr>sa_user_id = st_user_id record, sa_repo_id = st_repo_id record, sa_credential = SyncTokenCredential,
             sa_device = device_from_token record\<rparr>))"

definition sync_by_key ::
    "auth_env \<Rightarrow> ApiKeyLookup \<Rightarrow> string option \<Rightarrow> string \<Rightarrow> string \<Rightarrow> auth_db \<Rightarrow> (StatusCode + SyncAuth) \<times> auth_db" where
  "sync_by_key env lookup url_repo_id m path db =
     (if is_token_expired (ae_now env) (ak_expires_at (lk_key lookup)) then (Inl FORBIDDEN, db)
      else (case from_lookup lookup of
              Inl _ \<Rightarrow> (Inl FORBIDDEN, db)
            | Inr authority \<Rightarrow>
                let needed = (if requires_sync_write m path then SyncWrite else SyncRead);
                    db = note_key_usage env (ak_id (lk_key lookup)) db;
                    user_id = ak_user_id (lk_key lookup) in
                if \<not> ka_has authority needed then (Inl FORBIDDEN, db)
                else (rbind
                    (case url_repo_id of
                       None \<Rightarrow> Inr ()
                     | Some r \<Rightarrow>
                         if \<not> ka_allows_repo authority r (is_write needed) then Inl FORBIDDEN
                         else map_err (\<lambda>_. FORBIDDEN) (check_repo_read_permission db r user_id)) (\<lambda>_.
                    rbind (ensure_active_user db user_id) (\<lambda>_.
                    Inr \<lparr>sa_user_id = user_id, sa_repo_id = (case url_repo_id of Some r \<Rightarrow> r | None \<Rightarrow> []),
                         sa_credential = Key authority, sa_device = None\<rparr>)), db)))"

definition sync_by_session :: "auth_env \<Rightarrow> auth_db \<Rightarrow> api_token \<Rightarrow> string option \<Rightarrow> StatusCode + SyncAuth" where
  "sync_by_session env db record url_repo_id =
     (if is_token_expired (ae_now env) (at_expires_at record) then Inl FORBIDDEN
      else if at_is_pending record then Inl FORBIDDEN
      else rbind
        (case url_repo_id of
           None \<Rightarrow> Inr ()
         | Some r \<Rightarrow> map_err (\<lambda>_. FORBIDDEN) (check_repo_read_permission db r (at_user_id record))) (\<lambda>_.
        rbind (ensure_active_user db (at_user_id record)) (\<lambda>_.
        Inr \<lparr>sa_user_id = at_user_id record, sa_repo_id = (case url_repo_id of Some r \<Rightarrow> r | None \<Rightarrow> []),
             sa_credential = Session, sa_device = device_from_api_token record\<rparr>)))"

definition from_token ::
    "auth_env \<Rightarrow> string \<Rightarrow> string option \<Rightarrow> string \<Rightarrow> string \<Rightarrow> auth_db \<Rightarrow> (StatusCode + SyncAuth) \<times> auth_db" where
  "from_token env token_str url_repo_id m path db =
     (case st_find_by_token (ae_encrypt env) (au_sync_tokens db) token_str of
        Some record \<Rightarrow> (sync_by_token env db record url_repo_id, db)
      | None \<Rightarrow>
          (case ak_find_by_presented (ae_sha256_hex env) (au_keys db) token_str of
             Some lookup \<Rightarrow> sync_by_key env lookup url_repo_id m path db
           | None \<Rightarrow>
               (case at_find_by_token (ae_sha256_hex env) (au_api_tokens db) token_str of
                  Some record \<Rightarrow> (sync_by_session env db record url_repo_id, db)
                | None \<Rightarrow> (Inl FORBIDDEN, db))))"

text \<open>What a sync request records about its device: the peer once, then the volatile columns, throttled.\<close>

definition note_peer :: "auth_env \<Rightarrow> request \<Rightarrow> sync_token \<Rightarrow> auth_db \<Rightarrow> auth_db" where
  "note_peer env rq record db =
     (case client_hint rq of
        None \<Rightarrow> db
      | Some device \<Rightarrow>
          let db = (if non_empty (st_peer_id record) = None
                    then db\<lparr>au_sync_tokens := snd (st_attach_peer_if_unset (st_id record) (device_peer device) (au_sync_tokens db))\<rparr>
                    else db) in
          (case should_write WRITE_INTERVAL (st_id record) (ae_now env) (au_peer_info_writes db) of
             (False, seen) \<Rightarrow> db\<lparr>au_peer_info_writes := seen\<rparr>
           | (True, seen) \<Rightarrow> db\<lparr>au_peer_info_writes := seen, au_sync_tokens :=
               st_touch_peer (st_id record) (rq_peer_ip rq) (dv_client_version device) (ae_now env) (au_sync_tokens db)\<rparr>))"

definition sync_auth :: "auth_env \<Rightarrow> request \<Rightarrow> auth_db \<Rightarrow> SyncAuth result \<times> auth_db" where
  "sync_auth env rq db =
     (case extract_sync_token (rq_headers rq) of
        Inl e \<Rightarrow> (Inl e, db)
      | Inr token \<Rightarrow>
          (case extract_url_repo_id env (rq_path rq) of
             Inl _ \<Rightarrow> (Inl Forbidden, db)
           | Inr url_repo_id \<Rightarrow>
               (case st_find_by_token (ae_encrypt env) (au_sync_tokens db) token of
                  Some record \<Rightarrow>
                    if is_token_expired (ae_now env) (st_expires_at record) then (Inl Forbidden, db)
                    else if (case url_repo_id of Some r \<Rightarrow> st_repo_id record \<noteq> r | None \<Rightarrow> False) then (Inl Forbidden, db)
                    else if \<not> (case au_users db (st_user_id record) of Some u \<Rightarrow> us_is_active u \<and> us_email_verified u | None \<Rightarrow> False)
                    then (Inl Forbidden, db)
                    else (Inr \<lparr>sa_user_id = st_user_id record, sa_repo_id = st_repo_id record, sa_credential = SyncTokenCredential,
                        sa_device = (case device_from_token record of Some d \<Rightarrow> Some d | None \<Rightarrow> client_hint rq)\<rparr>,
                      note_peer env rq record db)
                | None \<Rightarrow>
                    (case from_token env token url_repo_id (rq_method rq) (rq_path rq) db of
                       (Inr auth, db) \<Rightarrow>
                         (Inr (if sa_device auth = None then auth\<lparr>sa_device := client_hint rq\<rparr> else auth), db)
                     | (Inl _, db) \<Rightarrow>
                         (case url_repo_id of
                            Some r \<Rightarrow> if au_repo_owner db r = None then (Inl RepoDeleted, db) else (Inl Forbidden, db)
                          | None \<Rightarrow> (Inl Forbidden, db))))))"

section \<open>Library extractors (middleware/repo_extractor.rs)\<close>

definition auth_rejection_to_app_error :: "StatusCode \<Rightarrow> AppError" where
  "auth_rejection_to_app_error c = (case c of FORBIDDEN \<Rightarrow> Forbidden | _ \<Rightarrow> Unauthorized)"

text \<open>\<open>path_repo_id\<close> is what axum's \<open>Path\<close> extractor yields.\<close>

definition repo_path_read ::
    "auth_env \<Rightarrow> request \<Rightarrow> string option \<Rightarrow> auth_db \<Rightarrow> (AuthUser \<times> string \<times> string) result \<times> auth_db" where
  "repo_path_read env rq path_repo_id db =
     (case auth_user env rq db of
        (Inl e, db) \<Rightarrow> (Inl (auth_rejection_to_app_error e), db)
      | (Inr user, db) \<Rightarrow>
          (rbind (ok_or (BadRequest ''missing repo_id in path'') path_repo_id) (\<lambda>repo_id.
           rbind (repo_permission db repo_id (av_user_id user)) (\<lambda>p.
           rbind (ok_or Forbidden p) (\<lambda>permission.
           if \<not> allows_repo (av_credential user) repo_id False then Inl Forbidden
           else Inr (user, repo_id,
             if permission = ''rw'' \<and> allows_repo (av_credential user) repo_id True then ''rw'' else ''r'')))), db))"

definition repo_path_write ::
    "auth_env \<Rightarrow> request \<Rightarrow> string option \<Rightarrow> auth_db \<Rightarrow> (AuthUser \<times> string) result \<times> auth_db" where
  "repo_path_write env rq path_repo_id db =
     (case auth_user env rq db of
        (Inl e, db) \<Rightarrow> (Inl (auth_rejection_to_app_error e), db)
      | (Inr user, db) \<Rightarrow>
          (rbind (ok_or (BadRequest ''missing repo_id in path'') path_repo_id) (\<lambda>repo_id.
           rbind (check_repo_write_permission db repo_id (av_user_id user)) (\<lambda>_.
           if \<not> allows_repo (av_credential user) repo_id True then Inl Forbidden else Inr (user, repo_id))), db))"

end
