(* ===== verification/AccessLaws.thy ===== *)
theory AccessLaws
  imports Access
begin

text \<open>
  What the checks of theory \<open>Access\<close> guarantee: a key reaches only the routes and libraries it was
  given, the sync guard checks the library the handler uses, a permission that is advertised is the
  one that is enforced, and where the CSRF guard is weaker than the session it protects.
\<close>

section \<open>Keys and routes\<close>

lemma route_decision_key:
  "route_decision env (Key a) m route uri = Inr () \<Longrightarrow> \<exists>access. required_access m route = Some access \<and>
     access \<noteq> SessionOnly \<and> (\<forall>c. access = NeedsCapability c \<longrightarrow> ka_has a c \<and>
       (\<forall>r. find_repo_id env uri = Some r \<longrightarrow> ka_allows_repo a r (is_write c)))"
  by (auto simp: route_decision_def allows_route_def allows_repo_def split: option.splits RouteAccess.splits if_splits)

lemma ka_allows_repo_iff:
  "ka_allows_repo a r w \<longleftrightarrow> ka_all_repos a \<or> (\<exists>ceiling. ka_repos a r = Some ceiling \<and> (w \<longrightarrow> ceiling = WriteCeiling))"
  by (auto simp: ka_allows_repo_def split: option.split)

text \<open>
  C10: a request with an API key passes the route guard only on a route of the table that is open to
  keys, with the capability the most specific row asks for; and when the path names a library, the
  key covers it, for writing if the capability is a write.
\<close>

theorem key_route_sound:
  assumes "route_decision env (Key a) m route uri = Inr ()" "m \<noteq> ''OPTIONS''"
  shows "\<exists>pat access. (route_method m, pat, access) \<in> set ROUTES \<and> pattern_matches pat route \<and> access \<noteq> SessionOnly \<and>
    (\<forall>c. access = NeedsCapability c \<longrightarrow> cs_contains (ka_capabilities a) c \<and>
      (\<forall>r. find_repo_id env uri = Some r \<longrightarrow>
         ka_all_repos a \<or> (\<exists>ceiling. ka_repos a r = Some ceiling \<and> (is_write c \<longrightarrow> ceiling = WriteCeiling))))"
proof -
  obtain access where a: "required_access m route = Some access" "access \<noteq> SessionOnly"
    "\<forall>c. access = NeedsCapability c \<longrightarrow> ka_has a c \<and> (\<forall>r. find_repo_id env uri = Some r \<longrightarrow> ka_allows_repo a r (is_write c))"
    using route_decision_key [OF assms(1)] by blast
  obtain pat where "(route_method m, pat, access) \<in> set ROUTES" "pattern_matches pat route"
    using required_access_row [OF a(1) assms(2)] by blast
  then show ?thesis using a(2,3) by (auto simp: ka_has_def ka_allows_repo_iff)
qed

lemma mutating_method: "m \<in> set mutating_methods \<Longrightarrow> m \<noteq> ''OPTIONS'' \<and> route_method m = m"
  by (auto simp: mutating_methods_def route_method_def)


section \<open>The sync guard\<close>

lemma uuid_head: "is_uuid r \<Longrightarrow> \<exists>c cs. r = c # cs \<and> is_ascii_hexdigit c"
  by (cases r) (auto simp: is_uuid_def)

lemma uuid_no_slash: "is_uuid r \<Longrightarrow> slash \<notin> set r"
proof
  assume u: "is_uuid r" and "slash \<in> set r"
  then obtain i where i: "i < length r" "r ! i = slash" by (auto simp: in_set_conv_nth)
  then have "(i, slash) \<in> set (enumerate 0 r)" by (force simp: in_set_enumerate_eq)
  then have "i = 8 \<or> i = 13 \<or> i = 18 \<or> i = 23 \<or> is_ascii_hexdigit slash" using u by (auto simp: is_uuid_def list_all_iff)
  moreover have "\<not> is_ascii_hexdigit slash" by (simp add: is_ascii_hexdigit_def)
  ultimately show False using u i(2) by (auto simp: is_uuid_def)
qed

lemma candidates_uuid:
  assumes "is_uuid r" "p \<in> {''seafhttp/repo/'', ''repo/'', []}"
  shows "find is_uuid (candidates (p @ r @ slash # rest)) = Some r"
proof -
  have seg: "hd (split_on slash (r @ slash # rest)) = r" using uuid_no_slash [OF assms(1)] by (simp add: split_on_append_sep)
  obtain c cs where r: "r = c # cs" "is_ascii_hexdigit c" using uuid_head [OF assms(1)] by blast
  have c: "c \<noteq> CHR ''s''" "c \<noteq> CHR ''r''" using r(2) by (auto simp: is_ascii_hexdigit_def)
  consider "p = ''seafhttp/repo/''" | "p = ''repo/''" | "p = []" using assms(2) by blast
  then show ?thesis
  proof cases
    case 1
    then show ?thesis using seg assms(1) by (simp add: candidates_def strip_prefix_def starts_with_def List.map_filter_def)
  next
    case 2
    then show ?thesis using seg assms(1) by (simp add: candidates_def strip_prefix_def starts_with_def List.map_filter_def)
  next
    case 3
    then show ?thesis using seg assms(1) c r(1) by (simp add: candidates_def strip_prefix_def starts_with_def List.map_filter_def)
  qed
qed

lemma guard_repo_id:
  assumes split: "\<forall>a b x y. ae_percent_decode env a = Some x \<longrightarrow> ae_percent_decode env b = Some y \<longrightarrow>
      ae_percent_decode env (a @ slash # b) = Some (x @ slash # y)"
    and plain: "ae_percent_decode env p = Some p" "p \<in> {''/seafhttp/repo'', ''/repo'', []}"
    and seg: "ae_percent_decode env seg = Some r" "is_uuid r" "ae_percent_decode env rest = Some rest'"
  shows "extract_url_repo_id env (p @ slash # seg @ slash # rest) = Inr (Some r)"
proof -
  have "ae_percent_decode env (seg @ slash # rest) = Some (r @ slash # rest')" using split seg(1,3) by blast
  then have d: "ae_percent_decode env (p @ slash # seg @ slash # rest) = Some (p @ slash # r @ slash # rest')"
    using split plain(1) by blast
  obtain c cs where r: "r = c # cs" "is_ascii_hexdigit c" using uuid_head [OF seg(2)] by blast
  have c: "c \<noteq> slash" using r(2) by (auto simp: is_ascii_hexdigit_def)
  have "\<exists>q\<in>{''seafhttp/repo/'', ''repo/'', []}. trim_start_matches [slash] (p @ slash # r @ slash # rest') = q @ r @ slash # rest'"
    using plain(2) c r(1) by (auto simp: trim_start_matches_def)
  then have "find is_uuid (candidates (trim_start_matches [slash] (p @ slash # r @ slash # rest'))) = Some r"
    using candidates_uuid [OF seg(2)] by metis
  then show ?thesis using d by (simp add: extract_url_repo_id_def Let_def)
qed

text \<open>
  The library the sync guard checks is the library the handler works on. In the three forms the
  path arrives in, the segment the router decodes for the handler, when it decodes to a library id,
  is the id the guard extracts, however it was percent-encoded. The decoder is assumed to work on the
  two sides of a slash independently.
\<close>

theorem guard_sees_handler_repo:
  assumes split: "\<forall>a b x y. ae_percent_decode env a = Some x \<longrightarrow> ae_percent_decode env b = Some y \<longrightarrow>
      ae_percent_decode env (a @ slash # b) = Some (x @ slash # y)"
    and plain: "ae_percent_decode env p = Some p" "p \<in> {''/seafhttp/repo'', ''/repo'', []}"
    and seg: "ae_percent_decode env seg = Some r" "is_uuid r" "ae_percent_decode env rest = Some rest'"
  shows "extract_url_repo_id env (p @ slash # seg @ slash # rest) = Inr (Some r)"
  using assms by (rule guard_repo_id)

definition active_user :: "auth_db \<Rightarrow> int \<Rightarrow> bool" where
  "active_user db u \<longleftrightarrow> (\<exists>row. au_users db u = Some row \<and> us_is_active row \<and> us_email_verified row)"

lemma ensure_active_user_iff: "ensure_active_user db u = Inr () \<longleftrightarrow> active_user db u"
  by (auto simp: ensure_active_user_def active_user_def split: option.split)

lemma note_key_usage_sel [simp]:
  "au_users (note_key_usage env i db) = au_users db" "au_repo_owner (note_key_usage env i db) = au_repo_owner db"
  "au_members (note_key_usage env i db) = au_members db"
  by (auto simp: note_key_usage_def split: prod.split bool.split)

lemma note_key_usage_checks [simp]:
  "find_repo_owner_and_permission (note_key_usage env i db) r u = find_repo_owner_and_permission db r u"
  "check_repo_read_permission (note_key_usage env i db) r u = check_repo_read_permission db r u"
  "active_user (note_key_usage env i db) u = active_user db u"
  by (simp_all add: find_repo_owner_and_permission_def check_repo_read_permission_def repo_permission_def active_user_def)

text \<open>What an authenticated sync request on library \<open>r\<close> has passed.\<close>

definition sync_granted :: "auth_env \<Rightarrow> auth_db \<Rightarrow> request \<Rightarrow> string \<Rightarrow> SyncAuth \<Rightarrow> bool" where
  "sync_granted env db rq r auth \<longleftrightarrow> sa_repo_id auth = r \<and> active_user db (sa_user_id auth) \<and>
     (case sa_credential auth of
        SyncTokenCredential \<Rightarrow> \<exists>m\<in>set (au_sync_tokens db). st_repo_id m = r \<and> st_user_id m = sa_user_id auth \<and>
          \<not> is_token_expired (ae_now env) (st_expires_at m)
      | Session \<Rightarrow> check_repo_read_permission db r (sa_user_id auth) = Inr ()
      | Key a \<Rightarrow> check_repo_read_permission db r (sa_user_id auth) = Inr () \<and>
          (let write = requires_sync_write (rq_method rq) (rq_path rq) in
           ka_has a (if write then SyncWrite else SyncRead) \<and> ka_allows_repo a r write))"

lemma sync_by_key_granted:
  assumes "sync_by_key env lookup (Some r) (rq_method rq) (rq_path rq) db = (Inr auth, db')"
  shows "sync_granted env db rq r auth"
proof -
  have w: "is_write SyncWrite" "\<not> is_write SyncRead" by (simp_all add: is_write_def)
  show ?thesis using assms w
    by (auto simp: sync_by_key_def sync_granted_def Let_def rbind_eq_Inr_iff ensure_active_user_iff
        split: if_splits sum.splits)
qed

lemma sync_by_session_granted: "sync_by_session env db record (Some r) = Inr auth \<Longrightarrow> sync_granted env db rq r auth"
  by (auto simp: sync_by_session_def sync_granted_def rbind_eq_Inr_iff ensure_active_user_iff split: if_splits)

lemma sync_granted_device [simp]: "sync_granted env db rq r (auth\<lparr>sa_device := d\<rparr>) = sync_granted env db rq r auth"
  by (simp add: sync_granted_def split: Credential.split)

lemma from_token_granted:
  assumes "from_token env token (Some r) (rq_method rq) (rq_path rq) db = (Inr auth, db')"
    and "st_find_by_token (ae_encrypt env) (au_sync_tokens db) token = None"
  shows "sync_granted env db rq r auth"
  using assms sync_by_key_granted sync_by_session_granted by (auto simp: from_token_def split: option.splits)

text \<open>
  C7: a sync request whose path names a library is authenticated only for that library: by an
  unexpired token bound to it, by a session of a member, or by a key of a member that carries the
  capability for the kind of request and covers the library. In every case the account is active.
\<close>

theorem sync_auth_bound:
  assumes "sync_auth env rq db = (Inr auth, db')" "extract_url_repo_id env (rq_path rq) = Inr (Some r)"
  shows "sync_granted env db rq r auth"
proof -
  obtain token where tok: "extract_sync_token (rq_headers rq) = Inr token"
    using assms(1) by (cases "extract_sync_token (rq_headers rq)") (auto simp: sync_auth_def)
  show ?thesis
  proof (cases "st_find_by_token (ae_encrypt env) (au_sync_tokens db) token")
    case (Some m)
    then have "m \<in> set (au_sync_tokens db)" by (auto simp: st_find_by_token_def find_Some_iff)
    then show ?thesis using assms tok Some
      by (auto simp: sync_auth_def sync_granted_def active_user_def split: if_splits option.splits)
  next
    case None
    obtain res db1 where ft: "from_token env token (Some r) (rq_method rq) (rq_path rq) db = (res, db1)" by fastforce
    then obtain auth0 where "res = Inr auth0" "auth = auth0 \<or> auth = auth0\<lparr>sa_device := client_hint rq\<rparr>"
      using assms tok None by (auto simp: sync_auth_def split: sum.splits if_splits)
    then show ?thesis using from_token_granted [OF _ None] ft by auto
  qed
qed

section \<open>Advertised and enforced permissions\<close>

lemma write_permission_iff: "check_repo_write_permission db r u = Inr () \<longleftrightarrow> repo_permission db r u = Inr (Some ''rw'')"
  by (auto simp: check_repo_write_permission_def repo_permission_def split: option.split)

text \<open>
  The permission a listing advertises is the one a write meets: for the same request and library
  the write extractor succeeds exactly when the read extractor reports \<open>rw\<close>.
\<close>

theorem advertised_permission_enforced:
  "fst (repo_path_write env rq p db) = Inr (user, r) \<longleftrightarrow> fst (repo_path_read env rq p db) = Inr (user, r, ''rw'')"
proof -
  obtain res db1 where au: "auth_user env rq db = (res, db1)" by fastforce
  have mono: "allows_repo c i True \<Longrightarrow> allows_repo c i False" for c i
    by (auto simp: allows_repo_def ka_allows_repo_iff split: Credential.split)
  have eq: "x = Inr () \<longleftrightarrow> (\<exists>u. x = Inr u)" for x :: "unit result" by auto
  show ?thesis
  proof (cases res)
    case (Inr u)
    have "(\<exists>x. check_repo_write_permission db1 r (av_user_id u) = Inr x) \<longleftrightarrow> repo_permission db1 r (av_user_id u) = Inr (Some ''rw'')"
      using write_permission_iff eq by metis
    then show ?thesis using au Inr mono [of "av_credential u" r]
      by (cases p) (auto simp: repo_path_write_def repo_path_read_def rbind_eq_Inr_iff split: if_splits)
  qed (use au in \<open>simp add: repo_path_write_def repo_path_read_def\<close>)
qed

section \<open>Split cookies\<close>

text \<open>
  When a browser sends its cookies in several \<open>Cookie\<close> headers, as HTTP/2 allows, the guard
  against cross-site requests on state-changing GET handlers finds no session in the first one and
  lets the request pass without a token, while authentication finds the session.
\<close>

theorem csrf_guard_split_cookies:
  "let headers = [(''cookie'', ''theme=dark''), (''cookie'', ''seahub-session=s'')] in
   require_csrf_for_cookie_session env headers = Inr () \<and>
   try_extract_cookie_session env headers ''GET'' \<noteq> None \<and> (\<forall>s. \<not> validate_csrf_header env headers s)"
proof -
  let ?h = "[(''cookie'', ''theme=dark''), (''cookie'', ''seahub-session=s'')]"
  have trim: "trim ''theme=dark'' = ''theme=dark''" "trim ''seahub-session=s'' = ''seahub-session=s''"
    by (rule trim_id; simp add: white_space_def)+
  have split: "split_on (CHR '';'') ''theme=dark'' = [''theme=dark'']" "split_on (CHR '';'') ''seahub-session=s'' = [''seahub-session=s'']"
    by (simp_all add: split_on_id)
  have str: "to_str ''theme=dark'' = Some ''theme=dark''" "to_str ''seahub-session=s'' = Some ''seahub-session=s''" by code_simp+
  have "extract_session_token ''theme=dark'' = None" by (simp add: extract_session_token_def split trim starts_with_def)
  then have first: "header_str ?h ''cookie'' = Some ''theme=dark''" "extract_session_token ''theme=dark'' = None"
    "header_get ?h ''authorization'' = None" "header_str ?h ''x-csrftoken'' = None"
    by (simp_all add: header_str_def header_get_def str)
  have pairs: "map trim (concat (map (split_on (CHR '';'')) (List.map_filter to_str (header_get_all ?h ''cookie'')))) =
      [''theme=dark'', ''seahub-session=s'']"
    by (simp add: header_get_all_def List.map_filter_def str split trim)
  have "cookie_pair ''seahub-session'' ''theme=dark'' = None" "cookie_pair ''seahub-session'' ''seahub-session=s'' = Some ''s''"
    by (simp_all add: cookie_pair_def strip_prefix_def starts_with_def)
  then have "find (\<lambda>pair. cookie_pair ''seahub-session'' pair \<noteq> None)
      (map trim (concat (map (split_on (CHR '';'')) (List.map_filter to_str (header_get_all ?h ''cookie''))))) = Some ''seahub-session=s''"
    "cookie_pair ''seahub-session'' ''seahub-session=s'' = Some ''s''" unfolding pairs by simp_all
  then have "session_cookie_value env ?h \<noteq> None"
    by (simp add: session_cookie_value_def cookie_value_def Let_def split: option.split)
  then show ?thesis using first
    by (auto simp: require_csrf_for_cookie_session_def try_extract_cookie_session_def validate_csrf_header_def Let_def)
qed

section \<open>Instances\<close>

definition demo_repo :: string where "demo_repo = ''cfcab3e0-9eb4-4c4f-92d0-87db2cd8290d''"

definition demo_auth_env :: auth_env where
  "demo_auth_env = \<lparr>ae_now = 5, ae_sha256_hex = (\<lambda>s. s), ae_encrypt = (\<lambda>s. s), ae_percent_decode = Some,
     ae_cookie_get = (\<lambda>_ _. None), ae_hmac_hex = (\<lambda>k s. k @ s), ae_csrf_secret = ''k''\<rparr>"

definition demo_authority :: KeyAuthority where
  "demo_authority = \<lparr>ka_key_id = 1, ka_capabilities = cs_insert FileRead 0, ka_all_repos = False,
     ka_repos = [demo_repo \<mapsto> ReadCeiling]\<rparr>"

definition zip_task :: string where "zip_task = ''/api/v2.1/repos/{repo_id}/zip-task/''"

definition rows_matching :: "string \<Rightarrow> string list \<Rightarrow> RouteEntry list" where
  "rows_matching m segs = filter (\<lambda>(m', pat, _). m' = m \<and> segments_match (route_segments pat) segs) ROUTES"

lemma zip_task_rows:
  "rows_matching ''POST'' [''api'', ''v2.1'', ''repos'', ''{repo_id}'', ''zip-task''] = [(''POST'', zip_task, NeedsCapability FileRead)]"
  by code_simp

lemma zip_task_access: "required_access ''POST'' zip_task = Some (NeedsCapability FileRead)"
proof -
  have "route_segments zip_task = [''api'', ''v2.1'', ''repos'', ''{repo_id}'', ''zip-task'']" "is_classified_prefix zip_task" by code_simp+
  then show ?thesis using zip_task_rows
    by (simp add: required_access_def route_method_def pattern_matches_def rows_matching_def)
qed

lemma demo_find_repo: "find_repo_id demo_auth_env ''/api/v2.1/repos/cfcab3e0-9eb4-4c4f-92d0-87db2cd8290d/zip-task/'' = Some demo_repo"
proof -
  have "find is_uuid (split_on slash ''/api/v2.1/repos/cfcab3e0-9eb4-4c4f-92d0-87db2cd8290d/zip-task/'') = Some demo_repo" by code_simp
  then show ?thesis by (simp add: find_repo_id_def demo_auth_env_def)
qed

lemma demo_decision:
  "route_decision demo_auth_env (Key demo_authority) ''POST'' zip_task ''/api/v2.1/repos/cfcab3e0-9eb4-4c4f-92d0-87db2cd8290d/zip-task/'' = Inr ()"
proof -
  have "\<not> is_write FileRead" by (simp add: is_write_def)
  then show ?thesis
    by (simp add: route_decision_def zip_task_access demo_find_repo allows_route_def allows_repo_def ka_has_def
        ka_allows_repo_def demo_authority_def)
qed

theorem key_route_sound_witness:
  "\<exists>pat access. (''POST'', pat, access) \<in> set ROUTES \<and> pattern_matches pat zip_task \<and> access \<noteq> SessionOnly \<and>
    (\<forall>c. access = NeedsCapability c \<longrightarrow> cs_contains (ka_capabilities demo_authority) c \<and> \<not> is_write c)"
proof -
  have m: "''POST'' \<noteq> ''OPTIONS''" "route_method ''POST'' = ''POST''" by (simp_all add: route_method_def)
  show ?thesis using key_route_sound [OF demo_decision m(1)] m(2) demo_find_repo by (auto simp: demo_authority_def)
qed


lemma demo_repo_uuid: "is_uuid demo_repo" by code_simp

theorem guard_sees_handler_repo_witness:
  "extract_url_repo_id demo_auth_env (''/seafhttp/repo'' @ slash # demo_repo @ slash # ''commit/HEAD'') = Inr (Some demo_repo)"
  by (rule guard_sees_handler_repo) (simp_all add: demo_auth_env_def demo_repo_uuid)

definition demo_auth_db :: auth_db where
  "demo_auth_db = \<lparr>au_users = [7 \<mapsto> \<lparr>us_id = 7, us_email = ''u@x'', us_is_active = True, us_email_verified = True, us_is_admin = False\<rparr>],
     au_repo_owner = [demo_repo \<mapsto> 7], au_repo_encrypted = (\<lambda>_. False), au_members = [],
     au_sync_tokens = [\<lparr>st_id = 1, st_token = ''tok'', st_repo_id = demo_repo, st_user_id = 7, st_created_at = 0, st_expires_at = None,
       st_peer_id = None, st_peer_name = None, st_peer_ip = None, st_client_version = None, st_last_sync_time = None\<rparr>],
     au_api_tokens = [], au_keys = \<lparr>kt_keys = [], kt_bindings = []\<rparr>, au_key_usage_writes = [], au_peer_info_writes = []\<rparr>"

definition demo_sync_request :: request where
  "demo_sync_request = \<lparr>rq_method = ''GET'', rq_path = ''/seafhttp/repo'' @ slash # demo_repo @ slash # ''commit/HEAD'', rq_template = None,
     rq_headers = [(''seafile-repo-token'', ''tok'')], rq_query = None, rq_peer_ip = None\<rparr>"

theorem sync_auth_bound_witness:
  "\<exists>auth db'. sync_auth demo_auth_env demo_sync_request demo_auth_db = (Inr auth, db') \<and>
     sync_granted demo_auth_env demo_auth_db demo_sync_request demo_repo auth"
proof -
  have path: "extract_url_repo_id demo_auth_env (rq_path demo_sync_request) = Inr (Some demo_repo)"
    unfolding demo_sync_request_def request.simps
    by (rule guard_repo_id) (simp_all add: demo_auth_env_def demo_repo_uuid)
  have tok: "extract_sync_token (rq_headers demo_sync_request) = Inr ''tok''"
    by (simp add: demo_sync_request_def extract_sync_token_def header_str_def header_get_def to_str_def)
  obtain m u where "st_find_by_token (ae_encrypt demo_auth_env) (au_sync_tokens demo_auth_db) ''tok'' = Some m"
    "st_expires_at m = None" "st_repo_id m = demo_repo" "au_users demo_auth_db (st_user_id m) = Some u" "us_is_active u" "us_email_verified u"
    by (simp add: demo_auth_db_def demo_auth_env_def st_find_by_token_def)
  then have "\<exists>auth db'. sync_auth demo_auth_env demo_sync_request demo_auth_db = (Inr auth, db')"
    by (simp add: sync_auth_def path tok is_token_expired_def)
  then show ?thesis using sync_auth_bound [OF _ path] by blast
qed

end
