(* ===== verification/ApiKeys.thy ===== *)
theory ApiKeys
  imports AccessLaws
begin

text \<open>
  Management of API keys, \<open>server/src/service/api_key.rs\<close>: validation of capabilities, library
  bindings and expiry, and the operations create, get, list, update and revoke over the tables of
  theory \<open>Credentials\<close>.

  The secret, the clock and the id the database assigns are arguments. Arithmetic on \<open>i64\<close> wraps, as
  in the release profile.
\<close>

section \<open>Input\<close>

datatype KeyExpiry = Never | InDays nat | At int

record NewApiKey =
  nk_name :: "string option"
  nk_capabilities :: "string list"
  nk_all_repos :: bool
  nk_repo_permissions :: "(string \<times> string) list"
  nk_expires :: KeyExpiry

record ApiKeyUpdate =
  ku_name :: "string option"
  ku_capabilities :: "string list option"
  ku_all_repos :: "bool option"
  ku_repo_permissions :: "(string \<times> string) list option"
  ku_expires :: "KeyExpiry option"

record ApiKeyView =
  kv_id :: int
  kv_name :: string
  kv_key_prefix :: "string option"
  kv_capabilities :: "string list"
  kv_all_repos :: bool
  kv_repos :: "(string \<times> string) list"
  kv_created_at :: int
  kv_expires_at :: "int option"
  kv_last_used_at :: "int option"

definition MAX_NAME_LEN :: nat where "MAX_NAME_LEN = 255"

definition PREFIX_LEN :: nat where "PREFIX_LEN = 8"

definition SECONDS_PER_DAY :: int where "SECONDS_PER_DAY = 86400"

section \<open>Validation\<close>

text \<open>\<open>chars().take(n)\<close>: the bytes of the first \<open>n\<close> code points.\<close>

fun take_chars :: "nat \<Rightarrow> string \<Rightarrow> string" where
  "take_chars n [] = []"
| "take_chars n (c # cs) =
     (if 0x80 \<le> (of_char c :: int) \<and> (of_char c :: int) < 0xC0 then c # take_chars n cs
      else case n of 0 \<Rightarrow> [] | Suc m \<Rightarrow> c # take_chars m cs)"

definition normalize_name :: "string option \<Rightarrow> string" where
  "normalize_name name =
     (let trimmed = trim (case name of Some n \<Rightarrow> n | None \<Rightarrow> []) in
      if trimmed = [] then ''API key'' else take_chars MAX_NAME_LEN trimmed)"

definition is_admin_capability :: "Capability \<Rightarrow> bool" where
  "is_admin_capability c \<longleftrightarrow> c = AdminUserRead \<or> c = AdminUserWrite"

definition check_grantable :: "bool \<Rightarrow> Capability \<Rightarrow> unit \<Rightarrow> unit result" where
  "check_grantable is_admin c u =
     (if is_reserved_to_sessions c then Inl (BadRequest (cap_id c @ '' cannot be granted to an API key''))
      else if is_admin_capability c \<and> \<not> is_admin then Inl Forbidden
      else Inr ())"

definition validate_capabilities :: "string list \<Rightarrow> bool \<Rightarrow> CapabilitySet result" where
  "validate_capabilities ids is_admin =
     (if ids = [] then Inl (BadRequest ''at least one capability is required'')
      else rbind (map_err (\<lambda>i. BadRequest (''unknown capability: '' @ i)) (cs_parse ids)) (\<lambda>s.
           rbind (rfold (check_grantable is_admin) (cs_iter s) ()) (\<lambda>_. Inr s)))"

definition parse_stored_capabilities :: "api_key \<Rightarrow> CapabilitySet result" where
  "parse_stored_capabilities key =
     map_err (\<lambda>i. Internal (''api key '' @ show_int (ak_id key) @ '' has unknown capability: '' @ i))
       (from_canonical (ak_capabilities key))"

definition validate_binding ::
    "auth_db \<Rightarrow> int \<Rightarrow> CapabilitySet \<Rightarrow> string \<times> string \<Rightarrow> ApiKeyBinding list \<Rightarrow> ApiKeyBinding list result" where
  "validate_binding db user_id caps = (\<lambda>(repo_id, permission) bindings.
     if repo_id \<in> ab_repo_id ` set bindings then Inl (BadRequest (''duplicate library '' @ repo_id))
     else if permission \<noteq> ''r'' \<and> permission \<noteq> ''rw''
     then Inl (BadRequest (''permission for '' @ repo_id @ '' must be '' @ quote @ ''r'' @ quote @ '' or '' @ quote @ ''rw'' @ quote))
     else rbind (check_repo_read_permission db repo_id user_id) (\<lambda>_.
       if (cs_contains caps WebdavRead \<or> cs_contains caps WebdavWrite) \<and> au_repo_owner db repo_id \<noteq> None \<and>
          au_repo_encrypted db repo_id
       then Inl (BadRequest ''WebDAV is not supported for encrypted libraries'')
       else Inr (bindings @ [\<lparr>ab_repo_id = repo_id, ab_permission = permission\<rparr>])))"

definition validate_bindings ::
    "auth_db \<Rightarrow> int \<Rightarrow> bool \<Rightarrow> (string \<times> string) list \<Rightarrow> CapabilitySet \<Rightarrow> ApiKeyBinding list result" where
  "validate_bindings db user_id all_repos repo_permissions caps =
     (if all_repos
      then if repo_permissions \<noteq> [] then Inl (BadRequest ''all_repos cannot be combined with repo_permissions'') else Inr []
      else if repo_permissions = []
      then Inl (BadRequest ''a key restricted to specific libraries needs at least one library'')
      else rfold (validate_binding db user_id caps) repo_permissions [])"

definition resolve_expiry :: "int \<Rightarrow> nat \<Rightarrow> KeyExpiry \<Rightarrow> int option result" where
  "resolve_expiry now max_days expiry =
     (case expiry of
        Never \<Rightarrow>
          if max_days > 0
          then Inl (BadRequest (''keys may not be created without an expiry; the maximum lifetime is '' @ show_nat max_days @ '' days''))
          else Inr None
      | InDays days \<Rightarrow>
          if days = 0 then Inl (BadRequest ''expires_in_days must be positive'')
          else if max_days > 0 \<and> days > max_days
          then Inl (BadRequest (''expires_in_days exceeds the maximum of '' @ show_nat max_days @ '' days''))
          else Inr (Some (i64_wrap (now + i64_wrap (i64_wrap (int days) * SECONDS_PER_DAY))))
      | At timestamp \<Rightarrow>
          if timestamp \<le> now then Inl (BadRequest ''expires_at must be in the future'')
          else if max_days > 0 \<and> timestamp > i64_wrap (now + i64_wrap (i64_wrap (int max_days) * SECONDS_PER_DAY))
          then Inl (BadRequest (''expires_at exceeds the maximum lifetime of '' @ show_nat max_days @ '' days''))
          else Inr (Some timestamp))"

section \<open>Operations\<close>

definition load_user :: "auth_db \<Rightarrow> int \<Rightarrow> user_row result" where
  "load_user db user_id = ok_or (NotFound ''user not found'') (au_users db user_id)"

definition key_not_found :: AppError where "key_not_found = NotFound ''API key not found''"

definition view_of :: "api_key \<Rightarrow> (string \<times> string) list \<Rightarrow> ApiKeyView" where
  "view_of key repos =
     \<lparr>kv_id = ak_id key, kv_name = ak_name key, kv_key_prefix = ak_key_prefix key,
      kv_capabilities = filter (\<lambda>i. i \<noteq> [] \<and> \<not> is_retired i) (map trim (split_on (CHR '','') (ak_capabilities key))),
      kv_all_repos = ak_all_repos key, kv_repos = repos, kv_created_at = ak_created_at key,
      kv_expires_at = ak_expires_at key, kv_last_used_at = ak_last_used_at key\<rparr>"

definition binding_pair :: "ApiKeyBinding \<Rightarrow> string \<times> string" where "binding_pair b = (ab_repo_id b, ab_permission b)"

definition key_create ::
    "auth_env \<Rightarrow> nat \<Rightarrow> string \<Rightarrow> int \<Rightarrow> string \<Rightarrow> int \<Rightarrow> NewApiKey \<Rightarrow> auth_db \<Rightarrow> (ApiKeyView \<times> string) result \<times> auth_db" where
  "key_create env max_days unique_err new_id secret user_id input db =
     (case rbind (load_user db user_id) (\<lambda>u.
           rbind (validate_capabilities (nk_capabilities input) (us_is_admin u)) (\<lambda>caps.
           rbind (validate_bindings db user_id (nk_all_repos input) (nk_repo_permissions input) caps) (\<lambda>bindings.
           rbind (resolve_expiry (ae_now env) max_days (nk_expires input)) (\<lambda>expires_at.
           Inr (caps, bindings, expires_at))))) of
        Inl e \<Rightarrow> (Inl e, db)
      | Inr (caps, bindings, expires_at) \<Rightarrow>
          (case ak_create unique_err
              \<lparr>ak_id = new_id, ak_user_id = user_id, ak_name = normalize_name (nk_name input),
               ak_key_hash = ae_sha256_hex env secret, ak_key_prefix = Some (take PREFIX_LEN secret),
               ak_capabilities = to_canonical caps, ak_all_repos = nk_all_repos input,
               ak_created_at = ae_now env, ak_expires_at = expires_at, ak_last_used_at = None\<rparr> bindings (au_keys db) of
             (Inl e, k) \<Rightarrow> (Inl e, db\<lparr>au_keys := k\<rparr>)
           | (Inr model, k) \<Rightarrow> (Inr (view_of model (map binding_pair bindings), secret), db\<lparr>au_keys := k\<rparr>)))"

definition key_get :: "auth_db \<Rightarrow> int \<Rightarrow> int \<Rightarrow> ApiKeyView result" where
  "key_get db user_id key_id =
     rbind (ok_or key_not_found (ak_find_by_id_and_user (au_keys db) key_id user_id)) (\<lambda>key.
     Inr (view_of key (map binding_pair (ak_list_bindings (au_keys db) key_id))))"

definition key_list :: "auth_db \<Rightarrow> int \<Rightarrow> ApiKeyView list" where
  "key_list db user_id =
     map (\<lambda>key. view_of key (map binding_pair (ak_list_bindings (au_keys db) (ak_id key))))
       (sort_desc ak_created_at (filter (\<lambda>key. ak_user_id key = user_id) (kt_keys (au_keys db))))"

text \<open>The validated end state of an update: capabilities, bindings and expiry.\<close>

definition validate_update ::
    "auth_env \<Rightarrow> nat \<Rightarrow> int \<Rightarrow> int \<Rightarrow> ApiKeyUpdate \<Rightarrow> auth_db \<Rightarrow> (CapabilitySet \<times> ApiKeyBinding list \<times> int option option) result" where
  "validate_update env max_days user_id key_id input db =
     rbind (ok_or key_not_found (ak_find_by_id_and_user (au_keys db) key_id user_id)) (\<lambda>existing.
     rbind (load_user db user_id) (\<lambda>u.
     rbind (case ku_capabilities input of
              Some ids \<Rightarrow> validate_capabilities ids (us_is_admin u)
            | None \<Rightarrow> parse_stored_capabilities existing) (\<lambda>caps.
     let final_all_repos = set_or (ku_all_repos input) (ak_all_repos existing);
         current_repos = map binding_pair (ak_list_bindings (au_keys db) key_id);
         widening = final_all_repos \<and> ku_repo_permissions input = None;
         final_repos = set_or (ku_repo_permissions input) current_repos;
         to_validate = (if widening then [] else final_repos) in
     rbind (validate_bindings db user_id final_all_repos to_validate caps) (\<lambda>bindings.
     rbind (case ku_expires input of
              Some expiry \<Rightarrow> rbind (resolve_expiry (ae_now env) max_days expiry) (\<lambda>e. Inr (Some e))
            | None \<Rightarrow> Inr None) (\<lambda>expires_at.
     Inr (caps, bindings, expires_at))))))"

definition key_update ::
    "auth_env \<Rightarrow> nat \<Rightarrow> int \<Rightarrow> int \<Rightarrow> ApiKeyUpdate \<Rightarrow> auth_db \<Rightarrow> ApiKeyView result \<times> auth_db" where
  "key_update env max_days user_id key_id input db =
     (case validate_update env max_days user_id key_id input db of
        Inl e \<Rightarrow> (Inl e, db)
      | Inr (caps, bindings, expires_at) \<Rightarrow>
          (case ak_update_metadata key_id user_id
              \<lparr>up_name = map_option (\<lambda>n. normalize_name (Some n)) (ku_name input),
               up_capabilities = map_option (\<lambda>_. to_canonical caps) (ku_capabilities input),
               up_all_repos = ku_all_repos input, up_expires_at = expires_at\<rparr> (au_keys db) of
             (False, k) \<Rightarrow> (Inl key_not_found, db\<lparr>au_keys := k\<rparr>)
           | (True, k) \<Rightarrow>
               let db = db\<lparr>au_keys := ak_replace_bindings key_id bindings k\<rparr> in (key_get db user_id key_id, db)))"

definition key_revoke :: "int \<Rightarrow> int \<Rightarrow> auth_db \<Rightarrow> unit result \<times> auth_db" where
  "key_revoke user_id key_id db =
     (case ak_delete_by_id_and_user key_id user_id (au_keys db) of
        (True, k) \<Rightarrow> (Inr (), db\<lparr>au_keys := k\<rparr>)
      | (False, k) \<Rightarrow> (Inl key_not_found, db\<lparr>au_keys := k\<rparr>))"

section \<open>The invariant of the key tables\<close>

definition caps_ok :: "string \<Rightarrow> bool" where
  "caps_ok v \<longleftrightarrow> (\<exists>s. from_canonical v = Inr s \<and> (\<forall>c. cs_contains s c \<longrightarrow> \<not> is_reserved_to_sessions c))"

definition bindings_ok :: "bool \<Rightarrow> ApiKeyBinding list \<Rightarrow> bool" where
  "bindings_ok all_repos bs \<longleftrightarrow> (all_repos \<longleftrightarrow> bs = []) \<and> distinct (map ab_repo_id bs) \<and>
     (\<forall>b\<in>set bs. ab_permission b = ''r'' \<or> ab_permission b = ''rw'')"

definition bindings_of :: "key_tables \<Rightarrow> int \<Rightarrow> ApiKeyBinding list" where
  "bindings_of k i = map snd (filter (\<lambda>(j, _). j = i) (kt_bindings k))"

definition keys_ok :: "key_tables \<Rightarrow> bool" where
  "keys_ok k \<longleftrightarrow> distinct (map ak_id (kt_keys k)) \<and> fst ` set (kt_bindings k) \<subseteq> ak_id ` set (kt_keys k) \<and>
     (\<forall>key\<in>set (kt_keys k). caps_ok (ak_capabilities key) \<and> bindings_ok (ak_all_repos key) (bindings_of k (ak_id key)))"

lemma rfold_unit: "rfold f xs () = Inr () \<Longrightarrow> x \<in> set xs \<Longrightarrow> f x () = Inr ()"
  by (induction xs) (auto simp: rbind_eq_Inr_iff)

lemma validate_capabilities_ok:
  assumes "validate_capabilities ids adm = Inr s"
  shows "caps_ok (to_canonical s)" "cs_contains s c \<Longrightarrow> is_admin_capability c \<Longrightarrow> adm"
proof -
  have p: "cs_parse ids = Inr s" and g: "rfold (check_grantable adm) (cs_iter s) () = Inr ()"
    using assms by (auto simp: validate_capabilities_def rbind_eq_Inr_iff split: if_splits)
  have ok: "\<not> is_reserved_to_sessions c \<and> (is_admin_capability c \<longrightarrow> adm)" if "cs_contains s c" for c
  proof -
    have "check_grantable adm c () = Inr ()" using rfold_unit [OF g] that by simp
    then show ?thesis by (auto simp: check_grantable_def split: if_splits)
  qed
  then show "caps_ok (to_canonical s)" unfolding caps_ok_def using canonical_reads_back [OF p] by auto
  show "cs_contains s c \<Longrightarrow> is_admin_capability c \<Longrightarrow> adm" using ok by blast
qed

lemma validate_binding_fold:
  assumes "rfold (validate_binding db u caps) ps bs = Inr bs'"
  shows "bindings_ok (bs = []) bs \<Longrightarrow> bindings_ok (bs' = []) bs'" "length bs' = length bs + length ps"
  using assms
proof (induction ps arbitrary: bs)
  case (Cons p ps)
  {
    case 1
    obtain r q where p: "p = (r, q)" by fastforce
    then obtain bs1 where bs1: "validate_binding db u caps p bs = Inr bs1" "rfold (validate_binding db u caps) ps bs1 = Inr bs'"
      using 1(2) by (auto simp: rbind_eq_Inr_iff)
    then have "bindings_ok (bs1 = []) bs1"
      using 1(1) p by (auto simp: validate_binding_def bindings_ok_def rbind_eq_Inr_iff split: if_splits)
    then show ?case using Cons.IH(1) bs1(2) by blast
  next
    case 2
    obtain r q where p: "p = (r, q)" by fastforce
    then obtain bs1 where bs1: "validate_binding db u caps p bs = Inr bs1" "rfold (validate_binding db u caps) ps bs1 = Inr bs'"
      using 2 by (auto simp: rbind_eq_Inr_iff)
    then have "length bs1 = length bs + 1"
      using p by (auto simp: validate_binding_def rbind_eq_Inr_iff split: if_splits)
    then show ?case using Cons.IH(2) [OF bs1(2)] by simp
  }
qed simp_all

lemma validate_bindings_ok:
  assumes "validate_bindings db u all_repos ps caps = Inr bs"
  shows "bindings_ok all_repos bs"
proof (cases all_repos)
  case True
  then show ?thesis using assms by (auto simp: validate_bindings_def bindings_ok_def split: if_splits)
next
  case False
  then have "ps \<noteq> []" "rfold (validate_binding db u caps) ps [] = Inr bs"
    using assms by (auto simp: validate_bindings_def split: if_splits)
  then show ?thesis using validate_binding_fold [of db u caps ps "[]" bs] False by (auto simp: bindings_ok_def)
qed

lemma bindings_of_other:
  "bindings_of (k\<lparr>kt_keys := ks, kt_bindings := filter (\<lambda>(i, _). i \<noteq> j) (kt_bindings k) @ map (Pair j) bs\<rparr>) i =
     (if i = j then bs else bindings_of k i)"
proof -
  have "map snd (filter (\<lambda>(i', _). i' = i) (map (Pair j) bs)) = (if i = j then bs else [])" for bs :: "ApiKeyBinding list"
    by (induction bs) auto
  moreover have "filter (\<lambda>(i', _). i' = i) (filter (\<lambda>(i, _). i \<noteq> j) xs) = (if i = j then [] else filter (\<lambda>(i', _). i' = i) xs)"
    for xs :: "(int \<times> ApiKeyBinding) list" by (induction xs) auto
  ultimately show ?thesis by (simp add: bindings_of_def)
qed

lemma bindings_of_append:
  "fst ` set bs' \<subseteq> {j} \<Longrightarrow> bindings_of (\<lparr>kt_keys = ks, kt_bindings = kt_bindings k @ bs'\<rparr>) i =
     (if i = j then bindings_of k i @ map snd bs' else bindings_of k i)"
proof -
  assume j: "fst ` set bs' \<subseteq> {j}"
  have "filter (\<lambda>(i', _). i' = i) bs' = (if i = j then bs' else [])" using j by (induction bs') auto
  then show ?thesis by (simp add: bindings_of_def)
qed

lemma no_bindings: "i \<notin> fst ` set (kt_bindings k) \<Longrightarrow> bindings_of k i = []"
  by (force simp: bindings_of_def filter_empty_conv)

lemma ak_create_ok:
  assumes "keys_ok k" "ak_create err row bs k = (res, k')" "ak_id row \<notin> ak_id ` set (kt_keys k)"
    and "caps_ok (ak_capabilities row)" "bindings_ok (ak_all_repos row) bs"
  shows "keys_ok k'"
proof (cases "list_ex (\<lambda>key. ak_key_hash key = ak_key_hash row) (kt_keys k)")
  case False
  have new: "ak_id row \<notin> fst ` set (kt_bindings k)" using assms(1,3) by (auto simp: keys_ok_def)
  have k': "k' = \<lparr>kt_keys = kt_keys k @ [row], kt_bindings = kt_bindings k @ map (Pair (ak_id row)) bs\<rparr>"
    using assms(2) False by (simp add: ak_create_def)
  have b: "bindings_of k' i = (if i = ak_id row then bs else bindings_of k i)" for i
    unfolding k' using no_bindings [OF new] by (subst bindings_of_append [where j = "ak_id row"]) (auto simp: comp_def)
  have "bindings_of k' (ak_id key) = bindings_of k (ak_id key)" if "key \<in> set (kt_keys k)" for key
  proof -
    have "ak_id key \<noteq> ak_id row" using that assms(3) by (metis imageI)
    then show ?thesis using b by simp
  qed
  then show ?thesis using assms b by (auto simp: keys_ok_def k')
qed (use assms in \<open>simp add: ak_create_def\<close>)

lemma delete_keys_rest:
  assumes "distinct (map ak_id (kt_keys k))" "fst ` set (kt_bindings k) \<subseteq> ak_id ` set (kt_keys k)"
    and rest: "\<And>key. key \<in> set (kt_keys k) \<Longrightarrow> \<not> P key \<Longrightarrow>
      caps_ok (ak_capabilities key) \<and> bindings_ok (ak_all_repos key) (bindings_of k (ak_id key))"
  shows "keys_ok (delete_keys P k)"
proof -
  let ?gone = "ak_id ` {key \<in> set (kt_keys k). P key}"
  have b: "bindings_of (delete_keys P k) i = bindings_of k i" if "i \<notin> ?gone" for i
    using that by (auto simp: bindings_of_def delete_keys_def Let_def intro!: arg_cong [where f = "map snd"] filter_cong)
  have inj: "inj_on ak_id (set (kt_keys k))" using assms(1) by (simp add: distinct_map)
  have uniq: "ak_id key \<notin> ?gone" if "key \<in> set (kt_keys k)" "\<not> P key" for key
  proof
    assume "ak_id key \<in> ?gone"
    then obtain key' where "key' \<in> set (kt_keys k)" "P key'" "ak_id key' = ak_id key" by auto
    then have "key' = key" using that(1) inj by (metis inj_onD)
    then show False using \<open>P key'\<close> that(2) by simp
  qed
  have "distinct (map ak_id (filter (\<lambda>key. \<not> P key) (kt_keys k)))" using assms(1) by (auto simp: distinct_map inj_on_def)
  moreover have "fst ` set (kt_bindings (delete_keys P k)) \<subseteq> ak_id ` set (kt_keys (delete_keys P k))"
  proof
    fix i assume "i \<in> fst ` set (kt_bindings (delete_keys P k))"
    then have i: "i \<in> fst ` set (kt_bindings k)" "i \<notin> ?gone" by (auto simp: delete_keys_def Let_def)
    then obtain key where "key \<in> set (kt_keys k)" "i = ak_id key" using assms(2) by auto
    then show "i \<in> ak_id ` set (kt_keys (delete_keys P k))" using i(2) by (auto simp: delete_keys_def Let_def)
  qed
  ultimately show ?thesis using rest uniq b by (auto simp: keys_ok_def delete_keys_def Let_def)
qed

lemma delete_keys_ok: "keys_ok k \<Longrightarrow> keys_ok (delete_keys P k)"
  by (rule delete_keys_rest) (auto simp: keys_ok_def)

lemma bindings_ok_filter: "bindings_ok all bs \<Longrightarrow> bindings_ok (filter Q bs = []) (filter Q bs)"
  by (auto simp: bindings_ok_def distinct_map_filter)

text \<open>Dropping bindings and then the keys they leave unbound.\<close>

lemma drop_bindings_ok:
  assumes "keys_ok k"
  shows "keys_ok (ak_delete_orphan_bound_keys (k\<lparr>kt_bindings := filter (\<lambda>(i, b). Q i b) (kt_bindings k)\<rparr>))"
proof -
  let ?k = "k\<lparr>kt_bindings := filter (\<lambda>(i, b). Q i b) (kt_bindings k)\<rparr>"
  have b: "bindings_of ?k i = filter (Q i) (bindings_of k i)" for i
  proof -
    have "map snd (filter (\<lambda>(j, _). j = i) (filter (\<lambda>(i, b). Q i b) xs)) = filter (Q i) (map snd (filter (\<lambda>(j, _). j = i) xs))" for xs
      by (induction xs) auto
    then show ?thesis by (simp add: bindings_of_def)
  qed
  have bound: "bindings_of ?k i \<noteq> [] \<longleftrightarrow> i \<in> fst ` set (kt_bindings ?k)" for i
    by (auto simp: bindings_of_def filter_empty_conv image_iff)
  show ?thesis unfolding ak_delete_orphan_bound_keys_def Let_def
  proof (rule delete_keys_rest)
    show "distinct (map ak_id (kt_keys ?k))" "fst ` set (kt_bindings ?k) \<subseteq> ak_id ` set (kt_keys ?k)"
      using assms by (auto simp: keys_ok_def)
  next
    fix key assume key: "key \<in> set (kt_keys ?k)" and keep: "\<not> (\<not> ak_all_repos key \<and> ak_id key \<notin> set (map fst (kt_bindings ?k)))"
    have ok: "caps_ok (ak_capabilities key)" "bindings_ok (ak_all_repos key) (bindings_of k (ak_id key))"
      using assms key by (auto simp: keys_ok_def)
    have "ak_all_repos key \<longleftrightarrow> bindings_of ?k (ak_id key) = []"
    proof (cases "ak_all_repos key")
      case True
      then show ?thesis using ok(2) b by (simp add: bindings_ok_def)
    next
      case False
      then have "ak_id key \<in> fst ` set (kt_bindings ?k)" using keep by simp
      then show ?thesis using bound False by blast
    qed
    then show "caps_ok (ak_capabilities key) \<and> bindings_ok (ak_all_repos key) (bindings_of ?k (ak_id key))"
      using ok bindings_ok_filter [OF ok(2)] b by simp
  qed
qed

lemma keys_ok_map:
  assumes "kt_keys k' = map f ks" "\<And>key. ak_id (f key) = ak_id key" "distinct (map ak_id ks)"
    and "fst ` set (kt_bindings k') \<subseteq> ak_id ` set ks"
    and "\<And>key. key \<in> set ks \<Longrightarrow> caps_ok (ak_capabilities (f key)) \<and> bindings_ok (ak_all_repos (f key)) (bindings_of k' (ak_id key))"
  shows "keys_ok k'"
proof -
  have "map ak_id (map f ks) = map ak_id ks" "ak_id ` f ` set ks = ak_id ` set ks" using assms(2) by (simp_all add: image_image)
  then have "distinct (map ak_id (kt_keys k'))" "ak_id ` set (kt_keys k') = ak_id ` set ks"
    using assms(3) unfolding assms(1) by (metis, simp)
  then show ?thesis using assms(1,2,4,5) by (simp add: keys_ok_def)
qed

lemma update_metadata_eq:
  "ak_update_metadata i u p k = (ak_find_by_id_and_user k i u \<noteq> None,
     k\<lparr>kt_keys := map (\<lambda>key. if ak_id key = i \<and> ak_user_id key = u
            then key\<lparr>ak_name := set_or (up_name p) (ak_name key),
                     ak_capabilities := set_or (up_capabilities p) (ak_capabilities key),
                     ak_all_repos := set_or (up_all_repos p) (ak_all_repos key),
                     ak_expires_at := set_or (up_expires_at p) (ak_expires_at key)\<rparr>
            else key) (kt_keys k)\<rparr>)"
proof (cases "up_name p = None \<and> up_capabilities p = None \<and> up_all_repos p = None \<and> up_expires_at p = None")
  case True
  then have e: "up_name p = None" "up_capabilities p = None" "up_all_repos p = None" "up_expires_at p = None" by simp_all
  have "(if Q key then key\<lparr>ak_name := ak_name key, ak_capabilities := ak_capabilities key,
      ak_all_repos := ak_all_repos key, ak_expires_at := ak_expires_at key\<rparr> else key) = key" for Q and key :: api_key
    by simp
  then show ?thesis by (simp add: ak_update_metadata_def e set_or_def cong: if_cong)
qed (auto simp: ak_update_metadata_def)

lemma update_ok:
  assumes "keys_ok k" "ak_find_by_id_and_user k i u = Some existing"
    and "\<forall>v. up_capabilities p = Some v \<longrightarrow> caps_ok v"
    and "bindings_ok (set_or (up_all_repos p) (ak_all_repos existing)) bs"
  shows "keys_ok (ak_replace_bindings i bs (snd (ak_update_metadata i u p k)))"
proof -
  let ?f = "\<lambda>key. if ak_id key = i \<and> ak_user_id key = u
            then key\<lparr>ak_name := set_or (up_name p) (ak_name key),
                     ak_capabilities := set_or (up_capabilities p) (ak_capabilities key),
                     ak_all_repos := set_or (up_all_repos p) (ak_all_repos key),
                     ak_expires_at := set_or (up_expires_at p) (ak_expires_at key)\<rparr>
            else key"
  let ?k = "ak_replace_bindings i bs (snd (ak_update_metadata i u p k))"
  have ex: "existing \<in> set (kt_keys k)" "ak_id existing = i" "ak_user_id existing = u"
    using assms(2) by (auto simp: ak_find_by_id_and_user_def find_Some_iff)
  have keys: "kt_keys ?k = map ?f (kt_keys k)" by (simp add: ak_replace_bindings_def update_metadata_eq)
  have inj: "inj_on ak_id (set (kt_keys k))" using assms(1) by (simp add: keys_ok_def distinct_map)
  have b: "bindings_of ?k j = (if j = i then bs else bindings_of k j)" for j
    using bindings_of_other [where k = "k\<lparr>kt_keys := map ?f (kt_keys k)\<rparr>" and ks = "map ?f (kt_keys k)" and i = j and j = i and bs = bs]
    by (simp add: ak_replace_bindings_def update_metadata_eq bindings_of_def)
  have one: "caps_ok (ak_capabilities (?f key)) \<and> bindings_ok (ak_all_repos (?f key)) (bindings_of ?k (ak_id key))"
    if key: "key \<in> set (kt_keys k)" for key
  proof (cases "ak_id key = i")
    case True
    then have "key = existing" using inj key ex(1,2) by (metis inj_onD)
    then show ?thesis using True ex key assms(1,3,4) b by (auto simp: keys_ok_def set_or_def split: option.split)
  next
    case False
    then show ?thesis using key assms(1) b by (simp add: keys_ok_def)
  qed
  show ?thesis
  proof (rule keys_ok_map [OF keys _ _ _ one])
    show "fst ` set (kt_bindings ?k) \<subseteq> ak_id ` set (kt_keys k)"
      using assms(1) ex by (auto simp: keys_ok_def ak_replace_bindings_def update_metadata_eq)
    show "distinct (map ak_id (kt_keys k))" using assms(1) by (simp add: keys_ok_def)
  qed simp_all
qed

lemma touch_last_used_ok: "keys_ok k \<Longrightarrow> keys_ok (ak_touch_last_used i ts k)"
proof -
  assume ok: "keys_ok k"
  let ?f = "\<lambda>key. if ak_id key = i then key\<lparr>ak_last_used_at := Some ts\<rparr> else key"
  have keys: "kt_keys (ak_touch_last_used i ts k) = map ?f (kt_keys k)" by (simp add: ak_touch_last_used_def)
  have "bindings_of (ak_touch_last_used i ts k) j = bindings_of k j" for j by (simp add: bindings_of_def ak_touch_last_used_def)
  moreover have "kt_bindings (ak_touch_last_used i ts k) = kt_bindings k" by (simp add: ak_touch_last_used_def)
  ultimately show ?thesis using ok by (intro keys_ok_map [OF keys]) (auto simp: keys_ok_def)
qed

section \<open>Every operation keeps the invariant\<close>

definition db_keys_ok :: "auth_db \<Rightarrow> bool" where "db_keys_ok db \<longleftrightarrow> keys_ok (au_keys db)"

lemma key_create_ok:
  assumes "db_keys_ok db" "new_id \<notin> ak_id ` set (kt_keys (au_keys db))"
  shows "db_keys_ok (snd (key_create env max_days err new_id secret u input db))"
proof (cases "rbind (load_user db u) (\<lambda>usr.
           rbind (validate_capabilities (nk_capabilities input) (us_is_admin usr)) (\<lambda>caps.
           rbind (validate_bindings db u (nk_all_repos input) (nk_repo_permissions input) caps) (\<lambda>bindings.
           rbind (resolve_expiry (ae_now env) max_days (nk_expires input)) (\<lambda>expires_at.
           Inr (caps, bindings, expires_at)))))")
  case (Inl e)
  then show ?thesis using assms(1) by (simp add: key_create_def)
next
  case (Inr r)
  obtain caps bs ex where r: "r = (caps, bs, ex)" by (cases r)
  then have v: "caps_ok (to_canonical caps)" "bindings_ok (nk_all_repos input) bs"
    using Inr by (auto simp: rbind_eq_Inr_iff intro: validate_capabilities_ok(1) validate_bindings_ok)
  let ?row = "\<lparr>ak_id = new_id, ak_user_id = u, ak_name = normalize_name (nk_name input),
               ak_key_hash = ae_sha256_hex env secret, ak_key_prefix = Some (take PREFIX_LEN secret),
               ak_capabilities = to_canonical caps, ak_all_repos = nk_all_repos input,
               ak_created_at = ae_now env, ak_expires_at = ex, ak_last_used_at = None\<rparr>"
  obtain res k where c: "ak_create err ?row bs (au_keys db) = (res, k)" by fastforce
  then have "keys_ok k" using assms v by (intro ak_create_ok [OF _ c]) (simp_all add: db_keys_ok_def)
  then show ?thesis using Inr r c by (simp add: key_create_def db_keys_ok_def split: sum.split)
qed

lemma key_update_ok:
  assumes "db_keys_ok db"
  shows "db_keys_ok (snd (key_update env max_days u i input db))"
proof (cases "validate_update env max_days u i input db")
  case (Inr r)
  obtain caps bs ex where r: "r = (caps, bs, ex)" by (cases r)
  then obtain existing where e: "ak_find_by_id_and_user (au_keys db) i u = Some existing"
    "bindings_ok (set_or (ku_all_repos input) (ak_all_repos existing)) bs"
    "ku_capabilities input \<noteq> None \<Longrightarrow> caps_ok (to_canonical caps)"
    using Inr by (auto simp: validate_update_def rbind_eq_Inr_iff Let_def dest!: validate_bindings_ok
        intro: validate_capabilities_ok(1) split: option.splits if_splits)
  let ?p = "\<lparr>up_name = map_option (\<lambda>n. normalize_name (Some n)) (ku_name input),
               up_capabilities = map_option (\<lambda>_. to_canonical caps) (ku_capabilities input),
               up_all_repos = ku_all_repos input, up_expires_at = ex\<rparr>"
  have "keys_ok (ak_replace_bindings i bs (snd (ak_update_metadata i u ?p (au_keys db))))"
    using assms e by (intro update_ok [OF _ e(1)]) (auto simp: db_keys_ok_def)
  moreover obtain b k where "ak_update_metadata i u ?p (au_keys db) = (b, k)" by fastforce
  moreover have "fst (ak_update_metadata i u ?p (au_keys db))" using e(1) by (simp add: update_metadata_eq)
  ultimately show ?thesis using Inr r by (simp add: key_update_def db_keys_ok_def Let_def)
qed (use assms in \<open>simp add: key_update_def\<close>)

lemma note_key_usage_ok: "db_keys_ok db \<Longrightarrow> db_keys_ok (note_key_usage env i db)"
  by (auto simp: note_key_usage_def db_keys_ok_def touch_last_used_ok split: prod.split bool.split)

text \<open>Everything that writes to the key tables: the service, the deletion of an account's credentials or
  of a library, and the note of a use.\<close>

inductive key_step :: "auth_db \<Rightarrow> auth_db \<Rightarrow> bool" where
  "new_id \<notin> ak_id ` set (kt_keys (au_keys db)) \<Longrightarrow>
     key_step db (snd (key_create env max_days err new_id secret user_id input db))"
| "key_step db (snd (key_update env max_days user_id key_id change db))"
| "key_step db (snd (key_revoke user_id key_id db))"
| "key_step db (db\<lparr>au_keys := snd (ak_delete_by_id key_id (au_keys db))\<rparr>)"
| "key_step db (db\<lparr>au_keys := ak_delete_by_user user_id (au_keys db)\<rparr>)"
| "key_step db (db\<lparr>au_keys := ak_delete_bindings_by_repo repo_id (au_keys db)\<rparr>)"
| "key_step db (db\<lparr>au_keys := ak_delete_bindings_for_repo_user repo_id user_id (au_keys db)\<rparr>)"
| "key_step db (note_key_usage env key_id db)"

lemma drop_repo_ok: "keys_ok k \<Longrightarrow> keys_ok (ak_delete_bindings_by_repo r k)"
  using drop_bindings_ok [of k "\<lambda>_ b. ab_repo_id b \<noteq> r"] by (simp add: ak_delete_bindings_by_repo_def)

lemma drop_repo_user_ok: "keys_ok k \<Longrightarrow> keys_ok (ak_delete_bindings_for_repo_user r u k)"
  using drop_bindings_ok [of k "\<lambda>i b. \<not> (ab_repo_id b = r \<and> i \<in> set (map ak_id (filter (\<lambda>key. ak_user_id key = u) (kt_keys k))))"]
  by (simp add: ak_delete_bindings_for_repo_user_def Let_def)

lemma key_revoke_ok: "db_keys_ok db \<Longrightarrow> db_keys_ok (snd (key_revoke u i db))"
  by (auto simp: key_revoke_def ak_delete_by_id_and_user_def db_keys_ok_def delete_keys_ok split: bool.split)

lemma key_step_ok: "key_step db db' \<Longrightarrow> db_keys_ok db \<Longrightarrow> db_keys_ok db'"
proof (induction rule: key_step.induct)
  case (4 db i)
  then show ?case by (simp add: db_keys_ok_def ak_delete_by_id_def delete_keys_ok)
next
  case (5 db u)
  then show ?case by (simp add: db_keys_ok_def ak_delete_by_user_def delete_keys_ok)
qed (simp_all add: key_create_ok key_update_ok key_revoke_ok note_key_usage_ok drop_repo_ok drop_repo_user_ok, simp_all add: db_keys_ok_def drop_repo_ok drop_repo_user_ok)

lemma key_steps_ok: "key_step\<^sup>*\<^sup>* db db' \<Longrightarrow> db_keys_ok db \<Longrightarrow> db_keys_ok db'"
  by (induction rule: rtranclp_induct) (auto intro: key_step_ok)

lemma from_lookup_ok:
  assumes "keys_ok k" "ak_find_by_presented h k raw = Some l"
  shows "\<exists>a. from_lookup l = Inr a \<and> (\<forall>c. ka_has a c \<longrightarrow> \<not> is_reserved_to_sessions c) \<and>
    (ka_all_repos a \<longleftrightarrow> ka_repos a = Map.empty)"
proof -
  obtain key where key: "key \<in> set (kt_keys k)" "l = \<lparr>lk_key = key, lk_bindings = ak_list_bindings k (ak_id key)\<rparr>"
    using assms(2) by (auto simp: ak_find_by_presented_def find_Some_iff)
  then have ok: "caps_ok (ak_capabilities key)" "bindings_ok (ak_all_repos key) (bindings_of k (ak_id key))"
    using assms(1) by (auto simp: keys_ok_def)
  obtain s where s: "from_canonical (ak_capabilities key) = Inr s" "\<forall>c. cs_contains s c \<longrightarrow> \<not> is_reserved_to_sessions c"
    using ok(1) by (auto simp: caps_ok_def)
  have empty: "fold (\<lambda>b m. m(ab_repo_id b \<mapsto> from_permission (ab_permission b))) bs m = Map.empty \<longleftrightarrow> bs = [] \<and> m = Map.empty" for bs m
    by (induction bs arbitrary: m) auto
  have "ak_list_bindings k (ak_id key) = [] \<longleftrightarrow> bindings_of k (ak_id key) = []"
    by (simp add: ak_list_bindings_def bindings_of_def)
  then show ?thesis using s ok(2) key(2) empty
    by (auto simp: from_lookup_def from_canonical_def ka_has_def bindings_ok_def)
qed


definition demo_new_key :: NewApiKey where
  "demo_new_key = \<lparr>nk_name = None, nk_capabilities = [''file.read''], nk_all_repos = True, nk_repo_permissions = [], nk_expires = Never\<rparr>"

lemma expand_FileRead: "expand (cs_insert FileRead 0) = cs_insert FileRead 0"
proof (rule cs_eqI)
  have "implied_by FileRead = []" by (simp add: implied_by_def IMPLICATIONS_def)
  then have "implies `` {FileRead} \<subseteq> {FileRead}" by (auto simp: implies_def)
  then have "implies\<^sup>* `` {FileRead} = {FileRead}" by (rule Image_closed_trancl)
  then show "cs_set (expand (cs_insert FileRead 0)) = cs_set (cs_insert FileRead 0)" "cs_ok (expand (cs_insert FileRead 0))"
    using expand_closure [of "cs_insert FileRead 0"] by simp_all
qed simp

lemma demo_validate: "validate_capabilities [''file.read''] False = Inr (cs_insert FileRead 0)"
proof -
  have "cs_parse [''file.read''] = Inr (cs_insert FileRead 0)" using parse_ids [of "[FileRead]"] expand_FileRead by simp
  moreover have "cs_iter (cs_insert FileRead 0) = [FileRead]" by (simp add: cs_iter_def cap_ALL_def)
  ultimately show ?thesis
    by (simp add: validate_capabilities_def check_grantable_def is_reserved_to_sessions_def is_admin_capability_def)
qed


section \<open>Expiry\<close>

text \<open>
  With a configured maximum, every key that is accepted expires, in the future and within the
  maximum. The bounds keep the arithmetic inside 64 bits: a clock before the year 10000 and a maximum
  of at most a billion days.
\<close>

theorem expiry_bounded:
  assumes "resolve_expiry now max_days expiry = Inr e" "0 < max_days" "max_days \<le> 1000000000" "0 \<le> now" "now < 253402300800"
  shows "\<exists>t. e = Some t \<and> now < t \<and> t \<le> now + int max_days * 86400"
proof -
  have w: "i64_wrap (now + i64_wrap (i64_wrap (int d) * SECONDS_PER_DAY)) = now + int d * 86400" if "d \<le> max_days" for d
  proof -
    have d: "0 \<le> int d" "int d \<le> 1000000000" using that assms(3) by simp_all
    then have "i64_wrap (int d) = int d" by (intro i64_wrap_id) simp_all
    moreover have "i64_wrap (int d * 86400) = int d * 86400" using d by (intro i64_wrap_id) simp_all
    moreover have "i64_wrap (now + int d * 86400) = now + int d * 86400" using d assms(4,5) by (intro i64_wrap_id) simp_all
    ultimately show ?thesis by (simp add: SECONDS_PER_DAY_def)
  qed
  show ?thesis
  proof (cases expiry)
    case (InDays d)
    then show ?thesis using assms(1,2) w [of d] by (auto simp: resolve_expiry_def split: if_splits)
  next
    case (At t)
    then show ?thesis using assms(1,2) w [of max_days] by (auto simp: resolve_expiry_def split: if_splits)
  qed (use assms(1,2) in \<open>simp add: resolve_expiry_def\<close>)
qed

theorem expiry_bounded_witness: "\<exists>t. Some (100 + 2 * 86400) = Some t \<and> 100 < t \<and> t \<le> (100 :: int) + int 3 * 86400"
proof (rule expiry_bounded [of 100 3 "InDays 2"])
  show "resolve_expiry 100 3 (InDays 2) = Inr (Some (100 + 2 * 86400))"
    by (simp add: resolve_expiry_def SECONDS_PER_DAY_def i64_wrap_id)
qed simp_all

text \<open>
  Without a maximum the number of days is not bounded, and the product wraps: a key asked to live
  for the largest number of days is created already expired.
\<close>

theorem expiry_wraps:
  assumes "0 \<le> now" "now < 253402300800"
  shows "\<exists>t. resolve_expiry now 0 (InDays (2 ^ 64 - 1)) = Inr (Some t) \<and> t < now"
proof -
  have "i64_wrap (int (2 ^ 64 - 1)) = - 1" by (simp add: i64_wrap_def of_nat_diff)
  moreover have "i64_wrap (- 1 * SECONDS_PER_DAY) = - 86400" by (simp add: SECONDS_PER_DAY_def i64_wrap_id)
  moreover have "i64_wrap (now + - 86400) = now - 86400" using assms by (simp add: i64_wrap_id)
  ultimately have "resolve_expiry now 0 (InDays (2 ^ 64 - 1)) = Inr (Some (now - 86400))"
    unfolding resolve_expiry_def by (simp del: of_nat_diff)
  then show ?thesis by simp
qed

theorem expiry_wraps_witness: "\<exists>t. resolve_expiry 5 0 (InDays (2 ^ 64 - 1)) = Inr (Some t) \<and> t < 5"
  by (rule expiry_wraps) simp_all

end
