(* ===== verification/Leases.thy ===== *)
theory Leases
  imports Prelude
begin

text \<open>
  The scheduling policies of the two persistent queues (\<open>server/src/tasks/queue.rs\<close>) and the contract
  of a table whose rows are claimed under a lease, which the run journal
  (\<open>server/src/repository/job_run.rs\<close>) and the outgoing mail table
  (\<open>server/src/repository/email_message.rs\<close>) both implement.
\<close>

section \<open>Policies (tasks/queue.rs)\<close>

record QueuePolicy =
  qu_base_backoff_secs :: int
  qu_max_backoff_secs :: int
  qu_lease_secs :: int
  qu_sent_retention_secs :: int
  qu_failed_retention_secs :: int
  qu_max_finished_rows :: nat

definition queue_DEFAULT :: QueuePolicy where
  "queue_DEFAULT = \<lparr>qu_base_backoff_secs = 30, qu_max_backoff_secs = 3600, qu_lease_secs = 300,
     qu_sent_retention_secs = 30 * 86400, qu_failed_retention_secs = 90 * 86400, qu_max_finished_rows = 1000\<rparr>"

text \<open>The two \<open>u64\<close> fields are cast to \<open>i64\<close> before they are used.\<close>

definition backoff_secs :: "QueuePolicy \<Rightarrow> int \<Rightarrow> int" where
  "backoff_secs p attempts =
     (let exponent = min (max 1 (min 32 attempts) - 1) 20;
          factor = 2 ^ nat exponent
      in min (i64_sat (i64_wrap (qu_base_backoff_secs p) * factor)) (i64_wrap (qu_max_backoff_secs p)))"

definition next_attempt_at :: "QueuePolicy \<Rightarrow> int \<Rightarrow> int \<Rightarrow> int" where
  "next_attempt_at p now attempts = i64_sat (now + backoff_secs p attempts)"

definition lease_until :: "QueuePolicy \<Rightarrow> int \<Rightarrow> int" where
  "lease_until p now = i64_sat (now + qu_lease_secs p)"

definition retention_cutoffs :: "QueuePolicy \<Rightarrow> int \<Rightarrow> int \<times> int" where
  "retention_cutoffs p now = (i64_sat (now - qu_sent_retention_secs p), i64_sat (now - qu_failed_retention_secs p))"

record JobHistoryPolicy =
  hp_succeeded_retention_secs :: int
  hp_failed_retention_secs :: int
  hp_max_rows :: nat

definition history_DEFAULT :: JobHistoryPolicy where
  "history_DEFAULT = \<lparr>hp_succeeded_retention_secs = 30 * 86400, hp_failed_retention_secs = 90 * 86400, hp_max_rows = 5000\<rparr>"

definition history_cutoffs :: "JobHistoryPolicy \<Rightarrow> int \<Rightarrow> int \<times> int" where
  "history_cutoffs p now = (i64_sat (now - hp_succeeded_retention_secs p), i64_sat (now - hp_failed_retention_secs p))"

section \<open>Backoff\<close>

lemma i64_wrap_small: "0 \<le> v \<Longrightarrow> v < 2 ^ 63 \<Longrightarrow> i64_wrap v = v"
  by (rule i64_wrap_id) simp_all

text \<open>The factor has at most twenty doublings, so a base of up to \<open>2 ^ 42\<close> seconds never saturates.\<close>

lemma backoff_closed_form:
  assumes "0 \<le> qu_base_backoff_secs p" "qu_base_backoff_secs p < 2 ^ 42" "0 \<le> qu_max_backoff_secs p" "qu_max_backoff_secs p < 2 ^ 63"
  shows "backoff_secs p attempts = min (qu_base_backoff_secs p * 2 ^ nat (min (max 0 (attempts - 1)) 20)) (qu_max_backoff_secs p)"
proof -
  have e: "min (max 1 (min 32 attempts) - 1) 20 = min (max 0 (attempts - 1)) (20 :: int)" by auto
  have "(2 :: int) ^ nat (min (max 0 (attempts - 1)) 20) \<le> 2 ^ 20" by (rule power_increasing) auto
  then have "qu_base_backoff_secs p * 2 ^ nat (min (max 0 (attempts - 1)) 20) \<le> (2 ^ 42 - 1) * 2 ^ 20"
    using assms(1,2) by (intro mult_mono) auto
  then have "i64_sat (qu_base_backoff_secs p * 2 ^ nat (min (max 0 (attempts - 1)) 20)) =
      qu_base_backoff_secs p * 2 ^ nat (min (max 0 (attempts - 1)) 20)"
    using assms(1) by (intro i64_sat_id) (auto intro: order_trans [OF _ mult_nonneg_nonneg])
  then show ?thesis using assms by (simp add: backoff_secs_def Let_def e i64_wrap_small)
qed

lemma backoff_default: "backoff_secs queue_DEFAULT attempts = min (30 * 2 ^ nat (min (max 0 (attempts - 1)) 20)) 3600"
  by (simp add: backoff_closed_form queue_DEFAULT_def)

lemma backoff_default_bounds: "30 \<le> backoff_secs queue_DEFAULT attempts \<and> backoff_secs queue_DEFAULT attempts \<le> 3600"
  by (simp add: backoff_default)

lemma backoff_mono: "a \<le> b \<Longrightarrow> backoff_secs queue_DEFAULT a \<le> backoff_secs queue_DEFAULT b"
proof -
  assume "a \<le> b"
  then have "(2 :: int) ^ nat (min (max 0 (a - 1)) 20) \<le> 2 ^ nat (min (max 0 (b - 1)) 20)"
    by (intro power_increasing) auto
  then show ?thesis unfolding backoff_default by (rule min.mono [OF mult_left_mono order_refl]) simp
qed

section \<open>Tables claimed under a lease\<close>

text \<open>
  A claim names the row, the attempt number it read, the time and the new lease. It wins only when
  the row still has that number and no lease that runs past the time; a winner raises the number and
  takes the lease; claims touch no other row.
\<close>

locale lease_table =
  fixes claim :: "'i \<Rightarrow> int \<Rightarrow> int \<Rightarrow> int \<Rightarrow> 't \<Rightarrow> bool \<times> 't"
    and attempts :: "'t \<Rightarrow> 'i \<Rightarrow> int option"
    and lease :: "'t \<Rightarrow> 'i \<Rightarrow> int option"
    and table_ok :: "'t \<Rightarrow> bool"
  assumes claim_ok: "table_ok t \<Longrightarrow> table_ok (snd (claim i n now until t))"
    and claim_lost: "table_ok t \<Longrightarrow> \<not> fst (claim i n now until t) \<Longrightarrow> snd (claim i n now until t) = t"
    and claim_won: "table_ok t \<Longrightarrow> fst (claim i n now until t) \<Longrightarrow>
      attempts t i = Some n \<and> (\<forall>u. lease t i = Some u \<longrightarrow> u \<le> now) \<and>
      attempts (snd (claim i n now until t)) i = Some (n + 1) \<and> lease (snd (claim i n now until t)) i = Some until"
    and claim_other: "table_ok t \<Longrightarrow> i \<noteq> j \<Longrightarrow>
      attempts (snd (claim i n now until t)) j = attempts t j \<and> lease (snd (claim i n now until t)) j = lease t j"
begin

text \<open>A sequence of claims by any workers: who asks, and the answers.\<close>

definition claims :: "('i \<times> int \<times> int \<times> int) list \<Rightarrow> 't \<Rightarrow> 't" where
  "claims cs t = fold (\<lambda>(i, n, now, until) t. snd (claim i n now until t)) cs t"

lemma claims_simps: "claims [] t = t" "claims ((i, n, now, until) # cs) t = claims cs (snd (claim i n now until t))"
  by (simp_all add: claims_def)

lemma claims_append: "claims (cs @ ds) t = claims ds (claims cs t)"
  by (simp add: claims_def)

lemma claims_ok: "table_ok t \<Longrightarrow> table_ok (claims cs t)"
  by (induction cs arbitrary: t) (auto simp: claims_simps claim_ok)

lemma claim_held:
  "table_ok t \<Longrightarrow> lease t i = Some u \<Longrightarrow> now < u \<Longrightarrow> \<not> fst (claim i n now until t)"
  using claim_won [of t i n now until] by fastforce

text \<open>While a lease runs nobody else gets the row, whatever number they read.\<close>

lemma claims_held:
  "table_ok t \<Longrightarrow> lease t i = Some u \<Longrightarrow> \<forall>(j, n, now, until)\<in>set cs. j = i \<longrightarrow> now < u \<Longrightarrow>
   lease (claims cs t) i = Some u \<and> attempts (claims cs t) i = attempts t i"
proof (induction cs arbitrary: t)
  case (Cons c cs)
  obtain j n now until where c: "c = (j, n, now, until)" by (cases c)
  let ?t = "snd (claim j n now until t)"
  have "lease ?t i = lease t i \<and> attempts ?t i = attempts t i"
  proof (cases "j = i")
    case True
    then have "\<not> fst (claim i n now until t)" using claim_held Cons.prems c by auto
    then show ?thesis using claim_lost [OF Cons.prems(1)] True by simp
  next
    case False
    then show ?thesis using claim_other [OF Cons.prems(1)] by simp
  qed
  then show ?case using Cons.IH [of ?t] Cons.prems claim_ok c by (auto simp: claims_simps)
qed (simp add: claims_simps)

lemma exclusive_while_leased:
  assumes "table_ok t" "fst (claim i n now until t)" "\<forall>(j, m, later, u)\<in>set cs. j = i \<longrightarrow> later < until" "now' < until"
  shows "\<not> fst (claim i m now' u' (claims cs (snd (claim i n now until t))))"
proof -
  let ?t = "snd (claim i n now until t)"
  have "lease ?t i = Some until" "table_ok ?t" using claim_won claim_ok assms(1,2) by auto
  then have "lease (claims cs ?t) i = Some until" "table_ok (claims cs ?t)"
    using claims_held [of ?t i until cs] claims_ok assms(3) by auto
  then show ?thesis using claim_held assms(4) by blast
qed

text \<open>The number never goes back, so an attempt number is won at most once.\<close>

lemma attempts_grow:
  "table_ok t \<Longrightarrow> attempts t i = Some k \<Longrightarrow> \<exists>k'. attempts (claims cs t) i = Some k' \<and> k \<le> k'"
proof (induction cs arbitrary: t k)
  case (Cons c cs)
  obtain j n now until where c: "c = (j, n, now, until)" by (cases c)
  let ?t = "snd (claim j n now until t)"
  have "\<exists>k'. attempts ?t i = Some k' \<and> k \<le> k'"
  proof (cases "fst (claim j n now until t) \<and> j = i")
    case True
    then show ?thesis using claim_won [of t i n now until] Cons.prems by auto
  next
    case False
    then have "attempts ?t i = attempts t i"
      using claim_lost [OF Cons.prems(1)] claim_other [OF Cons.prems(1)] by (cases "j = i") auto
    then show ?thesis using Cons.prems by simp
  qed
  then show ?case using Cons.IH [of ?t] Cons.prems claim_ok c by (fastforce simp: claims_simps)
qed (simp add: claims_simps)

lemma attempt_won_once:
  assumes "table_ok t" "fst (claim i n now until t)"
  shows "\<not> fst (claim i n now' until' (claims cs (snd (claim i n now until t))))"
proof
  let ?t = "snd (claim i n now until t)"
  assume "fst (claim i n now' until' (claims cs ?t))"
  then have "attempts (claims cs ?t) i = Some n" using claim_won claims_ok claim_ok assms(1) by blast
  moreover have "attempts ?t i = Some (n + 1)" using claim_won assms by blast
  then obtain k where "attempts (claims cs ?t) i = Some k" "n + 1 \<le> k"
    using attempts_grow [of ?t i "n + 1" cs] claim_ok assms(1) by blast
  ultimately show False by simp
qed

end

text \<open>A table whose expired leases are also cleared by a reaper.\<close>

locale lease_reaper = lease_table claim attempts lease table_ok
  for claim :: "'i \<Rightarrow> int \<Rightarrow> int \<Rightarrow> int \<Rightarrow> 't \<Rightarrow> bool \<times> 't"
    and attempts :: "'t \<Rightarrow> 'i \<Rightarrow> int option" and lease :: "'t \<Rightarrow> 'i \<Rightarrow> int option" and table_ok :: "'t \<Rightarrow> bool" +
  fixes reap :: "int \<Rightarrow> 't \<Rightarrow> 't"
  assumes reap_ok: "table_ok t \<Longrightarrow> table_ok (reap now t)"
    and reap_attempts: "table_ok t \<Longrightarrow> attempts (reap now t) i = attempts t i"
    and reap_lease: "table_ok t \<Longrightarrow> lease t i = Some u \<Longrightarrow> now < u \<Longrightarrow> lease (reap now t) i = Some u"
begin

lemma reap_keeps_holder:
  assumes "table_ok t" "fst (claim i n now until t)" "later < until" "now' < until"
  shows "\<not> fst (claim i m now' u' (reap later (snd (claim i n now until t))))"
proof -
  let ?t = "snd (claim i n now until t)"
  have t: "table_ok ?t" "lease ?t i = Some until" using claim_won claim_ok assms(1,2) by auto
  then have "lease (reap later ?t) i = Some until" using reap_lease assms(3) by blast
  then show ?thesis using claim_held reap_ok t(1) assms(4) by blast
qed

end

end
