(* ===== verification/MailQueue.thy ===== *)
theory MailQueue
  imports Leases
begin

text \<open>
  The outgoing mail queue: the table \<open>email_messages\<close> with the statements of
  \<open>server/src/repository/email_message.rs\<close>, and queueing, delivery attempts, drains and retention of
  \<open>server/src/service/mail/queue.rs\<close>.

  The cipher, base64 and the SMTP transport are arguments. A delivery takes time: what the transport
  argument returns is the error, if any, and the table as other workers have left it meanwhile. Each
  SQL statement is one step. Failing statements are not modelled.
\<close>

section \<open>The table (entity/email_message.rs, repository/email_message.rs)\<close>

datatype MailStatus = Pending | Sent | FailedMail

definition mail_status_id :: "MailStatus \<Rightarrow> string" where
  "mail_status_id s = (case s of Pending \<Rightarrow> ''pending'' | Sent \<Rightarrow> ''sent'' | FailedMail \<Rightarrow> ''failed'')"

definition mail_status_from_id :: "string \<Rightarrow> MailStatus option" where
  "mail_status_from_id v =
     (if v = ''pending'' then Some Pending else if v = ''sent'' then Some Sent else if v = ''failed'' then Some FailedMail else None)"

lemma mail_status_roundtrip: "mail_status_from_id (mail_status_id s) = Some s"
  by (cases s) (simp_all add: mail_status_id_def mail_status_from_id_def)

text \<open>The status column holds the id of one of the three states.\<close>

record email_message =
  em_id :: int
  em_kind :: string
  em_to_address :: string
  em_user_id :: "int option"
  em_subject :: string
  em_body_enc :: "string option"
  em_status :: MailStatus
  em_attempts :: int
  em_next_attempt_at :: int
  em_lease_until :: "int option"
  em_last_error :: "string option"
  em_created_at :: int
  em_sent_at :: "int option"

record mail_table =
  mt_rows :: "email_message list"
  mt_next :: int

record NewEmailMessage =
  nm_kind :: string
  nm_to_address :: string
  nm_user_id :: "int option"
  nm_subject :: string
  nm_body_enc :: string
  nm_created_at :: int

definition mail_insert :: "NewEmailMessage \<Rightarrow> mail_table \<Rightarrow> email_message \<times> mail_table" where
  "mail_insert m t =
     (let row = \<lparr>em_id = mt_next t, em_kind = nm_kind m, em_to_address = nm_to_address m, em_user_id = nm_user_id m,
                 em_subject = nm_subject m, em_body_enc = Some (nm_body_enc m), em_status = Pending, em_attempts = 0,
                 em_next_attempt_at = nm_created_at m, em_lease_until = None, em_last_error = None,
                 em_created_at = nm_created_at m, em_sent_at = None\<rparr>
      in (row, t\<lparr>mt_rows := mt_rows t @ [row], mt_next := mt_next t + 1\<rparr>))"

definition mail_find_by_id :: "mail_table \<Rightarrow> int \<Rightarrow> email_message option" where
  "mail_find_by_id t i = find (\<lambda>r. em_id r = i) (mt_rows t)"

definition mail_list_recent_page :: "mail_table \<Rightarrow> MailStatus option \<Rightarrow> nat \<Rightarrow> nat \<Rightarrow> email_message list" where
  "mail_list_recent_page t st limit offset =
     take limit (drop offset (sort_desc em_id (filter (\<lambda>r. st = None \<or> st = Some (em_status r)) (mt_rows t))))"

definition mail_list_recent :: "mail_table \<Rightarrow> nat \<Rightarrow> MailStatus option \<Rightarrow> email_message list" where
  "mail_list_recent t limit st =
     take limit (sort_desc em_id (filter (\<lambda>r. st = None \<or> st = Some (em_status r)) (mt_rows t)))"

definition count_by_status :: "mail_table \<Rightarrow> (string \<times> nat) list" where
  "count_by_status t =
     map (\<lambda>s. (mail_status_id s, length (filter (\<lambda>r. em_status r = s) (mt_rows t)))) [Pending, Sent, FailedMail]"

definition due_pending :: "mail_table \<Rightarrow> int \<Rightarrow> nat \<Rightarrow> email_message list" where
  "due_pending t now limit =
     take limit (sort_key em_next_attempt_at (sort_key em_id
       (filter (\<lambda>r. em_status r = Pending \<and> em_next_attempt_at r \<le> now) (mt_rows t))))"

definition update_rows :: "(email_message \<Rightarrow> bool) \<Rightarrow> (email_message \<Rightarrow> email_message) \<Rightarrow> mail_table \<Rightarrow> nat \<times> mail_table" where
  "update_rows P f t =
     (length (filter P (mt_rows t)), t\<lparr>mt_rows := map (\<lambda>r. if P r then f r else r) (mt_rows t)\<rparr>)"

definition delete_rows :: "(email_message \<Rightarrow> bool) \<Rightarrow> mail_table \<Rightarrow> nat \<times> mail_table" where
  "delete_rows P t = (length (filter P (mt_rows t)), t\<lparr>mt_rows := filter (\<lambda>r. \<not> P r) (mt_rows t)\<rparr>)"

definition lease_free :: "int \<Rightarrow> int option \<Rightarrow> bool" where
  "lease_free now l = (case l of None \<Rightarrow> True | Some u \<Rightarrow> u \<le> now)"

definition mail_claim :: "int \<Rightarrow> int \<Rightarrow> int \<Rightarrow> int \<Rightarrow> mail_table \<Rightarrow> bool \<times> mail_table" where
  "mail_claim i expected_attempts now until t =
     (case update_rows (\<lambda>r. em_id r = i \<and> em_status r = Pending \<and> em_attempts r = expected_attempts \<and>
                            em_next_attempt_at r \<le> now \<and> lease_free now (em_lease_until r))
             (\<lambda>r. r\<lparr>em_attempts := em_attempts r + 1, em_lease_until := Some until\<rparr>) t of
        (n, t) \<Rightarrow> (n = 1, t))"

definition renew_lease :: "int \<Rightarrow> int \<Rightarrow> mail_table \<Rightarrow> mail_table" where
  "renew_lease i until t = snd (update_rows (\<lambda>r. em_id r = i) (\<lambda>r. r\<lparr>em_lease_until := Some until\<rparr>) t)"

definition reap_expired_leases :: "int \<Rightarrow> mail_table \<Rightarrow> nat \<times> mail_table" where
  "reap_expired_leases now t =
     update_rows (\<lambda>r. em_status r = Pending \<and> (case em_lease_until r of Some u \<Rightarrow> u \<le> now | None \<Rightarrow> False))
       (\<lambda>r. r\<lparr>em_lease_until := None\<rparr>) t"

definition mark_sent :: "int \<Rightarrow> int \<Rightarrow> mail_table \<Rightarrow> mail_table" where
  "mark_sent i sent_at t =
     snd (update_rows (\<lambda>r. em_id r = i)
       (\<lambda>r. r\<lparr>em_status := Sent, em_sent_at := Some sent_at, em_last_error := None, em_lease_until := None, em_body_enc := None\<rparr>) t)"

definition mark_attempt_failed :: "int \<Rightarrow> int option \<Rightarrow> string \<Rightarrow> mail_table \<Rightarrow> mail_table" where
  "mark_attempt_failed i next_at error t =
     (case (case next_at of Some n \<Rightarrow> (Pending, n) | None \<Rightarrow> (FailedMail, 0)) of
        (st, n) \<Rightarrow>
          snd (update_rows (\<lambda>r. em_id r = i)
            (\<lambda>r. r\<lparr>em_status := st, em_next_attempt_at := n, em_last_error := Some error, em_lease_until := None\<rparr>) t))"

definition requeue :: "int \<Rightarrow> int \<Rightarrow> mail_table \<Rightarrow> bool \<times> mail_table" where
  "requeue i now t =
     (case update_rows (\<lambda>r. em_id r = i \<and> em_status r = FailedMail)
             (\<lambda>r. r\<lparr>em_status := Pending, em_next_attempt_at := now, em_last_error := None\<rparr>) t of
        (n, t) \<Rightarrow> (n = 1, t))"

definition mail_delete_by_id :: "int \<Rightarrow> mail_table \<Rightarrow> bool \<times> mail_table" where
  "mail_delete_by_id i t = (case delete_rows (\<lambda>r. em_id r = i) t of (n, t) \<Rightarrow> (n = 1, t))"

definition finished_mail :: "email_message \<Rightarrow> bool" where
  "finished_mail r \<longleftrightarrow> em_status r \<in> {Sent, FailedMail}"

definition delete_finished :: "mail_table \<Rightarrow> nat \<times> mail_table" where
  "delete_finished t = delete_rows finished_mail t"

definition mail_prune :: "int \<Rightarrow> int \<Rightarrow> nat \<Rightarrow> mail_table \<Rightarrow> nat \<times> mail_table" where
  "mail_prune sent_before failed_before max_finished t =
     (case delete_rows (\<lambda>r. em_status r = Sent \<and> em_created_at r < sent_before) t of
        (a, t) \<Rightarrow>
     (case delete_rows (\<lambda>r. em_status r = FailedMail \<and> em_created_at r < failed_before) t of
        (b, t) \<Rightarrow>
          let finished = sort_desc em_id (filter finished_mail (mt_rows t)) in
          if length finished > max_finished then
            (case delete_rows (\<lambda>r. em_id r \<in> set (map em_id (drop max_finished finished))) t of (c, t) \<Rightarrow> (a + b + c, t))
          else (a + b, t)))"

section \<open>The queue (service/mail/queue.rs)\<close>

definition DRAIN_BATCH :: nat where
  "DRAIN_BATCH = 25"

record mail_env =
  me_encrypt :: "string \<Rightarrow> string"
  me_decrypt :: "string \<Rightarrow> string option"
  me_b64_encode :: "string \<Rightarrow> string"
  me_b64_decode :: "string \<Rightarrow> string option"
  me_max_attempts :: int
  me_send :: "email_message \<Rightarrow> string \<Rightarrow> mail_table \<Rightarrow> string option \<times> mail_table"

record DrainReport =
  dr_delivered :: nat
  dr_retried :: nat
  dr_failed :: nat
  dr_pruned :: nat

definition mail_enqueue ::
    "mail_env \<Rightarrow> string \<Rightarrow> string \<Rightarrow> int option \<Rightarrow> string \<Rightarrow> string \<Rightarrow> int \<Rightarrow> mail_table \<Rightarrow> email_message \<times> mail_table" where
  "mail_enqueue env kind rcpt user_id subject raw now t =
     mail_insert \<lparr>nm_kind = kind, nm_to_address = trim rcpt, nm_user_id = user_id, nm_subject = subject,
       nm_body_enc = me_encrypt env (me_b64_encode env raw), nm_created_at = now\<rparr> t"

definition unreadable_body :: string where
  "unreadable_body = ''the queued message body is missing or cannot be decrypted; this usually means the server secret_key changed''"

definition mail_raw :: "mail_env \<Rightarrow> email_message \<Rightarrow> string option" where
  "mail_raw env row = Option.bind (Option.bind (em_body_enc row) (me_decrypt env)) (me_b64_decode env)"

definition mail_attempt :: "mail_env \<Rightarrow> email_message \<Rightarrow> int \<Rightarrow> mail_table \<Rightarrow> bool \<times> mail_table" where
  "mail_attempt env row now t =
     (case mail_claim (em_id row) (em_attempts row) now (lease_until queue_DEFAULT now) t of
        (False, t) \<Rightarrow> (False, t)
      | (True, t) \<Rightarrow>
          let attempt_no = em_attempts row + 1 in
          (case mail_raw env row of
             None \<Rightarrow> (False, mark_attempt_failed (em_id row) None unreadable_body t)
           | Some raw \<Rightarrow>
               (case me_send env row raw t of
                  (None, t) \<Rightarrow> (True, mark_sent (em_id row) now t)
                | (Some error, t) \<Rightarrow>
                    (False, mark_attempt_failed (em_id row)
                       (if attempt_no < me_max_attempts env then Some (next_attempt_at queue_DEFAULT now attempt_no) else None)
                       error t))))"

definition drain_row :: "mail_env \<Rightarrow> int \<Rightarrow> email_message \<Rightarrow> DrainReport \<times> mail_table \<Rightarrow> DrainReport \<times> mail_table" where
  "drain_row env now row = (\<lambda>(report, t).
     case mail_attempt env row now t of
       (True, t) \<Rightarrow> (report\<lparr>dr_delivered := dr_delivered report + 1\<rparr>, t)
     | (False, t) \<Rightarrow>
         (case mail_find_by_id t (em_id row) of
            Some after \<Rightarrow>
              if em_status after = FailedMail then (report\<lparr>dr_failed := dr_failed report + 1\<rparr>, t)
              else if em_attempts after > em_attempts row then (report\<lparr>dr_retried := dr_retried report + 1\<rparr>, t)
              else (report, t)
          | None \<Rightarrow> (report, t)))"

definition queue_prune :: "int \<Rightarrow> mail_table \<Rightarrow> nat \<times> mail_table" where
  "queue_prune now t =
     mail_prune (fst (retention_cutoffs queue_DEFAULT now)) (snd (retention_cutoffs queue_DEFAULT now))
       (qu_max_finished_rows queue_DEFAULT) t"

definition mail_drain :: "mail_env \<Rightarrow> int \<Rightarrow> mail_table \<Rightarrow> DrainReport \<times> mail_table" where
  "mail_drain env now t =
     (let t = snd (reap_expired_leases now t) in
      case fold (drain_row env now) (due_pending t now DRAIN_BATCH)
             (\<lparr>dr_delivered = 0, dr_retried = 0, dr_failed = 0, dr_pruned = 0\<rparr>, t) of
        (report, t) \<Rightarrow> (case queue_prune now t of (pruned, t) \<Rightarrow> (report\<lparr>dr_pruned := pruned\<rparr>, t)))"

text \<open>\<open>Mailer::retry\<close> of \<open>service/mail/mod.rs\<close>.\<close>

definition mail_retry :: "mail_env \<Rightarrow> int \<Rightarrow> int \<Rightarrow> mail_table \<Rightarrow> bool \<times> mail_table" where
  "mail_retry env i now t =
     (case requeue i now t of
        (False, t) \<Rightarrow> (False, t)
      | (True, t) \<Rightarrow>
          (case mail_find_by_id t i of
             None \<Rightarrow> (False, t)
           | Some row \<Rightarrow> (True, snd (mail_attempt env row now t))))"

section \<open>The table invariant\<close>

text \<open>Ids are distinct and below the next one; a sent row has its time and no body any more.\<close>

definition mail_ok :: "mail_table \<Rightarrow> bool" where
  "mail_ok t \<longleftrightarrow> distinct (map em_id (mt_rows t)) \<and> (\<forall>r\<in>set (mt_rows t). em_id r < mt_next t) \<and>
     (\<forall>r\<in>set (mt_rows t). em_status r = Sent \<longrightarrow> em_body_enc r = None \<and> em_sent_at r \<noteq> None)"

lemma update_rows_simps [simp]:
  "mt_rows (snd (update_rows P f t)) = map (\<lambda>r. if P r then f r else r) (mt_rows t)"
  "mt_next (snd (update_rows P f t)) = mt_next t" "fst (update_rows P f t) = length (filter P (mt_rows t))"
  by (simp_all add: update_rows_def)

lemma delete_rows_simps [simp]:
  "mt_rows (snd (delete_rows P t)) = filter (\<lambda>r. \<not> P r) (mt_rows t)" "mt_next (snd (delete_rows P t)) = mt_next t"
  by (simp_all add: delete_rows_def)

lemma update_rows_ok:
  assumes "mail_ok t" "\<And>r. em_id (f r) = em_id r"
    "\<And>r. em_status r = Sent \<longrightarrow> em_body_enc r = None \<and> em_sent_at r \<noteq> None \<Longrightarrow> P r \<Longrightarrow> em_status (f r) = Sent \<Longrightarrow>
       em_body_enc (f r) = None \<and> em_sent_at (f r) \<noteq> None"
  shows "mail_ok (snd (update_rows P f t))"
proof -
  have "em_id \<circ> (\<lambda>r. if P r then f r else r) = em_id" using assms(2) by auto
  then show ?thesis using assms by (auto simp: mail_ok_def)
qed

lemma delete_rows_ok: "mail_ok t \<Longrightarrow> mail_ok (snd (delete_rows P t))"
  by (auto simp: mail_ok_def distinct_map_filter)

lemma mail_find_update:
  assumes "\<And>r. em_id (f r) = em_id r"
  shows "mail_find_by_id (snd (update_rows P f t)) i = map_option (\<lambda>r. if P r then f r else r) (mail_find_by_id t i)"
proof -
  have "find (\<lambda>r. em_id r = i) (map (\<lambda>r. if P r then f r else r) rs) =
      map_option (\<lambda>r. if P r then f r else r) (find (\<lambda>r. em_id r = i) rs)" for rs
    by (induction rs) (auto simp: assms)
  then show ?thesis by (simp add: mail_find_by_id_def)
qed

lemma mail_find_iff: "mail_ok t \<Longrightarrow> mail_find_by_id t i = Some r \<longleftrightarrow> r \<in> set (mt_rows t) \<and> em_id r = i"
proof -
  assume "mail_ok t"
  then have "distinct (map em_id (mt_rows t))" by (simp add: mail_ok_def)
  moreover have "distinct (map em_id rs) \<Longrightarrow> find (\<lambda>r. em_id r = i) rs = Some r \<longleftrightarrow> r \<in> set rs \<and> em_id r = i" for rs
    by (induction rs) (auto simp: image_iff)
  ultimately show ?thesis by (simp add: mail_find_by_id_def)
qed

lemma one_row:
  assumes "mail_ok t" "\<And>r. P r \<Longrightarrow> em_id r = i"
  shows "length (filter P (mt_rows t)) = 1 \<longleftrightarrow> (\<exists>r. mail_find_by_id t i = Some r \<and> P r)"
    "filter P (mt_rows t) = [] \<longleftrightarrow> \<not> (\<exists>r. mail_find_by_id t i = Some r \<and> P r)"
proof -
  have d: "distinct (map em_id (filter P (mt_rows t)))" using assms(1) by (simp add: mail_ok_def distinct_map_filter)
  have "length (filter P (mt_rows t)) \<le> 1"
  proof (cases "filter P (mt_rows t)")
    case (Cons a rs)
    have "\<forall>r\<in>set (filter P (mt_rows t)). em_id r = i" using assms(2) by auto
    then show ?thesis using d unfolding Cons by (cases rs) auto
  qed simp
  then have "length (filter P (mt_rows t)) = 1 \<longleftrightarrow> filter P (mt_rows t) \<noteq> []"
    by (cases "filter P (mt_rows t)") auto
  moreover show "filter P (mt_rows t) = [] \<longleftrightarrow> \<not> (\<exists>r. mail_find_by_id t i = Some r \<and> P r)"
    using assms(2) by (auto simp: filter_empty_conv mail_find_iff [OF assms(1)])
  ultimately show "length (filter P (mt_rows t)) = 1 \<longleftrightarrow> (\<exists>r. mail_find_by_id t i = Some r \<and> P r)" by simp
qed

lemma mail_find_id: "mail_find_by_id t i = Some r \<Longrightarrow> em_id r = i"
  by (simp add: mail_find_by_id_def find_Some_iff) blast

definition claimable :: "int \<Rightarrow> int \<Rightarrow> email_message \<Rightarrow> bool" where
  "claimable n now r \<longleftrightarrow> em_status r = Pending \<and> em_attempts r = n \<and> em_next_attempt_at r \<le> now \<and> lease_free now (em_lease_until r)"

definition claimed :: "int \<Rightarrow> email_message \<Rightarrow> email_message" where
  "claimed until r = r\<lparr>em_attempts := em_attempts r + 1, em_lease_until := Some until\<rparr>"

lemma mail_claim_eq:
  "mail_claim i n now until t =
     (length (filter (\<lambda>r. em_id r = i \<and> claimable n now r) (mt_rows t)) = 1,
      snd (update_rows (\<lambda>r. em_id r = i \<and> claimable n now r) (claimed until) t))"
  by (simp add: mail_claim_def claimable_def claimed_def update_rows_def)

lemma mail_claim_fst:
  "mail_ok t \<Longrightarrow> fst (mail_claim i n now until t) \<longleftrightarrow> (\<exists>r. mail_find_by_id t i = Some r \<and> claimable n now r)"
  using one_row(1) [of t "\<lambda>r. em_id r = i \<and> claimable n now r" i] by (auto simp: mail_claim_eq mail_find_iff)

lemma mail_claim_find:
  "mail_ok t \<Longrightarrow> mail_find_by_id (snd (mail_claim i n now until t)) j =
     map_option (\<lambda>r. if em_id r = i \<and> claimable n now r then claimed until r else r) (mail_find_by_id t j)"
  unfolding mail_claim_eq snd_conv by (rule mail_find_update) (simp add: claimed_def)

lemma mail_claim_ok: "mail_ok t \<Longrightarrow> mail_ok (snd (mail_claim i n now until t))"
  unfolding mail_claim_eq snd_conv by (rule update_rows_ok) (auto simp: claimed_def)

lemma mail_claim_lost: "mail_ok t \<Longrightarrow> \<not> fst (mail_claim i n now until t) \<Longrightarrow> snd (mail_claim i n now until t) = t"
proof -
  assume "mail_ok t" "\<not> fst (mail_claim i n now until t)"
  then have "filter (\<lambda>r. em_id r = i \<and> claimable n now r) (mt_rows t) = []"
    using one_row(2) [of t "\<lambda>r. em_id r = i \<and> claimable n now r" i] by (auto simp: mail_claim_fst)
  then have "map (\<lambda>r. if em_id r = i \<and> claimable n now r then claimed until r else r) (mt_rows t) = mt_rows t"
    by (intro map_idI) (auto simp: filter_empty_conv)
  then show ?thesis by (simp add: mail_claim_eq update_rows_def)
qed

lemma reap_ok: "mail_ok t \<Longrightarrow> mail_ok (snd (reap_expired_leases now t))"
  unfolding reap_expired_leases_def by (rule update_rows_ok) auto

definition mail_attempts :: "mail_table \<Rightarrow> int \<Rightarrow> int option" where
  "mail_attempts t i = map_option em_attempts (mail_find_by_id t i)"

definition mail_lease :: "mail_table \<Rightarrow> int \<Rightarrow> int option" where
  "mail_lease t i = Option.bind (mail_find_by_id t i) em_lease_until"

lemma reap_find:
  "mail_find_by_id (snd (reap_expired_leases now t)) i =
     map_option (\<lambda>r. if em_status r = Pending \<and> (case em_lease_until r of Some u \<Rightarrow> u \<le> now | None \<Rightarrow> False)
        then r\<lparr>em_lease_until := None\<rparr> else r) (mail_find_by_id t i)"
  unfolding reap_expired_leases_def by (rule mail_find_update) simp

interpretation mail: lease_reaper mail_claim mail_attempts mail_lease mail_ok "\<lambda>now t. snd (reap_expired_leases now t)"
proof unfold_locales
  fix t i n now until
  assume "mail_ok t" "fst (mail_claim i n now until t)"
  then obtain r where r: "mail_find_by_id t i = Some r" "claimable n now r" "em_id r = i"
    using mail_find_id by (auto simp: mail_claim_fst)
  then have "mail_find_by_id (snd (mail_claim i n now until t)) i = Some (claimed until r)"
    using \<open>mail_ok t\<close> by (simp add: mail_claim_find)
  then show "mail_attempts t i = Some n \<and> (\<forall>u. mail_lease t i = Some u \<longrightarrow> u \<le> now) \<and>
      mail_attempts (snd (mail_claim i n now until t)) i = Some (n + 1) \<and> mail_lease (snd (mail_claim i n now until t)) i = Some until"
    using r by (auto simp: mail_attempts_def mail_lease_def claimable_def claimed_def lease_free_def split: option.splits)
next
  fix t :: mail_table and i j n now until :: int
  assume "mail_ok t" "i \<noteq> j"
  then show "mail_attempts (snd (mail_claim i n now until t)) j = mail_attempts t j \<and>
      mail_lease (snd (mail_claim i n now until t)) j = mail_lease t j"
    by (cases "mail_find_by_id t j") (auto simp: mail_claim_find mail_attempts_def mail_lease_def dest: mail_find_id)
next
  fix t now i
  show "mail_attempts (snd (reap_expired_leases now t)) i = mail_attempts t i"
    by (cases "mail_find_by_id t i") (simp_all add: mail_attempts_def reap_find)
next
  fix t now i u
  assume "mail_lease t i = Some u" "now < u"
  then show "mail_lease (snd (reap_expired_leases now t)) i = Some u"
    by (cases "mail_find_by_id t i") (auto simp: mail_lease_def reap_find)
qed (auto simp: mail_claim_ok mail_claim_lost reap_ok)

section \<open>Every statement keeps the invariant\<close>

inductive mail_step :: "mail_table \<Rightarrow> mail_table \<Rightarrow> bool" where
  queue: "mail_step t (snd (mail_insert m t))"
| claim: "mail_step t (snd (mail_claim i n now until t))"
| renew: "mail_step t (renew_lease i until t)"
| reap: "mail_step t (snd (reap_expired_leases now t))"
| sent: "mail_step t (mark_sent i now t)"
| failed: "mail_step t (mark_attempt_failed i next_at error t)"
| requeue: "mail_step t (snd (requeue i now t))"
| delete: "mail_step t (snd (mail_delete_by_id i t))"
| delete_finished: "mail_step t (snd (delete_finished t))"
| prune: "mail_step t (snd (mail_prune sent_before failed_before max_finished t))"

lemma mail_insert_ok: "mail_ok t \<Longrightarrow> mail_ok (snd (mail_insert m t))"
  by (fastforce simp: mail_ok_def mail_insert_def Let_def)

lemma mail_prune_ok: "mail_ok t \<Longrightarrow> mail_ok (snd (mail_prune a b m t))"
proof -
  assume ok: "mail_ok t"
  define t1 where "t1 = snd (delete_rows (\<lambda>r. em_status r = Sent \<and> em_created_at r < a) t)"
  define t2 where "t2 = snd (delete_rows (\<lambda>r. em_status r = FailedMail \<and> em_created_at r < b) t1)"
  have "mail_ok t2" unfolding t1_def t2_def by (intro delete_rows_ok ok)
  moreover have "snd (mail_prune a b m t) = t2 \<or> (\<exists>P. snd (mail_prune a b m t) = snd (delete_rows P t2))"
    unfolding mail_prune_def t1_def t2_def Let_def by (auto split: prod.splits) (metis snd_conv)
  ultimately show ?thesis using delete_rows_ok by auto
qed

lemma mail_step_ok: "mail_step t t' \<Longrightarrow> mail_ok t \<Longrightarrow> mail_ok t'"
proof (induction rule: mail_step.induct)
  case (requeue t i now)
  have "snd (requeue i now t) = snd (update_rows (\<lambda>r. em_id r = i \<and> em_status r = FailedMail)
      (\<lambda>r. r\<lparr>em_status := Pending, em_next_attempt_at := now, em_last_error := None\<rparr>) t)"
    by (simp add: requeue_def split: prod.splits)
  then show ?case using requeue by (simp only:) (rule update_rows_ok, auto)
next
  case (failed t i next_at error)
  then show ?case unfolding mark_attempt_failed_def
    by (cases next_at) (simp_all only: option.case prod.case, (rule update_rows_ok; auto)+)
next
  case (delete t i)
  then show ?case using delete_rows_ok by (simp add: mail_delete_by_id_def split: prod.splits) (metis snd_conv)
qed (auto simp: mail_insert_ok mail_claim_ok reap_ok mail_prune_ok renew_lease_def mark_sent_def delete_finished_def
    intro!: delete_rows_ok update_rows_ok)

definition empty_mail :: mail_table where
  "empty_mail = \<lparr>mt_rows = [], mt_next = 1\<rparr>"

lemma mail_reachable_ok: "mail_step\<^sup>*\<^sup>* empty_mail t \<Longrightarrow> mail_ok t"
proof (induction rule: rtranclp_induct)
  case base
  show ?case by (simp add: mail_ok_def empty_mail_def)
qed (rule mail_step_ok)

section \<open>Attempts\<close>

lemma mark_sent_find:
  "mail_find_by_id (mark_sent i now t) j = map_option (\<lambda>r. if em_id r = i
     then r\<lparr>em_status := Sent, em_sent_at := Some now, em_last_error := None, em_lease_until := None, em_body_enc := None\<rparr> else r)
     (mail_find_by_id t j)"
  unfolding mark_sent_def by (rule mail_find_update) simp

lemma mark_failed_find:
  "mail_find_by_id (mark_attempt_failed i next_at error t) j = map_option (\<lambda>r. if em_id r = i
     then r\<lparr>em_status := (if next_at = None then FailedMail else Pending), em_next_attempt_at := (case next_at of Some n \<Rightarrow> n | None \<Rightarrow> 0),
            em_last_error := Some error, em_lease_until := None\<rparr> else r)
     (mail_find_by_id t j)"
  unfolding mark_attempt_failed_def
  by (cases next_at) (simp_all only: option.case prod.case if_True if_False option.simps simp_thms, (rule mail_find_update; simp)+)

text \<open>What an attempt makes of a row, with the transport's answer.\<close>

definition attempted_row :: "mail_env \<Rightarrow> int \<Rightarrow> (string \<Rightarrow> string option) \<Rightarrow> email_message \<Rightarrow> email_message" where
  "attempted_row env now res row =
     (let row = row\<lparr>em_attempts := em_attempts row + 1, em_lease_until := None\<rparr>;
          give_up = (\<lambda>error. row\<lparr>em_status := FailedMail, em_next_attempt_at := 0, em_last_error := Some error\<rparr>) in
      case mail_raw env row of
        None \<Rightarrow> give_up unreadable_body
      | Some raw \<Rightarrow>
          (case res raw of
             None \<Rightarrow> row\<lparr>em_status := Sent, em_sent_at := Some now, em_last_error := None, em_body_enc := None\<rparr>
           | Some error \<Rightarrow>
               if em_attempts row < me_max_attempts env
               then row\<lparr>em_next_attempt_at := next_attempt_at queue_DEFAULT now (em_attempts row), em_last_error := Some error\<rparr>
               else give_up error))"

definition undisturbed :: "mail_env \<Rightarrow> email_message \<Rightarrow> (string \<Rightarrow> string option) \<Rightarrow> bool" where
  "undisturbed env row res \<longleftrightarrow> (\<forall>raw t. me_send env row raw t = (res raw, t))"

lemma mail_attempt_find:
  assumes ok: "mail_ok t" and row: "mail_find_by_id t i = Some row" "claimable (em_attempts row) now row"
    and und: "undisturbed env row res"
  shows "mail_find_by_id (snd (mail_attempt env row now t)) j = (if j = i then Some (attempted_row env now res row) else mail_find_by_id t j)"
proof -
  let ?until = "lease_until queue_DEFAULT now"
  have i: "em_id row = i" using row(1) by (rule mail_find_id)
  obtain t1 where c: "mail_claim i (em_attempts row) now ?until t = (True, t1)"
    using mail_claim_fst [OF ok, of i "em_attempts row" now ?until] row by (metis prod.collapse)
  have f: "mail_find_by_id t1 j = (if j = i then Some (claimed ?until row) else mail_find_by_id t j)" for j
  proof (cases "mail_find_by_id t j")
    case (Some r)
    have "mail_find_by_id t1 j = Some (if em_id r = i \<and> claimable (em_attempts row) now r then claimed ?until r else r)"
      using mail_claim_find [OF ok, of i "em_attempts row" now ?until j] Some by (simp add: c)
    moreover have "em_id r = j" using Some by (rule mail_find_id)
    ultimately show ?thesis using Some row by (cases "j = i") simp_all
  qed (use mail_claim_find [OF ok, of i "em_attempts row" now ?until j] c row in auto)
  have raw: "mail_raw env (row\<lparr>em_attempts := k, em_lease_until := l\<rparr>) = mail_raw env row" for k l by (simp add: mail_raw_def)
  have st: "em_status row = Pending" using row(2) by (simp add: claimable_def)
  have mi: "mail_attempt env row now t = (case mail_raw env row of
      None \<Rightarrow> (False, mark_attempt_failed i None unreadable_body t1)
    | Some raw \<Rightarrow> (case res raw of None \<Rightarrow> (True, mark_sent i now t1)
        | Some error \<Rightarrow> (False, mark_attempt_failed i (if em_attempts row + 1 < me_max_attempts env
             then Some (next_attempt_at queue_DEFAULT now (em_attempts row + 1)) else None) error t1)))"
    unfolding mail_attempt_def i c prod.case Let_def und [unfolded undisturbed_def, rule_format]
    by (simp split: option.split)
  show ?thesis
  proof (cases "j = i")
    case True
    then show ?thesis using f [of i] i st unfolding mi
      by (simp add: mark_sent_find mark_failed_find attempted_row_def raw claimed_def Let_def split: option.split)
  next
    case False
    then have "mail_find_by_id t1 j = mail_find_by_id t j" "\<And>r. mail_find_by_id t j = Some r \<Longrightarrow> em_id r \<noteq> i"
      using f [of j] mail_find_id by auto
    then show ?thesis unfolding mi using False
      by (cases "mail_find_by_id t j") (simp_all add: mark_sent_find mark_failed_find split: option.split)
  qed
qed

lemma mail_attempt_ok:
  assumes "mail_ok t" "undisturbed env row res"
  shows "mail_ok (snd (mail_attempt env row now t))"
proof -
  obtain b t1 where c: "mail_claim (em_id row) (em_attempts row) now (lease_until queue_DEFAULT now) t = (b, t1)" by fastforce
  have t1: "mail_ok t1" using mail_claim_ok [OF assms(1)] c by (metis snd_conv)
  have "mail_ok (mark_sent i n t1)" "mail_ok (mark_attempt_failed i nx e t1)" for i n nx e
    using mail_step_ok [OF mail_step.sent t1] mail_step_ok [OF mail_step.failed t1] by auto
  then show ?thesis using assms(2) t1
    by (auto simp: mail_attempt_def c Let_def undisturbed_def split: bool.splits option.splits)
qed

text \<open>
  A drain passes the time at which it started to every claim of its batch. When the earlier deliveries
  took longer than the lease, the lease a claim takes has already ended, and another worker gets the
  row while it is being sent.
\<close>

lemma stale_claim_unprotected:
  assumes ok: "mail_ok t" and c: "mail_claim i n now (lease_until queue_DEFAULT now) t = (True, t1)"
    and late: "now + 300 \<le> real" "i64_min \<le> now"
  shows "fst (mail_claim i (n + 1) real until t1)"
proof -
  obtain r where r: "mail_find_by_id t i = Some r" "claimable n now r"
    using mail_claim_fst [OF ok, of i n now] c by (metis fst_conv)
  have "mail_find_by_id t1 i = Some (claimed (lease_until queue_DEFAULT now) r)"
    using mail_claim_find [OF ok, of i n now "lease_until queue_DEFAULT now" i] r mail_find_id [OF r(1)] by (simp add: c)
  moreover have "lease_until queue_DEFAULT now \<le> real" using late by (simp add: lease_until_def i64_sat_def queue_DEFAULT_def)
  then have "claimable (n + 1) real (claimed (lease_until queue_DEFAULT now) r)"
    using r(2) late by (simp add: claimable_def claimed_def lease_free_def)
  moreover have "mail_ok t1" using mail_claim_ok [OF ok] c by (metis snd_conv)
  ultimately show ?thesis by (auto simp: mail_claim_fst)
qed

section \<open>Properties\<close>

text \<open>
  C26: In every table that queueing, deliveries, manual retries and retention can produce, a delivered
  message has no body left, and a claim is exclusive: until its lease ends, whatever other workers
  claim and whatever expired leases are reaped, the row is not claimed again, and the attempt number
  it took is never taken twice.
\<close>

theorem mail_claim_exclusive:
  assumes "mail_step\<^sup>*\<^sup>* empty_mail t" "mail_claim i n now until t = (True, t1)"
    and "\<forall>(j, m, at, u)\<in>set cs. j = i \<longrightarrow> at < until" "t2 = fold (\<lambda>(j, m, at, u) t. snd (mail_claim j m at u t)) cs t1"
    and "later < until" "now' < until"
  shows "(\<forall>r\<in>set (mt_rows t). em_status r = Sent \<longrightarrow> em_body_enc r = None) \<and>
    \<not> fst (mail_claim i m now' u' t2) \<and> \<not> fst (mail_claim i m now' u' (snd (reap_expired_leases later t1))) \<and>
    \<not> fst (mail_claim i n now2 u2 t2)"
proof -
  have ok: "mail_ok t" using assms(1) by (rule mail_reachable_ok)
  have won: "fst (mail_claim i n now until t)" and t1: "t1 = snd (mail_claim i n now until t)" using assms(2) by simp_all
  have t2: "t2 = mail.claims cs t1" by (simp add: assms(4) mail.claims_def)
  show ?thesis
    using ok mail.exclusive_while_leased [OF ok won assms(3,6)] mail.attempt_won_once [OF ok won, of now2 u2 cs]
      mail.reap_keeps_holder [OF ok won assms(5,6)] t1 t2
    by (auto simp: mail_ok_def)
qed

definition demo_mail_env :: mail_env where
  "demo_mail_env = \<lparr>me_encrypt = (\<lambda>x. x), me_decrypt = Some, me_b64_encode = (\<lambda>x. x), me_b64_decode = Some, me_max_attempts = 2,
     me_send = (\<lambda>row raw t. (Some ''refused'', t))\<rparr>"

definition demo_mail :: mail_table where
  "demo_mail = snd (mail_insert \<lparr>nm_kind = ''test'', nm_to_address = ''a'', nm_user_id = None, nm_subject = ''s'',
     nm_body_enc = ''b'', nm_created_at = 0\<rparr> empty_mail)"

lemma demo_mail_reachable: "mail_step\<^sup>*\<^sup>* empty_mail demo_mail"
  unfolding demo_mail_def using mail_step.queue by (rule r_into_rtranclp)

theorem mail_claim_exclusive_witness:
  "mail_step\<^sup>*\<^sup>* empty_mail demo_mail \<and> fst (mail_claim 1 0 10 310 demo_mail) \<and>
   \<not> fst (mail_claim 1 1 200 500 (snd (mail_claim 1 0 100 400 (snd (mail_claim 1 0 10 310 demo_mail)))))"
proof -
  obtain t1 where c: "mail_claim 1 0 10 310 demo_mail = (True, t1)"
    by (simp add: mail_claim_def update_rows_def demo_mail_def mail_insert_def empty_mail_def lease_free_def Let_def)
  show ?thesis
    using mail_claim_exclusive [OF demo_mail_reachable c, of "[(1, 0, 100, 400)]" _ 0 200 1 500 0 0] demo_mail_reachable c
    by simp
qed

text \<open>One round per time: the row is read and attempted.\<close>

fun attempt_rounds :: "mail_env \<Rightarrow> int \<Rightarrow> int list \<Rightarrow> mail_table \<Rightarrow> mail_table" where
  "attempt_rounds env i [] t = t"
| "attempt_rounds env i (now # ts) t =
     attempt_rounds env i ts (case mail_find_by_id t i of Some row \<Rightarrow> snd (mail_attempt env row now t) | None \<Rightarrow> t)"

fun due_times :: "int \<Rightarrow> int \<Rightarrow> int list \<Rightarrow> bool" where
  "due_times n due [] = True"
| "due_times n due (now # ts) = (due \<le> now \<and> due_times (n + 1) (next_attempt_at queue_DEFAULT now (n + 1)) ts)"

lemma attempt_rounds_fail:
  assumes fails: "\<And>row. undisturbed env row (\<lambda>raw. Some error)"
  shows "mail_ok t \<Longrightarrow> mail_find_by_id t i = Some row \<Longrightarrow> em_status row = Pending \<Longrightarrow> em_lease_until row = None \<Longrightarrow>
    mail_raw env row \<noteq> None \<Longrightarrow> due_times (em_attempts row) (em_next_attempt_at row) ts \<Longrightarrow> ts \<noteq> [] \<Longrightarrow>
    em_attempts row + int (length ts) = me_max_attempts env \<Longrightarrow>
    \<exists>r. mail_find_by_id (attempt_rounds env i ts t) i = Some r \<and> em_status r = FailedMail \<and> em_attempts r = me_max_attempts env \<and>
        em_last_error r = Some error"
proof (induction ts arbitrary: t row)
  case (Cons now ts)
  have cl: "claimable (em_attempts row) now row" using Cons.prems by (simp add: claimable_def lease_free_def)
  let ?t = "snd (mail_attempt env row now t)"
  let ?r = "attempted_row env now (\<lambda>raw. Some error) row"
  have f: "mail_find_by_id ?t i = Some ?r" using mail_attempt_find [OF Cons.prems(1,2) cl fails, of i] by simp
  have ok: "mail_ok ?t" using mail_attempt_ok [OF Cons.prems(1) fails] .
  have raw: "mail_raw env (row\<lparr>em_attempts := k, em_lease_until := l\<rparr>) = mail_raw env row" for k l by (simp add: mail_raw_def)
  obtain b where b: "mail_raw env row = Some b" using Cons.prems(5) by blast
  show ?case
  proof (cases ts)
    case Nil
    then have "em_attempts row + 1 = me_max_attempts env" using Cons.prems(8) by simp
    then show ?thesis using Nil f Cons.prems(2) by (simp add: attempted_row_def Let_def raw b)
  next
    case (Cons later us)
    then have lt: "em_attempts row + 1 < me_max_attempts env" using Cons.prems(8) by simp
    then have r: "?r = row\<lparr>em_attempts := em_attempts row + 1, em_lease_until := None,
        em_next_attempt_at := next_attempt_at queue_DEFAULT now (em_attempts row + 1), em_last_error := Some error\<rparr>"
      by (simp add: attempted_row_def Let_def raw b)
    have "mail_raw env ?r \<noteq> None" using Cons.prems(5) by (simp add: r mail_raw_def)
    then show ?thesis using Cons.IH [OF ok f] Cons.prems r Cons by simp
  qed
qed simp



text \<open>
  The row is closed by id alone. A delivery that outlives its lease and then fails overwrites the
  success of the worker that took the row over: the delivered message is pending again, without its
  body, and the next drain reports it as failed because the body is missing.
\<close>

definition slow_mail_env :: mail_env where
  "slow_mail_env = demo_mail_env\<lparr>me_max_attempts := 5, me_send := (\<lambda>row raw t. (Some ''timeout'',
     snd (mail_drain (demo_mail_env\<lparr>me_send := (\<lambda>row raw t. (None, t))\<rparr>) 301 t)))\<rparr>"

theorem delivered_mail_reported_failed:
  "(case mail_find_by_id demo_mail 1 of None \<Rightarrow> False | Some row \<Rightarrow>
     let t = snd (mail_claim 1 0 0 300 demo_mail);
         delivered = snd (mail_drain (demo_mail_env\<lparr>me_send := (\<lambda>row raw t. (None, t))\<rparr>) 301 t);
         t1 = snd (mail_attempt slow_mail_env row 0 demo_mail);
         (report, t2) = mail_drain slow_mail_env 400 t1
     in map em_status (mt_rows delivered) = [Sent] \<and> map em_status (mt_rows t1) = [Pending] \<and> map em_body_enc (mt_rows t1) = [None] \<and>
        map em_status (mt_rows t2) = [FailedMail] \<and> map em_last_error (mt_rows t2) = [Some unreadable_body] \<and>
        map em_sent_at (mt_rows t2) = [Some 301] \<and> dr_failed report = 1)"
  by code_simp

end
