(* ===== verification/TaskStore.thy ===== *)
theory TaskStore
  imports Prelude
begin

text \<open>
  The task system's table of runs: \<open>server/src/tasks/run.rs\<close> (states, runs, visibility) and
  \<open>server/src/tasks/store.rs\<close> (the bounded in-memory table with its admission rules, eviction, sweep
  and byte accounting).

  The \<open>HashMap\<close> from ids to runs is a list of runs with distinct ids: every insertion uses the run's
  own id as key and no update changes it. Every operation takes the write lock for its whole body,
  so it is one step. Byte counts are \<^typ>\<open>int\<close>; the invariant shows that the counter never goes below
  zero. The in-memory size of a run and the length of a rendered JSON value belong to the compiler
  and to \<open>serde_json\<close> and are arguments.
\<close>

section \<open>Runs (tasks/run.rs)\<close>

text \<open>\<open>serde_json::Value\<close>. Numbers are kept as their text; an object lists its members in key order.\<close>

datatype Value = VNull | VBool bool | VNumber string | VString string | VArray "Value list" | VObject "(string \<times> Value) list"

definition value_get :: "Value \<Rightarrow> string \<Rightarrow> Value option" where
  "value_get v field = (case v of VObject m \<Rightarrow> map_of m field | _ \<Rightarrow> None)"

datatype JobKey = Copy | Move | Reindex | IndexFiles | TokenExpiryCheck | PasswordCacheCleanup | ExpiredDataCleanup
  | GarbageCollection | BlockEncryptionConvert | IndexCommit | IndexBackfill | FaceTagScan | FaceTagBackfill | ZipTaskCleanup

definition job_ALL :: "JobKey list" where
  "job_ALL = [Copy, Move, Reindex, IndexFiles, TokenExpiryCheck, PasswordCacheCleanup, ExpiredDataCleanup,
     GarbageCollection, BlockEncryptionConvert, IndexCommit, IndexBackfill, FaceTagScan, FaceTagBackfill, ZipTaskCleanup]"

fun job_as_str :: "JobKey \<Rightarrow> string" where
  "job_as_str Copy = ''copy''"
| "job_as_str Move = ''move''"
| "job_as_str Reindex = ''reindex''"
| "job_as_str IndexFiles = ''index-files''"
| "job_as_str TokenExpiryCheck = ''token-expiry-check''"
| "job_as_str PasswordCacheCleanup = ''password-cache-cleanup''"
| "job_as_str ExpiredDataCleanup = ''expired-data-cleanup''"
| "job_as_str GarbageCollection = ''gc''"
| "job_as_str BlockEncryptionConvert = ''block-encryption-convert''"
| "job_as_str IndexCommit = ''index-commit''"
| "job_as_str IndexBackfill = ''index-backfill''"
| "job_as_str FaceTagScan = ''face-tag-scan''"
| "job_as_str FaceTagBackfill = ''face-tag-backfill''"
| "job_as_str ZipTaskCleanup = ''zip-task-cleanup''"

definition job_from_slug :: "string \<Rightarrow> JobKey option" where
  "job_from_slug slug = find (\<lambda>key. job_as_str key = slug) job_ALL"

datatype JobState = Queued | Running | Yielded | Succeeded | Failed string | Cancelled | TimedOut | Interrupted

definition js_is_terminal :: "JobState \<Rightarrow> bool" where
  "js_is_terminal s = (case s of Succeeded \<Rightarrow> True | Failed _ \<Rightarrow> True | Cancelled \<Rightarrow> True | TimedOut \<Rightarrow> True | Interrupted \<Rightarrow> True
     | _ \<Rightarrow> False)"

definition js_is_active :: "JobState \<Rightarrow> bool" where
  "js_is_active s = (case s of Queued \<Rightarrow> True | Running \<Rightarrow> True | Yielded \<Rightarrow> True | _ \<Rightarrow> False)"

definition js_from_wire :: "string \<Rightarrow> string option \<Rightarrow> JobState" where
  "js_from_wire ph error =
     (if ph = ''queued'' then Queued else if ph = ''running'' then Running else if ph = ''yielded'' then Yielded
      else if ph = ''succeeded'' then Succeeded else if ph = ''cancelled'' then Cancelled
      else if ph = ''timed_out'' then TimedOut else if ph = ''interrupted'' then Interrupted
      else Failed (case error of Some e \<Rightarrow> e | None \<Rightarrow> []))"

fun js_as_str :: "JobState \<Rightarrow> string" where
  "js_as_str Queued = ''queued''"
| "js_as_str Running = ''running''"
| "js_as_str Yielded = ''yielded''"
| "js_as_str Succeeded = ''succeeded''"
| "js_as_str (Failed e) = ''failed''"
| "js_as_str Cancelled = ''cancelled''"
| "js_as_str TimedOut = ''timed_out''"
| "js_as_str Interrupted = ''interrupted''"

record Progress =
  pg_done :: int
  pg_total :: "int option"
  pg_message :: string

record Outcome =
  oc_message :: string
  oc_processed :: "int option"
  oc_idle :: bool

datatype JobFailure = AppFailure AppError | CancelledFailure | TimedOutFailure

definition into_state :: "JobFailure \<Rightarrow> JobState" where
  "into_state f = (case f of CancelledFailure \<Rightarrow> Cancelled | TimedOutFailure \<Rightarrow> TimedOut | AppFailure e \<Rightarrow> Failed (display_error e))"

datatype Origin = Schedule | Request | Operator | Startup

datatype Viewer = Anonymous | User int bool

datatype Visibility = OwnerOnly | OwnerOrAdmin | AdminOnly

record JobRun =
  jr_id :: string
  jr_key :: JobKey
  jr_origin :: Origin
  jr_visibility :: Visibility
  jr_owner :: "int option"
  jr_state :: JobState
  jr_progress :: Progress
  jr_created_at :: int
  jr_started_at :: "int option"
  jr_finished_at :: "int option"
  jr_attempt :: nat
  jr_params :: "Value option"
  jr_expected_total :: "int option"
  jr_summary :: string
  jr_details :: "(string \<times> Value) list"

definition MAX_DETAIL_KEYS :: nat where
  "MAX_DETAIL_KEYS = 16"

text \<open>The random id of a new run is an argument.\<close>

definition queued :: "string \<Rightarrow> JobKey \<Rightarrow> Origin \<Rightarrow> Visibility \<Rightarrow> int option \<Rightarrow> Value \<Rightarrow> string \<Rightarrow> int option \<Rightarrow> int \<Rightarrow> JobRun" where
  "queued i key origin visibility owner params summary expected_total now =
     \<lparr>jr_id = i, jr_key = key, jr_origin = origin, jr_visibility = visibility, jr_owner = owner, jr_state = Queued,
      jr_progress = \<lparr>pg_done = 0, pg_total = None, pg_message = []\<rparr>, jr_created_at = now, jr_started_at = None,
      jr_finished_at = None, jr_attempt = 1, jr_params = Some params, jr_expected_total = expected_total,
      jr_summary = summary, jr_details = []\<rparr>"

definition set_detail :: "string \<Rightarrow> Value \<Rightarrow> JobRun \<Rightarrow> JobRun" where
  "set_detail key v r =
     (if map_of (jr_details r) key \<noteq> None \<or> length (jr_details r) < MAX_DETAIL_KEYS
      then r\<lparr>jr_details := hm_insert key v (jr_details r)\<rparr> else r)"

definition is_visible_to :: "JobRun \<Rightarrow> Viewer \<Rightarrow> bool" where
  "is_visible_to r viewer =
     (case jr_visibility r of
        AdminOnly \<Rightarrow> (case viewer of Anonymous \<Rightarrow> False | User _ is_admin \<Rightarrow> is_admin)
      | OwnerOrAdmin \<Rightarrow> (case viewer of Anonymous \<Rightarrow> False | User i is_admin \<Rightarrow> is_admin \<or> jr_owner r = Some i)
      | OwnerOnly \<Rightarrow> (case viewer of Anonymous \<Rightarrow> False | User i _ \<Rightarrow> jr_owner r = Some i))"

record task_env =
  te_run_size :: int
  te_json_len :: "Value \<Rightarrow> nat"

definition run_bytes :: "task_env \<Rightarrow> JobRun \<Rightarrow> int" where
  "run_bytes x r =
     te_run_size x + int (length (jr_id r)) + int (length (jr_summary r)) + int (length (pg_message (jr_progress r)))
     + (case jr_state r of Failed e \<Rightarrow> int (length e) | _ \<Rightarrow> 0)
     + (case jr_params r of Some p \<Rightarrow> int (te_json_len x p) | None \<Rightarrow> 0)
     + (\<Sum>(k, v)\<leftarrow>jr_details r. int (length k) + int (te_json_len x v))"

definition drop_params :: "JobRun \<Rightarrow> JobRun" where
  "drop_params r = r\<lparr>jr_params := None\<rparr>"

section \<open>The table (tasks/store.rs)\<close>

record RunLimits =
  rl_max_retained :: nat
  rl_max_retained_bytes :: int
  rl_terminal_ttl_secs :: int

definition default_run_limits :: RunLimits where
  "default_run_limits = \<lparr>rl_max_retained = 1000, rl_max_retained_bytes = 8 * 1024 * 1024, rl_terminal_ttl_secs = 3600\<rparr>"

record RunFilter =
  rf_key :: "JobKey option"
  rf_owner :: "int option"
  rf_include_active :: bool
  rf_include_terminal :: bool
  rf_limit :: nat

definition rf_matches :: "RunFilter \<Rightarrow> JobRun \<Rightarrow> bool" where
  "rf_matches flt r =
     (if (case rf_key flt of Some k \<Rightarrow> jr_key r \<noteq> k | None \<Rightarrow> False) then False
      else if (case rf_owner flt of Some w \<Rightarrow> jr_owner r \<noteq> Some w | None \<Rightarrow> False) then False
      else if js_is_terminal (jr_state r) then rf_include_terminal flt
      else rf_include_active flt)"

record RunStore =
  rs_runs :: "JobRun list"
  rs_bytes :: int
  rs_limits :: RunLimits

record Admission =
  ad_key :: JobKey
  ad_owner :: "int option"
  ad_queue_depth :: nat
  ad_max_active_total :: nat
  ad_max_active_per_user :: nat
  ad_dedup :: "(string \<times> Value) option"
  ad_job_name :: string

definition new_run_store :: "RunLimits \<Rightarrow> RunStore" where
  "new_run_store limits = \<lparr>rs_runs = [], rs_bytes = 0, rs_limits = limits\<rparr>"

definition rs_set_limits :: "RunLimits \<Rightarrow> RunStore \<Rightarrow> RunStore" where
  "rs_set_limits limits s = s\<lparr>rs_limits := limits\<rparr>"

definition active_run :: "JobRun \<Rightarrow> bool" where
  "active_run r = js_is_active (jr_state r)"

definition owned_by :: "int option \<Rightarrow> JobRun \<Rightarrow> bool" where
  "owned_by owner r = (case owner of None \<Rightarrow> True | Some u \<Rightarrow> jr_owner r = Some u)"

definition runs_insert :: "JobRun \<Rightarrow> JobRun list \<Rightarrow> JobRun list" where
  "runs_insert r runs =
     (if \<exists>q\<in>set runs. jr_id q = jr_id r then map (\<lambda>q. if jr_id q = jr_id r then r else q) runs else runs @ [r])"

definition runs_remove :: "string \<Rightarrow> JobRun list \<Rightarrow> JobRun list" where
  "runs_remove i runs = filter (\<lambda>r. jr_id r \<noteq> i) runs"

definition finish_time :: "JobRun \<Rightarrow> int" where
  "finish_time r = (case jr_finished_at r of Some t \<Rightarrow> t | None \<Rightarrow> jr_created_at r)"

definition older :: "JobRun \<Rightarrow> JobRun \<Rightarrow> bool" where
  "older a b \<longleftrightarrow> finish_time a < finish_time b \<or> finish_time a = finish_time b \<and> jr_id a < jr_id b"

text \<open>\<open>min_by_key\<close> returns the first minimum.\<close>

fun oldest :: "JobRun list \<Rightarrow> JobRun option" where
  "oldest [] = None"
| "oldest (r # rs) = (case oldest rs of None \<Rightarrow> Some r | Some q \<Rightarrow> if older q r then Some q else Some r)"

lemma oldest_in: "oldest rs = Some r \<Longrightarrow> r \<in> set rs"
  by (induction rs arbitrary: r) (auto split: option.splits if_splits)

function evict_until_room :: "task_env \<Rightarrow> RunLimits \<Rightarrow> int \<Rightarrow> JobRun list \<Rightarrow> int \<Rightarrow> JobRun list \<times> int" where
  "evict_until_room x limits incoming runs bytes =
     (let over_count = (rl_max_retained limits > 0 \<and> length runs \<ge> rl_max_retained limits);
          over_bytes = (rl_max_retained_bytes limits > 0 \<and> bytes + incoming > rl_max_retained_bytes limits) in
      if \<not> over_count \<and> \<not> over_bytes then (runs, bytes)
      else case oldest (filter (\<lambda>r. js_is_terminal (jr_state r)) runs) of
             None \<Rightarrow> (runs, bytes)
           | Some removed \<Rightarrow> evict_until_room x limits incoming (runs_remove (jr_id removed) runs) (bytes - run_bytes x removed))"
  by pat_completeness auto

termination
  by (relation "measure (\<lambda>(_, _, _, runs, _). length runs)")
    (auto dest!: oldest_in simp: runs_remove_def intro!: length_filter_less)

declare evict_until_room.simps [simp del]

definition store_run :: "task_env \<Rightarrow> JobRun \<Rightarrow> RunStore \<Rightarrow> RunStore" where
  "store_run x r s =
     (case evict_until_room x (rs_limits s) (run_bytes x r) (rs_runs s) (rs_bytes s) of
        (runs, bytes) \<Rightarrow> s\<lparr>rs_runs := runs_insert r runs, rs_bytes := bytes + run_bytes x r\<rparr>)"

definition too_big :: "task_env \<Rightarrow> JobRun \<Rightarrow> RunStore \<Rightarrow> bool" where
  "too_big x r s \<longleftrightarrow> rl_max_retained_bytes (rs_limits s) > 0 \<and> run_bytes x r > rl_max_retained_bytes (rs_limits s)"

definition rs_insert :: "task_env \<Rightarrow> JobRun \<Rightarrow> RunStore \<Rightarrow> unit result \<times> RunStore" where
  "rs_insert x r s = (if too_big x r s then (Inl TooManyRequests, s) else (Inr (), store_run x r s))"

definition same_work :: "Admission \<Rightarrow> string \<Rightarrow> Value \<Rightarrow> JobRun \<Rightarrow> bool" where
  "same_work a field v r \<longleftrightarrow>
     jr_key r = ad_key a \<and> (case jr_params r of Some p \<Rightarrow> value_get p field = Some v | None \<Rightarrow> False)"

definition reserve :: "task_env \<Rightarrow> JobRun \<Rightarrow> Admission \<Rightarrow> RunStore \<Rightarrow> unit result \<times> RunStore" where
  "reserve x r a s =
     (if too_big x r s then (Inl TooManyRequests, s)
      else
        let active = filter active_run (rs_runs s) in
        if ad_queue_depth a > 0 \<and>
           length (filter (\<lambda>q. jr_key q = ad_key a \<and> owned_by (ad_owner a) q) active) \<ge> ad_queue_depth a
        then (Inl TooManyRequests, s)
        else if ad_max_active_total a > 0 \<and> length active \<ge> ad_max_active_total a then (Inl TooManyRequests, s)
        else if ad_max_active_per_user a > 0 \<and>
           (case ad_owner a of Some u \<Rightarrow> length (filter (\<lambda>q. jr_owner q = Some u) active) \<ge> ad_max_active_per_user a | None \<Rightarrow> False)
        then (Inl TooManyRequests, s)
        else if (case ad_dedup a of Some (field, v) \<Rightarrow> (\<exists>q\<in>set active. same_work a field v q) | None \<Rightarrow> False)
        then (Inl (Conflict (ad_job_name a @ '' is already in progress'')), s)
        else (Inr (), store_run x r s))"

definition rs_get :: "RunStore \<Rightarrow> string \<Rightarrow> JobRun option" where
  "rs_get s i = find (\<lambda>r. jr_id r = i) (rs_runs s)"

definition rs_update :: "task_env \<Rightarrow> string \<Rightarrow> (JobRun \<Rightarrow> JobRun) \<Rightarrow> RunStore \<Rightarrow> bool \<times> RunStore" where
  "rs_update x i f s =
     (case rs_get s i of
        None \<Rightarrow> (False, s)
      | Some r \<Rightarrow> (True, s\<lparr>rs_runs := map (\<lambda>q. if jr_id q = i then f q else q) (rs_runs s),
                           rs_bytes := rs_bytes s + (run_bytes x (f r) - run_bytes x r)\<rparr>))"

definition rs_get_for :: "RunStore \<Rightarrow> string \<Rightarrow> Viewer \<Rightarrow> JobRun option" where
  "rs_get_for s i viewer = (case rs_get s i of Some r \<Rightarrow> if is_visible_to r viewer then Some r else None | None \<Rightarrow> None)"

definition rs_list :: "RunFilter \<Rightarrow> RunStore \<Rightarrow> JobRun list" where
  "rs_list flt s =
     (let out = sort_desc jr_created_at (sort_desc jr_id (filter (rf_matches flt) (rs_runs s)))
      in if rf_limit flt > 0 then take (rf_limit flt) out else out)"

definition count_active :: "RunStore \<Rightarrow> JobKey \<Rightarrow> int option \<Rightarrow> nat" where
  "count_active s key owner = length (filter (\<lambda>r. jr_key r = key \<and> active_run r \<and> owned_by owner r) (rs_runs s))"

definition count_active_all :: "RunStore \<Rightarrow> int option \<Rightarrow> nat" where
  "count_active_all s owner = length (filter (\<lambda>r. active_run r \<and> owned_by owner r) (rs_runs s))"

definition discard :: "task_env \<Rightarrow> string \<Rightarrow> RunStore \<Rightarrow> bool \<times> RunStore" where
  "discard x i s =
     (case rs_get s i of
        None \<Rightarrow> (False, s)
      | Some r \<Rightarrow> (True, s\<lparr>rs_runs := runs_remove i (rs_runs s), rs_bytes := rs_bytes s - run_bytes x r\<rparr>))"

definition expired :: "int \<Rightarrow> int \<Rightarrow> JobRun \<Rightarrow> bool" where
  "expired ttl now r \<longleftrightarrow> js_is_terminal (jr_state r) \<and> ttl > 0 \<and> i64_sat (now - finish_time r) \<ge> ttl"

definition sweep :: "task_env \<Rightarrow> int \<Rightarrow> RunStore \<Rightarrow> nat \<times> RunStore" where
  "sweep x now s =
     (let ttl = rl_terminal_ttl_secs (rs_limits s);
          gone = filter (expired ttl now) (rs_runs s) in
      (length gone,
       s\<lparr>rs_runs := filter (\<lambda>r. \<not> expired ttl now r) (rs_runs s), rs_bytes := rs_bytes s - (\<Sum>r\<leftarrow>gone. run_bytes x r)\<rparr>))"

definition interrupt :: "int \<Rightarrow> JobRun \<Rightarrow> JobRun" where
  "interrupt now r = drop_params (r\<lparr>jr_state := Interrupted, jr_finished_at := Some now\<rparr>)"

definition interrupt_active :: "task_env \<Rightarrow> int \<Rightarrow> RunStore \<Rightarrow> nat \<times> RunStore" where
  "interrupt_active x now s =
     (let hit = filter active_run (rs_runs s);
          freed = (\<Sum>r\<leftarrow>hit. run_bytes x (r\<lparr>jr_state := Interrupted, jr_finished_at := Some now\<rparr>) - run_bytes x (interrupt now r)) in
      (length hit,
       s\<lparr>rs_runs := map (\<lambda>r. if active_run r then interrupt now r else r) (rs_runs s), rs_bytes := rs_bytes s - freed\<rparr>))"

section \<open>States and ids\<close>

lemma active_iff_not_terminal: "js_is_active s \<longleftrightarrow> \<not> js_is_terminal s"
  by (cases s) (simp_all add: js_is_active_def js_is_terminal_def)

lemma job_slug_roundtrip: "job_from_slug (job_as_str key) = Some key"
  by (cases key) (simp_all add: job_from_slug_def job_ALL_def)

text \<open>The journal gives back the state that was written, with the error text of a failure.\<close>

lemma wire_roundtrip: "js_from_wire (js_as_str s) (case s of Failed e \<Rightarrow> Some e | _ \<Rightarrow> err) = s"
  by (cases s) (simp_all add: js_from_wire_def)

section \<open>The table invariant\<close>

text \<open>Ids are distinct and the byte counter is the sum of the sizes.\<close>

definition runs_bytes :: "task_env \<Rightarrow> JobRun list \<Rightarrow> int" where
  "runs_bytes x runs = (\<Sum>r\<leftarrow>runs. run_bytes x r)"

definition store_ok :: "task_env \<Rightarrow> RunStore \<Rightarrow> bool" where
  "store_ok x s \<longleftrightarrow> distinct (map jr_id (rs_runs s)) \<and> rs_bytes s = runs_bytes x (rs_runs s)"

named_theorems run_table \<open>rules on the list of runs\<close>

lemma runs_bytes_simps [simp]:
  "runs_bytes x [] = 0" "runs_bytes x (r # rs) = run_bytes x r + runs_bytes x rs"
  "runs_bytes x (rs @ qs) = runs_bytes x rs + runs_bytes x qs"
  by (simp_all add: runs_bytes_def)

lemma runs_remove_simps [simp]:
  "runs_remove i [] = []" "runs_remove i (r # rs) = (if jr_id r = i then runs_remove i rs else r # runs_remove i rs)"
  by (simp_all add: runs_remove_def)

lemma set_runs_remove [run_table]: "set (runs_remove i rs) = {r \<in> set rs. jr_id r \<noteq> i}"
  by (auto simp: runs_remove_def)

lemma runs_remove_absent: "i \<notin> jr_id ` set rs \<Longrightarrow> runs_remove i rs = rs"
  by (induction rs) auto

lemma distinct_runs_remove [run_table]: "distinct (map jr_id rs) \<Longrightarrow> distinct (map jr_id (runs_remove i rs))"
  by (simp add: runs_remove_def distinct_map_filter)

lemma runs_bytes_remove:
  "distinct (map jr_id rs) \<Longrightarrow> r \<in> set rs \<Longrightarrow> runs_bytes x (runs_remove (jr_id r) rs) = runs_bytes x rs - run_bytes x r"
  by (induction rs) (auto simp: runs_remove_absent)

lemma same_id_same_run:
  "distinct (map jr_id rs) \<Longrightarrow> r \<in> set rs \<Longrightarrow> q \<in> set rs \<Longrightarrow> jr_id r = jr_id q \<Longrightarrow> r = q"
  by (metis distinct_map inj_onD)

lemma rs_get_SomeD: "rs_get s i = Some r \<Longrightarrow> r \<in> set (rs_runs s) \<and> jr_id r = i"
  by (auto simp: rs_get_def find_Some_iff)

lemma rs_get_None_iff: "rs_get s i = None \<longleftrightarrow> i \<notin> jr_id ` set (rs_runs s)"
  by (auto simp: rs_get_def find_None_iff)

lemma rs_get_iff:
  "store_ok x s \<Longrightarrow> rs_get s i = Some r \<longleftrightarrow> r \<in> set (rs_runs s) \<and> jr_id r = i"
proof
  assume ok: "store_ok x s" and r: "r \<in> set (rs_runs s) \<and> jr_id r = i"
  then obtain q where "rs_get s i = Some q" by (metis rs_get_None_iff image_eqI option.exhaust)
  then show "rs_get s i = Some r" using rs_get_SomeD ok r same_id_same_run by (metis store_ok_def)
qed (rule rs_get_SomeD)

lemma oldest_None_iff [simp]: "oldest rs = None \<longleftrightarrow> rs = []"
  by (cases rs) (auto split: option.splits)

lemma older_trans: "older a b \<Longrightarrow> older b c \<Longrightarrow> older a c"
  by (auto simp: older_def)

lemma older_linear: "jr_id a \<noteq> jr_id b \<Longrightarrow> older a b \<or> older b a"
  by (auto simp: older_def)

lemma oldest_least:
  "oldest rs = Some r \<Longrightarrow> distinct (map jr_id rs) \<Longrightarrow> q \<in> set rs \<Longrightarrow> q \<noteq> r \<Longrightarrow> older r q"
proof (induction rs arbitrary: r q)
  case (Cons a rs)
  show ?case
  proof (cases "oldest rs")
    case None
    then show ?thesis using Cons.prems by simp
  next
    case (Some b)
    have b: "b \<in> set rs" using Some by (rule oldest_in)
    then have ab: "jr_id a \<noteq> jr_id b" using Cons.prems(2) by force
    have rest: "p = b \<or> older b p" if "p \<in> set rs" for p
      using Cons.IH [OF Some] Cons.prems(2) that by auto
    show ?thesis
    proof (cases "older b a")
      case True
      then show ?thesis using Cons.prems Some rest [of q] by auto
    next
      case False
      then have "older a b" "r = a" using older_linear [OF ab] Cons.prems(1) Some by auto
      then show ?thesis using Cons.prems rest [of q] older_trans [of a b q] by auto
    qed
  qed
qed simp

section \<open>Eviction\<close>

definition has_room :: "RunLimits \<Rightarrow> int \<Rightarrow> JobRun list \<Rightarrow> int \<Rightarrow> bool" where
  "has_room limits incoming runs bytes \<longleftrightarrow>
     (rl_max_retained limits > 0 \<longrightarrow> length runs < rl_max_retained limits) \<and>
     (rl_max_retained_bytes limits > 0 \<longrightarrow> bytes + incoming \<le> rl_max_retained_bytes limits)"

definition evict_post :: "task_env \<Rightarrow> RunLimits \<Rightarrow> int \<Rightarrow> JobRun list \<Rightarrow> JobRun list \<Rightarrow> int \<Rightarrow> bool" where
  "evict_post x limits incoming runs runs' bytes' \<longleftrightarrow>
     set runs' \<subseteq> set runs \<and> distinct (map jr_id runs') \<and> bytes' = runs_bytes x runs' \<and>
     (\<forall>r\<in>set runs - set runs'. js_is_terminal (jr_state r) \<and> (\<forall>q\<in>set runs'. js_is_terminal (jr_state q) \<longrightarrow> older r q)) \<and>
     (has_room limits incoming runs' bytes' \<or> (\<forall>q\<in>set runs'. active_run q))"

lemma evict_until_room_post:
  "distinct (map jr_id runs) \<Longrightarrow> bytes = runs_bytes x runs \<Longrightarrow>
   (case evict_until_room x limits incoming runs bytes of (runs', bytes') \<Rightarrow> evict_post x limits incoming runs runs' bytes')"
proof (induction x limits incoming runs bytes rule: evict_until_room.induct)
  case (1 x limits incoming runs bytes)
  let ?over = "filter (\<lambda>r. js_is_terminal (jr_state r)) runs"
  show ?case
  proof (cases "has_room limits incoming runs bytes")
    case True
    then have "evict_until_room x limits incoming runs bytes = (runs, bytes)"
      by (subst evict_until_room.simps) (auto simp: has_room_def Let_def)
    then show ?thesis using 1(2,3) True by (simp add: evict_post_def)
  next
    case full: False
    show ?thesis
    proof (cases "oldest ?over")
      case None
      then have "evict_until_room x limits incoming runs bytes = (runs, bytes)"
        by (subst evict_until_room.simps) (simp add: Let_def)
      moreover have "active_run q" if "q \<in> set runs" for q
        using None that by (auto simp: filter_empty_conv active_run_def active_iff_not_terminal)
      ultimately show ?thesis using 1(2,3) by (simp add: evict_post_def)
    next
      case (Some r)
      have r: "r \<in> set runs" "js_is_terminal (jr_state r)" using oldest_in [OF Some] by auto
      have eq: "evict_until_room x limits incoming runs bytes =
          evict_until_room x limits incoming (runs_remove (jr_id r) runs) (bytes - run_bytes x r)"
        using full Some by (subst evict_until_room.simps) (auto simp: has_room_def Let_def)
      obtain runs' bytes' where res: "evict_until_room x limits incoming (runs_remove (jr_id r) runs) (bytes - run_bytes x r) = (runs', bytes')"
        by fastforce
      have post: "evict_post x limits incoming (runs_remove (jr_id r) runs) runs' bytes'"
        using 1(1) [OF refl refl _ Some] full 1(2,3) r res
        by (auto simp: has_room_def runs_bytes_remove distinct_runs_remove)
      have least: "older r q" if "q \<in> set runs'" "js_is_terminal (jr_state q)" for q
      proof (rule oldest_least [OF Some])
        show "distinct (map jr_id ?over)" using 1(2) by (simp add: distinct_map_filter)
        show "q \<in> set ?over" "q \<noteq> r" using that post by (auto simp: evict_post_def set_runs_remove)
      qed
      have "js_is_terminal (jr_state a) \<and> (\<forall>q\<in>set runs'. js_is_terminal (jr_state q) \<longrightarrow> older a q)"
        if a: "a \<in> set runs - set runs'" for a
      proof (cases "a = r")
        case False
        then have "a \<in> set (runs_remove (jr_id r) runs) - set runs'"
          using a r same_id_same_run [OF 1(2), of a r] by (auto simp: set_runs_remove)
        then show ?thesis using post unfolding evict_post_def by blast
      qed (use r least in blast)
      then have "evict_post x limits incoming runs runs' bytes'"
        using post by (auto simp: evict_post_def set_runs_remove)
      then show ?thesis using eq res by simp
    qed
  qed
qed

section \<open>Every operation keeps the invariant\<close>

lemma runs_insert_fresh: "jr_id r \<notin> jr_id ` set runs \<Longrightarrow> runs_insert r runs = runs @ [r]"
  unfolding runs_insert_def by (metis image_eqI)

definition evicted :: "task_env \<Rightarrow> JobRun \<Rightarrow> RunStore \<Rightarrow> JobRun list" where
  "evicted x r s = fst (evict_until_room x (rs_limits s) (run_bytes x r) (rs_runs s) (rs_bytes s))"

lemma evicted_post:
  assumes "store_ok x s"
  shows "evict_post x (rs_limits s) (run_bytes x r) (rs_runs s) (evicted x r s) (runs_bytes x (evicted x r s))"
  using evict_until_room_post [of "rs_runs s" "rs_bytes s" x "rs_limits s" "run_bytes x r"] assms
  by (auto simp: evicted_def store_ok_def evict_post_def split: prod.splits)

lemma store_run_fresh:
  assumes "store_ok x s" "jr_id r \<notin> jr_id ` set (rs_runs s)"
  shows "rs_runs (store_run x r s) = evicted x r s @ [r]"
    "rs_bytes (store_run x r s) = runs_bytes x (evicted x r s) + run_bytes x r"
    "rs_limits (store_run x r s) = rs_limits s"
proof -
  have "jr_id r \<notin> jr_id ` set (evicted x r s)" using evicted_post [OF assms(1), of r] assms(2) by (auto simp: evict_post_def)
  then show "rs_runs (store_run x r s) = evicted x r s @ [r]"
    "rs_bytes (store_run x r s) = runs_bytes x (evicted x r s) + run_bytes x r"
    "rs_limits (store_run x r s) = rs_limits s"
    using evict_until_room_post [of "rs_runs s" "rs_bytes s" x "rs_limits s" "run_bytes x r"] assms(1)
    by (auto simp: store_run_def evicted_def runs_insert_fresh store_ok_def evict_post_def split: prod.splits)
qed

lemma active_evicted:
  assumes "store_ok x s"
  shows "mset (filter active_run (evicted x r s)) = mset (filter active_run (rs_runs s))"
proof -
  note post = evicted_post [OF assms, of r, unfolded evict_post_def]
  have "distinct (rs_runs s)" "distinct (evicted x r s)" using assms post by (auto simp: store_ok_def distinct_map)
  moreover have "set (filter active_run (evicted x r s)) = set (filter active_run (rs_runs s))"
    using post by (auto simp: active_run_def active_iff_not_terminal)
  ultimately show ?thesis by (metis distinct_filter set_eq_iff_mset_eq_distinct)
qed

lemma length_filter_evicted:
  assumes "store_ok x s"
  shows "length (filter (\<lambda>q. active_run q \<and> P q) (evicted x r s)) = length (filter (\<lambda>q. active_run q \<and> P q) (rs_runs s))"
proof -
  have "mset (filter active_run (evicted x r s)) = mset (filter active_run (rs_runs s))"
    using assms by (rule active_evicted)
  then have "mset (filter P (filter active_run (evicted x r s))) = mset (filter P (filter active_run (rs_runs s)))"
    by (simp only: mset_filter)
  then show ?thesis using mset_eq_length by (fastforce simp: conj_commute simp del: mset_filter)
qed

lemma store_run_ok [run_table]:
  assumes "store_ok x s" "jr_id r \<notin> jr_id ` set (rs_runs s)"
  shows "store_ok x (store_run x r s)"
  using evicted_post [OF assms(1), of r] assms(2)
  by (auto simp: store_ok_def store_run_fresh [OF assms] evict_post_def)

lemma runs_bytes_map:
  "distinct (map jr_id rs) \<Longrightarrow> r \<in> set rs \<Longrightarrow>
   runs_bytes x (map (\<lambda>q. if jr_id q = jr_id r then f q else q) rs) = runs_bytes x rs + (run_bytes x (f r) - run_bytes x r)"
proof (induction rs)
  case (Cons a rs)
  show ?case
  proof (cases "a = r")
    case True
    then have "map (\<lambda>q. if jr_id q = jr_id r then f q else q) rs = rs"
      using Cons.prems(1) by (intro map_idI) (metis distinct.simps(2) image_eqI list.simps(9) list.set_map)
    then show ?thesis using True by simp
  next
    case False
    then have "jr_id a \<noteq> jr_id r" using Cons.prems same_id_same_run [of "a # rs" a r] by auto
    then show ?thesis using Cons False by simp
  qed
qed simp

lemma keeps_ids: "(\<And>q. jr_id (f q) = jr_id q) \<Longrightarrow> jr_id \<circ> (\<lambda>q. if P q then f q else q) = jr_id"
  by auto

lemma rs_update_ok [run_table]:
  assumes "store_ok x s" "\<And>r. jr_id (f r) = jr_id r"
  shows "store_ok x (snd (rs_update x i f s))"
proof (cases "rs_get s i")
  case (Some r)
  then have r: "r \<in> set (rs_runs s)" "jr_id r = i" using rs_get_SomeD by auto
  have "jr_id \<circ> (\<lambda>q. if jr_id q = i then f q else q) = jr_id" by (rule keeps_ids) (rule assms(2))
  then show ?thesis using Some assms(1) runs_bytes_map [of "rs_runs s" r x f] r
    by (simp add: rs_update_def store_ok_def)
qed (simp add: rs_update_def assms)

lemma discard_ok [run_table]: "store_ok x s \<Longrightarrow> store_ok x (snd (discard x i s))"
  by (auto simp: discard_def store_ok_def distinct_runs_remove runs_bytes_remove dest!: rs_get_SomeD split: option.splits)

lemma runs_bytes_filter:
  "runs_bytes x (filter (\<lambda>r. \<not> P r) rs) = runs_bytes x rs - (\<Sum>r\<leftarrow>filter P rs. run_bytes x r)"
  by (induction rs) auto

lemma sweep_ok [run_table]: "store_ok x s \<Longrightarrow> store_ok x (snd (sweep x now s))"
  by (simp add: sweep_def Let_def store_ok_def runs_bytes_filter distinct_map_filter)

lemma runs_bytes_interrupt:
  "runs_bytes x (map (\<lambda>r. if active_run r then interrupt now r else r) rs) =
   runs_bytes x rs - (\<Sum>r\<leftarrow>filter active_run rs.
     run_bytes x (r\<lparr>jr_state := Interrupted, jr_finished_at := Some now\<rparr>) - run_bytes x (interrupt now r))"
proof (induction rs)
  case (Cons r rs)
  have "run_bytes x (r\<lparr>jr_state := Interrupted, jr_finished_at := Some now\<rparr>) = run_bytes x r" if "active_run r"
    using that by (auto simp: run_bytes_def active_run_def js_is_active_def split: JobState.splits)
  then show ?case using Cons by auto
qed simp

lemma interrupt_id [simp]: "jr_id (interrupt now r) = jr_id r"
  by (simp add: interrupt_def drop_params_def)

lemma interrupt_active_ok [run_table]: "store_ok x s \<Longrightarrow> store_ok x (snd (interrupt_active x now s))"
proof -
  assume ok: "store_ok x s"
  have "jr_id \<circ> (\<lambda>r. if active_run r then interrupt now r else r) = jr_id" by (rule keeps_ids) simp
  then show ?thesis using ok by (simp add: interrupt_active_def Let_def store_ok_def runs_bytes_interrupt)
qed

lemma reserve_ok:
  "store_ok x s \<Longrightarrow> jr_id r \<notin> jr_id ` set (rs_runs s) \<Longrightarrow> store_ok x (snd (reserve x r a s))"
  by (simp add: reserve_def Let_def store_run_ok)

lemma rs_insert_ok:
  "store_ok x s \<Longrightarrow> jr_id r \<notin> jr_id ` set (rs_runs s) \<Longrightarrow> store_ok x (snd (rs_insert x r s))"
  by (simp add: rs_insert_def store_run_ok)

lemma run_bytes_nonneg: "0 \<le> te_run_size x \<Longrightarrow> 0 \<le> run_bytes x r"
proof -
  assume "0 \<le> te_run_size x"
  moreover have "0 \<le> (\<Sum>(k, v)\<leftarrow>ds. int (length k) + int (te_json_len x v))" for ds :: "(string \<times> Value) list"
    by (induction ds) auto
  ultimately show ?thesis by (auto simp: run_bytes_def split: option.splits JobState.splits intro!: add_nonneg_nonneg)
qed

lemma store_bytes_nonneg:
  assumes "store_ok x s" "0 \<le> te_run_size x"
  shows "0 \<le> rs_bytes s"
proof -
  have "0 \<le> runs_bytes x rs" for rs using run_bytes_nonneg [OF assms(2)] by (induction rs) auto
  then show ?thesis using assms(1) by (simp add: store_ok_def)
qed

section \<open>Admission\<close>

text \<open>The rules a submission has to satisfy, as a predicate on the active runs.\<close>

definition admitted :: "task_env \<Rightarrow> JobRun \<Rightarrow> Admission \<Rightarrow> RunStore \<Rightarrow> bool" where
  "admitted x r a s \<longleftrightarrow>
     \<not> too_big x r s \<and>
     (ad_queue_depth a > 0 \<longrightarrow> count_active s (ad_key a) (ad_owner a) < ad_queue_depth a) \<and>
     (ad_max_active_total a > 0 \<longrightarrow> count_active_all s None < ad_max_active_total a) \<and>
     (ad_max_active_per_user a > 0 \<longrightarrow> ad_owner a \<noteq> None \<longrightarrow> count_active_all s (ad_owner a) < ad_max_active_per_user a) \<and>
     (\<forall>field v. ad_dedup a = Some (field, v) \<longrightarrow> (\<forall>q\<in>set (rs_runs s). active_run q \<longrightarrow> \<not> same_work a field v q))"

lemma filter_conj_swap: "length (filter (\<lambda>q. A q \<and> B q) xs) = length (filter (\<lambda>q. B q \<and> A q) xs)"
  by (simp add: conj_commute)

lemma reserve_admitted: "fst (reserve x r a s) = Inr () \<longleftrightarrow> admitted x r a s"
proof -
  have "length (filter (\<lambda>q. jr_key q = ad_key a \<and> owned_by (ad_owner a) q) (filter active_run (rs_runs s))) =
      count_active s (ad_key a) (ad_owner a)"
    by (simp add: count_active_def conj_ac)
  moreover have "length (filter active_run (rs_runs s)) = count_active_all s None"
    by (simp add: count_active_all_def owned_by_def)
  moreover have "length (filter (\<lambda>q. jr_owner q = Some u) (filter active_run (rs_runs s))) = count_active_all s (Some u)" for u
    by (simp add: count_active_all_def owned_by_def conj_commute)
  ultimately show ?thesis
    by (auto simp: reserve_def admitted_def Let_def not_less split: option.splits)
qed

lemma reserve_result:
  "reserve x r a s = (if admitted x r a s then (Inr (), store_run x r s) else (fst (reserve x r a s), s))"
  using reserve_admitted [of x r a s] by (auto simp: reserve_def Let_def split: if_splits)

lemma count_active_all_store_run:
  assumes "store_ok x s" "jr_id r \<notin> jr_id ` set (rs_runs s)"
  shows "count_active_all (store_run x r s) w = count_active_all s w + (if active_run r \<and> owned_by w r then 1 else 0)"
  using length_filter_evicted [OF assms(1), of "owned_by w" r]
  by (simp add: count_active_all_def store_run_fresh [OF assms])

end
