(* ===== verification/TaskRun.thy ===== *)
theory TaskRun
  imports TaskStore
begin

text \<open>
  Jobs and their execution: the policies of \<open>server/src/tasks/spec.rs\<close> with their validation, the
  registry (\<open>registry.rs\<close>), the writes of a running body (\<open>context.rs\<close>), the executor that drives a run
  to a terminal state (\<open>executor.rs\<close>), and the life of the run table under any interleaving of
  submissions, drivers and sweeps.

  What a job body does is an argument: per attempt a function that may change the table (its own
  reports and whatever other threads do meanwhile) and says how the attempt ended, watchdog included.
  The clock is an argument of every step that reads it.
\<close>

section \<open>Policies (tasks/spec.rs)\<close>

datatype OverlapPolicy = SkipTick | QueueTick | AllowTick

datatype Trigger = Periodic int OverlapPolicy | Manual | StartupOnly | OnDemand

datatype Priority = Interactive | Normal | Background

definition is_deferrable :: "Priority \<Rightarrow> bool" where
  "is_deferrable p = (p = Background)"

datatype Resource = BlockIo | Cpu | DbWrite

record ChunkPolicy =
  cp_max_chunk_ms :: int
  cp_unit :: string

datatype SpikePolicy = ContinueOnSpike | ThrottleOnSpike | YieldOnSpike

record QuietPolicy =
  qp_min_idle_for_secs :: int
  qp_max_deferral_hours :: int
  qp_on_spike :: SpikePolicy

record TimeoutPolicy =
  to_no_progress_for_secs :: "int option"
  to_max_total_secs :: "int option"

datatype RetryPolicy = Never | Fixed nat int | Backoff nat int int

definition retry_attempts :: "RetryPolicy \<Rightarrow> nat" where
  "retry_attempts p = (case p of Never \<Rightarrow> 1 | Fixed n _ \<Rightarrow> n | Backoff n _ _ \<Rightarrow> n)"

definition u64_sat :: "int \<Rightarrow> int" where
  "u64_sat v = min (2 ^ 64 - 1) v"

definition delay_secs :: "RetryPolicy \<Rightarrow> nat \<Rightarrow> int" where
  "delay_secs p attempt =
     (case p of
        Never \<Rightarrow> 0
      | Fixed _ d \<Rightarrow> d
      | Backoff _ base_secs max_secs \<Rightarrow> min (u64_sat (base_secs * 2 ^ min (attempt - 1) 20)) max_secs)"

datatype Dedup = NoDedup | ByParams string

datatype Durability = Memory | Audit | Durable

fun durability_rank :: "Durability \<Rightarrow> nat" where
  "durability_rank Memory = 0" | "durability_rank Audit = 1" | "durability_rank Durable = 2"

instantiation Durability :: linorder
begin

definition less_eq_Durability :: "Durability \<Rightarrow> Durability \<Rightarrow> bool" where
  "a \<le> b \<longleftrightarrow> durability_rank a \<le> durability_rank b"

definition less_Durability :: "Durability \<Rightarrow> Durability \<Rightarrow> bool" where
  "a < b \<longleftrightarrow> durability_rank a < durability_rank b"

instance
proof
  fix a b c :: Durability
  show "a < b \<longleftrightarrow> a \<le> b \<and> \<not> b \<le> a" by (auto simp: less_eq_Durability_def less_Durability_def)
  show "a \<le> a" by (simp add: less_eq_Durability_def)
  show "a \<le> b \<Longrightarrow> b \<le> c \<Longrightarrow> a \<le> c" by (simp add: less_eq_Durability_def)
  show "a \<le> b \<Longrightarrow> b \<le> a \<Longrightarrow> a = b" by (cases a; cases b) (simp_all add: less_eq_Durability_def)
  show "a \<le> b \<or> b \<le> a" by (auto simp: less_eq_Durability_def)
qed

end

datatype History = EveryRun | Notable

definition journals_from_the_start :: "History \<Rightarrow> bool" where
  "journals_from_the_start h = (h = EveryRun)"

record JobSpec =
  sp_key :: JobKey
  sp_name :: string
  sp_trigger :: Trigger
  sp_priority :: Priority
  sp_resource :: Resource
  sp_max_concurrent :: nat
  sp_queue_depth :: nat
  sp_timeout :: TimeoutPolicy
  sp_retry :: RetryPolicy
  sp_dedup :: Dedup
  sp_visibility :: Visibility
  sp_durability :: Durability
  sp_history :: History
  sp_resumable :: bool
  sp_cancellable :: bool
  sp_chunkable :: "ChunkPolicy option"
  sp_force_safe :: bool
  sp_quiet :: "QuietPolicy option"
  sp_idempotent :: bool

datatype SpecError = DeferrableWithoutChunks JobKey | QuietOnNonBackground JobKey | DurableWithoutIdempotency JobKey
  | NotableButReplayable JobKey | RetryOnNonIdempotent JobKey | NoAttempts JobKey

definition spec_validate :: "JobSpec \<Rightarrow> SpecError + unit" where
  "spec_validate spec =
     (if retry_attempts (sp_retry spec) = 0 then Inl (NoAttempts (sp_key spec))
      else if sp_quiet spec \<noteq> None \<and> sp_chunkable spec = None then Inl (DeferrableWithoutChunks (sp_key spec))
      else if sp_quiet spec \<noteq> None \<and> \<not> is_deferrable (sp_priority spec) then Inl (QuietOnNonBackground (sp_key spec))
      else if sp_durability spec = Durable \<and> \<not> sp_idempotent spec then Inl (DurableWithoutIdempotency (sp_key spec))
      else if sp_durability spec = Durable \<and> \<not> journals_from_the_start (sp_history spec) then Inl (NotableButReplayable (sp_key spec))
      else if sp_retry spec \<noteq> Never \<and> \<not> sp_idempotent spec then Inl (RetryOnNonIdempotent (sp_key spec))
      else Inr ())"

section \<open>Registry (tasks/registry.rs)\<close>

datatype RegistryError = SpecRejected SpecError | DuplicateJob JobKey

record JobRegistry =
  rg_jobs :: "(JobKey \<times> JobSpec) list"
  rg_order :: "JobKey list"

definition new_registry :: JobRegistry where
  "new_registry = \<lparr>rg_jobs = [], rg_order = []\<rparr>"

definition register :: "JobSpec \<Rightarrow> JobRegistry \<Rightarrow> RegistryError + JobRegistry" where
  "register spec rg =
     (if map_of (rg_jobs rg) (sp_key spec) \<noteq> None then Inl (DuplicateJob (sp_key spec))
      else rbind (map_err SpecRejected (spec_validate spec)) (\<lambda>_.
        Inr \<lparr>rg_jobs = hm_insert (sp_key spec) spec (rg_jobs rg), rg_order = rg_order rg @ [sp_key spec]\<rparr>))"

definition registry_get :: "JobRegistry \<Rightarrow> JobKey \<Rightarrow> JobSpec option" where
  "registry_get rg key = map_of (rg_jobs rg) key"

definition registry_jobs :: "JobRegistry \<Rightarrow> JobSpec list" where
  "registry_jobs rg = List.map_filter (registry_get rg) (rg_order rg)"

section \<open>What a running body writes (tasks/context.rs)\<close>

definition report_progress :: "task_env \<Rightarrow> string \<Rightarrow> int \<Rightarrow> int option \<Rightarrow> string option \<Rightarrow> RunStore \<Rightarrow> RunStore" where
  "report_progress x i n tot message s =
     snd (rs_update x i (\<lambda>r. let p = (jr_progress r)\<lparr>pg_done := n\<rparr>;
                                p = (if tot \<noteq> None then p\<lparr>pg_total := tot\<rparr> else p);
                                p = (case message of Some m \<Rightarrow> p\<lparr>pg_message := m\<rparr> | None \<Rightarrow> p)
                            in r\<lparr>jr_progress := p\<rparr>) s)"

definition ctx_set_detail :: "task_env \<Rightarrow> string \<Rightarrow> string \<Rightarrow> Value \<Rightarrow> RunStore \<Rightarrow> RunStore" where
  "ctx_set_detail x i key v s = snd (rs_update x i (set_detail key v) s)"

definition park :: "task_env \<Rightarrow> string \<Rightarrow> RunStore \<Rightarrow> RunStore" where
  "park x i s = snd (rs_update x i (\<lambda>r. if jr_state r = Running then r\<lparr>jr_state := Yielded\<rparr> else r) s)"

definition unpark :: "task_env \<Rightarrow> string \<Rightarrow> RunStore \<Rightarrow> RunStore" where
  "unpark x i s = snd (rs_update x i (\<lambda>r. if jr_state r = Yielded then r\<lparr>jr_state := Running\<rparr> else r) s)"

text \<open>
  A checkpoint of a body: \<open>cancelled\<close> is the token at entry, \<open>gate\<close> whether the job has a gate that is
  switched on and sees a busy server, \<open>waits\<close> what happens while it is parked (the table as others
  leave it, whether the server is calm again, and the token then).
\<close>

definition checkpoint ::
    "task_env \<Rightarrow> string \<Rightarrow> bool \<Rightarrow> bool \<Rightarrow> (RunStore \<Rightarrow> RunStore \<times> bool \<times> bool) \<Rightarrow> RunStore \<Rightarrow> (JobFailure + unit) \<times> RunStore" where
  "checkpoint x i cancelled gate waits s =
     (if cancelled then (Inl CancelledFailure, s)
      else if \<not> gate then (Inr (), s)
      else
        (case waits (park x i s) of
           (s, calm, cancelled_now) \<Rightarrow>
             let s = unpark x i s in
             if \<not> calm \<or> cancelled_now then (Inl CancelledFailure, s) else (Inr (), s)))"

section \<open>The executor (tasks/executor.rs)\<close>

record RunReport =
  rr_state :: JobState
  rr_outcome :: "Outcome option"
  rr_attempts :: nat
  rr_started_at :: "int option"
  rr_finished_at :: "int option"

datatype Caught = Ended "JobFailure + Outcome" | Panicked "string option"

definition flatten :: "Caught \<Rightarrow> JobFailure + Outcome" where
  "flatten c =
     (case c of
        Ended res \<Rightarrow> res
      | Panicked detail \<Rightarrow>
          Inl (AppFailure (Internal (''job panicked: '' @ (case detail of Some m \<Rightarrow> m | None \<Rightarrow> ''unknown panic'')))))"

record exec_env =
  ee_start :: "nat \<Rightarrow> int"
  ee_finish :: "nat \<Rightarrow> int"
  ee_body :: "nat \<Rightarrow> RunStore \<Rightarrow> Caught \<times> RunStore"
  ee_sleep :: "nat \<Rightarrow> RunStore \<Rightarrow> bool \<times> RunStore"

definition run_marked :: "int \<Rightarrow> nat \<Rightarrow> JobRun \<Rightarrow> JobRun" where
  "run_marked now attempt r =
     r\<lparr>jr_state := Running, jr_started_at := Some (case jr_started_at r of Some t \<Rightarrow> t | None \<Rightarrow> now), jr_attempt := attempt\<rparr>"

definition mark_running :: "task_env \<Rightarrow> string \<Rightarrow> int \<Rightarrow> nat \<Rightarrow> RunStore \<Rightarrow> int \<times> RunStore" where
  "mark_running x i now attempt s =
     ((case rs_get s i of Some r \<Rightarrow> (case jr_started_at r of Some t \<Rightarrow> t | None \<Rightarrow> now) | None \<Rightarrow> now),
      snd (rs_update x i (run_marked now attempt) s))"

definition terminal_marked :: "int \<Rightarrow> JobState \<Rightarrow> Outcome option \<Rightarrow> JobRun \<Rightarrow> JobRun" where
  "terminal_marked now state outcome r =
     (let p = (case outcome of
                 Some oc \<Rightarrow>
                   let p = (jr_progress r)\<lparr>pg_message := oc_message oc\<rparr> in
                   (case oc_processed oc of Some n \<Rightarrow> p\<lparr>pg_done := n\<rparr> | None \<Rightarrow> p)
               | None \<Rightarrow> jr_progress r)
      in drop_params (r\<lparr>jr_progress := p, jr_state := state, jr_finished_at := Some now\<rparr>))"

definition mark_terminal :: "task_env \<Rightarrow> string \<Rightarrow> int \<Rightarrow> JobState \<Rightarrow> Outcome option \<Rightarrow> RunStore \<Rightarrow> int \<times> RunStore" where
  "mark_terminal x i now state outcome s = (now, snd (rs_update x i (terminal_marked now state outcome) s))"

definition finish_run :: "task_env \<Rightarrow> exec_env \<Rightarrow> string \<Rightarrow> JobState \<Rightarrow> Outcome option \<Rightarrow> nat \<Rightarrow> int \<Rightarrow> RunStore \<Rightarrow> RunReport \<times> RunStore" where
  "finish_run x env i state outcome attempt started_at s =
     (case mark_terminal x i (ee_finish env attempt) state outcome s of
        (finished_at, s) \<Rightarrow>
          (\<lparr>rr_state = state, rr_outcome = outcome, rr_attempts = attempt, rr_started_at = Some started_at,
            rr_finished_at = Some finished_at\<rparr>, s))"

function execute_loop :: "task_env \<Rightarrow> exec_env \<Rightarrow> JobSpec \<Rightarrow> string \<Rightarrow> nat \<Rightarrow> RunStore \<Rightarrow> RunReport \<times> RunStore" where
  "execute_loop x env spec i attempt s =
     (case mark_running x i (ee_start env attempt) attempt s of
        (started_at, s) \<Rightarrow>
     (case ee_body env attempt s of
        (caught, s) \<Rightarrow>
     (case flatten caught of
        Inr outcome \<Rightarrow> finish_run x env i Succeeded (Some outcome) attempt started_at s
      | Inl CancelledFailure \<Rightarrow> finish_run x env i Cancelled None attempt started_at s
      | Inl TimedOutFailure \<Rightarrow> finish_run x env i TimedOut None attempt started_at s
      | Inl (AppFailure e) \<Rightarrow>
          if attempt \<ge> max (retry_attempts (sp_retry spec)) 1
          then finish_run x env i (Failed (display_error e)) None attempt started_at s
          else
            (case (if delay_secs (sp_retry spec) attempt \<noteq> 0 then ee_sleep env attempt s else (True, s)) of
               (slept, s) \<Rightarrow>
                 if \<not> slept then finish_run x env i Cancelled None attempt started_at s
                 else execute_loop x env spec i (attempt + 1) s))))"
  by pat_completeness auto

termination
  by (relation "measure (\<lambda>(_, _, spec, _, attempt, _). max (retry_attempts (sp_retry spec)) 1 - attempt)") auto

declare execute_loop.simps [simp del]

definition execute :: "task_env \<Rightarrow> exec_env \<Rightarrow> JobSpec \<Rightarrow> string \<Rightarrow> RunStore \<Rightarrow> RunReport \<times> RunStore" where
  "execute x env spec i s = execute_loop x env spec i 1 s"

section \<open>Registered jobs\<close>

definition registry_ok :: "JobRegistry \<Rightarrow> bool" where
  "registry_ok rg \<longleftrightarrow> map fst (rg_jobs rg) = rg_order rg \<and> distinct (rg_order rg) \<and>
     (\<forall>(key, spec)\<in>set (rg_jobs rg). sp_key spec = key \<and> spec_validate spec = Inr ())"

lemma hm_insert_fresh: "k \<notin> fst ` set m \<Longrightarrow> hm_insert k v m = m @ [(k, v)]"
  by (induction m) auto

lemma register_ok: "registry_ok rg \<Longrightarrow> register spec rg = Inr rg' \<Longrightarrow> registry_ok rg'"
proof -
  assume ok: "registry_ok rg" and reg: "register spec rg = Inr rg'"
  have new: "sp_key spec \<notin> fst ` set (rg_jobs rg)" "spec_validate spec = Inr ()"
    and rg': "rg' = \<lparr>rg_jobs = hm_insert (sp_key spec) spec (rg_jobs rg), rg_order = rg_order rg @ [sp_key spec]\<rparr>"
    using reg by (auto simp: register_def rbind_eq_Inr_iff map_of_eq_None_iff split: if_splits)
  then show ?thesis using ok by (auto simp: registry_ok_def hm_insert_fresh simp flip: set_map)
qed

lemma registry_get_valid:
  "registry_ok rg \<Longrightarrow> registry_get rg key = Some spec \<Longrightarrow> sp_key spec = key \<and> spec_validate spec = Inr ()"
  by (auto simp: registry_ok_def registry_get_def dest!: map_of_SomeD)

lemma not_idempotent_never_retries:
  "spec_validate spec = Inr () \<Longrightarrow> \<not> sp_idempotent spec \<Longrightarrow> sp_retry spec = Never"
  by (auto simp: spec_validate_def split: if_splits)

section \<open>The executor ends every run\<close>

lemma rs_get_update:
  assumes "\<And>r. jr_id (f r) = jr_id r"
  shows "rs_get (snd (rs_update x i f s)) j = (if j = i then map_option f (rs_get s i) else rs_get s j)"
proof -
  have "find (\<lambda>r. jr_id r = j) (map (\<lambda>q. if jr_id q = i then f q else q) rs) =
      (if j = i then map_option f (find (\<lambda>r. jr_id r = i) rs) else find (\<lambda>r. jr_id r = j) rs)" for rs
    by (induction rs) (auto simp: assms)
  then show ?thesis by (auto simp: rs_update_def rs_get_def split: option.splits)
qed

lemma terminal_marked_simps [simp]:
  "jr_id (terminal_marked now st oc r) = jr_id r" "jr_state (terminal_marked now st oc r) = st"
  "jr_params (terminal_marked now st oc r) = None" "jr_finished_at (terminal_marked now st oc r) = Some now"
  by (simp_all add: terminal_marked_def drop_params_def Let_def)

lemma run_marked_simps [simp]:
  "jr_id (run_marked now k r) = jr_id r" "jr_state (run_marked now k r) = Running"
  "jr_params (run_marked now k r) = jr_params r" "jr_key (run_marked now k r) = jr_key r"
  "jr_owner (run_marked now k r) = jr_owner r"
  by (simp_all add: run_marked_def)

definition report_ok :: "JobSpec \<Rightarrow> string \<Rightarrow> RunReport \<Rightarrow> RunStore \<Rightarrow> bool" where
  "report_ok spec i rep s \<longleftrightarrow>
     rr_attempts rep \<le> max (retry_attempts (sp_retry spec)) 1 \<and> js_is_terminal (rr_state rep) \<and>
     (rr_state rep = Succeeded \<longleftrightarrow> rr_outcome rep \<noteq> None) \<and>
     (\<forall>e. rr_state rep = Failed e \<longrightarrow> rr_attempts rep = max (retry_attempts (sp_retry spec)) 1) \<and>
     (\<forall>r. rs_get s i = Some r \<longrightarrow> jr_state r = rr_state rep \<and> jr_params r = None \<and> jr_finished_at r = rr_finished_at rep)"

lemma finish_run_report:
  assumes "finish_run x env i state outcome attempt started s = (rep, s')"
  shows "rr_state rep = state" "rr_outcome rep = outcome" "rr_attempts rep = attempt"
    "\<And>r. rs_get s' i = Some r \<Longrightarrow> jr_state r = state \<and> jr_params r = None \<and> jr_finished_at r = rr_finished_at rep"
  using assms by (auto simp: finish_run_def mark_terminal_def rs_get_update)

lemma finish_run_ok:
  assumes "finish_run x env i state outcome attempt started s = (rep, s')"
    "attempt \<le> max (retry_attempts (sp_retry spec)) 1" "js_is_terminal state" "state = Succeeded \<longleftrightarrow> outcome \<noteq> None"
    "\<And>e. state = Failed e \<Longrightarrow> attempt \<ge> max (retry_attempts (sp_retry spec)) 1"
  shows "report_ok spec i rep s'" "attempt \<le> rr_attempts rep"
  using assms finish_run_report [OF assms(1)] by (auto simp: report_ok_def dest: le_antisym)

text \<open>An attempt either ends the run or leads to the next attempt.\<close>

lemma execute_loop_cases:
  obtains (ended) state outcome started s2 where
    "execute_loop x env spec i attempt s = finish_run x env i state outcome attempt started s2" "js_is_terminal state"
    "state = Succeeded \<longleftrightarrow> outcome \<noteq> None" "\<And>e. state = Failed e \<Longrightarrow> attempt \<ge> max (retry_attempts (sp_retry spec)) 1"
  | (again) s2 where "execute_loop x env spec i attempt s = execute_loop x env spec i (attempt + 1) s2"
    "attempt < max (retry_attempts (sp_retry spec)) 1"
proof -
  obtain started s1 where m: "mark_running x i (ee_start env attempt) attempt s = (started, s1)" by fastforce
  obtain caught s2 where b: "ee_body env attempt s1 = (caught, s2)" by fastforce
  obtain slept s3 where sl: "(if delay_secs (sp_retry spec) attempt \<noteq> 0 then ee_sleep env attempt s2 else (True, s2)) = (slept, s3)"
    by fastforce
  note step = execute_loop.simps [of x env spec i attempt s, unfolded m b prod.case sl]
  show thesis
  proof (cases "flatten caught")
    case (Inr oc)
    then show thesis using ended [of Succeeded "Some oc"] step by (simp add: js_is_terminal_def)
  next
    case (Inl f)
    show thesis
    proof (cases f)
      case CancelledFailure
      then show thesis using Inl ended [of Cancelled None] step by (simp add: js_is_terminal_def)
    next
      case TimedOutFailure
      then show thesis using Inl ended [of TimedOut None] step by (simp add: js_is_terminal_def)
    next
      case (AppFailure e)
      then show thesis
        using Inl ended [of "Failed (display_error e)" None] ended [of Cancelled None started s3] again [of s3] step
        by (cases slept) (auto simp: js_is_terminal_def not_le split: if_splits)
    qed
  qed
qed

lemma execute_loop_report:
  "attempt \<le> max (retry_attempts (sp_retry spec)) 1 \<Longrightarrow> execute_loop x env spec i attempt s = (rep, s') \<Longrightarrow>
   report_ok spec i rep s' \<and> attempt \<le> rr_attempts rep"
proof (induction "max (retry_attempts (sp_retry spec)) 1 - attempt" arbitrary: attempt s rule: less_induct)
  case less
  show ?case
  proof (cases rule: execute_loop_cases [of x env spec i attempt s])
    case (ended state outcome started s2)
    then show ?thesis using less.prems finish_run_ok [of x env i state outcome attempt started s2 rep s' spec] by auto
  next
    case (again s2)
    then show ?thesis using less.hyps [of "attempt + 1" s2] less.prems by fastforce
  qed
qed

section \<open>The run table under every interleaving\<close>

text \<open>
  What \<open>submit_as\<close> builds from a job and a request (\<open>tasks/mod.rs\<close>): the run with its details and the
  admission rules.
\<close>

definition new_run ::
    "JobSpec \<Rightarrow> string \<Rightarrow> Origin \<Rightarrow> int option \<Rightarrow> Value \<Rightarrow> string \<Rightarrow> int option \<Rightarrow> (string \<times> Value) list \<Rightarrow> int \<Rightarrow> JobRun" where
  "new_run spec i origin owner params summary expected_total details now =
     fold (\<lambda>(name, v). set_detail name v) details
       (queued i (sp_key spec) origin (sp_visibility spec) owner params summary expected_total now)"

definition submit_admission :: "JobSpec \<Rightarrow> nat \<Rightarrow> nat \<Rightarrow> int option \<Rightarrow> Value \<Rightarrow> Admission" where
  "submit_admission spec max_total max_user owner params =
     \<lparr>ad_key = sp_key spec, ad_owner = owner, ad_queue_depth = sp_queue_depth spec, ad_max_active_total = max_total,
      ad_max_active_per_user = max_user,
      ad_dedup = (case sp_dedup spec of ByParams field \<Rightarrow> map_option (Pair field) (value_get params field) | NoDedup \<Rightarrow> None),
      ad_job_name = sp_name spec\<rparr>"

text \<open>
  The table together with the ids whose driver has not finished. A submission reserves its run and
  gets a driver; only drivers write runs, until they end them or drop them (a failed journal write,
  an idle pass of a timer); sweeps and new budgets come at any time. The end of a server generation
  (\<open>interrupt_active\<close>) is not a step of this relation.
\<close>

inductive task_step ::
    "task_env \<Rightarrow> (JobKey \<Rightarrow> JobSpec) \<Rightarrow> nat \<Rightarrow> nat \<Rightarrow> RunStore \<times> string set \<Rightarrow> RunStore \<times> string set \<Rightarrow> bool"
  for x specs max_total max_user where
  submit: "spec = specs key \<Longrightarrow> sp_key spec = key \<Longrightarrow> i \<notin> D \<Longrightarrow> rs_get s i = None \<Longrightarrow>
    reserve x (new_run spec i origin owner params summary expected details now)
      (submit_admission spec max_total max_user owner params) s = (Inr (), s') \<Longrightarrow>
    task_step x specs max_total max_user (s, D) (s', insert i D)"
| start: "i \<in> D \<Longrightarrow> task_step x specs max_total max_user (s, D) (snd (mark_running x i now attempt s), D)"
| progress: "i \<in> D \<Longrightarrow> task_step x specs max_total max_user (s, D) (report_progress x i n tot message s, D)"
| detail: "i \<in> D \<Longrightarrow> task_step x specs max_total max_user (s, D) (ctx_set_detail x i key v s, D)"
| park: "i \<in> D \<Longrightarrow> task_step x specs max_total max_user (s, D) (park x i s, D)"
| unpark: "i \<in> D \<Longrightarrow> task_step x specs max_total max_user (s, D) (unpark x i s, D)"
| finish: "i \<in> D \<Longrightarrow> js_is_terminal state \<Longrightarrow>
    task_step x specs max_total max_user (s, D) (snd (mark_terminal x i now state outcome s), D - {i})"
| drop: "task_step x specs max_total max_user (s, D) (snd (discard x i s), D - {i})"
| sweep: "task_step x specs max_total max_user (s, D) (snd (sweep x now s), D)"
| limits: "task_step x specs max_total max_user (s, D) (rs_set_limits lim s, D)"

definition work_of :: "(JobKey \<Rightarrow> JobSpec) \<Rightarrow> JobRun \<Rightarrow> (JobKey \<times> Value) option" where
  "work_of specs r =
     (case sp_dedup (specs (jr_key r)) of
        NoDedup \<Rightarrow> None
      | ByParams field \<Rightarrow> map_option (Pair (jr_key r)) (case jr_params r of Some p \<Rightarrow> value_get p field | None \<Rightarrow> None))"

definition single_work :: "(JobKey \<Rightarrow> JobSpec) \<Rightarrow> JobRun list \<Rightarrow> bool" where
  "single_work specs rs \<longleftrightarrow>
     (\<forall>r\<in>set rs. \<forall>q\<in>set rs. active_run r \<longrightarrow> active_run q \<longrightarrow> work_of specs r \<noteq> None \<longrightarrow>
        work_of specs r = work_of specs q \<longrightarrow> jr_id r = jr_id q)"

definition run_caps_ok :: "(JobKey \<Rightarrow> JobSpec) \<Rightarrow> nat \<Rightarrow> nat \<Rightarrow> JobRun list \<Rightarrow> bool" where
  "run_caps_ok specs max_total max_user rs \<longleftrightarrow>
     (max_total > 0 \<longrightarrow> length (filter active_run rs) \<le> max_total) \<and>
     (max_user > 0 \<longrightarrow> (\<forall>u. length (filter (\<lambda>r. active_run r \<and> jr_owner r = Some u) rs) \<le> max_user)) \<and>
     (\<forall>key u. sp_queue_depth (specs key) > 0 \<longrightarrow>
        length (filter (\<lambda>r. active_run r \<and> jr_key r = key \<and> jr_owner r = Some u) rs) \<le> sp_queue_depth (specs key)) \<and>
     single_work specs rs"

lemma single_workD:
  "single_work specs rs \<Longrightarrow> r \<in> set rs \<Longrightarrow> q \<in> set rs \<Longrightarrow> active_run r \<Longrightarrow> active_run q \<Longrightarrow> work_of specs r \<noteq> None \<Longrightarrow>
   work_of specs r = work_of specs q \<Longrightarrow> jr_id r = jr_id q"
  unfolding single_work_def by blast

text \<open>A write weakens a run when an active result comes from an active run of the same work.\<close>

definition weakens :: "JobRun \<Rightarrow> JobRun \<Rightarrow> bool" where
  "weakens r r' \<longleftrightarrow> jr_id r' = jr_id r \<and>
     (active_run r' \<longrightarrow> active_run r \<and> jr_key r' = jr_key r \<and> jr_owner r' = jr_owner r \<and> jr_params r' = jr_params r)"

lemma work_of_cong: "jr_key r = jr_key q \<Longrightarrow> jr_params r = jr_params q \<Longrightarrow> work_of specs r = work_of specs q"
  by (cases "sp_dedup (specs (jr_key q))") (simp_all add: work_of_def)

lemma length_filter_map_le:
  "(\<And>r. r \<in> set rs \<Longrightarrow> K r \<Longrightarrow> P (g r) \<Longrightarrow> P r) \<Longrightarrow> length (filter P (map g (filter K rs))) \<le> length (filter P rs)"
  by (induction rs) (auto intro: le_SucI)

lemma caps_weaken:
  assumes caps: "run_caps_ok specs T U rs" and weak: "\<And>r. r \<in> set rs \<Longrightarrow> K r \<Longrightarrow> weakens r (g r)"
  shows "run_caps_ok specs T U (map g (filter K rs))"
proof -
  have le: "length (filter (\<lambda>r. active_run r \<and> P r) (map g (filter K rs))) \<le> length (filter (\<lambda>r. active_run r \<and> P r) rs)"
    if "\<And>r. weakens r (g r) \<Longrightarrow> active_run (g r) \<Longrightarrow> P (g r) \<Longrightarrow> P r" for P
    by (rule length_filter_map_le) (use weak that in \<open>auto simp: weakens_def\<close>)
  have "length (filter active_run (map g (filter K rs))) \<le> length (filter active_run rs)"
    using le [of "\<lambda>_. True"] by simp
  moreover have "length (filter (\<lambda>r. active_run r \<and> jr_owner r = Some u) (map g (filter K rs)))
      \<le> length (filter (\<lambda>r. active_run r \<and> jr_owner r = Some u) rs)" for u
    by (rule le) (auto simp: weakens_def)
  moreover have "length (filter (\<lambda>r. active_run r \<and> jr_key r = key \<and> jr_owner r = Some u) (map g (filter K rs)))
      \<le> length (filter (\<lambda>r. active_run r \<and> jr_key r = key \<and> jr_owner r = Some u) rs)" for key u
    by (rule le) (auto simp: weakens_def)
  moreover have sw: "single_work specs rs" using caps by (simp add: run_caps_ok_def)
  have "single_work specs (map g (filter K rs))"
    unfolding single_work_def
  proof (intro ballI impI)
    fix r' q' assume "r' \<in> set (map g (filter K rs))" "q' \<in> set (map g (filter K rs))" "active_run r'" "active_run q'"
      and w: "work_of specs r' \<noteq> None" "work_of specs r' = work_of specs q'"
    then obtain r q where rq: "r' = g r" "q' = g q" "r \<in> set rs" "K r" "q \<in> set rs" "K q" by auto
    note wr = weak [OF rq(3,4), unfolded weakens_def] and wq = weak [OF rq(5,6), unfolded weakens_def]
    have "active_run r" "active_run q" using wr wq rq \<open>active_run r'\<close> \<open>active_run q'\<close> by auto
    moreover have "work_of specs r = work_of specs r'" "work_of specs q = work_of specs q'"
      using wr wq rq \<open>active_run r'\<close> \<open>active_run q'\<close> by (auto intro!: work_of_cong)
    ultimately have "jr_id r = jr_id q" using single_workD [OF sw rq(3,5)] w by auto
    then show "jr_id r' = jr_id q'" using wr wq rq by simp
  qed
  ultimately show ?thesis using caps unfolding run_caps_ok_def by (meson order_trans)
qed

lemma new_run_simps [simp]:
  "jr_id (new_run spec i origin owner params summary expected details now) = i"
  "jr_key (new_run spec i origin owner params summary expected details now) = sp_key spec"
  "jr_owner (new_run spec i origin owner params summary expected details now) = owner"
  "jr_state (new_run spec i origin owner params summary expected details now) = Queued"
  "jr_params (new_run spec i origin owner params summary expected details now) = Some params"
proof -
  have fold_details: "jr_id (fold (\<lambda>(name, v). set_detail name v) details r) = jr_id r \<and>
     jr_key (fold (\<lambda>(name, v). set_detail name v) details r) = jr_key r \<and>
     jr_owner (fold (\<lambda>(name, v). set_detail name v) details r) = jr_owner r \<and>
     jr_state (fold (\<lambda>(name, v). set_detail name v) details r) = jr_state r \<and>
     jr_params (fold (\<lambda>(name, v). set_detail name v) details r) = jr_params r" for r
    by (induction details arbitrary: r) (auto simp: set_detail_def)
  show "jr_id (new_run spec i origin owner params summary expected details now) = i"
    "jr_key (new_run spec i origin owner params summary expected details now) = sp_key spec"
    "jr_owner (new_run spec i origin owner params summary expected details now) = owner"
    "jr_state (new_run spec i origin owner params summary expected details now) = Queued"
    "jr_params (new_run spec i origin owner params summary expected details now) = Some params"
    using fold_details by (simp_all add: new_run_def queued_def)
qed

lemma caps_store_run:
  assumes ok: "store_ok x s" and new: "jr_id r \<notin> jr_id ` set (rs_runs s)" and caps: "run_caps_ok specs T U (rs_runs s)"
    and total: "T > 0 \<Longrightarrow> length (filter active_run (rs_runs s)) < T"
    and user: "\<And>u. U > 0 \<Longrightarrow> jr_owner r = Some u \<Longrightarrow> length (filter (\<lambda>q. active_run q \<and> jr_owner q = Some u) (rs_runs s)) < U"
    and depth: "\<And>u. sp_queue_depth (specs (jr_key r)) > 0 \<Longrightarrow> jr_owner r = Some u \<Longrightarrow>
      length (filter (\<lambda>q. active_run q \<and> jr_key q = jr_key r \<and> jr_owner q = Some u) (rs_runs s)) < sp_queue_depth (specs (jr_key r))"
    and work: "\<And>q. q \<in> set (rs_runs s) \<Longrightarrow> active_run q \<Longrightarrow> work_of specs r \<noteq> None \<Longrightarrow> work_of specs q \<noteq> work_of specs r"
  shows "run_caps_ok specs T U (rs_runs (store_run x r s))"
proof -
  let ?rs = "evicted x r s"
  have sub: "set ?rs \<subseteq> set (rs_runs s)" using evicted_post [OF ok, of r] by (simp add: evict_post_def)
  note len = length_filter_evicted [OF ok, of _ r]
  have "length (filter active_run ?rs) = length (filter active_run (rs_runs s))" using len [of "\<lambda>_. True"] by simp
  then have 1: "T > 0 \<Longrightarrow> length (filter active_run (?rs @ [r])) \<le> T" using total by simp
  have 2: "length (filter (\<lambda>q. active_run q \<and> jr_owner q = Some u) (?rs @ [r])) \<le> U" if "U > 0" for u
    using len [of "\<lambda>q. jr_owner q = Some u"] user [OF that, of u] caps that by (auto simp: run_caps_ok_def Suc_le_eq)
  have 3: "length (filter (\<lambda>q. active_run q \<and> jr_key q = key \<and> jr_owner q = Some u) (?rs @ [r])) \<le> sp_queue_depth (specs key)"
    if "sp_queue_depth (specs key) > 0" for key u
    using len [of "\<lambda>q. jr_key q = key \<and> jr_owner q = Some u"] depth [of u] caps that by (auto simp: run_caps_ok_def Suc_le_eq)
  have 4: "single_work specs (?rs @ [r])"
    unfolding single_work_def
  proof (intro ballI impI)
    fix p q assume p: "p \<in> set (?rs @ [r])" "active_run p" "work_of specs p \<noteq> None"
      and q: "q \<in> set (?rs @ [r])" "active_run q" and w: "work_of specs p = work_of specs q"
    have old: "a = r \<or> a \<in> set (rs_runs s)" if "a \<in> set (?rs @ [r])" for a using that sub by auto
    show "jr_id p = jr_id q"
    proof (cases "p = r \<or> q = r")
      case True
      then show ?thesis using old [OF p(1)] old [OF q(1)] work [of p] work [of q] p q w by auto
    next
      case False
      then show ?thesis using old [OF p(1)] old [OF q(1)] single_workD [of specs "rs_runs s" p q] caps p q w
        by (simp add: run_caps_ok_def)
    qed
  qed
  show ?thesis unfolding store_run_fresh(1) [OF ok new] run_caps_ok_def using 1 2 3 4 by simp
qed

definition table_inv :: "task_env \<Rightarrow> (JobKey \<Rightarrow> JobSpec) \<Rightarrow> nat \<Rightarrow> nat \<Rightarrow> RunStore \<times> string set \<Rightarrow> bool" where
  "table_inv x specs T U sd \<longleftrightarrow>
     (case sd of (s, D) \<Rightarrow> store_ok x s \<and> run_caps_ok specs T U (rs_runs s) \<and>
        (\<forall>r\<in>set (rs_runs s). active_run r \<longleftrightarrow> jr_id r \<in> D))"

lemma reserve_keeps_inv:
  assumes inv: "table_inv x specs T U (s, D)" and spec: "spec = specs key" "sp_key spec = key"
    and new: "i \<notin> D" "rs_get s i = None"
    and res: "reserve x (new_run spec i origin owner params summary expected details now)
      (submit_admission spec T U owner params) s = (Inr (), s')"
  shows "table_inv x specs T U (s', insert i D)"
proof -
  let ?r = "new_run spec i origin owner params summary expected details now"
  let ?a = "submit_admission spec T U owner params"
  have ok: "store_ok x s" and caps: "run_caps_ok specs T U (rs_runs s)" using inv by (auto simp: table_inv_def)
  have fresh: "jr_id ?r \<notin> jr_id ` set (rs_runs s)" using new(2) by (simp add: rs_get_None_iff)
  have adm: "admitted x ?r ?a s" using reserve_admitted [of x ?r ?a s] res by simp
  have s': "s' = store_run x ?r s" using res reserve_result [of x ?r ?a s] adm by simp
  have "run_caps_ok specs T U (rs_runs s')" unfolding s'
  proof (rule caps_store_run [OF ok fresh caps])
    show "length (filter active_run (rs_runs s)) < T" if "T > 0"
      using adm that by (simp add: admitted_def submit_admission_def count_active_all_def owned_by_def)
    show "length (filter (\<lambda>q. active_run q \<and> jr_owner q = Some u) (rs_runs s)) < U" if "U > 0" "jr_owner ?r = Some u" for u
      using adm that by (simp add: admitted_def submit_admission_def count_active_all_def owned_by_def)
    show "length (filter (\<lambda>q. active_run q \<and> jr_key q = jr_key ?r \<and> jr_owner q = Some u) (rs_runs s)) < sp_queue_depth (specs (jr_key ?r))"
      if "sp_queue_depth (specs (jr_key ?r)) > 0" "jr_owner ?r = Some u" for u
      using adm that spec by (simp add: admitted_def submit_admission_def count_active_def owned_by_def conj_left_commute)
    show "work_of specs q \<noteq> work_of specs ?r" if "q \<in> set (rs_runs s)" "active_run q" "work_of specs ?r \<noteq> None" for q
      using adm that spec
      by (auto simp: admitted_def submit_admission_def work_of_def same_work_def split: Dedup.splits option.splits)
  qed
  moreover have "\<forall>r\<in>set (rs_runs s'). active_run r \<longleftrightarrow> jr_id r \<in> insert i D"
    using inv new(2) evicted_post [OF ok, of ?r] unfolding s' store_run_fresh(1) [OF ok fresh]
    by (auto simp: table_inv_def evict_post_def rs_get_None_iff active_run_def js_is_active_def)
  ultimately show ?thesis using store_run_ok [OF ok fresh] s' by (simp add: table_inv_def)
qed

lemma caps_discard: "run_caps_ok specs T U rs \<Longrightarrow> run_caps_ok specs T U (filter K rs)"
  using caps_weaken [of specs T U rs K "\<lambda>r. r"] by (simp add: weakens_def)

text \<open>A write of the run \<open>i\<close>: it keeps the invariant when it weakens the run, with the driver kept exactly
  if the run stays active.\<close>

lemma update_keeps_inv:
  assumes inv: "table_inv x specs T U (s, D)" and i: "i \<in> D" and ids: "\<And>r. jr_id (f r) = jr_id r"
    and weak: "\<And>r. active_run r \<Longrightarrow> weakens r (f r)"
    and D': "D' = D \<and> (\<forall>r. active_run r \<longrightarrow> active_run (f r)) \<or> D' = D - {i} \<and> (\<forall>r. \<not> active_run (f r))"
  shows "table_inv x specs T U (snd (rs_update x i f s), D')"
proof -
  let ?g = "\<lambda>q. if jr_id q = i then f q else q"
  have ok: "store_ok x s" and caps: "run_caps_ok specs T U (rs_runs s)"
    and act: "\<And>r. r \<in> set (rs_runs s) \<Longrightarrow> active_run r \<longleftrightarrow> jr_id r \<in> D"
    using inv by (auto simp: table_inv_def)
  have runs: "rs_runs (snd (rs_update x i f s)) = map ?g (rs_runs s)"
  proof (cases "rs_get s i")
    case None
    then have "map ?g (rs_runs s) = rs_runs s" by (intro map_idI) (auto simp: rs_get_None_iff)
    then show ?thesis using None by (simp add: rs_update_def)
  qed (simp add: rs_update_def)
  have "run_caps_ok specs T U (map ?g (filter (\<lambda>_. True) (rs_runs s)))"
    by (rule caps_weaken [OF caps]) (use weak act i in \<open>auto simp: weakens_def\<close>)
  then have "run_caps_ok specs T U (rs_runs (snd (rs_update x i f s)))" using runs by simp
  moreover have "\<forall>r\<in>set (rs_runs (snd (rs_update x i f s))). active_run r \<longleftrightarrow> jr_id r \<in> D'"
    unfolding runs using act D' ids i by auto
  ultimately show ?thesis using rs_update_ok [OF ok ids] by (simp add: table_inv_def)
qed

lemma step_keeps_inv:
  assumes "task_step x specs T U sd sd'" "table_inv x specs T U sd"
  shows "table_inv x specs T U sd'"
  using assms
proof (induction rule: task_step.induct)
  case (submit spec key i D s origin owner params summary expected details now s')
  then show ?case by (intro reserve_keeps_inv [of x specs T U s D spec key i]) auto
next
  case (start i D s now attempt)
  then show ?case unfolding mark_running_def snd_conv
    by (intro update_keeps_inv) (auto simp: weakens_def active_run_def js_is_active_def)
next
  case (progress i D s n tot message)
  then show ?case unfolding report_progress_def
    by (intro update_keeps_inv) (auto simp: weakens_def active_run_def Let_def)
next
  case (detail i D s key v)
  then show ?case unfolding ctx_set_detail_def
    by (intro update_keeps_inv) (auto simp: weakens_def active_run_def set_detail_def)
next
  case (park i D s)
  then show ?case unfolding park_def
    by (intro update_keeps_inv) (auto simp: weakens_def active_run_def js_is_active_def)
next
  case (unpark i D s)
  then show ?case unfolding unpark_def
    by (intro update_keeps_inv) (auto simp: weakens_def active_run_def js_is_active_def)
next
  case (finish i D state s now outcome)
  then show ?case unfolding mark_terminal_def snd_conv
    by (intro update_keeps_inv) (auto simp: weakens_def active_run_def active_iff_not_terminal)
next
  case (drop s D i)
  then have "table_inv x specs T U (s, D)" by simp
  then show ?case using discard_ok [of x s i]
    by (auto simp: table_inv_def discard_def runs_remove_def rs_get_None_iff intro!: caps_discard split: option.splits)
next
  case (sweep s D now)
  then show ?case using sweep_ok [of x s now]
    by (auto simp: table_inv_def sweep_def Let_def intro!: caps_discard)
next
  case (limits s D lim)
  then show ?case by (simp add: table_inv_def rs_set_limits_def store_ok_def)
qed

lemma table_inv_init: "table_inv x specs T U (new_run_store lim, {})"
  by (simp add: table_inv_def new_run_store_def store_ok_def run_caps_ok_def single_work_def)

lemma reachable_inv:
  "(task_step x specs T U)\<^sup>*\<^sup>* (new_run_store lim, {}) sd \<Longrightarrow> table_inv x specs T U sd"
  by (induction rule: rtranclp_induct) (auto intro: table_inv_init step_keeps_inv)

section \<open>Properties\<close>

text \<open>Which attempt decides a run whose attempts end as \<open>res\<close> says, with \<open>n\<close> attempts allowed.\<close>

definition decisive :: "(nat \<Rightarrow> Caught) \<Rightarrow> nat \<Rightarrow> nat \<Rightarrow> bool" where
  "decisive res n k = (case flatten (res k) of Inl (AppFailure _) \<Rightarrow> k \<ge> n | _ \<Rightarrow> True)"

definition ends_as :: "JobFailure + Outcome \<Rightarrow> JobState" where
  "ends_as r = (case r of Inr _ \<Rightarrow> Succeeded | Inl f \<Rightarrow> into_state f)"

lemma execute_loop_decides:
  assumes body: "\<And>k s. fst (ee_body env k s) = res k" and sleep: "\<And>k s. fst (ee_sleep env k s)"
  shows "attempt \<le> n \<Longrightarrow> n = max (retry_attempts (sp_retry spec)) 1 \<Longrightarrow>
    (let rep = fst (execute_loop x env spec i attempt s) in
     attempt \<le> rr_attempts rep \<and> decisive res n (rr_attempts rep) \<and> (\<forall>j. attempt \<le> j \<longrightarrow> j < rr_attempts rep \<longrightarrow> \<not> decisive res n j) \<and>
     rr_state rep = ends_as (flatten (res (rr_attempts rep))))"
proof (induction "n - attempt" arbitrary: attempt s rule: less_induct)
  case less
  obtain started s1 where m: "mark_running x i (ee_start env attempt) attempt s = (started, s1)" by fastforce
  obtain s2 where b: "ee_body env attempt s1 = (res attempt, s2)" using body by (metis prod.collapse)
  obtain s3 where sl: "(if delay_secs (sp_retry spec) attempt \<noteq> 0 then ee_sleep env attempt s2 else (True, s2)) = (True, s3)"
    using sleep by (metis prod.collapse)
  note step = execute_loop.simps [of x env spec i attempt s, unfolded m b prod.case sl]
  show ?case
  proof (cases "decisive res n attempt")
    case True
    then show ?thesis using step less.prems
      by (auto simp: decisive_def ends_as_def into_state_def finish_run_def mark_terminal_def split: sum.splits JobFailure.splits)
  next
    case False
    then obtain e where e: "flatten (res attempt) = Inl (AppFailure e)" "attempt < n"
      by (auto simp: decisive_def not_le split: sum.splits JobFailure.splits)
    then have next_eq: "execute_loop x env spec i attempt s = execute_loop x env spec i (attempt + 1) s3"
      using step less.prems(2) by (auto simp: less_max_iff_disj)
    define k where "k = rr_attempts (fst (execute_loop x env spec i (attempt + 1) s3))"
    have IH: "attempt + 1 \<le> k" "decisive res n k" "\<forall>j. attempt + 1 \<le> j \<longrightarrow> j < k \<longrightarrow> \<not> decisive res n j"
        "rr_state (fst (execute_loop x env spec i (attempt + 1) s3)) = ends_as (flatten (res k))"
      using less.hyps [of "attempt + 1" s3] less.prems e(2) unfolding k_def Let_def by simp_all
    have "\<not> decisive res n j" if "attempt \<le> j" "j < k" for j
      using that False IH(3) by (cases "j = attempt") auto
    then show ?thesis using IH unfolding next_eq Let_def k_def by simp
  qed
qed

text \<open>
  The executor runs a job until the first attempt that decides it. When attempt \<open>k\<close> ends as \<open>res k\<close>
  says, the run ends with the first attempt that succeeds, is cancelled, times out, or fails with no
  attempt left; its state in the report is the one of that attempt, a panic counting as a failure.
\<close>

theorem execute_first_decisive:
  assumes "\<And>k s. fst (ee_body env k s) = res k" and "\<And>k s. fst (ee_sleep env k s)"
    and "n = max (retry_attempts (sp_retry spec)) 1" and "execute x env spec i s = (rep, s')"
  shows "rr_attempts rep = (LEAST k. 1 \<le> k \<and> decisive res n k) \<and> rr_state rep = ends_as (flatten (res (rr_attempts rep)))"
proof -
  have *: "1 \<le> rr_attempts rep" "decisive res n (rr_attempts rep)" "\<And>j. 1 \<le> j \<Longrightarrow> j < rr_attempts rep \<Longrightarrow> \<not> decisive res n j"
      "rr_state rep = ends_as (flatten (res (rr_attempts rep)))"
    using execute_loop_decides [of env res, OF assms(1,2), of 1 n spec x i s] assms(3,4) by (auto simp: execute_def Let_def)
  have "rr_attempts rep = (LEAST k. 1 \<le> k \<and> decisive res n k)"
    by (rule Least_equality [symmetric]) (use * in \<open>auto intro: leI\<close>)
  then show ?thesis using * by simp
qed

definition demo_spec :: "JobKey \<Rightarrow> JobSpec" where
  "demo_spec key = \<lparr>sp_key = key, sp_name = ''demo'', sp_trigger = OnDemand, sp_priority = Normal, sp_resource = Cpu,
     sp_max_concurrent = 1, sp_queue_depth = 1, sp_timeout = \<lparr>to_no_progress_for_secs = None, to_max_total_secs = None\<rparr>,
     sp_retry = Fixed 3 0, sp_dedup = ByParams ''repo_id'', sp_visibility = OwnerOrAdmin, sp_durability = Durable,
     sp_history = EveryRun, sp_resumable = True, sp_cancellable = True, sp_chunkable = None, sp_force_safe = False,
     sp_quiet = None, sp_idempotent = True\<rparr>"

definition demo_task_env :: task_env where
  "demo_task_env = \<lparr>te_run_size = 100, te_json_len = (\<lambda>_. 10)\<rparr>"

definition demo_exec :: exec_env where
  "demo_exec = \<lparr>ee_start = (\<lambda>k. int k), ee_finish = (\<lambda>k. int k + 1),
     ee_body = (\<lambda>k s. (if k = 1 then Panicked None else Ended (Inr \<lparr>oc_message = ''ok'', oc_processed = Some 4, oc_idle = False\<rparr>), s)),
     ee_sleep = (\<lambda>k s. (True, s))\<rparr>"

definition demo_params :: Value where
  "demo_params = VObject [(''repo_id'', VString ''r'')]"

definition demo_run :: "string \<Rightarrow> JobRun" where
  "demo_run i = new_run (demo_spec Reindex) i Request (Some 7) demo_params ''s'' None [] 5"

definition demo_limits :: RunLimits where
  "demo_limits = \<lparr>rl_max_retained = 4, rl_max_retained_bytes = 4096, rl_terminal_ttl_secs = 60\<rparr>"

definition demo_store :: RunStore where
  "demo_store = snd (rs_insert demo_task_env (demo_run ''a'') (new_run_store demo_limits))"

theorem execute_first_decisive_witness:
  "rr_attempts (fst (execute demo_task_env demo_exec (demo_spec Reindex) ''a'' demo_store)) =
     (LEAST k. 1 \<le> k \<and> decisive (\<lambda>k. fst (ee_body demo_exec k demo_store)) 3 k) \<and>
   rr_state (fst (execute demo_task_env demo_exec (demo_spec Reindex) ''a'' demo_store)) = Succeeded"
proof -
  obtain rep s' where r: "execute demo_task_env demo_exec (demo_spec Reindex) ''a'' demo_store = (rep, s')" by fastforce
  have "rr_attempts rep = (LEAST k. 1 \<le> k \<and> decisive (\<lambda>k. fst (ee_body demo_exec k demo_store)) 3 k) \<and>
      rr_state rep = ends_as (flatten (fst (ee_body demo_exec (rr_attempts rep) demo_store)))"
    by (rule execute_first_decisive [OF _ _ _ r]) (simp_all add: demo_exec_def demo_spec_def retry_attempts_def)
  moreover have "rr_state rep \<noteq> Failed e" for e
  proof -
    have "rr_state (fst (execute demo_task_env demo_exec (demo_spec Reindex) ''a'' demo_store)) = Succeeded"
      by (simp add: execute_def execute_loop.simps demo_exec_def flatten_def finish_run_def mark_terminal_def
          mark_running_def demo_spec_def retry_attempts_def delay_secs_def)
    then show ?thesis using r by simp
  qed
  moreover have "ends_as (flatten (fst (ee_body demo_exec k demo_store))) = Succeeded \<or>
      (\<exists>e. ends_as (flatten (fst (ee_body demo_exec k demo_store))) = Failed e)" for k
    by (simp add: demo_exec_def flatten_def ends_as_def into_state_def)
  ultimately show ?thesis using r by (metis fst_conv)
qed


definition demo_registry :: JobRegistry where
  "demo_registry = \<lparr>rg_jobs = [(Reindex, demo_spec Reindex)], rg_order = [Reindex]\<rparr>"


text \<open>
  C20: For every interleaving of submissions, running bodies, sweeps and changed budgets within one server
  generation, the byte counter is the exact size of the table, the active runs stay within the
  server-wide cap, the cap per user and the queue depth per user and job, and no two active runs do
  the same deduplicated work.
\<close>

theorem run_caps_hold:
  assumes "(task_step x specs max_total max_user)\<^sup>*\<^sup>* (new_run_store limits, {}) (s, D)"
  shows "store_ok x s \<and>
    (max_total > 0 \<longrightarrow> count_active_all s None \<le> max_total) \<and>
    (max_user > 0 \<longrightarrow> (\<forall>u. count_active_all s (Some u) \<le> max_user)) \<and>
    (\<forall>key u. sp_queue_depth (specs key) > 0 \<longrightarrow> count_active s key (Some u) \<le> sp_queue_depth (specs key)) \<and>
    single_work specs (rs_runs s)"
proof -
  have inv: "store_ok x s" "run_caps_ok specs max_total max_user (rs_runs s)"
    using reachable_inv [OF assms] by (auto simp: table_inv_def)
  have "length (filter active_run (rs_runs s)) = count_active_all s None"
    "\<And>u. length (filter (\<lambda>r. active_run r \<and> jr_owner r = Some u) (rs_runs s)) = count_active_all s (Some u)"
    "\<And>key u. length (filter (\<lambda>r. active_run r \<and> jr_key r = key \<and> jr_owner r = Some u) (rs_runs s)) = count_active s key (Some u)"
    by (simp_all add: count_active_all_def count_active_def owned_by_def conj_left_commute)
  then show ?thesis using inv by (simp add: run_caps_ok_def)
qed

lemma demo_submit:
  "task_step demo_task_env demo_spec 5 2 (new_run_store demo_limits, {}) (demo_store, {''a''})"
proof (rule task_step.submit [of "demo_spec Reindex" demo_spec Reindex "''a''" "{}" "new_run_store demo_limits"
      demo_task_env Request "Some 7" demo_params "''s''" None "[]" 5 5 2 demo_store])
  show "reserve demo_task_env (new_run (demo_spec Reindex) ''a'' Request (Some 7) demo_params ''s'' None [] 5)
      (submit_admission (demo_spec Reindex) 5 2 (Some 7) demo_params) (new_run_store demo_limits) = (Inr (), demo_store)"
    by code_simp
qed (simp_all add: demo_spec_def new_run_store_def rs_get_def)

theorem run_caps_hold_witness:
  "(task_step demo_task_env demo_spec 5 2)\<^sup>*\<^sup>* (new_run_store demo_limits, {}) (demo_store, {''a''}) \<and>
   count_active_all demo_store None \<le> 5 \<and> count_active_all demo_store (Some 7) = 1"
proof -
  have reach: "(task_step demo_task_env demo_spec 5 2)\<^sup>*\<^sup>* (new_run_store demo_limits, {}) (demo_store, {''a''})"
    using demo_submit by (rule r_into_rtranclp)
  moreover have "count_active_all demo_store (Some 7) = 1" by code_simp
  ultimately show ?thesis using run_caps_hold [OF reach] by simp
qed


text \<open>
  C21: A reservation is granted exactly when the admission rules hold for the runs that are active at that
  moment. It then adds the run, having evicted finished runs only, oldest first, until both budgets
  hold or only active runs are left; a refusal changes nothing.
\<close>

theorem reserve_exact:
  assumes "store_ok x s" "rs_get s (jr_id r) = None" "reserve x r a s = (res, s')"
  shows "store_ok x s' \<and>
    (if admitted x r a s
     then res = Inr () \<and> (\<exists>kept. rs_runs s' = kept @ [r] \<and>
       evict_post x (rs_limits s) (run_bytes x r) (rs_runs s) kept (runs_bytes x kept))
     else s' = s \<and> res \<in> {Inl TooManyRequests, Inl (Conflict (ad_job_name a @ '' is already in progress''))})"
proof -
  have fresh: "jr_id r \<notin> jr_id ` set (rs_runs s)" using assms(2) by (simp add: rs_get_None_iff)
  have ok: "store_ok x s'" using reserve_ok [OF assms(1) fresh, of a] assms(3) by simp
  show ?thesis
  proof (cases "admitted x r a s")
    case True
    then have "res = Inr ()" "s' = store_run x r s" using reserve_result [of x r a s] assms(3) by simp_all
    then show ?thesis using ok True store_run_fresh(1) [OF assms(1) fresh] evicted_post [OF assms(1), of r] by auto
  next
    case False
    then have "s' = s" using reserve_result [of x r a s] assms(3) by simp
    moreover have "res \<in> {Inl TooManyRequests, Inl (Conflict (ad_job_name a @ '' is already in progress''))}"
      using assms(3) False reserve_admitted [of x r a s] by (auto simp: reserve_def Let_def split: if_splits)
    ultimately show ?thesis using ok False by simp
  qed
qed

theorem reserve_exact_witness:
  "\<not> admitted demo_task_env (demo_run ''b'') (submit_admission (demo_spec Reindex) 5 2 (Some 8) demo_params) demo_store \<and>
   snd (reserve demo_task_env (demo_run ''b'') (submit_admission (demo_spec Reindex) 5 2 (Some 8) demo_params) demo_store) = demo_store"
proof -
  let ?a = "submit_admission (demo_spec Reindex) 5 2 (Some 8) demo_params"
  obtain res s' where r: "reserve demo_task_env (demo_run ''b'') ?a demo_store = (res, s')" by fastforce
  have ok: "store_ok demo_task_env demo_store"
    using step_keeps_inv [OF demo_submit table_inv_init] by (simp add: table_inv_def)
  have "rs_get demo_store (jr_id (demo_run ''b'')) = None" by code_simp
  note ex = reserve_exact [OF ok this r]
  have "fst (reserve demo_task_env (demo_run ''b'') ?a demo_store) = Inl (Conflict ''demo is already in progress'')" by code_simp
  then have "\<not> admitted demo_task_env (demo_run ''b'') ?a demo_store" using reserve_admitted [of demo_task_env "demo_run ''b''" ?a demo_store] by simp
  then show ?thesis using ex r by simp
qed

end
