(* ===== verification/Journal.thy ===== *)
theory Journal
  imports TaskRun Leases
begin

text \<open>
  The durable history of runs: the table \<open>job_runs\<close> with the statements of
  \<open>server/src/repository/job_run.rs\<close>. Each SQL statement is one step; the only failing statement that is
  modelled is the insertion of an id that exists.
\<close>

section \<open>Rows and statements\<close>

record job_run_row =
  jw_id :: string
  jw_kind :: string
  jw_owner :: "int option"
  jw_phase :: string
  jw_summary :: string
  jw_params :: "string option"
  jw_error :: "string option"
  jw_processed :: "int option"
  jw_attempt :: int
  jw_created_at :: int
  jw_started_at :: "int option"
  jw_finished_at :: "int option"
  jw_lease_until :: "int option"

type_synonym journal = "job_run_row list"

record NewJobRun =
  nj_id :: string
  nj_kind :: string
  nj_owner :: "int option"
  nj_summary :: string
  nj_params :: "string option"
  nj_created_at :: int

record FinishedJobRun =
  fj_id :: string
  fj_kind :: string
  fj_owner :: "int option"
  fj_phase :: string
  fj_summary :: string
  fj_error :: "string option"
  fj_processed :: "int option"
  fj_attempt :: int
  fj_created_at :: int
  fj_started_at :: "int option"
  fj_finished_at :: int

datatype RunOutcome = SucceededRuns | FailedRuns

record RunHistoryFilter =
  hf_kind :: "string option"
  hf_outcome :: "RunOutcome option"

definition phase_is_terminal :: "string \<Rightarrow> bool" where
  "phase_is_terminal ph \<longleftrightarrow> ph \<in> {''succeeded'', ''failed'', ''cancelled'', ''timed_out'', ''interrupted''}"

definition duplicate_id :: AppError where
  "duplicate_id = Internal ''UNIQUE constraint failed: job_runs.id''"

definition jw_insert :: "job_run_row \<Rightarrow> journal \<Rightarrow> journal result" where
  "jw_insert row j = (if jw_id row \<in> jw_id ` set j then Inl duplicate_id else Inr (j @ [row]))"

definition jw_enqueue :: "NewJobRun \<Rightarrow> int \<Rightarrow> journal \<Rightarrow> journal result" where
  "jw_enqueue n until j =
     jw_insert \<lparr>jw_id = nj_id n, jw_kind = nj_kind n, jw_owner = nj_owner n, jw_phase = ''queued'', jw_summary = nj_summary n,
       jw_params = nj_params n, jw_error = None, jw_processed = None, jw_attempt = 1, jw_created_at = nj_created_at n,
       jw_started_at = None, jw_finished_at = None, jw_lease_until = Some until\<rparr> j"

definition jw_record_finished :: "FinishedJobRun \<Rightarrow> journal \<Rightarrow> journal result" where
  "jw_record_finished f j =
     jw_insert \<lparr>jw_id = fj_id f, jw_kind = fj_kind f, jw_owner = fj_owner f, jw_phase = fj_phase f, jw_summary = fj_summary f,
       jw_params = None, jw_error = fj_error f, jw_processed = fj_processed f, jw_attempt = fj_attempt f,
       jw_created_at = fj_created_at f, jw_started_at = fj_started_at f, jw_finished_at = Some (fj_finished_at f),
       jw_lease_until = None\<rparr> j"

definition jw_update :: "(job_run_row \<Rightarrow> bool) \<Rightarrow> (job_run_row \<Rightarrow> job_run_row) \<Rightarrow> journal \<Rightarrow> journal" where
  "jw_update P f j = map (\<lambda>r. if P r then f r else r) j"

definition jw_mark_running :: "string \<Rightarrow> int \<Rightarrow> int \<Rightarrow> journal \<Rightarrow> journal" where
  "jw_mark_running i started_at until =
     jw_update (\<lambda>r. jw_id r = i) (\<lambda>r. r\<lparr>jw_phase := ''running'', jw_started_at := Some started_at, jw_lease_until := Some until\<rparr>)"

definition jw_finish ::
    "string \<Rightarrow> string \<Rightarrow> string option \<Rightarrow> int option \<Rightarrow> string option \<Rightarrow> int \<Rightarrow> journal \<Rightarrow> journal" where
  "jw_finish i ph error processed summary finished_at =
     jw_update (\<lambda>r. jw_id r = i)
       (\<lambda>r. let r = r\<lparr>jw_phase := ph, jw_error := error, jw_processed := processed, jw_finished_at := Some finished_at,
                       jw_lease_until := None, jw_params := None\<rparr>
            in (case summary of Some m \<Rightarrow> r\<lparr>jw_summary := m\<rparr> | None \<Rightarrow> r))"

definition jw_lease_free :: "int \<Rightarrow> job_run_row \<Rightarrow> bool" where
  "jw_lease_free now r = (case jw_lease_until r of None \<Rightarrow> True | Some u \<Rightarrow> u \<le> now)"

definition jw_recoverable :: "journal \<Rightarrow> int \<Rightarrow> nat \<Rightarrow> job_run_row list" where
  "jw_recoverable j now limit =
     take limit (sort_key jw_created_at (filter (\<lambda>r. jw_finished_at r = None \<and> jw_lease_free now r) j))"

definition jw_claim :: "string \<Rightarrow> int \<Rightarrow> int \<Rightarrow> int \<Rightarrow> journal \<Rightarrow> bool \<times> journal" where
  "jw_claim i expected_attempt now until j =
     (let P = (\<lambda>r. jw_id r = i \<and> jw_finished_at r = None \<and> jw_attempt r = expected_attempt \<and> jw_lease_free now r) in
      (length (filter P j) = 1,
       jw_update P (\<lambda>r. r\<lparr>jw_attempt := jw_attempt r + 1, jw_lease_until := Some until\<rparr>) j))"

definition finish_key :: "job_run_row \<Rightarrow> int" where
  "finish_key r = (case jw_finished_at r of Some t \<Rightarrow> t | None \<Rightarrow> 0)"

definition finished_rows :: "journal \<Rightarrow> job_run_row list" where
  "finished_rows j = sort_desc finish_key (filter (\<lambda>r. jw_finished_at r \<noteq> None) j)"

definition jw_recent_matching :: "journal \<Rightarrow> nat \<Rightarrow> RunHistoryFilter \<Rightarrow> job_run_row list" where
  "jw_recent_matching j limit flt =
     take limit (filter (\<lambda>r. (case hf_kind flt of Some k \<Rightarrow> jw_kind r = k | None \<Rightarrow> True) \<and>
        (case hf_outcome flt of
           Some SucceededRuns \<Rightarrow> jw_phase r = ''succeeded''
         | Some FailedRuns \<Rightarrow> jw_phase r \<noteq> ''succeeded''
         | None \<Rightarrow> True)) (finished_rows j))"

definition jw_recent :: "journal \<Rightarrow> nat \<Rightarrow> job_run_row list" where
  "jw_recent j limit = jw_recent_matching j limit \<lparr>hf_kind = None, hf_outcome = None\<rparr>"

definition jw_latest_per_kind :: "journal \<Rightarrow> nat \<Rightarrow> job_run_row list" where
  "jw_latest_per_kind j window =
     snd (fold (\<lambda>row (seen, newest). if jw_kind row \<in> set seen then (seen, newest) else (seen @ [jw_kind row], newest @ [row]))
            (jw_recent j window) ([], []))"

definition jw_recent_kinds :: "journal \<Rightarrow> nat \<Rightarrow> string list" where
  "jw_recent_kinds j window = map jw_kind (jw_latest_per_kind j window)"

definition past_age :: "int \<Rightarrow> int \<Rightarrow> job_run_row \<Rightarrow> bool" where
  "past_age succeeded_before failed_before r =
     (case jw_finished_at r of
        None \<Rightarrow> False
      | Some t \<Rightarrow> jw_phase r = ''succeeded'' \<and> t < succeeded_before \<or> jw_phase r \<noteq> ''succeeded'' \<and> t < failed_before)"

definition jw_prune :: "int \<Rightarrow> int \<Rightarrow> nat \<Rightarrow> journal \<Rightarrow> nat \<times> journal" where
  "jw_prune succeeded_before failed_before max_rows j =
     (let by_age = length (filter (past_age succeeded_before failed_before) j);
          j = filter (\<lambda>r. \<not> past_age succeeded_before failed_before r) j in
      case drop max_rows (finished_rows j) of
        [] \<Rightarrow> (by_age, j)
      | row # _ \<Rightarrow>
          let gone = (\<lambda>r. jw_finished_at r \<noteq> None \<and> finish_key r \<le> finish_key row) in
          (by_age + length (filter gone j), filter (\<lambda>r. \<not> gone r) j))"

section \<open>The journal as a table under leases\<close>

definition jw_find :: "journal \<Rightarrow> string \<Rightarrow> job_run_row option" where
  "jw_find j i = find (\<lambda>r. jw_id r = i) j"

definition jw_attempts :: "journal \<Rightarrow> string \<Rightarrow> int option" where
  "jw_attempts j i = map_option jw_attempt (jw_find j i)"

definition jw_lease :: "journal \<Rightarrow> string \<Rightarrow> int option" where
  "jw_lease j i = Option.bind (jw_find j i) jw_lease_until"

definition jw_ok :: "journal \<Rightarrow> bool" where
  "jw_ok j \<longleftrightarrow> distinct (map jw_id j)"

lemma jw_find_id: "jw_find j i = Some r \<Longrightarrow> jw_id r = i"
  by (simp add: jw_find_def find_Some_iff) blast

lemma jw_find_iff: "jw_ok j \<Longrightarrow> jw_find j i = Some r \<longleftrightarrow> r \<in> set j \<and> jw_id r = i"
  unfolding jw_ok_def jw_find_def by (induction j) (auto simp: image_iff)

lemma jw_find_update:
  assumes "\<And>r. jw_id (f r) = jw_id r"
  shows "jw_find (jw_update P f j) i = map_option (\<lambda>r. if P r then f r else r) (jw_find j i)"
  unfolding jw_find_def jw_update_def by (induction j) (auto simp: assms)

lemma jw_update_ok: "jw_ok j \<Longrightarrow> (\<And>r. jw_id (f r) = jw_id r) \<Longrightarrow> jw_ok (jw_update P f j)"
proof -
  assume "jw_ok j" and ids: "\<And>r. jw_id (f r) = jw_id r"
  have "jw_id \<circ> (\<lambda>r. if P r then f r else r) = jw_id" using ids by auto
  then show ?thesis using \<open>jw_ok j\<close> by (simp add: jw_ok_def jw_update_def)
qed

lemma jw_insert_ok: "jw_ok j \<Longrightarrow> jw_insert row j = Inr j' \<Longrightarrow> jw_ok j'"
  by (auto simp: jw_insert_def jw_ok_def split: if_splits)

definition jw_claimable :: "int \<Rightarrow> int \<Rightarrow> job_run_row \<Rightarrow> bool" where
  "jw_claimable n now r \<longleftrightarrow> jw_finished_at r = None \<and> jw_attempt r = n \<and> jw_lease_free now r"

definition jw_claimed :: "int \<Rightarrow> job_run_row \<Rightarrow> job_run_row" where
  "jw_claimed until r = r\<lparr>jw_attempt := jw_attempt r + 1, jw_lease_until := Some until\<rparr>"

lemma jw_claim_eq:
  "jw_claim i n now until j = (length (filter (\<lambda>r. jw_id r = i \<and> jw_claimable n now r) j) = 1,
     jw_update (\<lambda>r. jw_id r = i \<and> jw_claimable n now r) (jw_claimed until) j)"
  by (simp add: jw_claim_def jw_claimable_def jw_claimed_def [abs_def] Let_def)

lemma jw_filter_id: "jw_ok j \<Longrightarrow> filter (\<lambda>r. jw_id r = i \<and> P r) j = (case jw_find j i of Some r \<Rightarrow> if P r then [r] else [] | None \<Rightarrow> [])"
proof (induction j)
  case (Cons a j)
  have ok: "jw_ok j" and a: "jw_id a \<notin> jw_id ` set j" using Cons.prems by (auto simp: jw_ok_def)
  show ?case
  proof (cases "jw_id a = i")
    case True
    then have "filter (\<lambda>r. jw_id r = i \<and> P r) j = []" using a by (auto simp: filter_empty_conv image_iff)
    then show ?thesis using True by (simp add: jw_find_def)
  next
    case False
    then show ?thesis using Cons.IH [OF ok] by (simp add: jw_find_def)
  qed
qed (simp add: jw_find_def)

lemma jw_claim_fst: "jw_ok j \<Longrightarrow> fst (jw_claim i n now until j) \<longleftrightarrow> (\<exists>r. jw_find j i = Some r \<and> jw_claimable n now r)"
  by (auto simp: jw_claim_eq jw_filter_id split: option.splits)

lemma jw_claim_find:
  "jw_find (snd (jw_claim i n now until j)) k =
     map_option (\<lambda>r. if jw_id r = i \<and> jw_claimable n now r then jw_claimed until r else r) (jw_find j k)"
  unfolding jw_claim_eq snd_conv by (rule jw_find_update) (simp add: jw_claimed_def)

lemma jw_claim_ok: "jw_ok j \<Longrightarrow> jw_ok (snd (jw_claim i n now until j))"
  unfolding jw_claim_eq snd_conv by (rule jw_update_ok) (simp_all add: jw_claimed_def)

lemma jw_claim_lost:
  assumes "jw_ok j" "\<not> fst (jw_claim i n now until j)"
  shows "snd (jw_claim i n now until j) = j"
proof -
  have "filter (\<lambda>r. jw_id r = i \<and> jw_claimable n now r) j = []"
    using assms by (auto simp: jw_filter_id jw_claim_fst split: option.splits)
  then show ?thesis unfolding jw_claim_eq snd_conv jw_update_def by (intro map_idI) (auto simp: filter_empty_conv)
qed

interpretation job_journal: lease_table jw_claim jw_attempts jw_lease jw_ok
proof unfold_locales
  fix j i n now until
  assume "jw_ok j" "fst (jw_claim i n now until j)"
  then obtain r where r: "jw_find j i = Some r" "jw_claimable n now r" "jw_id r = i"
    using jw_find_id by (auto simp: jw_claim_fst)
  then have "jw_find (snd (jw_claim i n now until j)) i = Some (jw_claimed until r)" by (simp add: jw_claim_find)
  then show "jw_attempts j i = Some n \<and> (\<forall>u. jw_lease j i = Some u \<longrightarrow> u \<le> now) \<and>
      jw_attempts (snd (jw_claim i n now until j)) i = Some (n + 1) \<and> jw_lease (snd (jw_claim i n now until j)) i = Some until"
    using r by (auto simp: jw_attempts_def jw_lease_def jw_claimable_def jw_claimed_def jw_lease_free_def)
next
  fix j :: journal and i k :: string and n now until :: int
  assume "i \<noteq> k"
  then show "jw_attempts (snd (jw_claim i n now until j)) k = jw_attempts j k \<and>
      jw_lease (snd (jw_claim i n now until j)) k = jw_lease j k"
    by (cases "jw_find j k") (auto simp: jw_claim_find jw_attempts_def jw_lease_def dest: jw_find_id)
qed (auto simp: jw_claim_ok jw_claim_lost)

section \<open>Retention\<close>

text \<open>How many finished rows a table has.\<close>

definition finished_count :: "journal \<Rightarrow> nat" where
  "finished_count j = length (filter (\<lambda>r. jw_finished_at r \<noteq> None) j)"

lemma length_finished_rows [simp]: "length (finished_rows j) = finished_count j"
  by (simp add: finished_rows_def finished_count_def)

lemma above_cut:
  assumes "sorted_desc f xs" "drop m xs = x # ys"
  shows "length (filter (\<lambda>y. \<not> f y \<le> f x) xs) \<le> m"
proof -
  have xs: "xs = take m xs @ x # ys" using assms(2) by (metis append_take_drop_id)
  then have "\<forall>y\<in>set (x # ys). f y \<le> f x" using assms(1) unfolding sorted_desc_def
    by (metis list.set_cases order_refl set_ConsD sorted_wrt.simps(2) sorted_wrt_append)
  then have "filter (\<lambda>y. \<not> f y \<le> f x) (x # ys) = []" by (simp only: filter_empty_conv not_not)
  then have "filter (\<lambda>y. \<not> f y \<le> f x) xs = filter (\<lambda>y. \<not> f y \<le> f x) (take m xs)" using xs by (metis append_Nil2 filter_append)
  then show ?thesis by (metis length_filter_le length_take min.bounded_iff order_trans order_refl)
qed

lemma jw_prune_result:
  "snd (jw_prune a b m j) = filter (\<lambda>r. \<not> past_age a b r) j \<and> finished_count (filter (\<lambda>r. \<not> past_age a b r) j) \<le> m \<or>
   (\<exists>row. row \<in> set j \<and> jw_finished_at row \<noteq> None \<and> m < finished_count (filter (\<lambda>r. \<not> past_age a b r) j) \<and>
      snd (jw_prune a b m j) = filter (\<lambda>r. \<not> (jw_finished_at r \<noteq> None \<and> finish_key r \<le> finish_key row)) (filter (\<lambda>r. \<not> past_age a b r) j) \<and>
      finished_count (snd (jw_prune a b m j)) \<le> m)"
proof (cases "drop m (finished_rows (filter (\<lambda>r. \<not> past_age a b r) j))")
  case Nil
  then show ?thesis by (simp add: jw_prune_def Let_def)
next
  case (Cons row rest)
  let ?j = "filter (\<lambda>r. \<not> past_age a b r) j"
  have row: "row \<in> set (finished_rows ?j)" using Cons by (metis in_set_dropD list.set_intros(1))
  have len: "m < finished_count ?j" using Cons by (metis drop_all length_finished_rows list.distinct(1) not_le)
  have res: "snd (jw_prune a b m j) = filter (\<lambda>r. \<not> (jw_finished_at r \<noteq> None \<and> finish_key r \<le> finish_key row)) ?j"
    using Cons by (simp add: jw_prune_def Let_def)
  have "finished_count (snd (jw_prune a b m j)) =
      length (filter (\<lambda>r. \<not> finish_key r \<le> finish_key row) (filter (\<lambda>r. jw_finished_at r \<noteq> None) ?j))"
    unfolding finished_count_def res filter_filter by (rule arg_cong [where f = length]) (rule filter_cong; auto)
  also have "\<dots> = length (filter (\<lambda>r. \<not> finish_key r \<le> finish_key row) (finished_rows ?j))"
    unfolding finished_rows_def by (metis mset_filter mset_sort_desc size_mset)
  also have "\<dots> \<le> m" by (rule above_cut [OF _ Cons]) (simp add: finished_rows_def)
  finally show ?thesis using res row len by (auto simp: finished_rows_def)
qed

text \<open>
  Retention never drops a run that is not finished, leaves at most the configured number of finished
  rows, and drops no finished row while it keeps an older one of the same kind of ending.
\<close>

theorem jw_prune_bounds:
  "finished_count (snd (jw_prune a b m j)) \<le> m \<and> set (snd (jw_prune a b m j)) \<subseteq> set j \<and>
   (\<forall>r\<in>set j - set (snd (jw_prune a b m j)). jw_finished_at r \<noteq> None \<and>
      (past_age a b r \<or> (\<forall>q\<in>set (snd (jw_prune a b m j)). jw_finished_at q \<noteq> None \<longrightarrow> finish_key r < finish_key q)))"
proof -
  let ?j = "filter (\<lambda>r. \<not> past_age a b r) j"
  have age: "jw_finished_at r \<noteq> None" if "past_age a b r" for r using that by (auto simp: past_age_def split: option.splits)
  consider "snd (jw_prune a b m j) = ?j" "finished_count ?j \<le> m"
    | row where "snd (jw_prune a b m j) = filter (\<lambda>r. \<not> (jw_finished_at r \<noteq> None \<and> finish_key r \<le> finish_key row)) ?j"
        "finished_count (snd (jw_prune a b m j)) \<le> m"
    using jw_prune_result [of a b m j] by blast
  then show ?thesis
  proof cases
    case 1
    then show ?thesis using age by auto
  next
    case 2
    have "finish_key r < finish_key q" if "finish_key r \<le> finish_key row" "\<not> finish_key q \<le> finish_key row" for r q
      using that by simp
    then show ?thesis using 2(2) age unfolding 2(1) by (auto simp del: not_le)
  qed
qed

text \<open>
  The cut by count is not exact. Rows that finished in the same second as the first one over the
  limit go with it, so with a limit of two and three runs that ended together the whole history is
  dropped.
\<close>

definition demo_job_row :: "string \<Rightarrow> int \<Rightarrow> job_run_row" where
  "demo_job_row i t = \<lparr>jw_id = i, jw_kind = ''gc'', jw_owner = None, jw_phase = ''succeeded'', jw_summary = [], jw_params = None,
     jw_error = None, jw_processed = None, jw_attempt = 1, jw_created_at = 0, jw_started_at = None, jw_finished_at = Some t,
     jw_lease_until = None\<rparr>"

theorem jw_prune_drops_ties:
  "snd (jw_prune 0 0 2 [demo_job_row ''a'' 5, demo_job_row ''b'' 5, demo_job_row ''c'' 5]) = [] \<and>
   map jw_id (snd (jw_prune 0 0 2 [demo_job_row ''a'' 3, demo_job_row ''b'' 4, demo_job_row ''c'' 5])) = [''b'', ''c'']"
  by code_simp

end
