(* ===== verification/TaskSystem.thy ===== *)
theory TaskSystem
  imports Journal
begin

text \<open>
  The task system as a whole (\<open>server/src/tasks/mod.rs\<close>): submission, the life of a run around the
  executor with its journal and statistics, cancellation, the end of a server generation, recovery
  after a restart, and the admission of deferrable jobs by load (\<open>server/src/tasks/admission.rs\<close>).

  The table of runs, the registry and the journal are those of the theories below. A cancellation
  token is a flag per run. What other requests do during a wait (the journal write of a submission, the
  grace period of a drain) is an argument. The permit pools, the tick loops and the sampling of the
  runtime's metrics are not modelled; the comparison of the database occupancy, a floating-point
  quotient, is a field of the thresholds.
\<close>

section \<open>State\<close>

record TaskLimits =
  tl_max_active_total :: nat
  tl_max_active_per_user :: nat
  tl_runs :: RunLimits

record JobStats =
  st_run_count :: nat
  st_success_count :: nat
  st_error_count :: nat
  st_last_run_at :: "int option"
  st_last_duration_ms :: int
  st_last_success_message :: string
  st_last_error_message :: string
  st_total_processed :: int
  st_last_state :: "JobState option"

definition no_stats :: JobStats where
  "no_stats = \<lparr>st_run_count = 0, st_success_count = 0, st_error_count = 0, st_last_run_at = None, st_last_duration_ms = 0,
     st_last_success_message = [], st_last_error_message = [], st_total_processed = 0, st_last_state = None\<rparr>"

record LoadSnapshot =
  ld_inflight_requests :: int
  ld_background_active :: int
  ld_db_in_use :: int
  ld_db_max :: int
  ld_worker_busy_pct :: int
  ld_sampled_at :: int

record LoadThresholds =
  lt_max_inflight_requests :: int
  lt_db_within :: "int \<Rightarrow> int \<Rightarrow> bool"
  lt_max_worker_busy_pct :: int

record QuietState =
  qs_calm_since :: "int option"
  qs_deferred_since :: "int option"

record TaskSystem =
  sy_registry :: JobRegistry
  sy_store :: RunStore
  sy_cancels :: "(string \<times> bool) list"
  sy_limits :: TaskLimits
  sy_stats :: "(JobKey \<times> JobStats) list"
  sy_quiet :: "(JobKey \<times> QuietState) list"
  sy_journal :: "journal option"
  sy_load_aware :: bool
  sy_snapshot :: LoadSnapshot
  sy_thresholds :: LoadThresholds

record system_env =
  sv_task :: task_env
  sv_to_string :: "Value \<Rightarrow> string"
  sv_parse :: "string \<Rightarrow> Value option"

section \<open>Load admission (tasks/admission.rs)\<close>

datatype LoadAdmission = Allow | Defer

definition is_calm :: "LoadThresholds \<Rightarrow> LoadSnapshot \<Rightarrow> bool" where
  "is_calm th sn \<longleftrightarrow> ld_inflight_requests sn \<le> lt_max_inflight_requests th \<and>
     lt_db_within th (ld_db_in_use sn) (ld_db_max sn) \<and> ld_worker_busy_pct sn \<le> lt_max_worker_busy_pct th"

definition is_fresh :: "LoadSnapshot \<Rightarrow> int \<Rightarrow> int \<Rightarrow> bool" where
  "is_fresh sn max_age now \<longleftrightarrow> ld_sampled_at sn > 0 \<and> i64_sat (now - ld_sampled_at sn) \<le> max_age"

definition MAX_SAMPLE_AGE :: int where
  "MAX_SAMPLE_AGE = 30"

definition quiet_admits :: "bool \<Rightarrow> int \<Rightarrow> int \<Rightarrow> int option \<Rightarrow> LoadAdmission \<times> int option" where
  "quiet_admits calm min_idle_for_secs now calm_since =
     (if \<not> calm then (Defer, Some now)
      else
        let since = (case calm_since of Some t \<Rightarrow> t | None \<Rightarrow> now) in
        (if i64_sat (now - since) \<ge> i64_wrap min_idle_for_secs then Allow else Defer, Some since))"

text \<open>Division truncates towards zero and the cast to \<open>u64\<close> wraps: a clock set back by hours reads as a
  very long wait.\<close>

definition waited_hours :: "int \<Rightarrow> int \<Rightarrow> int" where
  "waited_hours now since =
     (let d = i64_sat (now - since) in (if d < 0 then - ((- d) div 3600) else d div 3600) mod 2 ^ 64)"

definition quiet_of :: "JobKey \<Rightarrow> TaskSystem \<Rightarrow> QuietState" where
  "quiet_of key sys =
     (case map_of (sy_quiet sys) key of Some q \<Rightarrow> q | None \<Rightarrow> \<lparr>qs_calm_since = None, qs_deferred_since = None\<rparr>)"

definition admit :: "JobSpec \<Rightarrow> int \<Rightarrow> TaskSystem \<Rightarrow> LoadAdmission \<times> TaskSystem" where
  "admit spec now sys =
     (case sp_quiet spec of
        None \<Rightarrow> (Allow, sys)
      | Some policy \<Rightarrow>
          if \<not> sy_load_aware sys then (Allow, sys)
          else if \<not> is_fresh (sy_snapshot sys) MAX_SAMPLE_AGE now then (Defer, sys)
          else
            let q = quiet_of (sp_key spec) sys in
            (case quiet_admits (is_calm (sy_thresholds sys) (sy_snapshot sys)) (qp_min_idle_for_secs policy) now (qs_calm_since q) of
               (Allow, since) \<Rightarrow>
                 (Allow, sys\<lparr>sy_quiet := hm_insert (sp_key spec) \<lparr>qs_calm_since = since, qs_deferred_since = None\<rparr> (sy_quiet sys)\<rparr>)
             | (Defer, since) \<Rightarrow>
                 let deferred = (case qs_deferred_since q of Some t \<Rightarrow> t | None \<Rightarrow> now) in
                 if qp_max_deferral_hours policy > 0 \<and> waited_hours now deferred \<ge> qp_max_deferral_hours policy \<and> sp_force_safe spec
                 then (Allow, sys\<lparr>sy_quiet := hm_insert (sp_key spec) \<lparr>qs_calm_since = since, qs_deferred_since = None\<rparr> (sy_quiet sys)\<rparr>)
                 else (Defer, sys\<lparr>sy_quiet := hm_insert (sp_key spec) \<lparr>qs_calm_since = since, qs_deferred_since = Some deferred\<rparr> (sy_quiet sys)\<rparr>)))"

section \<open>Submission\<close>

fun job_debug :: "JobKey \<Rightarrow> string" where
  "job_debug Copy = ''Copy''"
| "job_debug Move = ''Move''"
| "job_debug Reindex = ''Reindex''"
| "job_debug IndexFiles = ''IndexFiles''"
| "job_debug TokenExpiryCheck = ''TokenExpiryCheck''"
| "job_debug PasswordCacheCleanup = ''PasswordCacheCleanup''"
| "job_debug ExpiredDataCleanup = ''ExpiredDataCleanup''"
| "job_debug GarbageCollection = ''GarbageCollection''"
| "job_debug BlockEncryptionConvert = ''BlockEncryptionConvert''"
| "job_debug IndexCommit = ''IndexCommit''"
| "job_debug IndexBackfill = ''IndexBackfill''"
| "job_debug FaceTagScan = ''FaceTagScan''"
| "job_debug FaceTagBackfill = ''FaceTagBackfill''"
| "job_debug ZipTaskCleanup = ''ZipTaskCleanup''"

record Submission =
  su_id :: string
  su_origin :: Origin
  su_key :: JobKey
  su_owner :: "int option"
  su_params :: Value
  su_summary :: string
  su_expected_total :: "int option"
  su_details :: "(string \<times> Value) list"

definition journaled :: "JobSpec \<Rightarrow> bool" where
  "journaled spec \<longleftrightarrow> sp_durability spec \<ge> Audit \<and> journals_from_the_start (sp_history spec)"

definition install :: "JobSpec list \<Rightarrow> TaskSystem \<Rightarrow> (RegistryError + unit) \<times> TaskSystem" where
  "install jobs sys =
     (case rfold register jobs new_registry of
        Inl e \<Rightarrow> (Inl e, sys)
      | Inr fresh \<Rightarrow> (Inr (), sys\<lparr>sy_registry := fresh\<rparr>))"

definition system_set_limits :: "TaskLimits \<Rightarrow> TaskSystem \<Rightarrow> TaskSystem" where
  "system_set_limits limits sys = sys\<lparr>sy_store := rs_set_limits (tl_runs limits) (sy_store sys), sy_limits := limits\<rparr>"

definition submit_run :: "system_env \<Rightarrow> Submission \<Rightarrow> int \<Rightarrow> TaskSystem \<Rightarrow> (JobSpec \<times> JobRun) result \<times> TaskSystem" where
  "submit_run v sub now sys =
     (case registry_get (sy_registry sys) (su_key sub) of
        None \<Rightarrow> (Inl (Internal (''job '' @ job_debug (su_key sub) @ '' is not registered'')), sys)
      | Some spec \<Rightarrow>
          let r = new_run spec (su_id sub) (su_origin sub) (su_owner sub) (su_params sub) (su_summary sub)
                    (su_expected_total sub) (su_details sub) now;
              a = submit_admission spec (tl_max_active_total (sy_limits sys)) (tl_max_active_per_user (sy_limits sys))
                    (su_owner sub) (su_params sub) in
          (case reserve (sv_task v) r a (sy_store sys) of
             (Inl e, _) \<Rightarrow> (Inl e, sys)
           | (Inr _, s) \<Rightarrow> (Inr (spec, r), sys\<lparr>sy_store := s\<rparr>)))"

definition journal_submission :: "system_env \<Rightarrow> Submission \<Rightarrow> int \<Rightarrow> JobSpec \<Rightarrow> JobRun \<Rightarrow> TaskSystem \<Rightarrow> unit result \<times> TaskSystem" where
  "journal_submission v sub now spec r sys =
     (case sy_journal sys of
        None \<Rightarrow> (Inr (), sys)
      | Some j \<Rightarrow>
          if \<not> journaled spec then (Inr (), sys)
          else
            (case jw_enqueue \<lparr>nj_id = su_id sub, nj_kind = job_as_str (su_key sub), nj_owner = su_owner sub, nj_summary = jr_summary r,
                    nj_params = Some (sv_to_string v (su_params sub)), nj_created_at = now\<rparr> (lease_until queue_DEFAULT now) j of
               Inr j \<Rightarrow> (Inr (), sys\<lparr>sy_journal := Some j\<rparr>)
             | Inl e \<Rightarrow> (Inl e, sys\<lparr>sy_store := snd (discard (sv_task v) (su_id sub) (sy_store sys))\<rparr>)))"

text \<open>\<open>meanwhile\<close> is what other requests do between the reservation and the end of the journal write.\<close>

definition submit_as ::
    "system_env \<Rightarrow> Submission \<Rightarrow> int \<Rightarrow> int \<Rightarrow> (TaskSystem \<Rightarrow> TaskSystem) \<Rightarrow> TaskSystem \<Rightarrow> (JobSpec \<times> JobRun) result \<times> TaskSystem" where
  "submit_as v sub now now' meanwhile sys =
     (case submit_run v sub now sys of
        (Inl e, sys) \<Rightarrow> (Inl e, sys)
      | (Inr (spec, r), sys) \<Rightarrow>
          (case journal_submission v sub now' spec r (meanwhile sys) of
             (Inl e, sys) \<Rightarrow> (Inl e, sys)
           | (Inr _, sys) \<Rightarrow> (Inr (spec, r), sys\<lparr>sy_cancels := hm_insert (su_id sub) False (sy_cancels sys)\<rparr>)))"

section \<open>The life of a run\<close>

definition stats_of :: "JobKey \<Rightarrow> TaskSystem \<Rightarrow> JobStats" where
  "stats_of key sys = (case map_of (sy_stats sys) key of Some e \<Rightarrow> e | None \<Rightarrow> no_stats)"

definition run_error :: "JobState \<Rightarrow> string option" where
  "run_error state =
     (case state of Failed message \<Rightarrow> Some message | TimedOut \<Rightarrow> Some ''timed out'' | Cancelled \<Rightarrow> Some ''cancelled''
        | Interrupted \<Rightarrow> Some ''interrupted by a restart'' | _ \<Rightarrow> None)"

definition record_stats :: "JobKey \<Rightarrow> RunReport \<Rightarrow> int \<Rightarrow> int \<Rightarrow> TaskSystem \<Rightarrow> TaskSystem" where
  "record_stats key rep now elapsed sys =
     (let e = (stats_of key sys);
          e = e\<lparr>st_run_count := st_run_count e + 1, st_last_run_at := Some now, st_last_duration_ms := elapsed,
                st_last_state := Some (rr_state rep)\<rparr>;
          e = (if rr_state rep = Succeeded then
                 let e = e\<lparr>st_success_count := st_success_count e + 1\<rparr> in
                 (case rr_outcome rep of
                    None \<Rightarrow> e
                  | Some oc \<Rightarrow>
                      let e = e\<lparr>st_last_success_message := oc_message oc\<rparr> in
                      (case oc_processed oc of Some n \<Rightarrow> e\<lparr>st_total_processed := st_total_processed e + n\<rparr> | None \<Rightarrow> e))
               else
                 e\<lparr>st_error_count := st_error_count e + 1,
                   st_last_error_message := (case run_error (rr_state rep) of Some m \<Rightarrow> m | None \<Rightarrow> [])\<rparr>)
      in sys\<lparr>sy_stats := hm_insert key e (sy_stats sys)\<rparr>)"

definition silent_run :: "JobRun \<Rightarrow> RunReport \<Rightarrow> bool" where
  "silent_run r rep \<longleftrightarrow> rr_state rep = Succeeded \<and> (case rr_outcome rep of Some oc \<Rightarrow> oc_idle oc | None \<Rightarrow> False) \<and>
     jr_origin r = Schedule"

definition report_summary :: "RunReport \<Rightarrow> string option" where
  "report_summary rep =
     (case rr_outcome rep of Some oc \<Rightarrow> if oc_message oc = [] then None else Some (oc_message oc) | None \<Rightarrow> None)"

definition journal_end :: "JobSpec \<Rightarrow> JobRun \<Rightarrow> RunReport \<Rightarrow> int \<Rightarrow> journal \<Rightarrow> journal" where
  "journal_end spec r rep now j =
     (let finished_at = (case rr_finished_at rep of Some t \<Rightarrow> t | None \<Rightarrow> now);
          processed = (case rr_outcome rep of Some oc \<Rightarrow> oc_processed oc | None \<Rightarrow> None) in
      if journaled spec
      then jw_finish (jr_id r) (js_as_str (rr_state rep)) (run_error (rr_state rep)) processed (report_summary rep) finished_at j
      else if \<not> silent_run r rep
      then (case jw_record_finished
                  \<lparr>fj_id = jr_id r, fj_kind = job_as_str (sp_key spec), fj_owner = jr_owner r, fj_phase = js_as_str (rr_state rep),
                   fj_summary = (case report_summary rep of Some m \<Rightarrow> m | None \<Rightarrow> []), fj_error = run_error (rr_state rep),
                   fj_processed = processed, fj_attempt = int (rr_attempts rep), fj_created_at = jr_created_at r,
                   fj_started_at = rr_started_at rep, fj_finished_at = finished_at\<rparr> j of
              Inr j \<Rightarrow> j
            | Inl _ \<Rightarrow> j)
      else j)"

text \<open>A driver once it has its permit, up to and including the removal of its token.\<close>

definition drive :: "system_env \<Rightarrow> exec_env \<Rightarrow> JobSpec \<Rightarrow> JobRun \<Rightarrow> int \<Rightarrow> int \<Rightarrow> int \<Rightarrow> TaskSystem \<Rightarrow> RunReport \<times> TaskSystem" where
  "drive v env spec r began elapsed now sys =
     (let sys = (if journaled spec
                 then sys\<lparr>sy_journal := map_option (jw_mark_running (jr_id r) began (lease_until queue_DEFAULT began)) (sy_journal sys)\<rparr>
                 else sys) in
      case execute (sv_task v) env spec (jr_id r) (sy_store sys) of
        (rep, s) \<Rightarrow>
          let sys = record_stats (sp_key spec) rep now elapsed (sys\<lparr>sy_store := s\<rparr>);
              sys = (if sp_durability spec \<ge> Audit then sys\<lparr>sy_journal := map_option (journal_end spec r rep now) (sy_journal sys)\<rparr> else sys);
              sys = (if silent_run r rep then sys\<lparr>sy_store := snd (discard (sv_task v) (jr_id r) (sy_store sys))\<rparr> else sys)
          in (rep, sys\<lparr>sy_cancels := hm_remove (jr_id r) (sy_cancels sys)\<rparr>))"

definition cancel :: "string \<Rightarrow> Viewer \<Rightarrow> TaskSystem \<Rightarrow> unit result \<times> TaskSystem" where
  "cancel i viewer sys =
     (case rs_get_for (sy_store sys) i viewer of
        None \<Rightarrow> (Inl (NotFound ''task not found or expired''), sys)
      | Some r \<Rightarrow>
          if js_is_terminal (jr_state r) then (Inl (Conflict ''task has already finished''), sys)
          else if \<not> (case registry_get (sy_registry sys) (jr_key r) of Some spec \<Rightarrow> sp_cancellable spec \<or> sp_resumable spec | None \<Rightarrow> False)
          then (Inl (Conflict (job_as_str (jr_key r) @ '' cannot be cancelled'')), sys)
          else if map_of (sy_cancels sys) i \<noteq> None then (Inr (), sys\<lparr>sy_cancels := hm_insert i True (sy_cancels sys)\<rparr>)
          else (Inr (), sys))"

definition active_filter :: RunFilter where
  "active_filter = \<lparr>rf_key = None, rf_owner = None, rf_include_active = True, rf_include_terminal = False, rf_limit = 0\<rparr>"

definition drain_tokens :: "TaskSystem \<Rightarrow> string list" where
  "drain_tokens sys =
     filter (\<lambda>i. map_of (sy_cancels sys) i \<noteq> None)
       (map jr_id (filter (\<lambda>r. case registry_get (sy_registry sys) (jr_key r) of
            Some spec \<Rightarrow> sp_resumable spec \<or> sp_cancellable spec | None \<Rightarrow> False) (rs_list active_filter (sy_store sys))))"

definition drain_system :: "system_env \<Rightarrow> (TaskSystem \<Rightarrow> TaskSystem) \<Rightarrow> int \<Rightarrow> TaskSystem \<Rightarrow> TaskSystem" where
  "drain_system v grace now sys =
     (if rs_list active_filter (sy_store sys) = [] then sys
      else
        let sys = sys\<lparr>sy_cancels := fold (\<lambda>i. hm_insert i True) (drain_tokens sys) (sy_cancels sys)\<rparr>;
            sys = grace sys
        in sys\<lparr>sy_store := snd (interrupt_active (sv_task v) now (sy_store sys))\<rparr>)"

definition tick :: "system_env \<Rightarrow> JobSpec \<Rightarrow> OverlapPolicy \<Rightarrow> string \<Rightarrow> int \<Rightarrow> TaskSystem \<Rightarrow> bool \<times> TaskSystem" where
  "tick v spec overlap i now sys =
     (case admit spec now sys of
        (Defer, sys) \<Rightarrow> (False, sys)
      | (Allow, sys) \<Rightarrow>
          if overlap = SkipTick \<and> count_active (sy_store sys) (sp_key spec) None > 0 then (False, sys)
          else
            (case submit_as v \<lparr>su_id = i, su_origin = Schedule, su_key = sp_key spec, su_owner = None, su_params = VNull,
                     su_summary = [], su_expected_total = None, su_details = []\<rparr> now now (\<lambda>s. s) sys of
               (Inr _, sys) \<Rightarrow> (True, sys)
             | (Inl _, sys) \<Rightarrow> (False, sys)))"

section \<open>Recovery\<close>

definition close_row :: "string \<Rightarrow> string \<Rightarrow> string \<Rightarrow> int option \<Rightarrow> int \<Rightarrow> TaskSystem \<Rightarrow> TaskSystem" where
  "close_row i ph reason processed now sys =
     sys\<lparr>sy_journal := map_option (jw_finish i ph (Some reason) processed None now) (sy_journal sys)\<rparr>"

definition recover_row :: "system_env \<Rightarrow> (string \<Rightarrow> string) \<Rightarrow> int \<Rightarrow> job_run_row \<Rightarrow> TaskSystem \<Rightarrow> TaskSystem" where
  "recover_row v new_id now row sys =
     (case job_from_slug (jw_kind row) of
        None \<Rightarrow> close_row (jw_id row) ''interrupted'' ''no job is registered under this name any more'' None now sys
      | Some key \<Rightarrow>
          if \<not> (case registry_get (sy_registry sys) key of Some spec \<Rightarrow> sp_durability spec = Durable | None \<Rightarrow> False)
          then close_row (jw_id row) ''interrupted'' ''this job is not safe to replay'' None now sys
          else
            (case sy_journal sys of
               None \<Rightarrow> sys
             | Some j \<Rightarrow>
                 (case jw_claim (jw_id row) (jw_attempt row) now (lease_until queue_DEFAULT now) j of
                    (False, _) \<Rightarrow> sys
                  | (True, j) \<Rightarrow>
                      let sys = sys\<lparr>sy_journal := Some j\<rparr>;
                          params = (case Option.bind (jw_params row) (sv_parse v) of Some p \<Rightarrow> p | None \<Rightarrow> VNull);
                          summary = (if jw_summary row = [] then job_as_str key else jw_summary row) @ '' (recovered)'' in
                      (case submit_as v \<lparr>su_id = new_id (jw_id row), su_origin = Startup, su_key = key, su_owner = jw_owner row,
                               su_params = params, su_summary = summary, su_expected_total = None, su_details = []\<rparr>
                              now now (\<lambda>s. s) sys of
                         (Inr _, sys) \<Rightarrow> close_row (jw_id row) ''interrupted'' ''recovered after a restart'' (jw_processed row) now sys
                       | (Inl e, sys) \<Rightarrow> close_row (jw_id row) ''failed'' (''could not be recovered: '' @ display_error e) None now sys))))"

definition recover :: "system_env \<Rightarrow> (string \<Rightarrow> string) \<Rightarrow> int \<Rightarrow> TaskSystem \<Rightarrow> TaskSystem" where
  "recover v new_id now sys =
     (case sy_journal sys of None \<Rightarrow> sys | Some j \<Rightarrow> fold (recover_row v new_id now) (jw_recoverable j now 50) sys)"

definition seed_row :: "job_run_row \<Rightarrow> TaskSystem \<Rightarrow> TaskSystem" where
  "seed_row row sys =
     (case job_from_slug (jw_kind row) of
        None \<Rightarrow> sys
      | Some key \<Rightarrow>
          let e = stats_of key sys in
          if st_last_run_at e \<noteq> None then sys\<lparr>sy_stats := hm_insert key e (sy_stats sys)\<rparr>
          else
            let state = js_from_wire (jw_phase row) (jw_error row);
                e = e\<lparr>st_last_run_at := jw_finished_at row\<rparr>;
                e = (if state = Succeeded then e\<lparr>st_last_success_message := jw_summary row\<rparr>
                     else e\<lparr>st_last_error_message :=
                       (case jw_error row of Some m \<Rightarrow> if m = [] then js_as_str state else m | None \<Rightarrow> js_as_str state)\<rparr>)
            in sys\<lparr>sy_stats := hm_insert key (e\<lparr>st_last_state := Some state\<rparr>) (sy_stats sys)\<rparr>)"

definition seed_stats_from_journal :: "TaskSystem \<Rightarrow> TaskSystem" where
  "seed_stats_from_journal sys =
     (case sy_journal sys of None \<Rightarrow> sys | Some j \<Rightarrow> fold seed_row (jw_latest_per_kind j 500) sys)"

definition prune_journal :: "int \<Rightarrow> TaskSystem \<Rightarrow> nat \<times> TaskSystem" where
  "prune_journal now sys =
     (case sy_journal sys of
        None \<Rightarrow> (0, sys)
      | Some j \<Rightarrow>
          (case jw_prune (fst (history_cutoffs history_DEFAULT now)) (snd (history_cutoffs history_DEFAULT now)) (hp_max_rows history_DEFAULT) j of
             (pruned, j) \<Rightarrow> (pruned, sys\<lparr>sy_journal := Some j\<rparr>)))"

section \<open>What a finished run leaves behind\<close>

lemma run_error_roundtrip: "js_is_terminal state \<Longrightarrow> js_from_wire (js_as_str state) (run_error state) = state"
  by (cases state) (simp_all add: js_is_terminal_def run_error_def js_from_wire_def)

lemma jw_finish_find:
  "jw_find (jw_finish i ph error processed summary finished_at j) k =
     map_option (\<lambda>r. if jw_id r = i then r\<lparr>jw_phase := ph, jw_error := error, jw_processed := processed,
        jw_finished_at := Some finished_at, jw_lease_until := None, jw_params := None,
        jw_summary := (case summary of Some m \<Rightarrow> m | None \<Rightarrow> jw_summary r)\<rparr> else r) (jw_find j k)"
proof -
  have eq: "(\<lambda>r. let r = r\<lparr>jw_phase := ph, jw_error := error, jw_processed := processed, jw_finished_at := Some finished_at,
                       jw_lease_until := None, jw_params := None\<rparr>
            in (case summary of Some m \<Rightarrow> r\<lparr>jw_summary := m\<rparr> | None \<Rightarrow> r)) =
        (\<lambda>r. r\<lparr>jw_phase := ph, jw_error := error, jw_processed := processed,
        jw_finished_at := Some finished_at, jw_lease_until := None, jw_params := None,
        jw_summary := (case summary of Some m \<Rightarrow> m | None \<Rightarrow> jw_summary r)\<rparr>)"
    by (cases summary) (simp_all add: fun_eq_iff Let_def)
  show ?thesis unfolding jw_finish_def eq by (rule jw_find_update) simp
qed

lemma jw_finish_other: "k \<noteq> i \<Longrightarrow> jw_find (jw_finish i ph error processed summary finished_at j) k = jw_find j k"
  by (cases "jw_find j k") (auto simp: jw_finish_find dest: jw_find_id)

lemma jw_finish_self:
  "jw_find j i \<noteq> None \<Longrightarrow> \<exists>r. jw_find (jw_finish i ph error processed summary t j) i = Some r \<and> jw_finished_at r = Some t"
  by (cases "jw_find j i") (auto simp: jw_finish_find dest: jw_find_id)

lemma jw_finish_ok: "jw_ok j \<Longrightarrow> jw_ok (jw_finish i ph error processed summary finished_at j)"
  unfolding jw_finish_def by (rule jw_update_ok) (simp_all add: Let_def split: option.split)

lemma jw_running_find:
  "jw_find (jw_mark_running i a b j) k =
     map_option (\<lambda>r. if jw_id r = i then r\<lparr>jw_phase := ''running'', jw_started_at := Some a, jw_lease_until := Some b\<rparr> else r) (jw_find j k)"
  unfolding jw_mark_running_def by (rule jw_find_update) simp

lemma jw_insert_find:
  "jw_insert row j = Inr j' \<Longrightarrow> jw_find j' k = (case jw_find j k of Some r \<Rightarrow> Some r | None \<Rightarrow> if jw_id row = k then Some row else None)"
proof -
  have "find P (xs @ [x]) = (case find P xs of Some r \<Rightarrow> Some r | None \<Rightarrow> if P x then Some x else None)" for P x and xs :: journal
    by (induction xs) auto
  then show "jw_insert row j = Inr j' \<Longrightarrow> ?thesis" by (auto simp: jw_insert_def jw_find_def split: if_splits option.splits)
qed

lemma jw_insert_fresh: "jw_find j (jw_id row) = None \<Longrightarrow> jw_insert row j = Inr (j @ [row])"
  by (auto simp: jw_insert_def jw_find_def find_None_iff)

text \<open>The row of a finished run: its end, its verdict as the reader gets it back, and nothing left to
  recover.\<close>

definition closed_as :: "JobState \<Rightarrow> job_run_row \<Rightarrow> bool" where
  "closed_as state row \<longleftrightarrow> jw_finished_at row \<noteq> None \<and> js_from_wire (jw_phase row) (jw_error row) = state \<and>
     jw_lease_until row = None \<and> jw_params row = None"

lemma drive_journal:
  "sy_journal (snd (drive v env spec r began elapsed now sys)) =
     (let j = (if journaled spec then map_option (jw_mark_running (jr_id r) began (lease_until queue_DEFAULT began)) (sy_journal sys)
               else sy_journal sys) in
      if sp_durability spec \<ge> Audit
      then map_option (journal_end spec r (fst (drive v env spec r began elapsed now sys)) now) j else j)"
  by (simp add: drive_def Let_def record_stats_def split: prod.split)

lemma drive_report:
  "report_ok spec (jr_id r) (fst (drive v env spec r began elapsed now sys))
     (snd (execute (sv_task v) env spec (jr_id r) (sy_store sys)))"
proof -
  obtain rep s where e: "execute (sv_task v) env spec (jr_id r) (sy_store sys) = (rep, s)" by fastforce
  have "report_ok spec (jr_id r) rep s" using execute_loop_report [of 1 spec "sv_task v" env "jr_id r" "sy_store sys" rep s] e
    by (simp add: execute_def)
  then show ?thesis by (simp add: drive_def Let_def e)
qed

lemma journal_end_other:
  assumes "journaled spec" "k \<noteq> jr_id r"
  shows "jw_find (journal_end spec r rep now (jw_mark_running (jr_id r) a b j)) k = jw_find j k"
proof (cases "jw_find j k")
  case (Some row)
  then have "jw_id row \<noteq> jr_id r" using assms(2) by (auto dest: jw_find_id)
  then show ?thesis using assms(1) Some by (simp add: journal_end_def Let_def jw_finish_find jw_running_find)
qed (use assms in \<open>simp add: journal_end_def Let_def jw_finish_find jw_running_find\<close>)

lemma journal_end_closes:
  assumes "journaled spec" "js_is_terminal (rr_state rep)" "jw_find j (jr_id r) = Some row"
  shows "\<exists>row'. jw_find (journal_end spec r rep now (jw_mark_running (jr_id r) a b j)) (jr_id r) = Some row' \<and> closed_as (rr_state rep) row'"
  using assms run_error_roundtrip [OF assms(2)] jw_find_id [OF assms(3)]
  by (simp add: journal_end_def Let_def jw_finish_find jw_running_find closed_as_def)

text \<open>
  C23: What a run leaves in the journal. A job kept in memory leaves the journal alone. A job that is
  written down from the start has its row closed with the verdict of the run, and other rows are
  untouched. A job that keeps only notable runs leaves nothing for an idle pass of the timer, in the
  journal and in the table of runs, and exactly one closed row otherwise.
\<close>

theorem drive_leaves_record:
  assumes "drive v env spec r began elapsed now sys = (rep, sys')" "sy_journal sys = Some j"
  shows "\<exists>j'. sy_journal sys' = Some j' \<and>
    (sp_durability spec = Memory \<longrightarrow> j' = j) \<and>
    (journaled spec \<longrightarrow> (\<forall>k. k \<noteq> jr_id r \<longrightarrow> jw_find j' k = jw_find j k) \<and>
       (\<forall>row. jw_find j (jr_id r) = Some row \<longrightarrow> (\<exists>row'. jw_find j' (jr_id r) = Some row' \<and> closed_as (rr_state rep) row'))) \<and>
    (sp_durability spec \<noteq> Memory \<and> \<not> journaled spec \<longrightarrow>
       (if silent_run r rep then j' = j \<and> rs_get (sy_store sys') (jr_id r) = None
        else jw_find j (jr_id r) = None \<longrightarrow> (\<exists>row. j' = j @ [row] \<and> jw_id row = jr_id r \<and> closed_as (rr_state rep) row)))"
proof -
  note rep = drive_report [of spec r v env began elapsed now sys, unfolded assms(1) fst_conv]
  have fin: "js_is_terminal (rr_state rep)" using rep by (simp add: report_ok_def)
  have j': "sy_journal sys' = (if sp_durability spec \<ge> Audit
      then Some (journal_end spec r rep now (if journaled spec then jw_mark_running (jr_id r) began (lease_until queue_DEFAULT began) j else j))
      else if journaled spec then Some (jw_mark_running (jr_id r) began (lease_until queue_DEFAULT began) j) else Some j)"
    using drive_journal [of v env spec r began elapsed now sys] assms by (simp add: Let_def)
  have dur: "sp_durability spec \<ge> Audit \<longleftrightarrow> sp_durability spec \<noteq> Memory"
    by (cases "sp_durability spec") (simp_all add: less_eq_Durability_def)
  have jd: "journaled spec \<Longrightarrow> sp_durability spec \<noteq> Memory" by (auto simp: journaled_def dur)
  have silent: "rs_get (sy_store sys') (jr_id r) = None" if "silent_run r rep"
    using assms(1) that by (auto simp: drive_def Let_def discard_def rs_get_None_iff set_runs_remove split: prod.splits option.splits)
  consider (memory) "sp_durability spec = Memory" | (start) "journaled spec" | (notable) "sp_durability spec \<noteq> Memory" "\<not> journaled spec"
    by blast
  then show ?thesis
  proof cases
    case memory
    then show ?thesis using j' jd dur by auto
  next
    case start
    then have js: "sy_journal sys' = Some (journal_end spec r rep now (jw_mark_running (jr_id r) began (lease_until queue_DEFAULT began) j))"
      using j' jd dur by simp
    show ?thesis unfolding js
      using start jd journal_end_other [OF start] journal_end_closes [OF start fin] by auto
  next
    case notable
    then have js: "sy_journal sys' = Some (journal_end spec r rep now j)" using j' dur by simp
    show ?thesis unfolding js using notable silent run_error_roundtrip [OF fin]
      by (auto simp: journal_end_def Let_def jw_record_finished_def jw_insert_fresh closed_as_def)
  qed
qed

section \<open>Recovery closes what it takes and leaves the rest\<close>

lemma journal_submission_journal:
  assumes "journal_submission v sub now spec r sys = (res, sys')" "sy_journal sys = Some j" "jw_ok j"
  shows "\<exists>j'. sy_journal sys' = Some j' \<and> jw_ok j' \<and> (\<forall>k r. jw_find j k = Some r \<longrightarrow> jw_find j' k = Some r)"
proof (cases "journaled spec")
  case True
  define row where "row = \<lparr>jw_id = su_id sub, jw_kind = job_as_str (su_key sub), jw_owner = su_owner sub, jw_phase = ''queued'',
    jw_summary = jr_summary r, jw_params = Some (sv_to_string v (su_params sub)), jw_error = None, jw_processed = None, jw_attempt = 1,
    jw_created_at = now, jw_started_at = None, jw_finished_at = None, jw_lease_until = Some (lease_until queue_DEFAULT now)\<rparr>"
  show ?thesis
  proof (cases "jw_insert row j")
    case (Inl e)
    then show ?thesis using assms True by (auto simp: journal_submission_def jw_enqueue_def row_def)
  next
    case (Inr j')
    then have "sy_journal sys' = Some j'" using assms True by (auto simp: journal_submission_def jw_enqueue_def row_def)
    moreover have "\<forall>k r. jw_find j k = Some r \<longrightarrow> jw_find j' k = Some r" using jw_insert_find [OF Inr] by simp
    ultimately show ?thesis using jw_insert_ok [OF assms(3) Inr] by blast
  qed
qed (use assms in \<open>auto simp: journal_submission_def\<close>)

lemma submit_as_journal:
  assumes "submit_as v sub now now' (\<lambda>s. s) sys = (res, sys')" "sy_journal sys = Some j" "jw_ok j"
  shows "\<exists>j'. sy_journal sys' = Some j' \<and> jw_ok j' \<and> (\<forall>k r. jw_find j k = Some r \<longrightarrow> jw_find j' k = Some r)"
proof -
  obtain a sys1 where r: "submit_run v sub now sys = (a, sys1)" by fastforce
  have s1: "sy_journal sys1 = Some j" using r assms(2) by (auto simp: submit_run_def Let_def split: option.splits prod.splits sum.splits)
  show ?thesis
  proof (cases a)
    case (Inl e)
    then show ?thesis using assms r s1 by (simp add: submit_as_def)
  next
    case (Inr sr)
    obtain spec run where sr: "sr = (spec, run)" by fastforce
    obtain b sys2 where js: "journal_submission v sub now' spec run sys1 = (b, sys2)" by fastforce
    have "\<exists>j'. sy_journal sys2 = Some j' \<and> jw_ok j' \<and> (\<forall>k r. jw_find j k = Some r \<longrightarrow> jw_find j' k = Some r)"
      using journal_submission_journal [OF js s1 assms(3)] .
    then show ?thesis using assms(1) r Inr sr js by (auto simp: submit_as_def split: sum.splits)
  qed
qed

definition recoverable_row :: "int \<Rightarrow> job_run_row \<Rightarrow> bool" where
  "recoverable_row now r \<longleftrightarrow> jw_finished_at r = None \<and> jw_lease_free now r"

lemma close_row_journal:
  assumes "sy_journal sys = Some j" "jw_ok j"
  shows "sy_journal (close_row i ph reason processed now sys) = Some (jw_finish i ph (Some reason) processed None now j)"
    "jw_ok (jw_finish i ph (Some reason) processed None now j)"
  using assms by (simp_all add: close_row_def jw_finish_ok)

lemma recover_row_journal:
  assumes j: "sy_journal sys = Some j" "jw_ok j" and row: "jw_find j (jw_id row) = Some row" "recoverable_row now row"
  shows "\<exists>j'. sy_journal (recover_row v new_id now row sys) = Some j' \<and> jw_ok j' \<and>
    (\<forall>k r. k \<noteq> jw_id row \<longrightarrow> jw_find j k = Some r \<longrightarrow> jw_find j' k = Some r) \<and>
    (\<exists>r. jw_find j' (jw_id row) = Some r \<and> jw_finished_at r = Some now)"
proof -
  let ?post = "\<lambda>j'. jw_ok j' \<and> (\<forall>k r. k \<noteq> jw_id row \<longrightarrow> jw_find j k = Some r \<longrightarrow> jw_find j' k = Some r) \<and>
    (\<exists>r. jw_find j' (jw_id row) = Some r \<and> jw_finished_at r = Some now)"
  have close: "?post (jw_finish (jw_id row) ph (Some reason) processed None now j1)"
    if "jw_ok j1" "\<And>k r. k \<noteq> jw_id row \<Longrightarrow> jw_find j k = Some r \<Longrightarrow> jw_find j1 k = Some r" "jw_find j1 (jw_id row) \<noteq> None"
    for ph reason processed j1
    using that(1,2) jw_finish_self [OF that(3)] by (auto simp: jw_finish_ok jw_finish_other)
  let ?until = "lease_until queue_DEFAULT now"
  obtain j1 where c: "jw_claim (jw_id row) (jw_attempt row) now ?until j = (True, j1)"
    using jw_claim_fst [OF j(2), of "jw_id row" "jw_attempt row" now ?until] row
    by (metis jw_claimable_def prod.collapse recoverable_row_def)
  have j1: "jw_ok j1" "\<And>k r. k \<noteq> jw_id row \<Longrightarrow> jw_find j k = Some r \<Longrightarrow> jw_find j1 k = Some r" "jw_find j1 (jw_id row) \<noteq> None"
    using jw_claim_ok [OF j(2)] jw_claim_find [of "jw_id row" "jw_attempt row" now ?until j] c row(1)
    by (auto dest: jw_find_id) (metis snd_conv)
  show ?thesis
  proof (cases "\<exists>key. job_from_slug (jw_kind row) = Some key \<and>
      (case registry_get (sy_registry sys) key of Some spec \<Rightarrow> sp_durability spec = Durable | None \<Rightarrow> False)")
    case False
    then have "\<exists>reason. recover_row v new_id now row sys = close_row (jw_id row) ''interrupted'' reason None now sys"
      by (auto simp: recover_row_def split: option.splits)
    then show ?thesis using close_row_journal [OF j] close [OF j(2)] row(1) by fastforce
  next
    case True
    then obtain key where key: "job_from_slug (jw_kind row) = Some key"
        "case registry_get (sy_registry sys) key of Some spec \<Rightarrow> sp_durability spec = Durable | None \<Rightarrow> False" by blast
    define sub where "sub = \<lparr>su_id = new_id (jw_id row), su_origin = Startup, su_key = key, su_owner = jw_owner row,
       su_params = (case Option.bind (jw_params row) (sv_parse v) of Some p \<Rightarrow> p | None \<Rightarrow> VNull),
       su_summary = (if jw_summary row = [] then job_as_str key else jw_summary row) @ '' (recovered)'',
       su_expected_total = None, su_details = []\<rparr>"
    obtain res sys2 where sb: "submit_as v sub now now (\<lambda>s. s) (sys\<lparr>sy_journal := Some j1\<rparr>) = (res, sys2)" by fastforce
    have eq: "recover_row v new_id now row sys = (case res of
        Inr _ \<Rightarrow> close_row (jw_id row) ''interrupted'' ''recovered after a restart'' (jw_processed row) now sys2
      | Inl e \<Rightarrow> close_row (jw_id row) ''failed'' (''could not be recovered: '' @ display_error e) None now sys2)"
      using sb unfolding sub_def by (simp add: recover_row_def key j(1) c Let_def)
    obtain j2 where j2: "sy_journal sys2 = Some j2" "jw_ok j2" "\<forall>k r. jw_find j1 k = Some r \<longrightarrow> jw_find j2 k = Some r"
      using submit_as_journal [OF sb] j1(1) by auto
    have "?post (jw_finish (jw_id row) ph (Some reason) processed None now j2)" for ph reason processed
      by (rule close) (use j1 j2 in fastforce)+
    then show ?thesis using eq close_row_journal [OF j2(1,2)] by (cases res) simp_all
  qed
qed

lemma recover_fold:
  "sy_journal sys = Some j \<Longrightarrow> jw_ok j \<Longrightarrow> distinct (map jw_id rows) \<Longrightarrow>
   (\<And>row. row \<in> set rows \<Longrightarrow> jw_find j (jw_id row) = Some row \<and> recoverable_row now row) \<Longrightarrow>
   \<exists>j'. sy_journal (fold (recover_row v new_id now) rows sys) = Some j' \<and> jw_ok j' \<and>
     (\<forall>k r. k \<notin> jw_id ` set rows \<longrightarrow> jw_find j k = Some r \<longrightarrow> jw_find j' k = Some r) \<and>
     (\<forall>row\<in>set rows. \<exists>r. jw_find j' (jw_id row) = Some r \<and> jw_finished_at r = Some now)"
proof (induction rows arbitrary: sys j)
  case (Cons row rows)
  obtain j1 where j1: "sy_journal (recover_row v new_id now row sys) = Some j1" "jw_ok j1"
      "\<And>k r. k \<noteq> jw_id row \<Longrightarrow> jw_find j k = Some r \<Longrightarrow> jw_find j1 k = Some r"
      "\<exists>r. jw_find j1 (jw_id row) = Some r \<and> jw_finished_at r = Some now"
    using recover_row_journal [OF Cons.prems(1,2), of row now v new_id] Cons.prems(4) by auto
  have rest: "jw_find j1 (jw_id q) = Some q \<and> recoverable_row now q" if "q \<in> set rows" for q
  proof -
    have "jw_id q \<noteq> jw_id row" using that Cons.prems(3) by (auto simp: image_iff)
    then show ?thesis using j1(3) Cons.prems(4) that by auto
  qed
  obtain j' where j': "sy_journal (fold (recover_row v new_id now) rows (recover_row v new_id now row sys)) = Some j'" "jw_ok j'"
      "\<And>k r. k \<notin> jw_id ` set rows \<Longrightarrow> jw_find j1 k = Some r \<Longrightarrow> jw_find j' k = Some r"
      "\<And>q. q \<in> set rows \<Longrightarrow> \<exists>r. jw_find j' (jw_id q) = Some r \<and> jw_finished_at r = Some now"
    using Cons.IH [OF j1(1,2) _ rest] Cons.prems(3) by auto
  have "jw_id row \<notin> jw_id ` set rows" using Cons.prems(3) by simp
  then have "\<exists>r. jw_find j' (jw_id row) = Some r \<and> jw_finished_at r = Some now" using j'(3) j1(4) by blast
  moreover have "jw_find j' k = Some r" if "k \<notin> jw_id ` set (row # rows)" "jw_find j k = Some r" for k r
    using that j1(3) j'(3) by auto
  ultimately show ?case using j'(1,2,4) by auto
qed simp

lemma jw_recoverable_eq: "jw_recoverable j now n = take n (sort_key jw_created_at (filter (recoverable_row now) j))"
  by (simp add: jw_recoverable_def recoverable_row_def [abs_def])

lemma recoverable_rows:
  assumes "jw_ok j"
  shows "distinct (map jw_id (jw_recoverable j now n))"
    "row \<in> set (jw_recoverable j now n) \<Longrightarrow> jw_find j (jw_id row) = Some row \<and> recoverable_row now row"
proof -
  have "mset (map jw_id (sort_key jw_created_at (filter (recoverable_row now) j))) = mset (map jw_id (filter (recoverable_row now) j))"
    by simp
  moreover have "distinct (map jw_id (filter (recoverable_row now) j))" using assms by (simp add: jw_ok_def distinct_map_filter)
  ultimately have "distinct (map jw_id (sort_key jw_created_at (filter (recoverable_row now) j)))" by (metis mset_eq_imp_distinct_iff)
  then show "distinct (map jw_id (jw_recoverable j now n))"
    by (simp add: jw_recoverable_eq flip: take_map)
  show "row \<in> set (jw_recoverable j now n) \<Longrightarrow> jw_find j (jw_id row) = Some row \<and> recoverable_row now row"
    using assms by (auto simp: jw_recoverable_eq jw_find_iff dest!: in_set_takeD)
qed


definition demo_system :: TaskSystem where
  "demo_system = \<lparr>sy_registry = demo_registry, sy_store = new_run_store demo_limits, sy_cancels = [],
     sy_limits = \<lparr>tl_max_active_total = 5, tl_max_active_per_user = 2, tl_runs = demo_limits\<rparr>, sy_stats = [], sy_quiet = [],
     sy_journal = Some [(demo_job_row ''old'' 0)\<lparr>jw_kind := ''reindex'', jw_phase := ''running'', jw_finished_at := None, jw_lease_until := Some 300\<rparr>],
     sy_load_aware = True, sy_snapshot = \<lparr>ld_inflight_requests = 0, ld_background_active = 0, ld_db_in_use = 0, ld_db_max = 1,
       ld_worker_busy_pct = 0, ld_sampled_at = 1\<rparr>,
     sy_thresholds = \<lparr>lt_max_inflight_requests = 8, lt_db_within = (\<lambda>a b. 2 * a \<le> b), lt_max_worker_busy_pct = 70\<rparr>\<rparr>"

definition demo_sys_env :: system_env where
  "demo_sys_env = \<lparr>sv_task = demo_task_env, sv_to_string = (\<lambda>_. ''{}''), sv_parse = (\<lambda>_. Some VNull)\<rparr>"


theorem drive_leaves_record_witness:
  "\<exists>rep sys' j'. drive demo_sys_env demo_exec (demo_spec Reindex) (demo_run ''old'') 400 7 402 demo_system = (rep, sys') \<and>
     sy_journal sys' = Some j' \<and> (\<exists>row. jw_find j' ''old'' = Some row \<and> closed_as (rr_state rep) row)"
proof -
  obtain rep sys' where d: "drive demo_sys_env demo_exec (demo_spec Reindex) (demo_run ''old'') 400 7 402 demo_system = (rep, sys')"
    by fastforce
  obtain j where j: "sy_journal demo_system = Some j" "\<exists>row. jw_find j ''old'' = Some row"
    by (simp add: demo_system_def jw_find_def demo_job_row_def)
  have "journaled (demo_spec Reindex)" by (simp add: journaled_def demo_spec_def less_eq_Durability_def journals_from_the_start_def)
  then show ?thesis using drive_leaves_record [OF d j(1)] j(2) d by (auto simp: demo_run_def)
qed

text \<open>
  Recovery runs once, when the server starts, and a row keeps the lease it got when its run began. A
  server that crashes and is restarted within those five minutes leaves its durable run unfinished:
  it is neither replayed nor closed, and nothing in the new process looks at it again.
\<close>

theorem quick_restart_skips_recovery:
  "recover demo_sys_env (\<lambda>i. ''new-'' @ i) 299 demo_system = demo_system \<and>
   map jw_phase (the (sy_journal demo_system)) = [''running''] \<and>
   map (\<lambda>r. (jw_id r, jw_phase r)) (the (sy_journal (recover demo_sys_env (\<lambda>i. ''new-'' @ i) 300 demo_system))) =
     [(''old'', ''interrupted''), (''new-old'', ''queued'')]"
proof -
  have "jw_recoverable (the (sy_journal demo_system)) 299 50 = []" by code_simp
  then have "recover demo_sys_env (\<lambda>i. ''new-'' @ i) 299 demo_system = demo_system" by (simp add: recover_def demo_system_def)
  moreover have "map jw_phase (the (sy_journal demo_system)) = [''running'']" by code_simp
  moreover have "map (\<lambda>r. (jw_id r, jw_phase r)) (the (sy_journal (recover demo_sys_env (\<lambda>i. ''new-'' @ i) 300 demo_system))) =
     [(''old'', ''interrupted''), (''new-old'', ''queued'')]" by code_simp
  ultimately show ?thesis by blast
qed

section \<open>Cancellation\<close>

text \<open>
  Between its reservation and the end of its journal write a run can be seen and cancelled, but has
  no token yet. A cancellation that arrives then is answered with success and forgotten: the run
  starts with a token that is not cancelled.
\<close>

definition demo_submission :: Submission where
  "demo_submission = \<lparr>su_id = ''a'', su_origin = Request, su_key = Reindex, su_owner = Some 7, su_params = demo_params, su_summary = ''s'',
     su_expected_total = None, su_details = []\<rparr>"

theorem early_cancel_lost:
  "(case submit_run demo_sys_env demo_submission 5 demo_system of
      (Inr _, sys) \<Rightarrow> fst (cancel ''a'' (User 7 False) sys) = Inr () \<and> map_of (sy_cancels (snd (cancel ''a'' (User 7 False) sys))) ''a'' = None
    | _ \<Rightarrow> False) \<and>
   map_of (sy_cancels (snd (submit_as demo_sys_env demo_submission 5 5 (\<lambda>sys. snd (cancel ''a'' (User 7 False) sys)) demo_system))) ''a'' = Some False \<and>
   map_of (sy_cancels (snd (cancel ''a'' (User 7 False) (snd (submit_as demo_sys_env demo_submission 5 5 (\<lambda>s. s) demo_system))))) ''a'' = Some True"
proof -
  have "case submit_run demo_sys_env demo_submission 5 demo_system of
      (Inr _, sys) \<Rightarrow> fst (cancel ''a'' (User 7 False) sys) = Inr () \<and> map_of (sy_cancels (snd (cancel ''a'' (User 7 False) sys))) ''a'' = None
    | _ \<Rightarrow> False" by code_simp
  moreover have "map_of (sy_cancels (snd (submit_as demo_sys_env demo_submission 5 5 (\<lambda>sys. snd (cancel ''a'' (User 7 False) sys)) demo_system))) ''a'' = Some False"
    by code_simp
  moreover have "map_of (sy_cancels (snd (cancel ''a'' (User 7 False) (snd (submit_as demo_sys_env demo_submission 5 5 (\<lambda>s. s) demo_system))))) ''a'' = Some True"
    by code_simp
  ultimately show ?thesis by blast
qed

section \<open>Deferrable jobs\<close>

text \<open>
  What a job has seen: the load at each of its ticks. The calm window starts at the last busy
  observation, or at the first one when none was busy.
\<close>

definition window_start :: "(bool \<times> int) list \<Rightarrow> int option" where
  "window_start obs =
     (case filter (\<lambda>(calm, _). \<not> calm) obs of
        [] \<Rightarrow> (case obs of [] \<Rightarrow> None | (_, t) # _ \<Rightarrow> Some t)
      | bs \<Rightarrow> Some (snd (List.last bs)))"

lemma quiet_admits_window: "snd (quiet_admits calm m now (window_start obs)) = window_start (obs @ [(calm, now)])"
proof (cases calm)
  case True
  then show ?thesis
    by (cases obs) (auto simp: quiet_admits_def window_start_def Let_def split: list.splits option.splits if_splits)
next
  case False
  then show ?thesis by (cases "filter (\<lambda>(calm, _). \<not> calm) obs") (auto simp: quiet_admits_def window_start_def)
qed

definition ticks :: "JobSpec \<Rightarrow> (LoadSnapshot \<times> int) list \<Rightarrow> TaskSystem \<Rightarrow> TaskSystem" where
  "ticks spec obs sys = fold (\<lambda>(sn, now) sys. snd (admit spec now (sys\<lparr>sy_snapshot := sn\<rparr>))) obs sys"

lemma admit_quiet:
  assumes "sp_quiet spec = Some policy" "sy_load_aware sys" "is_fresh (sy_snapshot sys) MAX_SAMPLE_AGE now"
    and "qs_calm_since (quiet_of (sp_key spec) sys) = window_start obs"
  shows "qs_calm_since (quiet_of (sp_key spec) (snd (admit spec now sys))) =
      window_start (obs @ [(is_calm (sy_thresholds sys) (sy_snapshot sys), now)])"
    "sy_load_aware (snd (admit spec now sys))" "sy_thresholds (snd (admit spec now sys)) = sy_thresholds sys"
proof -
  obtain a since where q: "quiet_admits (is_calm (sy_thresholds sys) (sy_snapshot sys)) (qp_min_idle_for_secs policy) now (window_start obs) = (a, since)"
    by fastforce
  have since: "since = window_start (obs @ [(is_calm (sy_thresholds sys) (sy_snapshot sys), now)])"
    using quiet_admits_window [of _ _ now obs] q by (metis snd_conv)
  show "qs_calm_since (quiet_of (sp_key spec) (snd (admit spec now sys))) =
      window_start (obs @ [(is_calm (sy_thresholds sys) (sy_snapshot sys), now)])"
    using assms q since by (cases a) (auto simp: admit_def Let_def quiet_of_def)
  show "sy_load_aware (snd (admit spec now sys))" "sy_thresholds (snd (admit spec now sys)) = sy_thresholds sys"
    using assms q by (cases a; auto simp: admit_def Let_def)+
qed

lemma ticks_window:
  assumes "sp_quiet spec = Some policy"
  shows "sy_load_aware sys \<Longrightarrow> \<forall>(sn, now)\<in>set obs. is_fresh sn MAX_SAMPLE_AGE now \<Longrightarrow>
    qs_calm_since (quiet_of (sp_key spec) sys) = window_start seen \<Longrightarrow>
    sy_load_aware (ticks spec obs sys) \<and> sy_thresholds (ticks spec obs sys) = sy_thresholds sys \<and>
    qs_calm_since (quiet_of (sp_key spec) (ticks spec obs sys)) =
      window_start (seen @ map (\<lambda>(sn, now). (is_calm (sy_thresholds sys) sn, now)) obs)"
proof (induction obs arbitrary: sys seen)
  case (Cons ob obs)
  obtain sn now where ob: "ob = (sn, now)" by fastforce
  let ?sys = "sys\<lparr>sy_snapshot := sn\<rparr>"
  have "qs_calm_since (quiet_of (sp_key spec) ?sys) = window_start seen" using Cons.prems(3) by (simp add: quiet_of_def)
  note a = admit_quiet [OF assms, of ?sys now seen, simplified, OF Cons.prems(1) _ this]
  have fresh: "is_fresh sn MAX_SAMPLE_AGE now" using Cons.prems(2) ob by simp
  show ?case using Cons.IH [OF a(2) [OF fresh] _ a(1) [OF fresh]] Cons.prems(2) a(3) [OF fresh] ob by (simp add: ticks_def)
qed (simp add: ticks_def)

text \<open>
  The verdicts of a job's ticks with their times. A deferral that goes on started at the first of the
  uninterrupted deferrals at the end of this log.
\<close>

fun tick_log :: "JobSpec \<Rightarrow> (LoadSnapshot \<times> int) list \<Rightarrow> TaskSystem \<Rightarrow> (LoadAdmission \<times> int) list" where
  "tick_log spec [] sys = []"
| "tick_log spec ((sn, now) # obs) sys =
     (case admit spec now (sys\<lparr>sy_snapshot := sn\<rparr>) of (a, sys') \<Rightarrow> (a, now) # tick_log spec obs sys')"

definition deferred_start :: "(LoadAdmission \<times> int) list \<Rightarrow> int option" where
  "deferred_start log =
     (case takeWhile (\<lambda>(a, _). a = Defer) (rev log) of [] \<Rightarrow> None | ds \<Rightarrow> Some (snd (List.last ds)))"

lemma deferred_start_snoc [simp]:
  "deferred_start (log @ [(Allow, now)]) = None"
  "deferred_start (log @ [(Defer, now)]) = Some (case deferred_start log of Some t \<Rightarrow> t | None \<Rightarrow> now)"
  by (auto simp: deferred_start_def split: list.splits)

lemma admit_deferred:
  assumes "sp_quiet spec = Some policy" "sy_load_aware sys" "is_fresh (sy_snapshot sys) MAX_SAMPLE_AGE now"
    and "admit spec now sys = (a, sys')"
  shows "qs_deferred_since (quiet_of (sp_key spec) sys') =
    (if a = Allow then None else Some (case qs_deferred_since (quiet_of (sp_key spec) sys) of Some t \<Rightarrow> t | None \<Rightarrow> now))"
proof -
  obtain b since where "quiet_admits (is_calm (sy_thresholds sys) (sy_snapshot sys)) (qp_min_idle_for_secs policy) now
      (qs_calm_since (quiet_of (sp_key spec) sys)) = (b, since)" by fastforce
  then show ?thesis using assms by (cases b) (auto simp: admit_def Let_def quiet_of_def split: if_splits)
qed

lemma ticks_deferred:
  assumes "sp_quiet spec = Some policy"
  shows "sy_load_aware sys \<Longrightarrow> \<forall>(sn, now)\<in>set obs. is_fresh sn MAX_SAMPLE_AGE now \<Longrightarrow>
    qs_deferred_since (quiet_of (sp_key spec) sys) = deferred_start log \<Longrightarrow>
    qs_deferred_since (quiet_of (sp_key spec) (ticks spec obs sys)) = deferred_start (log @ tick_log spec obs sys)"
proof (induction obs arbitrary: sys log)
  case (Cons ob obs)
  obtain sn now where ob: "ob = (sn, now)" by fastforce
  let ?sys = "sys\<lparr>sy_snapshot := sn\<rparr>"
  obtain a sys' where a: "admit spec now ?sys = (a, sys')" by fastforce
  have fresh: "is_fresh (sy_snapshot ?sys) MAX_SAMPLE_AGE now" using Cons.prems(2) ob by simp
  have "qs_deferred_since (quiet_of (sp_key spec) sys') = deferred_start (log @ [(a, now)])"
    using admit_deferred [OF assms _ fresh a] Cons.prems(1,3) by (cases a) (auto simp: quiet_of_def)
  moreover have "sy_load_aware sys'"
    using a Cons.prems(1) assms by (auto simp: admit_def Let_def split: if_splits prod.splits LoadAdmission.splits)
  ultimately show ?case using Cons.IH [of sys' "log @ [(a, now)]"] Cons.prems(2) ob a by (simp add: ticks_def)
qed (simp add: ticks_def)


definition demo_quiet_spec :: JobSpec where
  "demo_quiet_spec = (demo_spec GarbageCollection)\<lparr>sp_priority := Background,
     sp_quiet := Some \<lparr>qp_min_idle_for_secs = 60, qp_max_deferral_hours = 24, qp_on_spike = YieldOnSpike\<rparr>\<rparr>"

definition demo_load :: "int \<Rightarrow> int \<Rightarrow> LoadSnapshot" where
  "demo_load inflight t = (sy_snapshot demo_system)\<lparr>ld_inflight_requests := inflight, ld_sampled_at := t\<rparr>"


text \<open>
  The length of a deferral is a signed number of seconds cast to an unsigned number of hours. After
  the clock is set back by an hour or more, a job that has just been deferred reads as deferred for
  longer than any cap and is started on a busy server.
\<close>

theorem clock_step_forces_job:
  "waited_hours 1000 4600 = 2 ^ 64 - 1 \<and>
   (let spec = demo_quiet_spec\<lparr>sp_force_safe := True\<rparr>;
        sys = ticks spec [(demo_load 99 4600, 4600)] demo_system
    in fst (admit spec 1000 (sys\<lparr>sy_snapshot := demo_load 99 1000\<rparr>)) = Allow \<and>
       \<not> is_calm (sy_thresholds demo_system) (demo_load 99 1000) \<and>
       fst (admit spec 4700 (sys\<lparr>sy_snapshot := demo_load 99 4700\<rparr>)) = Defer)"
  by code_simp

end
