(* ===== verification/BlockStore.thy ===== *)
theory BlockStore
  imports Prelude
begin

text \<open>
  The file-system block store (\<open>infra/src/storage/mod.rs\<close>, \<open>infra/src/storage/block_store.rs\<close>): one file
  per block below the directory of its library, published from a temporary file, with a cache of
  recent presence checks.

  The tree below the block root is an association list from paths (lists of segments) to contents; its
  order stands for the order in which the system lists a directory. Directories are implicit. The file
  system distinguishes upper and lower case. SHA-1, the clock and the random suffix of a temporary file
  are arguments, and so is whether the file system has hard links; the only I/O error that is modelled
  is a missing file. Modification times are not modelled.
\<close>

section \<open>Paths and ids\<close>

datatype io_error = IoNotFound | InvalidInput string | InvalidData string | IoOther string

fun io_display :: "io_error \<Rightarrow> string" where
  "io_display IoNotFound = ''No such file or directory (os error 2)''"
| "io_display (InvalidInput m) = m"
| "io_display (InvalidData m) = m"
| "io_display (IoOther m) = m"

record block_env =
  bv_sha1 :: "string \<Rightarrow> string"
  bv_hard_links :: bool

definition REPOS_DIR :: string where
  "REPOS_DIR = ''repos''"

definition REPO_MARKER_FILE :: string where
  "REPO_MARKER_FILE = ''.repo_id''"

definition LAYOUT_MARKER_FILE :: string where
  "LAYOUT_MARKER_FILE = ''.block_layout''"

definition LAYOUT_VERSION :: string where
  "LAYOUT_VERSION = ''v2''"

definition MAX_BLOCK_PREFIX_LEN :: int where
  "MAX_BLOCK_PREFIX_LEN = 64 * 1024"

definition EXISTS_CACHE_CAPACITY :: int where
  "EXISTS_CACHE_CAPACITY = 32000"

text \<open>In nanoseconds.\<close>

definition EXISTS_CACHE_TTL :: int where
  "EXISTS_CACHE_TTL = 60 * 1000000000"

definition hexdigit :: "char \<Rightarrow> bool" where
  "hexdigit c \<longleftrightarrow> c \<in> set ''0123456789abcdefABCDEF''"

definition is_valid_block_id :: "string \<Rightarrow> bool" where
  "is_valid_block_id block_id \<longleftrightarrow> length block_id = 40 \<and> list_all hexdigit block_id"

definition repo_dir :: "block_env \<Rightarrow> string \<Rightarrow> string list" where
  "repo_dir e repo_id = [REPOS_DIR, bv_sha1 e repo_id]"

text \<open>\<open>get(..2)\<close> of a shorter id is the id itself.\<close>

definition block_path :: "block_env \<Rightarrow> string \<Rightarrow> string \<Rightarrow> string list" where
  "block_path e repo_id block_id = repo_dir e repo_id @ [take 2 block_id, block_id]"

definition invalid_block_id :: io_error where
  "invalid_block_id = InvalidInput ''invalid block id''"

section \<open>The presence cache\<close>

record BlockKey =
  bk_repo :: string
  bk_block :: "nat list"
  bk_valid :: bool

text \<open>\<open>hex::decode_to_slice\<close>: pairs of digits in either case.\<close>

definition hex_value :: "char \<Rightarrow> nat option" where
  "hex_value c = map_of (zip ''0123456789abcdefABCDEF'' ([0..<16] @ [10..<16])) c"

fun hex_decode :: "string \<Rightarrow> nat list option" where
  "hex_decode [] = Some []"
| "hex_decode [c] = None"
| "hex_decode (a # b # cs) =
     (case (hex_value a, hex_value b, hex_decode cs) of
        (Some x, Some y, Some ns) \<Rightarrow> Some ((16 * x + y) # ns)
      | _ \<Rightarrow> None)"

definition cache_key :: "block_env \<Rightarrow> string \<Rightarrow> string \<Rightarrow> BlockKey" where
  "cache_key e repo_id block_id =
     (case (if length block_id = 40 then hex_decode block_id else None) of
        Some ns \<Rightarrow> \<lparr>bk_repo = bv_sha1 e repo_id, bk_block = ns, bk_valid = True\<rparr>
      | None \<Rightarrow> \<lparr>bk_repo = bv_sha1 e repo_id, bk_block = [], bk_valid = False\<rparr>)"

record BlockStorage =
  bs_files :: "(string list \<times> string) list"
  bs_prepared_repos :: "string list"
  bs_exists_cache :: "(BlockKey \<times> int \<times> nat) list"

definition evict_expired :: "int \<Rightarrow> (BlockKey \<times> int \<times> nat) list \<Rightarrow> (BlockKey \<times> int \<times> nat) list" where
  "evict_expired now cache = filter (\<lambda>(_, at, _). now - at < EXISTS_CACHE_TTL) cache"

definition exists_cache_len :: "block_env \<Rightarrow> int \<Rightarrow> string \<Rightarrow> string \<Rightarrow> BlockStorage \<Rightarrow> nat option" where
  "exists_cache_len e now repo_id block_id s =
     (let key = cache_key e repo_id block_id in
      if \<not> bk_valid key then None
      else case map_of (bs_exists_cache s) key of
             Some (at, len) \<Rightarrow> if now - at < EXISTS_CACHE_TTL then Some len else None
           | None \<Rightarrow> None)"

definition exists_cache_contains :: "block_env \<Rightarrow> int \<Rightarrow> string \<Rightarrow> string \<Rightarrow> BlockStorage \<Rightarrow> bool" where
  "exists_cache_contains e now repo_id block_id s \<longleftrightarrow> exists_cache_len e now repo_id block_id s \<noteq> None"

definition exists_cache_insert :: "block_env \<Rightarrow> int \<Rightarrow> string \<Rightarrow> string \<Rightarrow> nat \<Rightarrow> BlockStorage \<Rightarrow> BlockStorage" where
  "exists_cache_insert e now repo_id block_id stored_len s =
     (let key = cache_key e repo_id block_id in
      if \<not> bk_valid key then s
      else
        let cache = bs_exists_cache s;
            cache = (if int (length cache) \<ge> EXISTS_CACHE_CAPACITY
                     then let fresh = evict_expired now cache in
                          if int (length fresh) \<ge> EXISTS_CACHE_CAPACITY then [] else fresh
                     else cache)
        in s\<lparr>bs_exists_cache := hm_insert key (now, stored_len) cache\<rparr>)"

definition exists_cache_remove :: "block_env \<Rightarrow> string \<Rightarrow> string \<Rightarrow> BlockStorage \<Rightarrow> BlockStorage" where
  "exists_cache_remove e repo_id block_id s =
     (let key = cache_key e repo_id block_id in
      if \<not> bk_valid key then s else s\<lparr>bs_exists_cache := hm_remove key (bs_exists_cache s)\<rparr>)"

definition invalidate_exists_cache :: "BlockStorage \<Rightarrow> BlockStorage" where
  "invalidate_exists_cache s = s\<lparr>bs_exists_cache := []\<rparr>"

section \<open>Writing\<close>

definition new_block_storage :: BlockStorage where
  "new_block_storage = \<lparr>bs_files = [], bs_prepared_repos = [], bs_exists_cache = []\<rparr>"

definition put_file :: "string list \<Rightarrow> string \<Rightarrow> BlockStorage \<Rightarrow> BlockStorage" where
  "put_file path data s = s\<lparr>bs_files := hm_insert path data (bs_files s)\<rparr>"

definition drop_file :: "string list \<Rightarrow> BlockStorage \<Rightarrow> BlockStorage" where
  "drop_file path s = s\<lparr>bs_files := hm_remove path (bs_files s)\<rparr>"

definition file_at :: "BlockStorage \<Rightarrow> string list \<Rightarrow> string option" where
  "file_at s path = map_of (bs_files s) path"

definition ensure_repo_dirs :: "block_env \<Rightarrow> string \<Rightarrow> BlockStorage \<Rightarrow> BlockStorage" where
  "ensure_repo_dirs e repo_id s =
     (if repo_id \<in> set (bs_prepared_repos s) then s
      else (put_file (repo_dir e repo_id @ [REPO_MARKER_FILE]) repo_id s)
             \<lparr>bs_prepared_repos := repo_id # bs_prepared_repos s\<rparr>)"

definition tmp_path :: "block_env \<Rightarrow> string \<Rightarrow> string \<Rightarrow> string \<Rightarrow> string list" where
  "tmp_path e u repo_id block_id =
     butlast (block_path e repo_id block_id) @ [block_id @ ''.'' @ u @ ''.tmp'']"

definition stage_block :: "block_env \<Rightarrow> string \<Rightarrow> string \<Rightarrow> string \<Rightarrow> string \<Rightarrow> BlockStorage \<Rightarrow> BlockStorage" where
  "stage_block e u repo_id block_id data s =
     put_file (tmp_path e u repo_id block_id) data (ensure_repo_dirs e repo_id s)"

definition rename_file :: "string list \<Rightarrow> string list \<Rightarrow> BlockStorage \<Rightarrow> (io_error + unit) \<times> BlockStorage" where
  "rename_file from to s =
     (case file_at s from of
        None \<Rightarrow> (Inl IoNotFound, s)
      | Some d \<Rightarrow> (Inr (), put_file to d (drop_file from s)))"

definition publish_block :: "block_env \<Rightarrow> string list \<Rightarrow> string list \<Rightarrow> BlockStorage \<Rightarrow> (io_error + bool) \<times> BlockStorage" where
  "publish_block e tmp path s =
     (if bv_hard_links e
      then (case (file_at s tmp, file_at s path) of
              (None, _) \<Rightarrow> (Inl IoNotFound, s)
            | (Some d, None) \<Rightarrow> (Inr True, put_file path d s)
            | (Some d, Some _) \<Rightarrow> (Inr False, s))
      else let existed = (file_at s path \<noteq> None) in
           (case rename_file tmp path s of
              (Inl err, s) \<Rightarrow> (Inl err, s)
            | (Inr _, s) \<Rightarrow> (Inr (\<not> existed), s)))"

definition store_block ::
    "block_env \<Rightarrow> int \<Rightarrow> string \<Rightarrow> string \<Rightarrow> string \<Rightarrow> string \<Rightarrow> bool \<Rightarrow> BlockStorage \<Rightarrow> (io_error + bool) \<times> BlockStorage" where
  "store_block e now u repo_id block_id data exclusive s =
     (let s = stage_block e u repo_id block_id data s;
          tmp = tmp_path e u repo_id block_id;
          path = block_path e repo_id block_id
      in
      (case (if exclusive then publish_block e tmp path s
             else (case rename_file tmp path s of (r, s) \<Rightarrow> (map_sum id (\<lambda>_. True) r, s))) of
         (result, s) \<Rightarrow>
           let s = drop_file tmp s in
           (case result of
              Inl err \<Rightarrow> (Inl err, s)
            | Inr was_new \<Rightarrow> (Inr was_new, exists_cache_insert e now repo_id block_id (length data) s))))"

section \<open>The operations of the backend\<close>

definition has_block :: "block_env \<Rightarrow> int \<Rightarrow> string \<Rightarrow> string \<Rightarrow> BlockStorage \<Rightarrow> bool \<times> BlockStorage" where
  "has_block e now repo_id block_id s =
     (if \<not> is_valid_block_id block_id then (False, s)
      else if exists_cache_contains e now repo_id block_id s then (True, s)
      else case file_at s (block_path e repo_id block_id) of
             Some d \<Rightarrow> (True, exists_cache_insert e now repo_id block_id (length d) s)
           | None \<Rightarrow> (False, s))"

definition read_block :: "block_env \<Rightarrow> string \<Rightarrow> string \<Rightarrow> BlockStorage \<Rightarrow> io_error + string" where
  "read_block e repo_id block_id s =
     (if \<not> is_valid_block_id block_id then Inl invalid_block_id
      else ok_or IoNotFound (file_at s (block_path e repo_id block_id)))"

definition read_block_prefix :: "block_env \<Rightarrow> string \<Rightarrow> string \<Rightarrow> nat \<Rightarrow> BlockStorage \<Rightarrow> io_error + string" where
  "read_block_prefix e repo_id block_id mx s =
     (if \<not> is_valid_block_id block_id then Inl invalid_block_id
      else
        let want = min (int mx) MAX_BLOCK_PREFIX_LEN in
        if want = 0 then Inr []
        else rbind (ok_or IoNotFound (file_at s (block_path e repo_id block_id))) (\<lambda>d. Inr (take (nat want) d)))"

definition write_block_with_id ::
    "block_env \<Rightarrow> int \<Rightarrow> string \<Rightarrow> string \<Rightarrow> string \<Rightarrow> string \<Rightarrow> BlockStorage \<Rightarrow> (io_error + string) \<times> BlockStorage" where
  "write_block_with_id e now u repo_id block_id data s =
     (if \<not> is_valid_block_id block_id then (Inl invalid_block_id, s)
      else if exists_cache_len e now repo_id block_id s = Some (length data) then (Inr block_id, s)
      else
        let stored = file_at s (block_path e repo_id block_id) in
        if map_option length stored = Some (length data)
        then (Inr block_id, exists_cache_insert e now repo_id block_id (length data) s)
        else (case store_block e now u repo_id block_id data (stored = None) s of
                (r, s) \<Rightarrow> (map_sum id (\<lambda>_. block_id) r, s)))"

definition write_block :: "block_env \<Rightarrow> int \<Rightarrow> string \<Rightarrow> string \<Rightarrow> string \<Rightarrow> BlockStorage \<Rightarrow> (io_error + string) \<times> BlockStorage" where
  "write_block e now u repo_id data s = write_block_with_id e now u repo_id (bv_sha1 e data) data s"

definition write_block_with_id_force ::
    "block_env \<Rightarrow> int \<Rightarrow> string \<Rightarrow> string \<Rightarrow> string \<Rightarrow> string \<Rightarrow> BlockStorage \<Rightarrow> (io_error + string) \<times> BlockStorage" where
  "write_block_with_id_force e now u repo_id block_id data s =
     (if \<not> is_valid_block_id block_id then (Inl invalid_block_id, s)
      else (case store_block e now u repo_id block_id data False s of
              (r, s) \<Rightarrow> (map_sum id (\<lambda>_. block_id) r, s)))"

definition write_block_with_id_tracked ::
    "block_env \<Rightarrow> int \<Rightarrow> string \<Rightarrow> string \<Rightarrow> string \<Rightarrow> string \<Rightarrow> BlockStorage \<Rightarrow> (io_error + string \<times> bool) \<times> BlockStorage" where
  "write_block_with_id_tracked e now u repo_id block_id data s =
     (if \<not> is_valid_block_id block_id then (Inl invalid_block_id, s)
      else if exists_cache_len e now repo_id block_id s = Some (length data) then (Inr (block_id, False), s)
      else
        let stored = file_at s (block_path e repo_id block_id) in
        if stored \<noteq> None \<and> map_option length stored \<noteq> Some (length data)
        then (case store_block e now u repo_id block_id data False s of
                (r, s) \<Rightarrow> (map_sum id (\<lambda>_. (block_id, True)) r, s))
        else (case store_block e now u repo_id block_id data True s of
                (r, s) \<Rightarrow> (map_sum id (Pair block_id) r, s)))"

text \<open>
  Removal is two steps that other requests can come between: the file goes first, then the cached
  presence.
\<close>

definition remove_file :: "block_env \<Rightarrow> string \<Rightarrow> string \<Rightarrow> BlockStorage \<Rightarrow> BlockStorage" where
  "remove_file e repo_id block_id s =
     (if \<not> is_valid_block_id block_id then s else drop_file (block_path e repo_id block_id) s)"

definition bs_remove_block :: "block_env \<Rightarrow> (BlockStorage \<Rightarrow> BlockStorage) \<Rightarrow> string \<Rightarrow> string \<Rightarrow> BlockStorage \<Rightarrow> BlockStorage" where
  "bs_remove_block e others repo_id block_id s =
     (if \<not> is_valid_block_id block_id then s
      else exists_cache_remove e repo_id block_id (others (remove_file e repo_id block_id s)))"

definition block_size :: "block_env \<Rightarrow> int \<Rightarrow> string \<Rightarrow> string \<Rightarrow> BlockStorage \<Rightarrow> (io_error + int) \<times> BlockStorage" where
  "block_size e now repo_id block_id s =
     (if \<not> is_valid_block_id block_id then (Inl invalid_block_id, s)
      else case file_at s (block_path e repo_id block_id) of
             None \<Rightarrow> (Inl IoNotFound, s)
           | Some d \<Rightarrow> (Inr (int (length d)), exists_cache_insert e now repo_id block_id (length d) s))"

text \<open>The files a directory walk of one library yields, and the libraries whose marker can be read.\<close>

fun block_name :: "string list \<Rightarrow> string list \<Rightarrow> string list" where
  "block_name dir [a, b, p, name] = (if [a, b] = dir \<and> length p = 2 \<and> is_valid_block_id name then [name] else [])"
| "block_name dir _ = []"

definition list_blocks :: "block_env \<Rightarrow> string \<Rightarrow> BlockStorage \<Rightarrow> string list" where
  "list_blocks e repo_id s = concat (map (\<lambda>(path, _). block_name (repo_dir e repo_id) path) (bs_files s))"

fun repo_marker :: "string list \<times> string \<Rightarrow> (string \<times> string list) list" where
  "repo_marker ([a, b, m], d) = (if a = REPOS_DIR \<and> m = REPO_MARKER_FILE \<and> trim d \<noteq> [] then [(trim d, [a, b])] else [])"
| "repo_marker _ = []"

definition repo_dirs :: "BlockStorage \<Rightarrow> (string \<times> string list) list" where
  "repo_dirs s = concat (map repo_marker (bs_files s))"

section \<open>Ids, paths and cache keys\<close>

definition lower_hex :: string where
  "lower_hex = ''0123456789abcdef''"

definition canonical_id :: "string \<Rightarrow> bool" where
  "canonical_id i \<longleftrightarrow> length i = 40 \<and> set i \<subseteq> set lower_hex"

lemma lower_hex_digit: "c \<in> set lower_hex \<Longrightarrow> hexdigit c"
proof -
  have "list_all hexdigit lower_hex" by code_simp
  then show "c \<in> set lower_hex \<Longrightarrow> hexdigit c" by (auto simp: list_all_iff)
qed

lemma canonical_valid: "canonical_id i \<Longrightarrow> is_valid_block_id i"
  using lower_hex_digit by (auto simp: canonical_id_def is_valid_block_id_def list_all_iff)

lemma block_path_eq: "block_path e r i = block_path e r' j \<longleftrightarrow> bv_sha1 e r = bv_sha1 e r' \<and> i = j"
  by (auto simp: block_path_def repo_dir_def)

lemma tmp_not_block: "is_valid_block_id i \<Longrightarrow> is_valid_block_id j \<Longrightarrow> tmp_path e u r i \<noteq> block_path e r' j"
  by (auto simp: tmp_path_def block_path_def repo_dir_def is_valid_block_id_def)

lemma marker_not_block: "repo_dir e r @ [m] \<noteq> block_path e r' j"
  by (simp add: block_path_def repo_dir_def)

lemma hex_value_inj:
  assumes "a \<in> set lower_hex" "b \<in> set lower_hex" "hex_value a = hex_value b"
  shows "a = b"
proof -
  have "list_all (\<lambda>a. list_all (\<lambda>b. hex_value a = hex_value b \<longrightarrow> a = b) lower_hex) lower_hex" by code_simp
  then show ?thesis using assms by (auto simp: list_all_iff)
qed

lemma hex_value_bound:
  assumes "hex_value a = Some x"
  shows "x < 16"
proof -
  have "x \<in> set ([0..<16] @ [10..<16])" using assms unfolding hex_value_def by (meson map_of_SomeD set_zip_rightD)
  then show ?thesis by auto
qed

lemma hex_decode_inj:
  "set i \<subseteq> set lower_hex \<Longrightarrow> set j \<subseteq> set lower_hex \<Longrightarrow>
   hex_decode i = Some ns \<Longrightarrow> hex_decode j = Some ns \<Longrightarrow> i = j"
proof (induction i arbitrary: j ns rule: hex_decode.induct)
  case (3 a b cs)
  obtain x y ms where i: "hex_value a = Some x" "hex_value b = Some y" "hex_decode cs = Some ms" "ns = (16 * x + y) # ms"
    using 3(4) by (auto split: option.splits)
  then obtain a' b' cs' where j: "j = a' # b' # cs'" using 3(5) by (cases j rule: hex_decode.cases) auto
  then obtain x' y' where j': "hex_value a' = Some x'" "hex_value b' = Some y'" "hex_decode cs' = Some ms" "16 * x' + y' = 16 * x + y"
    using 3(5) i(4) by (auto split: option.splits)
  have y: "y < 16" "y' < 16" using i(2) j'(2) by (auto dest: hex_value_bound)
  then have "(16 * x + y) div 16 = x" "(16 * x' + y') div 16 = x'" by simp_all
  then have "x = x'" "y = y'" using j'(4) by simp_all
  then have "a = a'" "b = b'"
    using hex_value_inj [of a a'] hex_value_inj [of b b'] 3(2,3) i(1,2) j'(1,2) unfolding j by simp_all
  moreover have "cs = cs'" using "3.IH" [of cs' ms] 3(2,3) i(3) j'(3) unfolding j by simp
  ultimately show ?case using j by simp
next
  case 1
  then show ?case by (cases j rule: hex_decode.cases) (auto split: option.splits)
qed simp

lemma cache_key_eq:
  assumes "canonical_id i" "canonical_id j" "bk_valid (cache_key e r i)" "cache_key e r i = cache_key e r' j"
  shows "bv_sha1 e r = bv_sha1 e r' \<and> i = j"
proof -
  obtain ns where "hex_decode i = Some ns" "hex_decode j = Some ns" "bv_sha1 e r = bv_sha1 e r'"
    using assms by (auto simp: cache_key_def canonical_id_def split: option.splits)
  then show ?thesis using hex_decode_inj assms(1,2) by (auto simp: canonical_id_def)
qed

lemma same_path_key: "block_path e r i = block_path e r' j \<Longrightarrow> cache_key e r i = cache_key e r' j"
  unfolding block_path_eq cache_key_def by (elim conjE) (simp only:)

section \<open>Effect of a write on the files\<close>

lemma file_at_simps [simp]:
  "file_at (put_file p d s) q = (if q = p then Some d else file_at s q)"
  "file_at (drop_file p s) q = (if q = p then None else file_at s q)"
  "file_at (exists_cache_insert e now r i n s) q = file_at s q"
  "file_at (exists_cache_remove e r i s) q = file_at s q"
  "file_at (invalidate_exists_cache s) q = file_at s q"
  "file_at (s\<lparr>bs_prepared_repos := ps\<rparr>) q = file_at s q"
  by (simp_all add: file_at_def put_file_def drop_file_def exists_cache_insert_def exists_cache_remove_def
      invalidate_exists_cache_def Let_def)

lemma file_at_ensure [simp]: "file_at (ensure_repo_dirs e r s) (block_path e r' j) = file_at s (block_path e r' j)"
  by (auto simp: ensure_repo_dirs_def marker_not_block [symmetric])

lemma cache_simps [simp]:
  "bs_exists_cache (put_file p d s) = bs_exists_cache s" "bs_exists_cache (drop_file p s) = bs_exists_cache s"
  "bs_exists_cache (ensure_repo_dirs e r s) = bs_exists_cache s"
  by (simp_all add: put_file_def drop_file_def ensure_repo_dirs_def)

lemma store_block_effect:
  assumes "is_valid_block_id i" "store_block e now u r i data exclusive s = (res, s')"
  obtains was_new s1 where "res = Inr was_new" "s' = exists_cache_insert e now r i (length data) s1"
    "bs_exists_cache s1 = bs_exists_cache s"
    "was_new \<longleftrightarrow> \<not> exclusive \<or> file_at s (block_path e r i) = None"
    "\<And>r' j. is_valid_block_id j \<Longrightarrow> file_at s1 (block_path e r' j) =
       (if block_path e r' j = block_path e r i \<and> (was_new \<or> \<not> bv_hard_links e) then Some data
        else file_at s (block_path e r' j))"
proof -
  let ?tmp = "tmp_path e u r i" and ?path = "block_path e r i"
  have ne: "is_valid_block_id j \<Longrightarrow> block_path e r' j \<noteq> ?tmp" for r' j using tmp_not_block assms(1) by metis
  define s0 where "s0 = stage_block e u r i data s"
  have s0: "file_at s0 ?tmp = Some data" "bs_exists_cache s0 = bs_exists_cache s"
      "\<And>r' j. is_valid_block_id j \<Longrightarrow> file_at s0 (block_path e r' j) = file_at s (block_path e r' j)"
    using ne by (auto simp: s0_def stage_block_def)
  define s1 where "s1 = drop_file ?tmp (if exclusive \<and> bv_hard_links e \<and> file_at s ?path \<noteq> None then s0
      else if exclusive \<and> bv_hard_links e then put_file ?path data s0 else put_file ?path data (drop_file ?tmp s0))"
  have res: "res = Inr (\<not> exclusive \<or> file_at s ?path = None)" "s' = exists_cache_insert e now r i (length data) s1"
    using assms(2) s0(1) s0(3) [OF assms(1), of r]
    by (cases exclusive; cases "bv_hard_links e"; cases "file_at s ?path";
        simp add: store_block_def s0_def [symmetric] publish_block_def rename_file_def s1_def Let_def)+
  show thesis
    by (rule that [OF res]) (auto simp: s1_def s0(2) s0(3) ne ne [of i r, OF assms(1)])
qed

section \<open>The invariant of the store\<close>

text \<open>
  A cached presence is true and has the right length, for ids in the canonical spelling, and only such
  ids are stored.
\<close>

definition store_inv :: "block_env \<Rightarrow> BlockStorage \<Rightarrow> bool" where
  "store_inv e s \<longleftrightarrow> distinct (map fst (bs_exists_cache s)) \<and>
     (\<forall>r i at len. canonical_id i \<longrightarrow> bk_valid (cache_key e r i) \<longrightarrow>
        map_of (bs_exists_cache s) (cache_key e r i) = Some (at, len) \<longrightarrow>
        map_option length (file_at s (block_path e r i)) = Some len) \<and>
     (\<forall>r i. is_valid_block_id i \<longrightarrow> file_at s (block_path e r i) \<noteq> None \<longrightarrow> canonical_id i)"

lemma store_invD:
  assumes "store_inv e s"
  shows "distinct (map fst (bs_exists_cache s))"
    "canonical_id i \<Longrightarrow> bk_valid (cache_key e r i) \<Longrightarrow> map_of (bs_exists_cache s) (cache_key e r i) = Some (at, len) \<Longrightarrow>
       map_option length (file_at s (block_path e r i)) = Some len"
    "is_valid_block_id i \<Longrightarrow> file_at s (block_path e r i) = Some d \<Longrightarrow> canonical_id i"
  using assms unfolding store_inv_def by blast+

lemma map_of_filter_distinct:
  "distinct (map fst m) \<Longrightarrow> map_of (filter P m) k = Some v \<Longrightarrow> map_of m k = Some v"
  by (metis (no_types) distinct_map_filter filter_is_subset map_of_SomeD map_of_is_SomeI subsetD)

lemma cache_insert_cases:
  assumes "distinct (map fst (bs_exists_cache s))"
  shows "distinct (map fst (bs_exists_cache (exists_cache_insert e now r i n s)))"
    "map_of (bs_exists_cache (exists_cache_insert e now r i n s)) k = Some v \<Longrightarrow>
       bk_valid (cache_key e r i) \<and> k = cache_key e r i \<and> v = (now, n) \<or>
       (bk_valid (cache_key e r i) \<longrightarrow> k \<noteq> cache_key e r i) \<and> map_of (bs_exists_cache s) k = Some v"
proof -
  define m where "m = (if int (length (bs_exists_cache s)) \<ge> EXISTS_CACHE_CAPACITY
      then let fresh = evict_expired now (bs_exists_cache s) in if int (length fresh) \<ge> EXISTS_CACHE_CAPACITY then [] else fresh
      else bs_exists_cache s)"
  have eq: "bs_exists_cache (exists_cache_insert e now r i n s) =
      (if bk_valid (cache_key e r i) then hm_insert (cache_key e r i) (now, n) m else bs_exists_cache s)"
    by (simp add: exists_cache_insert_def m_def Let_def)
  have m: "distinct (map fst m)" "map_of m k = Some v \<Longrightarrow> map_of (bs_exists_cache s) k = Some v"
    using assms map_of_filter_distinct
    by (auto simp: m_def Let_def evict_expired_def distinct_map_filter split: if_splits)
  show "distinct (map fst (bs_exists_cache (exists_cache_insert e now r i n s)))" using eq m(1) assms by simp
  show "map_of (bs_exists_cache (exists_cache_insert e now r i n s)) k = Some v \<Longrightarrow>
       bk_valid (cache_key e r i) \<and> k = cache_key e r i \<and> v = (now, n) \<or>
       (bk_valid (cache_key e r i) \<longrightarrow> k \<noteq> cache_key e r i) \<and> map_of (bs_exists_cache s) k = Some v"
    using eq m(2) by (auto simp del: map_of_eq_Some_iff split: if_splits)
qed

lemma inv_insert:
  assumes "store_inv e s" "canonical_id i" "bs_exists_cache s1 = bs_exists_cache s"
    and "\<And>r' j. is_valid_block_id j \<Longrightarrow> block_path e r' j \<noteq> block_path e r i \<Longrightarrow>
       file_at s1 (block_path e r' j) = file_at s (block_path e r' j)"
    and "map_option length (file_at s1 (block_path e r i)) = Some n"
  shows "store_inv e (exists_cache_insert e now r i n s1)"
proof -
  have d: "distinct (map fst (bs_exists_cache s1))" using assms(1,3) by (simp add: store_inv_def)
  have "map_option length (file_at s1 (block_path e r' j)) = Some len"
    if "canonical_id j" "bk_valid (cache_key e r' j)"
      "map_of (bs_exists_cache (exists_cache_insert e now r i n s1)) (cache_key e r' j) = Some (at, len)" for r' j at len
    using cache_insert_cases(2) [OF d that(3)]
  proof
    assume "bk_valid (cache_key e r i) \<and> cache_key e r' j = cache_key e r i \<and> (at, len) = (now, n)"
    moreover from this have "bv_sha1 e r' = bv_sha1 e r \<and> j = i"
      using cache_key_eq [OF that(1) assms(2) that(2)] by blast
    ultimately show ?thesis using assms(5) block_path_eq [of e r' j r i] by simp
  next
    assume old: "(bk_valid (cache_key e r i) \<longrightarrow> cache_key e r' j \<noteq> cache_key e r i) \<and>
      map_of (bs_exists_cache s1) (cache_key e r' j) = Some (at, len)"
    then have "block_path e r' j \<noteq> block_path e r i" using that(2) same_path_key [of e r' j r i] by auto
    then have "file_at s1 (block_path e r' j) = file_at s (block_path e r' j)" by (rule assms(4) [OF canonical_valid [OF that(1)]])
    then show ?thesis using old assms(3) that store_invD(2) [OF assms(1) that(1,2)] by metis
  qed
  moreover have "canonical_id j" if "is_valid_block_id j" "file_at s1 (block_path e r' j) \<noteq> None" for r' j
  proof (cases "block_path e r' j = block_path e r i")
    case True
    then show ?thesis using assms(2) by (simp add: block_path_eq)
  next
    case False
    then show ?thesis using store_invD(3) [OF assms(1) that(1)] assms(4) [OF that(1)] that(2) by auto
  qed
  ultimately show ?thesis using cache_insert_cases(1) [OF d] unfolding store_inv_def file_at_simps by blast
qed

lemma inv_presence:
  assumes "store_inv e s" "is_valid_block_id i" "file_at s (block_path e r i) = Some d"
  shows "store_inv e (exists_cache_insert e now r i (length d) s)"
proof -
  have "canonical_id i" using store_invD(3) [OF assms] .
  then show ?thesis using inv_insert [OF assms(1), of i s r] assms(3) by simp
qed

lemma inv_store_block:
  assumes "store_inv e s" "canonical_id i" "store_block e now u r i data exclusive s = (res, s')"
    and "exclusive \<Longrightarrow> \<forall>d. file_at s (block_path e r i) = Some d \<longrightarrow> length d = length data"
  shows "store_inv e s'"
proof (rule store_block_effect [OF canonical_valid [OF assms(2)] assms(3)])
  fix was_new s1
  assume *: "s' = exists_cache_insert e now r i (length data) s1" "bs_exists_cache s1 = bs_exists_cache s"
    "was_new \<longleftrightarrow> \<not> exclusive \<or> file_at s (block_path e r i) = None"
    "\<And>r' j. is_valid_block_id j \<Longrightarrow> file_at s1 (block_path e r' j) =
       (if block_path e r' j = block_path e r i \<and> (was_new \<or> \<not> bv_hard_links e) then Some data
        else file_at s (block_path e r' j))"
  have "map_option length (file_at s1 (block_path e r i)) = Some (length data)"
    using *(3) *(4) [OF canonical_valid [OF assms(2)], of r] assms(4) by auto
  then show ?thesis unfolding *(1) using *(4) by (intro inv_insert [OF assms(1,2) *(2)]) auto
qed

lemma inv_remove:
  assumes "store_inv e s"
  shows "store_inv e (bs_remove_block e (\<lambda>s. s) r i s)"
proof (cases "is_valid_block_id i")
  case True
  let ?s = "bs_remove_block e (\<lambda>s. s) r i s" and ?key = "cache_key e r i"
  have files: "file_at ?s p = (if p = block_path e r i then None else file_at s p)" for p
    using True by (simp add: bs_remove_block_def remove_file_def)
  have cache: "bs_exists_cache ?s = (if bk_valid ?key then hm_remove ?key (bs_exists_cache s) else bs_exists_cache s)"
    using True by (simp add: bs_remove_block_def remove_file_def exists_cache_remove_def Let_def)
  have "map_option length (file_at ?s (block_path e r' j)) = Some len"
    if "canonical_id j" "bk_valid (cache_key e r' j)" "map_of (bs_exists_cache ?s) (cache_key e r' j) = Some (at, len)" for r' j at len
  proof -
    have "cache_key e r' j \<noteq> ?key" using that(2,3) cache by (auto split: if_splits)
    moreover from this have "block_path e r' j \<noteq> block_path e r i" using same_path_key [of e r' j r i] by blast
    moreover have "map_of (bs_exists_cache s) (cache_key e r' j) = Some (at, len)"
      using that(3) \<open>cache_key e r' j \<noteq> ?key\<close> unfolding cache by (simp split: if_splits)
    ultimately show ?thesis using store_invD(2) [OF assms that(1,2)] files by simp
  qed
  moreover have "distinct (map fst (bs_exists_cache ?s))" using cache store_invD(1) [OF assms] by simp
  moreover have "is_valid_block_id j \<Longrightarrow> file_at ?s (block_path e r' j) \<noteq> None \<Longrightarrow> canonical_id j" for r' j
    using store_invD(3) [OF assms] files by (auto split: if_splits)
  ultimately show ?thesis unfolding store_inv_def by blast
qed (simp add: bs_remove_block_def assms)

section \<open>Every sequence of operations\<close>

text \<open>
  Requests ask for ids in any spelling; blocks are written under the hexadecimal SHA-1 of their bytes,
  which is canonical. Each operation runs as one step.
\<close>

inductive block_step :: "block_env \<Rightarrow> BlockStorage \<Rightarrow> BlockStorage \<Rightarrow> bool" for e where
  has: "block_step e s (snd (has_block e now r i s))"
| size: "block_step e s (snd (block_size e now r i s))"
| put: "canonical_id i \<Longrightarrow> block_step e s (snd (write_block_with_id e now u r i data s))"
| tracked: "canonical_id i \<Longrightarrow> block_step e s (snd (write_block_with_id_tracked e now u r i data s))"
| force: "canonical_id i \<Longrightarrow> block_step e s (snd (write_block_with_id_force e now u r i data s))"
| remove: "block_step e s (bs_remove_block e (\<lambda>s. s) r i s)"
| invalidate: "block_step e s (invalidate_exists_cache s)"

lemma write_keeps_inv:
  assumes "store_inv e s" "canonical_id i"
  shows "store_inv e (snd (write_block_with_id e now u r i data s))"
    "store_inv e (snd (write_block_with_id_tracked e now u r i data s))"
    "store_inv e (snd (write_block_with_id_force e now u r i data s))"
proof -
  have store: "store_inv e (snd (store_block e now u r i data ex s))"
    if "ex \<Longrightarrow> \<forall>d. file_at s (block_path e r i) = Some d \<longrightarrow> length d = length data" for ex
    using inv_store_block [OF assms, of now u r data ex] that by (metis prod.collapse)
  show "store_inv e (snd (write_block_with_id e now u r i data s))"
    using assms(1) store inv_presence [OF assms(1) canonical_valid [OF assms(2)]]
    by (auto simp: write_block_with_id_def Let_def split: prod.splits) (metis snd_conv)+
  show "store_inv e (snd (write_block_with_id_tracked e now u r i data s))"
    using assms(1) store by (auto simp: write_block_with_id_tracked_def Let_def split: prod.splits) (metis snd_conv)+
  show "store_inv e (snd (write_block_with_id_force e now u r i data s))"
    using assms(1) store [of False] by (auto simp: write_block_with_id_force_def split: prod.splits)
qed

lemma block_step_inv: "block_step e s s' \<Longrightarrow> store_inv e s \<Longrightarrow> store_inv e s'"
proof (induction rule: block_step.induct)
  case (has s now r i)
  then show ?case using inv_presence [OF has] by (auto simp: has_block_def split: option.splits)
next
  case (size s now r i)
  then show ?case using inv_presence [OF size] by (auto simp: block_size_def split: option.splits)
next
  case (invalidate s)
  then show ?case by (simp add: store_inv_def) (simp add: invalidate_exists_cache_def)
qed (auto simp: write_keeps_inv inv_remove)

lemma block_steps_inv: "(block_step e)\<^sup>*\<^sup>* new_block_storage s \<Longrightarrow> store_inv e s"
proof (induction rule: rtranclp_induct)
  case base
  then show ?case by (simp add: store_inv_def new_block_storage_def file_at_def)
qed (simp add: block_step_inv)

section \<open>The contract of a block store\<close>

text \<open>
  What every backend and decorator promises to the code that reads files: the reported size of a
  block is the number of bytes a read returns, and asking for it changes nothing a reader sees.
\<close>

locale sized_reader =
  fixes rd :: "'s \<Rightarrow> string \<Rightarrow> io_error + string"
    and sz :: "'s \<Rightarrow> string \<Rightarrow> (io_error + int) \<times> 's"
  assumes size_exact: "fst (sz s i) = Inr n \<Longrightarrow> rd s i = Inr d \<Longrightarrow> n = int (length d)"
    and size_keeps: "rd (snd (sz s i)) j = rd s j"

text \<open>
  And to the code that writes them: a write can be read back, and no other block changes. The
  store skips a write when it already holds as many bytes as the block would take, so the contract
  assumes that those are the same bytes (\<open>clean\<close>), as content addressing makes them.
\<close>

locale block_backend = sized_reader rd sz
  for rd :: "'s \<Rightarrow> string \<Rightarrow> io_error + string" and sz :: "'s \<Rightarrow> string \<Rightarrow> (io_error + int) \<times> 's" +
  fixes wr :: "'s \<Rightarrow> string \<Rightarrow> string \<Rightarrow> (io_error + string) \<times> 's"
    and ok :: "'s \<Rightarrow> bool" and clean :: "'s \<Rightarrow> string \<Rightarrow> string \<Rightarrow> bool"
  assumes wr_reads: "ok s \<Longrightarrow> canonical_id i \<Longrightarrow> clean s i d \<Longrightarrow> wr s i d = (res, s') \<Longrightarrow>
      res = Inr i \<and> ok s' \<and> rd s' i = Inr d \<and> clean s' i d"
    and wr_other: "canonical_id i \<Longrightarrow> wr s i d = (res, s') \<Longrightarrow> j \<noteq> i \<Longrightarrow>
      rd s' j = rd s j \<and> (canonical_id j \<longrightarrow> clean s' j d' = clean s j d')"
begin

definition wr_all :: "(string \<times> string) list \<Rightarrow> 's \<Rightarrow> 's" where
  "wr_all blocks s = fold (\<lambda>(i, d) s. snd (wr s i d)) blocks s"

lemma wr_all_reads:
  "ok s \<Longrightarrow> \<forall>(i, d)\<in>set blocks. canonical_id i \<and> clean s i d \<Longrightarrow>
   \<forall>i d d'. (i, d) \<in> set blocks \<longrightarrow> (i, d') \<in> set blocks \<longrightarrow> d = d' \<Longrightarrow>
   ok (wr_all blocks s) \<and> (\<forall>(i, d)\<in>set blocks. rd (wr_all blocks s) i = Inr d) \<and>
   (\<forall>j. j \<notin> fst ` set blocks \<longrightarrow> rd (wr_all blocks s) j = rd s j)"
proof (induction blocks arbitrary: s)
  case (Cons b blocks)
  obtain i d where b: "b = (i, d)" by fastforce
  obtain res s' where w: "wr s i d = (res, s')" by fastforce
  have i: "canonical_id i" "clean s i d" using Cons.prems(2) b by auto
  note r = wr_reads [OF Cons.prems(1) i w] and o = wr_other [OF i(1) w]
  have clean': "\<forall>(j, d')\<in>set blocks. canonical_id j \<and> clean s' j d'"
  proof (intro ballI, clarify)
    fix j d' assume j: "(j, d') \<in> set blocks"
    have eq: "j = i \<Longrightarrow> d' = d" using Cons.prems(3) j unfolding b by (meson list.set_intros)
    have "canonical_id j" "clean s j d'" using Cons.prems(2) j by auto
    then show "canonical_id j \<and> clean s' j d'" using eq r o [of j d'] by (cases "j = i") simp_all
  qed
  have IH: "ok (wr_all blocks s') \<and> (\<forall>(i, d)\<in>set blocks. rd (wr_all blocks s') i = Inr d) \<and>
      (\<forall>j. j \<notin> fst ` set blocks \<longrightarrow> rd (wr_all blocks s') j = rd s' j)"
  proof (rule Cons.IH [OF conjunct1 [OF conjunct2 [OF r]] clean'])
    show "\<forall>i d d'. (i, d) \<in> set blocks \<longrightarrow> (i, d') \<in> set blocks \<longrightarrow> d = d'" using Cons.prems(3) by simp
  qed
  moreover have "rd (wr_all blocks s') i = Inr d"
  proof (cases "i \<in> fst ` set blocks")
    case True
    then obtain d' where "(i, d') \<in> set blocks" by auto
    moreover from this have "d' = d" using Cons.prems(3) unfolding b by (meson list.set_intros)
    ultimately show ?thesis using IH by auto
  qed (use IH r in auto)
  ultimately show ?case using b w o by (auto simp: wr_all_def)
qed (simp add: wr_all_def)

end

text \<open>The file store keeps the contract.\<close>

definition raw_clean :: "block_env \<Rightarrow> string \<Rightarrow> BlockStorage \<Rightarrow> string \<Rightarrow> string \<Rightarrow> bool" where
  "raw_clean e r s i d \<longleftrightarrow> (\<forall>x. file_at s (block_path e r i) = Some x \<longrightarrow> length x = length d \<longrightarrow> x = d)"

lemma cached_length:
  assumes "store_inv e s" "canonical_id i" "exists_cache_len e now r i s = Some n"
  shows "map_option length (file_at s (block_path e r i)) = Some n"
  using assms store_invD(2) [OF assms(1,2), of r]
  by (auto simp: exists_cache_len_def Let_def simp del: map_of_eq_Some_iff split: if_splits option.splits)

lemma write_with_id_files:
  assumes "canonical_id i" "write_block_with_id e now u r i data s = (res, s')"
  shows "is_valid_block_id j \<Longrightarrow> block_path e r' j \<noteq> block_path e r i \<Longrightarrow> file_at s' (block_path e r' j) = file_at s (block_path e r' j)"
    and "store_inv e s \<Longrightarrow> raw_clean e r s i data \<Longrightarrow> res = Inr i \<and> file_at s' (block_path e r i) = Some data"
proof -
  note v = canonical_valid [OF assms(1)]
  consider (hit) "exists_cache_len e now r i s = Some (length data)" "res = Inr i" "s' = s"
    | (same) "map_option length (file_at s (block_path e r i)) = Some (length data)" "res = Inr i"
        "s' = exists_cache_insert e now r i (length data) s"
    | (store) b where "store_block e now u r i data (file_at s (block_path e r i) = None) s = (b, s')" "res = map_sum id (\<lambda>_. i) b"
  proof (cases "exists_cache_len e now r i s = Some (length data)")
    case True
    then show thesis using hit assms(2) v by (simp add: write_block_with_id_def)
  next
    case False
    then show thesis using same store assms(2) v
      by (cases "store_block e now u r i data (file_at s (block_path e r i) = None) s")
        (auto simp: write_block_with_id_def Let_def split: if_splits)
  qed
  then have "(is_valid_block_id j \<longrightarrow> block_path e r' j \<noteq> block_path e r i \<longrightarrow> file_at s' (block_path e r' j) = file_at s (block_path e r' j)) \<and>
    (store_inv e s \<longrightarrow> raw_clean e r s i data \<longrightarrow> res = Inr i \<and> file_at s' (block_path e r i) = Some data)"
  proof cases
    case hit
    then show ?thesis using cached_length [OF _ assms(1) hit(1)] by (auto simp: raw_clean_def)
  next
    case same
    then show ?thesis by (auto simp: raw_clean_def)
  next
    case store
    obtain was_new s1 where "b = Inr was_new" "s' = exists_cache_insert e now r i (length data) s1"
      "was_new" "\<And>r' j. is_valid_block_id j \<Longrightarrow> file_at s1 (block_path e r' j) =
         (if block_path e r' j = block_path e r i \<and> (was_new \<or> \<not> bv_hard_links e) then Some data
          else file_at s (block_path e r' j))"
      using store_block_effect [OF v store(1)] by metis
    then show ?thesis using store(2) v by auto
  qed
  then show "is_valid_block_id j \<Longrightarrow> block_path e r' j \<noteq> block_path e r i \<Longrightarrow> file_at s' (block_path e r' j) = file_at s (block_path e r' j)"
    "store_inv e s \<Longrightarrow> raw_clean e r s i data \<Longrightarrow> res = Inr i \<and> file_at s' (block_path e r i) = Some data" by blast+
qed

lemma file_at_block_size [simp]: "file_at (snd (block_size e now r i s)) p = file_at s p"
  by (simp add: block_size_def split: option.split)

lemma raw_size:
  "fst (block_size e now r i s) = Inr n \<Longrightarrow> read_block e r i s = Inr d \<Longrightarrow> n = int (length d)"
  "read_block e r j (snd (block_size e now r i s)) = read_block e r j s"
  "read_block_prefix e r j k (snd (block_size e now r i s)) = read_block_prefix e r j k s"
proof -
  show "fst (block_size e now r i s) = Inr n \<Longrightarrow> read_block e r i s = Inr d \<Longrightarrow> n = int (length d)"
    by (auto simp: block_size_def read_block_def ok_or_def split: if_splits option.splits)
qed (simp_all add: read_block_def read_block_prefix_def Let_def)

interpretation raw: block_backend "\<lambda>s i. read_block e r i s" "\<lambda>s i. block_size e now r i s"
    "\<lambda>s i d. write_block_with_id e now u r i d s" "store_inv e" "raw_clean e r" for e r now u
proof
  fix s s' i d res
  assume *: "store_inv e s" "canonical_id i" "raw_clean e r s i d" "write_block_with_id e now u r i d s = (res, s')"
  have "store_inv e s'" using write_keeps_inv(1) [OF *(1,2), of now u r d] *(4) by simp
  then show "res = Inr i \<and> store_inv e s' \<and> read_block e r i s' = Inr d \<and> raw_clean e r s' i d"
    using write_with_id_files(2) [OF *(2,4,1,3)] canonical_valid [OF *(2)] by (simp add: read_block_def raw_clean_def)
next
  fix s s' i j d d' res
  assume *: "canonical_id i" "write_block_with_id e now u r i d s = (res, s')" "j \<noteq> i"
  have "is_valid_block_id j \<Longrightarrow> file_at s' (block_path e r j) = file_at s (block_path e r j)"
    using write_with_id_files(1) [OF *(1,2), of j r] *(3) by (simp add: block_path_eq)
  then show "read_block e r j s' = read_block e r j s \<and> (canonical_id j \<longrightarrow> raw_clean e r s' j d' = raw_clean e r s j d')"
    by (auto simp: read_block_def raw_clean_def canonical_valid)
qed (simp_all add: raw_size)

section \<open>Where the cache misleads\<close>

lemma hex_decode_canonical:
  assumes "canonical_id i"
  shows "\<exists>ns. hex_decode i = Some ns"
proof -
  have digit: "\<exists>x. hex_value c = Some x" if "c \<in> set lower_hex" for c
  proof -
    have "list_all (\<lambda>c. hex_value c \<noteq> None) lower_hex" by code_simp
    then show ?thesis using that by (auto simp: list_all_iff)
  qed
  have "set i \<subseteq> set lower_hex \<Longrightarrow> even (length i) \<Longrightarrow> \<exists>ns. hex_decode i = Some ns"
    by (induction i rule: hex_decode.induct) (auto dest!: digit)
  then show ?thesis using assms by (simp add: canonical_id_def)
qed

lemma present_cached:
  assumes "canonical_id i" "fst (has_block e now r i s)"
  shows "exists_cache_contains e now r i (snd (has_block e now r i s))"
proof -
  obtain ns where "hex_decode i = Some ns" using hex_decode_canonical [OF assms(1)] ..
  then have v: "bk_valid (cache_key e r i)" using assms(1) by (simp add: cache_key_def canonical_id_def)
  have "exists_cache_contains e now r i (exists_cache_insert e now r i n s)" for n
    using v by (simp add: exists_cache_contains_def exists_cache_len_def exists_cache_insert_def EXISTS_CACHE_TTL_def Let_def)
  then show ?thesis using assms by (auto simp: has_block_def split: if_splits option.splits)
qed

text \<open>
  C38: The presence cache decodes ids, the files are named by them. At the moment the store confirms a
  block, it also confirms every other spelling of its id (with upper-case digits), although nothing is
  stored under it and reading it fails; and an upload under that spelling is acknowledged without
  being written.
\<close>

theorem respelled_id_confirmed:
  assumes "(block_step e)\<^sup>*\<^sup>* new_block_storage s" "canonical_id i" "fst (has_block e now r i s)"
    and "is_valid_block_id i'" "hex_decode i' = hex_decode i" "i' \<noteq> i" "s' = snd (has_block e now r i s)"
  shows "fst (has_block e now r i' s') \<and> read_block e r i' s' = Inl IoNotFound \<and>
    (\<forall>d. exists_cache_len e now r i s' = Some (length d) \<longrightarrow> write_block_with_id e now u r i' d s' = (Inr i', s'))"
proof -
  have inv: "store_inv e s'"
    using block_step_inv [OF block_step.has block_steps_inv [OF assms(1)]] assms(7) by simp
  obtain ns where ns: "hex_decode i = Some ns" using hex_decode_canonical [OF assms(2)] ..
  have len: "length i' = 40" "length i = 40" using assms(2,4) by (auto simp: is_valid_block_id_def canonical_id_def)
  then have key: "cache_key e r i' = cache_key e r i" using assms(5) by (simp add: cache_key_def)
  have "\<not> canonical_id i'"
    using hex_decode_inj [of i' i ns] assms(2,5,6) ns by (auto simp: canonical_id_def)
  then have "file_at s' (block_path e r i') = None" using store_invD(3) [OF inv assms(4)] by (metis option.exhaust)
  moreover have "exists_cache_contains e now r i' s'"
    using present_cached [OF assms(2,3)] assms(7) key by (simp add: exists_cache_contains_def exists_cache_len_def)
  moreover have "exists_cache_len e now r i' s' = exists_cache_len e now r i s'" using key by (simp add: exists_cache_len_def)
  ultimately show ?thesis using assms(4) by (simp add: has_block_def read_block_def write_block_with_id_def ok_or_def)
qed

definition demo_block_env :: block_env where
  "demo_block_env = \<lparr>bv_sha1 = (\<lambda>d. if d = ''x'' then replicate 40 (CHR ''a'') else replicate 40 (CHR ''0'')), bv_hard_links = True\<rparr>"

definition demo_blocks :: BlockStorage where
  "demo_blocks = snd (write_block_with_id demo_block_env 0 ''u'' ''r'' (replicate 40 (CHR ''a'')) ''x'' new_block_storage)"

theorem respelled_id_confirmed_witness:
  "fst (has_block demo_block_env 1 ''r'' (replicate 40 (CHR ''A'')) (snd (has_block demo_block_env 1 ''r'' (replicate 40 (CHR ''a'')) demo_blocks))) \<and>
   read_block demo_block_env ''r'' (replicate 40 (CHR ''A'')) (snd (has_block demo_block_env 1 ''r'' (replicate 40 (CHR ''a'')) demo_blocks)) = Inl IoNotFound"
proof -
  have can: "canonical_id (replicate 40 (CHR ''a''))" by code_simp
  have step: "block_step demo_block_env new_block_storage demo_blocks"
    unfolding demo_blocks_def by (rule block_step.put [OF can])
  have "(block_step demo_block_env)\<^sup>*\<^sup>* new_block_storage demo_blocks" using step by (rule r_into_rtranclp)
  moreover have "fst (has_block demo_block_env 1 ''r'' (replicate 40 (CHR ''a'')) demo_blocks)" by code_simp
  moreover have "is_valid_block_id (replicate 40 (CHR ''A''))"
    "hex_decode (replicate 40 (CHR ''A'')) = hex_decode (replicate 40 (CHR ''a''))" by code_simp+
  moreover have "replicate 40 (CHR ''A'') \<noteq> replicate 40 (CHR ''a'')" by simp
  ultimately show ?thesis using respelled_id_confirmed [OF _ can _ _ _ _ refl] by blast
qed

text \<open>
  A removal deletes the file and then the cached presence. An upload of the same block that falls
  between the two is acknowledged from the cache, and the block is gone.
\<close>

theorem upload_lost_in_removal:
  assumes "canonical_id i" "exists_cache_len e now r i s = Some (length d)"
  shows "fst (write_block_with_id e now u r i d (remove_file e r i s)) = Inr i \<and>
    read_block e r i (bs_remove_block e (\<lambda>s. snd (write_block_with_id e now u r i d s)) r i s) = Inl IoNotFound"
proof -
  have v: "is_valid_block_id i" using canonical_valid [OF assms(1)] .
  have "exists_cache_len e now r i (remove_file e r i s) = Some (length d)"
    using assms(2) by (simp add: exists_cache_len_def remove_file_def Let_def split: if_splits)
  then have "write_block_with_id e now u r i d (remove_file e r i s) = (Inr i, remove_file e r i s)"
    using v by (simp add: write_block_with_id_def)
  then show ?thesis using v by (simp add: bs_remove_block_def read_block_def remove_file_def ok_or_def)
qed

end
