(* ===== verification/EncryptedStore.thy ===== *)
theory EncryptedStore
  imports BlockStore
begin

text \<open>
  Encryption of blocks at rest: the stored format (\<open>infra/src/crypto/block_encryption.rs\<close>), the
  decorator that encrypts writes and decrypts reads (\<open>infra/src/storage/encrypting_block_store.rs\<close>), and
  the conversion of old blocks (\<open>server/src/fs/core/block_encryption_convert.rs\<close>).

  The cipher, AES-256-GCM-SIV with a fixed nonce, is a parameter: \<open>ci_seal\<close> appends a tag of 16 bytes to
  a ciphertext of the length of the plaintext, and \<open>ci_open\<close> is its inverse on what it accepts.
\<close>

section \<open>The stored format\<close>

record BlockCipher =
  ci_seal :: "string \<Rightarrow> string"
  ci_open :: "string \<Rightarrow> string option"

definition TAG_LEN :: nat where
  "TAG_LEN = 16"

definition MAGIC :: string where
  "MAGIC = ''NFE1''"

definition ACTIVE_KEY_ID :: nat where
  "ACTIVE_KEY_ID = 0"

definition HEADER_LEN :: nat where
  "HEADER_LEN = 6"

definition u16_to_be :: "nat \<Rightarrow> string" where
  "u16_to_be n = [char_of (n div 256), char_of (n mod 256)]"

definition u16_from_be :: "char \<Rightarrow> char \<Rightarrow> nat" where
  "u16_from_be a b = of_char a * 256 + of_char b"

definition bc_encrypt :: "BlockCipher \<Rightarrow> string \<Rightarrow> string" where
  "bc_encrypt c plaintext = MAGIC @ u16_to_be ACTIVE_KEY_ID @ ci_seal c plaintext"

definition looks_encrypted :: "string \<Rightarrow> bool" where
  "looks_encrypted stored \<longleftrightarrow> length stored \<ge> HEADER_LEN \<and> take 4 stored = MAGIC"

text \<open>\<open>None\<close> is the error of the cipher library, which carries nothing.\<close>

definition plaintext_len :: "string \<Rightarrow> nat \<Rightarrow> nat option" where
  "plaintext_len stored_prefix stored_len =
     (if looks_encrypted stored_prefix \<and> u16_from_be (stored_prefix ! 4) (stored_prefix ! 5) \<noteq> ACTIVE_KEY_ID then None
      else
        let overhead = (if looks_encrypted stored_prefix then HEADER_LEN + TAG_LEN else TAG_LEN) in
        if overhead \<le> stored_len then Some (stored_len - overhead) else None)"

definition bc_decrypt :: "BlockCipher \<Rightarrow> string \<Rightarrow> string option" where
  "bc_decrypt c ciphertext =
     (if looks_encrypted ciphertext
      then if u16_from_be (ciphertext ! 4) (ciphertext ! 5) \<noteq> ACTIVE_KEY_ID then None
           else ci_open c (drop HEADER_LEN ciphertext)
      else ci_open c ciphertext)"

section \<open>The decorator\<close>

datatype BlockEncryptionMode = EncryptOff | EncryptOn | EncryptLazy

definition decrypt_failed :: io_error where
  "decrypt_failed = InvalidData ''block at-rest decryption failed''"

definition decrypt_offload :: "BlockCipher \<Rightarrow> BlockEncryptionMode \<Rightarrow> string \<Rightarrow> io_error + string" where
  "decrypt_offload c mode raw =
     (case mode of
        EncryptOff \<Rightarrow> Inr raw
      | EncryptOn \<Rightarrow> ok_or decrypt_failed (bc_decrypt c raw)
      | EncryptLazy \<Rightarrow> if \<not> looks_encrypted raw then Inr raw else ok_or decrypt_failed (bc_decrypt c raw))"

definition enc_read_block :: "block_env \<Rightarrow> BlockCipher \<Rightarrow> BlockEncryptionMode \<Rightarrow> string \<Rightarrow> string \<Rightarrow> BlockStorage \<Rightarrow> io_error + string" where
  "enc_read_block e c mode repo_id block_id s = rbind (read_block e repo_id block_id s) (decrypt_offload c mode)"

definition enc_write_block_with_id ::
    "block_env \<Rightarrow> BlockCipher \<Rightarrow> int \<Rightarrow> string \<Rightarrow> string \<Rightarrow> string \<Rightarrow> string \<Rightarrow> BlockStorage \<Rightarrow> (io_error + string) \<times> BlockStorage" where
  "enc_write_block_with_id e c now u repo_id block_id data s =
     write_block_with_id e now u repo_id block_id (bc_encrypt c data) s"

definition enc_write_block ::
    "block_env \<Rightarrow> BlockCipher \<Rightarrow> int \<Rightarrow> string \<Rightarrow> string \<Rightarrow> string \<Rightarrow> BlockStorage \<Rightarrow> (io_error + string) \<times> BlockStorage" where
  "enc_write_block e c now u repo_id data s = enc_write_block_with_id e c now u repo_id (bv_sha1 e data) data s"

definition enc_write_block_with_id_tracked ::
    "block_env \<Rightarrow> BlockCipher \<Rightarrow> int \<Rightarrow> string \<Rightarrow> string \<Rightarrow> string \<Rightarrow> string \<Rightarrow> BlockStorage \<Rightarrow> (io_error + string \<times> bool) \<times> BlockStorage" where
  "enc_write_block_with_id_tracked e c now u repo_id block_id data s =
     write_block_with_id_tracked e now u repo_id block_id (bc_encrypt c data) s"

definition enc_write_block_with_id_force ::
    "block_env \<Rightarrow> BlockCipher \<Rightarrow> int \<Rightarrow> string \<Rightarrow> string \<Rightarrow> string \<Rightarrow> string \<Rightarrow> BlockStorage \<Rightarrow> (io_error + string) \<times> BlockStorage" where
  "enc_write_block_with_id_force e c now u repo_id block_id data s =
     write_block_with_id_force e now u repo_id block_id (bc_encrypt c data) s"

definition logical_size :: "string \<Rightarrow> int \<Rightarrow> io_error + int" where
  "logical_size stored_prefix stored =
     (if stored < 0 then Inl (InvalidData ''negative stored block size'')
      else case plaintext_len stored_prefix (nat stored) of
             None \<Rightarrow> Inl (InvalidData ''encrypted block shorter than its header and authentication tag'')
           | Some logical \<Rightarrow> if int logical > i64_max then Inl (InvalidData ''block size overflow'') else Inr (int logical))"

definition enc_block_size ::
    "block_env \<Rightarrow> BlockEncryptionMode \<Rightarrow> int \<Rightarrow> string \<Rightarrow> string \<Rightarrow> BlockStorage \<Rightarrow> (io_error + int) \<times> BlockStorage" where
  "enc_block_size e mode now repo_id block_id s =
     (case block_size e now repo_id block_id s of
        (Inl err, s) \<Rightarrow> (Inl err, s)
      | (Inr stored, s) \<Rightarrow>
          (case mode of
             EncryptOff \<Rightarrow> Inr stored
           | EncryptOn \<Rightarrow> rbind (read_block_prefix e repo_id block_id HEADER_LEN s) (\<lambda>p. logical_size p stored)
           | EncryptLazy \<Rightarrow> rbind (read_block_prefix e repo_id block_id HEADER_LEN s)
               (\<lambda>p. if \<not> looks_encrypted p then Inr stored else logical_size p stored),
           s))"

definition enc_convert_legacy_block ::
    "block_env \<Rightarrow> BlockCipher \<Rightarrow> int \<Rightarrow> string \<Rightarrow> string \<Rightarrow> string \<Rightarrow> BlockStorage \<Rightarrow> (io_error + bool) \<times> BlockStorage" where
  "enc_convert_legacy_block e c now u repo_id block_id s =
     (case read_block e repo_id block_id s of
        Inl err \<Rightarrow> (Inl err, s)
      | Inr raw \<Rightarrow>
          if looks_encrypted raw then (Inr False, s)
          else
            let plaintext = (case bc_decrypt c raw of Some p \<Rightarrow> p | None \<Rightarrow> raw) in
            (case write_block_with_id_force e now u repo_id block_id (bc_encrypt c plaintext) s of
               (Inl err, s) \<Rightarrow> (Inl err, s)
             | (Inr _, s) \<Rightarrow> (Inr True, s)))"

text \<open>
  The conversion job: the ids of a library are listed before its blocks are converted (the walk runs
  ahead of the conversion and new files keep their names, so a rewritten block is not listed anew).
\<close>

fun convert_step :: "block_env \<Rightarrow> BlockCipher \<Rightarrow> int \<Rightarrow> string \<Rightarrow> string \<Rightarrow> string \<Rightarrow> nat result \<times> BlockStorage \<Rightarrow> nat result \<times> BlockStorage" where
  "convert_step e c now u repo_id i (Inl err, s) = (Inl err, s)"
| "convert_step e c now u repo_id i (Inr n, s) =
     (case enc_convert_legacy_block e c now u repo_id i s of
        (Inl err, s) \<Rightarrow> (Inl (Internal (io_display err)), s)
      | (Inr b, s) \<Rightarrow> (Inr (if b then n + 1 else n), s))"

fun convert_repo :: "block_env \<Rightarrow> BlockCipher \<Rightarrow> int \<Rightarrow> string \<Rightarrow> string \<Rightarrow> nat result \<times> BlockStorage \<Rightarrow> nat result \<times> BlockStorage" where
  "convert_repo e c now u repo_id (Inl err, s) = (Inl err, s)"
| "convert_repo e c now u repo_id (Inr n, s) = fold (convert_step e c now u repo_id) (list_blocks e repo_id s) (Inr n, s)"

definition convert_legacy_blocks :: "block_env \<Rightarrow> BlockCipher \<Rightarrow> int \<Rightarrow> string \<Rightarrow> BlockStorage \<Rightarrow> nat result \<times> BlockStorage" where
  "convert_legacy_blocks e c now u s = fold (convert_repo e c now u) (map fst (repo_dirs s)) (Inr 0, s)"

section \<open>What the cipher has to do\<close>

definition cipher_ok :: "BlockCipher \<Rightarrow> bool" where
  "cipher_ok c \<longleftrightarrow> (\<forall>p. ci_open c (ci_seal c p) = Some p) \<and> (\<forall>x p. ci_open c x = Some p \<longrightarrow> length x = length p + TAG_LEN)"

lemma cipher_okD:
  assumes "cipher_ok c"
  shows "ci_open c (ci_seal c p) = Some p" "ci_open c x = Some p \<Longrightarrow> length x = length p + TAG_LEN"
    "length (ci_seal c p) = length p + TAG_LEN"
proof -
  show *: "ci_open c (ci_seal c p) = Some p" using assms by (simp add: cipher_ok_def)
  show **: "ci_open c x = Some p \<Longrightarrow> length x = length p + TAG_LEN" for x
    using assms unfolding cipher_ok_def by blast
  show "length (ci_seal c p) = length p + TAG_LEN" by (rule ** [OF *])
qed

lemma encrypt_format:
  "looks_encrypted (bc_encrypt c p)" "drop HEADER_LEN (bc_encrypt c p) = ci_seal c p"
  "u16_from_be (bc_encrypt c p ! 4) (bc_encrypt c p ! 5) = ACTIVE_KEY_ID"
proof -
  have "u16_to_be ACTIVE_KEY_ID = [CHR 0x00, CHR 0x00]" by code_simp
  then have eq: "bc_encrypt c p = CHR ''N'' # CHR ''F'' # CHR ''E'' # CHR ''1'' # CHR 0x00 # CHR 0x00 # ci_seal c p"
    by (simp add: bc_encrypt_def MAGIC_def)
  show "looks_encrypted (bc_encrypt c p)" "drop HEADER_LEN (bc_encrypt c p) = ci_seal c p"
    by (simp_all add: eq looks_encrypted_def MAGIC_def HEADER_LEN_def)
  have "u16_from_be (CHR 0x00) (CHR 0x00) = ACTIVE_KEY_ID" by code_simp
  then show "u16_from_be (bc_encrypt c p ! 4) (bc_encrypt c p ! 5) = ACTIVE_KEY_ID" by (simp add: eq)
qed

lemma decrypt_encrypt: "cipher_ok c \<Longrightarrow> bc_decrypt c (bc_encrypt c p) = Some p"
  by (simp add: bc_decrypt_def encrypt_format cipher_okD(1))

lemma length_encrypt: "cipher_ok c \<Longrightarrow> length (bc_encrypt c p) = length p + (HEADER_LEN + TAG_LEN)"
  by (simp add: bc_encrypt_def MAGIC_def u16_to_be_def HEADER_LEN_def cipher_okD(3))

lemma offload_encrypt: "cipher_ok c \<Longrightarrow> mode \<noteq> EncryptOff \<Longrightarrow> decrypt_offload c mode (bc_encrypt c p) = Inr p"
  by (cases mode) (simp_all add: decrypt_offload_def decrypt_encrypt encrypt_format)

text \<open>The length of the plaintext is read off the first six bytes and the length of the file.\<close>

lemma looks_encrypted_take [simp]: "looks_encrypted (take HEADER_LEN x) = looks_encrypted x"
  by (auto simp: looks_encrypted_def HEADER_LEN_def)

lemma plaintext_len_exact:
  assumes "cipher_ok c" "bc_decrypt c x = Some p"
  shows "plaintext_len (take HEADER_LEN x) (length x) = Some (length p)"
proof (cases "looks_encrypted x")
  case True
  then have "6 \<le> length x" by (simp add: looks_encrypted_def HEADER_LEN_def)
  then have "take HEADER_LEN x ! 4 = x ! 4" "take HEADER_LEN x ! 5 = x ! 5" by (simp_all add: HEADER_LEN_def)
  moreover have "length x = length p + (HEADER_LEN + TAG_LEN)"
    using assms(2) True \<open>6 \<le> length x\<close> cipher_okD(2) [OF assms(1), of "drop HEADER_LEN x" p]
    by (auto simp: bc_decrypt_def HEADER_LEN_def split: if_splits)
  ultimately show ?thesis using assms(2) True by (auto simp: plaintext_len_def bc_decrypt_def Let_def split: if_splits)
next
  case False
  then show ?thesis using assms(2) cipher_okD(2) [OF assms(1), of x p] by (simp add: plaintext_len_def bc_decrypt_def Let_def)
qed

section \<open>The decorated store keeps the contract\<close>

lemma enc_size_keeps: "enc_read_block e c mode r j (snd (enc_block_size e mode now r i s)) = enc_read_block e c mode r j s"
  using raw_size(2) [of e r j now i s]
  by (auto simp: enc_block_size_def enc_read_block_def split: prod.splits sum.splits)

lemma enc_block_size_eq:
  assumes "cipher_ok c" "enc_read_block e c mode r i s = Inr d"
  obtains raw where "file_at s (block_path e r i) = Some raw" "is_valid_block_id i" "decrypt_offload c mode raw = Inr d"
    "fst (enc_block_size e mode now r i s) =
      (if mode = EncryptOff \<or> mode = EncryptLazy \<and> \<not> looks_encrypted raw then Inr (int (length raw))
       else if int (length d) > i64_max then Inl (InvalidData ''block size overflow'') else Inr (int (length d)))"
proof -
  obtain raw where raw: "file_at s (block_path e r i) = Some raw" "is_valid_block_id i" "decrypt_offload c mode raw = Inr d"
    using assms(2) by (auto simp: enc_read_block_def read_block_def ok_or_def split: if_splits option.splits)
  have size: "block_size e now r i s = (Inr (int (length raw)), exists_cache_insert e now r i (length raw) s)"
    using raw by (simp add: block_size_def)
  have pre: "read_block_prefix e r i HEADER_LEN (exists_cache_insert e now r i (length raw) s) = Inr (take HEADER_LEN raw)"
    using raw by (simp add: read_block_prefix_def MAX_BLOCK_PREFIX_LEN_def HEADER_LEN_def ok_or_def Let_def)
  have len: "bc_decrypt c raw = Some d \<Longrightarrow> logical_size (take HEADER_LEN raw) (int (length raw)) =
      (if int (length d) > i64_max then Inl (InvalidData ''block size overflow'') else Inr (int (length d)))"
    using plaintext_len_exact [OF assms(1), of raw d] by (simp add: logical_size_def)
  show thesis
  proof (rule that [OF raw])
    show "fst (enc_block_size e mode now r i s) =
      (if mode = EncryptOff \<or> mode = EncryptLazy \<and> \<not> looks_encrypted raw then Inr (int (length raw))
       else if int (length d) > i64_max then Inl (InvalidData ''block size overflow'') else Inr (int (length d)))"
      using raw(3) len size pre
      by (cases mode) (auto simp: enc_block_size_def decrypt_offload_def ok_or_def split: if_splits option.splits)
  qed
qed

lemma enc_size_exact:
  assumes "cipher_ok c" "fst (enc_block_size e mode now r i s) = Inr n" "enc_read_block e c mode r i s = Inr d"
  shows "n = int (length d)"
  by (rule enc_block_size_eq [OF assms(1,3), of now]) (use assms(2) in \<open>auto simp: decrypt_offload_def split: if_splits\<close>)

lemma sealed_reader: "cipher_ok c \<Longrightarrow> sized_reader (\<lambda>s i. enc_read_block e c mode r i s) (\<lambda>s i. enc_block_size e mode now r i s)"
  by unfold_locales (simp_all add: enc_size_exact enc_size_keeps)

definition sealed_clean :: "block_env \<Rightarrow> BlockCipher \<Rightarrow> string \<Rightarrow> BlockStorage \<Rightarrow> string \<Rightarrow> string \<Rightarrow> bool" where
  "sealed_clean e c r s i d = raw_clean e r s i (bc_encrypt c d)"

lemma sealed_backend:
  assumes "cipher_ok c" "mode \<noteq> EncryptOff"
  shows "block_backend (\<lambda>s i. enc_read_block e c mode r i s) (\<lambda>s i. enc_block_size e mode now r i s)
    (\<lambda>s i d. enc_write_block_with_id e c now u r i d s) (store_inv e) (sealed_clean e c r)"
proof (intro block_backend.intro sealed_reader [OF assms(1)] block_backend_axioms.intro)
  fix s s' i d res
  assume *: "store_inv e s" "canonical_id i" "sealed_clean e c r s i d" "enc_write_block_with_id e c now u r i d s = (res, s')"
  show "res = Inr i \<and> store_inv e s' \<and> enc_read_block e c mode r i s' = Inr d \<and> sealed_clean e c r s' i d"
    using raw.wr_reads [OF *(1,2) *(3) [unfolded sealed_clean_def] *(4) [unfolded enc_write_block_with_id_def]]
    by (simp add: enc_read_block_def sealed_clean_def offload_encrypt [OF assms])
next
  fix s s' i j d d' res
  assume *: "canonical_id i" "enc_write_block_with_id e c now u r i d s = (res, s')" "j \<noteq> i"
  show "enc_read_block e c mode r j s' = enc_read_block e c mode r j s \<and>
      (canonical_id j \<longrightarrow> sealed_clean e c r s' j d' = sealed_clean e c r s j d')"
    using raw.wr_other [OF *(1) *(2) [unfolded enc_write_block_with_id_def] *(3)]
    by (simp add: enc_read_block_def sealed_clean_def)
qed

section \<open>Reading back\<close>

text \<open>
  C17: With encryption on, or in the migration mode, what was written under an id is what is read from it,
  the reported size is the number of its bytes, the file on disk is the versioned ciphertext (or was
  that already), and no other block of the library changes. This holds in every state that operations of the store
  can produce, as long as a file of the same length under the same id has the same content.
\<close>

theorem encrypted_block_roundtrip:
  assumes "(block_step e)\<^sup>*\<^sup>* new_block_storage s" "cipher_ok c" "mode \<noteq> EncryptOff" "canonical_id i"
    and "raw_clean e r s i (bc_encrypt c d)" "int (length d) \<le> i64_max"
    and "enc_write_block_with_id e c now u r i d s = (res, s')"
  shows "res = Inr i \<and> enc_read_block e c mode r i s' = Inr d \<and>
    fst (enc_block_size e mode now' r i s') = Inr (int (length d)) \<and>
    file_at s' (block_path e r i) = Some (bc_encrypt c d) \<and>
    (\<forall>j. j \<noteq> i \<longrightarrow> enc_read_block e c mode r j s' = enc_read_block e c mode r j s)"
proof -
  note inv = block_steps_inv [OF assms(1)]
  note b = block_backend.wr_reads [OF sealed_backend [OF assms(2,3)] inv assms(4) assms(5) [folded sealed_clean_def] assms(7)]
  have "enc_read_block e c mode r i s' = Inr d" using b by blast
  moreover obtain raw where "file_at s' (block_path e r i) = Some raw"
    "fst (enc_block_size e mode now' r i s') =
      (if mode = EncryptOff \<or> mode = EncryptLazy \<and> \<not> looks_encrypted raw then Inr (int (length raw))
       else if int (length d) > i64_max then Inl (InvalidData ''block size overflow'') else Inr (int (length d)))"
    by (rule enc_block_size_eq [OF assms(2) \<open>enc_read_block e c mode r i s' = Inr d\<close>, of now'])
  moreover have "file_at s' (block_path e r i) = Some (bc_encrypt c d)"
    using write_with_id_files(2) [OF assms(4) assms(7) [unfolded enc_write_block_with_id_def] inv assms(5)] by blast
  ultimately show ?thesis
    using b assms(3,6) block_backend.wr_other [OF sealed_backend [OF assms(2,3)] assms(4,7)] by (auto simp: encrypt_format)
qed

definition demo_tag :: string where
  "demo_tag = replicate TAG_LEN (CHR ''t'')"

definition demo_cipher :: BlockCipher where
  "demo_cipher = \<lparr>ci_seal = (\<lambda>p. rev p @ demo_tag),
     ci_open = (\<lambda>x. if length x \<ge> TAG_LEN \<and> drop (length x - TAG_LEN) x = demo_tag then Some (rev (take (length x - TAG_LEN) x)) else None)\<rparr>"

lemma demo_cipher_ok: "cipher_ok demo_cipher"
  by (auto simp: cipher_ok_def demo_cipher_def demo_tag_def)

theorem encrypted_block_roundtrip_witness:
  "enc_read_block demo_block_env demo_cipher EncryptLazy ''r'' (replicate 40 (CHR ''b''))
     (snd (enc_write_block_with_id demo_block_env demo_cipher 5 ''v'' ''r'' (replicate 40 (CHR ''b'')) ''hello'' demo_blocks)) = Inr ''hello'' \<and>
   bc_encrypt demo_cipher ''hello'' \<noteq> ''hello''"
proof -
  have can: "canonical_id (replicate 40 (CHR ''a''))" "canonical_id (replicate 40 (CHR ''b''))" by code_simp+
  have step: "block_step demo_block_env new_block_storage demo_blocks"
    unfolding demo_blocks_def by (rule block_step.put [OF can(1)])
  have reach: "(block_step demo_block_env)\<^sup>*\<^sup>* new_block_storage demo_blocks" using step by (rule r_into_rtranclp)
  have "file_at demo_blocks (block_path demo_block_env ''r'' (replicate 40 (CHR ''b''))) = None" by code_simp
  then have clean: "raw_clean demo_block_env ''r'' demo_blocks (replicate 40 (CHR ''b'')) (bc_encrypt demo_cipher ''hello'')"
    by (simp add: raw_clean_def)
  obtain res s' where w: "enc_write_block_with_id demo_block_env demo_cipher 5 ''v'' ''r'' (replicate 40 (CHR ''b'')) ''hello'' demo_blocks = (res, s')"
    by fastforce
  have "bc_encrypt demo_cipher ''hello'' \<noteq> ''hello''" by code_simp
  moreover have "enc_read_block demo_block_env demo_cipher EncryptLazy ''r'' (replicate 40 (CHR ''b'')) s' = Inr ''hello''"
    using encrypted_block_roundtrip [OF reach demo_cipher_ok _ can(2) clean _ w, of EncryptLazy] by simp
  ultimately show ?thesis by (simp add: w)
qed

section \<open>Conversion of old blocks\<close>

text \<open>
  The bytes a stored file stands for: a header-less file that the cipher accepts is old ciphertext, any
  other header-less file is plaintext.
\<close>

definition legacy_content :: "BlockCipher \<Rightarrow> string \<Rightarrow> string" where
  "legacy_content c raw = (case ci_open c raw of Some p \<Rightarrow> p | None \<Rightarrow> raw)"

definition converted :: "BlockCipher \<Rightarrow> string \<Rightarrow> string" where
  "converted c raw = (if looks_encrypted raw then raw else bc_encrypt c (legacy_content c raw))"

lemma keys_store_block:
  "fst ` set (bs_files (snd (store_block e now u r i data ex s))) \<subseteq>
     insert (block_path e r i) (insert (repo_dir e r @ [REPO_MARKER_FILE]) (fst ` set (bs_files s)))"
proof -
  have put: "fst ` set (bs_files (put_file p d s)) = insert p (fst ` set (bs_files s))" for p d s by (simp add: put_file_def)
  have drop_p: "fst ` set (bs_files (drop_file p s)) = fst ` set (bs_files s) - {p}" for p s
    by (auto simp: drop_file_def set_hm_remove)
  have ins: "bs_files (exists_cache_insert e now r i n s) = bs_files s" for n s by (simp add: exists_cache_insert_def Let_def)
  have ens: "fst ` set (bs_files (ensure_repo_dirs e r s)) \<subseteq> insert (repo_dir e r @ [REPO_MARKER_FILE]) (fst ` set (bs_files s))"
    by (auto simp: ensure_repo_dirs_def put_file_def)
  then show ?thesis
    by (auto simp: store_block_def Let_def stage_block_def publish_block_def rename_file_def put drop_p ins
        split: prod.splits option.splits sum.splits if_splits)
qed

lemma listed_iff:
  "i \<in> set (list_blocks e r s) \<longleftrightarrow>
     is_valid_block_id i \<and> (\<exists>p. length p = 2 \<and> repo_dir e r @ [p, i] \<in> fst ` set (bs_files s))"
proof -
  have g: "i \<in> set (block_name (repo_dir e r) path) \<longleftrightarrow> is_valid_block_id i \<and> (\<exists>p. length p = 2 \<and> path = repo_dir e r @ [p, i])" for path
    by (cases "(repo_dir e r, path)" rule: block_name.cases) (auto simp: repo_dir_def)
  have "i \<in> set (list_blocks e r s) \<longleftrightarrow>
      (\<exists>f\<in>set (bs_files s). is_valid_block_id i \<and> (\<exists>p. length p = 2 \<and> fst f = repo_dir e r @ [p, i]))"
    unfolding list_blocks_def set_concat set_map by (simp add: g split_def)
  then show ?thesis by (metis (no_types, lifting) image_iff)
qed

text \<open>In a proper layout every listed block lies in the directory its id names.\<close>

definition layout_ok :: "block_env \<Rightarrow> BlockStorage \<Rightarrow> bool" where
  "layout_ok e s \<longleftrightarrow> (\<forall>r. \<forall>i\<in>set (list_blocks e r s). file_at s (block_path e r i) \<noteq> None)"

lemma convert_one:
  assumes "is_valid_block_id i" "file_at s (block_path e r i) = Some raw"
    and "enc_convert_legacy_block e c now u r i s = (res, s')"
  shows "res = Inr (\<not> looks_encrypted raw)"
    "is_valid_block_id j \<Longrightarrow> file_at s' (block_path e r' j) =
       (if block_path e r' j = block_path e r i then Some (converted c raw) else file_at s (block_path e r' j))"
    "j \<in> set (list_blocks e r' s') \<Longrightarrow> j \<in> set (list_blocks e r' s) \<or> block_path e r' j = block_path e r i"
proof -
  have rd: "read_block e r i s = Inr raw" using assms(1,2) by (simp add: read_block_def ok_or_def)
  have "res = Inr (\<not> looks_encrypted raw) \<and>
    (\<forall>r' j. is_valid_block_id j \<longrightarrow> file_at s' (block_path e r' j) =
       (if block_path e r' j = block_path e r i then Some (converted c raw) else file_at s (block_path e r' j))) \<and>
    fst ` set (bs_files s') \<subseteq> insert (block_path e r i) (insert (repo_dir e r @ [REPO_MARKER_FILE]) (fst ` set (bs_files s)))"
  proof (cases "looks_encrypted raw")
    case True
    then have "res = Inr False" "s' = s" using assms(3) rd by (simp_all add: enc_convert_legacy_block_def)
    then show ?thesis using True assms(2) by (auto simp: converted_def)
  next
    case False
    define ct where "ct = bc_encrypt c (legacy_content c raw)"
    obtain b s1 where st: "store_block e now u r i ct False s = (b, s1)" by fastforce
    obtain was_new s2 where eff: "b = Inr was_new" "s1 = exists_cache_insert e now r i (length ct) s2"
      "was_new \<longleftrightarrow> \<not> False \<or> file_at s (block_path e r i) = None"
      "\<And>r' j. is_valid_block_id j \<Longrightarrow> file_at s2 (block_path e r' j) =
         (if block_path e r' j = block_path e r i \<and> (was_new \<or> \<not> bv_hard_links e) then Some ct else file_at s (block_path e r' j))"
      by (rule store_block_effect [OF assms(1) st]) blast
    have "res = Inr True" "s' = s1"
      using assms(3) rd False st assms(1) eff(1)
      by (simp_all add: enc_convert_legacy_block_def write_block_with_id_force_def ct_def legacy_content_def bc_decrypt_def Let_def)
    then show ?thesis
      using eff False keys_store_block [of e now u r i ct False s] st by (auto simp: converted_def ct_def)
  qed
  note all = this
  then show "res = Inr (\<not> looks_encrypted raw)"
    "is_valid_block_id j \<Longrightarrow> file_at s' (block_path e r' j) =
       (if block_path e r' j = block_path e r i then Some (converted c raw) else file_at s (block_path e r' j))" by blast+
  assume "j \<in> set (list_blocks e r' s')"
  then obtain p where p: "is_valid_block_id j" "length p = 2" "repo_dir e r' @ [p, j] \<in> fst ` set (bs_files s')"
    by (auto simp: listed_iff)
  then have "repo_dir e r' @ [p, j] = block_path e r i \<or> repo_dir e r' @ [p, j] \<in> fst ` set (bs_files s)"
    using all by (auto simp: repo_dir_def)
  then show "j \<in> set (list_blocks e r' s) \<or> block_path e r' j = block_path e r i"
    using p(1,2) by (auto simp: listed_iff block_path_def repo_dir_def)
qed

lemma listed_present:
  assumes "layout_ok e s"
  shows "i \<in> set (list_blocks e r s) \<longleftrightarrow> is_valid_block_id i \<and> file_at s (block_path e r i) \<noteq> None"
proof
  assume "i \<in> set (list_blocks e r s)"
  then show "is_valid_block_id i \<and> file_at s (block_path e r i) \<noteq> None"
    using assms unfolding layout_ok_def by (metis listed_iff)
next
  assume *: "is_valid_block_id i \<and> file_at s (block_path e r i) \<noteq> None"
  then have "block_path e r i \<in> fst ` set (bs_files s)" by (auto simp: file_at_def map_of_eq_None_iff)
  moreover have "length (take 2 i) = 2" using * by (simp add: is_valid_block_id_def)
  ultimately show "i \<in> set (list_blocks e r s)" using * unfolding listed_iff block_path_def by blast
qed

text \<open>\<open>s'\<close> is \<open>s\<close> with the blocks at the paths \<open>A\<close> converted.\<close>

definition conv :: "block_env \<Rightarrow> BlockCipher \<Rightarrow> string list set \<Rightarrow> BlockStorage \<Rightarrow> BlockStorage \<Rightarrow> bool" where
  "conv e c A s s' \<longleftrightarrow> (layout_ok e s \<longrightarrow> layout_ok e s') \<and>
     (\<forall>r j. is_valid_block_id j \<longrightarrow> file_at s' (block_path e r j) =
        (if block_path e r j \<in> A then map_option (converted c) (file_at s (block_path e r j)) else file_at s (block_path e r j)))"

lemma converted_twice [simp]: "converted c (converted c raw) = converted c raw"
  by (simp add: converted_def encrypt_format)

lemma conv_refl: "conv e c {} s s"
  by (simp add: conv_def)

lemma conv_trans: "conv e c A s s1 \<Longrightarrow> conv e c B s1 s2 \<Longrightarrow> conv e c (A \<union> B) s s2"
  by (auto simp: conv_def option.map_comp comp_def)

lemma conv_present: "conv e c A s s' \<Longrightarrow> is_valid_block_id i \<Longrightarrow> file_at s' (block_path e r i) \<noteq> None \<longleftrightarrow> file_at s (block_path e r i) \<noteq> None"
  by (auto simp: conv_def)

lemma conv_one:
  assumes "is_valid_block_id i" "file_at s (block_path e r i) = Some raw" "enc_convert_legacy_block e c now u r i s = (res, s')"
  shows "conv e c {block_path e r i} s s'"
proof -
  note one = convert_one [OF assms]
  have "layout_ok e s'" if "layout_ok e s"
    unfolding layout_ok_def
  proof (intro allI ballI)
    fix r' j assume j: "j \<in> set (list_blocks e r' s')"
    then have "is_valid_block_id j" by (simp add: listed_iff)
    then show "file_at s' (block_path e r' j) \<noteq> None"
      using one(2) [of j r'] one(3) [OF j] listed_present [OF that, of j r'] by (auto split: if_splits)
  qed
  then show ?thesis using one(2) assms(2) by (auto simp: conv_def)
qed

lemma convert_ids:
  "\<forall>i\<in>set ids. is_valid_block_id i \<and> file_at s (block_path e r i) \<noteq> None \<Longrightarrow>
   \<exists>m s'. fold (convert_step e c now u r) ids (Inr n, s) = (Inr m, s') \<and> conv e c (block_path e r ` set ids) s s'"
proof (induction ids arbitrary: n s)
  case (Cons i ids)
  then obtain raw where raw: "is_valid_block_id i" "file_at s (block_path e r i) = Some raw" by auto
  obtain res s1 where c1: "enc_convert_legacy_block e c now u r i s = (res, s1)" by fastforce
  have one: "res = Inr (\<not> looks_encrypted raw)" "conv e c {block_path e r i} s s1"
    using convert_one(1) [OF raw c1] conv_one [OF raw c1] by auto
  have "\<forall>i\<in>set ids. is_valid_block_id i \<and> file_at s1 (block_path e r i) \<noteq> None"
    using Cons.prems conv_present [OF one(2)] by auto
  from Cons.IH [OF this, of "if looks_encrypted raw then n else n + 1"] obtain m s' where
    rest: "fold (convert_step e c now u r) ids (Inr (if looks_encrypted raw then n else n + 1), s1) = (Inr m, s')"
      "conv e c (block_path e r ` set ids) s1 s'" by blast
  have "convert_step e c now u r i (Inr n, s) = (Inr (if looks_encrypted raw then n else n + 1), s1)"
    using c1 one(1) by simp
  then have "fold (convert_step e c now u r) (i # ids) (Inr n, s) = (Inr m, s')"
    using rest(1) by (simp only: fold_Cons comp_apply)
  moreover have "conv e c (block_path e r ` set (i # ids)) s s'" using conv_trans [OF one(2) rest(2)] by simp
  ultimately show ?case by blast
qed (use conv_refl in auto)

text \<open>The paths at which blocks of the given libraries are stored.\<close>

definition stored_paths :: "block_env \<Rightarrow> BlockStorage \<Rightarrow> string set \<Rightarrow> string list set" where
  "stored_paths e s R = {p. \<exists>r\<in>R. \<exists>i. p = block_path e r i \<and> is_valid_block_id i \<and> file_at s p \<noteq> None}"

lemma stored_paths_insert: "stored_paths e s (insert r R) = stored_paths e s {r} \<union> stored_paths e s R"
  by (auto simp: stored_paths_def)

lemma stored_paths_conv: "conv e c A s s' \<Longrightarrow> stored_paths e s' R = stored_paths e s R"
  using conv_present unfolding stored_paths_def by (metis (no_types, lifting))

lemma convert_repo_ok:
  assumes "layout_ok e s"
  shows "\<exists>m s'. convert_repo e c now u r (Inr n, s) = (Inr m, s') \<and> conv e c (stored_paths e s {r}) s s'"
proof -
  have "block_path e r ` set (list_blocks e r s) = stored_paths e s {r}"
    using listed_present [OF assms] by (auto simp: stored_paths_def)
  then show ?thesis
    using convert_ids [of "list_blocks e r s" s e r c now u n] listed_present [OF assms] by simp
qed

lemma convert_repos:
  "layout_ok e s \<Longrightarrow>
   \<exists>m s'. fold (convert_repo e c now u) rs (Inr n, s) = (Inr m, s') \<and> conv e c (stored_paths e s (set rs)) s s'"
proof (induction rs arbitrary: n s)
  case (Cons r rs)
  obtain m1 s1 where one: "convert_repo e c now u r (Inr n, s) = (Inr m1, s1)" "conv e c (stored_paths e s {r}) s s1"
    using convert_repo_ok [OF Cons.prems] by blast
  have "layout_ok e s1" using one(2) Cons.prems by (simp add: conv_def)
  from Cons.IH [OF this, of m1] obtain m s' where rest: "fold (convert_repo e c now u) rs (Inr m1, s1) = (Inr m, s')"
    "conv e c (stored_paths e s1 (set rs)) s1 s'" by blast
  have "conv e c (stored_paths e s (set (r # rs))) s s'"
    using conv_trans [OF one(2) rest(2)] stored_paths_conv [OF one(2), of "set rs"] stored_paths_insert [of e s r "set rs"] by simp
  then show ?case using one(1) rest(1) by (simp del: convert_repo.simps)
next
  case Nil
  have "stored_paths e s (set []) = {}" by (simp add: stored_paths_def)
  then show ?case using conv_refl by simp
qed

text \<open>
  C19: The conversion job keeps what every block stands for. In a proper layout it succeeds; afterwards
  every block of every library is versioned ciphertext, of the plaintext it was, of the plaintext an
  old ciphertext opens to, or unchanged if it was versioned before (corrupt ones are not rewritten), and
  reads the same with encryption on and in the migration mode. Converting a block again does nothing.
\<close>

theorem conversion_keeps_content:
  assumes "cipher_ok c" "layout_ok e s" "convert_legacy_blocks e c now u s = (res, s')"
    and "r \<in> fst ` set (repo_dirs s)" "is_valid_block_id i" "file_at s (block_path e r i) = Some raw"
  shows "(\<exists>n. res = Inr n) \<and> file_at s' (block_path e r i) = Some (converted c raw) \<and> looks_encrypted (converted c raw) \<and>
    (\<not> looks_encrypted raw \<longrightarrow> enc_read_block e c EncryptOn r i s' = Inr (legacy_content c raw)) \<and>
    enc_read_block e c EncryptLazy r i s' = enc_read_block e c EncryptOn r i s' \<and>
    enc_convert_legacy_block e c now' u' r i s' = (Inr False, s')"
proof -
  obtain m where conv: "res = Inr m" "conv e c (stored_paths e s (fst ` set (repo_dirs s))) s s'"
    using convert_repos [OF assms(2), of c now u "map fst (repo_dirs s)" 0] assms(3) by (auto simp: convert_legacy_blocks_def)
  have "block_path e r i \<in> stored_paths e s (fst ` set (repo_dirs s))"
    using assms(4-6) by (auto simp: stored_paths_def)
  then have f: "file_at s' (block_path e r i) = Some (converted c raw)" using conv(2) assms(5,6) by (simp add: conv_def)
  then have rd: "read_block e r i s' = Inr (converted c raw)" using assms(5) by (simp add: read_block_def ok_or_def)
  have v: "looks_encrypted (converted c raw)" by (simp add: converted_def encrypt_format)
  have "\<not> looks_encrypted raw \<Longrightarrow> enc_read_block e c EncryptOn r i s' = Inr (legacy_content c raw)"
    using rd offload_encrypt [OF assms(1), of EncryptOn] by (simp add: enc_read_block_def converted_def)
  then show ?thesis using conv(1) f rd v
    by (auto simp: enc_read_block_def decrypt_offload_def enc_convert_legacy_block_def)
qed

definition demo_legacy :: BlockStorage where
  "demo_legacy = snd (write_block_with_id demo_block_env 1 ''w'' ''r'' (replicate 40 (CHR ''c'')) (ci_seal demo_cipher ''old'') demo_blocks)"

fun proper_path :: "string list \<Rightarrow> bool" where
  "proper_path [a, b, p, name] \<longleftrightarrow> p = take 2 name"
| "proper_path _ \<longleftrightarrow> True"

lemma layout_okI:
  assumes "list_all (\<lambda>(path, _). proper_path path) (bs_files s)"
  shows "layout_ok e s"
  unfolding layout_ok_def
proof (intro allI ballI)
  fix r i assume "i \<in> set (list_blocks e r s)"
  then obtain p where p: "repo_dir e r @ [p, i] \<in> fst ` set (bs_files s)" by (auto simp: listed_iff)
  then have "proper_path (repo_dir e r @ [p, i])" using assms by (auto simp: list_all_iff)
  then have "block_path e r i \<in> fst ` set (bs_files s)" using p by (simp add: block_path_def repo_dir_def)
  then show "file_at s (block_path e r i) \<noteq> None" by (simp add: file_at_def map_of_eq_None_iff)
qed

theorem conversion_keeps_content_witness:
  "enc_read_block demo_block_env demo_cipher EncryptOn ''r'' (replicate 40 (CHR ''c''))
     (snd (convert_legacy_blocks demo_block_env demo_cipher 9 ''v'' demo_legacy)) = Inr ''old'' \<and>
   enc_read_block demo_block_env demo_cipher EncryptLazy ''r'' (replicate 40 (CHR ''c'')) demo_legacy \<noteq> Inr ''old''"
proof -
  obtain res s' where c: "convert_legacy_blocks demo_block_env demo_cipher 9 ''v'' demo_legacy = (res, s')" by fastforce
  have "list_all (\<lambda>(path, _). proper_path path) (bs_files demo_legacy)" by code_simp
  then have lay: "layout_ok demo_block_env demo_legacy" by (rule layout_okI)
  have "map fst (repo_dirs demo_legacy) = [''r'']" by code_simp
  then have "''r'' \<in> set (map fst (repo_dirs demo_legacy))" by simp
  then have r: "''r'' \<in> fst ` set (repo_dirs demo_legacy)" by simp
  have i: "is_valid_block_id (replicate 40 (CHR ''c''))"
    "file_at demo_legacy (block_path demo_block_env ''r'' (replicate 40 (CHR ''c''))) = Some (ci_seal demo_cipher ''old'')"
    "\<not> looks_encrypted (ci_seal demo_cipher ''old'')" "legacy_content demo_cipher (ci_seal demo_cipher ''old'') = ''old''"
    "enc_read_block demo_block_env demo_cipher EncryptLazy ''r'' (replicate 40 (CHR ''c'')) demo_legacy \<noteq> Inr ''old''"
    by code_simp+
  show ?thesis using conversion_keeps_content [OF demo_cipher_ok lay c r i(1,2)] i(3-5) c by simp
qed

text \<open>
  The migration mode decides by the header alone. A block that was encrypted before the header existed
  is served as it lies on disk: the reader gets ciphertext, of a length that is not the file's.
\<close>

theorem lazy_serves_old_ciphertext:
  assumes "cipher_ok c" "is_valid_block_id i" "file_at s (block_path e r i) = Some (ci_seal c p)" "\<not> looks_encrypted (ci_seal c p)"
  shows "enc_read_block e c EncryptOn r i s = Inr p \<and> enc_read_block e c EncryptLazy r i s = Inr (ci_seal c p) \<and>
    fst (enc_block_size e EncryptLazy now r i s) = Inr (int (length p + TAG_LEN)) \<and> ci_seal c p \<noteq> p"
proof -
  have rd: "read_block e r i s = Inr (ci_seal c p)" using assms by (simp add: read_block_def ok_or_def)
  have size: "block_size e now r i s = (Inr (int (length (ci_seal c p))), exists_cache_insert e now r i (length (ci_seal c p)) s)"
    using assms by (simp add: block_size_def)
  have "ci_seal c p \<noteq> p" using cipher_okD(3) [OF assms(1), of p] by (auto simp: TAG_LEN_def)
  then show ?thesis
    using rd size assms cipher_okD [OF assms(1), of p]
    by (simp add: enc_read_block_def decrypt_offload_def bc_decrypt_def ok_or_def enc_block_size_def read_block_prefix_def
        HEADER_LEN_def MAX_BLOCK_PREFIX_LEN_def Let_def looks_encrypted_take [unfolded HEADER_LEN_def])
qed

end
