(* ===== verification/Download.thy ===== *)
theory Download
  imports EncryptedStore FileOps
begin

text \<open>
  Serving files (\<open>server/src/fs/core/download.rs\<close>): the blocks of a path, whole and ranged bodies, bounded
  previews, and the response with its validators and its single-range semantics.

  A block store is a record of the operations a download calls; its state is passed along because
  asking for a size fills the presence cache. \<open>bo_exact\<close> is \<open>logical_sizes_are_exact\<close>, which no store of the
  server overrides. The key of an encrypted library is a decryption
  function. Offsets are unbounded integers: the sums of block lengths stay far below \<open>2 ^ 64\<close>. The body of a
  response is what its stream yields up to its end or its first error.
\<close>

section \<open>Finding the blocks\<close>

definition resolve_blocks_from_root ::
    "externs \<Rightarrow> fs_objects \<Rightarrow> string \<Rightarrow> string \<Rightarrow> string \<Rightarrow> (FsFileData \<times> string list) result" where
  "resolve_blocks_from_root x db repo_id root_id path =
     rbind (resolve_fs_id x db repo_id root_id path) (\<lambda>fs_id.
     rbind (read_fs_file_data x db repo_id fs_id) (\<lambda>file_data. Inr (file_data, block_ids file_data)))"

definition download_file_stream :: "externs \<Rightarrow> tables \<Rightarrow> string \<Rightarrow> string \<Rightarrow> (FsFileData \<times> string list) result" where
  "download_file_stream x t repo_id path =
     rbind (ok_or (NotFound ''repo not found'') (t_repos t repo_id)) (\<lambda>repo_model.
     rbind (ok_or (NotFound ''repo has no commits'') (rp_head_commit_id repo_model)) (\<lambda>head_commit_id.
     rbind (ok_or (NotFound ''head commit not found'') (t_commits t (repo_id, head_commit_id))) (\<lambda>head_commit.
     resolve_blocks_from_root x (t_objects t) repo_id (cm_root_id head_commit) path)))"

section \<open>Bodies\<close>

record 's block_ops =
  bo_read :: "'s \<Rightarrow> string \<Rightarrow> io_error + string"
  bo_size :: "'s \<Rightarrow> string \<Rightarrow> (io_error + int) \<times> 's"
  bo_exact :: bool

type_synonym file_key = "(string \<Rightarrow> io_error + string) option"

definition decrypt_with :: "file_key \<Rightarrow> string \<Rightarrow> io_error + string" where
  "decrypt_with key data = (case key of Some dec \<Rightarrow> dec data | None \<Rightarrow> Inr data)"

definition fetch_block :: "'s block_ops \<Rightarrow> file_key \<Rightarrow> 's \<Rightarrow> string \<Rightarrow> io_error + string" where
  "fetch_block b key s i = rbind (bo_read b s i) (decrypt_with key)"

text \<open>
  Previews read whole blocks until they have enough. \<open>max_bytes\<close> is a number of bytes in memory.
\<close>

fun read_limited :: "'s block_ops \<Rightarrow> file_key \<Rightarrow> 's \<Rightarrow> nat \<Rightarrow> string list \<Rightarrow> string \<Rightarrow> string result" where
  "read_limited b key s max_bytes [] out = Inr out"
| "read_limited b key s max_bytes (i # ids) out =
     (if length out \<ge> max_bytes then Inr out
      else rbind (map_err (\<lambda>err. Internal (io_display err)) (fetch_block b key s i)) (\<lambda>block_data.
        let remaining = max_bytes - length out;
            taken = min remaining (length block_data);
            out = out @ take taken block_data
        in if taken < length block_data then Inr out else read_limited b key s max_bytes ids out))"

definition read_file_limited_from_blocks :: "'s block_ops \<Rightarrow> file_key \<Rightarrow> 's \<Rightarrow> string list \<Rightarrow> nat \<Rightarrow> string result" where
  "read_file_limited_from_blocks b key s ids max_bytes = read_limited b key s max_bytes ids []"

definition download_file_limited ::
    "externs \<Rightarrow> tables \<Rightarrow> string \<Rightarrow> string \<Rightarrow> 's block_ops \<Rightarrow> file_key \<Rightarrow> 's \<Rightarrow> nat \<Rightarrow> string result" where
  "download_file_limited x t repo_id path b key s max_bytes =
     rbind (download_file_stream x t repo_id path) (\<lambda>(file_data, ids). read_limited b key s max_bytes ids [])"

fun stream_blocks :: "'s block_ops \<Rightarrow> file_key \<Rightarrow> 's \<Rightarrow> string list \<Rightarrow> io_error + string" where
  "stream_blocks b key s [] = Inr []"
| "stream_blocks b key s (i # ids) =
     rbind (map_err (\<lambda>err. IoOther (io_display err)) (bo_read b s i)) (\<lambda>data.
     rbind (decrypt_with key data) (\<lambda>data.
     rbind (stream_blocks b key s ids) (\<lambda>rest. Inr (data @ rest))))"

section \<open>Ranges\<close>

text \<open>\<open>str::parse\<close> into a \<open>u64\<close>: an optional plus sign and at least one digit.\<close>

definition parse_u64 :: "string \<Rightarrow> int option" where
  "parse_u64 str =
     (let ds = (case str of c # cs \<Rightarrow> if c = CHR ''+'' then cs else str | [] \<Rightarrow> []) in
      if ds = [] \<or> \<not> list_all (\<lambda>c. c \<in> set ''0123456789'') ds then None
      else let n = foldl (\<lambda>n c. 10 * n + (of_char c - 48)) 0 ds in if n < 2 ^ 64 then Some n else None)"

definition split_once :: "'a \<Rightarrow> 'a list \<Rightarrow> ('a list \<times> 'a list) option" where
  "split_once c str = (if c \<in> set str then Some (takeWhile (\<lambda>y. y \<noteq> c) str, tl (dropWhile (\<lambda>y. y \<noteq> c) str)) else None)"

definition parse_range :: "string \<Rightarrow> int \<Rightarrow> (int \<times> int) option" where
  "parse_range header total_size =
     Option.bind (strip_prefix (trim header) ''bytes='') (\<lambda>spec.
     if CHR '','' \<in> set spec then None
     else if total_size = 0 then None
     else Option.bind (split_once (CHR ''-'') spec) (\<lambda>(start_s, end_s).
       let start_s = trim start_s; end_s = trim end_s in
       if start_s = []
       then Option.bind (parse_u64 end_s) (\<lambda>n. if n = 0 then None else Some (max 0 (total_size - n), total_size - 1))
       else Option.bind (parse_u64 start_s) (\<lambda>start.
         if start \<ge> total_size then None
         else Option.bind (if end_s = [] then Some (total_size - 1) else map_option (\<lambda>n. min n (total_size - 1)) (parse_u64 end_s)) (\<lambda>last_byte.
           if start > last_byte then None else Some (start, last_byte)))))"

text \<open>
  The fast-forward of a ranged body: blocks that lie before the range by their reported size are
  dropped unread. \<open>None\<close> means that no block is left; otherwise the result is the reported size of the
  block at which the skip stopped (if that was the reason), its offset and the remaining blocks.
\<close>

fun skip_blocks :: "'s block_ops \<Rightarrow> int \<Rightarrow> int \<Rightarrow> string list \<Rightarrow> 's \<Rightarrow> (int option \<times> int \<times> string list) option \<times> 's" where
  "skip_blocks b start pos [] s = (None, s)"
| "skip_blocks b start pos (i # ids) s =
     (case bo_size b s i of
        (Inr n, s) \<Rightarrow>
          if n < 0 then (Some (None, pos, i # ids), s)
          else if pos + n > start then (Some (Some n, pos, i # ids), s)
          else skip_blocks b start (pos + n) ids s
      | (Inl _, s) \<Rightarrow> (Some (None, pos, i # ids), s))"

definition size_mismatch :: "string \<Rightarrow> nat \<Rightarrow> int \<Rightarrow> io_error" where
  "size_mismatch i len expected =
     IoOther (''block '' @ i @ '' is '' @ show_nat len @ '' bytes but its reported size was '' @ show_int expected)"

text \<open>
  What one block contributes: the item, the offset behind the block, and whether the stream is over.
\<close>

definition range_item ::
    "'s block_ops \<Rightarrow> file_key \<Rightarrow> int \<Rightarrow> int \<Rightarrow> int option \<Rightarrow> int \<Rightarrow> string \<Rightarrow> 's \<Rightarrow> (io_error + string) \<times> int \<times> bool" where
  "range_item b key start last_byte expected pos i s =
     (case map_err (\<lambda>err. IoOther (io_display err)) (bo_read b s i) of
        Inl err \<Rightarrow> (Inl err, pos, False)
      | Inr data \<Rightarrow>
     (case decrypt_with key data of
        Inl err \<Rightarrow> (Inl err, pos, False)
      | Inr data \<Rightarrow>
          let len = int (length data) in
          if expected \<noteq> None \<and> expected \<noteq> Some len
          then (Inl (size_mismatch i (length data) (the expected)), pos, True)
          else
            let block_start = pos; block_end = block_start + len in
            if block_start > last_byte then (Inr [], block_end, True)
            else
              let rel_start = max 0 (start - block_start); rel_end = max 0 (last_byte + 1 - block_start) in
              if rel_start \<ge> len then (Inr [], block_end, False)
              else
                let taken = min rel_end len - min rel_start len in
                if taken = 0 then (Inr [], block_end, True)
                else (Inr (take (nat taken) (drop (nat rel_start) data)), block_end, block_end > last_byte)))"

text \<open>One item of the stream: the state is the remaining blocks, the offset and whether it is over.\<close>

definition range_next ::
    "'s block_ops \<Rightarrow> file_key \<Rightarrow> int \<Rightarrow> int \<Rightarrow> string list \<times> int \<times> bool \<Rightarrow> 's \<Rightarrow>
     ((io_error + string) \<times> string list \<times> int \<times> bool) option \<times> 's" where
  "range_next b key start last_byte st s =
     (case st of (ids, pos, fin) \<Rightarrow>
      if fin then (None, s)
      else
        (case (if key = None \<and> bo_exact b \<and> pos < start then skip_blocks b start pos ids s
               else (if ids = [] then None else Some (None, pos, ids), s)) of
           (None, s) \<Rightarrow> (Some (Inr [], [], pos, True), s)
         | (Some (expected, pos, ids), s) \<Rightarrow> (Some (case range_item b key start last_byte expected pos (hd ids) s of
               (item, pos, fin) \<Rightarrow> (item, tl ids, pos, fin)), s)))"

lemma skip_blocks_shorter: "skip_blocks b start pos ids s = (Some (expected, pos', ids'), s') \<Longrightarrow> ids' \<noteq> [] \<and> length ids' \<le> length ids"
  by (induction b start pos ids s rule: skip_blocks.induct) (auto split: prod.splits sum.splits if_splits)

lemma range_next_shorter:
  assumes "range_next b key start last_byte (ids, pos, fin) s = (Some (item, ids', pos', fin'), s')"
  shows "(if fin' then 0 else Suc (length ids')) < (if fin then 0 else Suc (length ids))"
proof -
  obtain sk s1 where sk: "(if key = None \<and> bo_exact b \<and> pos < start then skip_blocks b start pos ids s
      else (if ids = [] then None else Some (None, pos, ids), s)) = (sk, s1)" by fastforce
  have fin: "\<not> fin" using assms by (auto simp: range_next_def split: if_splits)
  show ?thesis
  proof (cases sk)
    case None
    then show ?thesis using assms fin sk by (simp add: range_next_def)
  next
    case (Some q)
    then obtain expected p ids1 where q: "sk = Some (expected, p, ids1)" by (cases q) auto
    then have "ids1 \<noteq> [] \<and> length ids1 \<le> length ids"
      using sk skip_blocks_shorter [of b start pos ids s expected p ids1 s1] by (auto split: if_splits)
    moreover have "ids' = tl ids1" using assms fin sk q by (auto simp: range_next_def split: prod.splits)
    ultimately have "length ids' < length ids" by (cases ids1) auto
    then show ?thesis using fin by simp
  qed
qed

definition range_left :: "string list \<times> int \<times> bool \<Rightarrow> nat" where
  "range_left st = (case st of (ids, pos, fin) \<Rightarrow> if fin then 0 else Suc (length ids))"

lemma range_next_left:
  assumes "(Some (item, st'), s') = range_next b key start last_byte st s"
  shows "range_left st' < range_left st"
proof -
  obtain ids pos fin ids' pos' fin' where st: "st = (ids, pos, fin)" "st' = (ids', pos', fin')" by (metis prod_cases3)
  show ?thesis unfolding st range_left_def prod.case by (rule range_next_shorter [OF assms [unfolded st, symmetric]])
qed

function range_body :: "'s block_ops \<Rightarrow> file_key \<Rightarrow> int \<Rightarrow> int \<Rightarrow> string list \<times> int \<times> bool \<Rightarrow> string \<Rightarrow> 's \<Rightarrow> (io_error + string) \<times> 's" where
  "range_body b key start last_byte st out s =
     (case range_next b key start last_byte st s of
        (None, s) \<Rightarrow> (Inr out, s)
      | (Some (Inl err, _), s) \<Rightarrow> (Inl err, s)
      | (Some (Inr chunk, st), s) \<Rightarrow> range_body b key start last_byte st (out @ chunk) s)"
  by pat_completeness auto

termination
  by (relation "measure (\<lambda>(b, key, start, last_byte, st, out, s). range_left st)") (auto dest: range_next_left)

declare range_body.simps [simp del]

definition range_stream :: "'s block_ops \<Rightarrow> file_key \<Rightarrow> string list \<Rightarrow> int \<Rightarrow> int \<Rightarrow> 's \<Rightarrow> (io_error + string) \<times> 's" where
  "range_stream b key ids start last_byte s = range_body b key start last_byte (ids, 0, False) [] s"

section \<open>The response\<close>

definition hex_upper :: "nat \<Rightarrow> char" where
  "hex_upper n = ''0123456789ABCDEF'' ! n"

definition is_ascii_alphanumeric :: "char \<Rightarrow> bool" where
  "is_ascii_alphanumeric c \<longleftrightarrow>
     (let n = of_char c :: nat in 48 \<le> n \<and> n \<le> 57 \<or> 65 \<le> n \<and> n \<le> 90 \<or> 97 \<le> n \<and> n \<le> 122)"

definition rfc5987_encode :: "string \<Rightarrow> string" where
  "rfc5987_encode name =
     concat (map (\<lambda>c. if is_ascii_alphanumeric c \<or> c \<in> set ''!#$&+-.^_`|~'' then [c]
       else [CHR ''%'', hex_upper (of_char c div 16), hex_upper (of_char c mod 16)]) name)"

definition escape_quoted :: "string \<Rightarrow> string" where
  "escape_quoted name =
     concat (map (\<lambda>c. if c = CHR ''\"'' then [CHR 0x5C, c] else [c])
       (concat (map (\<lambda>c. if c = CHR 0x5C then [c, c] else [c]) name)))"

definition trim_chars :: "char set \<Rightarrow> string \<Rightarrow> string" where
  "trim_chars cs str = rev (dropWhile (\<lambda>c. c \<in> cs) (rev (dropWhile (\<lambda>c. c \<in> cs) str)))"

definition ascii_fallback :: "string \<Rightarrow> string" where
  "ascii_fallback name =
     (let trimmed = trim_chars {CHR '' '', CHR ''.''} (filter (\<lambda>c. let n = of_char c :: nat in 32 \<le> n \<and> n \<le> 126) name) in
      if trimmed = [] then ''download'' else escape_quoted trimmed)"

definition content_disposition :: "string \<Rightarrow> bool \<Rightarrow> string" where
  "content_disposition filename attachment =
     (let mode = (if attachment then ''attachment'' else ''inline'');
          fallback = (if list_all (\<lambda>c. (of_char c :: nat) < 128) filename then escape_quoted filename else ascii_fallback filename)
      in mode @ '';filename*=utf-8'' @ [CHR 0x27, CHR 0x27] @ rfc5987_encode filename @ '';filename='' @ [CHR 0x22] @ fallback @ [CHR 0x22])"

definition blocks_etag :: "(string \<Rightarrow> string) \<Rightarrow> string list \<Rightarrow> string" where
  "blocks_etag sha1 ids = [CHR 0x22] @ sha1 (concat (map (\<lambda>i. i @ ''|'') ids)) @ [CHR 0x22]"

definition if_none_match :: "string option \<Rightarrow> string \<Rightarrow> bool" where
  "if_none_match header etag =
     (case header of
        None \<Rightarrow> False
      | Some v \<Rightarrow> v = ''*'' \<or>
          list_ex (\<lambda>candidate. let candidate = trim candidate in
            (case strip_prefix candidate ''W/'' of Some c \<Rightarrow> c | None \<Rightarrow> candidate) = etag) (split_on (CHR '','') v))"

record FileDownloadParams =
  dp_block_ids :: "string list"
  dp_enc_key :: file_key
  dp_total_size :: int
  dp_content_type :: string
  dp_content_disposition :: "string option"
  dp_range_header :: "string option"
  dp_etag :: "string option"
  dp_head_only :: bool

record download_response =
  dr_status :: nat
  dr_headers :: "(string \<times> string) list"
  dr_body :: "(io_error + string) option"

text \<open>\<open>HeaderValue::from_str\<close> takes visible ASCII and tabs.\<close>

definition header_value_ok :: "string \<Rightarrow> bool" where
  "header_value_ok v \<longleftrightarrow> list_all (\<lambda>c. let n = of_char c :: nat in 32 \<le> n \<and> n < 127 \<or> n = 9) v"

definition file_download_headers :: "FileDownloadParams \<Rightarrow> (string \<times> string) list" where
  "file_download_headers p =
     (let headers = [(''content-type'', dp_content_type p), (''accept-ranges'', ''bytes''), (''cache-control'', ''private, max-age=604800'')];
          headers = (case dp_etag p of Some etag \<Rightarrow> if header_value_ok etag then hm_insert ''etag'' etag headers else headers | None \<Rightarrow> headers)
      in case dp_content_disposition p of
           Some d \<Rightarrow> hm_insert ''content-disposition'' (if header_value_ok d then d else ''attachment'') headers
         | None \<Rightarrow> headers)"

definition file_download_response :: "'s block_ops \<Rightarrow> FileDownloadParams \<Rightarrow> 's \<Rightarrow> download_response \<times> 's" where
  "file_download_response b p s =
     (let headers = file_download_headers p; total_size = dp_total_size p;
          full = hm_insert ''content-length'' (show_int total_size) headers;
          whole = (if dp_head_only p then (\<lparr>dr_status = 200, dr_headers = full, dr_body = None\<rparr>, s)
                   else (\<lparr>dr_status = 200, dr_headers = full, dr_body = Some (stream_blocks b (dp_enc_key p) s (dp_block_ids p))\<rparr>, s))
      in case dp_range_header p of
           None \<Rightarrow> whole
         | Some range_header \<Rightarrow>
             (case parse_range range_header total_size of
                Some (start, last_byte) \<Rightarrow>
                  let headers = hm_insert ''content-length'' (show_int (last_byte - start + 1))
                        (hm_insert ''content-range'' (''bytes '' @ show_int start @ ''-'' @ show_int last_byte @ ''/'' @ show_int total_size) headers) in
                  if dp_head_only p then (\<lparr>dr_status = 206, dr_headers = headers, dr_body = None\<rparr>, s)
                  else (case range_stream b (dp_enc_key p) (dp_block_ids p) start last_byte s of
                          (body, s) \<Rightarrow> (\<lparr>dr_status = 206, dr_headers = headers, dr_body = Some body\<rparr>, s))
              | None \<Rightarrow>
                  if total_size > 0
                  then (\<lparr>dr_status = 416, dr_headers = hm_insert ''content-range'' (''bytes */'' @ show_int total_size) headers, dr_body = None\<rparr>, s)
                  else whole))"

section \<open>Ranged bodies are slices\<close>

text \<open>The part of some bytes at offset \<open>pos\<close> that lies in the range.\<close>

definition seg :: "int \<Rightarrow> int \<Rightarrow> int \<Rightarrow> 'a list \<Rightarrow> 'a list" where
  "seg start last_byte pos xs = drop (nat (start - pos)) (take (nat (last_byte + 1 - pos)) xs)"

lemma seg_append: "seg a l pos (xs @ ys) = seg a l pos xs @ seg a l (pos + int (length xs)) ys"
proof -
  have t: "nat (l + 1 - pos) - length xs = nat (l + 1 - (pos + int (length xs)))" by linarith
  have d: "nat (a - pos) - length (take (nat (l + 1 - pos)) xs) = nat (a - (pos + int (length xs)))"
    if "length xs \<le> nat (l + 1 - pos)" using that by simp
  show ?thesis
  proof (cases "length xs \<le> nat (l + 1 - pos)")
    case True
    then show ?thesis using t d by (simp add: seg_def)
  next
    case False
    then show ?thesis using t by (simp add: seg_def)
  qed
qed

lemma seg_before: "pos + int (length xs) \<le> a \<Longrightarrow> seg a l pos xs = []"
  by (simp add: seg_def)

lemma seg_behind: "l < pos \<Longrightarrow> seg a l pos xs = []"
  by (simp add: seg_def)

lemma seg_mid: "a \<le> l \<Longrightarrow> 0 \<le> a \<Longrightarrow> seg a l 0 xs = take (nat (l - a + 1)) (drop (nat a) xs)"
proof -
  assume "a \<le> l" "0 \<le> a"
  then have "nat (l + 1) - nat a = nat (l - a + 1)" by linarith
  then show ?thesis by (simp add: seg_def drop_take)
qed

lemma seg_Nil [simp]: "seg a l pos [] = []"
  by (simp add: seg_def)

lemma range_item_seg:
  assumes "start \<le> last_byte" "bo_read b s i = Inr raw" "decrypt_with key raw = Inr d" "expected = None \<or> expected = Some (int (length d))"
  shows "\<exists>fin. range_item b key start last_byte expected pos i s = (Inr (seg start last_byte pos d), pos + int (length d), fin) \<and>
    (fin \<longrightarrow> last_byte < pos + int (length d))"
proof -
  let ?len = "int (length d)"
  have ex: "\<not> (expected \<noteq> None \<and> expected \<noteq> Some ?len)" using assms(4) by auto
  consider (behind) "pos > last_byte" | (before) "pos \<le> last_byte" "max 0 (start - pos) \<ge> ?len"
    | (inside) "pos \<le> last_byte" "max 0 (start - pos) < ?len" by linarith
  then show ?thesis
  proof cases
    case behind
    then show ?thesis using assms(2,3) ex by (auto simp: range_item_def Let_def seg_behind)
  next
    case before
    then have "seg start last_byte pos d = []" by (cases "start \<le> pos") (auto simp: seg_before)
    then show ?thesis using assms(2,3) ex before by (auto simp: range_item_def Let_def)
  next
    case inside
    let ?a = "max 0 (start - pos)" and ?e = "max 0 (last_byte + 1 - pos)"
    have taken: "min ?e ?len - min ?a ?len \<noteq> 0" using assms(1) inside by linarith
    have n: "nat ?a = nat (start - pos)" "nat (min ?e ?len - min ?a ?len) = min (nat (last_byte + 1 - pos)) (length d) - nat (start - pos)"
    proof -
      have a: "min ?a ?len = ?a" "?e = last_byte + 1 - pos" "0 \<le> ?a" using inside by simp_all
      have "nat (min (last_byte + 1 - pos) ?len) = min (nat (last_byte + 1 - pos)) (length d)" by (simp add: min_def nat_le_iff)
      then show "nat (min ?e ?len - min ?a ?len) = min (nat (last_byte + 1 - pos)) (length d) - nat (start - pos)"
        unfolding a(1,2) using nat_diff_distrib' [of "min (last_byte + 1 - pos) ?len" ?a] a(3) inside(1) by (simp add: max_def)
    qed (simp add: max_def)
    have "take (nat (min ?e ?len - min ?a ?len)) (drop (nat ?a) d) = seg start last_byte pos d"
      unfolding n seg_def drop_take by (simp add: min_def)
    then have body: "take (nat (min ?e ?len - min ?a ?len)) (drop (nat ?a) d) = seg start last_byte pos d" .
    have "\<not> pos > last_byte" "\<not> ?a \<ge> ?len" using inside by linarith+
    then have "range_item b key start last_byte expected pos i s =
        (Inr (take (nat (min ?e ?len - min ?a ?len)) (drop (nat ?a) d)), pos + ?len, pos + ?len > last_byte)"
      unfolding range_item_def Let_def assms(2) map_err_def sum.case assms(3) if_not_P [OF ex]
      by (simp only: if_False taken)
    then show ?thesis unfolding body by simp
  qed
qed

context sized_reader
begin

abbreviation ops :: "bool \<Rightarrow> 's block_ops" where
  "ops x \<equiv> \<lparr>bo_read = rd, bo_size = sz, bo_exact = x\<rparr>"

lemma skip_blocks_seg:
  assumes "\<forall>j. rd s j = rd s0 j"
  shows "list_all2 (\<lambda>i d. rd s0 i = Inr d) ids ds \<Longrightarrow> skip_blocks (ops x) start pos ids s = (res, s') \<Longrightarrow>
   (\<forall>j. rd s' j = rd s0 j) \<and>
   (case res of
      None \<Rightarrow> seg start last_byte pos (concat ds) = []
    | Some (expected, pos', ids') \<Rightarrow> \<exists>ds'. list_all2 (\<lambda>i d. rd s0 i = Inr d) ids' ds' \<and> ids' \<noteq> [] \<and> length ids' \<le> length ids \<and>
        (expected = None \<or> expected = Some (int (length (hd ds')))) \<and>
        seg start last_byte pos (concat ds) = seg start last_byte pos' (concat ds'))"
  using assms
proof (induction ids arbitrary: ds pos s)
  case (Cons i ids)
  then obtain d ds1 where ds: "ds = d # ds1" "rd s0 i = Inr d" "list_all2 (\<lambda>i d. rd s0 i = Inr d) ids ds1"
    by (auto simp: list_all2_Cons1)
  obtain r s1 where r: "sz s i = (r, s1)" by fastforce
  have keep: "\<forall>j. rd s1 j = rd s0 j" using size_keeps [of s i] r Cons.prems(3) by simp
  have len: "r = Inr n \<Longrightarrow> n = int (length d)" for n using size_exact [of s i n d] r ds(2) Cons.prems(3) by simp
  show ?case
  proof (cases "\<exists>n. r = Inr n \<and> pos + n \<le> start")
    case True
    then have "skip_blocks (ops x) start (pos + int (length d)) ids s1 = (res, s')" "pos + int (length d) \<le> start"
      using Cons.prems(2) r len by auto
    then show ?thesis
      using Cons.IH [OF ds(3) _ keep, of "pos + int (length d)"] seg_before [of pos d start last_byte]
      by (cases res) (auto simp: ds(1) seg_append split: prod.splits)
  next
    case False
    have out: "s' = s1" "\<exists>ex. res = Some (ex, pos, i # ids) \<and> (ex = None \<or> ex = Some (int (length d)))"
      using Cons.prems(2) r len False by (auto split: sum.splits if_splits)
    then obtain ex where ex: "res = Some (ex, pos, i # ids)" "ex = None \<or> ex = Some (int (length d))" by blast
    then show ?thesis using out(1) keep Cons.prems(1) ds(1) by (auto intro!: exI [of _ ds])
  qed
qed simp

lemma range_body_seg:
  assumes "start \<le> last_byte"
  shows "list_all2 (\<lambda>i d. fetch_block (ops x) key s0 i = Inr d) ids ds \<Longrightarrow> \<forall>j. rd s j = rd s0 j \<Longrightarrow>
    \<exists>s'. range_body (ops x) key start last_byte (ids, pos, False) out s = (Inr (out @ seg start last_byte pos (concat ds)), s')"
proof (induction "length ids" arbitrary: ids ds pos out s rule: less_induct)
  case less
  obtain sk s1 where sk: "(if key = None \<and> x \<and> pos < start then skip_blocks (ops x) start pos ids s
      else (if ids = [] then None else Some (None, pos, ids), s)) = (sk, s1)" by fastforce
  have skipped: "(\<forall>j. rd s1 j = rd s0 j) \<and>
     (case sk of
        None \<Rightarrow> seg start last_byte pos (concat ds) = []
      | Some (expected, pos', ids') \<Rightarrow> \<exists>ds'. list_all2 (\<lambda>i d. fetch_block (ops x) key s0 i = Inr d) ids' ds' \<and> ids' \<noteq> [] \<and> length ids' \<le> length ids \<and>
          (expected = None \<or> expected = Some (int (length (hd ds')))) \<and>
          seg start last_byte pos (concat ds) = seg start last_byte pos' (concat ds'))"
  proof (cases "key = None \<and> x \<and> pos < start")
    case True
    then have eq: "fetch_block (ops x) key s0 i = rd s0 i" for i
      by (auto simp: fetch_block_def decrypt_with_def rbind_def split: sum.splits)
    show ?thesis unfolding eq
      by (rule skip_blocks_seg [OF less.prems(2) less.prems(1) [unfolded eq]]) (use sk True in simp)
  next
    case False
    then have "sk = (if ids = [] then None else Some (None, pos, ids))" "s1 = s" using sk by auto
    then show ?thesis using less.prems by auto
  qed
  show ?case
  proof (cases sk)
    case None
    then have "range_next (ops x) key start last_byte (ids, pos, False) s = (Some (Inr [], [], pos, True), s1)" using sk by (simp add: range_next_def)
    then show ?thesis using None skipped
      by (subst range_body.simps, simp, subst range_body.simps) (simp add: range_next_def)
  next
    case (Some q)
    then obtain ex pos' ids' ds' where q: "sk = Some (ex, pos', ids')" "list_all2 (\<lambda>i d. fetch_block (ops x) key s0 i = Inr d) ids' ds'"
        "ids' \<noteq> []" "length ids' \<le> length ids" "ex = None \<or> ex = Some (int (length (hd ds')))"
        "seg start last_byte pos (concat ds) = seg start last_byte pos' (concat ds')"
      using skipped by (cases q) auto
    then obtain i ids2 d ds2 where c: "ids' = i # ids2" "ds' = d # ds2" "fetch_block (ops x) key s0 i = Inr d"
        "list_all2 (\<lambda>i d. fetch_block (ops x) key s0 i = Inr d) ids2 ds2" by (cases ids') (auto simp: list_all2_Cons1)
    have keep: "\<forall>j. rd s1 j = rd s0 j" using skipped by blast
    obtain raw where raw: "rd s1 i = Inr raw" "decrypt_with key raw = Inr d"
      using c(3) keep by (auto simp: fetch_block_def rbind_def split: sum.splits)
    obtain fin where item: "range_item (ops x) key start last_byte ex pos' i s1 = (Inr (seg start last_byte pos' d), pos' + int (length d), fin)"
        "fin \<longrightarrow> last_byte < pos' + int (length d)"
      using range_item_seg [OF assms, of "ops x" s1 i raw key d ex pos'] raw q(5) c(2) by auto
    have nxt: "range_next (ops x) key start last_byte (ids, pos, False) s =
        (Some (Inr (seg start last_byte pos' d), ids2, pos' + int (length d), fin), s1)"
      using sk q(1) c(1) item(1) by (simp add: range_next_def)
    have goal: "seg start last_byte pos (concat ds) = seg start last_byte pos' d @ seg start last_byte (pos' + int (length d)) (concat ds2)"
      using q(6) c(2) by (simp add: seg_append)
    show ?thesis
    proof (cases fin)
      case True
      then have "seg start last_byte (pos' + int (length d)) (concat ds2) = []" using item(2) by (simp add: seg_behind)
      then show ?thesis using nxt goal True
        by (subst range_body.simps, simp, subst range_body.simps) (simp add: range_next_def)
    next
      case False
      have "length ids2 < length ids" using q(4) c(1) by simp
      from less.hyps [OF this c(4) keep, of "pos' + int (length d)" "out @ seg start last_byte pos' d"]
      show ?thesis using nxt goal False by (subst range_body.simps) simp
    qed
  qed
qed

lemma range_stream_slice:
  assumes "0 \<le> start" "start \<le> last_byte" "list_all2 (\<lambda>i d. fetch_block (ops x) key s i = Inr d) ids ds"
  shows "fst (range_stream (ops x) key ids start last_byte s) = Inr (take (nat (last_byte - start + 1)) (drop (nat start) (concat ds)))"
  using range_body_seg [OF assms(2,3), of s 0 "[]"] seg_mid [OF assms(2,1), of "concat ds"] by (auto simp: range_stream_def)

end

lemma stream_blocks_whole:
  "list_all2 (\<lambda>i d. fetch_block b key s i = Inr d) ids ds \<Longrightarrow> stream_blocks b key s ids = Inr (concat ds)"
proof (induction ids arbitrary: ds)
  case (Cons i ids)
  then obtain d ds1 raw where "ds = d # ds1" "bo_read b s i = Inr raw" "decrypt_with key raw = Inr d"
      "list_all2 (\<lambda>i d. fetch_block b key s i = Inr d) ids ds1"
    by (auto simp: list_all2_Cons1 fetch_block_def rbind_def split: sum.splits)
  then show ?case using Cons.IH by simp
qed simp

lemma read_limited_prefix:
  "list_all2 (\<lambda>i d. fetch_block b key s i = Inr d) ids ds \<Longrightarrow> length out \<le> mx \<Longrightarrow>
   read_limited b key s mx ids out = Inr (take mx (out @ concat ds))"
proof (induction ids arbitrary: ds out)
  case (Cons i ids)
  then obtain d ds1 where ds: "ds = d # ds1" "fetch_block b key s i = Inr d" "list_all2 (\<lambda>i d. fetch_block b key s i = Inr d) ids ds1"
    by (auto simp: list_all2_Cons1)
  show ?case
  proof (cases "length out = mx \<or> mx - length out < length d")
    case True
    then show ?thesis using Cons.prems(2) ds by (auto simp: Let_def)
  next
    case False
    then have "length (out @ d) \<le> mx" using Cons.prems(2) by auto
    then show ?thesis using Cons.IH [OF ds(3), of "out @ d"] False Cons.prems(2) ds by (simp add: Let_def)
  qed
qed simp

section \<open>Responses\<close>

lemma digits_nonneg:
  "0 \<le> (a::int) \<Longrightarrow> list_all (\<lambda>c. 48 \<le> (of_char c :: int)) ds \<Longrightarrow> 0 \<le> foldl (\<lambda>n c. 10 * n + (of_char c - 48)) a ds"
  by (induction ds arbitrary: a) auto

lemma digit_chars: "list_all (\<lambda>c. c \<in> set ''0123456789'') ds \<Longrightarrow> list_all (\<lambda>c. 48 \<le> (of_char c :: int)) ds"
proof -
  have "list_all (\<lambda>c. 48 \<le> (of_char c :: int)) ''0123456789''" by code_simp
  then show "list_all (\<lambda>c. c \<in> set ''0123456789'') ds \<Longrightarrow> ?thesis" unfolding list_all_iff by blast
qed

lemma parse_u64_nonneg:
  assumes "parse_u64 str = Some n"
  shows "0 \<le> n"
proof -
  define ds where "ds = (case str of c # cs \<Rightarrow> if c = CHR ''+'' then cs else str | [] \<Rightarrow> [])"
  have eq: "parse_u64 str = (if ds = [] \<or> \<not> list_all (\<lambda>c. c \<in> set ''0123456789'') ds then None
      else let n = foldl (\<lambda>n c. 10 * n + (of_char c - 48)) 0 ds in if n < 2 ^ 64 then Some n else None)"
    unfolding parse_u64_def ds_def by (simp only: Let_def)
  have ok: "list_all (\<lambda>c. c \<in> set ''0123456789'') ds"
  proof (rule ccontr)
    assume "\<not> ?thesis"
    then have "parse_u64 str = None" unfolding eq by (simp only: simp_thms if_True)
    then show False using assms by simp
  qed
  have "n = foldl (\<lambda>n c. 10 * n + (of_char c - 48)) 0 ds"
    using assms unfolding eq Let_def by (metis (no_types, lifting) option.distinct(1) option.inject)
  then show ?thesis using digits_nonneg [OF _ digit_chars [OF ok], of 0] by simp
qed

lemma parse_range_bounds:
  assumes "parse_range header total_size = Some (start, last_byte)" "0 \<le> total_size"
  shows "0 \<le> start \<and> start \<le> last_byte \<and> last_byte < total_size"
proof -
  have pos: "total_size \<noteq> 0" using assms(1) by (auto simp: parse_range_def Let_def split: bind_splits if_splits)
  show ?thesis
    using assms pos
    by (auto simp: parse_range_def Let_def dest!: parse_u64_nonneg split: bind_splits if_splits prod.splits)
qed

text \<open>The operations of the store as a download sees them, at one moment and for one library.\<close>

definition sealed_ops :: "block_env \<Rightarrow> BlockCipher \<Rightarrow> BlockEncryptionMode \<Rightarrow> int \<Rightarrow> string \<Rightarrow> BlockStorage block_ops" where
  "sealed_ops e c mode now repo_id =
     \<lparr>bo_read = (\<lambda>s i. enc_read_block e c mode repo_id i s), bo_size = (\<lambda>s i. enc_block_size e mode now repo_id i s), bo_exact = True\<rparr>"

definition raw_ops :: "block_env \<Rightarrow> int \<Rightarrow> string \<Rightarrow> BlockStorage block_ops" where
  "raw_ops e now repo_id = \<lparr>bo_read = (\<lambda>s i. read_block e repo_id i s), bo_size = (\<lambda>s i. block_size e now repo_id i s), bo_exact = True\<rparr>"

lemma raw_range_slice:
  assumes "0 \<le> start" "start \<le> last_byte" "list_all2 (\<lambda>i d. fetch_block (raw_ops e now r) key s i = Inr d) ids ds"
  shows "fst (range_stream (raw_ops e now r) key ids start last_byte s) = Inr (take (nat (last_byte - start + 1)) (drop (nat start) (concat ds)))"
  using assms unfolding raw_ops_def by (rule raw.range_stream_slice)

text \<open>
  C16: What a client gets for a file of a library, with any mode of encryption at rest and with or without
  a library key. When the blocks can be read and hold as many bytes as the file declares: without a
  range it gets the whole file; with a range that parses it gets exactly those bytes, as many as the
  content length announces, never outside the file; with any other range on a non-empty file it gets an
  error and no body. A request for the headers alone gets the same status and headers.
\<close>

theorem download_exact:
  assumes "cipher_ok c" "b = sealed_ops e c mode now r" "list_all2 (\<lambda>i d. fetch_block b (dp_enc_key p) s i = Inr d) (dp_block_ids p) ds"
    and "dp_total_size p = int (length (concat ds))" "\<not> dp_head_only p" "resp = fst (file_download_response b p s)"
  shows "(case dp_range_header p of
        None \<Rightarrow> dr_status resp = 200 \<and> dr_body resp = Some (Inr (concat ds)) \<and>
          map_of (dr_headers resp) ''content-length'' = Some (show_int (int (length (concat ds))))
      | Some h \<Rightarrow>
          (case parse_range h (dp_total_size p) of
             Some (start, last_byte) \<Rightarrow> \<exists>body. dr_status resp = 206 \<and> dr_body resp = Some (Inr body) \<and>
               body = take (nat (last_byte - start + 1)) (drop (nat start) (concat ds)) \<and>
               int (length body) = last_byte - start + 1 \<and> last_byte < int (length (concat ds)) \<and>
               map_of (dr_headers resp) ''content-length'' = Some (show_int (int (length body)))
           | None \<Rightarrow> if concat ds = [] then dr_status resp = 200 \<and> dr_body resp = Some (Inr []) else dr_status resp = 416 \<and> dr_body resp = None)) \<and>
    dr_status (fst (file_download_response b (p\<lparr>dp_head_only := True\<rparr>) s)) = dr_status resp \<and>
    dr_headers (fst (file_download_response b (p\<lparr>dp_head_only := True\<rparr>) s)) = dr_headers resp"
proof -
  have whole: "stream_blocks b (dp_enc_key p) s (dp_block_ids p) = Inr (concat ds)" by (rule stream_blocks_whole [OF assms(3)])
  have range: "fst (range_stream b (dp_enc_key p) (dp_block_ids p) start last_byte s) =
      Inr (take (nat (last_byte - start + 1)) (drop (nat start) (concat ds)))" if "0 \<le> start" "start \<le> last_byte" for start last_byte
    using sized_reader.range_stream_slice [OF sealed_reader [OF assms(1)] that, of e mode r now True "dp_enc_key p" s "dp_block_ids p" ds] assms(3)
    unfolding assms(2) sealed_ops_def .
  have hdr: "file_download_headers (p\<lparr>dp_head_only := True\<rparr>) = file_download_headers p" by (simp add: file_download_headers_def)
  show ?thesis
  proof (cases "dp_range_header p")
    case None
    then show ?thesis using assms(4-6) whole hdr by (simp add: file_download_response_def Let_def)
  next
    case (Some h)
    show ?thesis
    proof (cases "parse_range h (dp_total_size p)")
      case None
      then show ?thesis using Some assms(4-6) whole hdr by (auto simp: file_download_response_def Let_def)
    next
      case (Some q)
      then obtain start last_byte where q: "parse_range h (dp_total_size p) = Some (start, last_byte)" by (cases q) auto
      have bounds: "0 \<le> start" "start \<le> last_byte" "last_byte < int (length (concat ds))"
        using parse_range_bounds [OF q] assms(4) by auto
      have len: "int (length (take (nat (last_byte - start + 1)) (drop (nat start) (concat ds)))) = last_byte - start + 1"
        using bounds by simp
      obtain s1 where "range_stream b (dp_enc_key p) (dp_block_ids p) start last_byte s =
          (Inr (take (nat (last_byte - start + 1)) (drop (nat start) (concat ds))), s1)"
        using range [OF bounds(1,2)] by (metis prod.collapse)
      then show ?thesis using \<open>dp_range_header p = Some h\<close> q assms(5,6) hdr len bounds(3)
        by (simp add: file_download_response_def Let_def)
    qed
  qed
qed

text \<open>A file of two blocks, one written with encryption at rest and one before it.\<close>

definition demo_file_store :: BlockStorage where
  "demo_file_store = snd (enc_write_block_with_id demo_block_env demo_cipher 5 ''v'' ''r'' (replicate 40 (CHR ''b'')) ''hello'' demo_blocks)"

definition demo_download :: FileDownloadParams where
  "demo_download = \<lparr>dp_block_ids = [replicate 40 (CHR ''b''), replicate 40 (CHR ''a'')], dp_enc_key = None, dp_total_size = 6,
     dp_content_type = ''text/plain'', dp_content_disposition = None, dp_range_header = Some ''bytes=4-9'', dp_etag = None, dp_head_only = False\<rparr>"

theorem download_exact_witness:
  "dr_status (fst (file_download_response (sealed_ops demo_block_env demo_cipher EncryptLazy 7 ''r'') demo_download demo_file_store)) = 206 \<and>
   dr_body (fst (file_download_response (sealed_ops demo_block_env demo_cipher EncryptLazy 7 ''r'') demo_download demo_file_store)) = Some (Inr ''ox'')"
proof -
  have sizes: "dp_total_size demo_download = int (length (concat [''hello'', ''x'']))" "\<not> dp_head_only demo_download"
    by (simp_all add: demo_download_def)
  have b1: "enc_read_block demo_block_env demo_cipher EncryptLazy ''r'' (replicate 40 (CHR ''b'')) demo_file_store = Inr ''hello''"
    and b2: "enc_read_block demo_block_env demo_cipher EncryptLazy ''r'' (replicate 40 (CHR ''a'')) demo_file_store = Inr ''x''"
    by code_simp+
  have blocks: "list_all2 (\<lambda>i d. fetch_block (sealed_ops demo_block_env demo_cipher EncryptLazy 7 ''r'') (dp_enc_key demo_download) demo_file_store i = Inr d)
      (dp_block_ids demo_download) [''hello'', ''x'']"
    using b1 b2 by (simp add: demo_download_def fetch_block_def sealed_ops_def decrypt_with_def rbind_def)
  have range: "dp_range_header demo_download = Some ''bytes=4-9''" "parse_range ''bytes=4-9'' (dp_total_size demo_download) = Some (4, 5)"
    by code_simp+
  show ?thesis
    using download_exact [OF demo_cipher_ok refl blocks sizes refl] by (simp add: range)
qed

end
