(* ===== verification/BlockMigration.thy ===== *)
theory BlockMigration
  imports BlockStore FsObject "HOL-Library.Product_Lexorder"
begin

text \<open>
  The migration of the flat block layout (\<open>server/src/fs/core/block_migration.rs\<close> and the layout helpers of
  \<open>infra/src/storage/block_store.rs\<close>): every referenced block is copied below each library that references
  it, then the flat tree is removed.

  A block root has its files and the directories at its top; the latter are explicit here because an
  empty one matters. The rows of \<open>fs_objects\<close> come in the order the database returns them, the parser of
  a file object is an argument, and so are the random suffixes, one per copy. The database answers.
\<close>

section \<open>The flat layout\<close>

record block_root =
  lr_dirs :: "string list"
  lr_files :: "(string list \<times> string) list"

definition open_store :: "block_root \<Rightarrow> BlockStorage" where
  "open_store root = new_block_storage\<lparr>bs_files := lr_files root\<rparr>"

definition layout_is_current :: "BlockStorage \<Rightarrow> bool" where
  "layout_is_current s = (case file_at s [LAYOUT_MARKER_FILE] of Some v \<Rightarrow> trim v = LAYOUT_VERSION | None \<Rightarrow> False)"

definition write_layout_marker :: "BlockStorage \<Rightarrow> BlockStorage" where
  "write_layout_marker s = put_file [LAYOUT_MARKER_FILE] LAYOUT_VERSION s"

definition legacy_layout_dirs :: "string list \<Rightarrow> string list" where
  "legacy_layout_dirs dirs = filter (\<lambda>name. length name = 2 \<and> list_all hexdigit name) dirs"

definition legacy_layout_present :: "string list \<Rightarrow> bool" where
  "legacy_layout_present dirs \<longleftrightarrow> legacy_layout_dirs dirs \<noteq> []"

definition legacy_block_path :: "string \<Rightarrow> string list" where
  "legacy_block_path block_id = [take 2 block_id, block_id]"

fun legacy_block :: "string \<Rightarrow> string list \<times> string \<Rightarrow> (string \<times> nat) list" where
  "legacy_block dir ([d, name], data) =
     (if d = dir \<and> length name = 40 \<and> list_all hexdigit name then [(name, length data)] else [])"
| "legacy_block dir _ = []"

definition legacy_blocks :: "string list \<Rightarrow> BlockStorage \<Rightarrow> (string \<times> nat) list" where
  "legacy_blocks dirs s = concat (map (\<lambda>dir. concat (map (legacy_block dir) (bs_files s))) (legacy_layout_dirs dirs))"

datatype LegacyCopyOutcome = Copied | AlreadyPresent | MissingSource

definition size_differs :: "string \<Rightarrow> nat \<Rightarrow> nat \<Rightarrow> io_error" where
  "size_differs block_id dest src =
     InvalidData (''block '' @ block_id @ '' already exists with a different size (dest '' @ show_nat dest @ '', source '' @ show_nat src @ '')'')"

definition migrate_legacy_block ::
    "block_env \<Rightarrow> int \<Rightarrow> string \<Rightarrow> string \<Rightarrow> string \<Rightarrow> BlockStorage \<Rightarrow> (io_error + LegacyCopyOutcome) \<times> BlockStorage" where
  "migrate_legacy_block e now u repo_id block_id s =
     (if \<not> is_valid_block_id block_id then (Inl invalid_block_id, s)
      else case file_at s (legacy_block_path block_id) of
        None \<Rightarrow> (Inr MissingSource, s)
      | Some src \<Rightarrow>
          let dst = block_path e repo_id block_id in
          (case file_at s dst of
             Some m \<Rightarrow>
               if length m = length src then (Inr AlreadyPresent, s)
               else (Inl (size_differs block_id (length m) (length src)), s)
           | None \<Rightarrow>
               let s = ensure_repo_dirs e repo_id s;
                   tmp = tmp_path e u repo_id block_id;
                   s = put_file tmp src s
               in (case rename_file tmp dst s of
                     (Inl err, s) \<Rightarrow> (Inl err, drop_file tmp s)
                   | (Inr _, s) \<Rightarrow> (Inr Copied, exists_cache_insert e now repo_id block_id (length src) s))))"

definition remove_dir_all :: "string \<Rightarrow> string list \<times> BlockStorage \<Rightarrow> string list \<times> BlockStorage" where
  "remove_dir_all dir = (\<lambda>(dirs, s). (filter (\<lambda>d. d \<noteq> dir) dirs, s\<lparr>bs_files := filter (\<lambda>(path, _). take 1 path \<noteq> [dir]) (bs_files s)\<rparr>))"

definition purge_legacy_layout :: "string list \<times> BlockStorage \<Rightarrow> nat \<times> string list \<times> BlockStorage" where
  "purge_legacy_layout = (\<lambda>(dirs, s). (length (legacy_layout_dirs dirs), fold remove_dir_all (legacy_layout_dirs dirs) (dirs, s)))"

definition str_ends_with :: "'a list \<Rightarrow> 'a list \<Rightarrow> bool" where
  "str_ends_with str suffix \<longleftrightarrow> length suffix \<le> length str \<and> drop (length str - length suffix) str = suffix"

fun layout_temp :: "string list \<Rightarrow> bool" where
  "layout_temp [a, repo, p, name] \<longleftrightarrow> a = REPOS_DIR \<and> str_ends_with name ''.tmp''"
| "layout_temp _ \<longleftrightarrow> False"

definition purge_layout_temp_files :: "BlockStorage \<Rightarrow> nat \<times> BlockStorage" where
  "purge_layout_temp_files s =
     (length (filter (\<lambda>(path, _). layout_temp path) (bs_files s)),
      s\<lparr>bs_files := filter (\<lambda>(path, _). \<not> layout_temp path) (bs_files s)\<rparr>)"

section \<open>One run\<close>

record MigrationReport =
  mr_repositories :: nat
  mr_references :: nat
  mr_copied :: nat
  mr_already_present :: nat
  mr_missing_sources :: nat
  mr_legacy_files :: nat
  mr_legacy_bytes :: nat
  mr_purged_dirs :: nat
  mr_stale_temp_files :: nat
  mr_already_migrated :: bool
  mr_dry_run :: bool
  mr_missing_block_ids :: "string list"

definition mr_summary :: "MigrationReport \<Rightarrow> string" where
  "mr_summary r =
     (if mr_already_migrated r then ''block layout already current ('' @ show_nat (mr_repositories r) @ '' repositories)''
      else ''block layout migration'' @ (if mr_dry_run r then '' (dry run)'' else []) @ '': '' @
        show_nat (mr_repositories r) @ '' repositories, '' @ show_nat (mr_references r) @ '' references, '' @
        show_nat (mr_copied r) @ '' copied, '' @ show_nat (mr_already_present r) @ '' already present, '' @
        show_nat (mr_missing_sources r) @ '' missing, '' @ show_nat (mr_legacy_files r) @ '' legacy files ('' @
        show_nat (mr_legacy_bytes r) @ '' bytes) purged, '' @ show_nat (mr_purged_dirs r) @ '' legacy dirs removed, '' @
        show_nat (mr_stale_temp_files r) @ '' stale temp files removed'' @
        (if mr_missing_sources r > 0
         then '' '' @ [CHR 0xE2, CHR 0x80, CHR 0x94] @ '' referenced blocks were already missing from the legacy store'' else []))"

datatype MigrationMode = DryRun | ApplyRun

text \<open>One row of \<open>fs_objects\<close> with its library; \<open>FileObjectData\<close> keeps only the block ids.\<close>

record object_row =
  or_repo :: string
  or_fs_id :: string
  or_type :: int
  or_data :: string

definition collect_references :: "(string \<Rightarrow> string list option) \<Rightarrow> object_row list \<Rightarrow> (string \<times> string) list" where
  "collect_references parse rows =
     (let repo_ids = remdups (map or_repo rows) in
      fold (\<lambda>repo_id out.
        fold (\<lambda>row out.
          case parse (or_data row) of
            None \<Rightarrow> out
          | Some ids \<Rightarrow> fold (\<lambda>block_id out. insort_insert (repo_id, block_id) out) ids out)
          (filter (\<lambda>row. or_repo row = repo_id \<and> or_type row = as_i8 SEAF_METADATA_TYPE_FILE) rows) out)
        repo_ids [])"

definition note_missing :: "string \<Rightarrow> MigrationReport \<Rightarrow> MigrationReport" where
  "note_missing block_id r =
     r\<lparr>mr_missing_sources := Suc (mr_missing_sources r),
       mr_missing_block_ids := (if length (mr_missing_block_ids r) < 100 then mr_missing_block_ids r @ [block_id] else mr_missing_block_ids r)\<rparr>"

fun dry_run_refs ::
    "block_env \<Rightarrow> int \<Rightarrow> string list \<Rightarrow> (string \<times> string) list \<Rightarrow> MigrationReport \<Rightarrow> BlockStorage \<Rightarrow> MigrationReport" where
  "dry_run_refs e now legacy_ids [] r s = r"
| "dry_run_refs e now legacy_ids ((repo_id, block_id) # refs) r s =
     (if block_id \<notin> set legacy_ids then dry_run_refs e now legacy_ids refs (note_missing block_id r) s
      else case has_block e now repo_id block_id s of
             (True, s) \<Rightarrow> dry_run_refs e now legacy_ids refs (r\<lparr>mr_already_present := Suc (mr_already_present r)\<rparr>) s
           | (False, s) \<Rightarrow> dry_run_refs e now legacy_ids refs (r\<lparr>mr_copied := Suc (mr_copied r)\<rparr>) s)"

fun apply_refs ::
    "block_env \<Rightarrow> int \<Rightarrow> (nat \<Rightarrow> string) \<Rightarrow> nat \<Rightarrow> (string \<times> string) list \<Rightarrow> MigrationReport \<Rightarrow> BlockStorage \<Rightarrow>
     MigrationReport result \<times> BlockStorage" where
  "apply_refs e now u index [] r s = (Inr r, s)"
| "apply_refs e now u index ((repo_id, block_id) # refs) r s =
     (case migrate_legacy_block e now (u index) repo_id block_id s of
        (Inr Copied, s) \<Rightarrow> apply_refs e now u (Suc index) refs (r\<lparr>mr_copied := Suc (mr_copied r)\<rparr>) s
      | (Inr AlreadyPresent, s) \<Rightarrow> apply_refs e now u (Suc index) refs (r\<lparr>mr_already_present := Suc (mr_already_present r)\<rparr>) s
      | (Inr MissingSource, s) \<Rightarrow> apply_refs e now u (Suc index) refs (note_missing block_id r) s
      | (Inl err, s) \<Rightarrow>
          (Inl (Internal (''cannot migrate block '' @ block_id @ '' of repository '' @ repo_id @ '': '' @ io_display err)), s))"

definition run_migration ::
    "block_env \<Rightarrow> int \<Rightarrow> (nat \<Rightarrow> string) \<Rightarrow> (string \<Rightarrow> string list option) \<Rightarrow> object_row list \<Rightarrow> MigrationMode \<Rightarrow> block_root \<Rightarrow>
     MigrationReport result \<times> block_root" where
  "run_migration e now u parse rows mode root =
     (let dirs = lr_dirs root; s = open_store root;
          old_files = legacy_blocks dirs s;
          refs = (if old_files = [] then [] else collect_references parse rows);
          report = \<lparr>mr_repositories = length (remdups (map fst refs)), mr_references = length refs, mr_copied = 0, mr_already_present = 0,
            mr_missing_sources = 0, mr_legacy_files = length old_files, mr_legacy_bytes = sum_list (map snd old_files),
            mr_purged_dirs = 0, mr_stale_temp_files = 0, mr_already_migrated = False, mr_dry_run = (mode = DryRun),
            mr_missing_block_ids = []\<rparr>
      in
      if refs = [] \<and> old_files = []
      then (let report = report\<lparr>mr_already_migrated := True\<rparr> in
            if mode = ApplyRun
            then (case purge_layout_temp_files s of
                    (n, s) \<Rightarrow> (Inr (report\<lparr>mr_stale_temp_files := n\<rparr>), root\<lparr>lr_files := bs_files (write_layout_marker s)\<rparr>))
            else (Inr report, root))
      else if mode = DryRun then (Inr (dry_run_refs e now (map fst old_files) refs report s), root)
      else (case apply_refs e now u 0 refs report s of
              (Inl err, s) \<Rightarrow> (Inl err, root\<lparr>lr_files := bs_files s\<rparr>)
            | (Inr report, s) \<Rightarrow>
                (case purge_legacy_layout (dirs, s) of
                   (purged, dirs, s) \<Rightarrow>
                (case purge_layout_temp_files s of
                   (n, s) \<Rightarrow> (Inr (report\<lparr>mr_purged_dirs := purged, mr_stale_temp_files := n\<rparr>),
                              \<lparr>lr_dirs = dirs, lr_files = bs_files (write_layout_marker s)\<rparr>)))))"

definition migration_pending :: "block_root \<Rightarrow> bool" where
  "migration_pending root = legacy_layout_present (lr_dirs root)"

section \<open>References\<close>

lemma set_fold_insort: "p \<in> set (fold (\<lambda>b out. insort_insert (r, b) out) ids out) \<longleftrightarrow> p \<in> set out \<or> fst p = r \<and> snd p \<in> set ids"
proof (induction ids arbitrary: out)
  case (Cons i ids)
  have "p = (r, i) \<longleftrightarrow> fst p = r \<and> snd p = i" by (cases p) simp
  then show ?case unfolding fold_simps Cons.IH set_insort_insert by (auto simp only: insert_iff list.set)
qed simp

definition row_refs :: "(string \<Rightarrow> string list option) \<Rightarrow> object_row \<Rightarrow> string list" where
  "row_refs parse row = (if or_type row = as_i8 SEAF_METADATA_TYPE_FILE then (case parse (or_data row) of None \<Rightarrow> [] | Some ids \<Rightarrow> ids) else [])"

lemma set_fold_rows:
  "p \<in> set (fold (\<lambda>row out. case parse (or_data row) of None \<Rightarrow> out | Some ids \<Rightarrow> fold (\<lambda>b out. insort_insert (r, b) out) ids out)
     (filter (\<lambda>row. or_repo row = r \<and> or_type row = as_i8 SEAF_METADATA_TYPE_FILE) rows) out) \<longleftrightarrow>
   p \<in> set out \<or> fst p = r \<and> (\<exists>row\<in>set rows. or_repo row = r \<and> snd p \<in> set (row_refs parse row))"
proof (induction rows arbitrary: out)
  case (Cons row rows)
  show ?case
  proof (cases "or_repo row = r \<and> or_type row = as_i8 SEAF_METADATA_TYPE_FILE")
    case True
    have keep: "filter (\<lambda>row. or_repo row = r \<and> or_type row = as_i8 SEAF_METADATA_TYPE_FILE) (row # rows) =
        row # filter (\<lambda>row. or_repo row = r \<and> or_type row = as_i8 SEAF_METADATA_TYPE_FILE) rows" unfolding filter.simps(2) by (rule if_P [OF True])
    have refs: "row_refs parse row = (case parse (or_data row) of None \<Rightarrow> [] | Some ids \<Rightarrow> ids)" using True by (simp add: row_refs_def)
    have one: "p \<in> set (case parse (or_data row) of None \<Rightarrow> out | Some ids \<Rightarrow> fold (\<lambda>b out. insort_insert (r, b) out) ids out) \<longleftrightarrow>
        p \<in> set out \<or> fst p = r \<and> snd p \<in> set (row_refs parse row)" for out
      unfolding refs by (cases "parse (or_data row)") (simp_all add: set_fold_insort)
    show ?thesis unfolding keep fold_simps Cons.IH one list.set bex_simps using True by blast
  next
    case False
    have skip: "filter (\<lambda>row. or_repo row = r \<and> or_type row = as_i8 SEAF_METADATA_TYPE_FILE) (row # rows) =
        filter (\<lambda>row. or_repo row = r \<and> or_type row = as_i8 SEAF_METADATA_TYPE_FILE) rows" unfolding filter.simps(2) by (rule if_not_P [OF False])
    have "or_repo row = r \<Longrightarrow> row_refs parse row = []" using False by (simp add: row_refs_def)
    then show ?thesis unfolding skip Cons.IH by auto
  qed
qed simp

lemma set_fold_repos:
  "p \<in> set (fold (\<lambda>r out. fold (\<lambda>row out. case parse (or_data row) of None \<Rightarrow> out | Some ids \<Rightarrow> fold (\<lambda>b out. insort_insert (r, b) out) ids out)
     (filter (\<lambda>row. or_repo row = r \<and> or_type row = as_i8 SEAF_METADATA_TYPE_FILE) rows) out) rs out) \<longleftrightarrow>
   p \<in> set out \<or> (\<exists>row\<in>set rows. or_repo row \<in> set rs \<and> or_repo row = fst p \<and> snd p \<in> set (row_refs parse row))"
proof (induction rs arbitrary: out)
  case (Cons r rs)
  show ?case unfolding fold_simps Cons.IH set_fold_rows by auto
qed simp

lemma set_collect_references:
  "(r, i) \<in> set (collect_references parse rows) \<longleftrightarrow> (\<exists>row\<in>set rows. or_repo row = r \<and> i \<in> set (row_refs parse row))"
  by (auto simp: collect_references_def Let_def set_fold_repos)

section \<open>What is copied\<close>

lemma legacy_not_block [simp]: "legacy_block_path i \<noteq> block_path e r j" "legacy_block_path i \<noteq> tmp_path e u r j"
    "legacy_block_path i \<noteq> repo_dir e r @ [m]"
  by (simp_all add: legacy_block_path_def block_path_def tmp_path_def repo_dir_def)

lemma file_at_ensure_short: "length q \<le> 2 \<Longrightarrow> file_at (ensure_repo_dirs e r s) q = file_at s q"
  by (auto simp: ensure_repo_dirs_def repo_dir_def)

lemma migrate_cases:
  assumes "migrate_legacy_block e now u r i s = (res, s')"
  obtains (refused) err where "res = Inl err" "s' = s"
  | (missing) "res = Inr MissingSource" "s' = s" "file_at s (legacy_block_path i) = None"
  | (present) d d' where "res = Inr AlreadyPresent" "s' = s" "is_valid_block_id i" "file_at s (legacy_block_path i) = Some d"
      "file_at s (block_path e r i) = Some d'" "length d' = length d"
  | (copied) d where "res = Inr Copied" "is_valid_block_id i" "file_at s (legacy_block_path i) = Some d" "file_at s (block_path e r i) = None"
      "s' = exists_cache_insert e now r i (length d)
        (put_file (block_path e r i) d (drop_file (tmp_path e u r i) (put_file (tmp_path e u r i) d (ensure_repo_dirs e r s))))"
proof (cases "is_valid_block_id i")
  case False
  then show thesis using assms by (intro refused [of invalid_block_id]) (simp_all add: migrate_legacy_block_def)
next
  case valid: True
  show thesis
  proof (cases "file_at s (legacy_block_path i)")
    case None
    then show thesis using assms valid missing by (simp add: migrate_legacy_block_def)
  next
    case src: (Some d)
    show thesis
    proof (cases "file_at s (block_path e r i)")
      case None
      then show thesis using assms valid src copied [of d] by (simp add: migrate_legacy_block_def rename_file_def Let_def)
    next
      case (Some d')
      then show thesis using assms valid src present [of d d'] refused by (auto simp: migrate_legacy_block_def Let_def split: if_splits)
    qed
  qed
qed

lemma migrate_short:
  assumes "migrate_legacy_block e now u r i s = (res, s')" "length q \<le> 2"
  shows "file_at s' q = file_at s q"
  using assms(1)
proof (cases rule: migrate_cases)
  case (copied d)
  have "q \<noteq> block_path e r i" "q \<noteq> tmp_path e u r i" using assms(2) by (auto simp: block_path_def tmp_path_def repo_dir_def)
  then show ?thesis using copied(5) assms(2) by (simp add: file_at_ensure_short)
qed auto

lemma migrate_block:
  assumes "migrate_legacy_block e now u r i s = (res, s')" "is_valid_block_id j"
  shows "file_at s' (block_path e r' j) =
    (if res = Inr Copied \<and> block_path e r' j = block_path e r i then file_at s (legacy_block_path i) else file_at s (block_path e r' j))"
  using assms(1)
proof (cases rule: migrate_cases)
  case (copied d)
  have "block_path e r' j \<noteq> tmp_path e u r i" using tmp_not_block [OF copied(2) assms(2)] by metis
  then show ?thesis using copied by simp
qed auto

text \<open>Where a block of a library comes from after the copies: its own directory, or the flat one if the library references it.\<close>

definition migrated :: "block_env \<Rightarrow> (string \<times> string) list \<Rightarrow> BlockStorage \<Rightarrow> string \<Rightarrow> string \<Rightarrow> string option" where
  "migrated e refs s r j =
     (case file_at s (block_path e r j) of
        Some d \<Rightarrow> Some d
      | None \<Rightarrow> if \<exists>r'. (r', j) \<in> set refs \<and> bv_sha1 e r' = bv_sha1 e r then file_at s (legacy_block_path j) else None)"

lemma apply_refs_short: "apply_refs e now u n refs rep s = (res, s') \<Longrightarrow> length q \<le> 2 \<Longrightarrow> file_at s' q = file_at s q"
proof (induction refs arbitrary: n rep s)
  case (Cons p refs)
  obtain r i where p: "p = (r, i)" by fastforce
  obtain out s1 where m: "migrate_legacy_block e now (u n) r i s = (out, s1)" by fastforce
  note one = migrate_short [OF m Cons.prems(2)]
  show ?case
    using m
  proof (cases rule: migrate_cases)
    case (refused err)
    then show ?thesis using Cons.prems(1) p m by simp
  qed (use Cons p m one in auto)
qed simp

lemma apply_refs_blocks:
  "apply_refs e now u n refs rep s = (Inr rep', s') \<Longrightarrow> is_valid_block_id j \<Longrightarrow>
   file_at s' (block_path e r j) = migrated e refs s r j"
proof (induction refs arbitrary: n rep s)
  case Nil
  then show ?case by (auto simp: migrated_def split: option.splits)
next
  case (Cons p refs)
  obtain r0 i where p: "p = (r0, i)" by fastforce
  obtain out s1 where m: "migrate_legacy_block e now (u n) r0 i s = (out, s1)" by fastforce
  note blk = migrate_block [OF m Cons.prems(2), of r]
  have leg: "file_at s1 (legacy_block_path k) = file_at s (legacy_block_path k)" for k
    by (rule migrate_short [OF m]) (simp add: legacy_block_path_def)
  have step: "migrated e refs s1 r j = migrated e (p # refs) s r j" if "out = Inr x" for x
    using m
  proof (cases rule: migrate_cases)
    case (copied d)
    show ?thesis
    proof (cases "block_path e r j = block_path e r0 i")
      case True
      then have eq: "block_path e r j = block_path e r0 i" "j = i" "bv_sha1 e r0 = bv_sha1 e r" by (simp_all add: block_path_eq)
      have "file_at s1 (block_path e r j) = Some d" using blk copied(1,3) eq(1) by simp
      moreover have "file_at s (block_path e r j) = None" unfolding eq(1) by (rule copied(4))
      ultimately show ?thesis using copied(3) p eq(2,3) by (auto simp: migrated_def)
    next
      case False
      then have "file_at s1 (block_path e r j) = file_at s (block_path e r j)" "\<not> (j = i \<and> bv_sha1 e r0 = bv_sha1 e r)"
        using blk by (auto simp: block_path_eq)
      then show ?thesis using p by (auto simp: migrated_def leg split: option.splits)
    qed
  next
    case (present d d')
    then have "block_path e r j = block_path e r0 i \<Longrightarrow> file_at s (block_path e r j) = Some d'" by simp
    then show ?thesis using present(2) p by (auto simp: migrated_def block_path_eq split: option.splits)
  qed (use that p in \<open>auto simp: migrated_def split: option.splits\<close>)
  from m show ?case
  proof (cases rule: migrate_cases)
    case (refused err)
    then show ?thesis using Cons.prems(1) p m by simp
  qed (use Cons.IH [OF _ Cons.prems(2)] Cons.prems(1) p m step in \<open>fastforce+\<close>)
qed

lemma apply_refs_valid:
  "apply_refs e now u n refs rep s = (Inr rep', s') \<Longrightarrow> (r, i) \<in> set refs \<Longrightarrow> is_valid_block_id i"
proof (induction refs arbitrary: n rep s)
  case (Cons p refs)
  obtain r0 i0 where p: "p = (r0, i0)" by fastforce
  obtain out s1 where m: "migrate_legacy_block e now (u n) r0 i0 s = (out, s1)" by fastforce
  have "is_valid_block_id i0" using Cons.prems(1) p by (auto simp: migrate_legacy_block_def split: if_splits)
  moreover have "\<exists>n rep. apply_refs e now u n refs rep s1 = (Inr rep', s')"
    using Cons.prems(1) p m by (auto split: sum.splits LegacyCopyOutcome.splits)
  ultimately show ?case using Cons.IH Cons.prems(2) p by auto
qed simp

section \<open>What is left\<close>

lemma map_of_filter_keys: "map_of (filter (\<lambda>(k, _). P k) m) q = (if P q then map_of m q else None)"
  by (induction m) auto

lemma remove_dirs_files:
  "fold remove_dir_all ds (dirs, s) = (dirs', s') \<Longrightarrow>
   dirs' = filter (\<lambda>d. d \<notin> set ds) dirs \<and> file_at s' q = (if \<exists>d\<in>set ds. take 1 q = [d] then None else file_at s q)"
proof (induction ds arbitrary: dirs s)
  case (Cons d ds)
  let ?s = "s\<lparr>bs_files := filter (\<lambda>(path, _). take 1 path \<noteq> [d]) (bs_files s)\<rparr>"
  have "remove_dir_all d (dirs, s) = (filter (\<lambda>x. x \<noteq> d) dirs, ?s)" by (simp add: remove_dir_all_def)
  then have "fold remove_dir_all ds (filter (\<lambda>x. x \<noteq> d) dirs, ?s) = (dirs', s')" using Cons.prems by (simp only: fold_simps o_apply)
  from Cons.IH [OF this] show ?case by (auto simp: file_at_def map_of_filter_keys conj_commute)
qed simp

lemma purge_legacy:
  assumes "purge_legacy_layout (dirs, s) = (n, dirs', s')"
  shows "legacy_layout_dirs dirs' = []" "set dirs' \<subseteq> set dirs"
    "file_at s' q = (if \<exists>d\<in>set (legacy_layout_dirs dirs). take 1 q = [d] then None else file_at s q)"
  using assms remove_dirs_files [of "legacy_layout_dirs dirs" dirs s dirs' s' q]
  by (auto simp: purge_legacy_layout_def legacy_layout_dirs_def filter_empty_conv)

lemma purge_temp:
  "file_at (snd (purge_layout_temp_files s)) q = (if layout_temp q then None else file_at s q)"
  by (simp add: purge_layout_temp_files_def file_at_def map_of_filter_keys)

lemma valid_not_temp: "is_valid_block_id j \<Longrightarrow> \<not> layout_temp (block_path e r j)"
proof
  assume valid: "is_valid_block_id j" and "layout_temp (block_path e r j)"
  then have "str_ends_with j ''.tmp''" by (simp add: block_path_def repo_dir_def)
  then have "drop (length j - 4) j = ''.tmp''" by (simp add: str_ends_with_def eval_nat_numeral)
  then have "CHR ''t'' \<in> set (drop (length j - 4) j)" by simp
  then have "CHR ''t'' \<in> set j" by (rule in_set_dropD)
  then have "hexdigit (CHR ''t'')" using valid by (auto simp: is_valid_block_id_def list_all_iff)
  moreover have "\<not> hexdigit (CHR ''t'')" by code_simp
  ultimately show False by simp
qed

lemma block_not_legacy:
  assumes "d \<in> set (legacy_layout_dirs dirs)"
  shows "take 1 (block_path e r j) \<noteq> [d]"
  using assms by (auto simp: legacy_layout_dirs_def block_path_def repo_dir_def REPOS_DIR_def)

lemma finish_files:
  assumes "purge_legacy_layout (dirs, s) = (n, dirs', s1)" "purge_layout_temp_files s1 = (m, s2)"
  shows "is_valid_block_id j \<Longrightarrow> file_at (write_layout_marker s2) (block_path e r j) = file_at s (block_path e r j)"
    and "d \<in> set (legacy_layout_dirs dirs) \<Longrightarrow> file_at (write_layout_marker s2) (d # q) = None"
    and "layout_is_current (write_layout_marker s2)"
proof -
  have s2: "file_at s2 p = (if layout_temp p then None else if \<exists>d\<in>set (legacy_layout_dirs dirs). take 1 p = [d] then None else file_at s p)" for p
    using purge_temp [of s1 p] purge_legacy(3) [OF assms(1), of p] assms(2) by simp
  have mark: "block_path e r j \<noteq> [LAYOUT_MARKER_FILE]" by (simp add: block_path_def repo_dir_def)
  then show "is_valid_block_id j \<Longrightarrow> file_at (write_layout_marker s2) (block_path e r j) = file_at s (block_path e r j)"
    using block_not_legacy by (auto simp: write_layout_marker_def s2 valid_not_temp)
  show "d \<in> set (legacy_layout_dirs dirs) \<Longrightarrow> file_at (write_layout_marker s2) (d # q) = None"
    by (auto simp: write_layout_marker_def s2 legacy_layout_dirs_def LAYOUT_MARKER_FILE_def)
  have "trim LAYOUT_VERSION = LAYOUT_VERSION" by code_simp
  then show "layout_is_current (write_layout_marker s2)" by (simp add: layout_is_current_def write_layout_marker_def)
qed

section \<open>The migration\<close>

lemma file_at_open [simp]: "file_at (open_store (root\<lparr>lr_files := bs_files s\<rparr>)) q = file_at s q"
    "file_at (open_store \<lparr>lr_dirs = ds, lr_files = bs_files s\<rparr>) q = file_at s q"
    "file_at (s\<lparr>bs_files := fs\<rparr>) q = map_of fs q"
  by (simp_all add: open_store_def file_at_def)

lemma run_migration_apply:
  assumes "legacy_blocks (lr_dirs root) (open_store root) \<noteq> []"
  obtains rep where "run_migration e now u parse rows ApplyRun root =
    (case apply_refs e now u 0 (collect_references parse rows) rep (open_store root) of
       (Inl err, s) \<Rightarrow> (Inl err, root\<lparr>lr_files := bs_files s\<rparr>)
     | (Inr report, s) \<Rightarrow>
         (case purge_legacy_layout (lr_dirs root, s) of
            (purged, dirs, s) \<Rightarrow>
         (case purge_layout_temp_files s of
            (n, s) \<Rightarrow> (Inr (report\<lparr>mr_purged_dirs := purged, mr_stale_temp_files := n\<rparr>),
                       \<lparr>lr_dirs = dirs, lr_files = bs_files (write_layout_marker s)\<rparr>))))"
  using assms unfolding run_migration_def Let_def by (simp only: simp_thms if_False if_True MigrationMode.distinct)

lemma migrated_reads:
  assumes "inj_on (bv_sha1 e) R" "or_repo ` set rows \<subseteq> R" "r \<in> R" "is_valid_block_id i"
    and "file_at s' (block_path e r i) = migrated e (collect_references parse rows) s r i"
  shows "read_block e r i s' =
    (case read_block e r i s of
       Inr d \<Rightarrow> Inr d
     | Inl _ \<Rightarrow> if \<exists>row\<in>set rows. or_repo row = r \<and> i \<in> set (row_refs parse row)
                then ok_or IoNotFound (file_at s (legacy_block_path i)) else Inl IoNotFound)"
proof -
  have "r' \<in> R" if "(r', i) \<in> set (collect_references parse rows)" for r'
    using that assms(2) by (auto simp: set_collect_references)
  then have "(\<exists>r'. (r', i) \<in> set (collect_references parse rows) \<and> bv_sha1 e r' = bv_sha1 e r) \<longleftrightarrow>
      (\<exists>row\<in>set rows. or_repo row = r \<and> i \<in> set (row_refs parse row))"
    using assms(1,3) unfolding set_collect_references [symmetric] by (auto dest: inj_onD)
  then show ?thesis using assms(4,5) by (auto simp: read_block_def migrated_def ok_or_def split: option.splits)
qed

text \<open>
  C18: The migration of a block root that still has blocks in the flat layout. If it succeeds, a library holds
  exactly the blocks it held before and, of the flat blocks, those one of its file objects references,
  byte for byte; no library gains a block it does not reference, the flat tree is gone and the root is
  marked. If it fails, every file of the flat tree is still there. A dry run changes nothing.
\<close>

theorem migration_exact:
  assumes "legacy_blocks (lr_dirs root) (open_store root) \<noteq> []" "inj_on (bv_sha1 e) R" "or_repo ` set rows \<subseteq> R"
    and "run_migration e now u parse rows ApplyRun root = (res, root')"
  shows "(case res of
      Inl err \<Rightarrow> lr_dirs root' = lr_dirs root \<and> (\<forall>d name. file_at (open_store root') [d, name] = file_at (open_store root) [d, name])
    | Inr rep \<Rightarrow>
        (\<forall>r i. r \<in> R \<longrightarrow> is_valid_block_id i \<longrightarrow>
          read_block e r i (open_store root') =
            (case read_block e r i (open_store root) of
               Inr d \<Rightarrow> Inr d
             | Inl _ \<Rightarrow> if \<exists>row\<in>set rows. or_repo row = r \<and> i \<in> set (row_refs parse row)
                        then ok_or IoNotFound (file_at (open_store root) (legacy_block_path i)) else Inl IoNotFound)) \<and>
        \<not> migration_pending root' \<and> layout_is_current (open_store root') \<and>
        (\<forall>d\<in>set (legacy_layout_dirs (lr_dirs root)). \<forall>q. file_at (open_store root') (d # q) = None)) \<and>
    snd (run_migration e now u parse rows DryRun root) = root"
proof -
  obtain rep where run: "run_migration e now u parse rows ApplyRun root =
    (case apply_refs e now u 0 (collect_references parse rows) rep (open_store root) of
       (Inl err, s) \<Rightarrow> (Inl err, root\<lparr>lr_files := bs_files s\<rparr>)
     | (Inr report, s) \<Rightarrow>
         (case purge_legacy_layout (lr_dirs root, s) of
            (purged, dirs, s) \<Rightarrow>
         (case purge_layout_temp_files s of
            (n, s) \<Rightarrow> (Inr (report\<lparr>mr_purged_dirs := purged, mr_stale_temp_files := n\<rparr>),
                       \<lparr>lr_dirs = dirs, lr_files = bs_files (write_layout_marker s)\<rparr>))))"
    by (rule run_migration_apply [OF assms(1)])
  obtain out s where a: "apply_refs e now u 0 (collect_references parse rows) rep (open_store root) = (out, s)" by fastforce
  have dry: "snd (run_migration e now u parse rows DryRun root) = root"
    unfolding run_migration_def Let_def by simp
  show ?thesis
  proof (cases out)
    case (Inl err)
    then have "res = Inl err" "root' = root\<lparr>lr_files := bs_files s\<rparr>" using run a assms(4) by simp_all
    then show ?thesis using dry apply_refs_short [OF a] by simp
  next
    case (Inr rep')
    obtain n dirs s1 where p1: "purge_legacy_layout (lr_dirs root, s) = (n, dirs, s1)" by (metis prod_cases3)
    obtain m s2 where p2: "purge_layout_temp_files s1 = (m, s2)" by fastforce
    have out: "res = Inr (rep'\<lparr>mr_purged_dirs := n, mr_stale_temp_files := m\<rparr>)"
        "root' = \<lparr>lr_dirs = dirs, lr_files = bs_files (write_layout_marker s2)\<rparr>"
      using run a Inr p1 p2 assms(4) by simp_all
    have blocks: "file_at (open_store root') (block_path e r i) = migrated e (collect_references parse rows) (open_store root) r i"
      if "is_valid_block_id i" for r i
      using finish_files(1) [OF p1 p2 that] apply_refs_blocks [OF a [unfolded Inr] that] by (simp add: out(2))
    have reads: "read_block e r i (open_store root') =
            (case read_block e r i (open_store root) of
               Inr d \<Rightarrow> Inr d
             | Inl _ \<Rightarrow> if \<exists>row\<in>set rows. or_repo row = r \<and> i \<in> set (row_refs parse row)
                        then ok_or IoNotFound (file_at (open_store root) (legacy_block_path i)) else Inl IoNotFound)"
      if "r \<in> R" "is_valid_block_id i" for r i
      by (rule migrated_reads [OF assms(2,3) that blocks [OF that(2)]])
    have "\<not> migration_pending root'" using purge_legacy(1) [OF p1] by (simp add: migration_pending_def legacy_layout_present_def out(2))
    moreover have "layout_is_current (open_store root')"
      using finish_files(3) [OF p1 p2] by (simp add: layout_is_current_def out(2))
    moreover have "file_at (open_store root') (d # q) = None" if "d \<in> set (legacy_layout_dirs (lr_dirs root))" for d q
      using finish_files(2) [OF p1 p2 that] by (simp add: out(2))
    ultimately show ?thesis using reads dry out(1) by simp
  qed
qed

text \<open>A root with one block that two libraries reference and one that none does.\<close>

definition demo_root :: block_root where
  "demo_root = \<lparr>lr_dirs = [''bb'', REPOS_DIR, ''cc''],
     lr_files = [(legacy_block_path (replicate 40 (CHR ''b'')), ''xyz''), (legacy_block_path (replicate 40 (CHR ''c'')), ''old'')]\<rparr>"

definition demo_root_env :: block_env where
  "demo_root_env = \<lparr>bv_sha1 = id, bv_hard_links = True\<rparr>"

definition demo_rows :: "object_row list" where
  "demo_rows = [\<lparr>or_repo = ''q'', or_fs_id = ''f'', or_type = 1, or_data = ''bc''\<rparr>, \<lparr>or_repo = ''r'', or_fs_id = ''g'', or_type = 1, or_data = ''b''\<rparr>,
     \<lparr>or_repo = ''r'', or_fs_id = ''h'', or_type = 3, or_data = ''c''\<rparr>]"

definition demo_parse :: "string \<Rightarrow> string list option" where
  "demo_parse str = Some (map (\<lambda>c. replicate 40 c) str)"

theorem migration_exact_witness:
  "(\<exists>rep root'. run_migration demo_root_env 0 (\<lambda>n. ''u'') demo_parse demo_rows ApplyRun demo_root = (Inr rep, root') \<and>
     read_block demo_root_env ''r'' (replicate 40 (CHR ''b'')) (open_store root') = Inr ''xyz'' \<and>
     read_block demo_root_env ''q'' (replicate 40 (CHR ''b'')) (open_store root') = Inr ''xyz'' \<and>
     read_block demo_root_env ''r'' (replicate 40 (CHR ''c'')) (open_store root') = Inl IoNotFound \<and> \<not> migration_pending root')"
proof -
  let ?run = "run_migration demo_root_env 0 (\<lambda>n. ''u'') demo_parse demo_rows ApplyRun demo_root"
  obtain res root' where run: "?run = (res, root')" by fastforce
  have "\<not> isl (fst ?run)" by code_simp
  then obtain rep where res: "res = Inr rep" using run by (cases res) auto
  have old: "legacy_blocks (lr_dirs demo_root) (open_store demo_root) \<noteq> []" by code_simp
  have inj: "inj_on (bv_sha1 demo_root_env) UNIV" by (simp add: demo_root_env_def)
  have valid: "is_valid_block_id (replicate 40 (CHR ''b''))" "is_valid_block_id (replicate 40 (CHR ''c''))" by code_simp+
  have before: "read_block demo_root_env ''r'' (replicate 40 (CHR ''b'')) (open_store demo_root) = Inl IoNotFound"
      "read_block demo_root_env ''q'' (replicate 40 (CHR ''b'')) (open_store demo_root) = Inl IoNotFound"
      "read_block demo_root_env ''r'' (replicate 40 (CHR ''c'')) (open_store demo_root) = Inl IoNotFound"
      "file_at (open_store demo_root) (legacy_block_path (replicate 40 (CHR ''b''))) = Some ''xyz''"
    by code_simp+
  have refs: "list_ex (\<lambda>row. or_repo row = ''r'' \<and> replicate 40 (CHR ''b'') \<in> set (row_refs demo_parse row)) demo_rows"
      "list_ex (\<lambda>row. or_repo row = ''q'' \<and> replicate 40 (CHR ''b'') \<in> set (row_refs demo_parse row)) demo_rows"
      "\<not> list_ex (\<lambda>row. or_repo row = ''r'' \<and> replicate 40 (CHR ''c'') \<in> set (row_refs demo_parse row)) demo_rows"
    by code_simp+
  have all: "\<forall>r i. r \<in> UNIV \<longrightarrow> is_valid_block_id i \<longrightarrow>
      read_block demo_root_env r i (open_store root') =
        (case read_block demo_root_env r i (open_store demo_root) of
           Inr d \<Rightarrow> Inr d
         | Inl _ \<Rightarrow> if \<exists>row\<in>set demo_rows. or_repo row = r \<and> i \<in> set (row_refs demo_parse row)
                    then ok_or IoNotFound (file_at (open_store demo_root) (legacy_block_path i)) else Inl IoNotFound)"
    and gone: "\<not> migration_pending root'"
    using migration_exact [OF old inj subset_UNIV run] unfolding res sum.case by (blast, blast)
  note at = all [THEN spec, THEN spec, THEN mp, OF UNIV_I, THEN mp]
  have "read_block demo_root_env ''r'' (replicate 40 (CHR ''b'')) (open_store root') = Inr ''xyz''"
      "read_block demo_root_env ''q'' (replicate 40 (CHR ''b'')) (open_store root') = Inr ''xyz''"
      "read_block demo_root_env ''r'' (replicate 40 (CHR ''c'')) (open_store root') = Inl IoNotFound"
    unfolding at [OF valid(1)] at [OF valid(2)] before sum.case list_ex_iff [symmetric] ok_or_def option.case
    by (simp_all only: refs if_True if_False)
  then show ?thesis using run res gone by blast
qed

section \<open>Where a run does not finish the work\<close>

lemma legacy_blocks_dirs: "legacy_blocks dirs s \<noteq> [] \<Longrightarrow> legacy_layout_present dirs"
  by (auto simp: legacy_blocks_def legacy_layout_present_def)

text \<open>
  One referenced block id that is not an id stops every run, although a file object that does not parse
  at all is skipped and a dry run announces a success.
\<close>

theorem malformed_id_stops_migration:
  assumes "legacy_blocks (lr_dirs root) (open_store root) \<noteq> []"
    and "row \<in> set rows" "i \<in> set (row_refs parse row)" "\<not> is_valid_block_id i"
  shows "\<exists>err. fst (run_migration e now u parse rows ApplyRun root) = Inl err"
    and "migration_pending (snd (run_migration e now u parse rows ApplyRun root))"
    and "\<exists>rep. fst (run_migration e now u parse rows DryRun root) = Inr rep"
proof -
  have ref: "(or_repo row, i) \<in> set (collect_references parse rows)" using assms(2,3) by (auto simp: set_collect_references)
  obtain rep where run: "run_migration e now u parse rows ApplyRun root =
    (case apply_refs e now u 0 (collect_references parse rows) rep (open_store root) of
       (Inl err, s) \<Rightarrow> (Inl err, root\<lparr>lr_files := bs_files s\<rparr>)
     | (Inr report, s) \<Rightarrow>
         (case purge_legacy_layout (lr_dirs root, s) of
            (purged, dirs, s) \<Rightarrow>
         (case purge_layout_temp_files s of
            (n, s) \<Rightarrow> (Inr (report\<lparr>mr_purged_dirs := purged, mr_stale_temp_files := n\<rparr>),
                       \<lparr>lr_dirs = dirs, lr_files = bs_files (write_layout_marker s)\<rparr>))))"
    by (rule run_migration_apply [OF assms(1)])
  obtain out s where a: "apply_refs e now u 0 (collect_references parse rows) rep (open_store root) = (out, s)" by fastforce
  then obtain err where err: "out = Inl err" using apply_refs_valid ref assms(4) by (cases out) blast+
  show "\<exists>err. fst (run_migration e now u parse rows ApplyRun root) = Inl err" using run a err by simp
  show "migration_pending (snd (run_migration e now u parse rows ApplyRun root))"
    using run a err legacy_blocks_dirs [OF assms(1)] by (simp add: migration_pending_def)
  show "\<exists>rep. fst (run_migration e now u parse rows DryRun root) = Inr rep"
    unfolding run_migration_def Let_def by simp
qed

text \<open>
  A purge that was interrupted before it removed an emptied directory is never resumed: the next run
  finds no block, reports that the layout is current and leaves the directory.
\<close>

theorem emptied_dir_left_behind:
  assumes "legacy_blocks (lr_dirs root) (open_store root) = []" "migration_pending root"
  shows "\<exists>rep root'. run_migration e now u parse rows ApplyRun root = (Inr rep, root') \<and>
    mr_already_migrated rep \<and> layout_is_current (open_store root') \<and> migration_pending root'"
proof -
  have "trim LAYOUT_VERSION = LAYOUT_VERSION" by code_simp
  then show ?thesis using assms
    by (simp add: run_migration_def Let_def purge_layout_temp_files_def migration_pending_def layout_is_current_def
        write_layout_marker_def)
qed

end
